(* ===== verification/Prelude.thy ===== *)
theory Prelude
  imports Main "HOL-Library.Word" "HOL-Library.Monad_Syntax" "HOL-Library.Sublist"
begin

text \<open>
  Shared base of the Data Hub development.

  It holds the collections that carry the component proofs, the generic facts on lists, options
  and partial maps that more than one component needs, and the conventions of the model:

  \<^item> An operation that may stop the daemon (a failed \<open>LE_ASSERT\<close>, an \<open>LE_FATAL\<close>, a use of a dead or
    mistyped object, an unbounded recursion) has an \<open>option\<close> result; \<open>None\<close> is that stop. Error codes
    that the C code returns are ordinary values (\<open>le_result_t\<close>).
  \<^item> A C string is the list of its bytes without the terminator; a pointer into a string is the
    suffix that starts there; a pointer that may be \<open>NULL\<close> is an \<open>option\<close>.
  \<^item> A heap object is named by a natural number and found in a partial map of its kind.
\<close>

named_theorems suffix_intros \<open>scanning functions return a suffix of their input\<close>
named_theorems frame_simps \<open>what an operation leaves unchanged\<close>
named_theorems eval_simps \<open>definitions that a closed instance evaluates with\<close>

subsection \<open>Lists\<close>

lemma dropWhile_suffix [suffix_intros]: "suffix (dropWhile P s) s"
  by (rule suffix_dropWhile)

lemma dropWhile_append_all:
  "(\<And>x. x \<in> set xs \<Longrightarrow> P x) \<Longrightarrow> dropWhile P (xs @ ys) = dropWhile P ys"
  by (induction xs) auto

lemma takeWhile_append_stop:
  "(\<And>x. x \<in> set xs \<Longrightarrow> P x) \<Longrightarrow> ys = [] \<or> \<not> P (hd ys) \<Longrightarrow> takeWhile P (xs @ ys) = xs"
  by (induction xs) (auto simp: takeWhile_eq_Nil_iff)

lemma dropWhile_append_stop:
  "(\<And>x. x \<in> set xs \<Longrightarrow> P x) \<Longrightarrow> ys = [] \<or> \<not> P (hd ys) \<Longrightarrow> dropWhile P (xs @ ys) = ys"
  by (induction xs) (auto simp: dropWhile_eq_self_iff)

lemma suffix_length_less: "suffix r s \<Longrightarrow> r \<noteq> s \<Longrightarrow> length r < length s"
  by (auto simp: suffix_def)

lemma suffix_ConsI2 [suffix_intros]: "suffix r s \<Longrightarrow> suffix r (c # s)"
  by (rule suffix_ConsI)

lemma suffix_drop_same: "suffix (drop n s) s"
  by (rule suffix_drop)

lemma drop_shorter: "0 < n \<Longrightarrow> s \<noteq> [] \<Longrightarrow> length (drop n s) < length s"
  by (cases s) auto

text \<open>The element after a given one.\<close>

fun next_in :: "'a list \<Rightarrow> 'a \<Rightarrow> 'a option" where
  "next_in [] y = None"
| "next_in (x # xs) y = (if x = y then (case xs of [] \<Rightarrow> None | z # _ \<Rightarrow> Some z) else next_in xs y)"

text \<open>The last elements of a list.\<close>

definition take_last :: "nat \<Rightarrow> 'a list \<Rightarrow> 'a list" where
  "take_last n xs = drop (length xs - n) xs"

lemma length_take_last [simp]: "length (take_last n xs) = min n (length xs)"
  by (simp add: take_last_def)

lemma take_last_all [simp]: "length xs \<le> n \<Longrightarrow> take_last n xs = xs"
  by (simp add: take_last_def)

lemma take_last_0 [simp]: "take_last 0 xs = []"
  by (simp add: take_last_def)

lemma take_last_Nil [simp]: "take_last n [] = []"
  by (simp add: take_last_def)

lemma take_last_append [simp]: "take_last n (take_last n xs @ ys) = take_last n (xs @ ys)"
  by (cases "length xs \<le> n") (auto simp: take_last_def add.commute)

lemma last_take_last: "0 < n \<Longrightarrow> xs \<noteq> [] \<Longrightarrow> last (take_last n xs) = last xs"
  by (simp add: take_last_def last_drop)

lemma take_last_eq_Nil: "take_last n xs = [] \<longleftrightarrow> n = 0 \<or> xs = []"
  by (cases xs) (auto simp: take_last_def)

lemma set_take_last: "set (take_last n xs) \<subseteq> set xs"
  by (simp add: take_last_def set_drop_subset)

lemma map_take_last: "map f (take_last n xs) = take_last n (map f xs)"
  by (simp add: take_last_def drop_map)

lemma successively_drop: "successively P xs \<Longrightarrow> successively P (drop n xs)"
  by (metis append_take_drop_id successively_append_iff)

subsection \<open>Options\<close>

lemma bind_Some_iff: "Option.bind m f = Some y \<longleftrightarrow> (\<exists>x. m = Some x \<and> f x = Some y)"
  by (cases m) auto

lemma bind_option_case: "Option.bind m f = (case m of None \<Rightarrow> None | Some x \<Rightarrow> f x)"
  by (cases m) auto

lemma bind_None_iff: "Option.bind m f = None \<longleftrightarrow> m = None \<or> (\<exists>x. m = Some x \<and> f x = None)"
  by (cases m) auto

text \<open>An operation that may stop, done for one element after another.\<close>

fun fold_option :: "('a \<Rightarrow> 's \<Rightarrow> 's option) \<Rightarrow> 'a list \<Rightarrow> 's \<Rightarrow> 's option" where
  "fold_option f [] s = Some s"
| "fold_option f (x # xs) s = Option.bind (f x s) (fold_option f xs)"

lemma fold_option_append: "fold_option f (xs @ ys) s = Option.bind (fold_option f xs s) (fold_option f ys)"
  by (induction xs arbitrary: s) (auto split: bind_split)

lemma fold_option_invariant:
  assumes "\<And>x s. x \<in> set xs \<Longrightarrow> P s \<Longrightarrow> \<exists>s'. f x s = Some s' \<and> P s'" "P s"
  shows "\<exists>s'. fold_option f xs s = Some s' \<and> P s'"
  using assms by (induction xs arbitrary: s) fastforce+

text \<open>The first element for which a test that may stop holds.\<close>

fun any_option :: "('a \<Rightarrow> bool option) \<Rightarrow> 'a list \<Rightarrow> bool option" where
  "any_option f [] = Some False"
| "any_option f (x # xs) = Option.bind (f x) (\<lambda>b. if b then Some True else any_option f xs)"

lemma any_option_total:
  "(\<And>x. x \<in> set xs \<Longrightarrow> f x = Some (P x)) \<Longrightarrow> any_option f xs = Some (\<exists>x \<in> set xs. P x)"
  by (induction xs) auto

text \<open>An \<open>LE_ASSERT\<close>: goes on when the condition holds, stops the daemon otherwise.\<close>

definition le_assert :: "bool \<Rightarrow> unit option" where
  "le_assert b = (if b then Some () else None)"

lemma le_assert_Some [simp]: "le_assert b = Some u \<longleftrightarrow> b"
  by (simp add: le_assert_def)

lemma le_assert_None [simp]: "le_assert b = None \<longleftrightarrow> \<not> b"
  by (simp add: le_assert_def)

lemma le_assert_True [simp]: "le_assert True = Some ()"
  by (simp add: le_assert_def)

lemma le_assert_False [simp]: "le_assert False = None"
  by (simp add: le_assert_def)

subsection \<open>Finite acyclic relations\<close>

text \<open>
  The number of nodes below a node strictly falls along the edges of a finite acyclic relation:
  the measure behind every recursion over data flow routes.
\<close>

definition below_count :: "('a \<times> 'a) set \<Rightarrow> 'a \<Rightarrow> nat" where
  "below_count R x = card {y. (x, y) \<in> R\<^sup>+}"

lemma below_subset_Range: "{y. (x, y) \<in> R\<^sup>+} \<subseteq> Range R"
proof
  fix y assume "y \<in> {y. (x, y) \<in> R\<^sup>+}"
  then have "(x, y) \<in> R\<^sup>+" by simp
  then show "y \<in> Range R" by (cases rule: tranclE) blast+
qed

lemma finite_below: "finite R \<Longrightarrow> finite {y. (x, y) \<in> R\<^sup>+}"
  by (rule finite_subset [OF below_subset_Range]) (simp add: finite_Range)

lemma below_count_less:
  assumes "finite R" "acyclic R" "(x, y) \<in> R"
  shows "below_count R y < below_count R x"
  unfolding below_count_def
proof (rule psubset_card_mono)
  show "finite {z. (x, z) \<in> R\<^sup>+}"
    using assms(1) by (rule finite_below)
  have "y \<notin> {z. (y, z) \<in> R\<^sup>+}"
    using assms(2) by (auto simp: acyclic_def)
  moreover have "y \<in> {z. (x, z) \<in> R\<^sup>+}"
    using assms(3) by auto
  moreover have "{z. (y, z) \<in> R\<^sup>+} \<subseteq> {z. (x, z) \<in> R\<^sup>+}"
    using assms(3) by (auto intro: trancl_into_trancl2)
  ultimately show "{z. (y, z) \<in> R\<^sup>+} \<subset> {z. (x, z) \<in> R\<^sup>+}"
    by blast
qed

lemma below_count_bound:
  assumes "finite A" "Range R \<subseteq> A"
  shows "below_count R x \<le> card A"
  unfolding below_count_def
  by (rule card_mono [OF assms(1) subset_trans [OF below_subset_Range assms(2)]])

end
