(* ===== verification/Doubles.thy ===== *)
theory Doubles
  imports Prelude
begin

text \<open>
  The C type \<open>double\<close>: an IEEE 754 binary64 value as its 64 bits.

  Comparisons read the bits (sign and magnitude), which orders finite values and infinities and
  makes both zeros equal; every comparison with a not-a-number is false. Arithmetic computes the
  exact rational result and rounds it once to the nearest representable value, ties to even. A
  not-a-number result is the quiet one the C macro \<open>NAN\<close> gives; no code of the model reads the
  payload of a not-a-number. \<open>dbl_format\<close> is the output of the conversion \<open>%lf\<close> of \<open>snprintf\<close>.
\<close>

type_synonym double = "64 word"

subsection \<open>Fields\<close>

definition dbl_neg :: "double \<Rightarrow> bool" where
  "dbl_neg d = (uint d \<ge> 0x8000000000000000)"

definition dbl_mag :: "double \<Rightarrow> int" where
  "dbl_mag d = uint d mod 0x8000000000000000"

definition dbl_inf_mag :: int where
  "dbl_inf_mag = 0x7FF0000000000000"

definition isnan :: "double \<Rightarrow> bool" where
  "isnan d = (dbl_mag d > dbl_inf_mag)"

definition isinf :: "double \<Rightarrow> bool" where
  "isinf d = (dbl_mag d = dbl_inf_mag)"

definition dbl_make :: "bool \<Rightarrow> int \<Rightarrow> double" where
  "dbl_make neg mag = word_of_int ((if neg then 0x8000000000000000 else 0) + mag)"

definition NAN :: double where
  "NAN = 0x7FF8000000000000"

definition dbl_inf :: "bool \<Rightarrow> double" where
  "dbl_inf neg = dbl_make neg dbl_inf_mag"

subsection \<open>Comparison\<close>

definition dbl_key :: "double \<Rightarrow> int" where
  "dbl_key d = (if dbl_neg d then - dbl_mag d else dbl_mag d)"

definition dbl_lt :: "double \<Rightarrow> double \<Rightarrow> bool" where
  "dbl_lt a b = (\<not> isnan a \<and> \<not> isnan b \<and> dbl_key a < dbl_key b)"

definition dbl_le :: "double \<Rightarrow> double \<Rightarrow> bool" where
  "dbl_le a b = (\<not> isnan a \<and> \<not> isnan b \<and> dbl_key a \<le> dbl_key b)"

definition dbl_eq :: "double \<Rightarrow> double \<Rightarrow> bool" where
  "dbl_eq a b = (\<not> isnan a \<and> \<not> isnan b \<and> dbl_key a = dbl_key b)"

abbreviation dbl_gt :: "double \<Rightarrow> double \<Rightarrow> bool" where
  "dbl_gt a b \<equiv> dbl_lt b a"

abbreviation dbl_ge :: "double \<Rightarrow> double \<Rightarrow> bool" where
  "dbl_ge a b \<equiv> dbl_le b a"

lemma dbl_lt_irrefl [simp]: "\<not> dbl_lt a a"
  by (simp add: dbl_lt_def)

lemma dbl_lt_trans: "dbl_lt a b \<Longrightarrow> dbl_lt b c \<Longrightarrow> dbl_lt a c"
  by (simp add: dbl_lt_def)

lemma dbl_le_trans: "dbl_le a b \<Longrightarrow> dbl_le b c \<Longrightarrow> dbl_le a c"
  by (simp add: dbl_le_def)

lemma dbl_le_refl [simp]: "dbl_le a a \<longleftrightarrow> \<not> isnan a"
  by (simp add: dbl_le_def)

lemma dbl_le_not_lt: "\<not> isnan a \<Longrightarrow> \<not> isnan b \<Longrightarrow> dbl_le a b \<longleftrightarrow> \<not> dbl_lt b a"
  by (auto simp: dbl_le_def dbl_lt_def)

lemma dbl_lt_imp_le: "dbl_lt a b \<Longrightarrow> dbl_le a b"
  by (simp add: dbl_le_def dbl_lt_def)

lemma dbl_le_total: "\<not> isnan a \<Longrightarrow> \<not> isnan b \<Longrightarrow> dbl_le a b \<or> dbl_le b a"
  by (auto simp: dbl_le_def)

lemma dbl_lt_not_nan: "dbl_lt a b \<Longrightarrow> \<not> isnan a \<and> \<not> isnan b"
  by (simp add: dbl_lt_def)

lemma dbl_le_not_nan: "dbl_le a b \<Longrightarrow> \<not> isnan a \<and> \<not> isnan b"
  by (simp add: dbl_le_def)

lemma isnan_NAN [simp]: "isnan NAN"
  by (simp add: isnan_def NAN_def dbl_mag_def dbl_inf_mag_def)

subsection \<open>Exact values and rounding\<close>

text \<open>A finite double is \<open>dbl_mant d * 2 ^ dbl_exp d\<close>, with its sign.\<close>

definition dbl_mant :: "double \<Rightarrow> int" where
  "dbl_mant d = (let f = dbl_mag d mod 0x10000000000000 in
     if dbl_mag d div 0x10000000000000 = 0 then f else 0x10000000000000 + f)"

definition dbl_exp :: "double \<Rightarrow> int" where
  "dbl_exp d = (let e = dbl_mag d div 0x10000000000000 in (if e = 0 then 1 else e) - 1075)"

function bit_count :: "int \<Rightarrow> int" where
  "bit_count n = (if n \<le> 0 then 0 else 1 + bit_count (n div 2))"
  by pat_completeness auto
termination bit_count by (relation "measure nat") auto

declare bit_count.simps [simp del]

lemma bit_count_skip: "2 ^ k \<le> n \<Longrightarrow> bit_count n = int k + bit_count (n div 2 ^ k)"
proof (induction k arbitrary: n)
  case (Suc k)
  have "2 ^ k \<le> n div 2" using Suc.prems by (simp add: zdiv_mono1 pos_imp_zdiv_nonneg_iff)
  moreover have "0 < n" using Suc.prems by (meson less_le_trans zero_less_numeral zero_less_power)
  ultimately show ?case
    using Suc.IH [of "n div 2"] by (simp add: bit_count.simps [of n] zdiv_zmult2_eq)
qed simp

text \<open>The form that is evaluated: long numbers lose many bits at a time.\<close>

lemma bit_count_code [code]:
  "bit_count n =
     (if n \<le> 0 then 0
      else if n \<ge> 2 ^ 256 then 256 + bit_count (n div 2 ^ 256)
      else if n \<ge> 2 ^ 16 then 16 + bit_count (n div 2 ^ 16)
      else 1 + bit_count (n div 2))"
proof (cases "n \<le> 0")
  case False
  then show ?thesis
    using bit_count_skip [of 256 n] bit_count_skip [of 16 n] bit_count.simps [of n]
    by (simp only: if_False if_True split: if_split) simp
qed (simp add: bit_count.simps)

text \<open>Quotient rounded to the nearest integer, ties to even.\<close>

definition div_rne :: "int \<Rightarrow> int \<Rightarrow> int" where
  "div_rne a b = (let q = a div b; r = a mod b in
     if 2 * r > b \<or> (2 * r = b \<and> odd q) then q + 1 else q)"

definition scale_div :: "int \<Rightarrow> int \<Rightarrow> int \<Rightarrow> int \<times> int" where
  "scale_div num den e =
     (if e < 0 then (num * 2 ^ nat (- e), den) else (num, den * 2 ^ nat e))"

text \<open>The double nearest to \<open>num / den\<close>, with the given sign.\<close>

definition dbl_round :: "bool \<Rightarrow> int \<Rightarrow> int \<Rightarrow> double" where
  "dbl_round neg num den =
     (if num = 0 then dbl_make neg 0
      else
        let e0 = bit_count num - bit_count den - 53;
            (n0, d0) = scale_div num den e0;
            e1 = (if n0 \<ge> d0 * 0x20000000000000 then e0 + 1 else e0);
            e = max e1 (- 1074);
            (n, d) = scale_div num den e;
            m = div_rne n d;
            mag = (e + 1074) * 0x10000000000000 + m
        in if mag \<ge> dbl_inf_mag then dbl_inf neg else dbl_make neg mag)"

definition dbl_of_int :: "int \<Rightarrow> double" where
  "dbl_of_int i = dbl_round (i < 0) \<bar>i\<bar> 1"

subsection \<open>Arithmetic\<close>

definition dbl_minus :: "double \<Rightarrow> double" where
  "dbl_minus a = dbl_make (\<not> dbl_neg a) (dbl_mag a)"

definition dbl_abs :: "double \<Rightarrow> double" where
  "dbl_abs a = dbl_make False (dbl_mag a)"

definition dbl_signed_mant :: "double \<Rightarrow> int \<Rightarrow> int" where
  "dbl_signed_mant a e =
     (let m = dbl_mant a * 2 ^ nat (dbl_exp a - e) in if dbl_neg a then - m else m)"

definition dbl_round_int :: "int \<Rightarrow> int \<Rightarrow> double" where
  "dbl_round_int m e = (let (n, d) = scale_div \<bar>m\<bar> 1 (- e) in dbl_round (m < 0) n d)"

definition dbl_add :: "double \<Rightarrow> double \<Rightarrow> double" where
  "dbl_add a b =
     (if isnan a \<or> isnan b then NAN
      else if isinf a \<and> isinf b then (if dbl_neg a = dbl_neg b then a else NAN)
      else if isinf a then a
      else if isinf b then b
      else if dbl_mag b = 0 \<and> dbl_mag a \<noteq> 0 then a
      else if dbl_mag a = 0 \<and> dbl_mag b \<noteq> 0 then b
      else
        let e = min (dbl_exp a) (dbl_exp b);
            s = dbl_signed_mant a e + dbl_signed_mant b e
        in if s = 0 then dbl_make (dbl_neg a \<and> dbl_neg b) 0 else dbl_round_int s e)"

definition dbl_sub :: "double \<Rightarrow> double \<Rightarrow> double" where
  "dbl_sub a b = dbl_add a (dbl_minus b)"

definition dbl_mul :: "double \<Rightarrow> double \<Rightarrow> double" where
  "dbl_mul a b =
     (let neg = (dbl_neg a \<noteq> dbl_neg b) in
      if isnan a \<or> isnan b then NAN
      else if isinf a \<or> isinf b
        then (if dbl_mag a = 0 \<or> dbl_mag b = 0 then NAN else dbl_inf neg)
      else
        let (n, d) = scale_div (dbl_mant a * dbl_mant b) 1 (- (dbl_exp a + dbl_exp b))
        in dbl_round neg n d)"

definition dbl_div :: "double \<Rightarrow> double \<Rightarrow> double" where
  "dbl_div a b =
     (let neg = (dbl_neg a \<noteq> dbl_neg b) in
      if isnan a \<or> isnan b then NAN
      else if isinf a then (if isinf b then NAN else dbl_inf neg)
      else if isinf b then dbl_make neg 0
      else if dbl_mag b = 0 then (if dbl_mag a = 0 then NAN else dbl_inf neg)
      else
        let (n, d) = scale_div (dbl_mant a) (dbl_mant b) (dbl_exp b - dbl_exp a)
        in dbl_round neg n d)"

function isqrt :: "int \<Rightarrow> int" where
  "isqrt n = (if n \<le> 0 then 0
     else let r = 2 * isqrt (n div 4) in if (r + 1) * (r + 1) \<le> n then r + 1 else r)"
  by pat_completeness auto
termination isqrt by (relation "measure nat") auto

declare isqrt.simps [simp del]

text \<open>
  The square root: the operand is scaled by an even power of two so that the integer root has at
  least 60 bits, and a sticky bit below it says whether the root is exact.
\<close>

definition dbl_sqrt :: "double \<Rightarrow> double" where
  "dbl_sqrt a =
     (if isnan a then NAN
      else if dbl_mag a = 0 then a
      else if dbl_neg a then NAN
      else if isinf a then a
      else
        let (m, e) = (if even (dbl_exp a) then (dbl_mant a, dbl_exp a)
                      else (2 * dbl_mant a, dbl_exp a - 1));
            n = m * 2 ^ 120;
            r = isqrt n;
            s = 2 * r + (if r * r = n then 0 else 1);
            (num, den) = scale_div s (2 ^ 61) (- (e div 2))
        in dbl_round False num den)"

lemma isqrt_correct: "0 \<le> n \<Longrightarrow> 0 \<le> isqrt n \<and> (isqrt n)\<^sup>2 \<le> n \<and> n < (isqrt n + 1)\<^sup>2"
proof (induction n rule: isqrt.induct)
  case (1 n)
  show ?case
  proof (cases "n \<le> 0")
    case True
    then show ?thesis using 1 by (simp add: isqrt.simps [of 0])
  next
    case False
    define q where "q = isqrt (n div 4)"
    have q: "0 \<le> q" "q\<^sup>2 \<le> n div 4" "n div 4 < (q + 1)\<^sup>2"
      using 1 False unfolding q_def by auto
    have "4 * q\<^sup>2 \<le> n" "n < 4 * (q + 1)\<^sup>2"
      using q by linarith+
    then have "(2 * q)\<^sup>2 \<le> n" "n < (2 * q + 2)\<^sup>2"
      by (auto simp: power2_eq_square algebra_simps)
    then show ?thesis
      using q(1) False by (simp add: isqrt.simps [of n] Let_def flip: q_def)
        (auto simp: power2_eq_square algebra_simps)
  qed
qed

subsection \<open>Printing\<close>

function nat_digits :: "int \<Rightarrow> string" where
  "nat_digits n =
     (if n < 10 then [char_of (48 + n)] else nat_digits (n div 10) @ [char_of (48 + n mod 10)])"
  by pat_completeness auto
termination nat_digits by (relation "measure nat") auto

declare nat_digits.simps [simp del]

definition pad6 :: "int \<Rightarrow> string" where
  "pad6 n = (let ds = nat_digits n in replicate (6 - length ds) (CHR ''0'') @ ds)"

definition dbl_format :: "double \<Rightarrow> string" where
  "dbl_format a =
     (let sgn = (if dbl_neg a then ''-'' else []) in
      if isnan a then sgn @ ''nan''
      else if isinf a then sgn @ ''inf''
      else
        let (n, d) = scale_div (dbl_mant a * 1000000) 1 (- dbl_exp a);
            v = div_rne n d
        in sgn @ nat_digits (v div 1000000) @ ''.'' @ pad6 (v mod 1000000))"

lemmas dbl_fields = dbl_neg_def dbl_mag_def dbl_inf_mag_def isnan_def isinf_def dbl_make_def
  NAN_def dbl_inf_def dbl_key_def

lemmas dbl_arith = dbl_mant_def dbl_exp_def bit_count.simps div_rne_def scale_div_def
  dbl_round_def dbl_of_int_def dbl_minus_def dbl_abs_def dbl_signed_mant_def dbl_round_int_def
  dbl_add_def dbl_sub_def dbl_mul_def dbl_div_def isqrt.simps dbl_sqrt_def

lemmas dbl_print = nat_digits.simps pad6_def dbl_format_def

end
