(* ===== verification/CLib.thy ===== *)
theory CLib
  imports Doubles
begin

text \<open>
  The part of the C library the Data Hub reads text with: the character classes of \<open>ctype.h\<close> in the
  C locale, \<open>strncmp\<close>, \<open>strtod\<close> and \<open>strtoul\<close>. A string is the list of its bytes before the
  terminator, a pointer into it is the suffix that starts there, and the end pointer a conversion
  returns is a suffix of its input. The data model is ILP32: \<open>long\<close> and \<open>size_t\<close> have 32 bits.
\<close>

subsection \<open>Characters\<close>

definition char_code :: "char \<Rightarrow> int" where
  "char_code c = of_char c"

definition isspace :: "char \<Rightarrow> bool" where
  "isspace c = (c = CHR '' '' \<or> (9 \<le> char_code c \<and> char_code c \<le> 13))"

definition isdigit :: "char \<Rightarrow> bool" where
  "isdigit c = (48 \<le> char_code c \<and> char_code c \<le> 57)"

definition isupper :: "char \<Rightarrow> bool" where
  "isupper c = (65 \<le> char_code c \<and> char_code c \<le> 90)"

definition islower :: "char \<Rightarrow> bool" where
  "islower c = (97 \<le> char_code c \<and> char_code c \<le> 122)"

definition isalpha :: "char \<Rightarrow> bool" where
  "isalpha c = (isupper c \<or> islower c)"

definition isalnum :: "char \<Rightarrow> bool" where
  "isalnum c = (isalpha c \<or> isdigit c)"

definition isxdigit :: "char \<Rightarrow> bool" where
  "isxdigit c = (isdigit c \<or> (65 \<le> char_code c \<and> char_code c \<le> 70)
     \<or> (97 \<le> char_code c \<and> char_code c \<le> 102))"

definition tolower_code :: "char \<Rightarrow> int" where
  "tolower_code c = (if isupper c then char_code c + 32 else char_code c)"

definition hex_val :: "char \<Rightarrow> int" where
  "hex_val c = (if isdigit c then char_code c - 48 else tolower_code c - 87)"

lemmas char_classes = char_code_def isspace_def isdigit_def isupper_def islower_def isalpha_def
  isalnum_def isxdigit_def tolower_code_def

text \<open>The character a pointer points at; \<open>None\<close> is the terminator.\<close>

fun char_at :: "string \<Rightarrow> char option" where
  "char_at [] = None"
| "char_at (c # s) = Some c"

text \<open>\<open>strncmp (s, t, n) == 0\<close>.\<close>

definition strncmp_eq :: "string \<Rightarrow> string \<Rightarrow> nat \<Rightarrow> bool" where
  "strncmp_eq s t n = (take n s = take n t)"

text \<open>A prefix test that ignores the case of letters.\<close>

definition has_prefix_nocase :: "string \<Rightarrow> string \<Rightarrow> bool" where
  "has_prefix_nocase t s =
     (length t \<le> length s \<and> map tolower_code (take (length t) s) = map tolower_code t)"

subsection \<open>Digits\<close>

definition digits_value :: "int \<Rightarrow> string \<Rightarrow> int" where
  "digits_value base ds = foldl (\<lambda>v c. v * base + hex_val c) 0 ds"

text \<open>An optional sign: whether it is a minus, and what follows.\<close>

fun scan_sign :: "string \<Rightarrow> bool \<times> string" where
  "scan_sign (c # s) = (if c = CHR ''-'' then (True, s) else if c = CHR ''+'' then (False, s)
     else (False, c # s))"
| "scan_sign [] = (False, [])"

text \<open>
  An optional exponent introduced by the letter with the (lower case) code \<open>mark\<close>. Without a digit
  after the letter and its sign there is no exponent, and nothing is consumed.
\<close>

definition scan_exponent :: "int \<Rightarrow> string \<Rightarrow> int \<times> string" where
  "scan_exponent mark s =
     (case s of
        [] \<Rightarrow> (0, s)
      | c # t \<Rightarrow>
          if tolower_code c = mark then
            let (neg, u) = scan_sign t;
                ds = takeWhile isdigit u
            in if ds = [] then (0, s)
               else ((if neg then - digits_value 10 ds else digits_value 10 ds),
                     dropWhile isdigit u)
          else (0, s))"

text \<open>
  Digits with an optional point: the digits before it, after it, and the rest. A point is part of
  the number when there is a digit on one of its sides.
\<close>

definition scan_mantissa :: "(char \<Rightarrow> bool) \<Rightarrow> string \<Rightarrow> string \<times> string \<times> string" where
  "scan_mantissa P s =
     (let ip = takeWhile P s; r = dropWhile P s in
      case r of
        [] \<Rightarrow> (ip, [], r)
      | c # t \<Rightarrow>
          if c = CHR ''.'' \<and> (ip \<noteq> [] \<or> takeWhile P t \<noteq> [])
          then (ip, takeWhile P t, dropWhile P t)
          else (ip, [], r))"

subsection \<open>strtod\<close>

text \<open>The value \<open>m * base ^ e\<close> as a fraction.\<close>

definition pow_frac :: "int \<Rightarrow> int \<Rightarrow> int \<Rightarrow> int \<times> int" where
  "pow_frac m base e = (if e \<ge> 0 then (m * base ^ nat e, 1) else (m, base ^ nat (- e)))"

text \<open>
  The range error of a conversion: the result overflows, or it is below the smallest normal number
  and not exact.
\<close>

definition frac_erange :: "int \<Rightarrow> int \<Rightarrow> bool" where
  "frac_erange num den =
     (isinf (dbl_round False num den)
      \<or> (num * 2 ^ 1022 < den \<and> (num * 2 ^ 1074) mod den \<noteq> 0))"

definition finish_number :: "bool \<Rightarrow> int \<times> int \<Rightarrow> string \<Rightarrow> double \<times> string \<times> bool" where
  "finish_number neg frac rest =
     (dbl_round neg (fst frac) (snd frac), rest, frac_erange (fst frac) (snd frac))"

definition scan_decimal :: "bool \<Rightarrow> string \<Rightarrow> (double \<times> string \<times> bool) option" where
  "scan_decimal neg s =
     (let (ip, fp, r) = scan_mantissa isdigit s in
      if ip = [] \<and> fp = [] then None
      else let (e, r') = scan_exponent 101 r in
        Some (finish_number neg
          (pow_frac (digits_value 10 (ip @ fp)) 10 (e - int (length fp))) r'))"

definition scan_hex :: "bool \<Rightarrow> string \<Rightarrow> (double \<times> string \<times> bool) option" where
  "scan_hex neg s =
     (let (ip, fp, r) = scan_mantissa isxdigit s in
      if ip = [] \<and> fp = [] then None
      else let (e, r') = scan_exponent 112 r in
        Some (finish_number neg
          (pow_frac (digits_value 16 (ip @ fp)) 2 (e - 4 * int (length fp))) r'))"

text \<open>The optional parenthesised tag after \<open>nan\<close>.\<close>

definition skip_nan_tag :: "string \<Rightarrow> string" where
  "skip_nan_tag s =
     (case s of
        [] \<Rightarrow> s
      | c # t \<Rightarrow>
          let u = dropWhile (\<lambda>c. isalnum c \<or> c = CHR ''_'') t in
          if c = CHR ''('' \<and> char_at u = Some (CHR '')'') then drop 1 u else s)"

definition scan_number :: "bool \<Rightarrow> string \<Rightarrow> (double \<times> string \<times> bool) option" where
  "scan_number neg s =
     (if has_prefix_nocase ''infinity'' s then Some (dbl_inf neg, drop 8 s, False)
      else if has_prefix_nocase ''inf'' s then Some (dbl_inf neg, drop 3 s, False)
      else if has_prefix_nocase ''nan'' s then
        Some ((if neg then dbl_minus NAN else NAN), skip_nan_tag (drop 3 s), False)
      else
        case (if has_prefix_nocase ''0x'' s then scan_hex neg (drop 2 s) else None) of
          Some r \<Rightarrow> Some r
        | None \<Rightarrow> scan_decimal neg s)"

text \<open>
  The value, the end pointer (the whole input when there is no number) and whether \<open>errno\<close> is set.
\<close>

definition strtod :: "string \<Rightarrow> double \<times> string \<times> bool" where
  "strtod s =
     (let (neg, t) = scan_sign (dropWhile isspace s) in
      case scan_number neg t of
        Some r \<Rightarrow> r
      | None \<Rightarrow> (dbl_make False 0, s, False))"

subsection \<open>strtoul\<close>

text \<open>Base ten, on a 32 bit \<open>unsigned long\<close>: saturates, and negates modulo 2 ^ 32 after a minus.\<close>

definition strtoul :: "string \<Rightarrow> 32 word \<times> string" where
  "strtoul s =
     (let (neg, t) = scan_sign (dropWhile isspace s);
          ds = takeWhile isdigit t;
          v = digits_value 10 ds
      in if ds = [] then (0, s)
         else if v > 0xFFFFFFFF then (0xFFFFFFFF, dropWhile isdigit t)
         else ((if neg then - word_of_int v else word_of_int v), dropWhile isdigit t))"

subsection \<open>End pointers\<close>

lemma scan_sign_suffix: "scan_sign s = (neg, t) \<Longrightarrow> suffix t s"
  by (cases s) (auto split: if_splits intro: suffix_intros)

lemma scan_exponent_suffix: "scan_exponent m s = (e, t) \<Longrightarrow> suffix t s"
  by (auto simp: scan_exponent_def Let_def split: list.splits if_splits prod.splits
      intro!: suffix_ConsI intro: suffix_order.trans [OF suffix_dropWhile]
      dest: scan_sign_suffix)

lemma scan_mantissa_suffix:
  assumes "scan_mantissa P s = (ip, fp, r)"
  shows "suffix r s" and "ip \<noteq> [] \<or> fp \<noteq> [] \<Longrightarrow> r \<noteq> s"
proof -
  show "suffix r s"
  proof (cases "dropWhile P s")
    case Nil
    show ?thesis using assms unfolding scan_mantissa_def Let_def Nil by simp
  next
    case (Cons c t)
    then have "suffix (c # t) s" using suffix_dropWhile [of P s] by simp
    then have "suffix t s" by (rule suffix_ConsD)
    then have "suffix (dropWhile P t) s"
      using suffix_dropWhile suffix_order.trans by blast
    then show ?thesis
      using assms Cons \<open>suffix (c # t) s\<close> by (auto simp: scan_mantissa_def Let_def split: if_splits)
  qed
  assume ne: "ip \<noteq> [] \<or> fp \<noteq> []"
  have l: "length s = length (takeWhile P s) + length (dropWhile P s)"
    by (metis length_append takeWhile_dropWhile_id)
  have "length r < length s"
  proof (cases "dropWhile P s")
    case Nil
    then show ?thesis using assms ne l unfolding scan_mantissa_def Let_def Nil by auto
  next
    case (Cons c t)
    then show ?thesis
      using assms ne l length_dropWhile_le [of P t] unfolding scan_mantissa_def Let_def Cons
      by (auto split: if_splits)
  qed
  then show "r \<noteq> s" by auto
qed

lemma scan_decimal_suffix:
  "scan_decimal neg s = Some (v, r, e) \<Longrightarrow> suffix r s \<and> r \<noteq> s"
  by (auto simp: scan_decimal_def finish_number_def Let_def split: prod.splits if_splits
      dest!: scan_exponent_suffix)
    (metis scan_mantissa_suffix suffix_order.trans suffix_order.antisym)+

lemma scan_hex_suffix: "scan_hex neg s = Some (v, r, e) \<Longrightarrow> suffix r s \<and> r \<noteq> s"
  by (auto simp: scan_hex_def finish_number_def Let_def split: prod.splits if_splits
      dest!: scan_exponent_suffix)
    (metis scan_mantissa_suffix suffix_order.trans suffix_order.antisym)+

lemma skip_nan_tag_suffix: "suffix (skip_nan_tag s) s"
  by (auto simp: skip_nan_tag_def Let_def split: list.splits
      intro!: suffix_ConsI suffix_order.trans [OF suffix_drop suffix_dropWhile])

lemma has_prefix_drop:
  "has_prefix_nocase t s \<Longrightarrow> t \<noteq> [] \<Longrightarrow> n = length t \<Longrightarrow> suffix r (drop n s) \<Longrightarrow> suffix r s \<and> r \<noteq> s"
  using suffix_length_le [of r "drop n s"] suffix_order.trans [OF _ suffix_drop, of r n s]
  by (auto simp: has_prefix_nocase_def Suc_le_eq dest: leD)
    (metis diff_less length_greater_0_conv less_le_trans not_less)

lemma scan_number_suffix:
  assumes "scan_number neg s = Some (v, r, e)"
  shows "suffix r s \<and> r \<noteq> s"
proof -
  consider "has_prefix_nocase ''infinity'' s" "r = drop 8 s"
    | "has_prefix_nocase ''inf'' s" "r = drop 3 s"
    | "has_prefix_nocase ''nan'' s" "r = skip_nan_tag (drop 3 s)"
    | "has_prefix_nocase ''0x'' s" "scan_hex neg (drop 2 s) = Some (v, r, e)"
    | "scan_decimal neg s = Some (v, r, e)"
    using assms by (auto simp: scan_number_def split: if_splits option.splits)
  then show ?thesis
  proof cases
    case 4
    then have "suffix r (drop 2 s)" by (simp add: scan_hex_suffix)
    with 4 show ?thesis by (intro has_prefix_drop [of "''0x''" s 2]) simp_all
  next
    case 1
    then show ?thesis using has_prefix_drop [of "''infinity''" s 8 r] by simp
  next
    case 2
    then show ?thesis using has_prefix_drop [of "''inf''" s 3 r] by simp
  next
    case 3
    then show ?thesis
      using has_prefix_drop [of "''nan''" s 3 r] skip_nan_tag_suffix [of "drop 3 s"] by simp
  next
    case 5
    then show ?thesis by (rule scan_decimal_suffix)
  qed
qed

lemma strtod_suffix: "strtod s = (v, r, e) \<Longrightarrow> suffix r s"
  using suffix_dropWhile [of isspace s]
  by (auto simp: strtod_def Let_def split: prod.splits option.splits
      dest!: scan_number_suffix scan_sign_suffix intro: suffix_order.trans)

lemma strtoul_suffix: "strtoul s = (v, r) \<Longrightarrow> suffix r s"
  using suffix_dropWhile [of isspace s]
  by (auto simp: strtoul_def Let_def split: prod.splits if_splits
      dest!: scan_sign_suffix intro: suffix_order.trans suffix_order.trans [OF suffix_dropWhile])

end
