(* ===== verification/Legato.thy ===== *)
theory Legato
  imports CLib
begin

text \<open>
  What the Data Hub takes from the Legato framework. The framework's code is not part of the
  repository: its functions are the fields of a record of type \<open>legato\<close>, the first argument of every
  operation that uses one, and what the Data Hub relies on is a named hypothesis about them.
  \<open>le_result_t\<close> holds the result codes the source names.
\<close>

datatype le_result_t =
    LE_OK | LE_NOT_FOUND | LE_OVERFLOW | LE_UNDERFLOW | LE_BAD_PARAMETER | LE_DUPLICATE
  | LE_NOT_PERMITTED | LE_FAULT | LE_FORMAT_ERROR | LE_UNAVAILABLE | LE_BUSY | LE_IO_ERROR | LE_COMM_ERROR
  | LE_UNSUPPORTED

text \<open>
  \<open>utf8_Copy src size\<close> is the result of \<open>le_utf8_Copy\<close> and the string it leaves in a destination
  buffer of \<open>size\<close> bytes. The clocks are functions of the number of readings taken so far:
  \<open>clk_absolute\<close> is \<open>le_clk_GetAbsoluteTime\<close> and \<open>clk_relative\<close> \<open>le_clk_GetRelativeTime\<close>, in seconds
  and microseconds. \<open>app_name_len\<close> is the constant \<open>LE_LIMIT_APP_NAME_LEN\<close>. \<open>fs_ok\<close> says of a path and the
  number of readings taken so far whether the file system does what is asked of it there (creates
  the directory, opens the file, takes the bytes and commits them); \<open>embedded\<close> is the build option
  \<open>LEGATO_EMBEDDED\<close>. \<open>mem_junk\<close> is what a word of a newly allocated object holds before it is written.
\<close>

record legato =
  utf8_Copy :: "string \<Rightarrow> nat \<Rightarrow> le_result_t \<times> string"
  clk_absolute :: "nat \<Rightarrow> int \<times> int"
  clk_relative :: "nat \<Rightarrow> int \<times> int"
  app_name_len :: nat
  fs_ok :: "string \<Rightarrow> nat \<Rightarrow> bool"
  embedded :: bool
  mem_junk :: "nat \<Rightarrow> 32 word"

text \<open>
  The documented behaviour of \<open>le_utf8_Copy\<close>: a string that fits, terminator included, is copied
  whole; otherwise a shorter part of its beginning that fits is copied and \<open>LE_OVERFLOW\<close> returned.
\<close>

definition utf8_copy_ok :: "legato \<Rightarrow> bool" where
  "utf8_copy_ok L \<longleftrightarrow>
     (\<forall>s n. length s < n \<longrightarrow> utf8_Copy L s n = (LE_OK, s)) \<and>
     (\<forall>s n. 0 < n \<and> n \<le> length s \<longrightarrow>
        (\<exists>k < n. utf8_Copy L s n = (LE_OVERFLOW, take k s)))"

lemma utf8_copy_fits [simp]:
  "utf8_copy_ok L \<Longrightarrow> length s < n \<Longrightarrow> utf8_Copy L s n = (LE_OK, s)"
  by (simp add: utf8_copy_ok_def)

lemma utf8_copy_overflow:
  assumes "utf8_copy_ok L" "0 < n" "n \<le> length s"
  obtains k where "k < n" "utf8_Copy L s n = (LE_OVERFLOW, take k s)"
  using assms unfolding utf8_copy_ok_def by blast

text \<open>A concrete framework, for the instances: bytes are copied one by one, and the clocks
  advance by a second with every reading.\<close>

definition sample_legato :: legato where
  "sample_legato =
     \<lparr> utf8_Copy = (\<lambda>s n. if length s < n then (LE_OK, s) else (LE_OVERFLOW, take (n - 1) s)),
       clk_absolute = (\<lambda>k. (1000000000 + int k, 500000)),
       clk_relative = (\<lambda>k. (int k, 0)),
       app_name_len = 47,
       fs_ok = (\<lambda>_ _. True),
       embedded = False,
       mem_junk = (\<lambda>_. 0) \<rparr>"

lemma sample_legato_ok: "utf8_copy_ok sample_legato"
proof -
  have "\<exists>k < n. (LE_OVERFLOW, take (n - 1) s) = (LE_OVERFLOW, take k s)" if "0 < n" for n :: nat and s :: string
    using that by (intro exI [of _ "n - 1"]) simp
  then show ?thesis
    by (simp add: utf8_copy_ok_def sample_legato_def)
qed

end
