(* ===== verification/Json.thy ===== *)
theory Json
  imports Legato
begin

text \<open>
  The JSON component, \<open>src/apps/DataHub/components/json/json.c\<close>: scanning functions that skip one
  value, the search for what an extraction specification names, extraction and conversion.

  A \<open>const char *\<close> is the rest of the text; a result that may be \<open>NULL\<close> is an \<open>option\<close>. The
  functions that skip values call each other; that the text gets shorter with every value, which is
  why the recursion ends, is proved with the functions' domain.
\<close>

datatype json_DataType_t =
    JSON_TYPE_NULL | JSON_TYPE_BOOLEAN | JSON_TYPE_NUMBER | JSON_TYPE_STRING | JSON_TYPE_OBJECT
  | JSON_TYPE_ARRAY

subsection \<open>Skipping values\<close>

definition SkipWhitespace :: "string option \<Rightarrow> string option" where
  "SkipWhitespace valPtr =
     (case valPtr of None \<Rightarrow> None | Some s \<Rightarrow> Some (dropWhile isspace s))"

fun SkipStringLoop :: "string \<Rightarrow> string option" where
  "SkipStringLoop [] = None"
| "SkipStringLoop (c # s) =
     (if c = CHR 0x22 then Some s
      else if c = CHR 0x5C \<and> char_at s = Some (CHR 0x22) then SkipStringLoop (tl s)
      else SkipStringLoop s)"

definition SkipString :: "string \<Rightarrow> string option" where
  "SkipString valPtr =
     (if char_at valPtr = Some (CHR 0x22) then SkipStringLoop (tl valPtr) else None)"

text \<open>A literal or a number ends at white space, at one of these characters, or with the text.\<close>

definition ends_value :: "string \<Rightarrow> bool" where
  "ends_value s =
     (case char_at s of
        None \<Rightarrow> True
      | Some c \<Rightarrow> isspace c \<or> c = CHR '','' \<or> c = CHR '']'' \<or> c = CHR ''}'')"

definition SkipLiteral :: "string \<Rightarrow> string \<Rightarrow> nat \<Rightarrow> string option" where
  "SkipLiteral valPtr textToSkip lenToSkip =
     (if strncmp_eq valPtr textToSkip lenToSkip \<and> ends_value (drop lenToSkip valPtr)
      then Some (drop lenToSkip valPtr) else None)"

definition SkipNumber :: "string \<Rightarrow> string option" where
  "SkipNumber valPtr =
     (let (_, endPtr, _) = strtod valPtr in
      if endPtr \<noteq> valPtr \<and> ends_value endPtr then Some endPtr else None)"

subsection \<open>Skippers\<close>

lemma strict_suffix_length: "strict_suffix r s \<Longrightarrow> length r < length s"
  using suffix_length_less [of r s] by auto

lemma strict_suffix_Cons_same: "strict_suffix s (c # s)"
  by (simp add: strict_suffix_def suffix_ConsI)

lemma strict_suffix_Cons: "strict_suffix r s \<Longrightarrow> strict_suffix r (c # s)"
  by (rule suffix_order.less_trans [OF _ strict_suffix_Cons_same])

lemma char_at_Some: "char_at s = Some c \<longleftrightarrow> (\<exists>t. s = c # t)"
  by (cases s) auto

lemma strict_suffix_tl: "char_at s = Some c \<Longrightarrow> strict_suffix (tl s) s"
  by (cases s) (auto simp: strict_suffix_Cons_same)

lemma strict_suffix_ws_tl: "char_at s = Some c \<Longrightarrow> strict_suffix (dropWhile isspace (tl s)) s"
  by (rule suffix_order.le_less_trans [OF suffix_dropWhile strict_suffix_tl])

lemma strict_suffix_tl_ws_tl:
  "char_at s = Some c \<Longrightarrow> char_at (dropWhile isspace (tl s)) = Some d \<Longrightarrow>
   strict_suffix (tl (dropWhile isspace (tl s))) s"
  by (rule suffix_order.less_trans [OF strict_suffix_tl strict_suffix_ws_tl])

text \<open>
  The interface every skipping function has: what it returns is a proper suffix of what it was given.
\<close>

locale skipper =
  fixes skip :: "string \<Rightarrow> string option"
  assumes proper: "skip s = Some r \<Longrightarrow> strict_suffix r s"
begin

lemma then_ws: "SkipWhitespace (skip s) = Some p \<Longrightarrow> strict_suffix p s"
  by (auto simp: SkipWhitespace_def split: option.splits
      intro: suffix_order.le_less_trans [OF suffix_dropWhile proper])

lemma shorter: "skip s = Some r \<Longrightarrow> length r < length s"
  using proper by (rule strict_suffix_length)

lemma then_ws_shorter: "SkipWhitespace (skip s) = Some p \<Longrightarrow> length p < length s"
  using then_ws by (rule strict_suffix_length)

lemma nonempty: "skip s = Some r \<Longrightarrow> s \<noteq> []"
  using shorter by fastforce

end

lemma SkipStringLoop_suffix: "SkipStringLoop s = Some r \<Longrightarrow> strict_suffix r s"
proof (induction s rule: SkipStringLoop.induct)
  case (2 c s)
  then show ?case
    by (auto split: if_splits simp: char_at_Some intro: strict_suffix_Cons strict_suffix_Cons_same)
qed simp

interpretation skip_string: skipper SkipString
proof
  fix s r assume "SkipString s = Some r"
  then show "strict_suffix r s"
    by (auto simp: SkipString_def split: if_splits
        intro: suffix_order.less_trans [OF SkipStringLoop_suffix strict_suffix_tl])
qed

interpretation skip_number: skipper SkipNumber
proof
  fix s r assume "SkipNumber s = Some r"
  moreover obtain v e q where "strtod s = (v, e, q)" by (cases "strtod s")
  ultimately show "strict_suffix r s"
    by (simp add: SkipNumber_def strict_suffix_def strtod_suffix split: if_splits)
qed

lemma SkipLiteral_proper:
  assumes "SkipLiteral s t n = Some r" "0 < n" "t \<noteq> []"
  shows "strict_suffix r s"
proof -
  have r: "r = drop n s" "take n s = take n t"
    using assms(1) by (auto simp: SkipLiteral_def strncmp_eq_def split: if_splits)
  then have "s \<noteq> []" using assms(2,3) by auto
  then have "length r < length s" using r(1) assms(2) by (simp add: drop_shorter)
  then have "r \<noteq> s" by auto
  then show ?thesis
    unfolding r(1) strict_suffix_def using suffix_drop by blast
qed

subsection \<open>Values, objects and arrays\<close>

function (domintros)
  SkipValue :: "string \<Rightarrow> string option" and
  SkipMember :: "string \<Rightarrow> string option" and
  SkipObject :: "string \<Rightarrow> string option" and
  SkipObjectLoop :: "string \<Rightarrow> string option" and
  SkipArray :: "string \<Rightarrow> string option" and
  SkipArrayLoop :: "string \<Rightarrow> string option"
where
  "SkipValue valPtr =
     (case char_at valPtr of
        None \<Rightarrow> SkipNumber valPtr
      | Some c \<Rightarrow>
          if c = CHR ''{'' then SkipObject valPtr
          else if c = CHR ''['' then SkipArray valPtr
          else if c = CHR 0x22 then SkipString valPtr
          else if c = CHR ''t'' then SkipLiteral valPtr ''true'' 4
          else if c = CHR ''f'' then SkipLiteral valPtr ''false'' 5
          else if c = CHR ''n'' then SkipLiteral valPtr ''null'' 4
          else SkipNumber valPtr)"
| "SkipMember valPtr =
     (case SkipWhitespace (SkipString valPtr) of
        None \<Rightarrow> None
      | Some p \<Rightarrow>
          if char_at p \<noteq> Some (CHR '':'') then None
          else SkipValue (dropWhile isspace (tl p)))"
| "SkipObject valPtr =
     (if char_at valPtr \<noteq> Some (CHR ''{'') then None
      else
        let p = dropWhile isspace (tl valPtr) in
        if char_at p = Some (CHR ''}'') then Some (tl p) else SkipObjectLoop p)"
| "SkipObjectLoop valPtr =
     (if valPtr = [] then None
      else
        case SkipWhitespace (SkipMember valPtr) of
          None \<Rightarrow> None
        | Some p \<Rightarrow>
            if char_at p = Some (CHR ''}'') then Some (tl p)
            else if char_at p = Some (CHR '','') then SkipObjectLoop (dropWhile isspace (tl p))
            else SkipObjectLoop p)"
| "SkipArray valPtr =
     (if char_at valPtr \<noteq> Some (CHR ''['') then None
      else
        let p = dropWhile isspace (tl valPtr) in
        if char_at p = Some (CHR '']'') then Some (tl p) else SkipArrayLoop p)"
| "SkipArrayLoop valPtr =
     (if valPtr = [] then None
      else
        case SkipWhitespace (SkipValue valPtr) of
          None \<Rightarrow> None
        | Some p \<Rightarrow>
            if char_at p = Some (CHR '']'') then Some (tl p)
            else if char_at p = Some (CHR '','') then SkipArrayLoop (dropWhile isspace (tl p))
            else SkipArrayLoop p)"
  by pat_completeness auto

abbreviation skip_dom where
  "skip_dom \<equiv> SkipValue_SkipMember_SkipObject_SkipObjectLoop_SkipArray_SkipArrayLoop_dom"

lemmas skip_psimps = SkipValue.psimps SkipMember.psimps SkipObject.psimps SkipObjectLoop.psimps
  SkipArray.psimps SkipArrayLoop.psimps

lemmas skip_pinduct =
  SkipValue_SkipMember_SkipObject_SkipObjectLoop_SkipArray_SkipArrayLoop.pinduct

lemma skip_proper_partial:
  "skip_dom (Inl (Inl s)) \<Longrightarrow> (\<forall>r. SkipValue s = Some r \<longrightarrow> strict_suffix r s)"
  "skip_dom (Inl (Inr (Inl s))) \<Longrightarrow> (\<forall>r. SkipMember s = Some r \<longrightarrow> strict_suffix r s)"
  "skip_dom (Inl (Inr (Inr s))) \<Longrightarrow> (\<forall>r. SkipObject s = Some r \<longrightarrow> strict_suffix r s)"
  "skip_dom (Inr (Inl s)) \<Longrightarrow> (\<forall>r. SkipObjectLoop s = Some r \<longrightarrow> strict_suffix r s)"
  "skip_dom (Inr (Inr (Inl s))) \<Longrightarrow> (\<forall>r. SkipArray s = Some r \<longrightarrow> strict_suffix r s)"
  "skip_dom (Inr (Inr (Inr s))) \<Longrightarrow> (\<forall>r. SkipArrayLoop s = Some r \<longrightarrow> strict_suffix r s)"
proof (induction rule: skip_pinduct)
  case (1 s)
  show ?case
  proof (intro allI impI)
    fix r assume "SkipValue s = Some r"
    then consider "SkipNumber s = Some r" | "SkipString s = Some r"
      | "SkipLiteral s ''true'' 4 = Some r" | "SkipLiteral s ''false'' 5 = Some r"
      | "SkipLiteral s ''null'' 4 = Some r"
      | "char_at s = Some (CHR ''{'')" "SkipObject s = Some r"
      | "char_at s = Some (CHR ''['')" "SkipArray s = Some r"
      unfolding SkipValue.psimps [OF 1(1)] by (auto split: option.splits if_split_asm)
    then show "strict_suffix r s"
      using 1(2,3) skip_number.proper skip_string.proper
        SkipLiteral_proper [of s "''true''" 4] SkipLiteral_proper [of s "''false''" 5]
        SkipLiteral_proper [of s "''null''" 4]
      by cases simp_all
  qed
next
  case (2 s)
  show ?case
  proof (intro allI impI)
    fix r assume r: "SkipMember s = Some r"
    then obtain p where p: "SkipWhitespace (SkipString s) = Some p" "char_at p = Some (CHR '':'')"
      "SkipValue (dropWhile isspace (tl p)) = Some r"
      using 2(1) by (auto simp: SkipMember.psimps split: option.splits if_splits)
    then have "strict_suffix r (dropWhile isspace (tl p))"
      using 2 by auto
    then show "strict_suffix r s"
      using strict_suffix_ws_tl [OF p(2)] skip_string.then_ws [OF p(1)]
        suffix_order.less_trans by blast
  qed
next
  case (3 s)
  show ?case
    using 3 strict_suffix_ws_tl [of s] strict_suffix_tl_ws_tl [of s]
    by (auto simp: SkipObject.psimps Let_def split: if_splits
        dest: suffix_order.less_trans)
next
  case (4 s)
  show ?case
  proof (intro allI impI)
    fix r assume r: "SkipObjectLoop s = Some r"
    then obtain p where p: "s \<noteq> []" "SkipWhitespace (SkipMember s) = Some p"
      using 4(1) by (auto simp: SkipObjectLoop.psimps split: option.splits if_splits)
    have ps: "strict_suffix p s"
      using 4(2) p by (auto simp: SkipWhitespace_def split: option.splits
          intro: suffix_order.le_less_trans [OF suffix_dropWhile])
    have "suffix r p"
      using r p 4(1) 4(3)[OF p] 4(4)[OF p] strict_suffix_ws_tl [of p] strict_suffix_tl [of p]
      by (auto simp: SkipObjectLoop.psimps split: if_splits
          dest: suffix_order.less_trans suffix_order.less_imp_le)
    then show "strict_suffix r s" using ps by (rule suffix_order.le_less_trans)
  qed
next
  case (5 s)
  show ?case
    using 5 strict_suffix_ws_tl [of s] strict_suffix_tl_ws_tl [of s]
    by (auto simp: SkipArray.psimps Let_def split: if_splits
        dest: suffix_order.less_trans)
next
  case (6 s)
  show ?case
  proof (intro allI impI)
    fix r assume r: "SkipArrayLoop s = Some r"
    then obtain p where p: "s \<noteq> []" "SkipWhitespace (SkipValue s) = Some p"
      using 6(1) by (auto simp: SkipArrayLoop.psimps split: option.splits if_splits)
    have ps: "strict_suffix p s"
      using 6(2) p by (auto simp: SkipWhitespace_def split: option.splits
          intro: suffix_order.le_less_trans [OF suffix_dropWhile])
    have "suffix r p"
      using r p 6(1) 6(3)[OF p] 6(4)[OF p] strict_suffix_ws_tl [of p] strict_suffix_tl [of p]
      by (auto simp: SkipArrayLoop.psimps split: if_splits
          dest: suffix_order.less_trans suffix_order.less_imp_le)
    then show "strict_suffix r s" using ps by (rule suffix_order.le_less_trans)
  qed
qed

text \<open>
  The recursion ends: every call is on a shorter text, or on the same text by a function that comes
  later in the order loops, members and values, objects and arrays.
\<close>

definition skip_measure ::
  "(string + string + string) + (string + string + string) \<Rightarrow> nat" where
  "skip_measure x =
     (case x of
        Inl (Inl s) \<Rightarrow> 3 * length s + 1
      | Inl (Inr (Inl s)) \<Rightarrow> 3 * length s + 1
      | Inl (Inr (Inr s)) \<Rightarrow> 3 * length s
      | Inr (Inl s) \<Rightarrow> 3 * length s + 2
      | Inr (Inr (Inl s)) \<Rightarrow> 3 * length s
      | Inr (Inr (Inr s)) \<Rightarrow> 3 * length s + 2)"

lemma ws_tl_shorter: "char_at s = Some c \<Longrightarrow> length (dropWhile isspace (tl s)) < length s"
  by (rule strict_suffix_length [OF strict_suffix_ws_tl])

lemma ws_shorter: "SkipWhitespace m = Some p \<Longrightarrow> (\<And>r. m = Some r \<Longrightarrow> strict_suffix r s) \<Longrightarrow> length p < length s"
  by (auto simp: SkipWhitespace_def split: option.splits
      intro: strict_suffix_length suffix_order.le_less_trans [OF suffix_dropWhile])

termination SkipValue
proof (relation "measure skip_measure", goal_cases)
  case 1
  then show ?case by simp
next
  case (2 s c)
  then show ?case by (simp add: skip_measure_def)
next
  case (3 s c)
  then show ?case by (simp add: skip_measure_def)
next
  case (4 s p)
  then have "length (dropWhile isspace (tl p)) < length p" "length p < length s"
    using ws_tl_shorter skip_string.then_ws_shorter by blast+
  then show ?case by (simp add: skip_measure_def)
next
  case (5 s p)
  then show ?case using ws_tl_shorter [of s] by (auto simp: skip_measure_def)
next
  case (6 s)
  then show ?case by (simp add: skip_measure_def)
next
  case (7 s p)
  then have "length (dropWhile isspace (tl p)) < length p" "length p < length s"
    using ws_tl_shorter ws_shorter skip_proper_partial(2) by blast+
  then show ?case by (simp add: skip_measure_def)
next
  case (8 s p)
  then have "length p < length s"
    using ws_shorter skip_proper_partial(2) by blast
  then show ?case by (simp add: skip_measure_def)
next
  case (9 s p)
  then show ?case using ws_tl_shorter [of s] by (auto simp: skip_measure_def)
next
  case (10 s)
  then show ?case by (simp add: skip_measure_def)
next
  case (11 s p)
  then have "length (dropWhile isspace (tl p)) < length p" "length p < length s"
    using ws_tl_shorter ws_shorter skip_proper_partial(1) by blast+
  then show ?case by (simp add: skip_measure_def)
next
  case (12 s p)
  then have "length p < length s"
    using ws_shorter skip_proper_partial(1) by blast
  then show ?case by (simp add: skip_measure_def)
qed

lemmas skip_domintros =
  SkipValue_SkipMember_SkipObject_SkipObjectLoop_SkipArray_SkipArrayLoop.domintros

lemma skip_total:
  "skip_dom (Inl (Inl s))" "skip_dom (Inl (Inr (Inl s)))" "skip_dom (Inl (Inr (Inr s)))"
  "skip_dom (Inr (Inl s))" "skip_dom (Inr (Inr (Inl s)))" "skip_dom (Inr (Inr (Inr s)))"
proof (induction rule: SkipValue_SkipMember_SkipObject_SkipObjectLoop_SkipArray_SkipArrayLoop.induct)
qed (rule skip_domintros; fastforce)+

lemma skip_proper:
  "SkipValue s = Some r \<Longrightarrow> strict_suffix r s"
  "SkipMember s = Some r \<Longrightarrow> strict_suffix r s"
  "SkipObject s = Some r \<Longrightarrow> strict_suffix r s"
  "SkipArray s = Some r \<Longrightarrow> strict_suffix r s"
  using skip_proper_partial skip_total by blast+

declare SkipValue.simps [simp del] SkipMember.simps [simp del] SkipObject.simps [simp del]
  SkipObjectLoop.simps [simp del] SkipArray.simps [simp del] SkipArrayLoop.simps [simp del]

interpretation skip_value: skipper SkipValue
  by unfold_locales (simp add: skip_proper)

interpretation skip_member: skipper SkipMember
  by unfold_locales (simp add: skip_proper)

interpretation skip_object: skipper SkipObject
  by unfold_locales (simp add: skip_proper)

interpretation skip_array: skipper SkipArray
  by unfold_locales (simp add: skip_proper)

subsection \<open>Finding what a specification names\<close>

text \<open>
  \<open>GoToElement\<close>: the counter runs up to the index (never negative here), so it is the number of
  elements that remain to be skipped. The second component is what \<open>*resultPtrPtr\<close> receives.
\<close>

fun GoToElementLoop :: "string \<Rightarrow> nat \<Rightarrow> le_result_t \<times> string option" where
  "GoToElementLoop valPtr 0 = (LE_OK, Some valPtr)"
| "GoToElementLoop valPtr (Suc n) =
     (if char_at valPtr = Some (CHR '']'') then (LE_NOT_FOUND, None)
      else
        case SkipWhitespace (SkipValue valPtr) of
          None \<Rightarrow> (LE_FORMAT_ERROR, None)
        | Some p \<Rightarrow>
            if char_at p \<noteq> Some (CHR '','') then (LE_FORMAT_ERROR, None)
            else GoToElementLoop (dropWhile isspace (tl p)) n)"

definition GoToElement :: "string \<Rightarrow> nat \<Rightarrow> le_result_t \<times> string option" where
  "GoToElement valPtr index =
     (if char_at valPtr \<noteq> Some (CHR ''['') then (LE_FORMAT_ERROR, None)
      else GoToElementLoop (dropWhile isspace (tl valPtr)) index)"

function GoToMemberLoop :: "string \<Rightarrow> string \<Rightarrow> le_result_t \<times> string option" where
  "GoToMemberLoop valPtr memberName =
     (if char_at valPtr = Some (CHR 0x22) then
        if strncmp_eq (tl valPtr) memberName (length memberName)
           \<and> char_at (drop (length memberName + 1) valPtr) = Some (CHR 0x22)
        then
          let p = dropWhile isspace (drop (length memberName + 2) valPtr) in
          if char_at p \<noteq> Some (CHR '':'') then (LE_FORMAT_ERROR, None)
          else (LE_OK, Some (dropWhile isspace (tl p)))
        else
          case SkipWhitespace (SkipMember valPtr) of
            None \<Rightarrow> (LE_FORMAT_ERROR, None)
          | Some p \<Rightarrow>
              if char_at p \<noteq> Some (CHR '','') then (LE_FORMAT_ERROR, None)
              else GoToMemberLoop (dropWhile isspace (tl p)) memberName
      else if char_at valPtr = Some (CHR ''}'') then (LE_NOT_FOUND, None)
      else (LE_FORMAT_ERROR, None))"
  by pat_completeness auto
termination GoToMemberLoop
proof (relation "measure (\<lambda>(v, _). length v)", goal_cases)
  case 1
  then show ?case by simp
next
  case (2 s m p)
  then have "length (dropWhile isspace (tl p)) < length p" "length p < length s"
    using ws_tl_shorter skip_member.then_ws_shorter by blast+
  then show ?case by simp
qed

declare GoToMemberLoop.simps [simp del]

definition GoToMember :: "string \<Rightarrow> string \<Rightarrow> le_result_t \<times> string option" where
  "GoToMember valPtr memberName =
     (if char_at valPtr \<noteq> Some (CHR ''{'') then (LE_FORMAT_ERROR, None)
      else GoToMemberLoop (dropWhile isspace (tl valPtr)) memberName)"

text \<open>The loop stops at the first character that is not alphanumeric, or when the buffer is full.\<close>

definition GetMemberName :: "string \<Rightarrow> nat \<Rightarrow> (string \<times> string) option" where
  "GetMemberName specPtr buffSize =
     (let name = take buffSize (takeWhile isalnum specPtr) in
      if length name \<ge> buffSize then None
      else Some (name, drop (length name) specPtr))"

text \<open>The size of the buffer \<open>memberName\<close>, and the next step of a specification.\<close>

definition member_name_size :: nat where
  "member_name_size = 128"

lemma isalpha_isalnum: "isalpha c \<Longrightarrow> isalnum c"
  by (simp add: isalnum_def)

lemma GetMemberName_shorter:
  assumes "GetMemberName s n = Some (name, r)" "char_at s = Some c" "isalpha c"
  shows "length r < length s"
proof -
  obtain t where s: "s = c # t" using assms(2) by (cases s) auto
  have "n \<noteq> 0" using assms(1) by (auto simp: GetMemberName_def Let_def split: if_splits)
  then have "0 < length (take n (takeWhile isalnum s))"
    using s assms(3) isalpha_isalnum by simp
  then show ?thesis
    using assms(1) s by (auto simp: GetMemberName_def Let_def split: if_splits)
qed

function Find :: "string \<Rightarrow> string \<Rightarrow> le_result_t \<times> string option" where
  "Find valPtr specPtr =
     (if valPtr = [] then (LE_NOT_FOUND, None)
      else
        case char_at specPtr of
          None \<Rightarrow> (LE_OK, Some valPtr)
        | Some c \<Rightarrow>
            if c = CHR ''['' then
              let (index, endPtr) = strtoul (tl specPtr) in
              if sint index < 0 \<or> endPtr = tl specPtr \<or> char_at endPtr \<noteq> Some (CHR '']'')
              then (LE_BAD_PARAMETER, None)
              else
                case GoToElement valPtr (unat index) of
                  (LE_OK, Some p) \<Rightarrow> Find p (tl endPtr)
                | (r, _) \<Rightarrow> (r, None)
            else
              let sp = (if c = CHR ''.'' then tl specPtr else specPtr) in
              if \<not> (\<exists>d. char_at sp = Some d \<and> isalpha d) then (LE_BAD_PARAMETER, None)
              else
                case GetMemberName sp member_name_size of
                  None \<Rightarrow> (LE_BAD_PARAMETER, None)
                | Some (memberName, sp') \<Rightarrow>
                    (case GoToMember valPtr memberName of
                       (LE_OK, Some p) \<Rightarrow> Find p sp'
                     | (r, _) \<Rightarrow> (r, None)))"
  by pat_completeness auto

termination Find
proof (relation "measure (\<lambda>(_, s). length s)", goal_cases)
  case 1
  then show ?case by simp
next
  case (2 v spec c r index endPtr res x p)
  then have "length endPtr \<le> length (tl spec)" "endPtr \<noteq> []" "spec \<noteq> []"
    using strtoul_suffix [of "tl spec" index endPtr] suffix_length_le [of endPtr "tl spec"] by auto
  then show ?case by (cases endPtr; cases spec) auto
next
  case (3 v spec c sp nr name sp' res z p)
  then obtain d where d: "char_at sp = Some d" "isalpha d" by auto
  have "length sp' < length sp"
    by (rule GetMemberName_shorter [of sp member_name_size name sp' d]) (use 3 d in auto)
  moreover have "length sp \<le> length spec" using 3 by auto
  ultimately show ?case by simp
qed

declare Find.simps [simp del]

subsection \<open>Extraction\<close>

text \<open>
  The result of an extraction: the code, what is written to the result buffer, and what is stored
  through the data type pointer. \<open>None\<close> is a store through a data type pointer that is \<open>NULL\<close>
  (\<open>typeWanted\<close> is false), which the branches of the literals do not guard.
\<close>

type_synonym extraction = "le_result_t \<times> string option \<times> json_DataType_t option"

definition extract_part ::
  "string \<Rightarrow> nat \<Rightarrow> nat \<Rightarrow> bool \<Rightarrow> json_DataType_t \<Rightarrow> extraction" where
  "extract_part valPtr objSize resultBuffSize typeWanted ty =
     (if objSize \<ge> resultBuffSize then (LE_OVERFLOW, None, None)
      else (LE_OK, Some (take objSize valPtr), if typeWanted then Some ty else None))"

definition extract_literal ::
  "legato \<Rightarrow> string \<Rightarrow> nat \<Rightarrow> bool \<Rightarrow> json_DataType_t \<Rightarrow> extraction option" where
  "extract_literal L text resultBuffSize typeWanted ty =
     (if typeWanted then
        let (r, s) = utf8_Copy L text resultBuffSize in Some (r, Some s, Some ty)
      else None)"

definition json_Extract ::
  "legato \<Rightarrow> nat \<Rightarrow> string \<Rightarrow> string \<Rightarrow> bool \<Rightarrow> extraction option" where
  "json_Extract L resultBuffSize jsonValue extractionSpec typeWanted =
     (case Find jsonValue extractionSpec of
        (LE_OK, Some valPtr) \<Rightarrow>
          let bad = Some (LE_FORMAT_ERROR, None, None);
              part = (\<lambda>endPtr ty. case endPtr of
                  None \<Rightarrow> bad
                | Some e \<Rightarrow> Some (extract_part valPtr (length valPtr - length e)
                                   resultBuffSize typeWanted ty));
              c = char_at valPtr
          in if c = Some (CHR ''{'') then part (SkipObject valPtr) JSON_TYPE_OBJECT
             else if c = Some (CHR ''['') then part (SkipArray valPtr) JSON_TYPE_ARRAY
             else if c = Some (CHR 0x22) then
               (case SkipString valPtr of
                  None \<Rightarrow> bad
                | Some e \<Rightarrow> Some (extract_part (tl valPtr) (length valPtr - length e - 2)
                                   resultBuffSize typeWanted JSON_TYPE_STRING))
             else if c = Some (CHR ''t'') then
               (if strncmp_eq valPtr ''true'' 4
                then extract_literal L ''true'' resultBuffSize typeWanted JSON_TYPE_BOOLEAN
                else bad)
             else if c = Some (CHR ''f'') then
               (if strncmp_eq valPtr ''false'' 5
                then extract_literal L ''false'' resultBuffSize typeWanted JSON_TYPE_BOOLEAN
                else bad)
             else if c = Some (CHR ''n'') then
               (if strncmp_eq valPtr ''null'' 4
                then extract_literal L ''null'' resultBuffSize typeWanted JSON_TYPE_NULL
                else bad)
             else part (SkipNumber valPtr) JSON_TYPE_NUMBER
      | (r, _) \<Rightarrow> Some (r, None, None))"

subsection \<open>Conversion\<close>

text \<open>\<open>ParseNumber\<close>: the end character may be the terminator or one of \<open>legalEndChars\<close>.\<close>

definition ParseNumber :: "string \<Rightarrow> string \<Rightarrow> double option" where
  "ParseNumber str legalEndChars =
     (let (number, endPtr, erange) = strtod str in
      if endPtr \<noteq> str \<and> \<not> erange
         \<and> (case char_at endPtr of None \<Rightarrow> True | Some c \<Rightarrow> c \<in> set legalEndChars)
      then Some number else None)"

definition json_ConvertToBoolean :: "string \<Rightarrow> bool" where
  "json_ConvertToBoolean jsonValue =
     (if jsonValue = ''true'' then True
      else if jsonValue = ''false'' then False
      else
        case ParseNumber jsonValue [] of
          Some number \<Rightarrow> \<not> dbl_eq number (dbl_of_int 0) \<and> \<not> isnan number
        | None \<Rightarrow> jsonValue \<noteq> [])"

definition json_ConvertToNumber :: "string \<Rightarrow> double" where
  "json_ConvertToNumber jsonValue =
     (if jsonValue = ''true'' then dbl_of_int 1
      else if jsonValue = ''false'' then dbl_of_int 0
      else
        case ParseNumber jsonValue [] of
          Some number \<Rightarrow> number
        | None \<Rightarrow> NAN)"

definition json_IsValid :: "string \<Rightarrow> bool" where
  "json_IsValid jsonValue =
     (case SkipWhitespace (SkipWhitespace (Some jsonValue) \<bind> SkipValue) of
        None \<Rightarrow> False
      | Some endPtr \<Rightarrow> endPtr = [])"

fun json_GetDataTypeName :: "json_DataType_t \<Rightarrow> string" where
  "json_GetDataTypeName JSON_TYPE_NULL = ''null''"
| "json_GetDataTypeName JSON_TYPE_BOOLEAN = ''Boolean''"
| "json_GetDataTypeName JSON_TYPE_NUMBER = ''number''"
| "json_GetDataTypeName JSON_TYPE_STRING = ''string''"
| "json_GetDataTypeName JSON_TYPE_OBJECT = ''object''"
| "json_GetDataTypeName JSON_TYPE_ARRAY = ''array''"

end
