(* ===== verification/JsonSpec.thy ===== *)
theory JsonSpec
  imports Json
begin

text \<open>
  What the JSON component promises. JSON documents are trees; \<open>json_text j s\<close> says that \<open>s\<close> is a
  text of the document \<open>j\<close>, with white space between its tokens as it likes. The scanning functions
  of \<open>Json\<close> are related to the trees: a text of a document is skipped exactly, and what an
  extraction specification names is found by walking down the tree.

  Strings are kept as written between their quotes. \<open>raw_ok\<close> says which contents the scanner ends
  where it should: it treats a backslash before a quote as an escaped quote, always.
\<close>

datatype json =
    JNull
  | JBool bool
  | JNum string
  | JStr string
  | JArr "json list"
  | JObj "(string \<times> json) list"

subsection \<open>Tokens\<close>

function raw_ok :: "string \<Rightarrow> bool" where
  "raw_ok [] = True"
| "raw_ok (c # s) =
     (c \<noteq> CHR 0x22 \<and>
      (if c = CHR 0x5C then
         s \<noteq> [] \<and> (if hd s = CHR 0x22 then raw_ok (tl s) else raw_ok s)
       else raw_ok s))"
  by pat_completeness auto
termination raw_ok by (relation "measure length") auto

definition ws :: "string \<Rightarrow> bool" where
  "ws w = (\<forall>c \<in> set w. isspace c)"

definition digits :: "string \<Rightarrow> bool" where
  "digits s = (\<forall>c \<in> set s. isdigit c)"

text \<open>A number: an optional minus, digits, an optional fraction and an optional exponent.\<close>

definition exponent_text :: "(char \<times> string \<times> string) option \<Rightarrow> string" where
  "exponent_text ex = (case ex of None \<Rightarrow> [] | Some (e, sg, ds) \<Rightarrow> e # sg @ ds)"

definition number_text ::
  "bool \<Rightarrow> string \<Rightarrow> string \<Rightarrow> (char \<times> string \<times> string) option \<Rightarrow> string" where
  "number_text neg ip fp ex =
     (if neg then ''-'' else []) @ ip @ (if fp = [] then [] else CHR ''.'' # fp) @ exponent_text ex"

definition exponent_ok :: "(char \<times> string \<times> string) option \<Rightarrow> bool" where
  "exponent_ok ex =
     (case ex of None \<Rightarrow> True
      | Some (e, sg, ds) \<Rightarrow> (e = CHR ''e'' \<or> e = CHR ''E'') \<and> (sg = [] \<or> sg = ''+'' \<or> sg = ''-'')
          \<and> ds \<noteq> [] \<and> digits ds)"

definition number_token :: "string \<Rightarrow> bool" where
  "number_token s \<longleftrightarrow>
     (\<exists>neg ip fp ex. s = number_text neg ip fp ex \<and> ip \<noteq> [] \<and> digits ip \<and> digits fp
        \<and> exponent_ok ex)"

subsection \<open>Texts of a document\<close>

inductive json_text :: "json \<Rightarrow> string \<Rightarrow> bool"
  and json_elems :: "json list \<Rightarrow> string \<Rightarrow> bool"
  and json_members :: "(string \<times> json) list \<Rightarrow> string \<Rightarrow> bool"
where
  text_null: "json_text JNull ''null''"
| text_true: "json_text (JBool True) ''true''"
| text_false: "json_text (JBool False) ''false''"
| text_num: "number_token s \<Longrightarrow> json_text (JNum s) s"
| text_str: "raw_ok s \<Longrightarrow> json_text (JStr s) (CHR 0x22 # s @ [CHR 0x22])"
| text_arr0: "ws w \<Longrightarrow> json_text (JArr []) (CHR ''['' # w @ '']'')"
| text_arr: "ws w \<Longrightarrow> json_elems js t \<Longrightarrow> json_text (JArr js) (CHR ''['' # w @ t)"
| text_obj0: "ws w \<Longrightarrow> json_text (JObj []) (CHR ''{'' # w @ ''}'')"
| text_obj: "ws w \<Longrightarrow> json_members ms t \<Longrightarrow> json_text (JObj ms) (CHR ''{'' # w @ t)"
| elems_last: "json_text j s \<Longrightarrow> ws w \<Longrightarrow> json_elems [j] (s @ w @ '']'')"
| elems_more: "json_text j s \<Longrightarrow> ws w \<Longrightarrow> ws w' \<Longrightarrow> json_elems js t \<Longrightarrow>
    json_elems (j # js) (s @ w @ '','' @ w' @ t)"
| members_last: "raw_ok n \<Longrightarrow> ws w \<Longrightarrow> ws w' \<Longrightarrow> json_text j s \<Longrightarrow> ws w'' \<Longrightarrow>
    json_members [(n, j)] (CHR 0x22 # n @ [CHR 0x22] @ w @ '':'' @ w' @ s @ w'' @ ''}'')"
| members_more: "raw_ok n \<Longrightarrow> ws w \<Longrightarrow> ws w' \<Longrightarrow> json_text j s \<Longrightarrow> ws w'' \<Longrightarrow> ws w3 \<Longrightarrow>
    json_members ms t \<Longrightarrow>
    json_members ((n, j) # ms)
      (CHR 0x22 # n @ [CHR 0x22] @ w @ '':'' @ w' @ s @ w'' @ '','' @ w3 @ t)"

inductive_cases json_text_arrE: "json_text (JArr js) s"
inductive_cases json_text_objE: "json_text (JObj ms) s"
inductive_cases json_text_strE: "json_text (JStr r) s"
inductive_cases json_text_numE: "json_text (JNum r) s"
inductive_cases json_text_boolE: "json_text (JBool b) s"
inductive_cases json_text_nullE: "json_text JNull s"

subsection \<open>Skipping tokens\<close>

lemma SkipStringLoop_raw: "raw_ok s \<Longrightarrow> SkipStringLoop (s @ CHR 0x22 # rest) = Some rest"
proof (induction s rule: raw_ok.induct)
  case (2 c s)
  then show ?case by (cases s) (auto split: if_splits)
qed simp

lemma SkipString_raw:
  "raw_ok s \<Longrightarrow> SkipString (CHR 0x22 # s @ CHR 0x22 # rest) = Some rest"
  by (simp add: SkipString_def SkipStringLoop_raw)

lemma SkipLiteral_text:
  "ends_value rest \<Longrightarrow> n = length t \<Longrightarrow> SkipLiteral (t @ rest) t n = Some rest"
  by (simp add: SkipLiteral_def strncmp_eq_def)

text \<open>A character that cannot continue a number.\<close>

definition num_stop :: "char \<Rightarrow> bool" where
  "num_stop c = (\<not> isdigit c \<and> c \<noteq> CHR ''.'' \<and> tolower_code c \<noteq> 101 \<and> tolower_code c \<noteq> 120)"

lemma ends_value_stop: "ends_value (c # s) \<Longrightarrow> num_stop c"
  by (auto simp: ends_value_def num_stop_def char_classes)

lemma digit_props:
  assumes "isdigit c"
  shows "\<not> isspace c" "c \<noteq> CHR ''-''" "c \<noteq> CHR ''+''" "c \<noteq> CHR ''.''"
    "tolower_code c = char_code c" "48 \<le> char_code c" "char_code c \<le> 57"
    "c \<noteq> CHR ''['' " "c \<noteq> CHR ''{''" "c \<noteq> CHR '']''" "c \<noteq> CHR ''}''" "c \<noteq> CHR '',''"
    "c \<noteq> CHR 0x22" "c \<noteq> CHR ''t''" "c \<noteq> CHR ''f''" "c \<noteq> CHR ''n''"
  using assms by (auto simp: char_classes)

lemma takeWhile_digits:
  "digits ds \<Longrightarrow> r = [] \<or> \<not> isdigit (hd r) \<Longrightarrow>
   takeWhile isdigit (ds @ r) = ds \<and> dropWhile isdigit (ds @ r) = r"
  by (intro conjI takeWhile_append_stop dropWhile_append_stop) (auto simp: digits_def)

lemma scan_exponent_text:
  assumes "exponent_ok ex" "r = [] \<or> num_stop (hd r)"
  shows "\<exists>e. scan_exponent 101 (exponent_text ex @ r) = (e, r)"
proof (cases ex)
  case None
  then show ?thesis
    using assms by (auto simp: exponent_text_def scan_exponent_def num_stop_def split: list.splits)
next
  case (Some x)
  obtain e sg ds where x: "x = (e, sg, ds)" by (cases x)
  then have ds: "ds \<noteq> []" "digits ds" using assms(1) Some by (auto simp: exponent_ok_def)
  then obtain d ds' where d: "ds = d # ds'" "isdigit d" by (cases ds) (auto simp: digits_def)
  have tw: "takeWhile isdigit (ds @ r) = ds" "dropWhile isdigit (ds @ r) = r"
    using takeWhile_digits [OF ds(2), of r] assms(2) by (auto simp: num_stop_def)
  have "\<exists>neg. scan_sign (sg @ ds @ r) = (neg, ds @ r)"
    using assms(1) Some x d digit_props(2,3) [OF d(2)] by (auto simp: exponent_ok_def)
  moreover have "tolower_code e = 101"
    using assms(1) Some x by (auto simp: exponent_ok_def char_classes)
  ultimately show ?thesis
    using Some x ds(1) tw by (auto simp: exponent_text_def scan_exponent_def)
qed

lemma scan_mantissa_plain:
  assumes "takeWhile P s = ip" "dropWhile P s = r" "r = [] \<or> hd r \<noteq> CHR ''.''"
  shows "scan_mantissa P s = (ip, [], r)"
  using assms(3) unfolding scan_mantissa_def assms(1,2) Let_def by (cases r) auto

lemma scan_mantissa_point:
  assumes "takeWhile P s = ip" "dropWhile P s = CHR ''.'' # t" "ip \<noteq> []"
  shows "scan_mantissa P s = (ip, takeWhile P t, dropWhile P t)"
  using assms(3) unfolding scan_mantissa_def assms(1,2) Let_def by simp

lemma exponent_text_head:
  "exponent_ok ex \<Longrightarrow> exponent_text ex = [] \<or>
   (hd (exponent_text ex) = CHR ''e'' \<or> hd (exponent_text ex) = CHR ''E'')"
  by (auto simp: exponent_ok_def exponent_text_def split: option.splits)

lemma scan_number_token:
  assumes "ip \<noteq> []" "digits ip" "digits fp" "exponent_ok ex" "r = [] \<or> num_stop (hd r)"
  shows "\<exists>v e. scan_number neg (ip @ (if fp = [] then [] else CHR ''.'' # fp) @ exponent_text ex @ r)
           = Some (v, r, e)"
    (is "\<exists>v e. scan_number neg (ip @ ?f @ ?x @ r) = _")
proof -
  obtain c ip' where ip: "ip = c # ip'" "isdigit c" using assms(1,2) by (cases ip) (auto simp: digits_def)
  have stop: "?x @ r = [] \<or> \<not> isdigit (hd (?x @ r)) \<and> hd (?x @ r) \<noteq> CHR ''.''
      \<and> tolower_code (hd (?x @ r)) \<noteq> 120"
    using exponent_text_head [OF assms(4)] assms(5)
    by (auto simp: num_stop_def hd_append char_classes)
  have mant: "scan_mantissa isdigit (ip @ ?f @ ?x @ r) = (ip, fp, ?x @ r)"
  proof (cases "fp = []")
    case True
    have "scan_mantissa isdigit (ip @ ?x @ r) = (ip, [], ?x @ r)"
      using takeWhile_digits [OF assms(2), of "?x @ r"] stop by (intro scan_mantissa_plain) auto
    then show ?thesis using True by simp
  next
    case False
    then have "takeWhile isdigit (ip @ ?f @ ?x @ r) = ip"
      "dropWhile isdigit (ip @ ?f @ ?x @ r) = CHR ''.'' # fp @ ?x @ r"
      using takeWhile_digits [OF assms(2), of "?f @ ?x @ r"] by (auto simp: char_classes)
    from scan_mantissa_point [OF this assms(1)] show ?thesis
      using takeWhile_digits [OF assms(3), of "?x @ r"] stop by metis
  qed
  obtain e where "scan_exponent 101 (?x @ r) = (e, r)"
    using scan_exponent_text [OF assms(4,5)] by blast
  then have dec: "\<exists>v q. scan_decimal neg (ip @ ?f @ ?x @ r) = Some (v, r, q)"
    using mant assms(1) by (simp add: scan_decimal_def finish_number_def del: append_assoc)
  have tc: "tolower_code c \<le> 57"
    using digit_props(5,7) [OF ip(2)] by simp
  have letters: "tolower_code (CHR ''i'') = 105" "tolower_code (CHR ''n'') = 110"
    by (simp_all add: char_classes)
  have nl: "\<not> has_prefix_nocase ''infinity'' (c # s)" "\<not> has_prefix_nocase ''inf'' (c # s)"
    "\<not> has_prefix_nocase ''nan'' (c # s)" for s
    using tc by (auto simp: has_prefix_nocase_def letters)
  have "\<not> has_prefix_nocase ''0x'' (ip @ ?f @ ?x @ r)"
  proof
    assume h: "has_prefix_nocase ''0x'' (ip @ ?f @ ?x @ r)"
    then have t: "tolower_code (hd (ip' @ ?f @ ?x @ r)) = 120" "ip' @ ?f @ ?x @ r \<noteq> []"
      unfolding ip(1) by (cases "ip' @ ?f @ ?x @ r"; auto simp: has_prefix_nocase_def char_classes)+
    then show False
    proof (cases ip')
      case Nil
      then show ?thesis
        using t stop
        by (auto simp: char_classes split: if_splits)
    next
      case (Cons d ip2)
      then have "isdigit d" using assms(2) ip by (simp add: digits_def)
      then show ?thesis using t Cons digit_props(5,7) [of d] by simp
    qed
  qed
  then show ?thesis
    using dec nl unfolding scan_number_def ip(1) by simp
qed

lemma SkipNumber_token:
  assumes "number_token s" "ends_value rest"
  shows "SkipNumber (s @ rest) = Some rest"
proof -
  obtain neg ip fp ex where s: "s = number_text neg ip fp ex" "ip \<noteq> []" "digits ip" "digits fp"
    "exponent_ok ex"
    using assms(1) by (auto simp: number_token_def)
  have r: "rest = [] \<or> num_stop (hd rest)"
    using assms(2) ends_value_stop by (cases rest) auto
  let ?b = "ip @ (if fp = [] then [] else CHR ''.'' # fp) @ exponent_text ex @ rest"
  obtain c ip' where ip: "ip = c # ip'" "isdigit c" using s(2,3) by (cases ip) (auto simp: digits_def)
  have st: "s @ rest = (if neg then ''-'' else []) @ ?b"
    using s(1) by (simp add: number_text_def)
  have "\<not> isspace (CHR ''-'')" by (simp add: char_classes)
  then have "dropWhile isspace (s @ rest) = s @ rest" "scan_sign (s @ rest) = (neg, ?b)"
    unfolding st using ip digit_props(1-3) [OF ip(2)] by auto
  moreover obtain v e where "scan_number neg ?b = Some (v, rest, e)"
    using scan_number_token [OF s(2-5) r] by blast
  ultimately have "strtod (s @ rest) = (v, rest, e)"
    by (simp add: strtod_def)
  moreover have "s \<noteq> []" using s(1,2) by (auto simp: number_text_def)
  ultimately show ?thesis using assms(2) by (simp add: SkipNumber_def)
qed

subsection \<open>Skipping a text\<close>

text \<open>The first character of a value: the text that follows white space starts there.\<close>

definition value_head :: "string \<Rightarrow> bool" where
  "value_head s = (\<exists>c t. s = c # t \<and> \<not> isspace c \<and> c \<noteq> CHR '']'' \<and> c \<noteq> CHR ''}'' \<and> c \<noteq> CHR '','')"

lemma value_head_append: "value_head s \<Longrightarrow> value_head (s @ t)"
  by (auto simp: value_head_def)

lemma value_head_nonempty: "value_head s \<Longrightarrow> s \<noteq> []"
  by (auto simp: value_head_def)

lemma skip_ws_value: "ws w \<Longrightarrow> value_head s \<Longrightarrow> dropWhile isspace (w @ s) = s"
  by (rule dropWhile_append_stop) (auto simp: ws_def value_head_def)

lemma value_head_skip: "value_head s \<Longrightarrow> dropWhile isspace s = s"
  by (auto simp: value_head_def)

lemma skip_ws_char: "ws w \<Longrightarrow> \<not> isspace c \<Longrightarrow> dropWhile isspace (w @ c # s) = c # s"
  by (rule dropWhile_append_stop) (auto simp: ws_def)

lemma not_space [simp]:
  "\<not> isspace (CHR '','')" "\<not> isspace (CHR '']'')" "\<not> isspace (CHR ''}'')" "\<not> isspace (CHR '':'')"
  "\<not> isspace (CHR 0x22)" "\<not> isspace (CHR ''['')" "\<not> isspace (CHR ''{'')" "\<not> isspace (CHR ''t'')"
  "\<not> isspace (CHR ''f'')" "\<not> isspace (CHR ''n'')" "\<not> isspace (CHR ''-'')"
  by (simp_all add: char_classes)

lemma ends_value_ws:
  "ws w \<Longrightarrow> c = CHR '','' \<or> c = CHR '']'' \<or> c = CHR ''}'' \<Longrightarrow> ends_value (w @ c # s)"
  by (cases w) (auto simp: ends_value_def ws_def)

lemma number_token_head:
  assumes "number_token s"
  obtains c t where "s = c # t" "c = CHR ''-'' \<or> isdigit c"
proof -
  obtain neg ip fp ex where s: "s = number_text neg ip fp ex" "ip \<noteq> []" "digits ip"
    using assms by (auto simp: number_token_def)
  then show thesis
    using that by (cases ip; cases neg) (auto simp: number_text_def digits_def)
qed

lemma number_value_head: "number_token s \<Longrightarrow> value_head s"
  by (erule number_token_head) (auto simp: value_head_def char_classes)

lemma SkipValue_number:
  assumes "number_token s" "ends_value rest"
  shows "SkipValue (s @ rest) = Some rest"
proof -
  obtain c t where c: "s = c # t" "c = CHR ''-'' \<or> isdigit c"
    using assms(1) by (rule number_token_head)
  have "c \<noteq> CHR ''{'' \<and> c \<noteq> CHR ''['' \<and> c \<noteq> CHR 0x22 \<and> c \<noteq> CHR ''t'' \<and> c \<noteq> CHR ''f'' \<and> c \<noteq> CHR ''n''"
    using c(2) by (auto simp: char_classes)
  then have "SkipValue (s @ rest) = SkipNumber (s @ rest)"
    unfolding c(1) append_Cons SkipValue.simps [of "c # t @ rest"] by simp
  then show ?thesis using SkipNumber_token assms by simp
qed

lemma SkipMember_text:
  assumes "raw_ok n" "ws w" "ws w'" "value_head (s @ t)" "SkipValue (s @ t) = Some t"
  shows "SkipMember (CHR 0x22 # n @ CHR 0x22 # w @ CHR '':'' # w' @ s @ t) = Some t"
  using assms
  by (simp add: SkipMember.simps SkipString_raw SkipWhitespace_def skip_ws_char skip_ws_value)

lemma SkipArrayLoop_step:
  assumes "SkipValue v = Some (w @ c # r)" "ws w" "\<not> isspace c" "v \<noteq> []"
  shows "SkipArrayLoop v =
    (if c = CHR '']'' then Some r
     else if c = CHR '','' then SkipArrayLoop (dropWhile isspace r)
     else SkipArrayLoop (c # r))"
  using assms by (subst SkipArrayLoop.simps) (simp add: SkipWhitespace_def skip_ws_char)

lemma SkipObjectLoop_step:
  assumes "SkipMember v = Some (w @ c # r)" "ws w" "\<not> isspace c" "v \<noteq> []"
  shows "SkipObjectLoop v =
    (if c = CHR ''}'' then Some r
     else if c = CHR '','' then SkipObjectLoop (dropWhile isspace r)
     else SkipObjectLoop (c # r))"
  using assms by (subst SkipObjectLoop.simps) (simp add: SkipWhitespace_def skip_ws_char)

lemma skip_texts:
  "json_text j s \<Longrightarrow> value_head s \<and> (\<forall>rest. ends_value rest \<longrightarrow> SkipValue (s @ rest) = Some rest)"
  "json_elems js t \<Longrightarrow> value_head t \<and> (\<forall>rest. SkipArrayLoop (t @ rest) = Some rest)"
  "json_members ms t \<Longrightarrow>
     value_head t \<and> char_at t = Some (CHR 0x22) \<and> (\<forall>rest. SkipObjectLoop (t @ rest) = Some rest)"
proof (induction rule: json_text_json_elems_json_members.inducts)
  case (text_arr w js t)
  then have "SkipValue ((CHR ''['' # w @ t) @ rest) = Some rest" for rest
    using skip_ws_value [of w "t @ rest"] value_head_append [of t rest]
    by (auto simp: SkipValue.simps SkipArray.simps value_head_def)
  then show ?case by (simp add: value_head_def)
next
  case (text_obj w ms t)
  then have "SkipValue ((CHR ''{'' # w @ t) @ rest) = Some rest" for rest
    using skip_ws_value [of w "t @ rest"] value_head_append [of t rest]
    by (auto simp: SkipValue.simps SkipObject.simps value_head_def)
  then show ?case by (simp add: value_head_def)
next
  case (elems_last j s w)
  then have "SkipArrayLoop (s @ w @ CHR '']'' # rest) = Some rest" for rest
    using SkipArrayLoop_step [of "s @ w @ CHR '']'' # rest" w "CHR '']''" rest]
      ends_value_ws [of w "CHR '']''" rest] value_head_nonempty [of s] by simp
  then show ?case using elems_last by (simp add: value_head_append)
next
  case (elems_more j s w w' js t)
  have "SkipArrayLoop (s @ w @ CHR '','' # w' @ t @ rest) = Some rest" for rest
    using elems_more SkipArrayLoop_step [of "s @ w @ CHR '','' # w' @ t @ rest" w "CHR '',''" "w' @ t @ rest"]
      ends_value_ws [of w "CHR '',''" "w' @ t @ rest"] value_head_nonempty [of s]
      skip_ws_value [of w' "t @ rest"] value_head_append [of t rest] by simp
  then show ?case using elems_more by (simp add: value_head_append)
next
  case (members_last n w w' j s w'')
  have "SkipObjectLoop (CHR 0x22 # n @ CHR 0x22 # w @ CHR '':'' # w' @ s @ w'' @ CHR ''}'' # rest) = Some rest" for rest
    using members_last SkipMember_text [of n w w' s "w'' @ CHR ''}'' # rest"]
      SkipObjectLoop_step [of _ w'' "CHR ''}''" rest]
      ends_value_ws [of w'' "CHR ''}''" rest] value_head_append [of s] by simp
  then show ?case by (simp add: value_head_def)
next
  case (members_more n w w' j s w'' w3 ms t)
  have "SkipObjectLoop (CHR 0x22 # n @ CHR 0x22 # w @ CHR '':'' # w' @ s @ w'' @ CHR '','' # w3 @ t @ rest) = Some rest" for rest
    using members_more SkipMember_text [of n w w' s "w'' @ CHR '','' # w3 @ t @ rest"]
      SkipObjectLoop_step [of _ w'' "CHR '',''" "w3 @ t @ rest"]
      ends_value_ws [of w'' "CHR '',''" "w3 @ t @ rest"] value_head_append [of s]
      skip_ws_value [of w3 "t @ rest"] value_head_append [of t rest] by simp
  then show ?case by (simp add: value_head_def)
next
  case (text_num s)
  then show ?case by (simp add: SkipValue_number number_value_head)
next
  case text_null
  then show ?case
    using SkipLiteral_text [of _ 4 "''null''"] by (simp add: SkipValue.simps value_head_def)
next
  case text_true
  then show ?case
    using SkipLiteral_text [of _ 4 "''true''"] by (simp add: SkipValue.simps value_head_def)
next
  case text_false
  then show ?case
    using SkipLiteral_text [of _ 5 "''false''"] by (simp add: SkipValue.simps value_head_def)
next
  case (text_str s)
  then show ?case by (simp add: SkipValue.simps value_head_def SkipString_raw)
next
  case (text_arr0 w)
  then show ?case by (simp add: SkipValue.simps SkipArray.simps value_head_def skip_ws_char)
next
  case (text_obj0 w)
  then show ?case by (simp add: SkipValue.simps SkipObject.simps value_head_def skip_ws_char)
qed

lemmas json_text_head = skip_texts(1) [THEN conjunct1]

lemma SkipValue_text: "json_text j s \<Longrightarrow> ends_value rest \<Longrightarrow> SkipValue (s @ rest) = Some rest"
  using skip_texts(1) by blast

subsection \<open>Walking down a document\<close>

datatype path_step = Index nat | Member string

fun jlookup :: "json \<Rightarrow> path_step list \<Rightarrow> json option" where
  "jlookup j [] = Some j"
| "jlookup (JArr js) (Index i # p) = (if i < length js then jlookup (js ! i) p else None)"
| "jlookup (JObj ms) (Member m # p) = (case map_of ms m of None \<Rightarrow> None | Some j \<Rightarrow> jlookup j p)"
| "jlookup _ _ = None"

text \<open>
  How a path is written: an index in brackets, a member after a dot. The dot before a member at the
  beginning may be left out.
\<close>

fun spec_text :: "path_step list \<Rightarrow> string" where
  "spec_text [] = []"
| "spec_text (Index i # p) = CHR ''['' # nat_digits (int i) @ CHR '']'' # spec_text p"
| "spec_text (Member m # p) = CHR ''.'' # m @ spec_text p"

definition short_spec_text :: "path_step list \<Rightarrow> string" where
  "short_spec_text p = (case p of Member m # _ \<Rightarrow> tl (spec_text p) | _ \<Rightarrow> spec_text p)"

text \<open>
  An index has to fit a \<open>long\<close>, a member name has to begin with a letter, to be alphanumeric and to
  fit the name buffer with its terminator.
\<close>

fun step_ok :: "path_step \<Rightarrow> bool" where
  "step_ok (Index i) = (i < 0x80000000)"
| "step_ok (Member m) =
     (m \<noteq> [] \<and> isalpha (hd m) \<and> (\<forall>c \<in> set m. isalnum c) \<and> length m < member_name_size)"

definition path_ok :: "path_step list \<Rightarrow> bool" where
  "path_ok p = (\<forall>s \<in> set p. step_ok s)"

lemma char_code_digit: "0 \<le> n \<Longrightarrow> n < 10 \<Longrightarrow> char_code (char_of (48 + n)) = 48 + n"
  by (simp add: char_code_def)

lemma digits_value_snoc:
  "digits_value b (ds @ [c]) = digits_value b ds * b + hex_val c"
  by (simp add: digits_value_def)

lemma nat_digits_props:
  "0 \<le> n \<Longrightarrow> digits (nat_digits n) \<and> nat_digits n \<noteq> [] \<and> digits_value 10 (nat_digits n) = n"
proof (induction n rule: nat_digits.induct)
  case (1 n)
  have d: "isdigit (char_of (48 + k))" "hex_val (char_of (48 + k)) = k" if "0 \<le> k" "k < 10" for k :: int
    using char_code_digit [OF that] that by (simp_all add: isdigit_def hex_val_def)
  show ?case
  proof (cases "n < 10")
    case True
    then show ?thesis
      using 1(2) d [of n] nat_digits.simps [of n] by (simp add: digits_def digits_value_def)
  next
    case False
    then have "digits (nat_digits (n div 10))" "digits_value 10 (nat_digits (n div 10)) = n div 10"
      using 1 by auto
    then show ?thesis
      using False d [of "n mod 10"] nat_digits.simps [of n]
      by (simp add: digits_def digits_value_snoc)
  qed
qed

lemma strtoul_nat_digits:
  assumes "i < 0x100000000" "r = [] \<or> \<not> isdigit (hd r)"
  shows "strtoul (nat_digits (int i) @ r) = (word_of_int (int i), r)"
proof -
  have d: "digits (nat_digits (int i))" "nat_digits (int i) \<noteq> []"
    "digits_value 10 (nat_digits (int i)) = int i"
    using nat_digits_props [of "int i"] by auto
  then obtain c ds where c: "nat_digits (int i) = c # ds" "isdigit c"
    by (cases "nat_digits (int i)") (auto simp: digits_def)
  have sc: "scan_sign (dropWhile isspace (nat_digits (int i) @ r)) = (False, nat_digits (int i) @ r)"
    using c digit_props(1,2,3) [OF c(2)] by simp
  have tw: "takeWhile isdigit (nat_digits (int i) @ r) = nat_digits (int i)"
    "dropWhile isdigit (nat_digits (int i) @ r) = r"
    using takeWhile_digits [OF d(1) assms(2)] by auto
  show ?thesis
    unfolding strtoul_def sc Let_def prod.case tw d(3) using d(2) assms(1) by simp
qed

lemma value_text_pos: "json_text j s \<Longrightarrow> s \<noteq> []"
  by (rule value_head_nonempty [OF json_text_head])

lemma value_head_ends: "value_head s \<Longrightarrow> char_at s \<noteq> Some (CHR '']'')"
  by (auto simp: value_head_def)

subsection \<open>Elements and members\<close>

lemma GoToElementLoop_text:
  "json_text j s \<Longrightarrow> True"
  "json_elems js t \<Longrightarrow> i < length js \<Longrightarrow>
     \<exists>s u. GoToElementLoop (t @ rest) i = (LE_OK, Some (s @ u)) \<and> json_text (js ! i) s
       \<and> ends_value u \<and> suffix (s @ u) (t @ rest)"
  "json_members ms t' \<Longrightarrow> True"
proof (induction arbitrary: and i and rule: json_text_json_elems_json_members.inducts)
  case (elems_last j s w)
  then have "ends_value ((w @ '']'') @ rest)" by (simp add: ends_value_ws)
  moreover have "GoToElementLoop ((s @ w @ '']'') @ rest) i = (LE_OK, Some (s @ (w @ '']'') @ rest))"
    using elems_last by simp
  ultimately show ?case using elems_last by (intro exI [of _ s] exI [of _ "(w @ '']'') @ rest"]) simp
next
  case (elems_more j s w w' js t)
  let ?r = "w @ CHR '','' # w' @ t @ rest"
  have e: "ends_value ?r" using elems_more by (simp add: ends_value_ws)
  show ?case
  proof (cases i)
    case 0
    then show ?thesis
      using elems_more(1) e by (intro exI [of _ s] exI [of _ ?r]) simp
  next
    case (Suc k)
    have h: "value_head (s @ ?r)" "value_head (t @ rest)"
      using elems_more json_text_head skip_texts(2) value_head_append by blast+
    have "GoToElementLoop (s @ ?r) (Suc k) = GoToElementLoop (t @ rest) k"
      using value_head_ends [OF h(1)] SkipValue_text [OF elems_more(1) e] elems_more(2,3)
        skip_ws_value [OF elems_more(3) h(2)]
      by (simp add: SkipWhitespace_def skip_ws_char)
    moreover obtain s' u where "GoToElementLoop (t @ rest) k = (LE_OK, Some (s' @ u))"
      "json_text (js ! k) s'" "ends_value u" "suffix (s' @ u) (t @ rest)"
      using elems_more(6) [of k] elems_more(7) Suc by auto
    moreover have "suffix (t @ rest) ((s @ w @ '','' @ w' @ t) @ rest)"
      by (simp add: suffix_def)
    ultimately show ?thesis
      using Suc suffix_order.trans
      by (intro exI [of _ s'] exI [of _ u]) (auto simp: Suc)
  qed
qed simp_all

lemma GoToElement_text:
  assumes "json_text (JArr js) s" "i < length js"
  shows "\<exists>s' u. GoToElement (s @ rest) i = (LE_OK, Some (s' @ u)) \<and> json_text (js ! i) s'
    \<and> ends_value u \<and> suffix (s' @ u) (s @ rest)"
proof -
  obtain w t where s: "s = CHR ''['' # w @ t" "ws w" "json_elems js t"
    using assms by (auto elim: json_text_arrE)
  have "value_head (t @ rest)" using s skip_texts(2) value_head_append by blast
  then have "GoToElement (s @ rest) i = GoToElementLoop (t @ rest) i"
    using s skip_ws_value [of w "t @ rest"] by (simp add: GoToElement_def)
  moreover have "suffix (t @ rest) (s @ rest)" using s by (simp add: suffix_def)
  ultimately show ?thesis
    using GoToElementLoop_text(2) [OF s(3) assms(2), of rest] suffix_order.trans by metis
qed

text \<open>The comparison of a member's name in the text with a given name is equality.\<close>

lemma raw_ok_quote:
  "raw_ok n \<Longrightarrow> i < length n \<Longrightarrow> n ! i = CHR 0x22 \<Longrightarrow> 0 < i \<and> n ! (i - 1) = CHR 0x5C"
proof (induction n arbitrary: i rule: raw_ok.induct)
  case (2 c s)
  show ?case
  proof (cases i)
    case 0
    then show ?thesis using 2 by simp
  next
    case (Suc k)
    show ?thesis
    proof (cases "c = CHR 0x5C \<and> s \<noteq> [] \<and> hd s = CHR 0x22")
      case False
      then have "raw_ok s" using 2(4) by (auto split: if_splits)
      then have "0 < k \<and> s ! (k - 1) = CHR 0x5C"
        using 2 False Suc by (cases "c = CHR 0x5C") auto
      then show ?thesis using Suc by simp
    next
      case True
      then show ?thesis
      proof (cases k)
        case 0
        then show ?thesis using Suc True by simp
      next
        case (Suc m)
        then have "0 < m \<and> tl s ! (m - 1) = CHR 0x5C"
          using 2(1) [of m] 2(4-6) True \<open>i = Suc k\<close> by (cases s) auto
        then show ?thesis using Suc \<open>i = Suc k\<close> True by (cases s) (auto simp: nth_Cons split: nat.splits)
      qed
    qed
  qed
qed simp

lemma name_match:
  assumes "raw_ok n" "m \<noteq> []" "\<forall>c \<in> set m. isalnum c"
  shows "strncmp_eq (n @ CHR 0x22 # r) m (length m) \<and> char_at (drop (length m) (n @ CHR 0x22 # r)) = Some (CHR 0x22)
    \<longleftrightarrow> n = m"
proof
  assume h: "strncmp_eq (n @ CHR 0x22 # r) m (length m) \<and> char_at (drop (length m) (n @ CHR 0x22 # r)) = Some (CHR 0x22)"
  have q: "CHR 0x22 \<notin> set m" "CHR 0x5C \<notin> set m" using assms(3) by (auto simp: char_classes)
  have tk: "take (length m) (n @ CHR 0x22 # r) = m" using h by (simp add: strncmp_eq_def)
  have le: "length m \<le> length n"
  proof (rule ccontr)
    assume "\<not> length m \<le> length n"
    then obtain k where "length m - length n = Suc k" by (cases "length m - length n") auto
    then have "m = n @ CHR 0x22 # take k r" using tk by simp
    then show False using q(1) by auto
  qed
  then have m: "m = take (length m) n" using tk by simp
  have "length m = length n"
  proof (rule ccontr)
    assume "length m \<noteq> length n"
    then have lt: "length m < length n" using le by simp
    then have "n ! length m = CHR 0x22" using h by (auto simp: drop_append drop_eq_Nil Cons_nth_drop_Suc [symmetric])
    then have "n ! (length m - 1) = CHR 0x5C" using raw_ok_quote [OF assms(1) lt] by simp
    moreover have "n ! (length m - 1) = m ! (length m - 1)"
      using assms(2) by (subst m) simp
    ultimately show False using q(2) assms(2) by (metis diff_less length_greater_0_conv nth_mem zero_less_one)
  qed
  then show "n = m" using m by simp
qed (simp add: strncmp_eq_def)

lemma GoToMemberLoop_text:
  "json_text j0 s0 \<Longrightarrow> True"
  "json_elems js0 t0 \<Longrightarrow> True"
  "json_members ms t \<Longrightarrow> map_of ms m = Some j \<Longrightarrow> m \<noteq> [] \<Longrightarrow> \<forall>c \<in> set m. isalnum c \<Longrightarrow>
     \<exists>s u. GoToMemberLoop (t @ rest) m = (LE_OK, Some (s @ u)) \<and> json_text j s
       \<and> ends_value u \<and> suffix (s @ u) (t @ rest)"
proof (induction rule: json_text_json_elems_json_members.inducts)
  case (members_last n w w' j' s w'')
  let ?r = "w'' @ CHR ''}'' # rest"
  have e: "ends_value ?r" "n = m" "j' = j"
    using members_last by (auto simp: ends_value_ws split: if_splits)
  have "value_head (s @ ?r)" using members_last json_text_head value_head_append by blast
  then have "GoToMemberLoop (CHR 0x22 # n @ CHR 0x22 # w @ CHR '':'' # w' @ s @ ?r) m = (LE_OK, Some (s @ ?r))"
    using e(2) members_last
    by (subst GoToMemberLoop.simps) (simp add: name_match skip_ws_char skip_ws_value strncmp_eq_def)
  then show ?case
    using e members_last by (intro exI [of _ s] exI [of _ ?r]) (simp add: suffix_def)
next
  case (members_more n w w' j' s w'' w3 ms t)
  let ?r = "w'' @ CHR '','' # w3 @ t @ rest"
  let ?v = "CHR 0x22 # n @ CHR 0x22 # w @ CHR '':'' # w' @ s @ ?r"
  have e: "ends_value ?r" using members_more by (simp add: ends_value_ws)
  have h: "value_head (s @ ?r)" "value_head (t @ rest)"
    using members_more json_text_head skip_texts(3) value_head_append by blast+
  show ?case
  proof (cases "n = m")
    case True
    then have "GoToMemberLoop ?v m = (LE_OK, Some (s @ ?r))"
      using members_more h(1)
      by (subst GoToMemberLoop.simps) (simp add: skip_ws_char skip_ws_value strncmp_eq_def)
    then show ?thesis
      using True e members_more by (intro exI [of _ s] exI [of _ ?r]) (simp add: suffix_def)
  next
    case False
    have "SkipMember ?v = Some ?r"
      using members_more SkipMember_text h(1) SkipValue_text [OF _ e] by blast
    then have "GoToMemberLoop ?v m = GoToMemberLoop (t @ rest) m"
      using name_match [OF members_more(1) members_more.prems(2,3), of "w @ CHR '':'' # w' @ s @ ?r"] False members_more h(2)
      by (subst GoToMemberLoop.simps) (auto simp: SkipWhitespace_def skip_ws_char skip_ws_value)
    moreover obtain s' u where "GoToMemberLoop (t @ rest) m = (LE_OK, Some (s' @ u))"
      "json_text j s'" "ends_value u" "suffix (s' @ u) (t @ rest)"
      using members_more False by auto
    moreover have "suffix (t @ rest) ?v" by (simp add: suffix_def)
    ultimately show ?thesis
      using suffix_order.trans by (intro exI [of _ s'] exI [of _ u]) auto
  qed
qed simp_all

lemma GoToMember_text:
  assumes "json_text (JObj ms) s" "map_of ms m = Some j" "m \<noteq> []" "\<forall>c \<in> set m. isalnum c"
  shows "\<exists>s' u. GoToMember (s @ rest) m = (LE_OK, Some (s' @ u)) \<and> json_text j s'
    \<and> ends_value u \<and> suffix (s' @ u) (s @ rest)"
proof -
  obtain w t where s: "s = CHR ''{'' # w @ t" "ws w" "json_members ms t"
    using assms by (auto elim: json_text_objE)
  have "value_head (t @ rest)" using s skip_texts(3) value_head_append by blast
  then have "GoToMember (s @ rest) m = GoToMemberLoop (t @ rest) m"
    using s skip_ws_value [of w "t @ rest"] by (simp add: GoToMember_def)
  moreover have "suffix (t @ rest) (s @ rest)" using s by (simp add: suffix_def)
  ultimately show ?thesis
    using GoToMemberLoop_text(3) [OF s(3) assms(2-4), of rest] suffix_order.trans by metis
qed

subsection \<open>Specifications\<close>

lemma spec_text_stop: "spec_text p = [] \<or> \<not> isalnum (hd (spec_text p))"
  by (cases p rule: spec_text.cases) (simp_all add: char_classes)

lemma GetMemberName_text:
  assumes "\<forall>c \<in> set m. isalnum c" "length m < n" "r = [] \<or> \<not> isalnum (hd r)"
  shows "GetMemberName (m @ r) n = Some (m, r)"
proof -
  have "takeWhile isalnum (m @ r) = m" using assms(1,3) by (intro takeWhile_append_stop) auto
  then show ?thesis using assms(2) by (simp add: GetMemberName_def)
qed

lemma Find_member:
  assumes "v \<noteq> []" "step_ok (Member m)" "r = [] \<or> \<not> isalnum (hd r)"
    "GoToMember v m = (LE_OK, Some p)"
  shows "Find v (CHR ''.'' # m @ r) = Find p r" "Find v (m @ r) = Find p r"
proof -
  obtain c m' where m: "m = c # m'" "isalpha c" using assms(2) by (cases m) auto
  have g: "GetMemberName (m @ r) member_name_size = Some (m, r)"
    using assms(2,3) GetMemberName_text by simp
  have "c \<noteq> CHR ''['' \<and> c \<noteq> CHR ''.''" using m(2) by (auto simp: char_classes)
  then show "Find v (m @ r) = Find p r"
    using m assms(1,4) g by (subst Find.simps) simp
  show "Find v (CHR ''.'' # m @ r) = Find p r"
    using m assms(1,4) g by (subst Find.simps) simp
qed

lemma Find_index:
  assumes "v \<noteq> []" "step_ok (Index i)" "GoToElement v i = (LE_OK, Some p)"
  shows "Find v (CHR ''['' # nat_digits (int i) @ CHR '']'' # r) = Find p r"
proof -
  have st: "strtoul (nat_digits (int i) @ CHR '']'' # r) = (word_of_int (int i), CHR '']'' # r)"
    using assms(2) by (intro strtoul_nat_digits) (simp_all add: char_classes)
  have "unat (word_of_int (int i) :: 32 word) = i"
    using assms(2) by (simp add: unsigned_of_nat take_bit_nat_eq_self)
  moreover have "\<not> sint (word_of_int (int i) :: 32 word) < 0"
    using assms(2) by (simp add: signed_of_nat signed_take_bit_int_eq_self)
  moreover have "CHR '']'' # r \<noteq> nat_digits (int i) @ CHR '']'' # r"
    using nat_digits_props [of "int i"] by simp
  ultimately show ?thesis
    using assms(1,3) st by (subst Find.simps) simp
qed

lemma Find_text:
  assumes "json_text j s" "ends_value rest" "path_ok p" "jlookup j p = Some j'"
  shows "\<exists>s' u. Find (s @ rest) (spec_text p) = (LE_OK, Some (s' @ u)) \<and> json_text j' s'
    \<and> ends_value u \<and> suffix (s' @ u) (s @ rest)"
  using assms
proof (induction j p arbitrary: s rest rule: jlookup.induct)
  case (1 j)
  then have "s \<noteq> []" by (simp add: value_text_pos)
  then have "Find (s @ rest) [] = (LE_OK, Some (s @ rest))" by (subst Find.simps) simp
  then show ?case using 1 by (intro exI [of _ s] exI [of _ rest]) simp
next
  case (2 js i p)
  then have i: "i < length js" "jlookup (js ! i) p = Some j'" "step_ok (Index i)" "path_ok p"
    by (auto simp: path_ok_def split: if_splits)
  obtain s1 u where 1: "GoToElement (s @ rest) i = (LE_OK, Some (s1 @ u))" "json_text (js ! i) s1"
    "ends_value u" "suffix (s1 @ u) (s @ rest)"
    using GoToElement_text [OF 2(2) i(1), of rest] by blast
  have "s @ rest \<noteq> []" using value_text_pos [OF 2(2)] by simp
  then have "Find (s @ rest) (spec_text (Index i # p)) = Find (s1 @ u) (spec_text p)"
    using Find_index [OF _ i(3) 1(1)] by simp
  then show ?case using 2(1) [OF i(1) 1(2,3) i(4,2)] 1(4) suffix_order.trans by metis
next
  case (3 ms m p)
  then obtain j1 where j1: "map_of ms m = Some j1" "jlookup j1 p = Some j'" "step_ok (Member m)" "path_ok p"
    by (auto simp: path_ok_def split: option.splits)
  obtain s1 u where 1: "GoToMember (s @ rest) m = (LE_OK, Some (s1 @ u))" "json_text j1 s1"
    "ends_value u" "suffix (s1 @ u) (s @ rest)"
    using GoToMember_text [OF 3(2) j1(1), of rest] j1(3) by auto
  have "s @ rest \<noteq> []" using value_text_pos [OF 3(2)] by simp
  then have "Find (s @ rest) (spec_text (Member m # p)) = Find (s1 @ u) (spec_text p)"
    using Find_member(1) [OF _ j1(3) spec_text_stop 1(1)] by simp
  then show ?case using 3(1) [OF j1(1) 1(2,3) j1(4,2)] 1(4) suffix_order.trans by metis
qed auto

lemma Find_short_text:
  assumes "path_ok p" "jlookup j p = Some j'" "v \<noteq> []"
    "Find v (spec_text p) = (LE_OK, r)"
  shows "Find v (short_spec_text p) = (LE_OK, r)"
proof (cases p rule: spec_text.cases)
  case (3 m q)
  then have "step_ok (Member m)" using assms(1) by (simp add: path_ok_def)
  then obtain c m' where m: "m = c # m'" "isalpha c" by (cases m) auto
  have "c \<noteq> CHR ''['' \<and> c \<noteq> CHR ''.''" using m(2) by (auto simp: char_classes)
  then have "Find v (m @ spec_text q) = Find v (CHR ''.'' # m @ spec_text q)"
    using m assms(3) by (subst (1 2) Find.simps) simp
  then show ?thesis using 3 assms(4) by (simp add: short_spec_text_def)
qed (use assms in \<open>simp_all add: short_spec_text_def\<close>)

subsection \<open>Extraction\<close>

fun json_type :: "json \<Rightarrow> json_DataType_t" where
  "json_type JNull = JSON_TYPE_NULL"
| "json_type (JBool _) = JSON_TYPE_BOOLEAN"
| "json_type (JNum _) = JSON_TYPE_NUMBER"
| "json_type (JStr _) = JSON_TYPE_STRING"
| "json_type (JArr _) = JSON_TYPE_ARRAY"
| "json_type (JObj _) = JSON_TYPE_OBJECT"

text \<open>What an extraction leaves in the buffer: a string without its quotes, the text of anything else.\<close>

fun extracted :: "json \<Rightarrow> string \<Rightarrow> string" where
  "extracted (JStr s) _ = s"
| "extracted _ t = t"

lemma json_Extract_found:
  assumes "utf8_copy_ok L" "Find v spec = (LE_OK, Some (s @ u))" "json_text j s" "ends_value u"
    "length (extracted j s) < n"
  shows "json_Extract L n v spec True = Some (LE_OK, Some (extracted j s), Some (json_type j))"
proof -
  have sk: "SkipValue (s @ u) = Some u" using assms(3,4) by (rule SkipValue_text)
  show ?thesis
    using assms(3)
  proof (cases rule: json_text.cases)
    case (text_num)
    then obtain c t where c: "s = c # t" "c = CHR ''-'' \<or> isdigit c"
      using number_token_head by blast
    have ne: "c \<noteq> CHR ''{'' \<and> c \<noteq> CHR ''['' \<and> c \<noteq> CHR 0x22 \<and> c \<noteq> CHR ''t'' \<and> c \<noteq> CHR ''f'' \<and> c \<noteq> CHR ''n''"
      using c(2) by (auto simp: char_classes)
    have sn: "SkipNumber (s @ u) = Some u" using text_num assms(4) SkipNumber_token by simp
    show ?thesis
      using assms(2,5) text_num sn ne
      by (simp add: json_Extract_def Let_def c(1) extract_part_def)
  next
    case (text_str r)
    then show ?thesis
      using assms(2,5) SkipString_raw [of r u]
      by (simp add: json_Extract_def Let_def extract_part_def)
  next
    case (text_arr0 w)
    then show ?thesis
      using assms(2,5) sk by (simp add: json_Extract_def Let_def extract_part_def SkipValue.simps)
  next
    case (text_arr w js t)
    then show ?thesis
      using assms(2,5) sk by (simp add: json_Extract_def Let_def extract_part_def SkipValue.simps)
  next
    case (text_obj0 w)
    then show ?thesis
      using assms(2,5) sk by (simp add: json_Extract_def Let_def extract_part_def SkipValue.simps)
  next
    case (text_obj w ms t)
    then show ?thesis
      using assms(2,5) sk by (simp add: json_Extract_def Let_def extract_part_def SkipValue.simps)
  qed (use assms(1,2,5) in \<open>simp_all add: json_Extract_def Let_def extract_literal_def strncmp_eq_def\<close>)
qed

text \<open>
  C7: extraction implements the walk down the tree. In a text of a document (followed by anything
  that may follow a value), a specification that names a part of the document yields \<open>LE_OK\<close>, the
  part's text (a string's contents) and the part's type, if the buffer has room for it.
\<close>

theorem json_Extract_lookup:
  assumes "utf8_copy_ok L" "json_text j s" "ends_value rest" "path_ok p" "jlookup j p = Some j'"
  shows "\<exists>s' u. json_text j' s' \<and> suffix (s' @ u) (s @ rest) \<and>
    (length (extracted j' s') < n \<longrightarrow>
       json_Extract L n (s @ rest) (spec_text p) True
         = Some (LE_OK, Some (extracted j' s'), Some (json_type j')) \<and>
       json_Extract L n (s @ rest) (short_spec_text p) True
         = Some (LE_OK, Some (extracted j' s'), Some (json_type j')))"
proof -
  obtain s' u where f: "Find (s @ rest) (spec_text p) = (LE_OK, Some (s' @ u))" "json_text j' s'"
    "ends_value u" "suffix (s' @ u) (s @ rest)"
    using Find_text [OF assms(2-5)] by blast
  have "s @ rest \<noteq> []" using value_text_pos [OF assms(2)] by simp
  then have "Find (s @ rest) (short_spec_text p) = (LE_OK, Some (s' @ u))"
    using Find_short_text [OF assms(4,5) _ f(1)] by simp
  then show ?thesis
    using f json_Extract_found [OF assms(1) _ f(2,3)] by blast
qed

text \<open>A small document: an object with an array of numbers.\<close>

definition sample_text :: string where
  "sample_text = CHR ''{'' # [] @ (CHR 0x22 # ''ab'' @ [CHR 0x22] @ '' '' @ '':'' @ [] @
     (CHR ''['' # [] @ (''1'' @ [] @ '','' @ '' '' @ (''25'' @ [] @ '']''))) @ [] @ ''}'')"

definition sample_doc :: json where
  "sample_doc = JObj [(''ab'', JArr [JNum ''1'', JNum ''25''])]"

lemma sample_doc_text: "json_text sample_doc sample_text"
proof -
  have "number_token ''1''" "number_token ''25''"
    unfolding number_token_def
    by (rule exI [of _ False], rule exI [of _ "''1''"], rule exI [of _ "[]"], rule exI [of _ None],
        simp add: number_text_def exponent_text_def exponent_ok_def digits_def char_classes)
      (rule exI [of _ False], rule exI [of _ "''25''"], rule exI [of _ "[]"], rule exI [of _ None],
        simp add: number_text_def exponent_text_def exponent_ok_def digits_def char_classes)
  then show ?thesis
    unfolding sample_doc_def sample_text_def
    by (intro json_text_json_elems_json_members.intros) (simp_all add: ws_def char_classes)
qed

lemma json_Extract_lookup_witness:
  "json_Extract sample_legato 10 sample_text ''ab[1]'' True = Some (LE_OK, Some ''25'', Some JSON_TYPE_NUMBER)"
proof -
  have p: "path_ok [Member ''ab'', Index 1]"
    by (simp add: path_ok_def member_name_size_def char_classes)
  have l: "jlookup sample_doc [Member ''ab'', Index 1] = Some (JNum ''25'')"
    by (simp add: sample_doc_def)
  have e: "ends_value []" by (simp add: ends_value_def)
  have sp: "short_spec_text [Member ''ab'', Index 1] = ''ab[1]''"
    by code_simp
  show ?thesis
    using json_Extract_lookup [OF sample_legato_ok sample_doc_text e p l, of 10] sp
    by (auto elim!: json_text_numE)
qed

text \<open>JSON string contents, by the grammar of JSON: quotes are escaped, and a backslash takes the next character along.\<close>

function escaped :: "string \<Rightarrow> bool" where
  "escaped [] = True"
| "escaped (c # s) =
     (c \<noteq> CHR 0x22 \<and> (if c = CHR 0x5C then s \<noteq> [] \<and> escaped (tl s) else escaped s))"
  by pat_completeness auto
termination escaped by (relation "measure length") auto

lemma raw_ok_escaped: "escaped s \<Longrightarrow> raw_ok s \<longleftrightarrow> s = [] \<or> last s \<noteq> CHR 0x5C"
proof (induction s rule: escaped.induct)
  case (2 c s)
  show ?case
  proof (cases "c = CHR 0x5C")
    case True
    then obtain e r where s: "s = e # r" "escaped r" using 2(3) by (cases s) auto
    have "r \<noteq> [] \<Longrightarrow> hd r \<noteq> CHR 0x22" using s(2) by (cases r) auto
    then show ?thesis using 2 True s by auto
  next
    case False
    then show ?thesis using 2 by auto
  qed
qed simp

text \<open>
  C26: every text of a document of the grammar \<open>json_text\<close>, with white space around it, is accepted as valid.
  The grammar is that of JSON, but for the strings and member names, which have to be \<open>raw_ok\<close>: of the
  contents JSON allows these are the ones that do not end with a backslash (\<open>raw_ok_escaped\<close>). A string
  that ends with an escaped backslash is not accepted (\<open>json_IsValid_divergence\<close>).
\<close>

theorem json_IsValid_text:
  assumes "json_text j s" "ws w" "ws w'"
  shows "json_IsValid (w @ s @ w')"
proof -
  have "ends_value w'" using assms(3) by (cases w') (auto simp: ws_def ends_value_def)
  moreover have "value_head (s @ w')" using json_text_head [OF assms(1)] by (rule value_head_append)
  moreover have "dropWhile isspace w' = []" using assms(3) by (simp add: ws_def)
  ultimately show ?thesis
    using SkipValue_text [OF assms(1), of w'] skip_ws_value [OF assms(2), of "s @ w'"]
    by (simp add: json_IsValid_def SkipWhitespace_def)
qed

lemma json_IsValid_text_witness: "json_IsValid ('' '' @ sample_text @ '' '')"
  by (rule json_IsValid_text [OF sample_doc_text]) (simp_all add: ws_def char_classes)

lemma GoToElementLoop_absent:
  "json_text j s \<Longrightarrow> True"
  "json_elems js t \<Longrightarrow> length js \<le> i \<Longrightarrow> GoToElementLoop (t @ rest) i = (LE_FORMAT_ERROR, None)"
  "json_members ms t' \<Longrightarrow> True"
proof (induction arbitrary: and i and rule: json_text_json_elems_json_members.inducts)
  case (elems_last j s w)
  then obtain k where i: "i = Suc k" by (cases i) auto
  have e: "ends_value (w @ CHR '']'' # rest)" using elems_last by (simp add: ends_value_ws)
  have "value_head (s @ w @ CHR '']'' # rest)"
    using elems_last json_text_head value_head_append by blast
  then show ?case
    using i value_head_ends SkipValue_text [OF elems_last(1) e] elems_last
    by (simp add: SkipWhitespace_def skip_ws_char)
next
  case (elems_more j s w w' js t)
  then obtain k where i: "i = Suc k" "length js \<le> k" by (cases i) auto
  let ?r = "w @ CHR '','' # w' @ t @ rest"
  have e: "ends_value ?r" using elems_more by (simp add: ends_value_ws)
  have h: "value_head (s @ ?r)" "value_head (t @ rest)"
    using elems_more json_text_head skip_texts(2) value_head_append by blast+
  show ?case
    using i value_head_ends [OF h(1)] SkipValue_text [OF elems_more(1) e] elems_more
      skip_ws_value [OF elems_more(3) h(2)]
    by (simp add: SkipWhitespace_def skip_ws_char)
qed simp_all

text \<open>
  An index past the end of a non-empty array is reported as a malformed document, not as a
  missing element.
\<close>

theorem GoToElement_absent:
  assumes "json_text (JArr js) s" "js \<noteq> []" "length js \<le> i"
  shows "GoToElement (s @ rest) i = (LE_FORMAT_ERROR, None)"
proof -
  obtain w t where s: "s = CHR ''['' # w @ t" "ws w" "json_elems js t"
    using assms by (auto elim: json_text_arrE)
  have "value_head (t @ rest)" using s skip_texts(2) value_head_append by blast
  then show ?thesis
    using s skip_ws_value [of w "t @ rest"] GoToElementLoop_absent(2) [OF s(3) assms(3)]
    by (simp add: GoToElement_def)
qed

lemma GoToElement_absent_witness: "GoToElement ''[null] '' 1 = (LE_FORMAT_ERROR, None)"
proof -
  have "json_text (JArr [JNull]) (CHR ''['' # [] @ (''null'' @ [] @ '']''))"
    by (intro json_text_json_elems_json_members.intros) (simp_all add: ws_def)
  from GoToElement_absent [OF this, of 1 "'' ''"] show ?thesis by simp
qed

lemma GoToMemberLoop_absent:
  "json_text j0 s0 \<Longrightarrow> True"
  "json_elems js0 t0 \<Longrightarrow> True"
  "json_members ms t \<Longrightarrow> map_of ms m = None \<Longrightarrow> m \<noteq> [] \<Longrightarrow> \<forall>c \<in> set m. isalnum c \<Longrightarrow>
     GoToMemberLoop (t @ rest) m = (LE_FORMAT_ERROR, None)"
proof (induction rule: json_text_json_elems_json_members.inducts)
  case (members_last n w w' j' s w'')
  let ?r = "w'' @ CHR ''}'' # rest"
  let ?q = "w @ CHR '':'' # w' @ s @ ?r"
  have e: "ends_value ?r" "n \<noteq> m" using members_last by (auto simp: ends_value_ws split: if_splits)
  have h: "value_head (s @ ?r)" using members_last json_text_head value_head_append by blast
  have "SkipMember (CHR 0x22 # n @ CHR 0x22 # ?q) = Some ?r"
    using members_last SkipMember_text h SkipValue_text [OF _ e(1)] by blast
  then show ?case
    using name_match [OF members_last(1) members_last.prems(2,3), of ?q] e(2) members_last
    by (subst GoToMemberLoop.simps) (auto simp: SkipWhitespace_def skip_ws_char)
next
  case (members_more n w w' j' s w'' w3 ms t)
  let ?r = "w'' @ CHR '','' # w3 @ t @ rest"
  let ?q = "w @ CHR '':'' # w' @ s @ ?r"
  have e: "ends_value ?r" "n \<noteq> m" "map_of ms m = None"
    using members_more by (auto simp: ends_value_ws split: if_splits)
  have h: "value_head (s @ ?r)" "value_head (t @ rest)"
    using members_more json_text_head skip_texts(3) value_head_append by blast+
  have "SkipMember (CHR 0x22 # n @ CHR 0x22 # ?q) = Some ?r"
    using members_more SkipMember_text h(1) SkipValue_text [OF _ e(1)] by blast
  then have "GoToMemberLoop (CHR 0x22 # n @ CHR 0x22 # ?q) m = GoToMemberLoop (t @ rest) m"
    using name_match [OF members_more(1) members_more.prems(2,3), of ?q] e(2) members_more h(2)
    by (subst GoToMemberLoop.simps) (auto simp: SkipWhitespace_def skip_ws_char skip_ws_value)
  then show ?case using members_more e(3) by simp
qed simp_all

text \<open>
  A member that a non-empty object does not have is reported as a malformed document, not as a
  missing member.
\<close>

theorem GoToMember_absent:
  assumes "json_text (JObj ms) s" "ms \<noteq> []" "map_of ms m = None" "m \<noteq> []"
    "\<forall>c \<in> set m. isalnum c"
  shows "GoToMember (s @ rest) m = (LE_FORMAT_ERROR, None)"
proof -
  obtain w t where s: "s = CHR ''{'' # w @ t" "ws w" "json_members ms t"
    using assms by (auto elim: json_text_objE)
  have "value_head (t @ rest)" using s skip_texts(3) value_head_append by blast
  then show ?thesis
    using s skip_ws_value [of w "t @ rest"] GoToMemberLoop_absent(3) [OF s(3) assms(3-5)]
    by (simp add: GoToMember_def)
qed

lemma GoToMember_absent_witness: "GoToMember sample_text ''x'' = (LE_FORMAT_ERROR, None)"
  using GoToMember_absent [OF sample_doc_text [unfolded sample_doc_def], of "''x''" "[]"]
  by (simp add: char_classes)

text \<open>
  The scanner does not know an escaped backslash: a valid document whose string ends with one is
  rejected, and elements that are not separated by a comma are accepted.
\<close>

theorem json_IsValid_divergence:
  "\<not> json_IsValid [CHR 0x22, CHR 0x5C, CHR 0x5C, CHR 0x22] \<and> json_IsValid ''[1 2]''"
  by code_simp

text \<open>
  C27: scanning makes progress: what is left after a value, a member, an object or an array is a
  proper suffix of the text, so that every loop over values ends and no pointer leaves the text.
\<close>

theorem skip_progress:
  "SkipValue s = Some r \<or> SkipMember s = Some r \<or> SkipObject s = Some r \<or> SkipArray s = Some r
     \<or> SkipString s = Some r \<or> SkipNumber s = Some r \<Longrightarrow> suffix r s \<and> length r < length s"
  using skip_value.proper skip_member.proper skip_object.proper skip_array.proper
    skip_string.proper skip_number.proper strict_suffix_length
    suffix_order.less_imp_le by metis

lemma skip_progress_witness: "suffix '' ]'' ''[1,[2]] ]'' \<and> length '' ]'' < length ''[1,[2]] ]''"
proof -
  have "SkipArray ''[1,[2]] ]'' = Some '' ]''" by code_simp
  then show ?thesis using skip_progress [of "''[1,[2]] ]''" "'' ]''"] by blast
qed

end
