(* ===== verification/DataSample.thy ===== *)
theory DataSample
  imports JsonSpec
begin

text \<open>
  Data samples, \<open>src/apps/DataHub/components/dataHub/dataSample.c\<close>: a timestamp and a value whose type
  the sample itself does not record. The union is a datatype; reading a member that was not written
  is \<open>None\<close>. Samples are immutable and shared by reference counting in C; here they are values.
  Operations that read the clock take and return the number of readings taken so far.
\<close>

datatype io_DataType_t =
    IO_DATA_TYPE_TRIGGER | IO_DATA_TYPE_BOOLEAN | IO_DATA_TYPE_NUMERIC | IO_DATA_TYPE_STRING
  | IO_DATA_TYPE_JSON

datatype sample_value = VTrigger | VBool bool | VNum double | VStr string

record DataSample_t =
  timestamp :: double
  sample_val :: sample_value

type_synonym dataSample_Ref_t = DataSample_t

definition IO_NOW :: double where
  "IO_NOW = dbl_of_int 0"

definition SMALL_STRING_BYTES :: nat where
  "SMALL_STRING_BYTES = 300"

definition HUB_MAX_STRING_BYTES :: nat where
  "HUB_MAX_STRING_BYTES = 50001"

subsection \<open>Creation\<close>

definition IsSmallString :: "string \<Rightarrow> bool" where
  "IsSmallString s = (length s < SMALL_STRING_BYTES)"

definition CreateSample ::
  "legato \<Rightarrow> double \<Rightarrow> sample_value \<Rightarrow> nat \<Rightarrow> dataSample_Ref_t \<times> nat" where
  "CreateSample L ts v clk =
     (if dbl_eq ts IO_NOW then
        let (sec, usec) = clk_absolute L clk;
            ts' = dbl_add (dbl_div (dbl_of_int usec) (dbl_of_int 1000000)) (dbl_of_int sec)
        in (\<lparr> timestamp = ts', sample_val = v \<rparr>, clk + 1)
      else (\<lparr> timestamp = ts, sample_val = v \<rparr>, clk))"

definition dataSample_CreateTrigger ::
  "legato \<Rightarrow> double \<Rightarrow> nat \<Rightarrow> dataSample_Ref_t \<times> nat" where
  "dataSample_CreateTrigger L ts clk = CreateSample L ts VTrigger clk"

definition dataSample_CreateBoolean ::
  "legato \<Rightarrow> double \<Rightarrow> bool \<Rightarrow> nat \<Rightarrow> dataSample_Ref_t \<times> nat" where
  "dataSample_CreateBoolean L ts b clk = CreateSample L ts (VBool b) clk"

definition dataSample_CreateNumeric ::
  "legato \<Rightarrow> double \<Rightarrow> double \<Rightarrow> nat \<Rightarrow> dataSample_Ref_t \<times> nat" where
  "dataSample_CreateNumeric L ts d clk = CreateSample L ts (VNum d) clk"

text \<open>A value that does not fit the largest block stops the daemon.\<close>

definition dataSample_CreateString ::
  "legato \<Rightarrow> double \<Rightarrow> string \<Rightarrow> nat \<Rightarrow> (dataSample_Ref_t \<times> nat) option" where
  "dataSample_CreateString L ts s clk =
     (let maxSize = (if IsSmallString s then SMALL_STRING_BYTES else HUB_MAX_STRING_BYTES);
          (r, copied) = utf8_Copy L s maxSize;
          (sample, clk') = CreateSample L ts (VStr copied) clk
      in if r = LE_OK then Some (sample, clk') else None)"

definition dataSample_CreateJson ::
  "legato \<Rightarrow> double \<Rightarrow> string \<Rightarrow> nat \<Rightarrow> (dataSample_Ref_t \<times> nat) option" where
  "dataSample_CreateJson L ts s clk = dataSample_CreateString L ts s clk"

subsection \<open>Reading\<close>

definition dataSample_GetTimestamp :: "dataSample_Ref_t \<Rightarrow> double" where
  "dataSample_GetTimestamp s = timestamp s"

definition dataSample_GetBoolean :: "dataSample_Ref_t \<Rightarrow> bool option" where
  "dataSample_GetBoolean s = (case sample_val s of VBool b \<Rightarrow> Some b | _ \<Rightarrow> None)"

definition dataSample_GetNumeric :: "dataSample_Ref_t \<Rightarrow> double option" where
  "dataSample_GetNumeric s = (case sample_val s of VNum d \<Rightarrow> Some d | _ \<Rightarrow> None)"

definition dataSample_GetString :: "dataSample_Ref_t \<Rightarrow> string option" where
  "dataSample_GetString s = (case sample_val s of VStr t \<Rightarrow> Some t | _ \<Rightarrow> None)"

definition dataSample_GetJson :: "dataSample_Ref_t \<Rightarrow> string option" where
  "dataSample_GetJson s = (case sample_val s of VStr t \<Rightarrow> Some t | _ \<Rightarrow> None)"

definition dataSample_SetTimestamp :: "dataSample_Ref_t \<Rightarrow> double \<Rightarrow> dataSample_Ref_t" where
  "dataSample_SetTimestamp s ts = s\<lparr>timestamp := ts\<rparr>"

text \<open>
  A copy takes the bytes of the block that the type says the sample is in. Copying a string as if
  it were a number, or the other way round, is not a copy.
\<close>

definition dataSample_Copy ::
  "io_DataType_t \<Rightarrow> dataSample_Ref_t \<Rightarrow> dataSample_Ref_t option" where
  "dataSample_Copy t s =
     (if t = IO_DATA_TYPE_STRING \<or> t = IO_DATA_TYPE_JSON
      then (case sample_val s of VStr _ \<Rightarrow> Some s | _ \<Rightarrow> None)
      else (case sample_val s of VStr _ \<Rightarrow> None | _ \<Rightarrow> Some s))"

subsection \<open>Conversion to text\<close>

text \<open>\<open>snprintf\<close> of a text into a buffer of \<open>n\<close> bytes: what the buffer holds afterwards.\<close>

definition snprintf_text :: "nat \<Rightarrow> string \<Rightarrow> string" where
  "snprintf_text n s = (if n = 0 then [] else take (n - 1) s)"

definition print_result :: "nat \<Rightarrow> string \<Rightarrow> le_result_t \<times> string" where
  "print_result n s = (if length s \<ge> n then LE_OVERFLOW else LE_OK, snprintf_text n s)"

definition dataSample_ConvertToJson ::
  "legato \<Rightarrow> dataSample_Ref_t \<Rightarrow> io_DataType_t \<Rightarrow> nat \<Rightarrow> (le_result_t \<times> string) option" where
  "dataSample_ConvertToJson L s t valueBuffSize =
     (case t of
        IO_DATA_TYPE_TRIGGER \<Rightarrow>
          Some (if valueBuffSize > 0 then LE_OK else LE_OVERFLOW, [])
      | IO_DATA_TYPE_BOOLEAN \<Rightarrow> do {
          b \<leftarrow> dataSample_GetBoolean s;
          Some (print_result valueBuffSize (if b then ''true'' else ''false''))
        }
      | IO_DATA_TYPE_NUMERIC \<Rightarrow> do {
          d \<leftarrow> dataSample_GetNumeric s;
          Some (print_result valueBuffSize (dbl_format d))
        }
      | IO_DATA_TYPE_STRING \<Rightarrow>
          if valueBuffSize < 3 then Some (LE_OVERFLOW, [])
          else do {
            str \<leftarrow> dataSample_GetString s;
            let (result, copied) = utf8_Copy L str (valueBuffSize - 1);
            if result \<noteq> LE_OK \<or> length copied \<ge> valueBuffSize - 2
            then Some (LE_OVERFLOW, CHR 0x22 # copied)
            else Some (LE_OK, CHR 0x22 # copied @ [CHR 0x22])
          }
      | IO_DATA_TYPE_JSON \<Rightarrow> do {
          str \<leftarrow> dataSample_GetString s;
          Some (utf8_Copy L str valueBuffSize)
        })"

definition dataSample_ConvertToString ::
  "legato \<Rightarrow> dataSample_Ref_t \<Rightarrow> io_DataType_t \<Rightarrow> nat \<Rightarrow> (le_result_t \<times> string) option" where
  "dataSample_ConvertToString L s t valueBuffSize =
     (if t = IO_DATA_TYPE_STRING then do {
        str \<leftarrow> dataSample_GetString s;
        Some (utf8_Copy L str valueBuffSize)
      }
      else dataSample_ConvertToJson L s t valueBuffSize)"

subsection \<open>Extraction\<close>

text \<open>The sample made of an extracted value, and its type.\<close>

definition sample_of_json ::
  "legato \<Rightarrow> double \<Rightarrow> json_DataType_t \<Rightarrow> string \<Rightarrow> nat \<Rightarrow>
   ((dataSample_Ref_t \<times> io_DataType_t) \<times> nat) option" where
  "sample_of_json L ts jsonType resultBuff clk =
     (case jsonType of
        JSON_TYPE_NULL \<Rightarrow>
          let (x, clk') = dataSample_CreateTrigger L ts clk
          in Some ((x, IO_DATA_TYPE_TRIGGER), clk')
      | JSON_TYPE_BOOLEAN \<Rightarrow>
          let (x, clk') = dataSample_CreateBoolean L ts (json_ConvertToBoolean resultBuff) clk
          in Some ((x, IO_DATA_TYPE_BOOLEAN), clk')
      | JSON_TYPE_NUMBER \<Rightarrow>
          let (x, clk') = dataSample_CreateNumeric L ts (json_ConvertToNumber resultBuff) clk
          in Some ((x, IO_DATA_TYPE_NUMERIC), clk')
      | JSON_TYPE_STRING \<Rightarrow> do {
          (x, clk') \<leftarrow> dataSample_CreateString L ts resultBuff clk;
          Some ((x, IO_DATA_TYPE_STRING), clk')
        }
      | _ \<Rightarrow> do {
          (x, clk') \<leftarrow> dataSample_CreateJson L ts resultBuff clk;
          Some ((x, IO_DATA_TYPE_JSON), clk')
        })"

text \<open>
  \<open>Some (None, _)\<close> is the \<open>NULL\<close> returned when the extraction fails; the data type is stored only when
  it succeeds.
\<close>

definition dataSample_ExtractJson ::
  "legato \<Rightarrow> dataSample_Ref_t \<Rightarrow> string \<Rightarrow> nat \<Rightarrow>
   ((dataSample_Ref_t \<times> io_DataType_t) option \<times> nat) option" where
  "dataSample_ExtractJson L s extractionSpec clk = do {
     str \<leftarrow> dataSample_GetJson s;
     (result, buff, ty) \<leftarrow> json_Extract L HUB_MAX_STRING_BYTES str extractionSpec True;
     if result \<noteq> LE_OK then Some (None, clk)
     else do {
       resultBuff \<leftarrow> buff;
       jsonType \<leftarrow> ty;
       (r, clk') \<leftarrow> sample_of_json L (dataSample_GetTimestamp s) jsonType resultBuff clk;
       Some (Some r, clk')
     }
   }"

subsection \<open>Typing\<close>

text \<open>A value of a type: what the union holds when the resource says the sample has that type.\<close>

definition value_of_type :: "io_DataType_t \<Rightarrow> sample_value \<Rightarrow> bool" where
  "value_of_type t v =
     (case v of
        VTrigger \<Rightarrow> t = IO_DATA_TYPE_TRIGGER
      | VBool b \<Rightarrow> t \<in> {IO_DATA_TYPE_TRIGGER, IO_DATA_TYPE_BOOLEAN}
      | VNum d \<Rightarrow> t \<in> {IO_DATA_TYPE_TRIGGER, IO_DATA_TYPE_NUMERIC}
      | VStr s \<Rightarrow> t \<in> {IO_DATA_TYPE_STRING, IO_DATA_TYPE_JSON})"

lemma value_of_type_simps [simp]:
  "value_of_type IO_DATA_TYPE_TRIGGER v = (\<forall>s. v \<noteq> VStr s)"
  "value_of_type IO_DATA_TYPE_BOOLEAN v = (\<exists>b. v = VBool b)"
  "value_of_type IO_DATA_TYPE_NUMERIC v = (\<exists>d. v = VNum d)"
  "value_of_type IO_DATA_TYPE_STRING v = (\<exists>s. v = VStr s)"
  "value_of_type IO_DATA_TYPE_JSON v = (\<exists>s. v = VStr s)"
  by (auto simp: value_of_type_def split: sample_value.splits)

definition sample_ok :: "io_DataType_t \<Rightarrow> dataSample_Ref_t \<Rightarrow> bool" where
  "sample_ok t s = value_of_type t (sample_val s)"

lemma CreateSample_val [simp]: "sample_val (fst (CreateSample L ts v clk)) = v"
  by (simp add: CreateSample_def split: prod.splits)

lemma CreateSample_timestamp:
  "\<not> dbl_eq ts IO_NOW \<Longrightarrow> CreateSample L ts v clk = (\<lparr> timestamp = ts, sample_val = v \<rparr>, clk)"
  by (simp add: CreateSample_def)

lemma CreateString_fits:
  assumes "utf8_copy_ok L" "length s < HUB_MAX_STRING_BYTES"
  shows "dataSample_CreateString L ts s clk = Some (CreateSample L ts (VStr s) clk)"
  using assms
  by (simp add: dataSample_CreateString_def IsSmallString_def SMALL_STRING_BYTES_def Let_def
      split: prod.splits)

lemma CreateString_too_long:
  assumes "utf8_copy_ok L" "HUB_MAX_STRING_BYTES \<le> length s"
  shows "dataSample_CreateString L ts s clk = None"
proof -
  obtain k where "utf8_Copy L s HUB_MAX_STRING_BYTES = (LE_OVERFLOW, take k s)"
    using utf8_copy_overflow [OF assms(1) _ assms(2)] by (auto simp: HUB_MAX_STRING_BYTES_def)
  then show ?thesis
    using assms(2) by (simp add: dataSample_CreateString_def IsSmallString_def
        SMALL_STRING_BYTES_def HUB_MAX_STRING_BYTES_def Let_def split: prod.splits)
qed

lemma CreateString_val: "dataSample_CreateString L ts s clk = Some (x, clk') \<Longrightarrow> \<exists>t. sample_val x = VStr t"
  by (auto simp: dataSample_CreateString_def CreateSample_def Let_def split: prod.splits if_splits)

lemma Copy_ok: "sample_ok t s \<Longrightarrow> dataSample_Copy t s = Some s"
  by (cases t) (auto simp: sample_ok_def dataSample_Copy_def split: sample_value.splits)

lemma SetTimestamp_ok [simp]: "sample_ok t (dataSample_SetTimestamp s ts) = sample_ok t s"
  by (simp add: sample_ok_def dataSample_SetTimestamp_def)

text \<open>
  What is read back from a new sample is what it was made of. The timestamp is the given one,
  unless that is \<open>IO_NOW\<close>; a string comes back whole when it is shorter than the largest block, and
  stops the daemon otherwise.
\<close>

theorem sample_roundtrip:
  assumes "utf8_copy_ok L" "\<not> dbl_eq ts IO_NOW"
  shows "dataSample_GetBoolean (fst (dataSample_CreateBoolean L ts b clk)) = Some b
    \<and> dataSample_GetNumeric (fst (dataSample_CreateNumeric L ts d clk)) = Some d
    \<and> dataSample_GetTimestamp (fst (dataSample_CreateNumeric L ts d clk)) = ts
    \<and> (dataSample_CreateString L ts s clk \<bind> (\<lambda>(x, _). dataSample_GetString x))
        = (if length s < HUB_MAX_STRING_BYTES then Some s else None)
    \<and> (dataSample_CreateJson L ts s clk \<bind> (\<lambda>(x, _). dataSample_GetJson x))
        = (if length s < HUB_MAX_STRING_BYTES then Some s else None)"
  using assms CreateString_fits [OF assms(1)] CreateString_too_long [OF assms(1)]
  by (simp add: dataSample_GetBoolean_def dataSample_CreateBoolean_def dataSample_GetNumeric_def
      dataSample_CreateNumeric_def dataSample_GetTimestamp_def CreateSample_timestamp
      dataSample_CreateJson_def dataSample_GetString_def dataSample_GetJson_def not_less)

lemma sample_roundtrip_witness:
  "dataSample_GetNumeric (fst (dataSample_CreateNumeric sample_legato 1 7 0)) = Some 7"
proof -
  have "\<not> dbl_eq 1 IO_NOW" by code_simp
  from sample_roundtrip [OF sample_legato_ok this] show ?thesis by blast
qed

text \<open>
  C29: an extracted sample has the type that is reported for it, and the timestamp of the sample it
  was extracted from.
\<close>

theorem ExtractJson_typed:
  assumes "dataSample_ExtractJson L s spec clk = Some (Some (x, t), clk')"
  shows "sample_ok t x \<and> (\<not> dbl_eq (timestamp s) IO_NOW \<longrightarrow> timestamp x = timestamp s \<and> clk' = clk)"
proof -
  have cs: "sample_val x = v \<and> (\<not> dbl_eq ts IO_NOW \<longrightarrow> timestamp x = ts \<and> k' = k)"
    if "CreateSample L ts v k = (x, k')" for ts v k k'
    using that CreateSample_val [of L ts v k] CreateSample_timestamp [of ts L v k] by auto
  have st: "(\<exists>t. sample_val x = VStr t) \<and> (\<not> dbl_eq ts IO_NOW \<longrightarrow> timestamp x = ts \<and> k' = k)"
    if "dataSample_CreateString L ts v k = Some (x, k')" for ts v k k'
    using that cs by (fastforce simp: dataSample_CreateString_def Let_def split: prod.splits if_splits)
  obtain ty buff where e: "sample_of_json L (timestamp s) ty buff clk = Some ((x, t), clk')"
    using assms
    by (auto simp: dataSample_ExtractJson_def bind_Some_iff dataSample_GetTimestamp_def
        split: if_splits)
  show ?thesis
    using e
    by (cases ty) (auto simp: sample_of_json_def bind_Some_iff Let_def sample_ok_def
        dataSample_CreateTrigger_def dataSample_CreateBoolean_def dataSample_CreateNumeric_def
        dataSample_CreateJson_def split: prod.splits dest!: cs st)
qed

lemma ExtractJson_typed_witness:
  "\<exists>x. dataSample_ExtractJson sample_legato \<lparr> timestamp = 1, sample_val = VStr sample_text \<rparr> ''ab[1]'' 0
     = Some (Some (x, IO_DATA_TYPE_NUMERIC), 0) \<and> sample_ok IO_DATA_TYPE_NUMERIC x"
proof -
  have f: "Find sample_text ''ab[1]'' = (LE_OK, Some (''25'' @ '']}''))" by code_simp
  have "number_token ''25''"
    unfolding number_token_def
    by (rule exI [of _ False], rule exI [of _ "''25''"], rule exI [of _ "[]"], rule exI [of _ None],
        simp add: number_text_def exponent_text_def exponent_ok_def digits_def char_classes)
  then have n: "json_text (JNum ''25'') ''25''" by (rule text_num)
  have nn: "\<not> dbl_eq 1 IO_NOW" by code_simp
  have "json_Extract sample_legato HUB_MAX_STRING_BYTES sample_text ''ab[1]'' True
      = Some (LE_OK, Some ''25'', Some JSON_TYPE_NUMBER)"
    using json_Extract_found [OF sample_legato_ok f n, of HUB_MAX_STRING_BYTES]
    by (simp add: ends_value_def HUB_MAX_STRING_BYTES_def)
  then have "dataSample_ExtractJson sample_legato \<lparr> timestamp = 1, sample_val = VStr sample_text \<rparr> ''ab[1]'' 0
     = Some (Some (\<lparr> timestamp = 1, sample_val = VNum (json_ConvertToNumber ''25'') \<rparr>, IO_DATA_TYPE_NUMERIC), 0)"
    by (simp add: dataSample_ExtractJson_def dataSample_GetJson_def dataSample_GetTimestamp_def
        sample_of_json_def dataSample_CreateNumeric_def CreateSample_timestamp [OF nn])
  from this ExtractJson_typed [OF this] show ?thesis by blast
qed

subsection \<open>Printed values are JSON\<close>

lemma div_rne_nonneg: "0 \<le> a \<Longrightarrow> 0 < b \<Longrightarrow> 0 \<le> div_rne a b"
  by (simp add: div_rne_def Let_def pos_imp_zdiv_nonneg_iff)

lemma scale_div_pos: "0 \<le> a \<Longrightarrow> 0 < b \<Longrightarrow> scale_div a b e = (n, d) \<Longrightarrow> 0 \<le> n \<and> 0 < d"
  by (auto simp: scale_div_def split: if_splits)

lemma dbl_mant_nonneg: "0 \<le> dbl_mant d"
  by (simp add: dbl_mant_def Let_def dbl_mag_def)

lemma pad6_digits: "0 \<le> n \<Longrightarrow> digits (pad6 n) \<and> pad6 n \<noteq> []"
  using nat_digits_props [of n] by (auto simp: pad6_def Let_def digits_def char_classes)

lemma dbl_format_token:
  assumes "\<not> isnan d" "\<not> isinf d"
  shows "number_token (dbl_format d)"
proof -
  obtain n m where nm: "scale_div (dbl_mant d * 1000000) 1 (- dbl_exp d) = (n, m)" by fastforce
  have "0 \<le> n \<and> 0 < m" by (rule scale_div_pos [OF _ _ nm]) (simp_all add: dbl_mant_nonneg)
  then have v: "0 \<le> div_rne n m" by (simp add: div_rne_nonneg)
  let ?ip = "nat_digits (div_rne n m div 1000000)" and ?fp = "pad6 (div_rne n m mod 1000000)"
  have ip: "digits ?ip" "?ip \<noteq> []" using nat_digits_props [of "div_rne n m div 1000000"] v by auto
  have fp: "digits ?fp" "?fp \<noteq> []" using pad6_digits [of "div_rne n m mod 1000000"] by auto
  have "dbl_format d = number_text (dbl_neg d) ?ip ?fp None"
    using assms nm fp(2) by (simp add: dbl_format_def number_text_def exponent_text_def Let_def)
  then show ?thesis
    unfolding number_token_def using ip fp
    by (intro exI [of _ "dbl_neg d"] exI [of _ ?ip] exI [of _ ?fp] exI [of _ None])
      (simp add: exponent_ok_def)
qed

text \<open>The text of a number has at most 317 characters.\<close>

lemma nat_digits_length: "n < 10 ^ Suc k \<Longrightarrow> length (nat_digits n) \<le> Suc k"
proof (induction k arbitrary: n)
  case 0
  then show ?case by (simp add: nat_digits.simps [of n])
next
  case (Suc k)
  show ?case
  proof (cases "n < 10")
    case False
    have "n div 10 < 10 ^ Suc k" using Suc.prems by (simp add: div_less_iff_less_mult)
    from Suc.IH [OF this] show ?thesis using False by (simp add: nat_digits.simps [of n])
  qed (simp add: nat_digits.simps [of n])
qed

lemma pad6_length: "n < 1000000 \<Longrightarrow> length (pad6 n) = 6"
  using nat_digits_length [of n 5] by (simp add: pad6_def Let_def)

lemma dbl_parts_bounds:
  assumes "\<not> isnan d" "\<not> isinf d"
  shows "dbl_mant d < 2 ^ 53" "dbl_exp d \<le> 971"
proof -
  have m: "0 \<le> dbl_mag d" "dbl_mag d < 0x7FF0000000000000"
    using assms by (simp_all add: isnan_def isinf_def dbl_inf_mag_def dbl_mag_def)
  define f where "f = dbl_mag d mod 0x10000000000000"
  have "f < 0x10000000000000" unfolding f_def by (rule pos_mod_bound) simp
  then show "dbl_mant d < 2 ^ 53" by (simp add: dbl_mant_def Let_def flip: f_def)
  have "dbl_mag d div 0x10000000000000 < 0x7FF" using m by simp
  then show "dbl_exp d \<le> 971" by (simp add: dbl_exp_def Let_def)
qed

lemma div_rne_bound: "0 \<le> a \<Longrightarrow> 0 < b \<Longrightarrow> div_rne a b \<le> a + 1"
  using int_div_less_self [of a b] by (cases "a = 0 \<or> b = 1") (auto simp: div_rne_def Let_def)

lemma dbl_format_length:
  assumes "\<not> isnan d" "\<not> isinf d"
  shows "length (dbl_format d) \<le> 317"
proof -
  obtain n m where nm: "scale_div (dbl_mant d * 1000000) 1 (- dbl_exp d) = (n, m)" by fastforce
  have pos: "0 \<le> n \<and> 0 < m" by (rule scale_div_pos [OF _ _ nm]) (simp_all add: dbl_mant_nonneg)
  have "n \<le> 2 ^ 53 * 1000000 * 2 ^ 971"
  proof -
    have p: "(1 :: int) \<le> 2 ^ 971" "nat (dbl_exp d) \<le> 971" using dbl_parts_bounds(2) [OF assms] by simp_all
    have le: "dbl_mant d * 1000000 \<le> 2 ^ 53 * 1000000" using dbl_parts_bounds(1) [OF assms] by simp
    have e: "(2 :: int) ^ nat (dbl_exp d) \<le> 2 ^ 971" by (rule power_increasing [OF p(2)]) simp
    have "n \<le> dbl_mant d * 1000000 * 2 ^ nat (dbl_exp d)"
      using nm dbl_mant_nonneg [of d] by (auto simp: scale_div_def split: if_splits)
    also have "\<dots> \<le> 2 ^ 53 * 1000000 * 2 ^ 971"
      by (rule mult_mono [OF le e]) (simp_all add: dbl_mant_nonneg)
    finally show ?thesis .
  qed
  then have "div_rne n m \<le> 2 ^ 53 * 1000000 * 2 ^ 971 + 1" using div_rne_bound [of n m] pos by linarith
  then have "div_rne n m div 1000000 < 10 ^ Suc 308" by simp
  note a = nat_digits_length [OF this]
  have "length (pad6 (div_rne n m mod 1000000)) = 6" by (rule pad6_length) simp
  then show ?thesis using assms nm a by (simp add: dbl_format_def Let_def)
qed

text \<open>A value whose JSON form is JSON: a finite number, a string without stray quotes, a JSON text.\<close>

definition printable :: "io_DataType_t \<Rightarrow> sample_value \<Rightarrow> bool" where
  "printable t v =
     (case v of
        VTrigger \<Rightarrow> False
      | VBool b \<Rightarrow> t = IO_DATA_TYPE_BOOLEAN
      | VNum d \<Rightarrow> t = IO_DATA_TYPE_NUMERIC \<and> \<not> isnan d \<and> \<not> isinf d
      | VStr s \<Rightarrow> (t = IO_DATA_TYPE_STRING \<and> raw_ok s) \<or> (t = IO_DATA_TYPE_JSON \<and> json_IsValid s))"

lemma json_text_valid: "json_text j s \<Longrightarrow> ws [] \<Longrightarrow> json_IsValid s"
proof -
  assume j: "json_text j s"
  have "SkipValue (s @ []) = Some []" using SkipValue_text [OF j, of "[]"] by (simp add: ends_value_def)
  then show ?thesis
    using value_head_skip [OF json_text_head [OF j]] by (simp add: json_IsValid_def SkipWhitespace_def)
qed

lemma print_result_OK: "print_result n x = (LE_OK, out) \<Longrightarrow> out = x"
  by (auto simp: print_result_def snprintf_text_def split: if_splits)

lemma utf8_copy_OK:
  assumes "utf8_copy_ok L" "0 < n" "utf8_Copy L x n = (LE_OK, out)"
  shows "out = x"
  using assms(2,3) utf8_copy_overflow [OF assms(1), of n x] utf8_copy_fits [OF assms(1), of x n]
  by (cases "length x < n") auto

text \<open>A value whose JSON form is the text of a document.\<close>

definition showable_value :: "io_DataType_t \<Rightarrow> sample_value \<Rightarrow> bool" where
  "showable_value t v =
     (case v of
        VTrigger \<Rightarrow> False
      | VBool b \<Rightarrow> t = IO_DATA_TYPE_BOOLEAN
      | VNum d \<Rightarrow> t = IO_DATA_TYPE_NUMERIC \<and> \<not> isnan d \<and> \<not> isinf d
      | VStr x \<Rightarrow> t = IO_DATA_TYPE_STRING \<and> raw_ok x \<or> t = IO_DATA_TYPE_JSON \<and> (\<exists>j. json_text j x))"

lemma ConvertToJson_text:
  assumes "utf8_copy_ok L" "showable_value t (sample_val s)" "0 < n" "dataSample_ConvertToJson L s t n = Some (LE_OK, out)"
  shows "\<exists>j. json_text j out"
proof (cases "sample_val s")
  case (VBool b)
  then have "out = (if b then ''true'' else ''false'')"
    using assms(2,4) print_result_OK by (auto simp: showable_value_def dataSample_ConvertToJson_def dataSample_GetBoolean_def)
  then show ?thesis by (cases b) (auto intro: json_text_json_elems_json_members.intros)
next
  case (VNum d)
  then have "out = dbl_format d" "\<not> isnan d" "\<not> isinf d"
    using assms(2,4) print_result_OK by (auto simp: showable_value_def dataSample_ConvertToJson_def dataSample_GetNumeric_def)
  then show ?thesis by (auto intro: text_num dbl_format_token)
next
  case (VStr x)
  then consider "t = IO_DATA_TYPE_STRING" "raw_ok x" | "t = IO_DATA_TYPE_JSON" "\<exists>j. json_text j x"
    using assms(2) by (auto simp: showable_value_def)
  then show ?thesis
  proof cases
    case 1
    then obtain c where c: "utf8_Copy L x (n - 1) = (LE_OK, c)" "out = CHR 0x22 # c @ [CHR 0x22]"
      using assms(4) VStr by (auto simp: dataSample_ConvertToJson_def dataSample_GetString_def
          split: if_splits prod.splits)
    have "0 < n - 1"
      using assms(4) VStr 1(1) by (auto simp: dataSample_ConvertToJson_def split: if_splits)
    then have "out = CHR 0x22 # x @ [CHR 0x22]" using c utf8_copy_OK [OF assms(1)] by blast
    then show ?thesis using 1(2) by (auto intro: text_str)
  next
    case 2
    then show ?thesis
      using assms(3,4) VStr utf8_copy_OK [OF assms(1,3)] by (auto simp: dataSample_ConvertToJson_def dataSample_GetString_def)
  qed
qed (use assms(2) in \<open>simp add: showable_value_def\<close>)

text \<open>
  C28: the JSON form of a printable value is accepted as JSON whenever it fits the buffer, which is
  when \<open>LE_OK\<close> is returned. Printable are Booleans, finite numbers, strings that need no escapes between
  quotes (\<open>raw_ok\<close>: no quote that has no backslash before it, none at the end) and JSON; triggers, which are
  printed as nothing, and \<open>nan\<close> and \<open>inf\<close> are not.
\<close>

theorem ConvertToJson_valid:
  assumes "utf8_copy_ok L" "printable t (sample_val s)" "0 < n"
    "dataSample_ConvertToJson L s t n = Some (LE_OK, out)"
  shows "json_IsValid out"
proof -
  have ws0: "ws []" by (simp add: ws_def)
  show ?thesis
  proof (cases "t = IO_DATA_TYPE_JSON")
    case True
    then obtain x where "sample_val s = VStr x" "json_IsValid x"
      using assms(2) by (auto simp: printable_def split: sample_value.splits)
    then show ?thesis
      using assms(3,4) True utf8_copy_OK [OF assms(1,3)]
      by (auto simp: dataSample_ConvertToJson_def dataSample_GetString_def)
  next
    case False
    then have "showable_value t (sample_val s)"
      using assms(2) by (auto simp: printable_def showable_value_def split: sample_value.splits)
    then show ?thesis using ConvertToJson_text [OF assms(1) _ assms(3,4)] json_text_valid ws0 by blast
  qed
qed

lemma ConvertToJson_valid_witness:
  "dataSample_ConvertToJson sample_legato \<lparr> timestamp = 1, sample_val = VStr ''on'' \<rparr> IO_DATA_TYPE_STRING 10
     = Some (LE_OK, [CHR 0x22, CHR ''o'', CHR ''n'', CHR 0x22])
   \<and> json_IsValid [CHR 0x22, CHR ''o'', CHR ''n'', CHR 0x22]"
proof -
  have c: "dataSample_ConvertToJson sample_legato \<lparr> timestamp = 1, sample_val = VStr ''on'' \<rparr> IO_DATA_TYPE_STRING 10
     = Some (LE_OK, [CHR 0x22, CHR ''o'', CHR ''n'', CHR 0x22])"
    by code_simp
  have "printable IO_DATA_TYPE_STRING (sample_val \<lparr> timestamp = 1, sample_val = VStr ''on'' \<rparr>)"
    by (simp add: printable_def)
  from ConvertToJson_valid [OF sample_legato_ok this _ c] c show ?thesis by simp
qed

end
