(* ===== verification/HubState.thy ===== *)
theory HubState
  imports DataSample
begin

text \<open>
  The state of the Data Hub: the objects of \<open>resTree.c\<close>, \<open>resource.c\<close>, \<open>ioPoint.c\<close>, \<open>obs.c\<close> and
  \<open>handler.c\<close> on one heap, one partial map per kind of object, with the static variables and what the
  daemon has told its clients so far.

  A \<open>res_Resource_t *\<close>, a \<open>resTree_EntryRef_t\<close> and a \<open>hub_HandlerRef_t\<close> are numbers; new objects get
  new numbers. The subclass of a resource is the datatype \<open>res_kind\<close>: a \<open>CONTAINER_OF\<close> that casts to a
  subclass the object does not have is \<open>None\<close>. A doubly or singly linked list is a HOL list, first
  element first. Operations take the state and return \<open>Some\<close> of a result and the new state; \<open>None\<close>
  is a failed assertion, a fatal error, a dereferenced \<open>NULL\<close> or dead pointer, or a recursion that
  does not end.
\<close>

type_synonym rid = nat
type_synonym eid = nat
type_synonym hid = nat

subsection \<open>Objects\<close>

datatype admin_EntryType_t =
    ADMIN_ENTRY_TYPE_NONE | ADMIN_ENTRY_TYPE_NAMESPACE | ADMIN_ENTRY_TYPE_INPUT
  | ADMIN_ENTRY_TYPE_OUTPUT | ADMIN_ENTRY_TYPE_OBSERVATION | ADMIN_ENTRY_TYPE_PLACEHOLDER

datatype admin_ResourceOperationType_t = ADMIN_RESOURCE_ADDED | ADMIN_RESOURCE_REMOVED

datatype obs_TransformType_t =
    OBS_TRANSFORM_TYPE_NONE | OBS_TRANSFORM_TYPE_MEAN | OBS_TRANSFORM_TYPE_STDDEV
  | OBS_TRANSFORM_TYPE_MAX | OBS_TRANSFORM_TYPE_MIN

text \<open>An entry of the resource tree, with the reference count of its memory block.\<close>

record Entry_t =
  e_parentPtr :: "eid option"
  e_name :: string
  e_childList :: "eid list"
  e_type :: admin_EntryType_t
  e_resourcePtr :: "rid option"
  e_refCount :: nat

record IoResource_t =
  io_dataType :: io_DataType_t
  io_isMandatory :: bool

text \<open>
  An entry of an observation's buffer is its sample with a number of its own, by which a read
  operation that is under way holds on to it.
\<close>

type_synonym BufferEntry_t = "nat \<times> dataSample_Ref_t"

datatype read_state = START | SAMPLE | COMMA | END

record ReadOperation_t =
  op_fd :: nat
  op_nextEntryPtr :: "BufferEntry_t option"
  op_state :: read_state
  op_writeBuffer :: string
  op_writeLen :: nat
  op_writeOffset :: nat
  op_handler :: nat
  op_context :: nat

text \<open>
  The times are 32 bit words. \<open>o_lastPushTime\<close> is not initialised in C before the first accepted
  sample. A running backup timer is its interval in milliseconds.
\<close>

record Observation_t =
  o_highLimit :: double
  o_lowLimit :: double
  o_changeBy :: double
  o_minPeriod :: double
  o_lastPushTime :: "32 word"
  o_transformType :: obs_TransformType_t
  o_maxCount :: nat
  o_count :: nat
  o_bufferedType :: io_DataType_t
  o_backupPeriod :: "32 word"
  o_lastBackupTime :: "32 word"
  o_backupTimer :: "32 word option"
  o_sampleList :: "BufferEntry_t list"
  o_readOpList :: "ReadOperation_t list"
  o_jsonExtraction :: string

datatype res_kind = Placeholder | IoPoint IoResource_t | Observation Observation_t

record res_Resource_t =
  r_entryRef :: "eid option"
  r_units :: string
  r_currentType :: io_DataType_t
  r_currentValue :: "dataSample_Ref_t option"
  r_pushedType :: io_DataType_t
  r_pushedValue :: "dataSample_Ref_t option"
  r_srcPtr :: "rid option"
  r_destList :: "rid list"
  r_overrideValue :: "dataSample_Ref_t option"
  r_overrideType :: io_DataType_t
  r_defaultValue :: "dataSample_Ref_t option"
  r_defaultType :: io_DataType_t
  r_isConfigChanging :: bool
  r_pushHandlerList :: "hid list"
  r_jsonExample :: "dataSample_Ref_t option"
  r_sub :: res_kind

text \<open>
  A registered handler. Its safe reference is its number; \<open>h_listPtr\<close> is the resource whose push
  handler list the handler was put on.
\<close>

record Handler_t =
  h_listPtr :: rid
  h_dataType :: io_DataType_t
  h_callbackPtr :: nat
  h_contextPtr :: nat

text \<open>What the daemon has told its clients: calls of push handlers, of handlers for changes of the
  resource tree and for the start and end of extended updates, completed reads, bytes written to a
file, and sessions that were closed because their client broke the rules.\<close>

datatype event =
    PushCall nat nat io_DataType_t double sample_value
  | TreeChange nat nat string admin_EntryType_t admin_ResourceOperationType_t
  | ReadDone nat nat bool
  | FdWrite nat string
  | UpdateStartEnd nat nat bool
  | KillClient nat

record hub =
  entries :: "eid \<Rightarrow> Entry_t option"
  RootPtr :: eid
  resources :: "rid \<Rightarrow> res_Resource_t option"
  handlers :: "hid \<Rightarrow> Handler_t option"
  nextEntry :: eid
  nextRes :: rid
  nextHandler :: hid
  nextBuff :: nat
  IsUpdateInProgress :: bool
  clock :: nat
  treeHandlers :: "(nat \<times> nat \<times> nat) list"
  backupFiles :: "string \<Rightarrow> string option"
  events :: "event list"

subsection \<open>Access\<close>

definition put_res :: "rid \<Rightarrow> res_Resource_t \<Rightarrow> hub \<Rightarrow> hub" where
  "put_res r x h = h\<lparr>resources := (resources h)(r \<mapsto> x)\<rparr>"

definition put_entry :: "eid \<Rightarrow> Entry_t \<Rightarrow> hub \<Rightarrow> hub" where
  "put_entry e x h = h\<lparr>entries := (entries h)(e \<mapsto> x)\<rparr>"

definition add_event :: "event \<Rightarrow> hub \<Rightarrow> hub" where
  "add_event ev h = h\<lparr>events := events h @ [ev]\<rparr>"

text \<open>The observation part and the input or output part of a resource.\<close>

definition obs_part :: "res_Resource_t \<Rightarrow> Observation_t option" where
  "obs_part x = (case r_sub x of Observation ob \<Rightarrow> Some ob | _ \<Rightarrow> None)"

definition io_part :: "res_Resource_t \<Rightarrow> IoResource_t option" where
  "io_part x = (case r_sub x of IoPoint p \<Rightarrow> Some p | _ \<Rightarrow> None)"

definition get_obs :: "hub \<Rightarrow> rid \<Rightarrow> Observation_t option" where
  "get_obs h r = resources h r \<bind> obs_part"

definition put_obs :: "rid \<Rightarrow> Observation_t \<Rightarrow> hub \<Rightarrow> hub" where
  "put_obs r ob h =
     (case resources h r of None \<Rightarrow> h | Some x \<Rightarrow> put_res r (x\<lparr>r_sub := Observation ob\<rparr>) h)"

text \<open>Simple readers of \<open>resTree.c\<close> and \<open>resource.c\<close> that the other modules use.\<close>

definition resTree_IsResource :: "hub \<Rightarrow> eid \<Rightarrow> bool option" where
  "resTree_IsResource h e = do { x \<leftarrow> entries h e; Some (e_resourcePtr x \<noteq> None) }"

definition resTree_GetRoot :: "hub \<Rightarrow> eid" where
  "resTree_GetRoot h = RootPtr h"

definition resTree_GetEntryName :: "hub \<Rightarrow> eid \<Rightarrow> string option" where
  "resTree_GetEntryName h e = do { x \<leftarrow> entries h e; Some (e_name x) }"

definition resTree_GetEntryType :: "hub \<Rightarrow> eid \<Rightarrow> admin_EntryType_t option" where
  "resTree_GetEntryType h e = do { x \<leftarrow> entries h e; Some (e_type x) }"

definition res_GetUnits :: "hub \<Rightarrow> rid \<Rightarrow> string option" where
  "res_GetUnits h r = do { x \<leftarrow> resources h r; Some (r_units x) }"

definition res_GetDataType :: "hub \<Rightarrow> rid \<Rightarrow> io_DataType_t option" where
  "res_GetDataType h r = do { x \<leftarrow> resources h r; Some (r_currentType x) }"

definition res_GetCurrentValue :: "hub \<Rightarrow> rid \<Rightarrow> dataSample_Ref_t option option" where
  "res_GetCurrentValue h r = do { x \<leftarrow> resources h r; Some (r_currentValue x) }"

text \<open>The entry type of a resource: \<open>resTree_GetEntryType (resPtr->entryRef)\<close>.\<close>

definition entry_type_of :: "hub \<Rightarrow> rid \<Rightarrow> admin_EntryType_t option" where
  "entry_type_of h r = do { x \<leftarrow> resources h r; e \<leftarrow> r_entryRef x; resTree_GetEntryType h e }"

text \<open>The constructor of the resource base class; a placeholder is nothing more.\<close>

definition res_Construct :: "eid \<Rightarrow> res_Resource_t" where
  "res_Construct e =
     \<lparr> r_entryRef = Some e,
       r_units = [],
       r_currentType = IO_DATA_TYPE_TRIGGER,
       r_currentValue = None,
       r_pushedType = IO_DATA_TYPE_TRIGGER,
       r_pushedValue = None,
       r_srcPtr = None,
       r_destList = [],
       r_overrideValue = None,
       r_overrideType = IO_DATA_TYPE_TRIGGER,
       r_defaultValue = None,
       r_defaultType = IO_DATA_TYPE_TRIGGER,
       r_isConfigChanging = False,
       r_pushHandlerList = [],
       r_jsonExample = None,
       r_sub = Placeholder \<rparr>"

text \<open>A new object in the pool of resources.\<close>

definition alloc_res :: "res_Resource_t \<Rightarrow> hub \<Rightarrow> rid \<times> hub" where
  "alloc_res x h = (nextRes h, put_res (nextRes h) x (h\<lparr>nextRes := nextRes h + 1\<rparr>))"

text \<open>
  The state after the initialisation of the modules: the root namespace, and nothing else. In C the
  parent pointer of the root is not initialised; here it is \<open>None\<close>.
\<close>

definition initial_hub :: hub where
  "initial_hub =
     \<lparr> entries = [0 \<mapsto> \<lparr> e_parentPtr = None, e_name = [], e_childList = [],
                        e_type = ADMIN_ENTRY_TYPE_NAMESPACE, e_resourcePtr = None, e_refCount = 1 \<rparr>],
       RootPtr = 0,
       resources = Map.empty,
       handlers = Map.empty,
       nextEntry = 1,
       nextRes = 0,
       nextHandler = 0,
       nextBuff = 0,
       IsUpdateInProgress = False,
       clock = 0,
       treeHandlers = [],
       backupFiles = Map.empty,
       events = [] \<rparr>"

subsection \<open>Lemmas\<close>

lemma put_res_resources [simp]: "resources (put_res r x h) = (resources h)(r \<mapsto> x)"
  by (simp add: put_res_def)

lemma put_res_other [simp]:
  "entries (put_res r x h) = entries h" "RootPtr (put_res r x h) = RootPtr h"
  "handlers (put_res r x h) = handlers h" "nextEntry (put_res r x h) = nextEntry h"
  "nextRes (put_res r x h) = nextRes h" "nextHandler (put_res r x h) = nextHandler h"
  "nextBuff (put_res r x h) = nextBuff h" "clock (put_res r x h) = clock h"
  "IsUpdateInProgress (put_res r x h) = IsUpdateInProgress h"
  "treeHandlers (put_res r x h) = treeHandlers h" "backupFiles (put_res r x h) = backupFiles h"
  "events (put_res r x h) = events h"
  by (simp_all add: put_res_def)

lemma put_entry_entries [simp]: "entries (put_entry e x h) = (entries h)(e \<mapsto> x)"
  by (simp add: put_entry_def)

lemma put_entry_other [simp]:
  "resources (put_entry r x h) = resources h" "RootPtr (put_entry r x h) = RootPtr h"
  "handlers (put_entry r x h) = handlers h" "nextEntry (put_entry r x h) = nextEntry h"
  "nextRes (put_entry r x h) = nextRes h" "nextHandler (put_entry r x h) = nextHandler h"
  "nextBuff (put_entry r x h) = nextBuff h" "clock (put_entry r x h) = clock h"
  "IsUpdateInProgress (put_entry r x h) = IsUpdateInProgress h"
  "treeHandlers (put_entry r x h) = treeHandlers h" "backupFiles (put_entry r x h) = backupFiles h"
  "events (put_entry r x h) = events h"
  by (simp_all add: put_entry_def)

lemma add_event_frame [simp]:
  "entries (add_event ev h) = entries h" "RootPtr (add_event ev h) = RootPtr h"
  "resources (add_event ev h) = resources h" "handlers (add_event ev h) = handlers h"
  "nextEntry (add_event ev h) = nextEntry h" "nextRes (add_event ev h) = nextRes h"
  "nextHandler (add_event ev h) = nextHandler h" "nextBuff (add_event ev h) = nextBuff h"
  "clock (add_event ev h) = clock h"
  "IsUpdateInProgress (add_event ev h) = IsUpdateInProgress h"
  "treeHandlers (add_event ev h) = treeHandlers h" "backupFiles (add_event ev h) = backupFiles h"
  "events (add_event ev h) = events h @ [ev]"
  by (simp_all add: add_event_def)

lemma obs_part_Some [simp]: "obs_part x = Some ob \<longleftrightarrow> r_sub x = Observation ob"
  by (cases "r_sub x") (auto simp: obs_part_def)

lemma io_part_Some [simp]: "io_part x = Some p \<longleftrightarrow> r_sub x = IoPoint p"
  by (cases "r_sub x") (auto simp: io_part_def)

lemma get_obs_Some: "get_obs h r = Some ob \<longleftrightarrow> (\<exists>x. resources h r = Some x \<and> r_sub x = Observation ob)"
  by (auto simp: get_obs_def bind_Some_iff)

lemma put_obs_resources:
  "resources h r = Some x \<Longrightarrow> put_obs r ob h = put_res r (x\<lparr>r_sub := Observation ob\<rparr>) h"
  by (simp add: put_obs_def)

lemma put_obs_other [simp]:
  "entries (put_obs r x h) = entries h" "RootPtr (put_obs r x h) = RootPtr h"
  "handlers (put_obs r x h) = handlers h" "nextEntry (put_obs r x h) = nextEntry h"
  "nextRes (put_obs r x h) = nextRes h" "nextHandler (put_obs r x h) = nextHandler h"
  "nextBuff (put_obs r x h) = nextBuff h" "clock (put_obs r x h) = clock h"
  "IsUpdateInProgress (put_obs r x h) = IsUpdateInProgress h"
  "treeHandlers (put_obs r x h) = treeHandlers h" "backupFiles (put_obs r x h) = backupFiles h"
  "events (put_obs r x h) = events h"
  by (simp_all add: put_obs_def split: option.splits)

end
