(* ===== verification/ObsBuffer.thy ===== *)
theory ObsBuffer
  imports HubState
begin

text \<open>
  The buffer of an observation, the part of \<open>obs.c\<close> that works on one observation: adding and
  dropping samples, the search for a start time, and the aggregates over the buffer.

  A pointer to a buffer entry from which the code walks towards newer entries is the rest of the
  sample list that starts there; \<open>NULL\<close> is the empty list. Operations that read the clock take and
  return the number of readings taken so far, operations that allocate a buffer entry its number.
\<close>

definition THIRTY_YEARS :: double where
  "THIRTY_YEARS = dbl_of_int 946684800"

definition entry_time :: "BufferEntry_t \<Rightarrow> double" where
  "entry_time b = dataSample_GetTimestamp (snd b)"

subsection \<open>The queue\<close>

definition GetOldestBufferEntry :: "Observation_t \<Rightarrow> BufferEntry_t option" where
  "GetOldestBufferEntry ob = (case o_sampleList ob of [] \<Rightarrow> None | b # _ \<Rightarrow> Some b)"

definition GetNextBufferEntry :: "Observation_t \<Rightarrow> BufferEntry_t \<Rightarrow> BufferEntry_t option" where
  "GetNextBufferEntry ob b = next_in (o_sampleList ob) b"

text \<open>A sample that is older than the newest one in the buffer is dropped.\<close>

definition AddToBuffer :: "dataSample_Ref_t \<Rightarrow> Observation_t \<Rightarrow> nat \<Rightarrow> Observation_t \<times> nat" where
  "AddToBuffer s ob n =
     (if o_sampleList ob \<noteq> [] \<and> dbl_gt (entry_time (last (o_sampleList ob))) (dataSample_GetTimestamp s)
      then (ob, n)
      else (ob\<lparr>o_sampleList := o_sampleList ob @ [(n, s)], o_count := o_count ob + 1\<rparr>, n + 1))"

text \<open>Popping from an empty list and releasing what was popped would be a use of \<open>NULL\<close>.\<close>

function TruncateBuffer :: "nat \<Rightarrow> Observation_t \<Rightarrow> Observation_t option" where
  "TruncateBuffer c ob =
     (if o_count ob > c then
        (case o_sampleList ob of
           [] \<Rightarrow> None
         | b # bs \<Rightarrow> TruncateBuffer c (ob\<lparr>o_sampleList := bs, o_count := o_count ob - 1\<rparr>))
      else Some ob)"
  by pat_completeness auto
termination TruncateBuffer by (relation "measure (o_count \<circ> snd)") auto

declare TruncateBuffer.simps [simp del]

subsection \<open>Search\<close>

text \<open>The loop that walks up the buffer to an entry that is not older than the start time.\<close>

fun FindLoop :: "double \<Rightarrow> BufferEntry_t list \<Rightarrow> BufferEntry_t list" where
  "FindLoop startTime [] = []"
| "FindLoop startTime (b # bs) =
     (if dbl_ge (entry_time b) startTime then b # bs else FindLoop startTime bs)"

definition FindBufferEntry ::
  "legato \<Rightarrow> Observation_t \<Rightarrow> double \<Rightarrow> nat \<Rightarrow> BufferEntry_t list \<times> nat" where
  "FindBufferEntry L ob startTime clk =
     (if o_sampleList ob \<noteq> [] \<and> \<not> isnan startTime then
        if dbl_le startTime THIRTY_YEARS then
          let (sec, usec) = clk_absolute L clk;
              now = dbl_add (dbl_div (dbl_of_int usec) (dbl_of_int 1000000)) (dbl_of_int sec)
          in (FindLoop (dbl_sub now startTime) (o_sampleList ob), clk + 1)
        else (FindLoop startTime (o_sampleList ob), clk)
      else (o_sampleList ob, clk))"

text \<open>
  The entry after the start time: an entry with exactly the time that was asked for is skipped.
\<close>

definition start_after ::
  "legato \<Rightarrow> Observation_t \<Rightarrow> double \<Rightarrow> nat \<Rightarrow> BufferEntry_t list \<times> nat" where
  "start_after L ob startAfter clk =
     (let (start, clk') = FindBufferEntry L ob startAfter clk in
      (case start of
         b # bs \<Rightarrow> if dbl_eq (entry_time b) startAfter then bs else start
       | [] \<Rightarrow> start, clk'))"

definition FindBufferedSampleAfter ::
  "legato \<Rightarrow> Observation_t \<Rightarrow> double \<Rightarrow> nat \<Rightarrow> dataSample_Ref_t option \<times> nat" where
  "FindBufferedSampleAfter L ob startAfter clk =
     (let (start, clk') = start_after L ob startAfter clk in
      (case start of b # _ \<Rightarrow> Some (snd b) | [] \<Rightarrow> None, clk'))"

subsection \<open>Aggregates\<close>

definition GetBufferedNumber :: "BufferEntry_t \<Rightarrow> io_DataType_t \<Rightarrow> double option" where
  "GetBufferedNumber b t =
     (case t of
        IO_DATA_TYPE_NUMERIC \<Rightarrow> dataSample_GetNumeric (snd b)
      | IO_DATA_TYPE_BOOLEAN \<Rightarrow> do {
          v \<leftarrow> dataSample_GetBoolean (snd b);
          Some (dbl_of_int (if v then 1 else 0))
        }
      | _ \<Rightarrow> Some NAN)"

definition aggregates :: "io_DataType_t \<Rightarrow> bool" where
  "aggregates t = (t = IO_DATA_TYPE_NUMERIC \<or> t = IO_DATA_TYPE_BOOLEAN)"

fun MinLoop :: "io_DataType_t \<Rightarrow> BufferEntry_t list \<Rightarrow> double \<Rightarrow> double option" where
  "MinLoop t [] result = Some result"
| "MinLoop t (b # bs) result = do {
     v \<leftarrow> GetBufferedNumber b t;
     MinLoop t bs (if \<not> isnan v \<and> (isnan result \<or> dbl_gt result v) then v else result)
   }"

fun MaxLoop :: "io_DataType_t \<Rightarrow> BufferEntry_t list \<Rightarrow> double \<Rightarrow> double option" where
  "MaxLoop t [] result = Some result"
| "MaxLoop t (b # bs) result = do {
     v \<leftarrow> GetBufferedNumber b t;
     MaxLoop t bs (if \<not> isnan v \<and> (isnan result \<or> dbl_lt result v) then v else result)
   }"

fun SumLoop :: "io_DataType_t \<Rightarrow> BufferEntry_t list \<Rightarrow> double \<Rightarrow> nat \<Rightarrow> (double \<times> nat) option" where
  "SumLoop t [] s n = Some (s, n)"
| "SumLoop t (b # bs) s n = do {
     v \<leftarrow> GetBufferedNumber b t;
     (if \<not> isnan v then SumLoop t bs (dbl_add s v) (n + 1) else SumLoop t bs s n)
   }"

fun SquaresLoop :: "io_DataType_t \<Rightarrow> double \<Rightarrow> BufferEntry_t list \<Rightarrow> double \<Rightarrow> double option" where
  "SquaresLoop t mean [] s = Some s"
| "SquaresLoop t mean (b # bs) s = do {
     v \<leftarrow> GetBufferedNumber b t;
     (if \<not> isnan v
      then let diff = dbl_sub v mean in SquaresLoop t mean bs (dbl_add s (dbl_mul diff diff))
      else SquaresLoop t mean bs s)
   }"

definition QueryMin ::
  "legato \<Rightarrow> Observation_t \<Rightarrow> double \<Rightarrow> nat \<Rightarrow> (double \<times> nat) option" where
  "QueryMin L ob startTime clk =
     (if \<not> aggregates (o_bufferedType ob) then Some (NAN, clk)
      else let (start, clk') = FindBufferEntry L ob startTime clk in do {
        r \<leftarrow> MinLoop (o_bufferedType ob) start NAN;
        Some (r, clk')
      })"

definition QueryMax ::
  "legato \<Rightarrow> Observation_t \<Rightarrow> double \<Rightarrow> nat \<Rightarrow> (double \<times> nat) option" where
  "QueryMax L ob startTime clk =
     (if \<not> aggregates (o_bufferedType ob) then Some (NAN, clk)
      else let (start, clk') = FindBufferEntry L ob startTime clk in do {
        r \<leftarrow> MaxLoop (o_bufferedType ob) start NAN;
        Some (r, clk')
      })"

definition QueryMean ::
  "legato \<Rightarrow> Observation_t \<Rightarrow> double \<Rightarrow> nat \<Rightarrow> (double \<times> nat) option" where
  "QueryMean L ob startTime clk =
     (if \<not> aggregates (o_bufferedType ob) then Some (NAN, clk)
      else let (start, clk') = FindBufferEntry L ob startTime clk in do {
        (s, n) \<leftarrow> SumLoop (o_bufferedType ob) start (dbl_of_int 0) 0;
        Some (if n = 0 then NAN else dbl_div s (dbl_of_int (int n)), clk')
      })"

definition QueryStdDev ::
  "legato \<Rightarrow> Observation_t \<Rightarrow> double \<Rightarrow> nat \<Rightarrow> (double \<times> nat) option" where
  "QueryStdDev L ob startTime clk =
     (if \<not> aggregates (o_bufferedType ob) then Some (NAN, clk)
      else let (start, clk') = FindBufferEntry L ob startTime clk in
        if start = [] then Some (NAN, clk')
        else do {
          (s, n) \<leftarrow> SumLoop (o_bufferedType ob) start (dbl_of_int 0) 0;
          (if n = 0 then Some (NAN, clk')
           else let mean = dbl_div s (dbl_of_int (int n)) in do {
             q \<leftarrow> SquaresLoop (o_bufferedType ob) mean start (dbl_of_int 0);
             Some (dbl_sqrt (dbl_div q (dbl_of_int (int n))), clk')
           })
        })"

subsection \<open>The bounded queue\<close>

text \<open>
  What \<open>obs_ProcessAccepted\<close> does to the buffer: samples of another type are dumped, the new one is
  added and the oldest are dropped until the buffer has its maximum size.
\<close>

definition buffer_sample ::
  "io_DataType_t \<Rightarrow> dataSample_Ref_t \<Rightarrow> Observation_t \<times> nat \<Rightarrow> (Observation_t \<times> nat) option" where
  "buffer_sample t s q = do {
     let (ob, n) = q;
     ob \<leftarrow> (if o_bufferedType ob \<noteq> t
            then do { ob \<leftarrow> TruncateBuffer 0 ob; Some (ob\<lparr>o_bufferedType := t\<rparr>) }
            else Some ob);
     let (ob, n) = AddToBuffer s ob n;
     ob \<leftarrow> TruncateBuffer (o_maxCount ob) ob;
     Some (ob, n)
   }"

text \<open>
  The invariant of a buffer: the count is the number of entries, entries have different numbers below
  the next one, no entry is older than the one before it, and every sample has a value of the type
  that is recorded for the buffer.
\<close>

definition older :: "dataSample_Ref_t \<Rightarrow> dataSample_Ref_t \<Rightarrow> bool" where
  "older s s' = dbl_lt (dataSample_GetTimestamp s) (dataSample_GetTimestamp s')"

definition buffer_ok :: "Observation_t \<Rightarrow> nat \<Rightarrow> bool" where
  "buffer_ok ob n \<longleftrightarrow>
     o_count ob = length (o_sampleList ob) \<and>
     distinct (map fst (o_sampleList ob)) \<and> (\<forall>b \<in> set (o_sampleList ob). fst b < n) \<and>
     successively (\<lambda>a b. \<not> older (snd b) (snd a)) (o_sampleList ob) \<and>
     (\<forall>b \<in> set (o_sampleList ob). sample_ok (o_bufferedType ob) (snd b))"

definition with_list :: "Observation_t \<Rightarrow> BufferEntry_t list \<Rightarrow> Observation_t" where
  "with_list ob bs = ob\<lparr>o_sampleList := bs, o_count := length bs\<rparr>"

lemma with_list_simps [simp]:
  "o_sampleList (with_list ob bs) = bs" "o_count (with_list ob bs) = length bs"
  "o_bufferedType (with_list ob bs) = o_bufferedType ob" "o_maxCount (with_list ob bs) = o_maxCount ob"
  "with_list (with_list ob bs) cs = with_list ob cs"
  "o_backupPeriod (with_list ob bs) = o_backupPeriod ob"
  by (simp_all add: with_list_def)

lemma with_list_same: "buffer_ok ob n \<Longrightarrow> with_list ob (o_sampleList ob) = ob"
  by (simp add: with_list_def buffer_ok_def)

lemma TruncateBuffer_take_last:
  "o_count ob = length (o_sampleList ob) \<Longrightarrow>
   TruncateBuffer c ob = Some (with_list ob (take_last c (o_sampleList ob)))"
proof (induction c ob rule: TruncateBuffer.induct)
  case (1 c ob)
  show ?case
  proof (cases "o_count ob > c")
    case True
    then obtain b bs where b: "o_sampleList ob = b # bs"
      using 1(2) by (cases "o_sampleList ob") auto
    then have "take_last c (b # bs) = take_last c bs"
      using True 1(2) by (auto simp: take_last_def Suc_diff_le)
    then show ?thesis
      using 1(1) [OF True b] 1(2) True b by (simp add: TruncateBuffer.simps [of c ob] with_list_def)
  next
    case False
    then show ?thesis using 1(2) by (simp add: TruncateBuffer.simps [of c ob] with_list_def)
  qed
qed

lemma buffer_ok_take_last:
  "buffer_ok ob n \<Longrightarrow> buffer_ok (with_list ob (take_last c (o_sampleList ob))) n"
  using set_take_last [of c "o_sampleList ob"]
  by (auto simp: buffer_ok_def map_take_last take_last_def drop_map [symmetric] intro!: successively_drop)

text \<open>The contents of a buffer, without the numbers of the entries.\<close>

definition contents :: "Observation_t \<times> nat \<Rightarrow> dataSample_Ref_t list" where
  "contents q = map snd (o_sampleList (fst q))"

definition in_order :: "dataSample_Ref_t list \<Rightarrow> dataSample_Ref_t \<Rightarrow> bool" where
  "in_order ss s \<longleftrightarrow> ss = [] \<or> \<not> older s (last ss)"

lemma AddToBuffer_eq:
  assumes "buffer_ok ob n"
  shows "AddToBuffer s ob n =
    (if in_order (contents (ob, n)) s then (with_list ob (o_sampleList ob @ [(n, s)]), n + 1) else (ob, n))"
  using assms
  by (auto simp: AddToBuffer_def in_order_def contents_def older_def entry_time_def last_map with_list_def
      buffer_ok_def)

lemma buffer_ok_snoc:
  assumes "buffer_ok ob n" "sample_ok (o_bufferedType ob) s" "in_order (contents (ob, n)) s"
  shows "buffer_ok (with_list ob (o_sampleList ob @ [(n, s)])) (n + 1)"
proof -
  have "\<forall>b \<in> set (o_sampleList ob @ [(n, s)]). fst b < n + 1"
    using assms(1) by (auto simp: buffer_ok_def less_Suc_eq)
  moreover have "n \<notin> fst ` set (o_sampleList ob)"
    using assms(1) by (auto simp: buffer_ok_def)
  moreover have "successively (\<lambda>a b. \<not> older (snd b) (snd a)) (o_sampleList ob @ [(n, s)])"
    using assms by (auto simp: buffer_ok_def successively_append_iff in_order_def contents_def last_map)
  ultimately show ?thesis
    using assms(1,2) by (simp add: buffer_ok_def)
qed

lemma AddToBuffer_ok:
  assumes "buffer_ok ob n" "sample_ok (o_bufferedType ob) s" "AddToBuffer s ob n = (ob', n')"
  shows "buffer_ok ob' n' \<and> n \<le> n' \<and> ob' = with_list ob (o_sampleList ob') \<and>
    contents (ob', n') = (if in_order (contents (ob, n)) s then contents (ob, n) @ [s] else contents (ob, n))"
  using assms(3) buffer_ok_snoc [OF assms(1,2)] assms(1)
  by (auto simp: AddToBuffer_eq [OF assms(1)] contents_def with_list_same split: if_splits)

lemma buffer_sample_spec:
  assumes "buffer_ok ob n" "sample_ok (o_bufferedType ob) s"
    "length (o_sampleList ob) \<le> o_maxCount ob"
  shows "\<exists>ob' n'. buffer_sample (o_bufferedType ob) s (ob, n) = Some (ob', n') \<and> buffer_ok ob' n' \<and> n \<le> n' \<and>
     ob' = with_list ob (o_sampleList ob') \<and>
     contents (ob', n') =
       (if in_order (contents (ob, n)) s then take_last (o_maxCount ob) (contents (ob, n) @ [s])
        else contents (ob, n))"
proof -
  obtain ob1 n1 where a: "AddToBuffer s ob n = (ob1, n1)" by force
  note ok = AddToBuffer_ok [OF assms(1,2) a]
  have m: "o_maxCount ob1 = o_maxCount ob" using ok by (metis with_list_simps(4))
  have b: "buffer_sample (o_bufferedType ob) s (ob, n)
      = Some (with_list ob1 (take_last (o_maxCount ob) (o_sampleList ob1)), n1)"
    using TruncateBuffer_take_last [of ob1] ok a m by (simp add: buffer_sample_def buffer_ok_def)
  have "contents (with_list ob1 (take_last (o_maxCount ob) (o_sampleList ob1)), n1)
      = take_last (o_maxCount ob) (contents (ob1, n1))"
    by (simp add: contents_def map_take_last)
  then have "contents (with_list ob1 (take_last (o_maxCount ob) (o_sampleList ob1)), n1) =
      (if in_order (contents (ob, n)) s then take_last (o_maxCount ob) (contents (ob, n) @ [s])
       else contents (ob, n))"
    using ok assms(3) by (simp add: contents_def)
  moreover have "with_list ob1 bs = with_list ob bs" for bs
    using ok by (metis with_list_simps(5))
  ultimately show ?thesis
    using b ok buffer_ok_take_last [of ob1 n1 "o_maxCount ob"] by simp
qed

text \<open>
  What is expected of a bounded queue that refuses elements out of order: an element is put at the end
  and as many as the capacity allows are kept, the newest ones.
\<close>

locale bounded_queue =
  fixes enq :: "'a \<Rightarrow> 'q \<Rightarrow> 'q option"
    and items :: "'q \<Rightarrow> 'a list"
    and cap :: "'q \<Rightarrow> nat"
    and ok :: "'q \<Rightarrow> bool"
    and typed :: "'a \<Rightarrow> bool"
    and follows :: "'a \<Rightarrow> 'a \<Rightarrow> bool"
  assumes bounded: "ok q \<Longrightarrow> length (items q) \<le> cap q"
    and enq_ok: "ok q \<Longrightarrow> typed a \<Longrightarrow> \<exists>q'. enq a q = Some q' \<and> ok q' \<and> cap q' = cap q \<and>
      items q' = (if items q = [] \<or> follows (last (items q)) a then take_last (cap q) (items q @ [a])
                  else items q)"
begin

lemma enq_all_ok:
  assumes "ok q" "\<forall>a \<in> set as. typed a"
  shows "\<exists>q'. fold_option enq as q = Some q' \<and> ok q' \<and> cap q' = cap q"
  using fold_option_invariant [of as "\<lambda>q'. ok q' \<and> cap q' = cap q" enq q] enq_ok assms by metis

lemma enq_all_newest:
  assumes "ok q" "\<forall>a \<in> set as. typed a" "successively follows (items q @ as)"
  shows "\<exists>q'. fold_option enq as q = Some q' \<and> ok q' \<and> cap q' = cap q \<and>
    items q' = take_last (cap q) (items q @ as)"
  using assms
proof (induction as arbitrary: q)
  case Nil
  then show ?case using bounded by simp
next
  case (Cons a as)
  have "items q = [] \<or> follows (last (items q)) a"
    using Cons.prems(3) by (auto simp: successively_append_iff)
  then obtain q1 where q1: "enq a q = Some q1" "ok q1" "cap q1 = cap q"
    "items q1 = take_last (cap q) (items q @ [a])"
    using enq_ok [OF Cons.prems(1), of a] Cons.prems(2) by auto
  have "successively follows (take_last (cap q) (items q @ [a]) @ as)"
  proof -
    have "successively follows (drop (length (items q @ [a]) - cap q) ((items q @ [a]) @ as))"
      using Cons.prems(3) by (intro successively_drop) simp
    then show ?thesis by (cases "cap q") (simp_all add: take_last_def)
  qed
  then show ?case
    using Cons.IH [OF q1(2)] q1 Cons.prems(2) by simp
qed

end

text \<open>The buffer of an observation is such a queue for samples of the type it holds.\<close>

definition queue_ok :: "io_DataType_t \<Rightarrow> Observation_t \<times> nat \<Rightarrow> bool" where
  "queue_ok t q \<longleftrightarrow> buffer_ok (fst q) (snd q) \<and> o_bufferedType (fst q) = t
     \<and> length (contents q) \<le> o_maxCount (fst q)"

interpretation buffer: bounded_queue "buffer_sample t" contents "\<lambda>q. o_maxCount (fst q)" "queue_ok t"
  "sample_ok t" "\<lambda>a b. \<not> older b a" for t
proof unfold_locales
  fix q a
  assume q: "queue_ok t q" and a: "sample_ok t a"
  obtain ob n where [simp]: "q = (ob, n)" by force
  obtain ob' n' where r: "buffer_sample t a q = Some (ob', n')" "buffer_ok ob' n'"
    "ob' = with_list ob (o_sampleList ob')"
    "contents (ob', n') = (if in_order (contents q) a then take_last (o_maxCount ob) (contents q @ [a]) else contents q)"
    using buffer_sample_spec [of ob n a] q a by (auto simp: queue_ok_def contents_def)
  have t: "o_bufferedType ob' = o_bufferedType ob" "o_maxCount ob' = o_maxCount ob"
    using r(3) by (metis with_list_simps(3), metis with_list_simps(4))
  have "length (contents (ob', n')) \<le> o_maxCount ob'"
    using r(4) q t by (simp add: queue_ok_def)
  then show "\<exists>q'. buffer_sample t a q = Some q' \<and> queue_ok t q' \<and> o_maxCount (fst q') = o_maxCount (fst q) \<and>
      contents q' = (if contents q = [] \<or> \<not> older a (last (contents q))
        then take_last (o_maxCount (fst q)) (contents q @ [a]) else contents q)"
    using r(1,2,4) q t unfolding queue_ok_def in_order_def by (intro exI [of _ "(ob', n')"]) simp
qed (simp add: queue_ok_def)

text \<open>
  C17: of samples that are accepted one after another in the order of their times, the buffer holds
  the newest, as many as its maximum count, in order; and it stays well-formed.
\<close>

theorem buffer_newest:
  assumes "buffer_ok ob n" "length (o_sampleList ob) \<le> o_maxCount ob"
    "\<forall>s \<in> set ss. sample_ok (o_bufferedType ob) s"
    "successively (\<lambda>a b. \<not> older b a) (contents (ob, n) @ ss)"
  shows "\<exists>ob' n'. fold_option (buffer_sample (o_bufferedType ob)) ss (ob, n) = Some (ob', n')
    \<and> contents (ob', n') = take_last (o_maxCount ob) (contents (ob, n) @ ss) \<and> buffer_ok ob' n'"
proof -
  have "queue_ok (o_bufferedType ob) (ob, n)"
    using assms(1,2) by (simp add: queue_ok_def contents_def)
  from buffer.enq_all_newest [OF this assms(3,4)] show ?thesis
    by (auto simp: queue_ok_def)
qed

definition number_obs :: Observation_t where
  "number_obs = \<lparr> o_highLimit = NAN, o_lowLimit = NAN, o_changeBy = NAN, o_minPeriod = NAN,
     o_lastPushTime = 0, o_transformType = OBS_TRANSFORM_TYPE_NONE, o_maxCount = 2, o_count = 0,
     o_bufferedType = IO_DATA_TYPE_NUMERIC, o_backupPeriod = 0, o_lastBackupTime = 0,
     o_backupTimer = None, o_sampleList = [], o_readOpList = [], o_jsonExtraction = [] \<rparr>"

definition number_at :: "int \<Rightarrow> int \<Rightarrow> dataSample_Ref_t" where
  "number_at t v = \<lparr> timestamp = dbl_of_int t, sample_val = VNum (dbl_of_int v) \<rparr>"

lemma buffer_newest_witness:
  "\<exists>ob n. fold_option (buffer_sample IO_DATA_TYPE_NUMERIC) [number_at 1 5, number_at 2 7, number_at 3 6]
       (number_obs, 0) = Some (ob, n)
     \<and> contents (ob, n) = [number_at 2 7, number_at 3 6] \<and> buffer_ok ob n"
proof -
  have "successively (\<lambda>a b. \<not> older b a) [number_at 1 5, number_at 2 7, number_at 3 6]"
    by code_simp
  moreover have "\<forall>s \<in> set [number_at 1 5, number_at 2 7, number_at 3 6]. sample_ok IO_DATA_TYPE_NUMERIC s"
    by (simp add: sample_ok_def number_at_def)
  moreover have "buffer_ok number_obs 0"
    by (simp add: number_obs_def buffer_ok_def)
  moreover have "take_last 2 [number_at 1 5, number_at 2 7, number_at 3 6] = [number_at 2 7, number_at 3 6]"
    by (simp add: take_last_def)
  ultimately show ?thesis
    using buffer_newest [of number_obs 0 "[number_at 1 5, number_at 2 7, number_at 3 6]"]
    by (simp add: number_obs_def contents_def)
qed

subsection \<open>Search and aggregates\<close>

lemma FindLoop_dropWhile: "FindLoop t bs = dropWhile (\<lambda>b. \<not> dbl_ge (entry_time b) t) bs"
  by (induction bs) auto

lemma FindBufferEntry_suffix: "suffix (fst (FindBufferEntry L ob t clk)) (o_sampleList ob)"
  by (auto simp: FindBufferEntry_def FindLoop_dropWhile Let_def suffix_dropWhile split: prod.splits)

lemma successively_times_sorted:
  "successively (\<lambda>a b. \<not> older (snd b) (snd a)) bs \<Longrightarrow> \<forall>b \<in> set bs. \<not> isnan (entry_time b) \<Longrightarrow>
   sorted_wrt (\<lambda>a b. dbl_le (entry_time a) (entry_time b)) bs"
proof (induction bs)
  case (Cons b bs)
  then have IH: "sorted_wrt (\<lambda>a b. dbl_le (entry_time a) (entry_time b)) bs"
    by (cases bs) auto
  show ?case
  proof (cases bs)
    case (Cons c cs)
    then have "dbl_le (entry_time b) (entry_time c)"
      using Cons.prems by (simp add: older_def entry_time_def dbl_le_not_lt)
    then show ?thesis using IH Cons dbl_le_trans by auto
  qed simp
qed simp

lemma dropWhile_sorted_filter:
  assumes "sorted_wrt (\<lambda>a b. dbl_le (entry_time a) (entry_time b)) bs"
  shows "dropWhile (\<lambda>b. \<not> dbl_ge (entry_time b) t) bs = filter (\<lambda>b. dbl_ge (entry_time b) t) bs"
  using assms
proof (induction bs)
  case (Cons b bs)
  show ?case
  proof (cases "dbl_ge (entry_time b) t")
    case True
    then have "\<forall>c \<in> set bs. dbl_ge (entry_time c) t"
      using Cons.prems dbl_le_trans [OF True] by auto
    then show ?thesis using True by simp
  qed (use Cons in simp)
qed simp

text \<open>
  The search for a start time gives the whole buffer for \<open>NAN\<close>, and otherwise exactly the samples
  that are not older than the start time, where a number of at most thirty years counts back from
  now.
\<close>

theorem FindBufferEntry_filter:
  assumes "buffer_ok ob n" "\<forall>b \<in> set (o_sampleList ob). \<not> isnan (entry_time b)"
  shows "fst (FindBufferEntry L ob t clk) =
    (if isnan t then o_sampleList ob
     else filter (\<lambda>b. dbl_ge (entry_time b)
            (if dbl_le t THIRTY_YEARS
             then dbl_sub (dbl_add (dbl_div (dbl_of_int (snd (clk_absolute L clk))) (dbl_of_int 1000000))
                                   (dbl_of_int (fst (clk_absolute L clk)))) t
             else t)) (o_sampleList ob))"
proof -
  have "sorted_wrt (\<lambda>a b. dbl_le (entry_time a) (entry_time b)) (o_sampleList ob)"
    using assms by (intro successively_times_sorted) (simp_all add: buffer_ok_def)
  from dropWhile_sorted_filter [OF this] show ?thesis
    by (auto simp: FindBufferEntry_def FindLoop_dropWhile split: prod.splits)
qed

lemma FindBufferEntry_filter_witness:
  "fst (FindBufferEntry sample_legato
      (with_list number_obs [(0, number_at 1000000000 5), (1, number_at 1000000002 7)]) (dbl_of_int 1000000001) 0)
   = [(1, number_at 1000000002 7)]"
proof -
  have "buffer_ok (with_list number_obs [(0, number_at 1000000000 5), (1, number_at 1000000002 7)]) 2"
    unfolding buffer_ok_def by code_simp
  moreover have "\<forall>b \<in> set (o_sampleList (with_list number_obs
      [(0, number_at 1000000000 5), (1, number_at 1000000002 7)])). \<not> isnan (entry_time b)"
    by code_simp
  moreover have "\<not> isnan (dbl_of_int 1000000001)" "\<not> dbl_le (dbl_of_int 1000000001) THIRTY_YEARS"
    by code_simp+
  moreover have "\<not> dbl_ge (entry_time (0, number_at 1000000000 5)) (dbl_of_int 1000000001)"
    "dbl_ge (entry_time (1, number_at 1000000002 7)) (dbl_of_int 1000000001)"
    by code_simp+
  ultimately show ?thesis
    by (subst FindBufferEntry_filter) simp_all
qed

text \<open>
  A loop that keeps the best of the numbers it sees, for an order on numbers whose negation is
  transitive. Numbers that are \<open>NAN\<close> do not count.
\<close>

definition number_of :: "io_DataType_t \<Rightarrow> BufferEntry_t \<Rightarrow> double" where
  "number_of t b = (case GetBufferedNumber b t of Some v \<Rightarrow> v | None \<Rightarrow> NAN)"

definition numbers :: "io_DataType_t \<Rightarrow> BufferEntry_t list \<Rightarrow> double list" where
  "numbers t bs = filter (\<lambda>v. \<not> isnan v) (map (number_of t) bs)"

lemma GetBufferedNumber_typed:
  "aggregates t \<Longrightarrow> sample_ok t (snd b) \<Longrightarrow> GetBufferedNumber b t = Some (number_of t b)"
  by (auto simp: aggregates_def GetBufferedNumber_def number_of_def sample_ok_def
      dataSample_GetNumeric_def dataSample_GetBoolean_def)

locale best_of =
  fixes loop :: "io_DataType_t \<Rightarrow> BufferEntry_t list \<Rightarrow> double \<Rightarrow> double option"
    and better :: "double \<Rightarrow> double \<Rightarrow> bool"
  assumes loop_Nil: "loop t [] r = Some r"
    and loop_Cons: "loop t (b # bs) r = Option.bind (GetBufferedNumber b t)
      (\<lambda>v. loop t bs (if \<not> isnan v \<and> (isnan r \<or> better v r) then v else r))"
    and better_irrefl: "\<not> better v v"
    and better_chain: "\<not> isnan u \<Longrightarrow> \<not> isnan w \<Longrightarrow> \<not> isnan x \<Longrightarrow>
      \<not> better u w \<Longrightarrow> \<not> better w x \<Longrightarrow> \<not> better u x"
    and better_asym: "better u w \<Longrightarrow> \<not> better w u"
begin

lemma loop_from:
  assumes "\<forall>b \<in> set bs. GetBufferedNumber b t = Some (number_of t b)" "\<not> isnan r"
  shows "\<exists>r'. loop t bs r = Some r' \<and> \<not> isnan r' \<and> r' \<in> set (r # numbers t bs) \<and>
    (\<forall>v \<in> set (r # numbers t bs). \<not> better v r')"
  using assms
proof (induction bs arbitrary: r)
  case Nil
  then show ?case by (simp add: loop_Nil numbers_def better_irrefl)
next
  case (Cons b bs)
  define v where "v = number_of t b"
  define r1 where "r1 = (if \<not> isnan v \<and> better v r then v else r)"
  have r1: "\<not> isnan r1" using Cons.prems(2) by (simp add: r1_def)
  obtain r' where r': "loop t bs r1 = Some r'" "\<not> isnan r'" "r' \<in> set (r1 # numbers t bs)"
    "\<forall>v \<in> set (r1 # numbers t bs). \<not> better v r'"
    using Cons.IH [OF _ r1] Cons.prems(1) by auto
  have "loop t (b # bs) r = Some r'"
    using r'(1) Cons.prems unfolding r1_def v_def by (simp add: loop_Cons cong: if_cong)
  moreover have "\<not> better r r1"
    using better_asym better_irrefl by (auto simp: r1_def)
  then have "\<not> better r r'"
    using better_chain [of r r1 r'] r1 r' Cons.prems(2) by auto
  moreover have "\<not> isnan v \<Longrightarrow> \<not> better v r1"
    using better_irrefl by (auto simp: r1_def)
  then have "\<not> isnan v \<Longrightarrow> \<not> better v r'"
    using better_chain [of v r1 r'] r1 r' by auto
  ultimately show ?case
    using r' by (auto simp: numbers_def v_def [symmetric] r1_def split: if_splits)
qed

lemma loop_best:
  assumes "\<forall>b \<in> set bs. GetBufferedNumber b t = Some (number_of t b)" "isnan r"
  shows "\<exists>r'. loop t bs r = Some r' \<and>
    (if numbers t bs = [] then isnan r'
     else r' \<in> set (numbers t bs) \<and> (\<forall>v \<in> set (numbers t bs). \<not> better v r'))"
  using assms
proof (induction bs)
  case (Cons b bs)
  show ?case
  proof (cases "isnan (number_of t b)")
    case True
    then have n: "numbers t (b # bs) = numbers t bs" by (simp add: numbers_def)
    then show ?thesis using Cons True unfolding n by (simp add: loop_Cons)
  next
    case False
    then have n: "numbers t (b # bs) = number_of t b # numbers t bs" by (simp add: numbers_def)
    have "loop t (b # bs) r = loop t bs (number_of t b)"
      using Cons.prems False by (simp add: loop_Cons)
    then show ?thesis
      using loop_from [OF _ False, of bs t] Cons.prems unfolding n by auto
  qed
qed (simp add: loop_Nil numbers_def)

end

interpretation least: best_of MinLoop "\<lambda>v r. dbl_gt r v"
  by unfold_locales (auto simp: dbl_lt_def)

interpretation greatest: best_of MaxLoop "\<lambda>v r. dbl_lt r v"
  by unfold_locales (auto simp: dbl_lt_def)

lemma numbers_not_nan: "v \<in> set (numbers t bs) \<Longrightarrow> \<not> isnan v"
  by (auto simp: numbers_def)

lemma buffered_numbers_typed:
  assumes "buffer_ok ob n" "aggregates (o_bufferedType ob)" "suffix bs (o_sampleList ob)"
  shows "\<forall>b \<in> set bs. GetBufferedNumber b (o_bufferedType ob) = Some (number_of (o_bufferedType ob) b)"
proof
  fix b
  assume "b \<in> set bs"
  then have "sample_ok (o_bufferedType ob) (snd b)"
    using assms(1) set_mono_suffix [OF assms(3)] by (auto simp: buffer_ok_def)
  then show "GetBufferedNumber b (o_bufferedType ob) = Some (number_of (o_bufferedType ob) b)"
    by (rule GetBufferedNumber_typed [OF assms(2)])
qed

text \<open>
  The minimum and the maximum over the samples from a start time on are numbers of the buffer
  that no other is below or above; both are \<open>NAN\<close> when there is no number.
\<close>

theorem QueryMinMax_correct:
  assumes "buffer_ok ob n" "aggregates (o_bufferedType ob)"
    "bs = fst (FindBufferEntry L ob t clk)" "vs = numbers (o_bufferedType ob) bs"
  shows "\<exists>mn mx. QueryMin L ob t clk = Some (mn, snd (FindBufferEntry L ob t clk))
    \<and> QueryMax L ob t clk = Some (mx, snd (FindBufferEntry L ob t clk))
    \<and> (if vs = [] then isnan mn \<and> isnan mx
       else mn \<in> set vs \<and> mx \<in> set vs \<and> (\<forall>v \<in> set vs. dbl_le mn v \<and> dbl_le v mx))"
proof -
  have typed: "\<forall>b \<in> set bs. GetBufferedNumber b (o_bufferedType ob) = Some (number_of (o_bufferedType ob) b)"
    using buffered_numbers_typed [OF assms(1,2)] FindBufferEntry_suffix assms(3) by blast
  obtain mn where mn: "MinLoop (o_bufferedType ob) bs NAN = Some mn"
    "if vs = [] then isnan mn else mn \<in> set vs \<and> (\<forall>v \<in> set vs. \<not> dbl_gt mn v)"
    using least.loop_best [OF typed isnan_NAN] assms(4) by auto
  obtain mx where mx: "MaxLoop (o_bufferedType ob) bs NAN = Some mx"
    "if vs = [] then isnan mx else mx \<in> set vs \<and> (\<forall>v \<in> set vs. \<not> dbl_lt mx v)"
    using greatest.loop_best [OF typed isnan_NAN] assms(4) by auto
  have "\<forall>v \<in> set vs. \<not> isnan v" using numbers_not_nan assms(4) by blast
  then show ?thesis
    using mn mx assms(2,3)
    by (cases "FindBufferEntry L ob t clk") (auto simp: QueryMin_def QueryMax_def dbl_le_not_lt)
qed

lemma QueryMinMax_correct_witness:
  "\<exists>mn mx. QueryMin sample_legato (with_list number_obs [(0, number_at 1 5), (1, number_at 2 7)]) NAN 0 = Some (mn, 0)
     \<and> QueryMax sample_legato (with_list number_obs [(0, number_at 1 5), (1, number_at 2 7)]) NAN 0 = Some (mx, 0)
     \<and> (\<forall>v \<in> {dbl_of_int 5, dbl_of_int 7}. dbl_le mn v \<and> dbl_le v mx)"
proof -
  define ob where "ob = with_list number_obs [(0, number_at 1 5), (1, number_at 2 7)]"
  have ok: "buffer_ok ob 2"
    unfolding buffer_ok_def ob_def by code_simp
  have t: "o_bufferedType ob = IO_DATA_TYPE_NUMERIC"
    by (simp add: ob_def number_obs_def)
  have f: "FindBufferEntry sample_legato ob NAN 0 = ([(0, number_at 1 5), (1, number_at 2 7)], 0)"
    by (simp add: FindBufferEntry_def ob_def)
  have n: "numbers IO_DATA_TYPE_NUMERIC [(0, number_at 1 5), (1, number_at 2 7)] = [dbl_of_int 5, dbl_of_int 7]"
    by code_simp
  show ?thesis
    using QueryMinMax_correct [OF ok _ refl refl, of sample_legato NAN 0] t f n
    unfolding ob_def [symmetric] by (simp add: aggregates_def) blast
qed

lemma SumLoop_numbers:
  "\<forall>b \<in> set bs. GetBufferedNumber b t = Some (number_of t b) \<Longrightarrow>
   SumLoop t bs s k = Some (foldl dbl_add s (numbers t bs), k + length (numbers t bs))"
  by (induction bs arbitrary: s k) (auto simp: numbers_def)

lemma SquaresLoop_numbers:
  "\<forall>b \<in> set bs. GetBufferedNumber b t = Some (number_of t b) \<Longrightarrow>
   SquaresLoop t m bs s =
     Some (foldl dbl_add s (map (\<lambda>v. dbl_mul (dbl_sub v m) (dbl_sub v m)) (numbers t bs)))"
  by (induction bs arbitrary: s) (auto simp: numbers_def Let_def)

text \<open>
  C31: the mean is the floating point sum of the numbers from the start time on, oldest first, over
  how many there are, and the standard deviation the square root of the mean squared difference from
  it; both are \<open>NAN\<close> when there is no number. (The squared differences are over all numbers: it is
  the deviation of the population.)
\<close>

theorem QueryMean_StdDev_correct:
  assumes "buffer_ok ob n" "aggregates (o_bufferedType ob)"
    "vs = numbers (o_bufferedType ob) (fst (FindBufferEntry L ob t clk))"
    "m = (if vs = [] then NAN else dbl_div (foldl dbl_add (dbl_of_int 0) vs) (dbl_of_int (int (length vs))))"
  shows "QueryMean L ob t clk = Some (m, snd (FindBufferEntry L ob t clk))
    \<and> QueryStdDev L ob t clk =
        Some (if vs = [] then NAN
              else dbl_sqrt (dbl_div
                (foldl dbl_add (dbl_of_int 0) (map (\<lambda>v. dbl_mul (dbl_sub v m) (dbl_sub v m)) vs))
                (dbl_of_int (int (length vs)))), snd (FindBufferEntry L ob t clk))"
proof -
  have typed: "\<forall>b \<in> set (fst (FindBufferEntry L ob t clk)).
      GetBufferedNumber b (o_bufferedType ob) = Some (number_of (o_bufferedType ob) b)"
    using buffered_numbers_typed [OF assms(1,2) FindBufferEntry_suffix] .
  have e: "fst (FindBufferEntry L ob t clk) = [] \<Longrightarrow> vs = []"
    by (simp add: assms(3) numbers_def)
  show ?thesis
    using SumLoop_numbers [OF typed] SquaresLoop_numbers [OF typed] assms(2) e
    by (cases "FindBufferEntry L ob t clk")
      (simp add: QueryMean_def QueryStdDev_def assms(3,4) Let_def)
qed

lemma QueryMean_StdDev_correct_witness:
  "QueryMean sample_legato (with_list number_obs [(0, number_at 1 5), (1, number_at 2 7)]) NAN 0
     = Some (dbl_of_int 6, 0)
   \<and> QueryStdDev sample_legato (with_list number_obs [(0, number_at 1 5), (1, number_at 2 7)]) NAN 0
     = Some (dbl_of_int 1, 0)"
proof -
  define ob where "ob = with_list number_obs [(0, number_at 1 5), (1, number_at 2 7)]"
  have ok: "buffer_ok ob 2"
    unfolding buffer_ok_def ob_def by code_simp
  have t: "o_bufferedType ob = IO_DATA_TYPE_NUMERIC"
    by (simp add: ob_def number_obs_def)
  have f: "FindBufferEntry sample_legato ob NAN 0 = ([(0, number_at 1 5), (1, number_at 2 7)], 0)"
    by (simp add: FindBufferEntry_def ob_def)
  define vs where "vs = [dbl_of_int 5, dbl_of_int 7]"
  have n: "numbers IO_DATA_TYPE_NUMERIC [(0, number_at 1 5), (1, number_at 2 7)] = vs"
    unfolding vs_def by code_simp
  have e: "(vs = []) = False" by (simp add: vs_def)
  have m: "dbl_div (foldl dbl_add (dbl_of_int 0) vs) (dbl_of_int (int (length vs))) = dbl_of_int 6"
    unfolding vs_def by code_simp
  have "dbl_mul (dbl_sub (dbl_of_int 5) (dbl_of_int 6)) (dbl_sub (dbl_of_int 5) (dbl_of_int 6)) = dbl_of_int 1"
    "dbl_mul (dbl_sub (dbl_of_int 7) (dbl_of_int 6)) (dbl_sub (dbl_of_int 7) (dbl_of_int 6)) = dbl_of_int 1"
    by code_simp+
  then have sq: "map (\<lambda>v. dbl_mul (dbl_sub v (dbl_of_int 6)) (dbl_sub v (dbl_of_int 6))) vs
      = [dbl_of_int 1, dbl_of_int 1]"
    by (simp only: vs_def list.map)
  have q: "dbl_sqrt (dbl_div (foldl dbl_add (dbl_of_int 0)
        (map (\<lambda>v. dbl_mul (dbl_sub v (dbl_of_int 6)) (dbl_sub v (dbl_of_int 6))) vs))
      (dbl_of_int (int (length vs)))) = dbl_of_int 1"
    unfolding sq unfolding vs_def by code_simp
  have a: "aggregates (o_bufferedType ob)" by (simp add: t aggregates_def)
  have "m' = dbl_of_int 6 \<Longrightarrow> QueryMean sample_legato ob NAN 0 = Some (m', 0) \<and>
      QueryStdDev sample_legato ob NAN 0 = Some (dbl_of_int 1, 0)" for m'
    using QueryMean_StdDev_correct [OF ok a refl refl, of sample_legato NAN 0]
    by (simp only: f t fst_conv snd_conv n e if_False m q)
  then show ?thesis unfolding ob_def by blast
qed

end
