(* ===== verification/EntryTree.thy ===== *)
theory EntryTree
  imports HubState
begin

text \<open>
  The entries of the resource tree, the first half of
  \<open>src/apps/DataHub/components/dataHub/resTree.c\<close>: adding and finding entries, walking along a path,
  printing the path of an entry, and the release of an entry with its reference count.

  Every entry holds a reference on its parent, and the module that made an entry a resource, or asked
  for it, holds one on the entry. The memory block of an entry is freed, and the entry taken out of
  the tree, when its count falls to zero.
\<close>

definition HUB_MAX_ENTRY_NAME_BYTES :: "legato \<Rightarrow> nat" where
  "HUB_MAX_ENTRY_NAME_BYTES L = app_name_len L + 1"

definition HUB_MAX_RESOURCE_PATH_BYTES :: nat where
  "HUB_MAX_RESOURCE_PATH_BYTES = 80"

subsection \<open>Children\<close>

fun find_child :: "hub \<Rightarrow> eid list \<Rightarrow> string \<Rightarrow> eid option option" where
  "find_child h [] name = Some None"
| "find_child h (c # cs) name = do {
     x \<leftarrow> entries h c;
     if name = e_name x then Some (Some c) else find_child h cs name
   }"

definition resTree_FindChild :: "hub \<Rightarrow> eid \<Rightarrow> string \<Rightarrow> eid option option" where
  "resTree_FindChild h ns name = do {
     x \<leftarrow> entries h ns;
     find_child h (e_childList x) name
   }"

text \<open>A new namespace entry under a parent, which must not have a child of that name.\<close>

definition AddChild :: "legato \<Rightarrow> eid \<Rightarrow> string \<Rightarrow> hub \<Rightarrow> (eid \<times> hub) option" where
  "AddChild L parent name h = do {
     let (_, copied) = utf8_Copy L name (HUB_MAX_ENTRY_NAME_BYTES L);
     let n = nextEntry h;
     c \<leftarrow> resTree_FindChild h parent name;
     le_assert (c = None);
     p \<leftarrow> entries h parent;
     let entry = \<lparr> e_parentPtr = Some parent, e_name = copied, e_childList = [],
                   e_type = ADMIN_ENTRY_TYPE_NAMESPACE, e_resourcePtr = None, e_refCount = 1 \<rparr>;
     let p' = p\<lparr>e_childList := e_childList p @ [n], e_refCount := e_refCount p + 1\<rparr>;
     Some (n, put_entry n entry (put_entry parent p' (h\<lparr>nextEntry := n + 1\<rparr>)))
   }"

definition resTree_GetFirstChild :: "hub \<Rightarrow> eid \<Rightarrow> eid option option" where
  "resTree_GetFirstChild h e = do {
     x \<leftarrow> entries h e;
     Some (case e_childList x of [] \<Rightarrow> None | c # _ \<Rightarrow> Some c)
   }"

definition resTree_GetNextSibling :: "hub \<Rightarrow> eid \<Rightarrow> eid option option" where
  "resTree_GetNextSibling h e = do {
     x \<leftarrow> entries h e;
     case e_parentPtr x of
       None \<Rightarrow> Some None
     | Some p \<Rightarrow> do {
         y \<leftarrow> entries h p;
         Some (next_in (e_childList y) e)
       }
   }"

subsection \<open>Release\<close>

text \<open>
  \<open>le_mem_Release\<close> of an entry with \<open>EntryDestructor\<close>: at a count of zero the entry must have a parent
  and neither children nor a resource; it is taken off its parent's list, freed, and its reference on
  the parent released. Each step frees an entry, so that as many steps as there were entries are
  enough.
\<close>

fun release_entry :: "nat \<Rightarrow> eid \<Rightarrow> hub \<Rightarrow> hub option" where
  "release_entry 0 e h = None"
| "release_entry (Suc k) e h = do {
     x \<leftarrow> entries h e;
     le_assert (e_refCount x > 0);
     if e_refCount x > 1 then Some (put_entry e (x\<lparr>e_refCount := e_refCount x - 1\<rparr>) h)
     else do {
       p \<leftarrow> e_parentPtr x;
       le_assert (e_childList x = []);
       le_assert (e_resourcePtr x = None);
       y \<leftarrow> entries h p;
       let h' = put_entry p (y\<lparr>e_childList := remove1 e (e_childList y)\<rparr>) h;
       release_entry k p (h'\<lparr>entries := (entries h')(e := None)\<rparr>)
     }
   }"

definition Release_Entry :: "eid \<Rightarrow> hub \<Rightarrow> hub option" where
  "Release_Entry e h = release_entry (nextEntry h) e h"

subsection \<open>Paths\<close>

definition illegal_in_path :: "char \<Rightarrow> bool" where
  "illegal_in_path c = (c = CHR ''.'' \<or> c = CHR ''['' \<or> c = CHR '']'')"

function GoToEntryLoop ::
  "legato \<Rightarrow> eid \<Rightarrow> string \<Rightarrow> bool \<Rightarrow> hub \<Rightarrow> (eid option \<times> hub) option" where
  "GoToEntryLoop L currentEntry path doCreate h =
     (if path = [] then Some (Some currentEntry, h)
      else
        let p = (if char_at path = Some (CHR ''/'') then tl path else path);
            entryName = takeWhile (\<lambda>c. c \<noteq> CHR ''/'') p;
            rest = dropWhile (\<lambda>c. c \<noteq> CHR ''/'') p
        in if entryName = [] then Some (None, h)
           else if length entryName \<ge> HUB_MAX_ENTRY_NAME_BYTES L then Some (None, h)
           else
             case resTree_FindChild h currentEntry entryName of
               None \<Rightarrow> None
             | Some (Some child) \<Rightarrow> GoToEntryLoop L child rest doCreate h
             | Some None \<Rightarrow>
                 if doCreate then
                   case AddChild L currentEntry entryName h of
                     None \<Rightarrow> None
                   | Some (child, h') \<Rightarrow> GoToEntryLoop L child rest doCreate h'
                 else Some (None, h))"
  by pat_completeness auto

lemma path_rest_shorter:
  assumes "path \<noteq> []" "takeWhile P (if c then tl path else path) \<noteq> []"
  shows "length (dropWhile P (if c then tl path else path)) < length path"
proof -
  let ?p = "if c then tl path else path"
  have "length (dropWhile P ?p) < length ?p"
    using assms(2) by (cases ?p) (auto intro: le_imp_less_Suc length_dropWhile_le split: if_splits)
  moreover have "length ?p \<le> length path" by simp
  ultimately show ?thesis by linarith
qed

termination GoToEntryLoop
proof (relation "measure (\<lambda>(_, _, path, _, _). length path)", goal_cases)
  case 1
  then show ?case by simp
next
  case (2 L cur path doCreate h p name rest)
  then show ?case
    using path_rest_shorter [of path "\<lambda>c. c \<noteq> CHR ''/''" "char_at path = Some (CHR ''/'')"] by simp
next
  case (3 L cur path doCreate h p name rest)
  then show ?case
    using path_rest_shorter [of path "\<lambda>c. c \<noteq> CHR ''/''" "char_at path = Some (CHR ''/'')"] by simp
qed

declare GoToEntryLoop.simps [simp del]

definition GoToEntry ::
  "legato \<Rightarrow> eid \<Rightarrow> string \<Rightarrow> bool \<Rightarrow> hub \<Rightarrow> (eid option \<times> hub) option" where
  "GoToEntry L baseNamespace path doCreate h =
     (if \<exists>c \<in> set path. illegal_in_path c then Some (None, h)
      else GoToEntryLoop L baseNamespace path doCreate h)"

definition resTree_FindEntry :: "legato \<Rightarrow> hub \<Rightarrow> eid \<Rightarrow> string \<Rightarrow> eid option option" where
  "resTree_FindEntry L h baseNamespace path =
     map_option fst (GoToEntry L baseNamespace path False h)"

definition resTree_FindEntryAtAbsolutePath :: "legato \<Rightarrow> hub \<Rightarrow> string \<Rightarrow> eid option option" where
  "resTree_FindEntryAtAbsolutePath L h path =
     (if char_at path \<noteq> Some (CHR ''/'') then Some None
      else resTree_FindEntry L h (resTree_GetRoot h) (tl path))"

definition resTree_GetEntry ::
  "legato \<Rightarrow> eid \<Rightarrow> string \<Rightarrow> hub \<Rightarrow> (eid option \<times> hub) option" where
  "resTree_GetEntry L baseNamespace path h = GoToEntry L baseNamespace path True h"

text \<open>
  The path of an entry: an error or the number of bytes written, and what the buffer of the given
  size holds. The recursion goes from parent to parent, and so is bounded by the number of entries.
\<close>

fun get_path ::
  "legato \<Rightarrow> nat \<Rightarrow> nat \<Rightarrow> eid \<Rightarrow> eid \<Rightarrow> hub \<Rightarrow> ((le_result_t + nat) \<times> string) option" where
  "get_path L 0 buffSize base e h = None"
| "get_path L (Suc k) buffSize base e h =
     (if e = base then (if buffSize > 0 then Some (Inr 0, []) else None)
      else do {
        x \<leftarrow> entries h e;
        if e_parentPtr x = Some base then
          (let (pre, n) = (if base = RootPtr h then (''/'', 1) else ([], 0));
               (r0, s0) = (if base = RootPtr h then utf8_Copy L ''/'' buffSize else (LE_OK, []));
               (r1, s1) = utf8_Copy L (e_name x) (buffSize - n)
           in if r0 \<noteq> LE_OK then Some (Inl LE_OVERFLOW, s0)
              else if r1 \<noteq> LE_OK then Some (Inl LE_OVERFLOW, pre @ s1)
              else Some (Inr (n + length s1), pre @ s1))
        else if e = RootPtr h then Some (Inl LE_NOT_FOUND, [])
        else do {
          p \<leftarrow> e_parentPtr x;
          (result, s) \<leftarrow> get_path L k buffSize base p h;
          case result of
            Inl err \<Rightarrow> Some (Inl err, s)
          | Inr len \<Rightarrow>
              let (r1, s1) = utf8_Copy L ''/'' (buffSize - len);
                  (r2, s2) = utf8_Copy L (e_name x) (buffSize - len - length s1)
              in if r1 \<noteq> LE_OK then Some (Inl LE_OVERFLOW, s @ s1)
                 else if r2 \<noteq> LE_OK then Some (Inl LE_OVERFLOW, s @ s1 @ s2)
                 else Some (Inr (len + length s1 + length s2), s @ s1 @ s2)
        }
      })"

definition resTree_GetPath ::
  "legato \<Rightarrow> hub \<Rightarrow> nat \<Rightarrow> eid \<Rightarrow> eid \<Rightarrow> ((le_result_t + nat) \<times> string) option" where
  "resTree_GetPath L h stringBuffSize baseNamespace entryRef =
     get_path L (Suc (nextEntry h)) stringBuffSize baseNamespace entryRef h"

subsection \<open>Well-formed trees\<close>

definition name_ok :: "legato \<Rightarrow> string \<Rightarrow> bool" where
  "name_ok L n \<longleftrightarrow>
     n \<noteq> [] \<and> length n < HUB_MAX_ENTRY_NAME_BYTES L \<and> CHR ''/'' \<notin> set n \<and> (\<forall>c \<in> set n. \<not> illegal_in_path c)"

definition name_of :: "hub \<Rightarrow> eid \<Rightarrow> string" where
  "name_of h e = (case entries h e of None \<Rightarrow> [] | Some x \<Rightarrow> e_name x)"

text \<open>
  The children of an entry are distinct live entries with distinct legal names that name it as
  their parent; every entry but the root is a child of an older entry; the reference count of an
  entry covers its children.
\<close>

definition children_ok :: "legato \<Rightarrow> hub \<Rightarrow> eid \<Rightarrow> eid list \<Rightarrow> bool" where
  "children_ok L h e cs \<longleftrightarrow>
     distinct cs \<and> inj_on (name_of h) (set cs) \<and>
     (\<forall>c \<in> set cs. \<exists>y. entries h c = Some y \<and> e_parentPtr y = Some e \<and> name_ok L (e_name y))"

definition parent_ok :: "hub \<Rightarrow> eid \<Rightarrow> Entry_t \<Rightarrow> bool" where
  "parent_ok h e x \<longleftrightarrow>
     (if e = RootPtr h then e_parentPtr x = None
      else \<exists>p y. e_parentPtr x = Some p \<and> p < e \<and> entries h p = Some y \<and> e \<in> set (e_childList y))"

definition tree_ok :: "legato \<Rightarrow> hub \<Rightarrow> bool" where
  "tree_ok L h \<longleftrightarrow>
     entries h (RootPtr h) \<noteq> None \<and>
     (\<forall>e x. entries h e = Some x \<longrightarrow>
        e < nextEntry h \<and> children_ok L h e (e_childList x) \<and> parent_ok h e x \<and>
        length (e_childList x) \<le> e_refCount x \<and> 0 < e_refCount x)"

lemma tree_okD:
  assumes "tree_ok L h" "entries h e = Some x"
  shows "e < nextEntry h" "children_ok L h e (e_childList x)" "parent_ok h e x"
    "length (e_childList x) \<le> e_refCount x" "0 < e_refCount x"
  using assms by (auto simp: tree_ok_def)

lemma tree_ok_parent:
  assumes "tree_ok L h" "entries h e = Some x" "e \<noteq> RootPtr h"
  obtains p y where "e_parentPtr x = Some p" "p < e" "entries h p = Some y" "e \<in> set (e_childList y)"
    "name_ok L (e_name x)"
proof -
  obtain p y where p: "e_parentPtr x = Some p" "p < e" "entries h p = Some y" "e \<in> set (e_childList y)"
    using tree_okD(3) [OF assms(1,2)] assms(3) by (auto simp: parent_ok_def)
  moreover have "name_ok L (e_name x)"
    using tree_okD(2) [OF assms(1) p(3)] p(4) assms(2) by (auto simp: children_ok_def)
  ultimately show thesis using that by blast
qed

lemma children_okD:
  "children_ok L h e cs \<Longrightarrow> c \<in> set cs \<Longrightarrow>
   \<exists>y. entries h c = Some y \<and> e_parentPtr y = Some e \<and> name_ok L (e_name y)"
  by (simp add: children_ok_def)

lemma find_child_eq:
  "\<forall>c \<in> set cs. entries h c \<noteq> None \<Longrightarrow> find_child h cs n = Some (find (\<lambda>c. n = name_of h c) cs)"
  by (induction cs) (auto simp: name_of_def)

lemma FindChild_eq:
  assumes "tree_ok L h" "entries h e = Some x"
  shows "resTree_FindChild h e n = Some (find (\<lambda>c. n = name_of h c) (e_childList x))"
proof -
  have "\<forall>c \<in> set (e_childList x). entries h c \<noteq> None"
    using tree_okD(2) [OF assms] by (auto simp: children_ok_def)
  then show ?thesis using assms(2) find_child_eq by (simp add: resTree_FindChild_def)
qed

lemma FindChild_child:
  assumes "tree_ok L h" "entries h e = Some x" "c \<in> set (e_childList x)"
  shows "resTree_FindChild h e (name_of h c) = Some (Some c)"
proof -
  have inj: "inj_on (name_of h) (set (e_childList x))"
    using tree_okD(2) [OF assms(1,2)] by (simp add: children_ok_def)
  obtain d where d: "find (\<lambda>d. name_of h c = name_of h d) (e_childList x) = Some d"
    using assms(3) by (cases "find (\<lambda>d. name_of h c = name_of h d) (e_childList x)")
      (auto simp: find_None_iff)
  then have "d \<in> set (e_childList x)" "name_of h c = name_of h d"
    by (auto simp: find_Some_iff)
  then have "d = c" using inj assms(3) by (auto simp: inj_on_def)
  then show ?thesis using d FindChild_eq [OF assms(1,2)] by simp
qed

lemma FindChild_Some:
  assumes "tree_ok L h" "entries h e = Some x" "resTree_FindChild h e n = Some (Some c)"
  shows "c \<in> set (e_childList x)" "name_of h c = n"
  using assms(3) FindChild_eq [OF assms(1,2)] by (auto simp: find_Some_iff)

lemma FindChild_None:
  assumes "tree_ok L h" "entries h e = Some x" "resTree_FindChild h e n = Some None"
  shows "\<forall>c \<in> set (e_childList x). name_of h c \<noteq> n"
  using assms(3) FindChild_eq [OF assms(1,2)] by (auto simp: find_None_iff)

text \<open>A state whose tree has grown: older entries keep their names, and children are only added.\<close>

definition grown :: "hub \<Rightarrow> hub \<Rightarrow> bool" where
  "grown h h' \<longleftrightarrow>
     RootPtr h' = RootPtr h \<and> nextEntry h \<le> nextEntry h' \<and>
     (\<forall>e x. entries h e = Some x \<longrightarrow>
        (\<exists>y cs. entries h' e = Some y \<and> e_name y = e_name x \<and> e_childList y = e_childList x @ cs
           \<and> e_type y = e_type x \<and> e_resourcePtr y = e_resourcePtr x \<and> e_parentPtr y = e_parentPtr x))"

lemma grown_refl [simp]: "grown h h"
  by (simp add: grown_def)

lemma grown_entry:
  assumes "grown h h'" "entries h e = Some x"
  obtains y cs where "entries h' e = Some y" "e_name y = e_name x" "e_childList y = e_childList x @ cs"
    "e_type y = e_type x" "e_resourcePtr y = e_resourcePtr x" "e_parentPtr y = e_parentPtr x"
  using assms unfolding grown_def by blast

lemma grown_trans:
  assumes "grown h h'" "grown h' h''"
  shows "grown h h''"
proof -
  have "\<exists>y cs. entries h'' e = Some y \<and> e_name y = e_name x \<and> e_childList y = e_childList x @ cs
      \<and> e_type y = e_type x \<and> e_resourcePtr y = e_resourcePtr x \<and> e_parentPtr y = e_parentPtr x"
    if "entries h e = Some x" for e x
  proof -
    obtain y cs where y: "entries h' e = Some y" "e_name y = e_name x" "e_childList y = e_childList x @ cs"
      "e_type y = e_type x" "e_resourcePtr y = e_resourcePtr x" "e_parentPtr y = e_parentPtr x"
      using grown_entry [OF assms(1) \<open>entries h e = Some x\<close>] by metis
    obtain z cs' where "entries h'' e = Some z" "e_name z = e_name y" "e_childList z = e_childList y @ cs'"
      "e_type z = e_type y" "e_resourcePtr z = e_resourcePtr y" "e_parentPtr z = e_parentPtr y"
      using grown_entry [OF assms(2) y(1)] by metis
    then show ?thesis using y by simp
  qed
  then show ?thesis using assms unfolding grown_def by simp
qed

lemma grown_live: "grown h h' \<Longrightarrow> entries h e \<noteq> None \<Longrightarrow> entries h' e \<noteq> None"
  unfolding grown_def by (metis option.exhaust option.simps(3))

lemma AddChild_ok:
  assumes "utf8_copy_ok L" "tree_ok L h" "entries h e = Some p" "name_ok L name"
    "resTree_FindChild h e name = Some None"
  shows "\<exists>h'. AddChild L e name h = Some (nextEntry h, h') \<and> tree_ok L h' \<and> grown h h'
    \<and> resTree_FindChild h' e name = Some (Some (nextEntry h)) \<and> entries h' (nextEntry h) \<noteq> None"
proof -
  define n where "n = nextEntry h"
  define x where "x = \<lparr> e_parentPtr = Some e, e_name = name, e_childList = [],
                   e_type = ADMIN_ENTRY_TYPE_NAMESPACE, e_resourcePtr = None, e_refCount = 1 \<rparr>"
  define p' where "p' = p\<lparr>e_childList := e_childList p @ [n], e_refCount := e_refCount p + 1\<rparr>"
  define H where "H = put_entry n x (put_entry e p' (h\<lparr>nextEntry := n + 1\<rparr>))"
  have fresh: "entries h n = None"
    using tree_okD(1) [OF assms(2), of n] by (cases "entries h n") (auto simp: n_def)
  have e: "e < n" using tree_okD(1) [OF assms(2,3)] by (simp add: n_def)
  have add: "AddChild L e name h = Some (n, H)"
    using assms by (simp add: AddChild_def Let_def name_ok_def H_def x_def p'_def n_def)
  have ent: "entries H = (entries h)(e \<mapsto> p', n \<mapsto> x)" "RootPtr H = RootPtr h" "nextEntry H = n + 1"
    by (simp_all add: H_def)
  have p': "e_childList p' = e_childList p @ [n]" "e_parentPtr p' = e_parentPtr p" "e_name p' = e_name p"
    "e_refCount p' = e_refCount p + 1" "e_type p' = e_type p" "e_resourcePtr p' = e_resourcePtr p"
    by (simp_all add: p'_def)
  have x: "e_childList x = []" "e_parentPtr x = Some e" "e_name x = name" "e_refCount x = 1"
    by (simp_all add: x_def)
  have nm: "name_of H c = name_of h c" if "c \<noteq> n" for c
    using that assms(3) p'(3) by (simp add: name_of_def ent)
  have nn: "name_of H n = name" by (simp add: name_of_def ent x)
  have live: "\<exists>z. entries H c = Some z \<and> e_parentPtr z = e_parentPtr y \<and> e_name z = e_name y"
    if "entries h c = Some y" for c y
    using that assms(3) fresh p' by (cases "c = n"; cases "c = e") (auto simp: ent)
  have gr: "grown h H"
    unfolding grown_def
  proof (intro conjI allI impI)
    fix c y assume y: "entries h c = Some y"
    then have "c \<noteq> n" using fresh by auto
    then show "\<exists>z cs. entries H c = Some z \<and> e_name z = e_name y \<and> e_childList z = e_childList y @ cs
           \<and> e_type z = e_type y \<and> e_resourcePtr z = e_resourcePtr y \<and> e_parentPtr z = e_parentPtr y"
      using y assms(3) p' by (cases "c = e") (auto simp: ent)
  qed (simp_all add: ent n_def)
  have ch: "children_ok L H d cs" if cs: "children_ok L h d cs" for d cs
  proof -
    have "c \<noteq> n" if "c \<in> set cs" for c
      using that cs fresh by (auto simp: children_ok_def)
    then have "inj_on (name_of H) (set cs) = inj_on (name_of h) (set cs)"
      using nm by (intro inj_on_cong) blast
    moreover have "\<exists>z. entries H c = Some z \<and> e_parentPtr z = Some d \<and> name_ok L (e_name z)"
      if c: "c \<in> set cs" for c
    proof -
      obtain y where y: "entries h c = Some y" "e_parentPtr y = Some d" "name_ok L (e_name y)"
        using children_okD [OF cs c] by blast
      show ?thesis using live [OF y(1)] y by metis
    qed
    ultimately show ?thesis
      using cs unfolding children_ok_def by blast
  qed
  have chp: "children_ok L H e (e_childList p @ [n])"
  proof -
    have old: "children_ok L H e (e_childList p)" using ch tree_okD(2) [OF assms(2,3)] by blast
    have new: "n \<notin> set (e_childList p)"
      using tree_okD(2) [OF assms(2,3)] fresh by (auto simp: children_ok_def)
    have "name \<notin> name_of H ` set (e_childList p)"
    proof
      assume "name \<in> name_of H ` set (e_childList p)"
      then obtain c where c: "c \<in> set (e_childList p)" "name_of H c = name" by blast
      then have "name_of H c = name_of h c" using new by (intro nm) auto
      then show False using c FindChild_None [OF assms(2,3,5)] by auto
    qed
    then show ?thesis
      using old assms(4) nn new unfolding children_ok_def by (simp add: ent x)
  qed
  have par: "parent_ok H d y" if zz: "entries h d = Some z" "e_parentPtr y = e_parentPtr z" for d y z
  proof (cases "d = RootPtr h")
    case True
    then show ?thesis
      using tree_okD(3) [OF assms(2) zz(1)] zz(2) by (simp add: parent_ok_def ent)
  next
    case False
    obtain q w where q: "e_parentPtr z = Some q" "q < d" "entries h q = Some w" "d \<in> set (e_childList w)"
      using tree_ok_parent [OF assms(2) zz(1) False] by metis
    then have "\<exists>w'. entries H q = Some w' \<and> d \<in> set (e_childList w')"
      using grown_entry [OF gr q(3)] by (metis UnI1 set_append)
    then show ?thesis using q(1,2) zz(2) False by (auto simp: parent_ok_def ent)
  qed
  have root: "RootPtr h \<noteq> n" using assms(2) fresh by (auto simp: tree_ok_def)
  have "d < nextEntry H \<and> children_ok L H d (e_childList y) \<and> parent_ok H d y \<and>
      length (e_childList y) \<le> e_refCount y \<and> 0 < e_refCount y" if dy: "entries H d = Some y" for d y
  proof -
    consider "d = n" "y = x" | "d = e" "d \<noteq> n" "y = p'" | "d \<noteq> e" "d \<noteq> n" "entries h d = Some y"
      using dy by (auto simp: ent split: if_splits)
    then show ?thesis
    proof cases
      case 1
      have "parent_ok H n x"
        using root e x(2) p'(1) by (simp add: parent_ok_def ent)
      then show ?thesis using 1 by (simp add: children_ok_def x ent)
    next
      case 2
      then show ?thesis
        using chp e par [OF assms(3), of p'] tree_okD(4) [OF assms(2,3)] by (simp add: p' ent)
    next
      case 3
      then show ?thesis using tree_okD [OF assms(2) 3(3)] ch par [OF 3(3)] by (simp add: ent n_def)
    qed
  qed
  moreover have "entries H (RootPtr H) \<noteq> None" using assms(2) by (simp add: ent tree_ok_def)
  ultimately have ok: "tree_ok L H" unfolding tree_ok_def by blast
  have "entries H e = Some p'" using e by (simp add: ent)
  then have "resTree_FindChild H e name = Some (Some n)"
    using FindChild_child [OF ok, of e p' n] nn p'(1) by simp
  then show ?thesis
    using add gr ok by (simp add: n_def [symmetric] ent)
qed

subsection \<open>Walking along a path\<close>

lemma GoToEntryLoop_step:
  assumes "path \<noteq> []" "p = (if char_at path = Some (CHR ''/'') then tl path else path)"
    "name = takeWhile (\<lambda>c. c \<noteq> CHR ''/'') p" "rest = dropWhile (\<lambda>c. c \<noteq> CHR ''/'') p"
    "name \<noteq> []" "length name < HUB_MAX_ENTRY_NAME_BYTES L"
  shows "GoToEntryLoop L e path b h =
    (case resTree_FindChild h e name of
       None \<Rightarrow> None
     | Some (Some child) \<Rightarrow> GoToEntryLoop L child rest b h
     | Some None \<Rightarrow> if b then case AddChild L e name h of
           None \<Rightarrow> None
         | Some (child, h') \<Rightarrow> GoToEntryLoop L child rest b h'
         else Some (None, h))"
  using assms(1,5,6) unfolding GoToEntryLoop.simps [of L e path b h] assms(2,3,4) Let_def by simp

lemma GoToEntryLoop_ok:
  assumes "utf8_copy_ok L" "tree_ok L h" "entries h e \<noteq> None" "\<forall>c \<in> set path. \<not> illegal_in_path c"
  shows "\<exists>r h'. GoToEntryLoop L e path b h = Some (r, h') \<and> tree_ok L h' \<and> grown h h' \<and>
    (\<not> b \<longrightarrow> h' = h) \<and>
    (\<forall>e'. r = Some e' \<longrightarrow> entries h' e' \<noteq> None \<and>
      (\<forall>h''. tree_ok L h'' \<and> grown h' h'' \<longrightarrow> GoToEntryLoop L e path False h'' = Some (Some e', h'')))"
  using assms
proof (induction L e path b h rule: GoToEntryLoop.induct)
  case (1 L e path b h)
  define p where "p = (if char_at path = Some (CHR ''/'') then tl path else path)"
  define name where "name = takeWhile (\<lambda>c. c \<noteq> CHR ''/'') p"
  define rest where "rest = dropWhile (\<lambda>c. c \<noteq> CHR ''/'') p"
  show ?case
  proof (cases "path = [] \<or> name = [] \<or> length name \<ge> HUB_MAX_ENTRY_NAME_BYTES L")
    case True
    then show ?thesis
    proof (cases "path = []")
      case True
      then show ?thesis
        using "1.prems" by (auto simp: GoToEntryLoop.simps [of L e path] GoToEntryLoop.simps [of L e "[]"])
    next
      case False
      with True have "GoToEntryLoop L e path b h = Some (None, h)"
        unfolding GoToEntryLoop.simps [of L e path b h] name_def p_def Let_def by auto
      then show ?thesis using "1.prems" by simp
    qed
  next
    case False
    then have ne: "path \<noteq> []" "name \<noteq> []" "length name < HUB_MAX_ENTRY_NAME_BYTES L" by auto
    note step = GoToEntryLoop_step [OF ne(1) p_def name_def rest_def ne(2,3)]
    note IH = "1.IH" [OF ne(1) p_def name_def rest_def ne(2)]
    have sub: "set p \<subseteq> set path" using p_def by (cases path) (auto split: if_splits)
    have legal: "\<forall>c \<in> set rest. \<not> illegal_in_path c" "name_ok L name"
      using "1.prems"(4) sub ne(2,3) set_dropWhileD [of _ _ p] set_takeWhileD [of _ _ p]
      unfolding rest_def name_def name_ok_def by blast+
    obtain x where x: "entries h e = Some x" using "1.prems"(3) by auto
    have later: "GoToEntryLoop L e path False h'' = GoToEntryLoop L child rest False h''"
      if lt: "tree_ok L h''" "resTree_FindChild h1 e name = Some (Some child)" "tree_ok L h1" "grown h1 h''"
        "entries h1 e \<noteq> None" for h1 h'' child
    proof -
      obtain x1 where x1: "entries h1 e = Some x1" using lt(5) by auto
      have c: "child \<in> set (e_childList x1)" "name_of h1 child = name"
        using FindChild_Some [OF lt(3) x1 lt(2)] by auto
      obtain x2 cs where x2: "entries h'' e = Some x2" "e_childList x2 = e_childList x1 @ cs"
        using grown_entry [OF lt(4) x1] by metis
      have "entries h1 child \<noteq> None"
        using tree_okD(2) [OF lt(3) x1] c(1) by (auto simp: children_ok_def)
      then obtain y where y: "entries h1 child = Some y" by auto
      obtain y2 where "entries h'' child = Some y2" "e_name y2 = e_name y"
        using grown_entry [OF lt(4) y] by metis
      then have "name_of h'' child = name" using y c(2) by (simp add: name_of_def)
      then have "resTree_FindChild h'' e name = Some (Some child)"
        using FindChild_child [OF lt(1) x2(1), of child] x2(2) c(1) by simp
      then show ?thesis using step [of e False h''] by simp
    qed
    show ?thesis
    proof (cases "find (\<lambda>c. name = name_of h c) (e_childList x)")
      case (Some child)
      then have f: "resTree_FindChild h e name = Some (Some child)"
        using FindChild_eq [OF "1.prems"(2) x] by simp
      have live: "entries h child \<noteq> None"
        using FindChild_Some(1) [OF "1.prems"(2) x f] tree_okD(2) [OF "1.prems"(2) x]
        by (auto simp: children_ok_def)
      have eq: "GoToEntryLoop L e path b h = GoToEntryLoop L child rest b h"
        using step f by simp
      obtain r h' where r: "GoToEntryLoop L child rest b h = Some (r, h')" "tree_ok L h'" "grown h h'"
        "\<not> b \<longrightarrow> h' = h"
        "\<forall>e'. r = Some e' \<longrightarrow> entries h' e' \<noteq> None \<and>
      (\<forall>h''. tree_ok L h'' \<and> grown h' h'' \<longrightarrow> GoToEntryLoop L child rest False h'' = Some (Some e', h''))"
        using IH(2) [OF _ f refl "1.prems"(1,2) live legal(1)] ne(3) by auto
      moreover have "GoToEntryLoop L e path False h'' = Some (Some e', h'')"
        if "r = Some e'" "tree_ok L h''" "grown h' h''" for e' h''
        using later [OF that(2) f "1.prems"(2) grown_trans [OF r(3) that(3)] "1.prems"(3)] r(5) that by simp
      ultimately show ?thesis using eq by auto
    next
      case None
      then have f: "resTree_FindChild h e name = Some None"
        using FindChild_eq [OF "1.prems"(2) x] by simp
      show ?thesis
      proof (cases b)
        case False
        then show ?thesis using step f "1.prems" by simp
      next
        case True
        obtain h1 where h1: "AddChild L e name h = Some (nextEntry h, h1)" "tree_ok L h1" "grown h h1"
          "resTree_FindChild h1 e name = Some (Some (nextEntry h))" "entries h1 (nextEntry h) \<noteq> None"
          using AddChild_ok [OF "1.prems"(1,2) x legal(2) f] by blast
        have eq: "GoToEntryLoop L e path b h = GoToEntryLoop L (nextEntry h) rest b h1"
          using step f True h1(1) by simp
        obtain r h' where r: "GoToEntryLoop L (nextEntry h) rest b h1 = Some (r, h')" "tree_ok L h'" "grown h1 h'"
          "\<forall>e'. r = Some e' \<longrightarrow> entries h' e' \<noteq> None \<and>
      (\<forall>h''. tree_ok L h'' \<and> grown h' h'' \<longrightarrow> GoToEntryLoop L (nextEntry h) rest False h'' = Some (Some e', h''))"
          using IH(1) [OF _ f refl True h1(1) refl "1.prems"(1) h1(2,5) legal(1)] ne(3) by auto
        have "GoToEntryLoop L e path False h'' = Some (Some e', h'')"
          if "r = Some e'" "tree_ok L h''" "grown h' h''" for e' h''
          using later [OF that(2) h1(4,2) grown_trans [OF r(3) that(3)] grown_live [OF h1(3) "1.prems"(3)]]
            r(4) that by simp
        then show ?thesis using eq r grown_trans [OF h1(3) r(3)] True by auto
      qed
    qed
  qed
qed

lemma GoToEntry_ok:
  assumes "utf8_copy_ok L" "tree_ok L h" "entries h e \<noteq> None"
  shows "\<exists>r h'. GoToEntry L e path b h = Some (r, h') \<and> tree_ok L h' \<and> grown h h' \<and>
    (\<not> b \<longrightarrow> h' = h) \<and>
    (\<forall>e'. r = Some e' \<longrightarrow> entries h' e' \<noteq> None \<and> resTree_FindEntry L h' e path = Some (Some e'))"
proof (cases "\<exists>c \<in> set path. illegal_in_path c")
  case True
  then show ?thesis using assms by (simp add: GoToEntry_def)
next
  case False
  then show ?thesis
    using GoToEntryLoop_ok [OF assms, of path b] grown_refl
    by (fastforce simp: GoToEntry_def resTree_FindEntry_def)
qed

text \<open>
  C24: asking for an entry at a path keeps the tree well-formed and everything that was in it, and
  finding that path afterwards leads to the entry that was returned.
\<close>

theorem GetEntry_find:
  assumes "utf8_copy_ok L" "tree_ok L h" "entries h e \<noteq> None"
  shows "\<exists>r h'. resTree_GetEntry L e path h = Some (r, h') \<and> tree_ok L h' \<and> grown h h' \<and>
    (\<forall>e'. r = Some e' \<longrightarrow> resTree_FindEntry L h' e path = Some (Some e'))"
  using GoToEntry_ok [OF assms, of path True] unfolding resTree_GetEntry_def by blast

lemma initial_tree_ok: "tree_ok L initial_hub"
  by (simp add: tree_ok_def initial_hub_def children_ok_def parent_ok_def)

lemma GetEntry_find_witness:
  "\<exists>h'. resTree_GetEntry sample_legato 0 ''app/x'' initial_hub = Some (Some 2, h')
     \<and> tree_ok sample_legato h' \<and> resTree_FindEntry sample_legato h' 0 ''app/x'' = Some (Some 2)"
proof -
  have f: "map_option fst (resTree_GetEntry sample_legato 0 ''app/x'' initial_hub) = Some (Some 2)"
    by code_simp
  have "entries initial_hub 0 \<noteq> None" by (simp add: initial_hub_def)
  then show ?thesis
    using GetEntry_find [OF sample_legato_ok initial_tree_ok, of 0 "''app/x''"] f by auto
qed

subsection \<open>The path of an entry\<close>

text \<open>The names on the way from the root down to an entry, each after a slash.\<close>

fun full_path :: "nat \<Rightarrow> hub \<Rightarrow> eid \<Rightarrow> string" where
  "full_path 0 h e = []"
| "full_path (Suc k) h e =
     (case entries h e of
        None \<Rightarrow> []
      | Some x \<Rightarrow>
          (case e_parentPtr x of
             None \<Rightarrow> []
           | Some p \<Rightarrow> full_path k h p @ ''/'' @ e_name x))"

lemma full_path_root: "tree_ok L h \<Longrightarrow> full_path k h (RootPtr h) = []"
  by (cases k) (auto simp: parent_ok_def dest: tree_okD(3) split: option.splits)

lemma full_path_head:
  assumes "tree_ok L h" "entries h e = Some x" "e \<noteq> RootPtr h" "e < k"
  shows "\<exists>t. full_path k h e = CHR ''/'' # t \<and> t \<noteq> [] \<and> hd t \<noteq> CHR ''/'' \<and> (\<forall>c \<in> set t. \<not> illegal_in_path c)"
  using assms(2-4)
proof (induction k arbitrary: e x)
  case (Suc k)
  obtain p y where p: "e_parentPtr x = Some p" "p < e" "entries h p = Some y" "name_ok L (e_name x)"
    using tree_ok_parent [OF assms(1) Suc.prems(1,2)] by metis
  show ?case
  proof (cases "p = RootPtr h")
    case True
    then have "full_path (Suc k) h e = CHR ''/'' # e_name x"
      using Suc.prems p full_path_root [OF assms(1)] by simp
    then show ?thesis using p(4) by (cases "e_name x") (auto simp: name_ok_def)
  next
    case False
    then obtain t where t: "full_path k h p = CHR ''/'' # t" "t \<noteq> []" "hd t \<noteq> CHR ''/''"
      "\<forall>c \<in> set t. \<not> illegal_in_path c"
      using Suc.IH [OF p(3)] p(2) Suc.prems(3) by auto
    have "\<not> illegal_in_path (CHR ''/'')" by (simp add: illegal_in_path_def)
    then show ?thesis
      using t p Suc.prems by (intro exI [of _ "t @ ''/'' @ e_name x"]) (auto simp: name_ok_def)
  qed
qed simp

lemma get_path_full:
  assumes "utf8_copy_ok L" "tree_ok L h" "entries h e = Some x" "e \<noteq> RootPtr h" "e < k" "0 < n"
  shows "if length (full_path k h e) < n
    then get_path L k n (RootPtr h) e h = Some (Inr (length (full_path k h e)), full_path k h e)
    else \<exists>s. get_path L k n (RootPtr h) e h = Some (Inl LE_OVERFLOW, s)"
  using assms(3-5)
proof (induction k arbitrary: e x)
  case (Suc k)
  obtain p y where p: "e_parentPtr x = Some p" "p < e" "entries h p = Some y" "name_ok L (e_name x)"
    using tree_ok_parent [OF assms(2) Suc.prems(1,2)] by metis
  have copy: "utf8_Copy L s m = (LE_OK, s)" if "length s < m" for s m
    using assms(1) that by simp
  have fail: "fst (utf8_Copy L s m) \<noteq> LE_OK" if "m \<le> length s" "0 < m" for s m
    using utf8_copy_overflow [OF assms(1) that(2,1)] by force
  show ?case
  proof (cases "p = RootPtr h")
    case True
    then have fp: "full_path (Suc k) h e = CHR ''/'' # e_name x"
      using Suc.prems p full_path_root [OF assms(2)] by simp
    show ?thesis
    proof (cases "n = 1")
      case True
      then have "fst (utf8_Copy L ''/'' n) \<noteq> LE_OK" using fail by simp
      then show ?thesis
        using Suc.prems p \<open>p = RootPtr h\<close> True
        by (cases "utf8_Copy L ''/'' n"; cases "utf8_Copy L (e_name x) (n - 1)") (simp add: fp del: full_path.simps)
    next
      case False
      then have "utf8_Copy L ''/'' n = (LE_OK, ''/'')" using copy assms(6) by simp
      then show ?thesis
        using Suc.prems p \<open>p = RootPtr h\<close> False assms(6) copy [of "e_name x" "n - 1"] fail [of "n - 1" "e_name x"]
        by (cases "utf8_Copy L (e_name x) (n - 1)") (auto simp: fp simp del: full_path.simps)
    qed
  next
    case False
    have IH: "if length (full_path k h p) < n
      then get_path L k n (RootPtr h) p h = Some (Inr (length (full_path k h p)), full_path k h p)
      else \<exists>s. get_path L k n (RootPtr h) p h = Some (Inl LE_OVERFLOW, s)"
      using Suc.IH [OF p(3) False] p(2) Suc.prems(3) by simp
    have fp: "full_path (Suc k) h e = full_path k h p @ ''/'' @ e_name x"
      using Suc.prems(1) p(1) by simp
    show ?thesis
    proof (cases "length (full_path k h p) < n")
      case False
      then show ?thesis
        using IH Suc.prems p \<open>p \<noteq> RootPtr h\<close> by (auto simp: fp simp del: full_path.simps)
    next
      case True
      let ?m = "n - length (full_path k h p)"
      have g: "get_path L k n (RootPtr h) p h = Some (Inr (length (full_path k h p)), full_path k h p)"
        using IH True by simp
      show ?thesis
      proof (cases "?m = 1")
        case True
        then have "fst (utf8_Copy L ''/'' ?m) \<noteq> LE_OK" using fail by simp
        then show ?thesis
          using Suc.prems p \<open>p \<noteq> RootPtr h\<close> True g
          by (cases "utf8_Copy L ''/'' ?m") (auto simp: fp simp del: full_path.simps split: prod.splits)
      next
        case False
        then have "utf8_Copy L ''/'' ?m = (LE_OK, ''/'')" using copy True by simp
        then show ?thesis
          using Suc.prems p \<open>p \<noteq> RootPtr h\<close> False g True copy [of "e_name x" "?m - 1"] fail [of "?m - 1" "e_name x"]
          by (cases "utf8_Copy L (e_name x) (?m - 1)") (auto simp: fp simp del: full_path.simps)
      qed
    qed
  qed
qed simp

lemma GoToEntryLoop_slash:
  "t \<noteq> [] \<Longrightarrow> hd t \<noteq> CHR ''/'' \<Longrightarrow> GoToEntryLoop L e (CHR ''/'' # t) b h = GoToEntryLoop L e t b h"
  by (cases t) (simp_all add: GoToEntryLoop.simps [of L e "CHR ''/'' # _" b h] GoToEntryLoop.simps [of L e "_ # _" b h])

lemma GoToEntryLoop_append:
  assumes "GoToEntryLoop L e s False h = Some (Some p, h)"
  shows "GoToEntryLoop L e (s @ CHR ''/'' # t) False h = GoToEntryLoop L p (CHR ''/'' # t) False h"
  using assms
proof (induction "length s" arbitrary: e s rule: less_induct)
  case less
  show ?case
  proof (cases "s = []")
    case True
    then show ?thesis using less.prems by (simp add: GoToEntryLoop.simps [of L e "[]"])
  next
    case False
    define q where "q = (if char_at s = Some (CHR ''/'') then tl s else s)"
    define name where "name = takeWhile (\<lambda>c. c \<noteq> CHR ''/'') q"
    define rest where "rest = dropWhile (\<lambda>c. c \<noteq> CHR ''/'') q"
    have ne: "name \<noteq> []" "length name < HUB_MAX_ENTRY_NAME_BYTES L"
      using less.prems False unfolding GoToEntryLoop.simps [of L e s False h] name_def q_def Let_def
      by (auto split: if_splits)
    note step = GoToEntryLoop_step [OF False q_def name_def rest_def ne]
    have q': "q @ CHR ''/'' # t = (if char_at (s @ CHR ''/'' # t) = Some (CHR ''/'')
        then tl (s @ CHR ''/'' # t) else s @ CHR ''/'' # t)"
      using False by (cases s) (auto simp: q_def)
    have tw: "name = takeWhile (\<lambda>c. c \<noteq> CHR ''/'') (q @ CHR ''/'' # t)"
      "rest @ CHR ''/'' # t = dropWhile (\<lambda>c. c \<noteq> CHR ''/'') (q @ CHR ''/'' # t)"
      unfolding name_def rest_def by (induction q) auto
    obtain c where c: "resTree_FindChild h e name = Some (Some c)" "GoToEntryLoop L c rest False h = Some (Some p, h)"
      using less.prems step by (auto split: option.splits)
    have "length rest < length s"
      using ne(1) False path_rest_shorter [OF False, of "\<lambda>c. c \<noteq> CHR ''/''" "char_at s = Some (CHR ''/'')"]
      unfolding rest_def name_def q_def by simp
    then have "GoToEntryLoop L c (rest @ CHR ''/'' # t) False h = GoToEntryLoop L p (CHR ''/'' # t) False h"
      using less.hyps c(2) by simp
    then show ?thesis
      using GoToEntryLoop_step [OF _ q' tw ne, of e False h] c(1) by simp
  qed
qed

lemma GoToEntryLoop_child:
  assumes "tree_ok L h" "entries h p = Some y" "e \<in> set (e_childList y)" "name_ok L (name_of h e)"
  shows "GoToEntryLoop L p (CHR ''/'' # name_of h e) False h = Some (Some e, h)"
proof -
  have n: "takeWhile (\<lambda>c. c \<noteq> CHR ''/'') (name_of h e) = name_of h e"
    "dropWhile (\<lambda>c. c \<noteq> CHR ''/'') (name_of h e) = []"
    using assms(4) by (auto simp: name_ok_def takeWhile_eq_all_conv)
  have "GoToEntryLoop L p (CHR ''/'' # name_of h e) False h = GoToEntryLoop L e [] False h"
    using GoToEntryLoop_step [of "CHR ''/'' # name_of h e" "name_of h e" "name_of h e" "[]" L p False h]
      n assms(4) FindChild_child [OF assms(1-3)] by (simp add: name_ok_def)
  then show ?thesis by (simp add: GoToEntryLoop.simps [of L e "[]"])
qed

lemma GoToEntryLoop_full_path:
  assumes "tree_ok L h" "entries h e = Some x" "e < k"
  shows "GoToEntryLoop L (RootPtr h) (full_path k h e) False h = Some (Some e, h)"
  using assms(2,3)
proof (induction k arbitrary: e x)
  case (Suc k)
  show ?case
  proof (cases "e = RootPtr h")
    case True
    then show ?thesis
      using full_path_root [OF assms(1)] by (simp add: GoToEntryLoop.simps [of L _ "[]"] del: full_path.simps)
  next
    case False
    obtain p y where p: "e_parentPtr x = Some p" "p < e" "entries h p = Some y" "e \<in> set (e_childList y)"
      "name_ok L (e_name x)"
      using tree_ok_parent [OF assms(1) Suc.prems(1) False] by metis
    have "GoToEntryLoop L (RootPtr h) (full_path k h p) False h = Some (Some p, h)"
      using Suc.IH [OF p(3)] p(2) Suc.prems(2) by simp
    from GoToEntryLoop_append [OF this, of "e_name x"] show ?thesis
      using GoToEntryLoop_child [OF assms(1) p(3,4)] p(1,5) Suc.prems(1) by (simp add: name_of_def)
  qed
qed simp

subsection \<open>Finding depends on names and children only\<close>

definition same_names :: "hub \<Rightarrow> hub \<Rightarrow> bool" where
  "same_names h h' \<longleftrightarrow>
     (\<forall>e. map_option (\<lambda>x. (e_name x, e_childList x)) (entries h' e) = map_option (\<lambda>x. (e_name x, e_childList x)) (entries h e))"

lemma same_names_find_child:
  assumes "same_names h h'"
  shows "find_child h' cs n = find_child h cs n"
proof (induction cs)
  case (Cons c cs)
  have "map_option (\<lambda>x. (e_name x, e_childList x)) (entries h' c) = map_option (\<lambda>x. (e_name x, e_childList x)) (entries h c)"
    using assms by (simp add: same_names_def)
  then show ?case using Cons by (cases "entries h c"; cases "entries h' c") simp_all
qed simp

lemma same_names_FindChild:
  assumes "same_names h h'"
  shows "resTree_FindChild h' e n = resTree_FindChild h e n"
proof -
  have "map_option (\<lambda>x. (e_name x, e_childList x)) (entries h' e) = map_option (\<lambda>x. (e_name x, e_childList x)) (entries h e)"
    using assms by (simp add: same_names_def)
  then show ?thesis
    by (cases "entries h e"; cases "entries h' e") (simp_all add: resTree_FindChild_def same_names_find_child [OF assms])
qed

lemma same_names_loop:
  "same_names h h' \<Longrightarrow> map_option fst (GoToEntryLoop L e path False h') = map_option fst (GoToEntryLoop L e path False h)"
proof (induction "length path" arbitrary: e path rule: less_induct)
  case less
  define p where "p = (if char_at path = Some (CHR ''/'') then tl path else path)"
  define name where "name = takeWhile (\<lambda>c. c \<noteq> CHR ''/'') p"
  define rest where "rest = dropWhile (\<lambda>c. c \<noteq> CHR ''/'') p"
  show ?case
  proof (cases "path = [] \<or> name = [] \<or> length name \<ge> HUB_MAX_ENTRY_NAME_BYTES L")
    case True
    then show ?thesis
      unfolding GoToEntryLoop.simps [of L e path] Let_def p_def [symmetric] name_def [symmetric] by auto
  next
    case False
    then have ne: "path \<noteq> []" "name \<noteq> []" "length name < HUB_MAX_ENTRY_NAME_BYTES L" by auto
    note step = GoToEntryLoop_step [OF ne(1) p_def name_def rest_def ne(2,3), of e False]
    have "length rest < length path"
      using ne(1,2) path_rest_shorter [of path "\<lambda>c. c \<noteq> CHR ''/''" "char_at path = Some (CHR ''/'')"]
      unfolding rest_def name_def p_def by simp
    then show ?thesis
      using less.hyps [OF _ less.prems] same_names_FindChild [OF less.prems, of e name]
      by (simp add: step split: option.split)
  qed
qed

lemma same_names_FindEntry:
  "same_names h h' \<Longrightarrow> resTree_FindEntry L h' base path = resTree_FindEntry L h base path"
  using same_names_loop [of h h' L base path] by (simp add: resTree_FindEntry_def GoToEntry_def)

lemma get_path_cong:
  "entries h' = entries h \<Longrightarrow> RootPtr h' = RootPtr h \<Longrightarrow> get_path L k n base e h' = get_path L k n base e h"
proof (induction k arbitrary: e)
  case (Suc k)
  show ?case unfolding get_path.simps Suc.prems Suc.IH [OF Suc.prems] by (rule refl)
qed simp

subsection \<open>Paths\<close>

text \<open>
  C25: the path that is printed for an entry is the names from the root down to it and leads back to
  it: when the path fits the buffer, finding it as an absolute path gives the entry; otherwise
  \<open>LE_OVERFLOW\<close> is returned.
\<close>

theorem GetPath_find:
  assumes "utf8_copy_ok L" "tree_ok L h" "entries h e \<noteq> None" "e \<noteq> RootPtr h" "0 < n"
  shows "resTree_FindEntryAtAbsolutePath L h (full_path (Suc (nextEntry h)) h e) = Some (Some e)
    \<and> (if length (full_path (Suc (nextEntry h)) h e) < n
       then resTree_GetPath L h n (RootPtr h) e
          = Some (Inr (length (full_path (Suc (nextEntry h)) h e)), full_path (Suc (nextEntry h)) h e)
       else \<exists>s. resTree_GetPath L h n (RootPtr h) e = Some (Inl LE_OVERFLOW, s))"
proof -
  obtain x where x: "entries h e = Some x" using assms(3) by auto
  let ?k = "Suc (nextEntry h)"
  have k: "e < ?k" using tree_okD(1) [OF assms(2) x] by simp
  obtain t where t: "full_path ?k h e = CHR ''/'' # t" "t \<noteq> []" "hd t \<noteq> CHR ''/''"
    "\<forall>c \<in> set t. \<not> illegal_in_path c"
    using full_path_head [OF assms(2) x assms(4) k] by blast
  have "GoToEntryLoop L (RootPtr h) t False h = Some (Some e, h)"
    using GoToEntryLoop_full_path [OF assms(2) x k] GoToEntryLoop_slash [OF t(2,3)] t(1) by simp
  then have "resTree_FindEntryAtAbsolutePath L h (full_path ?k h e) = Some (Some e)"
    using t by (auto simp: resTree_FindEntryAtAbsolutePath_def resTree_FindEntry_def GoToEntry_def
        resTree_GetRoot_def)
  then show ?thesis
    using get_path_full [OF assms(1,2) x assms(4) k assms(5)]
    by (auto simp: resTree_GetPath_def simp del: full_path.simps get_path.simps split: if_splits)
qed

lemma GetPath_find_witness:
  "\<exists>h e. tree_ok sample_legato h \<and> full_path (Suc (nextEntry h)) h e = ''/app/x''
     \<and> resTree_GetPath sample_legato h 7 (RootPtr h) e = Some (Inr 6, ''/app/x'')
     \<and> (\<exists>s. resTree_GetPath sample_legato h 6 (RootPtr h) e = Some (Inl LE_OVERFLOW, s))"
proof -
  have r: "entries initial_hub 0 \<noteq> None" by (simp add: initial_hub_def)
  obtain r h where g: "resTree_GetEntry sample_legato 0 ''app/x'' initial_hub = Some (r, h)"
    and h: "tree_ok sample_legato h"
    using GoToEntry_ok [OF sample_legato_ok initial_tree_ok r, of "''app/x''" True]
    unfolding resTree_GetEntry_def by blast
  have c: "map_option (\<lambda>(_, h). (entries h 2 \<noteq> None, RootPtr h, full_path (Suc (nextEntry h)) h 2))
      (resTree_GetEntry sample_legato 0 ''app/x'' initial_hub) = Some (True, 0, ''/app/x'')"
    by code_simp
  have e: "entries h 2 \<noteq> None" "2 \<noteq> RootPtr h" "full_path (Suc (nextEntry h)) h 2 = ''/app/x''"
    using c g by simp_all
  show ?thesis
    using GetPath_find [OF sample_legato_ok h e(1,2), of 7] GetPath_find [OF sample_legato_ok h e(1,2), of 6] h e(3)
    by (intro exI [of _ h] exI [of _ 2]) simp
qed

end
