(* ===== verification/Handler.thy ===== *)
theory Handler
  imports HubState
begin

text \<open>
  Push handlers, \<open>src/apps/DataHub/components/dataHub/handler.c\<close>. The only handler lists of the
  daemon are the push handler lists of resources, so a list is named by its resource. Calling a
  client's function is an event; the call returns before the client reacts.
\<close>

definition IO_MAX_STRING_VALUE_LEN :: nat where
  "IO_MAX_STRING_VALUE_LEN = 50000"

subsection \<open>Registration\<close>

definition handler_Add ::
  "rid \<Rightarrow> io_DataType_t \<Rightarrow> nat \<Rightarrow> nat \<Rightarrow> hub \<Rightarrow> (hid \<times> hub) option" where
  "handler_Add r t callbackPtr contextPtr h = do {
     x \<leftarrow> resources h r;
     let n = nextHandler h;
     let hp = \<lparr> h_listPtr = r, h_dataType = t, h_callbackPtr = callbackPtr, h_contextPtr = contextPtr \<rparr>;
     Some (n, put_res r (x\<lparr>r_pushHandlerList := r_pushHandlerList x @ [n]\<rparr>)
                (h\<lparr>handlers := (handlers h)(n \<mapsto> hp), nextHandler := n + 1\<rparr>))
   }"

definition DeleteHandler :: "hid \<Rightarrow> hub \<Rightarrow> hub" where
  "DeleteHandler n h = h\<lparr>handlers := (handlers h)(n := None)\<rparr>"

text \<open>
  Removal unlinks the handler from the list it was put on when it was added: that list must still
  exist and hold it.
\<close>

definition handler_Remove :: "hid \<Rightarrow> hub \<Rightarrow> hub option" where
  "handler_Remove n h =
     (case handlers h n of
        None \<Rightarrow> Some h
      | Some hp \<Rightarrow> do {
          x \<leftarrow> resources h (h_listPtr hp);
          le_assert (n \<in> set (r_pushHandlerList x));
          Some (DeleteHandler n
            (put_res (h_listPtr hp) (x\<lparr>r_pushHandlerList := remove1 n (r_pushHandlerList x)\<rparr>) h))
        })"

text \<open>Pops the handlers of a list one by one and deletes each.\<close>

definition handler_RemoveAll :: "rid \<Rightarrow> hub \<Rightarrow> hub option" where
  "handler_RemoveAll r h = do {
     x \<leftarrow> resources h r;
     Some (fold DeleteHandler (r_pushHandlerList x) (put_res r (x\<lparr>r_pushHandlerList := []\<rparr>) h))
   }"

text \<open>The handlers go to the end of the other list; what they say of their list is not changed.\<close>

definition handler_MoveAll :: "rid \<Rightarrow> rid \<Rightarrow> hub \<Rightarrow> hub option" where
  "handler_MoveAll dest src h = do {
     s \<leftarrow> resources h src;
     d \<leftarrow> resources h dest;
     Some (put_res dest (d\<lparr>r_pushHandlerList := r_pushHandlerList d @ r_pushHandlerList s\<rparr>)
            (put_res src (s\<lparr>r_pushHandlerList := []\<rparr>) h))
   }"

subsection \<open>Calls\<close>

definition push_call :: "Handler_t \<Rightarrow> io_DataType_t \<Rightarrow> dataSample_Ref_t \<Rightarrow> sample_value \<Rightarrow> event" where
  "push_call hp t s v =
     PushCall (h_callbackPtr hp) (h_contextPtr hp) t (dataSample_GetTimestamp s) v"

text \<open>
  A handler of the sample's type gets its value. A handler for strings or JSON gets the value
  converted, unless the text does not fit the buffer. Other handlers are not called.
\<close>

definition CallPushHandler ::
  "legato \<Rightarrow> Handler_t \<Rightarrow> io_DataType_t \<Rightarrow> dataSample_Ref_t \<Rightarrow> hub \<Rightarrow> hub option" where
  "CallPushHandler L hp t s h =
     (if h_dataType hp = t then
        (case t of
           IO_DATA_TYPE_TRIGGER \<Rightarrow> Some (add_event (push_call hp t s VTrigger) h)
         | IO_DATA_TYPE_BOOLEAN \<Rightarrow> do {
             b \<leftarrow> dataSample_GetBoolean s;
             Some (add_event (push_call hp t s (VBool b)) h)
           }
         | IO_DATA_TYPE_NUMERIC \<Rightarrow> do {
             d \<leftarrow> dataSample_GetNumeric s;
             Some (add_event (push_call hp t s (VNum d)) h)
           }
         | IO_DATA_TYPE_STRING \<Rightarrow> do {
             str \<leftarrow> dataSample_GetString s;
             Some (add_event (push_call hp t s (VStr str)) h)
           }
         | IO_DATA_TYPE_JSON \<Rightarrow> do {
             str \<leftarrow> dataSample_GetJson s;
             Some (add_event (push_call hp t s (VStr str)) h)
           })
      else if h_dataType hp = IO_DATA_TYPE_STRING then do {
        (r, str) \<leftarrow> dataSample_ConvertToString L s t IO_MAX_STRING_VALUE_LEN;
        if r \<noteq> LE_OK then Some h
        else Some (add_event (push_call hp IO_DATA_TYPE_STRING s (VStr str)) h)
      }
      else if h_dataType hp = IO_DATA_TYPE_JSON then do {
        (r, str) \<leftarrow> dataSample_ConvertToJson L s t IO_MAX_STRING_VALUE_LEN;
        if r \<noteq> LE_OK then Some h
        else Some (add_event (push_call hp IO_DATA_TYPE_JSON s (VStr str)) h)
      }
      else Some h)"

definition handler_Call ::
  "legato \<Rightarrow> hid \<Rightarrow> io_DataType_t \<Rightarrow> dataSample_Ref_t \<Rightarrow> hub \<Rightarrow> hub option" where
  "handler_Call L n t s h =
     (case handlers h n of
        None \<Rightarrow> Some h
      | Some hp \<Rightarrow> CallPushHandler L hp t s h)"

fun CallHandlers ::
  "legato \<Rightarrow> hid list \<Rightarrow> io_DataType_t \<Rightarrow> dataSample_Ref_t \<Rightarrow> hub \<Rightarrow> hub option" where
  "CallHandlers L [] t s h = Some h"
| "CallHandlers L (n # ns) t s h = do {
     hp \<leftarrow> handlers h n;
     h' \<leftarrow> CallPushHandler L hp t s h;
     CallHandlers L ns t s h'
   }"

definition handler_CallAll ::
  "legato \<Rightarrow> rid \<Rightarrow> io_DataType_t \<Rightarrow> dataSample_Ref_t \<Rightarrow> hub \<Rightarrow> hub option" where
  "handler_CallAll L r t s h = do {
     x \<leftarrow> resources h r;
     CallHandlers L (r_pushHandlerList x) t s h
   }"

subsection \<open>What a call does\<close>

text \<open>The abstract contract of a call: what a handler is told of a sample, if anything.\<close>

definition handler_payload ::
  "legato \<Rightarrow> io_DataType_t \<Rightarrow> io_DataType_t \<Rightarrow> sample_value \<Rightarrow> sample_value option" where
  "handler_payload L ht t v =
     (if ht = t then Some (if t = IO_DATA_TYPE_TRIGGER then VTrigger else v)
      else if ht = IO_DATA_TYPE_STRING \<or> ht = IO_DATA_TYPE_JSON then
        let s = \<lparr> timestamp = 0, sample_val = v \<rparr>
        in case (if ht = IO_DATA_TYPE_STRING then dataSample_ConvertToString L s t IO_MAX_STRING_VALUE_LEN
                 else dataSample_ConvertToJson L s t IO_MAX_STRING_VALUE_LEN) of
             Some (LE_OK, str) \<Rightarrow> Some (VStr str)
           | _ \<Rightarrow> None
      else None)"

definition told :: "legato \<Rightarrow> io_DataType_t \<Rightarrow> dataSample_Ref_t \<Rightarrow> Handler_t \<Rightarrow> event list" where
  "told L t s hp =
     (case handler_payload L (h_dataType hp) t (sample_val s) of
        None \<Rightarrow> []
      | Some v \<Rightarrow> [push_call hp (h_dataType hp) s v])"

lemma ConvertToJson_cong:
  "sample_val s = sample_val s' \<Longrightarrow> dataSample_ConvertToJson L s t n = dataSample_ConvertToJson L s' t n"
  by (simp add: dataSample_ConvertToJson_def dataSample_GetBoolean_def dataSample_GetNumeric_def
      dataSample_GetString_def split: io_DataType_t.splits)

lemma ConvertToString_cong:
  "sample_val s = sample_val s' \<Longrightarrow> dataSample_ConvertToString L s t n = dataSample_ConvertToString L s' t n"
  by (simp add: dataSample_ConvertToString_def dataSample_GetString_def
      ConvertToJson_cong [of s s'])

lemma ConvertToJson_defined: "sample_ok t s \<Longrightarrow> \<exists>r. dataSample_ConvertToJson L s t n = Some r"
  by (cases t) (auto simp: dataSample_ConvertToJson_def sample_ok_def dataSample_GetBoolean_def
      dataSample_GetNumeric_def dataSample_GetString_def split: prod.splits)

lemma ConvertToString_defined: "sample_ok t s \<Longrightarrow> \<exists>r. dataSample_ConvertToString L s t n = Some r"
  using ConvertToJson_defined
  by (auto simp: dataSample_ConvertToString_def sample_ok_def dataSample_GetString_def)

lemma CallPushHandler_told:
  assumes "sample_ok t s"
  shows "CallPushHandler L hp t s h = Some (h\<lparr>events := events h @ told L t s hp\<rparr>)"
proof -
  let ?s = "\<lparr> timestamp = 0, sample_val = sample_val s \<rparr>"
  have c: "dataSample_ConvertToString L s t n = dataSample_ConvertToString L ?s t n"
    "dataSample_ConvertToJson L s t n = dataSample_ConvertToJson L ?s t n" for n
    by (rule ConvertToString_cong ConvertToJson_cong; simp)+
  consider "h_dataType hp = t" | "h_dataType hp \<noteq> t" "h_dataType hp = IO_DATA_TYPE_STRING"
    | "h_dataType hp \<noteq> t" "h_dataType hp = IO_DATA_TYPE_JSON"
    | "h_dataType hp \<noteq> t" "h_dataType hp \<noteq> IO_DATA_TYPE_STRING" "h_dataType hp \<noteq> IO_DATA_TYPE_JSON"
    by blast
  then show ?thesis
  proof cases
    case 1
    then show ?thesis
      using assms by (cases t) (auto simp: CallPushHandler_def told_def handler_payload_def
          sample_ok_def dataSample_GetBoolean_def dataSample_GetNumeric_def dataSample_GetString_def
          dataSample_GetJson_def add_event_def)
  next
    case 2
    obtain r str where "dataSample_ConvertToString L s t IO_MAX_STRING_VALUE_LEN = Some (r, str)"
      using ConvertToString_defined [OF assms] by fastforce
    with 2 show ?thesis
      using c by (cases r) (simp_all add: CallPushHandler_def told_def handler_payload_def add_event_def)
  next
    case 3
    obtain r str where "dataSample_ConvertToJson L s t IO_MAX_STRING_VALUE_LEN = Some (r, str)"
      using ConvertToJson_defined [OF assms] by fastforce
    with 3 show ?thesis
      using c by (cases r) (simp_all add: CallPushHandler_def told_def handler_payload_def add_event_def)
  next
    case 4
    then show ?thesis by (simp add: CallPushHandler_def told_def handler_payload_def)
  qed
qed

lemma CallHandlers_told:
  assumes "sample_ok t s" "\<forall>n \<in> set ns. handlers h n \<noteq> None"
  shows "CallHandlers L ns t s h =
    Some (h\<lparr>events := events h @ concat (map (\<lambda>n. told L t s (the (handlers h n))) ns)\<rparr>)"
  using assms(2)
proof (induction ns arbitrary: h)
  case (Cons n ns)
  then obtain hp where "handlers h n = Some hp" by auto
  then show ?case
    using Cons CallPushHandler_told [OF assms(1), of L hp h] by simp
qed simp

subsection \<open>The handler lists and the handler map agree\<close>

text \<open>
  The handlers on a resource's list are live, name that list and occur once; every live handler is on
  the list that it names; live handlers have numbers that were given out.
\<close>

definition list_ok :: "(hid \<Rightarrow> Handler_t option) \<Rightarrow> rid \<Rightarrow> hid list \<Rightarrow> bool" where
  "list_ok hs r ns \<longleftrightarrow>
     distinct ns \<and> (\<forall>n \<in> set ns. \<exists>hp. hs n = Some hp \<and> h_listPtr hp = r)"

definition handlers_ok :: "hub \<Rightarrow> bool" where
  "handlers_ok h \<longleftrightarrow>
     (\<forall>r x. resources h r = Some x \<longrightarrow> list_ok (handlers h) r (r_pushHandlerList x)) \<and>
     (\<forall>n hp. handlers h n = Some hp \<longrightarrow>
        n < nextHandler h \<and>
        (\<exists>x. resources h (h_listPtr hp) = Some x \<and> n \<in> set (r_pushHandlerList x)))"

lemma handlers_ok_list:
  "handlers_ok h \<Longrightarrow> resources h r = Some x \<Longrightarrow> list_ok (handlers h) r (r_pushHandlerList x)"
  by (auto simp: handlers_ok_def)

lemma handlers_ok_live:
  "handlers_ok h \<Longrightarrow> handlers h n = Some hp \<Longrightarrow>
   n < nextHandler h \<and> (\<exists>x. resources h (h_listPtr hp) = Some x \<and> n \<in> set (r_pushHandlerList x))"
  by (auto simp: handlers_ok_def)

lemma fold_DeleteHandler:
  "fold DeleteHandler ns h = h\<lparr>handlers := (\<lambda>n. if n \<in> set ns then None else handlers h n)\<rparr>"
  by (induction ns arbitrary: h) (auto simp: DeleteHandler_def fun_eq_iff intro!: arg_cong [where f = "\<lambda>z. h\<lparr>handlers := z\<rparr>" for h])

lemma handler_Add_ok:
  assumes "handlers_ok h" "handler_Add r t cb ctx h = Some (n, h')"
  shows "handlers_ok h'"
proof -
  obtain x where x: "resources h r = Some x" "n = nextHandler h" and
    h': "h' = put_res r (x\<lparr>r_pushHandlerList := r_pushHandlerList x @ [n]\<rparr>)
      (h\<lparr>handlers := (handlers h)(n \<mapsto> \<lparr> h_listPtr = r, h_dataType = t, h_callbackPtr = cb, h_contextPtr = ctx \<rparr>),
         nextHandler := n + 1\<rparr>)"
    using assms(2) by (auto simp: handler_Add_def bind_Some_iff Let_def)
  have new: "n \<notin> set (r_pushHandlerList y)" if "resources h q = Some y" for q y
    using handlers_ok_list [OF assms(1) that] handlers_ok_live [OF assms(1)] x(2)
    by (fastforce simp: list_ok_def)
  have "list_ok (handlers h') q (r_pushHandlerList y)" if "resources h' q = Some y" for q y
  proof (cases "q = r")
    case True
    then have "y = x\<lparr>r_pushHandlerList := r_pushHandlerList x @ [n]\<rparr>" using that h' by simp
    then show ?thesis
      using handlers_ok_list [OF assms(1) x(1)] new [OF x(1)] True by (auto simp: list_ok_def h')
  next
    case False
    then have "resources h q = Some y" using that h' by simp
    then show ?thesis
      using handlers_ok_list [OF assms(1)] new by (fastforce simp: list_ok_def h')
  qed
  moreover have "m < nextHandler h' \<and>
      (\<exists>y. resources h' (h_listPtr hp) = Some y \<and> m \<in> set (r_pushHandlerList y))"
    if "handlers h' m = Some hp" for m hp
    using that handlers_ok_live [OF assms(1), of m hp] x by (cases "m = n") (auto simp: h')
  ultimately show ?thesis unfolding handlers_ok_def by blast
qed

lemma handler_Remove_ok:
  assumes "handlers_ok h"
  shows "\<exists>h'. handler_Remove n h = Some h' \<and> handlers_ok h' \<and> handlers h' n = None"
proof (cases "handlers h n")
  case None
  then show ?thesis using assms by (simp add: handler_Remove_def)
next
  case (Some hp)
  let ?r = "h_listPtr hp"
  obtain x where x: "resources h ?r = Some x" "n \<in> set (r_pushHandlerList x)"
    using handlers_ok_live [OF assms Some] by blast
  let ?h = "DeleteHandler n (put_res ?r (x\<lparr>r_pushHandlerList := remove1 n (r_pushHandlerList x)\<rparr>) h)"
  have "list_ok (handlers ?h) q (r_pushHandlerList y)" if "resources ?h q = Some y" for q y
  proof (cases "q = ?r")
    case True
    then have "y = x\<lparr>r_pushHandlerList := remove1 n (r_pushHandlerList x)\<rparr>"
      using that by (simp add: DeleteHandler_def)
    then show ?thesis
      using handlers_ok_list [OF assms x(1)] True by (auto simp: list_ok_def DeleteHandler_def)
  next
    case False
    then have q: "resources h q = Some y" using that by (simp add: DeleteHandler_def)
    then have "n \<notin> set (r_pushHandlerList y)"
      using handlers_ok_list [OF assms q] Some False by (auto simp: list_ok_def)
    then show ?thesis
      using handlers_ok_list [OF assms q] by (auto simp: list_ok_def DeleteHandler_def)
  qed
  moreover have "m < nextHandler ?h \<and>
      (\<exists>y. resources ?h (h_listPtr hq) = Some y \<and> m \<in> set (r_pushHandlerList y))"
    if "handlers ?h m = Some hq" for m hq
    using that handlers_ok_live [OF assms, of m hq] x
    by (cases "m = n") (auto simp: DeleteHandler_def split: if_splits)
  ultimately have "handlers_ok ?h" unfolding handlers_ok_def by blast
  then show ?thesis
    using Some x by (simp add: handler_Remove_def DeleteHandler_def)
qed

lemma handler_RemoveAll_ok:
  assumes "handlers_ok h" "resources h r = Some x"
  shows "\<exists>h'. handler_RemoveAll r h = Some h' \<and> handlers_ok h' \<and>
    resources h' = (resources h)(r \<mapsto> x\<lparr>r_pushHandlerList := []\<rparr>)"
proof -
  let ?ns = "set (r_pushHandlerList x)"
  let ?h = "(put_res r (x\<lparr>r_pushHandlerList := []\<rparr>) h)
    \<lparr>handlers := (\<lambda>n. if n \<in> ?ns then None else handlers h n)\<rparr>"
  have eq: "handler_RemoveAll r h = Some ?h"
    using assms(2) by (simp add: handler_RemoveAll_def fold_DeleteHandler put_res_def cong: if_cong)
  have "list_ok (handlers ?h) q (r_pushHandlerList y)" if "resources ?h q = Some y" for q y
  proof (cases "q = r")
    case True
    then show ?thesis using that by (auto simp: list_ok_def)
  next
    case False
    then have q: "resources h q = Some y" using that by simp
    then show ?thesis
      using handlers_ok_list [OF assms(1) q] handlers_ok_list [OF assms] False
      by (fastforce simp: list_ok_def)
  qed
  moreover have "m < nextHandler ?h \<and>
      (\<exists>y. resources ?h (h_listPtr hq) = Some y \<and> m \<in> set (r_pushHandlerList y))"
    if "handlers ?h m = Some hq" for m hq
    using that handlers_ok_live [OF assms(1), of m hq] assms(2) by (auto split: if_splits)
  ultimately have "handlers_ok ?h" unfolding handlers_ok_def by blast
  then show ?thesis using eq by simp
qed

subsection \<open>Properties\<close>

text \<open>
  C30: a sample is told to the handlers of a resource in the order of their registration, to each as
  \<open>told\<close> says: unchanged to handlers of the sample's type, as a text to those for strings and JSON, if that fits
  their buffer, and not at all to handlers of any other type. Nothing else changes.
\<close>

theorem handler_CallAll_told:
  assumes "handlers_ok h" "resources h r = Some x" "sample_ok t s"
  shows "handler_CallAll L r t s h = Some (h\<lparr>events := events h @
    concat (map (\<lambda>n. told L t s (the (handlers h n))) (r_pushHandlerList x))\<rparr>)"
proof -
  have "\<forall>n \<in> set (r_pushHandlerList x). handlers h n \<noteq> None"
    using handlers_ok_list [OF assms(1,2)] by (auto simp: list_ok_def)
  then show ?thesis
    using assms(2) CallHandlers_told [OF assms(3)] by (simp add: handler_CallAll_def)
qed

text \<open>
  Adding, removing and removing all handlers keep the lists and the handler map in agreement;
  removing never fails, whatever reference a client passes.
\<close>

theorem handlers_ok_preserved:
  assumes "handlers_ok h" "resources h r = Some x"
  shows "(\<exists>n h'. handler_Add r t cb ctx h = Some (n, h') \<and> handlers_ok h' \<and> handlers h n = None)
    \<and> (\<exists>h'. handler_Remove m h = Some h' \<and> handlers_ok h' \<and> handlers h' m = None)
    \<and> (\<exists>h'. handler_RemoveAll r h = Some h' \<and> handlers_ok h')"
proof -
  obtain n h' where a: "handler_Add r t cb ctx h = Some (n, h')" "n = nextHandler h"
    using assms(2) by (auto simp: handler_Add_def Let_def)
  moreover have "handlers h n = None"
    using handlers_ok_live [OF assms(1), of n] a(2) by (cases "handlers h n") auto
  ultimately show ?thesis
    using handler_Add_ok [OF assms(1)] handler_Remove_ok [OF assms(1)]
      handler_RemoveAll_ok [OF assms] by blast
qed

text \<open>
  Moving handlers to another resource's list does not change what they say of their list, so
  that the client's removal of a moved handler goes to a list that does not hold it.
\<close>

theorem handler_MoveAll_stale:
  assumes "handlers_ok h" "src \<noteq> dest" "resources h src = Some x" "resources h dest = Some y"
    "n \<in> set (r_pushHandlerList x)"
  shows "\<exists>h' z. handler_MoveAll dest src h = Some h' \<and> resources h' dest = Some z
    \<and> n \<in> set (r_pushHandlerList z) \<and> handler_Remove n h' = None"
proof -
  obtain hp where "handlers h n = Some hp" "h_listPtr hp = src"
    using handlers_ok_list [OF assms(1,3)] assms(5) by (auto simp: list_ok_def)
  then show ?thesis
    using assms(2-5) by (simp add: handler_MoveAll_def handler_Remove_def)
qed

subsection \<open>Instances\<close>

text \<open>A hub with one resource, which has one handler for numeric samples, and another without any.\<close>

definition handler_hub :: hub where
  "handler_hub = initial_hub\<lparr>
     resources := [0 \<mapsto> (res_Construct 1)\<lparr>r_pushHandlerList := [7]\<rparr>, 1 \<mapsto> res_Construct 2],
     handlers := [7 \<mapsto> \<lparr> h_listPtr = 0, h_dataType = IO_DATA_TYPE_NUMERIC, h_callbackPtr = 5, h_contextPtr = 6 \<rparr>],
     nextHandler := 8\<rparr>"

lemma handler_hub_ok: "handlers_ok handler_hub"
  by (simp add: handlers_ok_def handler_hub_def list_ok_def res_Construct_def)

lemma handler_hub_res:
  "resources handler_hub 0 = Some ((res_Construct 1)\<lparr>r_pushHandlerList := [7]\<rparr>)"
  "resources handler_hub 1 = Some (res_Construct 2)"
  by (simp_all add: handler_hub_def)

lemma handler_CallAll_told_witness:
  "\<exists>h'. handler_CallAll sample_legato 0 IO_DATA_TYPE_NUMERIC \<lparr> timestamp = 1, sample_val = VNum 2 \<rparr> handler_hub
     = Some h' \<and> events h' = [PushCall 5 6 IO_DATA_TYPE_NUMERIC 1 (VNum 2)]"
  using handler_CallAll_told [OF handler_hub_ok handler_hub_res(1),
      of IO_DATA_TYPE_NUMERIC "\<lparr> timestamp = 1, sample_val = VNum 2 \<rparr>" sample_legato]
  by (simp add: sample_ok_def told_def handler_payload_def push_call_def handler_hub_def
      dataSample_GetTimestamp_def initial_hub_def)

lemma handlers_ok_preserved_witness:
  "\<exists>h'. handler_Remove 7 handler_hub = Some h' \<and> handlers_ok h' \<and> handlers h' 7 = None"
  using handlers_ok_preserved [OF handler_hub_ok handler_hub_res(1), of IO_DATA_TYPE_JSON 0 0 7] by blast

lemma handler_MoveAll_stale_witness:
  "\<exists>h'. handler_MoveAll 1 0 handler_hub = Some h' \<and> handler_Remove 7 h' = None"
  using handler_MoveAll_stale [OF handler_hub_ok _ handler_hub_res, of 7] by auto

end
