(* ===== verification/Backup.thy ===== *)
theory Backup
  imports ObsBuffer EntryTree Handler
begin

text \<open>
  The non-volatile backups of observation buffers (\<open>obs.c\<close>): the path and the format of a backup file,
  writing, deleting and reading it. A file is the list of its bytes; files are replaced atomically,
  so that a backup that fails leaves the old file.
\<close>

subsection \<open>Paths\<close>

definition BACKUP_DIR :: "legato \<Rightarrow> string" where
  "BACKUP_DIR L = (if embedded L then ''/home/root/dataHubBackup/'' else ''backup/'')"

definition BACKUP_SUFFIX :: string where
  "BACKUP_SUFFIX = ''.bak''"

definition IO_MAX_RESOURCE_PATH_LEN :: nat where
  "IO_MAX_RESOURCE_PATH_LEN = 79"

definition MAX_BACKUP_FILE_PATH_BYTES :: "legato \<Rightarrow> nat" where
  "MAX_BACKUP_FILE_PATH_BYTES L =
     length (BACKUP_DIR L) + IO_MAX_RESOURCE_PATH_LEN + length BACKUP_SUFFIX + 1"

text \<open>
  An observation that is the namespace \<open>/obs\<close> itself has a path of length 0, which the code returns
  as the result \<open>LE_OK\<close>, without a suffix.
\<close>

definition GetBackupFilePath :: "legato \<Rightarrow> nat \<Rightarrow> rid \<Rightarrow> hub \<Rightarrow> (le_result_t \<times> string) option" where
  "GetBackupFilePath L pathBuffSize r h = do {
     let (r0, dir) = utf8_Copy L (BACKUP_DIR L) pathBuffSize;
     le_assert (r0 = LE_OK);
     ns \<leftarrow> resTree_FindEntry L h (resTree_GetRoot h) ''obs'';
     obsNamespace \<leftarrow> ns;
     x \<leftarrow> resources h r;
     e \<leftarrow> r_entryRef x;
     (result, path) \<leftarrow> resTree_GetPath L h (pathBuffSize - length dir) obsNamespace e;
     case result of
       Inl err \<Rightarrow> Some (err, dir @ path)
     | Inr len \<Rightarrow>
         if len = 0 then Some (LE_OK, dir @ path)
         else
           let (r1, suf) = utf8_Copy L BACKUP_SUFFIX (pathBuffSize - length dir - len)
           in Some (r1, dir @ path @ suf)
   }"

text \<open>The buffer for the path is shorter here than where backups are written.\<close>

definition DeleteBackup :: "legato \<Rightarrow> rid \<Rightarrow> hub \<Rightarrow> hub option" where
  "DeleteBackup L r h = do {
     (result, path) \<leftarrow> GetBackupFilePath L IO_MAX_RESOURCE_PATH_LEN r h;
     Some (if result = LE_OK then h\<lparr>backupFiles := (backupFiles h)(path := None)\<rparr> else h)
   }"

subsection \<open>Format\<close>

text \<open>Numbers in files have the least significant byte first.\<close>

fun le_bytes :: "nat \<Rightarrow> nat \<Rightarrow> string" where
  "le_bytes 0 v = []"
| "le_bytes (Suc n) v = char_of (v mod 256) # le_bytes n (v div 256)"

fun le_value :: "string \<Rightarrow> nat" where
  "le_value [] = 0"
| "le_value (c # cs) = of_char c + 256 * le_value cs"

text \<open>Writing no bytes counts as a failure, because \<open>fwrite\<close> of an item of size 0 returns 0.\<close>

definition WriteToStream :: "string \<Rightarrow> string \<Rightarrow> string option" where
  "WriteToStream bytes file = (if bytes = [] then None else Some (file @ bytes))"

definition ReadFromFile :: "nat \<Rightarrow> string \<Rightarrow> (string \<times> string) option" where
  "ReadFromFile n file = (if length file < n then None else Some (take n file, drop n file))"

fun GetDataTypeCode :: "io_DataType_t \<Rightarrow> char" where
  "GetDataTypeCode IO_DATA_TYPE_TRIGGER = CHR ''t''"
| "GetDataTypeCode IO_DATA_TYPE_BOOLEAN = CHR ''b''"
| "GetDataTypeCode IO_DATA_TYPE_NUMERIC = CHR ''n''"
| "GetDataTypeCode IO_DATA_TYPE_STRING = CHR ''s''"
| "GetDataTypeCode IO_DATA_TYPE_JSON = CHR ''j''"

definition GetDataTypeFromCode :: "char \<Rightarrow> io_DataType_t option" where
  "GetDataTypeFromCode c =
     (if c = CHR ''t'' then Some IO_DATA_TYPE_TRIGGER
      else if c = CHR ''b'' then Some IO_DATA_TYPE_BOOLEAN
      else if c = CHR ''n'' then Some IO_DATA_TYPE_NUMERIC
      else if c = CHR ''s'' then Some IO_DATA_TYPE_STRING
      else if c = CHR ''j'' then Some IO_DATA_TYPE_JSON
      else None)"

text \<open>What is written for a value, one item per call of \<open>WriteToStream\<close>.\<close>

definition value_items :: "io_DataType_t \<Rightarrow> dataSample_Ref_t \<Rightarrow> string list option" where
  "value_items t s =
     (case t of
        IO_DATA_TYPE_TRIGGER \<Rightarrow> Some []
      | IO_DATA_TYPE_BOOLEAN \<Rightarrow> do { b \<leftarrow> dataSample_GetBoolean s; Some [le_bytes 1 (of_bool b)] }
      | IO_DATA_TYPE_NUMERIC \<Rightarrow> do { d \<leftarrow> dataSample_GetNumeric s; Some [le_bytes 8 (unat d)] }
      | IO_DATA_TYPE_STRING \<Rightarrow> do { v \<leftarrow> dataSample_GetString s; Some [le_bytes 4 (length v), v] }
      | IO_DATA_TYPE_JSON \<Rightarrow> do { v \<leftarrow> dataSample_GetJson s; Some [le_bytes 4 (length v), v] })"

text \<open>\<open>Some None\<close> is the result \<open>false\<close>; the stream has then been cancelled.\<close>

fun WriteSamplesToFile ::
  "io_DataType_t \<Rightarrow> BufferEntry_t list \<Rightarrow> string \<Rightarrow> string option option" where
  "WriteSamplesToFile t [] file = Some (Some file)"
| "WriteSamplesToFile t (b # bs) file = do {
     items \<leftarrow> value_items t (snd b);
     case fold_option WriteToStream (le_bytes 8 (unat (dataSample_GetTimestamp (snd b))) # items) file of
       None \<Rightarrow> Some None
     | Some file \<Rightarrow> WriteSamplesToFile t bs file
   }"

text \<open>A string from the file: its length and then its bytes, up to a terminator among them.\<close>

definition ReadString :: "string \<Rightarrow> (string \<times> string) option" where
  "ReadString file = do {
     (len, file) \<leftarrow> ReadFromFile 4 file;
     if le_value len > IO_MAX_STRING_VALUE_LEN then None
     else do {
       (v, file) \<leftarrow> ReadFromFile (le_value len) file;
       Some (takeWhile (\<lambda>c. c \<noteq> CHR 0x00) v, file)
     }
   }"

text \<open>
  The value of a sample with a given timestamp: the sample and the rest of the file, or \<open>Some (None, _)\<close>
  for an error.
\<close>

definition ReadSample ::
  "legato \<Rightarrow> io_DataType_t \<Rightarrow> double \<Rightarrow> string \<Rightarrow> nat \<Rightarrow> ((dataSample_Ref_t \<times> string) option \<times> nat) option" where
  "ReadSample L t ts file clk =
     (case t of
        IO_DATA_TYPE_TRIGGER \<Rightarrow>
          let (s, clk') = dataSample_CreateTrigger L ts clk in Some (Some (s, file), clk')
      | IO_DATA_TYPE_BOOLEAN \<Rightarrow>
          (case ReadFromFile 1 file of
             None \<Rightarrow> Some (None, clk)
           | Some (v, file) \<Rightarrow>
               let (s, clk') = dataSample_CreateBoolean L ts (le_value v \<noteq> 0) clk
               in Some (Some (s, file), clk'))
      | IO_DATA_TYPE_NUMERIC \<Rightarrow>
          (case ReadFromFile 8 file of
             None \<Rightarrow> Some (None, clk)
           | Some (v, file) \<Rightarrow>
               let (s, clk') = dataSample_CreateNumeric L ts (of_nat (le_value v)) clk
               in Some (Some (s, file), clk'))
      | IO_DATA_TYPE_STRING \<Rightarrow>
          (case ReadString file of
             None \<Rightarrow> Some (None, clk)
           | Some (v, file) \<Rightarrow> do {
               (s, clk') \<leftarrow> dataSample_CreateString L ts v clk;
               Some (Some (s, file), clk')
             })
      | IO_DATA_TYPE_JSON \<Rightarrow>
          (case ReadString file of
             None \<Rightarrow> Some (None, clk)
           | Some (v, file) \<Rightarrow> do {
               (s, clk') \<leftarrow> dataSample_CreateJson L ts v clk;
               Some (Some (s, file), clk')
             }))"

text \<open>
  The loop that reads the samples. Every sample but the last is put into the buffer; the last one is
  the result, for the caller to push. On an error the buffer is emptied. With no more samples
  expected, fewer bytes than a timestamp has are taken for the end of the file.
\<close>

definition read_error ::
  "Observation_t \<Rightarrow> nat \<Rightarrow> nat \<Rightarrow> (dataSample_Ref_t option \<times> (Observation_t \<times> nat) \<times> nat) option" where
  "read_error ob n clk = do { ob \<leftarrow> TruncateBuffer 0 ob; Some (None, (ob, n), clk) }"

fun ReadSamplesLoop ::
  "legato \<Rightarrow> nat \<Rightarrow> string \<Rightarrow> dataSample_Ref_t option \<Rightarrow> Observation_t \<times> nat \<Rightarrow> nat \<Rightarrow>
   (dataSample_Ref_t option \<times> (Observation_t \<times> nat) \<times> nat) option" where
  "ReadSamplesLoop L 0 file newest (ob, n) clk =
     (case ReadFromFile 8 file of
        None \<Rightarrow> Some (newest, (ob, n), clk)
      | Some _ \<Rightarrow> read_error ob n clk)"
| "ReadSamplesLoop L (Suc count) file newest (ob, n) clk =
     (case ReadFromFile 8 file of
        None \<Rightarrow> read_error ob n clk
      | Some (ts, file) \<Rightarrow> do {
          (r, clk) \<leftarrow> ReadSample L (o_bufferedType ob) (of_nat (le_value ts)) file clk;
          case r of
            None \<Rightarrow> read_error ob n clk
          | Some (s, file) \<Rightarrow>
              ReadSamplesLoop L count file (Some s)
                (if count \<noteq> 0 then AddToBuffer s ob n else (ob, n)) clk
        })"

subsection \<open>Writing a backup\<close>

text \<open>The bytes of a backup file; \<open>Some None\<close> if writing them fails.\<close>

definition backup_bytes :: "io_DataType_t \<Rightarrow> Observation_t \<Rightarrow> string option option" where
  "backup_bytes currentType ob = do {
     file \<leftarrow> WriteToStream [CHR 0x00] [];
     file \<leftarrow> WriteToStream [GetDataTypeCode currentType] file;
     file \<leftarrow> WriteToStream (le_bytes 4 (o_count ob)) file;
     WriteSamplesToFile (o_bufferedType ob) (o_sampleList ob) file
   }"

definition Backup :: "legato \<Rightarrow> rid \<Rightarrow> hub \<Rightarrow> hub option" where
  "Backup L r h = do {
     ob \<leftarrow> get_obs h r;
     let now = fst (clk_relative L (clock h));
     let h1 = put_obs r (ob\<lparr>o_backupTimer := None, o_lastBackupTime := word_of_int now\<rparr>)
                (h\<lparr>clock := clock h + 1\<rparr>);
     (result, path) \<leftarrow> GetBackupFilePath L (MAX_BACKUP_FILE_PATH_BYTES L) r h1;
     if result \<noteq> LE_OK then Some h1
     else if \<not> fs_ok L path (clock h1) then Some h1
     else do {
       t \<leftarrow> res_GetDataType h1 r;
       bytes \<leftarrow> backup_bytes t ob;
       Some (case bytes of
               None \<Rightarrow> h1
             | Some file \<Rightarrow> h1\<lparr>backupFiles := (backupFiles h1)(path \<mapsto> file)\<rparr>)
     }
   }"

definition DisableBackups :: "legato \<Rightarrow> rid \<Rightarrow> hub \<Rightarrow> hub option" where
  "DisableBackups L r h = do {
     ob \<leftarrow> get_obs h r;
     DeleteBackup L r (put_obs r (ob\<lparr>o_backupTimer := None, o_lastBackupTime := 0\<rparr>) h)
   }"

text \<open>The timer's event; it can occur only while the timer runs.\<close>

definition BackupTimerExpired :: "legato \<Rightarrow> rid \<Rightarrow> hub \<Rightarrow> hub option" where
  "BackupTimerExpired L r h = do {
     ob \<leftarrow> get_obs h r;
     le_assert (o_backupTimer ob \<noteq> None);
     Backup L r h
   }"

subsection \<open>Reading what was written\<close>

text \<open>
  Everything between opening the file and pushing the newest sample: the version, the type, the count
  and the samples.
\<close>

definition read_backup ::
  "legato \<Rightarrow> string \<Rightarrow> Observation_t \<times> nat \<Rightarrow> nat \<Rightarrow>
   (dataSample_Ref_t option \<times> (Observation_t \<times> nat) \<times> nat) option" where
  "read_backup L file q clk =
     (case q of (ob, n) \<Rightarrow>
     (case ReadFromFile 1 file of
        None \<Rightarrow> Some (None, (ob, n), clk)
      | Some (version, file) \<Rightarrow>
          if version \<noteq> [CHR 0x00] then Some (None, (ob, n), clk)
          else (case ReadFromFile 1 file of
            None \<Rightarrow> Some (None, (ob, n), clk)
          | Some (code, file) \<Rightarrow>
              (case GetDataTypeFromCode (hd code) of
                 None \<Rightarrow> Some (None, (ob, n), clk)
               | Some t \<Rightarrow>
                   let ob = ob\<lparr>o_bufferedType := t\<rparr> in
                   (case ReadFromFile 4 file of
                      None \<Rightarrow> Some (None, (ob, n), clk)
                    | Some (cnt, file) \<Rightarrow>
                        let count = le_value cnt;
                            ob = (if o_maxCount ob = 0 then ob\<lparr>o_maxCount := count\<rparr> else ob)
                        in if count = 0 then Some (None, (ob, n), clk)
                           else ReadSamplesLoop L count file None (ob, n) clk)))))"

lemma length_le_bytes [simp]: "length (le_bytes n v) = n"
  by (induction n arbitrary: v) auto

lemma le_value_bytes: "v < 256 ^ n \<Longrightarrow> le_value (le_bytes n v) = v"
proof (induction n arbitrary: v)
  case (Suc n)
  then have "v div 256 < 256 ^ n" by (simp add: less_mult_imp_div_less)
  then show ?case using Suc.IH [of "v div 256"] by simp
qed simp

lemma le_bytes_double [simp]: "of_nat (le_value (le_bytes 8 (unat d))) = (d :: double)"
proof -
  have "unat d < 256 ^ 8" using unsigned_less [of d] by simp
  then show ?thesis by (simp add: le_value_bytes)
qed

lemma ReadFromFile_append [simp]: "length s = n \<Longrightarrow> ReadFromFile n (s @ rest) = Some (s, rest)"
  by (auto simp: ReadFromFile_def)

lemma ReadFromFile_all [simp]: "length s = n \<Longrightarrow> ReadFromFile n s = Some (s, [])"
  by (auto simp: ReadFromFile_def)

lemma GetDataTypeFromCode_code [simp]: "GetDataTypeFromCode (GetDataTypeCode t) = Some t"
  by (cases t) (simp_all add: GetDataTypeFromCode_def)

lemma WriteToStream_all:
  "\<forall>i \<in> set items. i \<noteq> [] \<Longrightarrow> fold_option WriteToStream items f = Some (f @ concat items)"
  by (induction items arbitrary: f) (auto simp: WriteToStream_def)

text \<open>
  A sample of a type that can be restored: its value is of the type, a string is neither empty nor
  longer than a value may be and has no terminator in it, and the timestamp is not the one that
  stands for now.
\<close>

definition restorable :: "io_DataType_t \<Rightarrow> dataSample_Ref_t \<Rightarrow> bool" where
  "restorable t s \<longleftrightarrow>
     sample_ok t s \<and> (t = IO_DATA_TYPE_TRIGGER \<longrightarrow> sample_val s = VTrigger) \<and>
     \<not> dbl_eq (timestamp s) IO_NOW \<and>
     (case sample_val s of
        VStr v \<Rightarrow> v \<noteq> [] \<and> CHR 0x00 \<notin> set v \<and> length v \<le> IO_MAX_STRING_VALUE_LEN
      | _ \<Rightarrow> True)"

definition sample_bytes :: "io_DataType_t \<Rightarrow> dataSample_Ref_t \<Rightarrow> string" where
  "sample_bytes t s =
     le_bytes 8 (unat (timestamp s)) @ (case value_items t s of None \<Rightarrow> [] | Some items \<Rightarrow> concat items)"

lemma restorable_items:
  assumes "restorable t s"
  obtains items where "value_items t s = Some items" "\<forall>i \<in> set items. i \<noteq> []"
    "sample_bytes t s = le_bytes 8 (unat (timestamp s)) @ concat items"
proof -
  have "le_bytes 4 k \<noteq> []" "le_bytes 8 k \<noteq> []" "le_bytes 1 k \<noteq> []" for k
    by (metis length_le_bytes list.size(3) zero_neq_numeral zero_neq_one)+
  then have "\<exists>items. value_items t s = Some items \<and> (\<forall>i \<in> set items. i \<noteq> [])"
    using assms
    by (cases t; cases "sample_val s")
      (auto simp: restorable_def value_items_def sample_ok_def dataSample_GetBoolean_def
        dataSample_GetNumeric_def dataSample_GetString_def dataSample_GetJson_def)
  then show ?thesis using that by (auto simp: sample_bytes_def)
qed

lemma WriteSamplesToFile_bytes:
  "\<forall>b \<in> set bs. restorable t (snd b) \<Longrightarrow>
   WriteSamplesToFile t bs f = Some (Some (f @ concat (map (sample_bytes t \<circ> snd) bs)))"
proof (induction bs arbitrary: f)
  case (Cons b bs)
  obtain items where i: "value_items t (snd b) = Some items" "\<forall>i \<in> set items. i \<noteq> []"
    "sample_bytes t (snd b) = le_bytes 8 (unat (timestamp (snd b))) @ concat items"
    using restorable_items [of t "snd b"] Cons.prems by auto
  have "le_bytes 8 (unat (timestamp (snd b))) \<noteq> []"
    by (metis length_le_bytes list.size(3) zero_neq_numeral)
  then have "fold_option WriteToStream (le_bytes 8 (unat (timestamp (snd b))) # items) f
      = Some (f @ sample_bytes t (snd b))"
    using WriteToStream_all [of "le_bytes 8 (unat (timestamp (snd b))) # items" f] i by simp
  then show ?case
    using Cons i(1) by (simp add: dataSample_GetTimestamp_def)
qed simp

lemma ReadString_bytes:
  assumes "CHR 0x00 \<notin> set v" "length v \<le> IO_MAX_STRING_VALUE_LEN"
  shows "ReadString (le_bytes 4 (length v) @ v @ rest) = Some (v, rest)"
proof -
  have "le_value (le_bytes 4 (length v)) = length v"
    using assms(2) by (intro le_value_bytes) (simp add: IO_MAX_STRING_VALUE_LEN_def)
  moreover have "takeWhile (\<lambda>c. c \<noteq> CHR 0x00) v = v"
    using assms(1) by (auto simp: takeWhile_eq_all_conv)
  ultimately show ?thesis using assms(2) by (simp add: ReadString_def)
qed

lemma CreateSample_at:
  "\<not> dbl_eq ts IO_NOW \<Longrightarrow> CreateSample L ts v clk = (\<lparr> timestamp = ts, sample_val = v \<rparr>, clk)"
  by (simp add: CreateSample_def)

lemma CreateString_at:
  assumes "utf8_copy_ok L" "\<not> dbl_eq ts IO_NOW" "length v \<le> IO_MAX_STRING_VALUE_LEN"
  shows "dataSample_CreateString L ts v clk = Some (\<lparr> timestamp = ts, sample_val = VStr v \<rparr>, clk)"
proof -
  have "length v < (if IsSmallString v then SMALL_STRING_BYTES else HUB_MAX_STRING_BYTES)"
    using assms(3) by (simp add: IsSmallString_def IO_MAX_STRING_VALUE_LEN_def HUB_MAX_STRING_BYTES_def)
  then show ?thesis
    using assms(1,2) by (simp add: dataSample_CreateString_def CreateSample_at)
qed

lemma ReadSample_bytes:
  assumes "utf8_copy_ok L" "restorable t s" "value_items t s = Some items"
  shows "ReadSample L t (timestamp s) (concat items @ rest) clk = Some (Some (s, rest), clk)"
proof -
  have n: "\<not> dbl_eq (timestamp s) IO_NOW" using assms(2) by (simp add: restorable_def)
  show ?thesis
    using assms n ReadString_bytes [of _ rest]
    by (cases s; cases t; cases "sample_val s")
      (auto simp: restorable_def ReadSample_def value_items_def sample_ok_def CreateSample_at CreateString_at
        dataSample_CreateTrigger_def dataSample_CreateBoolean_def dataSample_CreateNumeric_def
        dataSample_CreateJson_def dataSample_GetBoolean_def dataSample_GetNumeric_def
        dataSample_GetString_def dataSample_GetJson_def ReadFromFile_def)
qed

text \<open>A file that starts with samples is read back: all but the last go to the buffer.\<close>

lemma ReadSamplesLoop_bytes:
  assumes "utf8_copy_ok L" "\<forall>s \<in> set ss. restorable t s" "buffer_ok ob n" "o_bufferedType ob = t"
    "successively (\<lambda>a b. \<not> older b a) (contents (ob, n) @ ss)"
  shows "\<exists>ob' n'. ReadSamplesLoop L (length ss) (concat (map (sample_bytes t) ss)) newest (ob, n) clk
      = Some (if ss = [] then newest else Some (last ss), (ob', n'), clk)
    \<and> contents (ob', n') = contents (ob, n) @ butlast ss \<and> buffer_ok ob' n'
    \<and> ob' = with_list ob (o_sampleList ob')"
  using assms(2-)
proof (induction ss arbitrary: newest ob n)
  case Nil
  have "ReadFromFile 8 [] = None" by (simp add: ReadFromFile_def)
  then show ?case using Nil.prems with_list_same [OF Nil.prems(2)] by simp
next
  case (Cons s ss)
  obtain items where i: "value_items t s = Some items"
    "sample_bytes t s = le_bytes 8 (unat (timestamp s)) @ concat items"
    using restorable_items [of t s] Cons.prems(1) by (metis list.set_intros(1))
  define q where "q = (if length ss \<noteq> 0 then AddToBuffer s ob n else (ob, n))"
  have step: "ReadSamplesLoop L (length (s # ss)) (concat (map (sample_bytes t) (s # ss))) newest (ob, n) clk
      = ReadSamplesLoop L (length ss) (concat (map (sample_bytes t) ss)) (Some s) q clk"
    using ReadSample_bytes [OF assms(1) _ i(1), of "concat (map (sample_bytes t) ss)" clk] i(2) Cons.prems(1,3)
    by (simp add: q_def)
  show ?case
  proof (cases "ss = []")
    case True
    then have q: "q = (ob, n)" by (simp add: q_def)
    show ?thesis
      using Cons.IH [of ob n "Some s"] Cons.prems step q True by (simp add: successively_append_iff)
  next
    case False
    obtain ob1 n1 where a: "AddToBuffer s ob n = (ob1, n1)" by force
    have o: "in_order (contents (ob, n)) s"
      using Cons.prems(4) by (auto simp: in_order_def successively_append_iff)
    have "sample_ok (o_bufferedType ob) s"
      using Cons.prems(1,3) by (simp add: restorable_def)
    note ok = AddToBuffer_ok [OF Cons.prems(2) this a]
    have t1: "o_bufferedType ob1 = t" using ok Cons.prems(3) by (metis with_list_simps(3))
    have c1: "contents (ob1, n1) = contents (ob, n) @ [s]" using ok o by simp
    obtain ob' n' where r: "ReadSamplesLoop L (length ss) (concat (map (sample_bytes t) ss)) (Some s) (ob1, n1) clk
        = Some (Some (last ss), (ob', n'), clk)" "contents (ob', n') = contents (ob1, n1) @ butlast ss"
      "buffer_ok ob' n'" "ob' = with_list ob1 (o_sampleList ob')"
      using Cons.IH [of ob1 n1 "Some s"] ok t1 c1 Cons.prems False by auto
    have "ob' = with_list ob (o_sampleList ob')"
      using r(4) ok by (metis with_list_simps(5))
    then show ?thesis
      using step r False a c1 by (simp add: q_def)
  qed
qed

lemma backup_bytes_roundtrip:
  assumes "utf8_copy_ok L" "buffer_ok ob n" "o_sampleList ob \<noteq> []" "length (o_sampleList ob) < 2 ^ 32"
    "\<forall>b \<in> set (o_sampleList ob). restorable (o_bufferedType ob) (snd b)"
    "o_sampleList ob1 = []" "o_count ob1 = 0"
  shows "\<exists>file ob' n' newest. backup_bytes (o_bufferedType ob) ob = Some (Some file)
    \<and> read_backup L file (ob1, n1) clk = Some (Some newest, (ob', n'), clk)
    \<and> contents (ob', n') @ [newest] = contents (ob, n)
    \<and> o_bufferedType ob' = o_bufferedType ob \<and> buffer_ok ob' n'
    \<and> o_maxCount ob' = (if o_maxCount ob1 = 0 then o_count ob else o_maxCount ob1)"
proof -
  define t where "t = o_bufferedType ob"
  define ss where "ss = map snd (o_sampleList ob)"
  define ob2 where "ob2 = ob1\<lparr>o_bufferedType := t,
    o_maxCount := (if o_maxCount ob1 = 0 then o_count ob else o_maxCount ob1)\<rparr>"
  define data where "data = CHR 0x00 # GetDataTypeCode t # le_bytes 4 (o_count ob)
    @ concat (map (sample_bytes t) ss)"
  have len: "o_count ob = length ss" "ss \<noteq> []"
    using assms(2,3) by (simp_all add: buffer_ok_def ss_def)
  have nz: "le_bytes 4 (o_count ob) \<noteq> []"
    by (metis length_le_bytes list.size(3) zero_neq_numeral)
  have w: "backup_bytes t ob = Some (Some data)"
    using WriteSamplesToFile_bytes [of "o_sampleList ob" t] assms(5) nz
    by (simp add: backup_bytes_def WriteToStream_def data_def ss_def t_def [symmetric] comp_def)
  have "le_value (le_bytes 4 (o_count ob)) = o_count ob"
    using assms(4) len by (intro le_value_bytes) (simp add: ss_def)
  then have r: "read_backup L data (ob1, n1) clk
      = ReadSamplesLoop L (length ss) (concat (map (sample_bytes t) ss)) None (ob2, n1) clk"
    using len ReadFromFile_append [of "[CHR 0x00]" 1] ReadFromFile_append [of "[GetDataTypeCode t]" 1]
    by (simp add: read_backup_def data_def ob2_def Let_def)
  have ok2: "buffer_ok ob2 n1" "o_bufferedType ob2 = t" "contents (ob2, n1) = []"
    using assms(6,7) by (simp_all add: buffer_ok_def ob2_def contents_def)
  have "successively (\<lambda>a b. \<not> older b a) ss"
    using assms(2) by (simp add: ss_def successively_map buffer_ok_def)
  moreover have "\<forall>s \<in> set ss. restorable t s"
    using assms(5) by (auto simp: ss_def t_def)
  ultimately obtain ob' n' where l: "ReadSamplesLoop L (length ss) (concat (map (sample_bytes t) ss)) None (ob2, n1) clk
      = Some (Some (last ss), (ob', n'), clk)" "contents (ob', n') = butlast ss" "buffer_ok ob' n'"
    "ob' = with_list ob2 (o_sampleList ob')"
    using ReadSamplesLoop_bytes [OF assms(1) _ ok2(1,2), of ss None clk] ok2(3) len(2) by auto
  have "o_bufferedType ob' = t" "o_maxCount ob' = o_maxCount ob2"
    using l(4) ok2(2) by (metis with_list_simps(3), metis with_list_simps(4))
  then show ?thesis
    using w r l len(2) by (simp add: t_def contents_def ss_def [symmetric] ob2_def)
qed

lemma GetBackupFilePath_put_obs:
  "GetBackupFilePath L n r (put_obs r ob (h\<lparr>clock := clk\<rparr>)) = GetBackupFilePath L n r h"
proof -
  let ?h = "put_obs r ob (h\<lparr>clock := clk\<rparr>)"
  have e: "entries ?h = entries h" "RootPtr ?h = RootPtr h" "nextEntry ?h = nextEntry h"
    by (simp_all add: put_obs_def put_res_def split: option.split)
  then have names: "same_names h ?h" by (simp add: same_names_def)
  have "(resources ?h r \<bind> r_entryRef) = (resources h r \<bind> r_entryRef)"
    by (simp add: put_obs_def put_res_def split: option.split)
  then have "(resources ?h r \<bind> (\<lambda>x. r_entryRef x \<bind> k)) = (resources h r \<bind> (\<lambda>x. r_entryRef x \<bind> k))" for k :: "eid \<Rightarrow> 'a option"
    unfolding bind_assoc [symmetric] by (rule arg_cong)
  note q = this
  show ?thesis
    unfolding GetBackupFilePath_def resTree_GetPath_def resTree_GetRoot_def e
    by (simp only: same_names_FindEntry [OF names] get_path_cong [OF e(1,2)] q)
qed

text \<open>
  C10: what a backup writes is what is read back. When the file can be opened, the type that the resource
  has now is that of the buffered samples, and these can be stored, \<open>Backup\<close> puts a file where the
  path of the observation says, and reading this file into an empty buffer gives the type, all samples but the
  newest, in order, and the newest one to be pushed.
\<close>

theorem backup_roundtrip:
  assumes "utf8_copy_ok L" "get_obs h r = Some ob" "res_GetDataType h r = Some (o_bufferedType ob)"
    "GetBackupFilePath L (MAX_BACKUP_FILE_PATH_BYTES L) r h = Some (LE_OK, path)" "fs_ok L path (clock h + 1)"
    "buffer_ok ob n" "o_sampleList ob \<noteq> []" "length (o_sampleList ob) < 2 ^ 32"
    "\<forall>b \<in> set (o_sampleList ob). restorable (o_bufferedType ob) (snd b)"
    "o_sampleList ob1 = []" "o_count ob1 = 0"
  shows "\<exists>h' bytes ob' n' newest. Backup L r h = Some h'
    \<and> backupFiles h' = (backupFiles h)(path \<mapsto> bytes)
    \<and> read_backup L bytes (ob1, n1) clk = Some (Some newest, (ob', n'), clk)
    \<and> contents (ob', n') @ [newest] = contents (ob, n)
    \<and> o_bufferedType ob' = o_bufferedType ob \<and> buffer_ok ob' n'
    \<and> o_maxCount ob' = (if o_maxCount ob1 = 0 then o_count ob else o_maxCount ob1)"
proof -
  obtain bytes ob' n' newest where f: "backup_bytes (o_bufferedType ob) ob = Some (Some bytes)"
    "read_backup L bytes (ob1, n1) clk = Some (Some newest, (ob', n'), clk)"
    "contents (ob', n') @ [newest] = contents (ob, n)" "o_bufferedType ob' = o_bufferedType ob" "buffer_ok ob' n'"
    "o_maxCount ob' = (if o_maxCount ob1 = 0 then o_count ob else o_maxCount ob1)"
    using backup_bytes_roundtrip [OF assms(1,6-11)] by blast
  define h1 where "h1 = put_obs r (ob\<lparr>o_backupTimer := None,
    o_lastBackupTime := word_of_int (fst (clk_relative L (clock h)))\<rparr>) (h\<lparr>clock := clock h + 1\<rparr>)"
  have path: "GetBackupFilePath L (MAX_BACKUP_FILE_PATH_BYTES L) r h1 = Some (LE_OK, path)"
    unfolding h1_def GetBackupFilePath_put_obs by (rule assms(4))
  obtain x where "resources h r = Some x" "r_currentType x = o_bufferedType ob"
    using assms(3) by (auto simp: res_GetDataType_def bind_eq_Some_conv)
  then have h1: "clock h1 = clock h + 1" "res_GetDataType h1 r = Some (o_bufferedType ob)" "backupFiles h1 = backupFiles h"
    by (simp_all add: h1_def put_obs_def put_res_def res_GetDataType_def)
  have "Backup L r h = Some (h1\<lparr>backupFiles := (backupFiles h1)(path \<mapsto> bytes)\<rparr>)"
    unfolding Backup_def assms(2) Option.bind.bind_lunit Let_def h1_def [symmetric]
    using assms(5) path h1 f(1) by simp
  moreover have "backupFiles (h1\<lparr>backupFiles := (backupFiles h1)(path \<mapsto> bytes)\<rparr>) = (backupFiles h)(path \<mapsto> bytes)"
    using h1(3) by simp
  ultimately show ?thesis using f(2-6) by blast
qed

text \<open>A hub with an observation at \<open>/obs/x\<close>, and one with two samples.\<close>

definition obs_hub :: "Observation_t \<Rightarrow> hub" where
  "obs_hub ob = initial_hub\<lparr>
     entries := [0 \<mapsto> \<lparr> e_parentPtr = None, e_name = [], e_childList = [1],
                       e_type = ADMIN_ENTRY_TYPE_NAMESPACE, e_resourcePtr = None, e_refCount = 2 \<rparr>,
                 1 \<mapsto> \<lparr> e_parentPtr = Some 0, e_name = ''obs'', e_childList = [2],
                       e_type = ADMIN_ENTRY_TYPE_NAMESPACE, e_resourcePtr = None, e_refCount = 1 \<rparr>,
                 2 \<mapsto> \<lparr> e_parentPtr = Some 1, e_name = ''x'', e_childList = [],
                       e_type = ADMIN_ENTRY_TYPE_OBSERVATION, e_resourcePtr = Some 0, e_refCount = 1 \<rparr>],
     nextEntry := 3,
     resources := [0 \<mapsto> (res_Construct 2)\<lparr>r_sub := Observation ob\<rparr>],
     nextRes := 1\<rparr>"

lemma obs_hub_simps [simp]:
  "resources (obs_hub ob) 0 = Some ((res_Construct 2)\<lparr>r_sub := Observation ob\<rparr>)"
  "entry_type_of (obs_hub ob) 0 = Some ADMIN_ENTRY_TYPE_OBSERVATION"
  "get_obs (obs_hub ob) 0 = Some ob" "nextBuff (obs_hub ob) = 0" "clock (obs_hub ob) = 0"
  by (simp_all add: obs_hub_def entry_type_of_def resTree_GetEntryType_def res_Construct_def get_obs_def
      initial_hub_def)

definition two_samples :: Observation_t where
  "two_samples = with_list number_obs [(0, number_at 1 5), (1, number_at 2 7)]"

definition backup_hub :: hub where
  "backup_hub = put_res 0 ((res_Construct 2)\<lparr>r_sub := Observation two_samples, r_currentType := IO_DATA_TYPE_NUMERIC\<rparr>)
     (obs_hub two_samples)"

lemma backup_roundtrip_witness:
  "\<exists>h' path bytes ob n. Backup sample_legato 0 backup_hub = Some h' \<and> backupFiles h' = [path \<mapsto> bytes]
    \<and> read_backup sample_legato bytes (number_obs\<lparr>o_maxCount := 0\<rparr>, 2) 0 = Some (Some (number_at 2 7), (ob, n), 0)
    \<and> contents (ob, n) = [number_at 1 5] \<and> o_maxCount ob = 2"
proof -
  have h: "get_obs backup_hub 0 = Some two_samples" "res_GetDataType backup_hub 0 = Some (o_bufferedType two_samples)"
    "backupFiles backup_hub = Map.empty"
    by (simp_all add: backup_hub_def get_obs_def res_GetDataType_def put_res_def two_samples_def number_obs_def obs_hub_def
        initial_hub_def)
  have "map_option fst (GetBackupFilePath sample_legato (MAX_BACKUP_FILE_PATH_BYTES sample_legato) 0 backup_hub) = Some LE_OK"
    by code_simp
  then obtain path where p: "GetBackupFilePath sample_legato (MAX_BACKUP_FILE_PATH_BYTES sample_legato) 0 backup_hub = Some (LE_OK, path)"
    by auto
  have open_ok: "fs_ok sample_legato path (clock backup_hub + 1)" by (simp add: sample_legato_def)
  have ok: "buffer_ok two_samples 2"
    unfolding buffer_ok_def by code_simp
  have bs: "o_sampleList two_samples = [(0, number_at 1 5), (1, number_at 2 7)]" "o_count two_samples = 2"
    "o_bufferedType two_samples = IO_DATA_TYPE_NUMERIC"
    by (simp_all add: two_samples_def number_obs_def)
  have "restorable IO_DATA_TYPE_NUMERIC (number_at 1 5)" "restorable IO_DATA_TYPE_NUMERIC (number_at 2 7)"
    unfolding restorable_def by code_simp+
  then have r: "\<forall>b \<in> set (o_sampleList two_samples). restorable (o_bufferedType two_samples) (snd b)"
    by (simp add: bs)
  have e: "o_sampleList (number_obs\<lparr>o_maxCount := 0\<rparr>) = []" "o_count (number_obs\<lparr>o_maxCount := 0\<rparr>) = 0"
    by (simp_all add: number_obs_def)
  have l: "o_sampleList two_samples \<noteq> []" "length (o_sampleList two_samples) < 2 ^ 32"
    by (simp_all add: bs)
  obtain h' bytes ob' n' newest where r: "Backup sample_legato 0 backup_hub = Some h'"
    "backupFiles h' = (backupFiles backup_hub)(path \<mapsto> bytes)"
    "read_backup sample_legato bytes (number_obs\<lparr>o_maxCount := 0\<rparr>, 2) 0 = Some (Some newest, (ob', n'), 0)"
    "contents (ob', n') @ [newest] = contents (two_samples, 2)" "o_maxCount ob' = 2"
    using backup_roundtrip [OF sample_legato_ok h(1,2) p open_ok ok l r e, of 2 0] bs(2) by (auto simp: number_obs_def)
  moreover have "newest = number_at 2 7" "contents (ob', n') = [number_at 1 5]"
    using r(4) by (auto simp: contents_def bs append_eq_Cons_conv Cons_eq_append_conv)
  ultimately show ?thesis using h(3) by auto
qed

lemma WriteSamplesToFile_empty:
  assumes "t \<in> {IO_DATA_TYPE_STRING, IO_DATA_TYPE_JSON}" "\<forall>b \<in> set bs. sample_ok t (snd b)"
    "\<exists>b \<in> set bs. sample_val (snd b) = VStr []"
  shows "WriteSamplesToFile t bs f = Some None"
  using assms(2,3)
proof (induction bs arbitrary: f)
  case (Cons b bs)
  obtain v where v: "sample_val (snd b) = VStr v"
    using Cons.prems(1) assms(1) by (auto simp: sample_ok_def)
  have i: "value_items t (snd b) = Some [le_bytes 4 (length v), v]"
    using assms(1) v by (auto simp: value_items_def dataSample_GetString_def dataSample_GetJson_def)
  show ?case
  proof (cases "v = []")
    case True
    then show ?thesis using i by (simp add: WriteToStream_def bind_eq_None_conv)
  next
    case False
    then show ?thesis
      using Cons i v by (auto simp: WriteToStream_def split: option.splits)
  qed
qed simp

text \<open>
  A buffer of strings that holds an empty string cannot be backed up: writing the zero bytes of the
  string counts as a failed write, the stream is cancelled and no new file is committed.
\<close>

theorem empty_string_no_backup:
  assumes "buffer_ok ob n" "o_bufferedType ob \<in> {IO_DATA_TYPE_STRING, IO_DATA_TYPE_JSON}"
    "\<exists>s \<in> set (contents (ob, n)). sample_val s = VStr []"
  shows "backup_bytes t ob = Some None"
proof -
  have "le_bytes 4 (o_count ob) \<noteq> []"
    by (metis length_le_bytes list.size(3) zero_neq_numeral)
  moreover have "\<forall>b \<in> set (o_sampleList ob). sample_ok (o_bufferedType ob) (snd b)"
    using assms(1) by (simp add: buffer_ok_def)
  moreover have "\<exists>b \<in> set (o_sampleList ob). sample_val (snd b) = VStr []"
    using assms(3) by (auto simp: contents_def)
  ultimately show ?thesis
    using WriteSamplesToFile_empty [OF assms(2)] by (simp add: backup_bytes_def WriteToStream_def)
qed

lemma empty_string_no_backup_witness:
  "backup_bytes IO_DATA_TYPE_STRING
     (with_list (number_obs\<lparr>o_bufferedType := IO_DATA_TYPE_STRING\<rparr>)
        [(0, \<lparr> timestamp = dbl_of_int 1, sample_val = VStr [] \<rparr>)]) = Some None"
  by (rule empty_string_no_backup [where n = 1])
    (simp_all add: buffer_ok_def number_obs_def sample_ok_def contents_def)

end
