(* ===== verification/IoPoint.thy ===== *)
theory IoPoint
  imports Handler
begin

text \<open>
  Inputs and outputs, \<open>src/apps/DataHub/components/dataHub/ioPoint.c\<close>: their creation, their fixed
  data type, and the conversion of a sample of any type to it.
\<close>

subsection \<open>Creation\<close>

definition ioPoint_Create :: "io_DataType_t \<Rightarrow> eid \<Rightarrow> hub \<Rightarrow> rid \<times> hub" where
  "ioPoint_Create t e h =
     alloc_res ((res_Construct e)\<lparr>r_sub := IoPoint \<lparr> io_dataType = t, io_isMandatory = False \<rparr>\<rparr>) h"

definition ioPoint_CreateInput :: "io_DataType_t \<Rightarrow> eid \<Rightarrow> hub \<Rightarrow> rid \<times> hub" where
  "ioPoint_CreateInput t e h = ioPoint_Create t e h"

definition ioPoint_CreateOutput :: "io_DataType_t \<Rightarrow> eid \<Rightarrow> hub \<Rightarrow> (rid \<times> hub) option" where
  "ioPoint_CreateOutput t e h = do {
     let (r, h') = ioPoint_Create t e h;
     x \<leftarrow> resources h' r;
     p \<leftarrow> io_part x;
     Some (r, put_res r (x\<lparr>r_sub := IoPoint (p\<lparr>io_isMandatory := True\<rparr>)\<rparr>) h')
   }"

definition ioPoint_GetDataType :: "hub \<Rightarrow> rid \<Rightarrow> io_DataType_t option" where
  "ioPoint_GetDataType h r = do { x \<leftarrow> resources h r; p \<leftarrow> io_part x; Some (io_dataType p) }"

definition ioPoint_MarkOptional :: "rid \<Rightarrow> hub \<Rightarrow> hub option" where
  "ioPoint_MarkOptional r h = do {
     x \<leftarrow> resources h r;
     p \<leftarrow> io_part x;
     Some (put_res r (x\<lparr>r_sub := IoPoint (p\<lparr>io_isMandatory := False\<rparr>)\<rparr>) h)
   }"

definition ioPoint_IsMandatory :: "hub \<Rightarrow> rid \<Rightarrow> bool option" where
  "ioPoint_IsMandatory h r = do { x \<leftarrow> resources h r; p \<leftarrow> io_part x; Some (io_isMandatory p) }"

subsection \<open>Type coercion\<close>

text \<open>The text of a number, as printed into a buffer of \<open>HUB_MAX_STRING_BYTES\<close>.\<close>

definition number_string :: "double \<Rightarrow> string" where
  "number_string d = (let s = dbl_format d in if length s \<ge> HUB_MAX_STRING_BYTES then [] else s)"

text \<open>
  A string between quotes, printed into a buffer of \<open>HUB_MAX_STRING_BYTES\<close>. When it does not fit, the
  code writes a quote and then a terminator at index \<open>sizeof (newValue - 2)\<close>, which is
  \<open>sizeof (newValue - 1)\<close>: the size of a pointer, 4.
\<close>

definition quoted_string :: "string \<Rightarrow> string" where
  "quoted_string s =
     (if length s + 2 \<ge> HUB_MAX_STRING_BYTES then take 4 (CHR 0x22 # s)
      else CHR 0x22 # s @ [CHR 0x22])"

text \<open>The new sample, or \<open>None\<close> (inside \<open>Some\<close>) when the sample already has the right type.\<close>

definition new_sample :: "dataSample_Ref_t \<times> nat \<Rightarrow> dataSample_Ref_t option \<times> nat" where
  "new_sample p = (Some (fst p), snd p)"

definition coerce ::
  "legato \<Rightarrow> io_DataType_t \<Rightarrow> io_DataType_t \<Rightarrow> dataSample_Ref_t \<Rightarrow> nat \<Rightarrow>
   (dataSample_Ref_t option \<times> nat) option" where
  "coerce L toType fromType s clk =
     (let ts = dataSample_GetTimestamp s in
      case toType of
        IO_DATA_TYPE_TRIGGER \<Rightarrow>
          if fromType \<noteq> IO_DATA_TYPE_TRIGGER
          then Some (new_sample (dataSample_CreateTrigger L ts clk)) else Some (None, clk)
      | IO_DATA_TYPE_BOOLEAN \<Rightarrow>
          (case fromType of
             IO_DATA_TYPE_TRIGGER \<Rightarrow> Some (new_sample (dataSample_CreateBoolean L ts False clk))
           | IO_DATA_TYPE_BOOLEAN \<Rightarrow> Some (None, clk)
           | IO_DATA_TYPE_NUMERIC \<Rightarrow> do {
               v \<leftarrow> dataSample_GetNumeric s;
               Some (new_sample (dataSample_CreateBoolean L ts (\<not> dbl_eq v (dbl_of_int 0)) clk))
             }
           | IO_DATA_TYPE_STRING \<Rightarrow> do {
               v \<leftarrow> dataSample_GetString s;
               Some (new_sample (dataSample_CreateBoolean L ts (v \<noteq> []) clk))
             }
           | IO_DATA_TYPE_JSON \<Rightarrow> do {
               v \<leftarrow> dataSample_GetJson s;
               Some (new_sample (dataSample_CreateBoolean L ts (json_ConvertToBoolean v) clk))
             })
      | IO_DATA_TYPE_NUMERIC \<Rightarrow>
          (case fromType of
             IO_DATA_TYPE_TRIGGER \<Rightarrow> Some (new_sample (dataSample_CreateNumeric L ts NAN clk))
           | IO_DATA_TYPE_BOOLEAN \<Rightarrow> do {
               b \<leftarrow> dataSample_GetBoolean s;
               Some (new_sample (dataSample_CreateNumeric L ts (dbl_of_int (if b then 1 else 0)) clk))
             }
           | IO_DATA_TYPE_NUMERIC \<Rightarrow> Some (None, clk)
           | IO_DATA_TYPE_STRING \<Rightarrow> do {
               v \<leftarrow> dataSample_GetString s;
               Some (new_sample (dataSample_CreateNumeric L ts (dbl_of_int (if v = [] then 0 else 1)) clk))
             }
           | IO_DATA_TYPE_JSON \<Rightarrow> do {
               v \<leftarrow> dataSample_GetJson s;
               Some (new_sample (dataSample_CreateNumeric L ts (json_ConvertToNumber v) clk))
             })
      | IO_DATA_TYPE_STRING \<Rightarrow>
          (case fromType of
             IO_DATA_TYPE_TRIGGER \<Rightarrow> do {
               p \<leftarrow> dataSample_CreateString L ts [] clk;
               Some (new_sample p)
             }
           | IO_DATA_TYPE_BOOLEAN \<Rightarrow> do {
               b \<leftarrow> dataSample_GetBoolean s;
               p \<leftarrow> dataSample_CreateString L ts (if b then ''true'' else ''false'') clk;
               Some (new_sample p)
             }
           | IO_DATA_TYPE_NUMERIC \<Rightarrow> do {
               v \<leftarrow> dataSample_GetNumeric s;
               p \<leftarrow> dataSample_CreateString L ts (number_string v) clk;
               Some (new_sample p)
             }
           | IO_DATA_TYPE_STRING \<Rightarrow> Some (None, clk)
           | IO_DATA_TYPE_JSON \<Rightarrow> do {
               v \<leftarrow> dataSample_GetJson s;
               p \<leftarrow> dataSample_CreateString L ts v clk;
               Some (new_sample p)
             })
      | IO_DATA_TYPE_JSON \<Rightarrow>
          (case fromType of
             IO_DATA_TYPE_TRIGGER \<Rightarrow> do {
               p \<leftarrow> dataSample_CreateJson L ts ''null'' clk;
               Some (new_sample p)
             }
           | IO_DATA_TYPE_BOOLEAN \<Rightarrow> do {
               b \<leftarrow> dataSample_GetBoolean s;
               p \<leftarrow> dataSample_CreateJson L ts (if b then ''true'' else ''false'') clk;
               Some (new_sample p)
             }
           | IO_DATA_TYPE_NUMERIC \<Rightarrow> do {
               v \<leftarrow> dataSample_GetNumeric s;
               p \<leftarrow> dataSample_CreateJson L ts (number_string v) clk;
               Some (new_sample p)
             }
           | IO_DATA_TYPE_STRING \<Rightarrow> do {
               v \<leftarrow> dataSample_GetString s;
               p \<leftarrow> dataSample_CreateJson L ts (quoted_string v) clk;
               Some (new_sample p)
             }
           | IO_DATA_TYPE_JSON \<Rightarrow> Some (None, clk)))"

definition ioPoint_DoTypeCoercion ::
  "legato \<Rightarrow> rid \<Rightarrow> io_DataType_t \<Rightarrow> dataSample_Ref_t \<Rightarrow> hub \<Rightarrow>
   (io_DataType_t \<times> dataSample_Ref_t \<times> hub) option" where
  "ioPoint_DoTypeCoercion L r fromType fromSample h = do {
     toType \<leftarrow> ioPoint_GetDataType h r;
     (toSample, clk) \<leftarrow> coerce L toType fromType fromSample (clock h);
     let h' = h\<lparr>clock := clk\<rparr>;
     case toSample of
       Some s \<Rightarrow> Some (toType, s, h')
     | None \<Rightarrow> Some (fromType, fromSample, h')
   }"

subsection \<open>The conversion table\<close>

text \<open>What a value of one type becomes as a value of another.\<close>

fun converted :: "io_DataType_t \<Rightarrow> io_DataType_t \<Rightarrow> sample_value \<Rightarrow> sample_value" where
  "converted IO_DATA_TYPE_TRIGGER from v = (if from = IO_DATA_TYPE_TRIGGER then v else VTrigger)"
| "converted IO_DATA_TYPE_BOOLEAN from v =
     (case v of
        VNum d \<Rightarrow> if from = IO_DATA_TYPE_NUMERIC then VBool (\<not> dbl_eq d (dbl_of_int 0)) else VBool False
      | VStr s \<Rightarrow> VBool (if from = IO_DATA_TYPE_JSON then json_ConvertToBoolean s else s \<noteq> [])
      | VBool b \<Rightarrow> if from = IO_DATA_TYPE_BOOLEAN then VBool b else VBool False
      | VTrigger \<Rightarrow> VBool False)"
| "converted IO_DATA_TYPE_NUMERIC from v =
     (case v of
        VNum d \<Rightarrow> if from = IO_DATA_TYPE_NUMERIC then VNum d else VNum NAN
      | VStr s \<Rightarrow> VNum (if from = IO_DATA_TYPE_JSON then json_ConvertToNumber s
                     else dbl_of_int (if s = [] then 0 else 1))
      | VBool b \<Rightarrow> if from = IO_DATA_TYPE_BOOLEAN then VNum (dbl_of_int (if b then 1 else 0)) else VNum NAN
      | VTrigger \<Rightarrow> VNum NAN)"
| "converted IO_DATA_TYPE_STRING from v =
     (case v of
        VNum d \<Rightarrow> VStr (if from = IO_DATA_TYPE_NUMERIC then number_string d else [])
      | VStr s \<Rightarrow> VStr s
      | VBool b \<Rightarrow> VStr (if from = IO_DATA_TYPE_BOOLEAN then if b then ''true'' else ''false'' else [])
      | VTrigger \<Rightarrow> VStr [])"
| "converted IO_DATA_TYPE_JSON from v =
     (case v of
        VNum d \<Rightarrow> VStr (if from = IO_DATA_TYPE_NUMERIC then number_string d else ''null'')
      | VStr s \<Rightarrow> VStr (if from = IO_DATA_TYPE_JSON then s else quoted_string s)
      | VBool b \<Rightarrow> VStr (if from = IO_DATA_TYPE_BOOLEAN then if b then ''true'' else ''false'' else ''null'')
      | VTrigger \<Rightarrow> VStr ''null'')"

lemma converted_type: "value_of_type from v \<Longrightarrow> value_of_type to (converted to from v)"
  by (cases to; cases "from"; cases v) auto

text \<open>A value that fits the largest sample block.\<close>

definition fits :: "sample_value \<Rightarrow> bool" where
  "fits v = (case v of VStr s \<Rightarrow> length s < HUB_MAX_STRING_BYTES | _ \<Rightarrow> True)"

lemma number_string_fits: "length (number_string d) < HUB_MAX_STRING_BYTES"
  by (simp add: number_string_def Let_def HUB_MAX_STRING_BYTES_def)

lemma quoted_string_fits: "length (quoted_string s) < HUB_MAX_STRING_BYTES"
  by (auto simp: quoted_string_def HUB_MAX_STRING_BYTES_def)

lemma converted_fits: "value_of_type from v \<Longrightarrow> fits v \<Longrightarrow> fits (converted to from v)"
  using number_string_fits quoted_string_fits
  by (cases to; cases "from"; cases v) (auto simp: fits_def HUB_MAX_STRING_BYTES_def)

lemma Create_now:
  assumes "\<not> dbl_eq ts IO_NOW"
  shows "dataSample_CreateTrigger L ts clk = (\<lparr> timestamp = ts, sample_val = VTrigger \<rparr>, clk)"
    "dataSample_CreateBoolean L ts b clk = (\<lparr> timestamp = ts, sample_val = VBool b \<rparr>, clk)"
    "dataSample_CreateNumeric L ts d clk = (\<lparr> timestamp = ts, sample_val = VNum d \<rparr>, clk)"
    "utf8_copy_ok L \<Longrightarrow> length s < HUB_MAX_STRING_BYTES \<Longrightarrow>
       dataSample_CreateString L ts s clk = Some (\<lparr> timestamp = ts, sample_val = VStr s \<rparr>, clk)"
    "utf8_copy_ok L \<Longrightarrow> length s < HUB_MAX_STRING_BYTES \<Longrightarrow>
       dataSample_CreateJson L ts s clk = Some (\<lparr> timestamp = ts, sample_val = VStr s \<rparr>, clk)"
  using assms
  by (simp_all add: dataSample_CreateTrigger_def dataSample_CreateBoolean_def
      dataSample_CreateNumeric_def dataSample_CreateJson_def CreateString_fits CreateSample_timestamp)

lemma short_fits [simp]:
  "0 < HUB_MAX_STRING_BYTES" "Suc (Suc (Suc (Suc 0))) < HUB_MAX_STRING_BYTES"
  "Suc (Suc (Suc (Suc (Suc 0)))) < HUB_MAX_STRING_BYTES"
  by (simp_all add: HUB_MAX_STRING_BYTES_def)

text \<open>
  The type of a pushed sample is coerced by the conversion table: the result has the type of the
  input or output, the timestamp of the pushed sample and the converted value.
\<close>

theorem DoTypeCoercion_table:
  assumes "utf8_copy_ok L" "sample_ok from s" "fits (sample_val s)" "\<not> dbl_eq (timestamp s) IO_NOW"
    "ioPoint_GetDataType h r = Some to"
  shows "ioPoint_DoTypeCoercion L r from s h =
     Some (to, \<lparr> timestamp = timestamp s, sample_val = converted to from (sample_val s) \<rparr>, h)
   \<and> value_of_type to (converted to from (sample_val s))"
proof -
  let ?v = "converted to from (sample_val s)"
  have v: "value_of_type from (sample_val s)" using assms(2) by (simp add: sample_ok_def)
  have s: "s = \<lparr> timestamp = timestamp s, sample_val = sample_val s \<rparr>" by simp
  note defs = coerce_def Let_def dataSample_GetTimestamp_def new_sample_def
    dataSample_GetBoolean_def dataSample_GetNumeric_def dataSample_GetString_def dataSample_GetJson_def
  have "coerce L to from s (clock h) =
      Some (if to = from then None else Some \<lparr> timestamp = timestamp s, sample_val = ?v \<rparr>, clock h)"
    using v assms(1,3) number_string_fits quoted_string_fits
    by (cases to; cases "from") (auto simp: defs Create_now [OF assms(4)] fits_def split: sample_value.splits)
  moreover have "?v = sample_val s" if "to = from" using that v by (cases to) auto
  ultimately show ?thesis
    using assms(5) converted_type [OF v] s by (auto simp: ioPoint_DoTypeCoercion_def)
qed

lemma DoTypeCoercion_table_witness:
  "\<exists>h r. ioPoint_DoTypeCoercion sample_legato r IO_DATA_TYPE_BOOLEAN \<lparr> timestamp = 1, sample_val = VBool True \<rparr> h
     = Some (IO_DATA_TYPE_STRING, \<lparr> timestamp = 1, sample_val = VStr ''true'' \<rparr>, h)"
proof -
  let ?h = "snd (ioPoint_Create IO_DATA_TYPE_STRING 1 initial_hub)"
  have t: "ioPoint_GetDataType ?h 0 = Some IO_DATA_TYPE_STRING"
    by (simp add: ioPoint_GetDataType_def ioPoint_Create_def alloc_res_def initial_hub_def io_part_def)
  have n: "\<not> dbl_eq (timestamp \<lparr> timestamp = 1, sample_val = VBool True \<rparr>) IO_NOW"
    by (simp add: dbl_eq_def dbl_fields IO_NOW_def dbl_arith)
  show ?thesis
    using DoTypeCoercion_table [OF sample_legato_ok _ _ n t, of IO_DATA_TYPE_BOOLEAN]
    by (auto simp: sample_ok_def fits_def)
qed

text \<open>
  A string too long to be quoted in the buffer is not truncated to a JSON string: four bytes
  with the opening quote are left, which is not JSON.
\<close>

theorem long_string_to_json:
  assumes "HUB_MAX_STRING_BYTES - 2 \<le> length s" "CHR 0x22 \<notin> set (take 3 s)"
  shows "converted IO_DATA_TYPE_JSON IO_DATA_TYPE_STRING (VStr s) = VStr (CHR 0x22 # take 3 s)
    \<and> \<not> json_IsValid (CHR 0x22 # take 3 s)"
proof -
  have q: "SkipStringLoop u = None" if "CHR 0x22 \<notin> set u" for u
    using that
  proof (induction u rule: SkipStringLoop.induct)
    case (2 c u)
    then show ?case by (cases u) auto
  qed simp
  then have "SkipValue (CHR 0x22 # take 3 s) = None"
    using assms(2) by (simp add: SkipValue.simps SkipString_def)
  then have "\<not> json_IsValid (CHR 0x22 # take 3 s)"
    by (simp add: json_IsValid_def SkipWhitespace_def)
  moreover have "quoted_string s = CHR 0x22 # take 3 s"
    using assms(1) by (simp add: quoted_string_def HUB_MAX_STRING_BYTES_def)
  ultimately show ?thesis by simp
qed

lemma long_string_to_json_witness:
  "\<not> json_IsValid (CHR 0x22 # take 3 (replicate 49999 (CHR ''a'')))"
  by (rule long_string_to_json [THEN conjunct2]) (simp_all add: HUB_MAX_STRING_BYTES_def)

end
