(* ===== verification/Obs.thy ===== *)
theory Obs
  imports Backup IoPoint
begin

text \<open>
  Observations as resources (\<open>obs.c\<close>): creation, extraction from JSON, the filter that decides which
  samples are accepted, buffering with backups, transforms, and the settings.
\<close>

subsection \<open>Access and creation\<close>

definition update_obs :: "rid \<Rightarrow> (Observation_t \<Rightarrow> Observation_t) \<Rightarrow> hub \<Rightarrow> hub option" where
  "update_obs r f h = do { ob \<leftarrow> get_obs h r; Some (put_obs r (f ob) h) }"

definition GetRelativeTimeMs :: "legato \<Rightarrow> nat \<Rightarrow> 32 word" where
  "GetRelativeTimeMs L clk =
     (let (sec, usec) = clk_relative L clk in word_of_int (sec * 1000 + usec div 1000))"

text \<open>The time of the last push is not initialised.\<close>

definition obs_Create :: "legato \<Rightarrow> eid \<Rightarrow> hub \<Rightarrow> rid \<times> hub" where
  "obs_Create L e h =
     alloc_res ((res_Construct e)\<lparr>r_sub := Observation
       \<lparr> o_highLimit = NAN, o_lowLimit = NAN, o_changeBy = NAN, o_minPeriod = NAN,
         o_lastPushTime = mem_junk L (nextRes h),
         o_transformType = OBS_TRANSFORM_TYPE_NONE,
         o_maxCount = 0, o_count = 0,
         o_bufferedType = IO_DATA_TYPE_TRIGGER,
         o_backupPeriod = 0, o_lastBackupTime = 0, o_backupTimer = None,
         o_sampleList = [], o_readOpList = [], o_jsonExtraction = [] \<rparr>\<rparr>) h"

text \<open>
  Whether an override is in effect (\<open>resource.c\<close>); inputs and outputs ignore an override of another
  type.
\<close>

definition res_IsOverridden :: "hub \<Rightarrow> rid \<Rightarrow> bool option" where
  "res_IsOverridden h r = do {
     x \<leftarrow> resources h r;
     entryType \<leftarrow> entry_type_of h r;
     if r_overrideValue x = None then Some False
     else if entryType \<noteq> ADMIN_ENTRY_TYPE_INPUT \<and> entryType \<noteq> ADMIN_ENTRY_TYPE_OUTPUT then Some True
     else do { t \<leftarrow> ioPoint_GetDataType h r; Some (r_overrideType x = t) }
   }"

subsection \<open>Extraction and filter\<close>

definition obs_DoJsonExtraction ::
  "legato \<Rightarrow> rid \<Rightarrow> io_DataType_t \<Rightarrow> dataSample_Ref_t \<Rightarrow> hub \<Rightarrow>
   ((le_result_t \<times> io_DataType_t \<times> dataSample_Ref_t) \<times> hub) option" where
  "obs_DoJsonExtraction L r t s h = do {
     ob \<leftarrow> get_obs h r;
     if o_jsonExtraction ob = [] then Some ((LE_OK, t, s), h)
     else if t \<noteq> IO_DATA_TYPE_JSON then Some ((LE_FAULT, t, s), h)
     else do {
       (extracted, clk) \<leftarrow> dataSample_ExtractJson L s (o_jsonExtraction ob) (clock h);
       Some (case extracted of
               None \<Rightarrow> (LE_FAULT, t, s)
             | Some (s', t') \<Rightarrow> (LE_OK, t', s'), h\<lparr>clock := clk\<rparr>)
     }
   }"

text \<open>The limits apply to numbers: a dead band between them when the low limit is above the high one.\<close>

definition outside_limits :: "Observation_t \<Rightarrow> double \<Rightarrow> bool" where
  "outside_limits ob v =
     (if \<not> isnan (o_highLimit ob) \<and> \<not> isnan (o_lowLimit ob) \<and> dbl_gt (o_lowLimit ob) (o_highLimit ob)
      then dbl_lt v (o_lowLimit ob) \<and> dbl_gt v (o_highLimit ob)
      else (\<not> isnan (o_lowLimit ob) \<and> dbl_lt v (o_lowLimit ob))
         \<or> (\<not> isnan (o_highLimit ob) \<and> dbl_gt v (o_highLimit ob)))"

text \<open>The filter on changes compares with the current value if that has the same type.\<close>

definition change_too_small ::
  "double \<Rightarrow> io_DataType_t \<Rightarrow> dataSample_Ref_t \<Rightarrow> dataSample_Ref_t \<Rightarrow> bool option" where
  "change_too_small changeBy t s previous =
     (case t of
        IO_DATA_TYPE_NUMERIC \<Rightarrow> do {
          v \<leftarrow> dataSample_GetNumeric s;
          p \<leftarrow> dataSample_GetNumeric previous;
          Some (dbl_lt (dbl_abs (dbl_sub v p)) changeBy)
        }
      | IO_DATA_TYPE_BOOLEAN \<Rightarrow> do {
          v \<leftarrow> dataSample_GetBoolean s;
          p \<leftarrow> dataSample_GetBoolean previous;
          Some (v = p)
        }
      | IO_DATA_TYPE_TRIGGER \<Rightarrow> Some False
      | _ \<Rightarrow> do {
          v \<leftarrow> dataSample_GetString s;
          p \<leftarrow> dataSample_GetString previous;
          Some (v = p)
        })"

definition enabled :: "double \<Rightarrow> bool" where
  "enabled d = (\<not> dbl_eq d (dbl_of_int 0) \<and> \<not> isnan d)"

definition rejected_by_change ::
  "hub \<Rightarrow> rid \<Rightarrow> Observation_t \<Rightarrow> io_DataType_t \<Rightarrow> dataSample_Ref_t \<Rightarrow> dataSample_Ref_t \<Rightarrow> bool option" where
  "rejected_by_change h r ob t s previous =
     (if enabled (o_changeBy ob) then do {
        ov \<leftarrow> res_IsOverridden h r;
        current \<leftarrow> res_GetDataType h r;
        if ov then Some True
        else if t = current then change_too_small (o_changeBy ob) t s previous
        else Some False
      }
      else Some False)"

text \<open>The period is compared in milliseconds, with the difference of the times in 32 bits.\<close>

definition too_soon :: "Observation_t \<Rightarrow> 32 word \<Rightarrow> bool" where
  "too_soon ob now =
     dbl_lt (dbl_of_int (uint (now - o_lastPushTime ob))) (dbl_mul (o_minPeriod ob) (dbl_of_int 1000))"

definition obs_ShouldAccept ::
  "legato \<Rightarrow> rid \<Rightarrow> io_DataType_t \<Rightarrow> dataSample_Ref_t \<Rightarrow> hub \<Rightarrow> (bool \<times> hub) option" where
  "obs_ShouldAccept L r t s h = do {
     ob \<leftarrow> get_obs h r;
     outside \<leftarrow> (if t = IO_DATA_TYPE_NUMERIC
                 then do { v \<leftarrow> dataSample_GetNumeric s; Some (outside_limits ob v) }
                 else Some False);
     if outside then Some (False, h)
     else do {
       previousValue \<leftarrow> res_GetCurrentValue h r;
       small \<leftarrow> (case previousValue of
                  None \<Rightarrow> Some False
                | Some previous \<Rightarrow> rejected_by_change h r ob t s previous);
       if small then Some (False, h)
       else
         let checkPeriod = (previousValue \<noteq> None \<and> enabled (o_minPeriod ob));
             now = (if checkPeriod then GetRelativeTimeMs L (clock h) else 0);
             h1 = (if checkPeriod then h\<lparr>clock := clock h + 1\<rparr> else h)
         in if checkPeriod \<and> too_soon ob now then Some (False, h1)
            else
              let now' = (if now = 0 then GetRelativeTimeMs L (clock h1) else now);
                  h2 = (if now = 0 then h1\<lparr>clock := clock h1 + 1\<rparr> else h1)
              in Some (True, put_obs r (ob\<lparr>o_lastPushTime := now'\<rparr>) h2)
     }
   }"

subsection \<open>Buffering and transforms\<close>

definition obs_ProcessAccepted ::
  "legato \<Rightarrow> rid \<Rightarrow> io_DataType_t \<Rightarrow> dataSample_Ref_t \<Rightarrow> hub \<Rightarrow> hub option" where
  "obs_ProcessAccepted L r t s h = do {
     ob \<leftarrow> get_obs h r;
     if o_maxCount ob = 0 then Some h
     else do {
       (ob, n) \<leftarrow> buffer_sample t s (ob, nextBuff h);
       let h = put_obs r ob (h\<lparr>nextBuff := n\<rparr>);
       if o_backupPeriod ob = 0 then Some h
       else
         let nextBackupTime = o_lastBackupTime ob + o_backupPeriod ob;
             now = word_of_int (fst (clk_relative L (clock h)));
             h = h\<lparr>clock := clock h + 1\<rparr>
         in if nextBackupTime \<le> now then Backup L r h
            else if o_backupTimer ob = None
            then Some (put_obs r (ob\<lparr>o_backupTimer := Some ((nextBackupTime - now) * 1000)\<rparr>) h)
            else Some h
     }
   }"

definition query_obs ::
  "(Observation_t \<Rightarrow> double \<Rightarrow> nat \<Rightarrow> (double \<times> nat) option) \<Rightarrow> rid \<Rightarrow> double \<Rightarrow> hub \<Rightarrow> (double \<times> hub) option" where
  "query_obs Q r startTime h = do {
     ob \<leftarrow> get_obs h r;
     (v, clk) \<leftarrow> Q ob startTime (clock h);
     Some (v, h\<lparr>clock := clk\<rparr>)
   }"

definition obs_QueryMin :: "legato \<Rightarrow> rid \<Rightarrow> double \<Rightarrow> hub \<Rightarrow> (double \<times> hub) option" where
  "obs_QueryMin L = query_obs (QueryMin L)"

definition obs_QueryMax :: "legato \<Rightarrow> rid \<Rightarrow> double \<Rightarrow> hub \<Rightarrow> (double \<times> hub) option" where
  "obs_QueryMax L = query_obs (QueryMax L)"

definition obs_QueryMean :: "legato \<Rightarrow> rid \<Rightarrow> double \<Rightarrow> hub \<Rightarrow> (double \<times> hub) option" where
  "obs_QueryMean L = query_obs (QueryMean L)"

definition obs_QueryStdDev :: "legato \<Rightarrow> rid \<Rightarrow> double \<Rightarrow> hub \<Rightarrow> (double \<times> hub) option" where
  "obs_QueryStdDev L = query_obs (QueryStdDev L)"

text \<open>A new sample with the given value if it differs; only Boolean and numeric samples change.\<close>

definition UpdateSample ::
  "legato \<Rightarrow> dataSample_Ref_t \<Rightarrow> io_DataType_t \<Rightarrow> double \<Rightarrow> nat \<Rightarrow> (dataSample_Ref_t \<times> nat) option" where
  "UpdateSample L s t v clk =
     (case t of
        IO_DATA_TYPE_BOOLEAN \<Rightarrow> do {
          b \<leftarrow> dataSample_GetBoolean s;
          let value = dbl_gt v (dbl_of_int 0);
          Some (if b \<noteq> value then dataSample_CreateBoolean L (dataSample_GetTimestamp s) value clk
                else (s, clk))
        }
      | IO_DATA_TYPE_NUMERIC \<Rightarrow> do {
          d \<leftarrow> dataSample_GetNumeric s;
          Some (if \<not> dbl_eq d v then dataSample_CreateNumeric L (dataSample_GetTimestamp s) v clk
                else (s, clk))
        }
      | _ \<Rightarrow> Some (s, clk))"

definition obs_ApplyTransform ::
  "legato \<Rightarrow> rid \<Rightarrow> io_DataType_t \<Rightarrow> dataSample_Ref_t \<Rightarrow> hub \<Rightarrow> (dataSample_Ref_t \<times> hub) option" where
  "obs_ApplyTransform L r t s h = do {
     ob \<leftarrow> get_obs h r;
     if o_transformType ob = OBS_TRANSFORM_TYPE_NONE then Some (s, h)
     else do {
       (transformVal, h) \<leftarrow>
         (case o_transformType ob of
            OBS_TRANSFORM_TYPE_MEAN \<Rightarrow> obs_QueryMean L r NAN h
          | OBS_TRANSFORM_TYPE_STDDEV \<Rightarrow> obs_QueryStdDev L r NAN h
          | OBS_TRANSFORM_TYPE_MAX \<Rightarrow> obs_QueryMax L r NAN h
          | _ \<Rightarrow> obs_QueryMin L r NAN h);
       (s', clk) \<leftarrow> UpdateSample L s t transformVal (clock h);
       Some (s', h\<lparr>clock := clk\<rparr>)
     }
   }"

subsection \<open>Settings\<close>

definition obs_SetMinPeriod :: "rid \<Rightarrow> double \<Rightarrow> hub \<Rightarrow> hub option" where
  "obs_SetMinPeriod r v = update_obs r (\<lambda>ob. ob\<lparr>o_minPeriod := v\<rparr>)"

definition obs_GetMinPeriod :: "hub \<Rightarrow> rid \<Rightarrow> double option" where
  "obs_GetMinPeriod h r = map_option o_minPeriod (get_obs h r)"

definition obs_SetHighLimit :: "rid \<Rightarrow> double \<Rightarrow> hub \<Rightarrow> hub option" where
  "obs_SetHighLimit r v = update_obs r (\<lambda>ob. ob\<lparr>o_highLimit := v\<rparr>)"

definition obs_GetHighLimit :: "hub \<Rightarrow> rid \<Rightarrow> double option" where
  "obs_GetHighLimit h r = map_option o_highLimit (get_obs h r)"

definition obs_SetLowLimit :: "rid \<Rightarrow> double \<Rightarrow> hub \<Rightarrow> hub option" where
  "obs_SetLowLimit r v = update_obs r (\<lambda>ob. ob\<lparr>o_lowLimit := v\<rparr>)"

definition obs_GetLowLimit :: "hub \<Rightarrow> rid \<Rightarrow> double option" where
  "obs_GetLowLimit h r = map_option o_lowLimit (get_obs h r)"

definition obs_SetChangeBy :: "rid \<Rightarrow> double \<Rightarrow> hub \<Rightarrow> hub option" where
  "obs_SetChangeBy r v = update_obs r (\<lambda>ob. ob\<lparr>o_changeBy := v\<rparr>)"

definition obs_GetChangeBy :: "hub \<Rightarrow> rid \<Rightarrow> double option" where
  "obs_GetChangeBy h r = map_option o_changeBy (get_obs h r)"

text \<open>Setting a transform empties the buffer and forgets the pushed value.\<close>

definition obs_SetTransform :: "rid \<Rightarrow> obs_TransformType_t \<Rightarrow> hub \<Rightarrow> hub option" where
  "obs_SetTransform r transformType h = do {
     ob \<leftarrow> get_obs h r;
     let ob = ob\<lparr>o_transformType := transformType\<rparr>;
     let ob = (if transformType \<noteq> OBS_TRANSFORM_TYPE_NONE \<and> o_maxCount ob = 0
               then ob\<lparr>o_maxCount := 1\<rparr> else ob);
     ob \<leftarrow> TruncateBuffer 0 ob;
     let h = put_obs r ob h;
     x \<leftarrow> resources h r;
     Some (put_res r (x\<lparr>r_pushedValue := None\<rparr>) h)
   }"

definition obs_GetTransform :: "hub \<Rightarrow> rid \<Rightarrow> obs_TransformType_t option" where
  "obs_GetTransform h r = map_option o_transformType (get_obs h r)"

definition obs_SetBufferMaxCount :: "legato \<Rightarrow> rid \<Rightarrow> 32 word \<Rightarrow> hub \<Rightarrow> hub option" where
  "obs_SetBufferMaxCount L r count h = do {
     ob \<leftarrow> get_obs h r;
     if o_maxCount ob = unat count then Some h
     else do {
       h \<leftarrow> (if count = 0 \<and> o_backupPeriod ob > 0 then DisableBackups L r h else Some h);
       ob \<leftarrow> get_obs h r;
       ob \<leftarrow> TruncateBuffer (unat count) (ob\<lparr>o_maxCount := unat count\<rparr>);
       Some (put_obs r ob h)
     }
   }"

definition obs_GetBufferMaxCount :: "hub \<Rightarrow> rid \<Rightarrow> 32 word option" where
  "obs_GetBufferMaxCount h r = map_option (\<lambda>ob. of_nat (o_maxCount ob)) (get_obs h r)"

definition obs_SetBufferBackupPeriod :: "legato \<Rightarrow> rid \<Rightarrow> 32 word \<Rightarrow> hub \<Rightarrow> hub option" where
  "obs_SetBufferBackupPeriod L r seconds h = do {
     ob \<leftarrow> get_obs h r;
     let oldPeriod = o_backupPeriod ob;
     if oldPeriod = seconds then Some h
     else
       let ob = ob\<lparr>o_backupPeriod := seconds\<rparr>; h = put_obs r ob h in
       if o_maxCount ob = 0 then Some h
       else if seconds = 0 then DisableBackups L r h
       else if o_sampleList ob = [] \<or> oldPeriod = 0 \<or> o_backupTimer ob = None then Some h
       else
         let nextBackupTime = o_lastBackupTime ob + seconds;
             now = word_of_int (fst (clk_relative L (clock h)));
             h = h\<lparr>clock := clock h + 1\<rparr>
         in if nextBackupTime < now then Backup L r (put_obs r (ob\<lparr>o_backupTimer := None\<rparr>) h)
            else Some (put_obs r (ob\<lparr>o_backupTimer := Some ((nextBackupTime - now) * 1000)\<rparr>) h)
   }"

definition obs_GetBufferBackupPeriod :: "hub \<Rightarrow> rid \<Rightarrow> 32 word option" where
  "obs_GetBufferBackupPeriod h r = map_option o_backupPeriod (get_obs h r)"

definition ADMIN_MAX_JSON_EXTRACTOR_LEN :: nat where
  "ADMIN_MAX_JSON_EXTRACTOR_LEN = 63"

definition obs_SetJsonExtraction :: "legato \<Rightarrow> rid \<Rightarrow> string \<Rightarrow> hub \<Rightarrow> hub option" where
  "obs_SetJsonExtraction L r extractionSpec h = do {
     ob \<leftarrow> get_obs h r;
     let (result, copied) = utf8_Copy L extractionSpec (ADMIN_MAX_JSON_EXTRACTOR_LEN + 1);
     le_assert (result = LE_OK);
     Some (put_obs r (ob\<lparr>o_jsonExtraction := copied\<rparr>) h)
   }"

definition obs_GetJsonExtraction :: "hub \<Rightarrow> rid \<Rightarrow> string option" where
  "obs_GetJsonExtraction h r = map_option o_jsonExtraction (get_obs h r)"

definition obs_FindBufferedSampleAfter ::
  "legato \<Rightarrow> rid \<Rightarrow> double \<Rightarrow> hub \<Rightarrow> (dataSample_Ref_t option \<times> hub) option" where
  "obs_FindBufferedSampleAfter L r startAfter h = do {
     ob \<leftarrow> get_obs h r;
     let (s, clk) = FindBufferedSampleAfter L ob startAfter (clock h);
     Some (s, h\<lparr>clock := clk\<rparr>)
   }"

subsection \<open>Clean-up of backup files\<close>

text \<open>The text before the first occurrence of the suffix, as \<open>strstr\<close> finds it.\<close>

fun before_suffix :: "string \<Rightarrow> string \<Rightarrow> string option" where
  "before_suffix suf s =
     (if prefix suf s then Some []
      else (case s of [] \<Rightarrow> None | c # cs \<Rightarrow> map_option ((#) c) (before_suffix suf cs)))"

declare before_suffix.simps [simp del]

text \<open>Whether a regular file of the backup directory is to be deleted.\<close>

definition BackupDirTreeWalkCallback :: "legato \<Rightarrow> hub \<Rightarrow> string \<Rightarrow> bool option" where
  "BackupDirTreeWalkCallback L h fpath =
     (let relPath = drop (length (BACKUP_DIR L)) fpath in
      case before_suffix BACKUP_SUFFIX relPath of
        None \<Rightarrow> Some False
      | Some obsName \<Rightarrow>
          if length obsName + 6 \<ge> HUB_MAX_RESOURCE_PATH_BYTES then Some False
          else do {
            found \<leftarrow> resTree_FindEntry L h (resTree_GetRoot h) (''/obs/'' @ obsName);
            case found of
              None \<Rightarrow> Some True
            | Some e \<Rightarrow> do {
                t \<leftarrow> resTree_GetEntryType h e;
                if t \<noteq> ADMIN_ENTRY_TYPE_OBSERVATION then Some True
                else do {
                  x \<leftarrow> entries h e;
                  r \<leftarrow> e_resourcePtr x;
                  p \<leftarrow> obs_GetBufferBackupPeriod h r;
                  Some (p = 0)
                }
              }
          })"

text \<open>The walk visits every file below the directory; removing empty directories is not modelled.\<close>

definition obs_DeleteUnusedBackupFiles :: "legato \<Rightarrow> hub \<Rightarrow> hub" where
  "obs_DeleteUnusedBackupFiles L h =
     h\<lparr>backupFiles := (\<lambda>p.
        if prefix (BACKUP_DIR L) p \<and> BackupDirTreeWalkCallback L h p = Some True \<and> fs_ok L p (clock h)
        then None else backupFiles h p)\<rparr>"

end
