(* ===== verification/ObsSpec.thy ===== *)
theory ObsSpec
  imports Obs
begin

text \<open>
  What the operations on observations promise: with well-formed samples and a well-formed tree they
  never stop the daemon, they change nothing but the observation they are for, and they keep its buffer
  well-formed and bounded. The filter lets through what its settings allow.
\<close>

subsection \<open>Samples\<close>

definition sample_fine :: "io_DataType_t \<Rightarrow> dataSample_Ref_t \<Rightarrow> bool" where
  "sample_fine t s \<longleftrightarrow> sample_ok t s \<and> fits (sample_val s)"

lemma CreateSample_fine:
  "value_of_type t v \<Longrightarrow> fits v \<Longrightarrow> sample_fine t (fst (CreateSample L ts v clk))"
  by (simp add: sample_fine_def sample_ok_def)

lemma CreateSample_total:
  "value_of_type t v \<Longrightarrow> fits v \<Longrightarrow> \<exists>s clk'. CreateSample L ts v clk = (s, clk') \<and> sample_fine t s"
  using CreateSample_fine [of t v L ts clk] by (cases "CreateSample L ts v clk") auto

lemma Create_fine [simp]:
  "sample_fine IO_DATA_TYPE_TRIGGER (fst (dataSample_CreateTrigger L ts clk))"
  "sample_fine IO_DATA_TYPE_BOOLEAN (fst (dataSample_CreateBoolean L ts b clk))"
  "sample_fine IO_DATA_TYPE_NUMERIC (fst (dataSample_CreateNumeric L ts d clk))"
  by (simp_all add: dataSample_CreateTrigger_def dataSample_CreateBoolean_def dataSample_CreateNumeric_def
      CreateSample_fine fits_def)

lemma CreateString_total:
  assumes "utf8_copy_ok L" "length v < HUB_MAX_STRING_BYTES" "t \<in> {IO_DATA_TYPE_STRING, IO_DATA_TYPE_JSON}"
  shows "\<exists>s clk'. dataSample_CreateString L ts v clk = Some (s, clk') \<and> sample_fine t s"
  using assms CreateSample_total [of t "VStr v" L ts clk] by (auto simp: CreateString_fits fits_def)

lemma coerce_total:
  assumes "utf8_copy_ok L" "sample_fine from s"
  shows "\<exists>r clk'. coerce L to from s clk = Some (r, clk') \<and>
    (case r of None \<Rightarrow> to = from | Some s' \<Rightarrow> sample_fine to s')"
proof -
  have v: "value_of_type from (sample_val s)" "fits (sample_val s)"
    using assms(2) by (simp_all add: sample_fine_def sample_ok_def)
  have str: "\<exists>p. dataSample_CreateString L ts w clk = Some p \<and> sample_fine IO_DATA_TYPE_STRING (fst p)"
    "\<exists>p. dataSample_CreateJson L ts w clk = Some p \<and> sample_fine IO_DATA_TYPE_JSON (fst p)"
    if "length w < HUB_MAX_STRING_BYTES" for w ts
    using CreateString_total [OF assms(1) that, of _ ts clk] by (force simp: dataSample_CreateJson_def)+
  note get = coerce_def Let_def new_sample_def dataSample_GetBoolean_def dataSample_GetNumeric_def
    dataSample_GetString_def dataSample_GetJson_def
  show ?thesis
  proof (cases to)
    case IO_DATA_TYPE_STRING
    define w where "w = (case converted to from (sample_val s) of VStr w \<Rightarrow> w | _ \<Rightarrow> [])"
    have w: "length w < HUB_MAX_STRING_BYTES"
      using converted_fits [OF v, of to] by (auto simp: w_def fits_def split: sample_value.splits)
    have "coerce L IO_DATA_TYPE_STRING from s clk =
        map_option new_sample (dataSample_CreateString L (dataSample_GetTimestamp s) w clk)"
      if "from \<noteq> IO_DATA_TYPE_STRING"
      using v that unfolding w_def IO_DATA_TYPE_STRING
      by (cases "from"; cases "sample_val s") (simp_all add: get bind_option_case split: option.splits)
    then show ?thesis
      using IO_DATA_TYPE_STRING str(1) [OF w, of "dataSample_GetTimestamp s"]
      by (cases "from = IO_DATA_TYPE_STRING") (auto simp: get)
  next
    case IO_DATA_TYPE_JSON
    define w where "w = (case converted to from (sample_val s) of VStr w \<Rightarrow> w | _ \<Rightarrow> [])"
    have w: "length w < HUB_MAX_STRING_BYTES"
      using converted_fits [OF v, of to] by (auto simp: w_def fits_def split: sample_value.splits)
    have "coerce L IO_DATA_TYPE_JSON from s clk =
        map_option new_sample (dataSample_CreateJson L (dataSample_GetTimestamp s) w clk)"
      if "from \<noteq> IO_DATA_TYPE_JSON"
      using v that unfolding w_def IO_DATA_TYPE_JSON
      by (cases "from"; cases "sample_val s") (simp_all add: get bind_option_case split: option.splits)
    then show ?thesis
      using IO_DATA_TYPE_JSON str(2) [OF w, of "dataSample_GetTimestamp s"]
      by (cases "from = IO_DATA_TYPE_JSON") (auto simp: get)
  qed (use v in \<open>cases "from"; cases "sample_val s"; auto simp: get\<close>)+
qed

lemma DoTypeCoercion_total:
  assumes "utf8_copy_ok L" "sample_fine from s" "ioPoint_GetDataType h r = Some to"
  shows "\<exists>s' clk'. ioPoint_DoTypeCoercion L r from s h = Some (to, s', h\<lparr>clock := clk'\<rparr>) \<and> sample_fine to s'"
proof -
  obtain r' clk' where c: "coerce L to from s (clock h) = Some (r', clk')"
    "case r' of None \<Rightarrow> to = from | Some s' \<Rightarrow> sample_fine to s'"
    using coerce_total [OF assms(1,2)] by blast
  show ?thesis
  proof (cases r')
    case None
    then show ?thesis using c assms(2,3) by (simp add: ioPoint_DoTypeCoercion_def) blast
  next
    case (Some s')
    then show ?thesis using c assms(3) by (simp add: ioPoint_DoTypeCoercion_def) blast
  qed
qed

lemma extract_part_ok:
  "extract_part v k n True ty = (LE_OK, b, t) \<Longrightarrow> \<exists>s. b = Some s \<and> t = Some ty \<and> length s < n"
  by (auto simp: extract_part_def split: if_splits)

lemma extract_literal_ok:
  assumes "utf8_copy_ok L" "extract_literal L word n True ty = Some (LE_OK, b, t)" "length word < n"
  shows "\<exists>s. b = Some s \<and> t = Some ty \<and> length s < n"
  using assms by (auto simp: extract_literal_def)

lemma GoToMemberLoop_OK: "GoToMemberLoop v n = (LE_OK, r) \<Longrightarrow> r \<noteq> None"
proof (induction v n rule: GoToMemberLoop.induct)
  case (1 v n)
  show ?case
    using 1(1) 1(2)
    unfolding GoToMemberLoop.simps [of v n] by (auto simp: Let_def split: if_splits option.splits)
qed

lemma GoToElementLoop_OK: "GoToElementLoop v n = (LE_OK, r) \<Longrightarrow> r \<noteq> None"
  by (induction v n rule: GoToElementLoop.induct) (auto split: if_splits option.splits)

lemma Find_OK: "Find v sp = (LE_OK, r) \<Longrightarrow> r \<noteq> None"
proof (induction v sp rule: Find.induct)
  case (1 v sp)
  have "GoToElement v n = (LE_OK, r) \<Longrightarrow> r \<noteq> None" "GoToMember v m = (LE_OK, r) \<Longrightarrow> r \<noteq> None" for n m r
    using GoToElementLoop_OK GoToMemberLoop_OK by (auto simp: GoToElement_def GoToMember_def split: if_splits)
  then show ?case
    using 1(1-2) 1(3)
    unfolding Find.simps [of v sp]
    by (fastforce simp: Let_def split: if_splits option.splits prod.splits le_result_t.splits)
qed

lemma json_Extract_total:
  assumes "utf8_copy_ok L" "6 < n"
  obtains r b t where "json_Extract L n v sp True = Some (r, b, t)"
    "r = LE_OK \<Longrightarrow> \<exists>s ty. b = Some s \<and> t = Some ty \<and> length s < n"
proof -
  have lit: "\<exists>r b t. extract_literal L word n True ty = Some (r, b, t) \<and>
      (r = LE_OK \<longrightarrow> (\<exists>s ty. b = Some s \<and> t = Some ty \<and> length s < n))" if "length word < n" for word ty
    using that assms(1) by (simp add: extract_literal_def)
  have part: "\<exists>r b t. extract_part w k n True ty = (r, b, t) \<and>
      (r = LE_OK \<longrightarrow> (\<exists>s ty. b = Some s \<and> t = Some ty \<and> length s < n))" for w k ty
    by (auto simp: extract_part_def min_less_iff_disj)
  have "\<exists>r b t. json_Extract L n v sp True = Some (r, b, t) \<and>
      (r = LE_OK \<longrightarrow> (\<exists>s ty. b = Some s \<and> t = Some ty \<and> length s < n))"
  proof (cases "Find v sp")
    case (Pair r p)
    show ?thesis
    proof (cases "r = LE_OK")
      case True
      then obtain w where p: "p = Some w" using Find_OK [of v sp p] Pair by auto
      show ?thesis
        using lit [of "''true''"] lit [of "''false''"] lit [of "''null''"] part assms(2) Pair True p
        unfolding json_Extract_def
        by (auto simp: Let_def split: option.splits)
    next
      case False
      then show ?thesis using Pair by (cases r) (simp_all add: json_Extract_def)
    qed
  qed
  then show ?thesis using that by blast
qed

lemma sample_of_json_total:
  assumes "utf8_copy_ok L" "length b < HUB_MAX_STRING_BYTES"
  shows "\<exists>s t clk'. sample_of_json L ts ty b clk = Some ((s, t), clk') \<and> sample_fine t s"
proof -
  have "\<exists>s clk'. dataSample_CreateString L ts b clk = Some (s, clk') \<and> sample_fine IO_DATA_TYPE_STRING s"
    "\<exists>s clk'. dataSample_CreateString L ts b clk = Some (s, clk') \<and> sample_fine IO_DATA_TYPE_JSON s"
    using CreateString_total [OF assms, of _ ts clk] by simp_all
  then show ?thesis
    using Create_fine(1) [of L ts clk] Create_fine(2) [of L ts "json_ConvertToBoolean b" clk]
      Create_fine(3) [of L ts "json_ConvertToNumber b" clk]
    by (cases ty) (auto simp: sample_of_json_def dataSample_CreateJson_def Let_def case_prod_beta)
qed

lemma ExtractJson_total:
  assumes "utf8_copy_ok L" "sample_fine IO_DATA_TYPE_JSON s"
  shows "\<exists>r clk'. dataSample_ExtractJson L s spec clk = Some (r, clk') \<and>
    (case r of None \<Rightarrow> True | Some (s', t') \<Rightarrow> sample_fine t' s')"
proof -
  obtain v where v: "dataSample_GetJson s = Some v"
    using assms(2) by (auto simp: sample_fine_def sample_ok_def dataSample_GetJson_def)
  obtain r b t where e: "json_Extract L HUB_MAX_STRING_BYTES v spec True = Some (r, b, t)"
    "r = LE_OK \<Longrightarrow> \<exists>s ty. b = Some s \<and> t = Some ty \<and> length s < HUB_MAX_STRING_BYTES"
    by (rule json_Extract_total [OF assms(1), of HUB_MAX_STRING_BYTES v spec])
      (simp_all add: HUB_MAX_STRING_BYTES_def)
  show ?thesis
  proof (cases "r = LE_OK")
    case True
    then obtain w ty where "b = Some w" "t = Some ty" "length w < HUB_MAX_STRING_BYTES" using e(2) by blast
    then show ?thesis
      using sample_of_json_total [OF assms(1), of w "dataSample_GetTimestamp s" ty clk] v e(1) True
      by (auto simp: dataSample_ExtractJson_def)
  next
    case False
    then show ?thesis using v e(1) by (simp add: dataSample_ExtractJson_def)
  qed
qed

subsection \<open>Backups never stop the daemon\<close>

lemma get_path_total:
  assumes "tree_ok L h" "entries h e \<noteq> None" "e < k" "0 < n"
  shows "\<exists>r s. get_path L k n base e h = Some (r, s)"
  using assms(2,3)
proof (induction k arbitrary: e)
  case (Suc k)
  obtain x where x: "entries h e = Some x" using Suc.prems(1) by auto
  show ?case
  proof (cases "e = base \<or> e = RootPtr h")
    case True
    moreover have "e = RootPtr h \<Longrightarrow> e_parentPtr x = None"
      using tree_okD(3) [OF assms(1) x] by (simp add: parent_ok_def)
    ultimately show ?thesis using x assms(4) by auto
  next
    case False
    obtain p y where p: "e_parentPtr x = Some p" "p < e" "entries h p = Some y"
      using tree_ok_parent [OF assms(1) x] False by metis
    obtain r s where g: "get_path L k n base p h = Some (r, s)"
      using Suc.IH [of p] p Suc.prems(2) by auto
    show ?thesis using x p False g by (cases r) (auto simp: Let_def split: prod.splits)
  qed
qed simp

lemma GetPath_total:
  assumes "tree_ok L h" "entries h e \<noteq> None" "0 < n"
  shows "\<exists>r s. resTree_GetPath L h n base e = Some (r, s)"
proof -
  obtain x where "entries h e = Some x" using assms(2) by auto
  then have "e < Suc (nextEntry h)" using tree_okD(1) [OF assms(1)] by fastforce
  then show ?thesis using get_path_total [OF assms(1,2) _ assms(3)]
    by (simp add: resTree_GetPath_def del: get_path.simps)
qed

text \<open>The namespace that holds the observations.\<close>

definition obs_namespace :: "hub \<Rightarrow> bool" where
  "obs_namespace h \<longleftrightarrow>
     (\<exists>x c. entries h (RootPtr h) = Some x \<and> c \<in> set (e_childList x) \<and> name_of h c = ''obs'')"

lemma find_obs_namespace:
  assumes "tree_ok L h" "obs_namespace h" "4 \<le> HUB_MAX_ENTRY_NAME_BYTES L"
  shows "\<exists>c. resTree_FindEntry L h (RootPtr h) ''obs'' = Some (Some c)"
proof -
  obtain x c where c: "entries h (RootPtr h) = Some x" "c \<in> set (e_childList x)" "name_of h c = ''obs''"
    using assms(2) by (auto simp: obs_namespace_def)
  have "GoToEntryLoop L (RootPtr h) ''obs'' False h = GoToEntryLoop L c [] False h"
    using GoToEntryLoop_step [of "''obs''" "''obs''" "''obs''" "[]" L "RootPtr h" False h]
      FindChild_child [OF assms(1) c(1,2)] c(3) assms(3) by simp
  then show ?thesis
    by (simp add: resTree_FindEntry_def GoToEntry_def illegal_in_path_def GoToEntryLoop.simps [of L c "[]"])
qed

text \<open>An observation that is attached to a live entry below a root with the namespace for observations.\<close>

definition obs_attached :: "legato \<Rightarrow> hub \<Rightarrow> rid \<Rightarrow> bool" where
  "obs_attached L h r \<longleftrightarrow>
     tree_ok L h \<and> obs_namespace h \<and> 4 \<le> HUB_MAX_ENTRY_NAME_BYTES L \<and>
     (\<exists>x e. resources h r = Some x \<and> r_entryRef x = Some e \<and> entries h e \<noteq> None)"

lemma GetBackupFilePath_total:
  assumes "utf8_copy_ok L" "obs_attached L h r" "length (BACKUP_DIR L) < n"
  shows "\<exists>res path. GetBackupFilePath L n r h = Some (res, path)"
proof -
  obtain x e where x: "resources h r = Some x" "r_entryRef x = Some e" "entries h e \<noteq> None"
    using assms(2) by (auto simp: obs_attached_def)
  obtain c where c: "resTree_FindEntry L h (RootPtr h) ''obs'' = Some (Some c)"
    using find_obs_namespace assms(2) by (auto simp: obs_attached_def)
  obtain res s where "resTree_GetPath L h (n - length (BACKUP_DIR L)) c e = Some (res, s)"
    using GetPath_total [of L h e] x(3) assms(2,3) by (fastforce simp: obs_attached_def)
  then show ?thesis
    using x c assms(1,3)
    by (cases res) (auto simp: GetBackupFilePath_def resTree_GetRoot_def Let_def split: prod.splits)
qed

subsection \<open>What an operation on an observation changes\<close>

text \<open>
  Only the observation itself, the clock, the numbers for buffer entries and the backup files change;
  the buffer is well-formed and bounded afterwards.
\<close>

definition obs_ok :: "Observation_t \<Rightarrow> nat \<Rightarrow> bool" where
  "obs_ok ob n \<longleftrightarrow> buffer_ok ob n \<and> length (o_sampleList ob) \<le> o_maxCount ob"

definition obs_changed :: "rid \<Rightarrow> hub \<Rightarrow> hub \<Rightarrow> bool" where
  "obs_changed r h h' \<longleftrightarrow>
     (\<exists>ob clk n files. h' = put_obs r ob (h\<lparr>clock := clk, nextBuff := n, backupFiles := files\<rparr>)
        \<and> nextBuff h \<le> n \<and> obs_ok ob n)"

lemma hub_update_order: "h\<lparr>nextBuff := n, clock := c\<rparr> = h\<lparr>clock := c, nextBuff := n\<rparr>"
  by simp

lemma put_obs_frame:
  "put_obs r ob (h\<lparr>clock := a\<rparr>) = (put_obs r ob h)\<lparr>clock := a\<rparr>"
  "put_obs r ob (h\<lparr>nextBuff := b\<rparr>) = (put_obs r ob h)\<lparr>nextBuff := b\<rparr>"
  "put_obs r ob (h\<lparr>backupFiles := c\<rparr>) = (put_obs r ob h)\<lparr>backupFiles := c\<rparr>"
  "put_obs r ob (put_obs r ob' h) = put_obs r ob h"
  by (simp_all add: put_obs_def put_res_def split: option.splits)

lemma put_obs_same: "get_obs h r = Some ob \<Longrightarrow> put_obs r ob h = h"
  by (auto simp: get_obs_Some put_obs_def put_res_def fun_upd_idem)

lemma get_put_obs:
  "get_obs h r \<noteq> None \<Longrightarrow> get_obs (put_obs r ob h) r = Some ob"
  by (auto simp: get_obs_Some put_obs_def put_res_def)

lemma get_obs_frame [simp]:
  "get_obs (h\<lparr>clock := a\<rparr>) r = get_obs h r" "get_obs (h\<lparr>nextBuff := b\<rparr>) r = get_obs h r"
  "get_obs (h\<lparr>backupFiles := c\<rparr>) r = get_obs h r"
  by (simp_all add: get_obs_def)

lemma obs_changedI:
  "obs_ok ob n \<Longrightarrow> nextBuff h \<le> n \<Longrightarrow>
   obs_changed r h (put_obs r ob (h\<lparr>clock := clk, nextBuff := n, backupFiles := files\<rparr>))"
  by (auto simp: obs_changed_def)

lemma obs_changed_get: "obs_changed r h h' \<Longrightarrow> get_obs h r \<noteq> None \<Longrightarrow>
   \<exists>ob. get_obs h' r = Some ob \<and> obs_ok ob (nextBuff h')"
  by (auto simp: obs_changed_def get_put_obs)

lemma obs_changed_trans:
  assumes "obs_changed r h h1" "obs_changed r h1 h2"
  shows "obs_changed r h h2"
proof -
  obtain ob clk n files where 1: "h1 = put_obs r ob (h\<lparr>clock := clk, nextBuff := n, backupFiles := files\<rparr>)"
    "nextBuff h \<le> n" using assms(1) by (auto simp: obs_changed_def)
  obtain ob' clk' n' files' where 2: "h2 = put_obs r ob' (h1\<lparr>clock := clk', nextBuff := n', backupFiles := files'\<rparr>)"
    "nextBuff h1 \<le> n'" "obs_ok ob' n'" using assms(2) by (auto simp: obs_changed_def)
  have "h2 = put_obs r ob' (h\<lparr>clock := clk', nextBuff := n', backupFiles := files'\<rparr>)"
    using 1 2 by (simp add: put_obs_frame)
  moreover have "nextBuff h \<le> n'" using 1 2 by simp
  ultimately show ?thesis using 2(3) unfolding obs_changed_def by blast
qed

lemma obs_attached_changed:
  assumes "obs_changed r h h'" "obs_attached L h q"
  shows "obs_attached L h' q"
proof -
  have "tree_ok L h' = tree_ok L h"
    using assms(1) by (auto simp: obs_changed_def tree_ok_def children_ok_def parent_ok_def name_of_def cong: inj_on_cong)
  moreover have "obs_namespace h' = obs_namespace h"
    using assms(1) by (auto simp: obs_changed_def obs_namespace_def name_of_def)
  moreover have "(\<exists>x. resources h' q = Some x \<and> r_entryRef x = Some e)"
    if "resources h q = Some x" "r_entryRef x = Some e" for x e
    using assms(1) that by (auto simp: obs_changed_def put_obs_def put_res_def split: option.splits)
  moreover have "entries h' = entries h" using assms(1) by (auto simp: obs_changed_def)
  ultimately show ?thesis using assms(2) unfolding obs_attached_def by metis
qed

lemma obs_changed_refl:
  "get_obs h r = Some ob \<Longrightarrow> obs_ok ob (nextBuff h) \<Longrightarrow> obs_changed r h (h\<lparr>clock := clk, backupFiles := files\<rparr>)"
  using obs_changedI [of ob "nextBuff h" h r files clk] put_obs_same [of "h\<lparr>clock := clk, backupFiles := files\<rparr>" r ob]
  by simp

text \<open>The settings that do not matter for the buffer can be changed freely.\<close>

lemma obs_ok_settings [simp]:
  "obs_ok (ob\<lparr>o_backupTimer := a\<rparr>) n = obs_ok ob n" "obs_ok (ob\<lparr>o_lastBackupTime := b\<rparr>) n = obs_ok ob n"
  "obs_ok (ob\<lparr>o_lastPushTime := b\<rparr>) n = obs_ok ob n" "obs_ok (ob\<lparr>o_backupPeriod := b\<rparr>) n = obs_ok ob n"
  "obs_ok (ob\<lparr>o_highLimit := d\<rparr>) n = obs_ok ob n" "obs_ok (ob\<lparr>o_lowLimit := d\<rparr>) n = obs_ok ob n"
  "obs_ok (ob\<lparr>o_changeBy := d\<rparr>) n = obs_ok ob n" "obs_ok (ob\<lparr>o_minPeriod := d\<rparr>) n = obs_ok ob n"
  "obs_ok (ob\<lparr>o_jsonExtraction := e\<rparr>) n = obs_ok ob n" "obs_ok (ob\<lparr>o_transformType := f\<rparr>) n = obs_ok ob n"
  "obs_ok (ob\<lparr>o_readOpList := g\<rparr>) n = obs_ok ob n"
  by (simp_all add: obs_ok_def buffer_ok_def)

lemma WriteSamplesToFile_total:
  "\<forall>b \<in> set bs. sample_ok t (snd b) \<Longrightarrow> \<exists>r. WriteSamplesToFile t bs f = Some r"
proof (induction bs arbitrary: f)
  case (Cons b bs)
  have "\<exists>items. value_items t (snd b) = Some items"
    using Cons.prems
    by (cases t; cases "sample_val (snd b)")
      (auto simp: value_items_def sample_ok_def dataSample_GetBoolean_def dataSample_GetNumeric_def
        dataSample_GetString_def dataSample_GetJson_def)
  then show ?case using Cons by (auto split: option.splits)
qed simp

lemma backup_bytes_total: "buffer_ok ob n \<Longrightarrow> \<exists>r. backup_bytes t ob = Some r"
proof -
  assume ob: "buffer_ok ob n"
  have "le_bytes 4 (o_count ob) \<noteq> []"
    by (metis length_le_bytes list.size(3) zero_neq_numeral)
  then show ?thesis
    using WriteSamplesToFile_total [of "o_sampleList ob" "o_bufferedType ob"] ob
    by (simp add: backup_bytes_def WriteToStream_def buffer_ok_def)
qed

lemma Backup_total:
  assumes "utf8_copy_ok L" "obs_attached L h r" "get_obs h r = Some ob" "obs_ok ob (nextBuff h)"
  shows "\<exists>h'. Backup L r h = Some h' \<and> obs_changed r h h'"
proof -
  define ob1 where "ob1 = ob\<lparr>o_backupTimer := None, o_lastBackupTime := word_of_int (fst (clk_relative L (clock h)))\<rparr>"
  define h1 where "h1 = put_obs r ob1 (h\<lparr>clock := clock h + 1\<rparr>)"
  have ok1: "obs_ok ob1 (nextBuff h)" using assms(4) by (simp add: ob1_def)
  have c: "obs_changed r h (h1\<lparr>backupFiles := files\<rparr>)" for files
    using obs_changedI [OF ok1, of h r files "clock h + 1"] by (simp add: h1_def put_obs_frame)
  have same: "h1\<lparr>backupFiles := backupFiles h1\<rparr> = h1" by simp
  have "obs_attached L h1 r"
    using obs_attached_changed [OF c [of "backupFiles h1"] assms(2)] by simp
  moreover have "length (BACKUP_DIR L) < MAX_BACKUP_FILE_PATH_BYTES L"
    by (simp add: MAX_BACKUP_FILE_PATH_BYTES_def)
  ultimately obtain res path where p: "GetBackupFilePath L (MAX_BACKUP_FILE_PATH_BYTES L) r h1 = Some (res, path)"
    using GetBackupFilePath_total [OF assms(1)] by blast
  obtain t where t: "res_GetDataType h1 r = Some t"
    using assms(3) by (auto simp: res_GetDataType_def h1_def get_obs_Some put_obs_def put_res_def)
  obtain bytes where b: "backup_bytes t ob = Some bytes"
    using backup_bytes_total assms(4) unfolding obs_ok_def by blast
  have "Backup L r h = Some h1 \<or> (\<exists>files. Backup L r h = Some (h1\<lparr>backupFiles := files\<rparr>))"
    using p b t
    unfolding Backup_def assms(3) Option.bind.bind_lunit Let_def ob1_def [symmetric] h1_def [symmetric]
    by (auto split: option.splits)
  then show ?thesis using c [of "backupFiles h1"] c same by auto
qed

lemma Backup_contents:
  assumes "Backup L r h = Some h'" "get_obs h r = Some ob"
  shows "\<exists>ob'. get_obs h' r = Some ob' \<and> contents (ob', 0) = contents (ob, 0)"
proof -
  define ob1 where "ob1 = ob\<lparr>o_backupTimer := None, o_lastBackupTime := word_of_int (fst (clk_relative L (clock h)))\<rparr>"
  define h1 where "h1 = put_obs r ob1 (h\<lparr>clock := clock h + 1\<rparr>)"
  have "h' = h1 \<or> (\<exists>files. h' = h1\<lparr>backupFiles := files\<rparr>)"
    using assms(1)
    unfolding Backup_def assms(2) Option.bind.bind_lunit Let_def ob1_def [symmetric] h1_def [symmetric]
    by (auto simp: bind_Some_iff split: if_splits option.splits prod.splits)
  moreover have "get_obs h1 r = Some ob1" using assms(2) by (simp add: h1_def get_put_obs)
  moreover have "contents (ob1, 0) = contents (ob, 0)" by (simp add: ob1_def contents_def)
  ultimately show ?thesis by auto
qed

subsection \<open>Buffering\<close>

lemma obs_ok_empty: "obs_ok ob n \<Longrightarrow> obs_ok ((with_list ob [])\<lparr>o_bufferedType := t\<rparr>) n"
  by (simp add: obs_ok_def buffer_ok_def)

lemma buffer_sample_retype:
  assumes "obs_ok ob n" "o_bufferedType ob \<noteq> t"
  shows "buffer_sample t s (ob, n) = buffer_sample t s ((with_list ob [])\<lparr>o_bufferedType := t\<rparr>, n)"
  using assms TruncateBuffer_take_last [of ob 0]
  by (simp add: buffer_sample_def obs_ok_def buffer_ok_def)

text \<open>The contents of a buffer after a sample of some type was offered to it.\<close>

definition buffered :: "nat \<Rightarrow> io_DataType_t \<Rightarrow> dataSample_Ref_t list \<Rightarrow> io_DataType_t \<Rightarrow> dataSample_Ref_t \<Rightarrow>
  dataSample_Ref_t list" where
  "buffered maxCount bt ss t s =
     (if maxCount = 0 then ss
      else if bt \<noteq> t then [s]
      else if in_order ss s then take_last maxCount (ss @ [s])
      else ss)"

lemma buffer_sample_total:
  assumes "obs_ok ob n" "sample_ok t s" "o_maxCount ob \<noteq> 0"
  shows "\<exists>ob' n'. buffer_sample t s (ob, n) = Some (ob', n') \<and> obs_ok ob' n' \<and> n \<le> n' \<and>
    o_bufferedType ob' = t \<and> o_maxCount ob' = o_maxCount ob \<and> o_transformType ob' = o_transformType ob \<and>
    contents (ob', n') = buffered (o_maxCount ob) (o_bufferedType ob) (contents (ob, n)) t s"
proof -
  define ob1 where "ob1 = (if o_bufferedType ob = t then ob else (with_list ob [])\<lparr>o_bufferedType := t\<rparr>)"
  have b: "buffer_sample t s (ob, n) = buffer_sample t s (ob1, n)"
    using buffer_sample_retype [OF assms(1)] by (simp add: ob1_def)
  have 1: "obs_ok ob1 n" "o_bufferedType ob1 = t" "o_maxCount ob1 = o_maxCount ob"
    "o_transformType ob1 = o_transformType ob"
    using assms(1) obs_ok_empty by (auto simp: ob1_def with_list_def)
  obtain ob' n' where r: "buffer_sample t s (ob1, n) = Some (ob', n')" "buffer_ok ob' n'" "n \<le> n'"
    "ob' = with_list ob1 (o_sampleList ob')"
    "contents (ob', n') = (if in_order (contents (ob1, n)) s
       then take_last (o_maxCount ob1) (contents (ob1, n) @ [s]) else contents (ob1, n))"
    using buffer_sample_spec [of ob1 n s] 1 assms(2) by (auto simp: obs_ok_def)
  have f: "o_bufferedType ob' = t" "o_maxCount ob' = o_maxCount ob" "o_transformType ob' = o_transformType ob"
    using 1 by (subst r(4), simp add: with_list_def)+
  have "length (contents (ob', n')) \<le> o_maxCount ob'"
    using r(5) 1 f(2) by (simp add: obs_ok_def contents_def)
  then have "obs_ok ob' n'" using r(2) by (simp add: obs_ok_def contents_def)
  moreover have "contents (ob', n') = buffered (o_maxCount ob) (o_bufferedType ob) (contents (ob, n)) t s"
    using r(5) assms(3) 1 by (auto simp: buffered_def ob1_def contents_def in_order_def)
  ultimately show ?thesis using b r f by auto
qed

lemma ProcessAccepted_total:
  assumes "utf8_copy_ok L" "obs_attached L h r" "get_obs h r = Some ob" "obs_ok ob (nextBuff h)" "sample_ok t s"
  shows "\<exists>h' ob'. obs_ProcessAccepted L r t s h = Some h' \<and> obs_changed r h h' \<and> get_obs h' r = Some ob' \<and>
    contents (ob', 0) = buffered (o_maxCount ob) (o_bufferedType ob) (contents (ob, 0)) t s"
proof (cases "o_maxCount ob = 0")
  case True
  then show ?thesis
    using assms(3) obs_changed_refl [OF assms(3,4), of "backupFiles h" "clock h"]
    by (simp add: obs_ProcessAccepted_def buffered_def)
next
  case False
  obtain ob1 n1 where b: "buffer_sample t s (ob, nextBuff h) = Some (ob1, n1)" "obs_ok ob1 n1" "nextBuff h \<le> n1"
    "contents (ob1, n1) = buffered (o_maxCount ob) (o_bufferedType ob) (contents (ob, nextBuff h)) t s"
    using buffer_sample_total [OF assms(4,5) False] by blast
  define h1 where "h1 = put_obs r ob1 (h\<lparr>nextBuff := n1\<rparr>)"
  have n1: "nextBuff h1 = n1" by (simp add: h1_def)
  have c1: "obs_changed r h (h1\<lparr>clock := clk\<rparr>)" for clk
    using obs_changedI [OF b(2,3), of r "backupFiles h" clk] by (simp add: h1_def put_obs_frame hub_update_order)
  have g1: "get_obs (h1\<lparr>clock := clk\<rparr>) r = Some ob1" for clk
    using assms(3) by (simp add: h1_def get_put_obs)
  have cont: "contents (ob1, 0) = buffered (o_maxCount ob) (o_bufferedType ob) (contents (ob, 0)) t s"
    using b(4) by (simp add: contents_def)
  define now where "now = (word_of_int (fst (clk_relative L (clock h))) :: 32 word)"
  define next' where "next' = o_lastBackupTime ob1 + o_backupPeriod ob1"
  define h2 where "h2 = h1\<lparr>clock := clock h1 + 1\<rparr>"
  have e: "obs_ProcessAccepted L r t s h =
    (if o_backupPeriod ob1 = 0 then Some h1
     else if next' \<le> now then Backup L r h2
     else if o_backupTimer ob1 = None then Some (put_obs r (ob1\<lparr>o_backupTimer := Some ((next' - now) * 1000)\<rparr>) h2)
     else Some h2)"
    using assms(3) b(1) False
    by (simp add: obs_ProcessAccepted_def Let_def h1_def h2_def now_def next'_def)
  have c2: "obs_changed r h h2" "get_obs h2 r = Some ob1" "nextBuff h2 = n1"
    using c1 g1 n1 by (simp_all add: h2_def)
  have same: "h1\<lparr>clock := clock h1\<rparr> = h1" by simp
  consider "o_backupPeriod ob1 = 0" | "o_backupPeriod ob1 \<noteq> 0" "next' \<le> now"
    | "o_backupPeriod ob1 \<noteq> 0" "\<not> next' \<le> now" "o_backupTimer ob1 = None"
    | "o_backupPeriod ob1 \<noteq> 0" "\<not> next' \<le> now" "o_backupTimer ob1 \<noteq> None"
    by blast
  then show ?thesis
  proof cases
    case 1
    then show ?thesis using e c1 [of "clock h1"] g1 [of "clock h1"] same cont by simp
  next
    case 2
    obtain h3 where h3: "Backup L r h2 = Some h3" "obs_changed r h2 h3"
      using Backup_total [OF assms(1) obs_attached_changed [OF c2(1) assms(2)] c2(2)] b(2) c2(3) by auto
    have "\<exists>ob3. get_obs h3 r = Some ob3 \<and> contents (ob3, 0) = contents (ob1, 0)"
      using Backup_contents [OF h3(1) c2(2)] by blast
    then show ?thesis using 2 e h3 obs_changed_trans [OF c2(1) h3(2)] cont by auto
  next
    case 3
    define ob2 where "ob2 = ob1\<lparr>o_backupTimer := Some ((next' - now) * 1000)\<rparr>"
    have "obs_changed r h2 (put_obs r ob2 h2)"
      using obs_changedI [of ob2 "nextBuff h2" h2 r "backupFiles h2" "clock h2"] b(2)
      by (simp add: ob2_def c2(3) [symmetric])
    then have "obs_changed r h (put_obs r ob2 h2)" using obs_changed_trans [OF c2(1)] by blast
    moreover have "get_obs (put_obs r ob2 h2) r = Some ob2" using c2(2) by (simp add: get_put_obs)
    moreover have "contents (ob2, 0) = contents (ob1, 0)" by (simp add: ob2_def contents_def)
    ultimately show ?thesis using 3 e cont by (simp add: ob2_def)
  next
    case 4
    then have "obs_ProcessAccepted L r t s h = Some h2" using e by auto
    then show ?thesis using c2 cont by simp
  qed
qed

subsection \<open>Extraction, transforms and the filter\<close>

lemma DoJsonExtraction_total:
  assumes "utf8_copy_ok L" "get_obs h r = Some ob" "sample_fine t s"
  shows "\<exists>res t' s' clk. obs_DoJsonExtraction L r t s h = Some ((res, t', s'), h\<lparr>clock := clk\<rparr>)
    \<and> sample_fine t' s' \<and> (res \<noteq> LE_OK \<longrightarrow> t' = t \<and> s' = s)"
proof (cases "o_jsonExtraction ob = [] \<or> t \<noteq> IO_DATA_TYPE_JSON")
  case True
  then have "\<exists>res. obs_DoJsonExtraction L r t s h = Some ((res, t, s), h\<lparr>clock := clock h\<rparr>)"
    using assms(2) by (auto simp: obs_DoJsonExtraction_def)
  then show ?thesis using assms(3) by blast
next
  case False
  obtain x clk where x: "dataSample_ExtractJson L s (o_jsonExtraction ob) (clock h) = Some (x, clk)"
    "case x of None \<Rightarrow> True | Some (s', t') \<Rightarrow> sample_fine t' s'"
    using ExtractJson_total [OF assms(1), of s] assms(3) False by blast
  then show ?thesis
    using assms(2,3) False by (cases x) (auto simp: obs_DoJsonExtraction_def)
qed

lemma Query_total:
  assumes "buffer_ok ob n"
  shows "\<exists>v clk'. QueryMin L ob t clk = Some (v, clk')" "\<exists>v clk'. QueryMax L ob t clk = Some (v, clk')"
    "\<exists>v clk'. QueryMean L ob t clk = Some (v, clk')" "\<exists>v clk'. QueryStdDev L ob t clk = Some (v, clk')"
proof -
  obtain bs clk' where f: "FindBufferEntry L ob t clk = (bs, clk')" by force
  have typed: "\<forall>b \<in> set bs. GetBufferedNumber b (o_bufferedType ob) = Some (number_of (o_bufferedType ob) b)"
    if "aggregates (o_bufferedType ob)"
    using buffered_numbers_typed [OF assms that] FindBufferEntry_suffix [of L ob t clk] f by simp
  show "\<exists>v clk'. QueryMin L ob t clk = Some (v, clk')"
    using least.loop_best [OF typed isnan_NAN] f by (fastforce simp: QueryMin_def)
  show "\<exists>v clk'. QueryMax L ob t clk = Some (v, clk')"
    using greatest.loop_best [OF typed isnan_NAN] f by (fastforce simp: QueryMax_def)
  show "\<exists>v clk'. QueryMean L ob t clk = Some (v, clk')"
    using SumLoop_numbers [OF typed] f by (simp add: QueryMean_def)
  show "\<exists>v clk'. QueryStdDev L ob t clk = Some (v, clk')"
    using SumLoop_numbers [OF typed] SquaresLoop_numbers [OF typed] f by (auto simp: QueryStdDev_def Let_def)
qed

lemma UpdateSample_total:
  assumes "sample_fine t s"
  shows "\<exists>s' clk'. UpdateSample L s t v clk = Some (s', clk') \<and> sample_fine t s'"
proof -
  have pair: "\<exists>s' clk'. Some (if c then p else (s, clk)) = Some (s', clk') \<and> sample_fine t s'"
    if "sample_fine t (fst p)" for c p
    using that assms by (cases p) auto
  have v: "value_of_type t (sample_val s)" using assms by (simp add: sample_fine_def sample_ok_def)
  show ?thesis
  proof (cases t)
    case IO_DATA_TYPE_BOOLEAN
    then obtain b where b: "sample_val s = VBool b" using v by auto
    have "UpdateSample L s t v clk = Some (if b \<noteq> dbl_gt v (dbl_of_int 0)
        then dataSample_CreateBoolean L (dataSample_GetTimestamp s) (dbl_gt v (dbl_of_int 0)) clk else (s, clk))"
      using b IO_DATA_TYPE_BOOLEAN by (simp add: UpdateSample_def dataSample_GetBoolean_def)
    then show ?thesis using pair [OF Create_fine(2) [folded IO_DATA_TYPE_BOOLEAN]] by presburger
  next
    case IO_DATA_TYPE_NUMERIC
    then obtain d where d: "sample_val s = VNum d" using v by auto
    have "UpdateSample L s t v clk = Some (if \<not> dbl_eq d v
        then dataSample_CreateNumeric L (dataSample_GetTimestamp s) v clk else (s, clk))"
      using d IO_DATA_TYPE_NUMERIC by (simp add: UpdateSample_def dataSample_GetNumeric_def)
    then show ?thesis using pair [OF Create_fine(3) [folded IO_DATA_TYPE_NUMERIC]] by presburger
  qed (use assms in \<open>simp_all add: UpdateSample_def\<close>)
qed

lemma ApplyTransform_total:
  assumes "get_obs h r = Some ob" "buffer_ok ob n" "sample_fine t s"
  shows "\<exists>s' clk. obs_ApplyTransform L r t s h = Some (s', h\<lparr>clock := clk\<rparr>) \<and> sample_fine t s'"
proof (cases "o_transformType ob = OBS_TRANSFORM_TYPE_NONE")
  case True
  moreover have "h = h\<lparr>clock := clock h\<rparr>" by simp
  ultimately show ?thesis using assms(1,3) unfolding obs_ApplyTransform_def by (simp, blast)
next
  case False
  define Q where "Q = (case o_transformType ob of
       OBS_TRANSFORM_TYPE_MEAN \<Rightarrow> obs_QueryMean L r NAN h
     | OBS_TRANSFORM_TYPE_STDDEV \<Rightarrow> obs_QueryStdDev L r NAN h
     | OBS_TRANSFORM_TYPE_MAX \<Rightarrow> obs_QueryMax L r NAN h
     | _ \<Rightarrow> obs_QueryMin L r NAN h)"
  obtain v clk where q: "Q = Some (v, h\<lparr>clock := clk\<rparr>)"
    using Query_total [OF assms(2), of L NAN "clock h"] assms(1)
    by (cases "o_transformType ob")
      (auto simp: Q_def obs_QueryMean_def obs_QueryStdDev_def obs_QueryMax_def obs_QueryMin_def query_obs_def)
  obtain s' clk' where "UpdateSample L s t v clk = Some (s', clk')" "sample_fine t s'"
    using UpdateSample_total [OF assms(3)] by blast
  then show ?thesis
    using assms(1) False q by (auto simp: obs_ApplyTransform_def Q_def [symmetric])
qed

text \<open>
  What the filter lets through. Limits keep a number in the band between them, or out of the dead band
  if the low limit is above the high one; a change must be at least as large as asked for; the time
  since the last accepted sample must have reached the period.
\<close>

definition within_limits :: "double \<Rightarrow> double \<Rightarrow> double \<Rightarrow> bool" where
  "within_limits lo hi v =
     (isnan v \<or>
      (if dbl_gt lo hi then dbl_le v hi \<or> dbl_ge v lo
       else (isnan lo \<or> dbl_ge v lo) \<and> (isnan hi \<or> dbl_le v hi)))"

fun changed_by :: "double \<Rightarrow> sample_value \<Rightarrow> sample_value \<Rightarrow> bool" where
  "changed_by c (VNum v) (VNum p) = (\<not> dbl_lt (dbl_abs (dbl_sub v p)) c)"
| "changed_by c (VBool v) (VBool p) = (v \<noteq> p)"
| "changed_by c (VStr v) (VStr p) = (v \<noteq> p)"
| "changed_by c v p = True"

definition passes_filter ::
  "legato \<Rightarrow> res_Resource_t \<Rightarrow> Observation_t \<Rightarrow> io_DataType_t \<Rightarrow> sample_value \<Rightarrow> nat \<Rightarrow> bool" where
  "passes_filter L x ob t v clk \<longleftrightarrow>
     (\<forall>d. t = IO_DATA_TYPE_NUMERIC \<and> v = VNum d \<longrightarrow> within_limits (o_lowLimit ob) (o_highLimit ob) d) \<and>
     (\<forall>p. r_currentValue x = Some p \<longrightarrow>
        (enabled (o_changeBy ob) \<longrightarrow> r_overrideValue x = None
           \<and> (t = r_currentType x \<and> t \<noteq> IO_DATA_TYPE_TRIGGER \<longrightarrow> changed_by (o_changeBy ob) v (sample_val p))) \<and>
        (enabled (o_minPeriod ob) \<longrightarrow> \<not> too_soon ob (GetRelativeTimeMs L clk)))"

lemma outside_limits_within: "outside_limits ob v = (\<not> within_limits (o_lowLimit ob) (o_highLimit ob) v)"
  by (auto simp: outside_limits_def within_limits_def dbl_lt_def dbl_le_def)

lemma change_too_small_eq:
  assumes "value_of_type t (sample_val s)" "value_of_type t (sample_val p)"
  shows "change_too_small c t s p =
    Some (t \<noteq> IO_DATA_TYPE_TRIGGER \<and> \<not> changed_by c (sample_val s) (sample_val p))"
  using assms
  by (cases t; cases "sample_val s"; cases "sample_val p")
    (auto simp: change_too_small_def dataSample_GetNumeric_def dataSample_GetBoolean_def dataSample_GetString_def)

lemma IsOverridden_obs:
  "resources h r = Some x \<Longrightarrow> entry_type_of h r = Some ADMIN_ENTRY_TYPE_OBSERVATION \<Longrightarrow>
   res_IsOverridden h r = Some (r_overrideValue x \<noteq> None)"
  by (simp add: res_IsOverridden_def)

lemma ShouldAccept_eq:
  assumes "resources h r = Some x" "r_sub x = Observation ob" "sample_ok t s"
    "entry_type_of h r = Some ADMIN_ENTRY_TYPE_OBSERVATION"
    "\<forall>p. r_currentValue x = Some p \<longrightarrow> sample_ok (r_currentType x) p"
  shows "\<exists>now clk. obs_ShouldAccept L r t s h =
    Some (if passes_filter L x ob t (sample_val s) (clock h)
          then (True, put_obs r (ob\<lparr>o_lastPushTime := GetRelativeTimeMs L now\<rparr>) (h\<lparr>clock := clk\<rparr>))
          else (False, h\<lparr>clock := clk\<rparr>))
    \<and> clock h \<le> now \<and> now < clk \<or>
   (\<exists>clk. obs_ShouldAccept L r t s h = Some (False, h\<lparr>clock := clk\<rparr>)
      \<and> \<not> passes_filter L x ob t (sample_val s) (clock h))"
proof -
  have g: "get_obs h r = Some ob" using assms(1,2) by (simp add: get_obs_Some)
  have cv: "res_GetCurrentValue h r = Some (r_currentValue x)" "res_GetDataType h r = Some (r_currentType x)"
    using assms(1) by (simp_all add: res_GetCurrentValue_def res_GetDataType_def)
  define out where "out = (t = IO_DATA_TYPE_NUMERIC \<and>
    (\<exists>d. sample_val s = VNum d \<and> \<not> within_limits (o_lowLimit ob) (o_highLimit ob) d))"
  have out: "(if t = IO_DATA_TYPE_NUMERIC then do { v \<leftarrow> dataSample_GetNumeric s; Some (outside_limits ob v) }
      else Some False) = Some out"
    using assms(3) by (auto simp: out_def sample_ok_def dataSample_GetNumeric_def outside_limits_within)
  define small where "small = (case r_currentValue x of None \<Rightarrow> False | Some p \<Rightarrow>
    enabled (o_changeBy ob) \<and> (r_overrideValue x \<noteq> None \<or>
      t = r_currentType x \<and> t \<noteq> IO_DATA_TYPE_TRIGGER \<and> \<not> changed_by (o_changeBy ob) (sample_val s) (sample_val p)))"
  have small: "(case r_currentValue x of None \<Rightarrow> Some False
      | Some previous \<Rightarrow> rejected_by_change h r ob t s previous) = Some small"
    using IsOverridden_obs [OF assms(1,4)] cv(2) assms(3,5) change_too_small_eq
    by (auto simp: small_def rejected_by_change_def sample_ok_def split: option.splits)
  define soon where "soon = (r_currentValue x \<noteq> None \<and> enabled (o_minPeriod ob) \<and>
    too_soon ob (GetRelativeTimeMs L (clock h)))"
  have pf: "passes_filter L x ob t (sample_val s) (clock h) = (\<not> out \<and> \<not> small \<and> \<not> soon)"
    by (auto simp: passes_filter_def out_def small_def soon_def split: option.splits)
  note unf = obs_ShouldAccept_def g Option.bind.bind_lunit out cv(1) small
  show ?thesis
  proof (cases "out \<or> small")
    case True
    moreover have "h = h\<lparr>clock := clock h\<rparr>" by simp
    ultimately have "obs_ShouldAccept L r t s h = Some (False, h\<lparr>clock := clock h\<rparr>)"
      unfolding unf by auto
    then show ?thesis using True pf by blast
  next
    case False
    define chk where "chk = (r_currentValue x \<noteq> None \<and> enabled (o_minPeriod ob))"
    define now where "now = (if chk then GetRelativeTimeMs L (clock h) else 0)"
    define h1 where "h1 = (if chk then h\<lparr>clock := clock h + 1\<rparr> else h)"
    have e: "obs_ShouldAccept L r t s h =
      (if chk \<and> too_soon ob now then Some (False, h1)
       else Some (True, put_obs r (ob\<lparr>o_lastPushTime := (if now = 0 then GetRelativeTimeMs L (clock h1) else now)\<rparr>)
                          (if now = 0 then h1\<lparr>clock := clock h1 + 1\<rparr> else h1)))"
      unfolding unf using False by (simp add: Let_def chk_def now_def h1_def)
    show ?thesis
    proof (cases soon)
      case True
      then have "obs_ShouldAccept L r t s h = Some (False, h\<lparr>clock := clock h + 1\<rparr>)"
        using e by (simp add: soon_def chk_def now_def h1_def)
      then show ?thesis using True pf by blast
    next
      case ns: False
      then have ne: "\<not> (chk \<and> too_soon ob now)" by (auto simp: soon_def chk_def now_def)
      then have p: "passes_filter L x ob t (sample_val s) (clock h)" using pf False ns by blast
      have "\<exists>k clk. obs_ShouldAccept L r t s h =
          Some (True, put_obs r (ob\<lparr>o_lastPushTime := GetRelativeTimeMs L k\<rparr>) (h\<lparr>clock := clk\<rparr>))
        \<and> clock h \<le> k \<and> k < clk"
      proof (cases "now = 0")
        case True
        then show ?thesis using e ne
          by (intro exI [of _ "clock h1"] exI [of _ "clock h1 + 1"]) (auto simp: h1_def)
      next
        case False
        then have chk by (simp add: now_def split: if_splits)
        then show ?thesis using e ne False
          by (intro exI [of _ "clock h"] exI [of _ "clock h + 1"]) (auto simp: h1_def now_def)
      qed
      then show ?thesis using p by auto
    qed
  qed
qed

lemma ShouldAccept_total:
  assumes "resources h r = Some x" "r_sub x = Observation ob" "sample_ok t s" "obs_ok ob (nextBuff h)"
    "entry_type_of h r = Some ADMIN_ENTRY_TYPE_OBSERVATION"
    "\<forall>p. r_currentValue x = Some p \<longrightarrow> sample_ok (r_currentType x) p"
  shows "\<exists>b h'. obs_ShouldAccept L r t s h = Some (b, h') \<and> obs_changed r h h'"
proof -
  have g: "get_obs h r = Some ob" using assms(1,2) by (simp add: get_obs_Some)
  have "obs_changed r h (h\<lparr>clock := clk\<rparr>)" for clk
    using obs_changed_refl [OF g assms(4), of "backupFiles h" clk] by simp
  moreover have "obs_changed r h (put_obs r (ob\<lparr>o_lastPushTime := w\<rparr>) (h\<lparr>clock := clk\<rparr>))" for w clk
    using obs_changedI [of "ob\<lparr>o_lastPushTime := w\<rparr>" "nextBuff h" h r "backupFiles h" clk] assms(4) by simp
  ultimately show ?thesis
    using ShouldAccept_eq [OF assms(1-3,5,6), of L] by (auto split: if_splits)
qed

text \<open>The limits say nothing about samples that are not numbers, Booleans among them.\<close>

lemma limits_numbers_only:
  "t \<noteq> IO_DATA_TYPE_NUMERIC \<Longrightarrow>
   passes_filter L x (ob\<lparr>o_lowLimit := lo, o_highLimit := hi\<rparr>) t v clk = passes_filter L x ob t v clk"
  by (simp add: passes_filter_def too_soon_def)

text \<open>
  C8: the filter accepts a sample exactly when \<open>passes_filter\<close> holds: a numeric sample is within the limits,
  and, if there is a current value, a set least change is reached (by numbers; other values have to differ,
  triggers and samples of another type always do; nothing passes under an override) and a set period is over. An
  accepted sample is remembered with the time of a clock reading, a rejected one changes nothing but the clock.
  The limits apply to numeric samples only (\<open>limits_numbers_only\<close>), where the documentation of the API has them
  apply to Booleans, too.
\<close>

theorem ShouldAccept_filter:
  assumes "resources h r = Some x" "r_sub x = Observation ob" "sample_ok t s"
    "entry_type_of h r = Some ADMIN_ENTRY_TYPE_OBSERVATION"
    "\<forall>p. r_currentValue x = Some p \<longrightarrow> sample_ok (r_currentType x) p"
  shows "if passes_filter L x ob t (sample_val s) (clock h)
    then \<exists>now clk. clock h \<le> now \<and> now < clk \<and> obs_ShouldAccept L r t s h =
      Some (True, put_obs r (ob\<lparr>o_lastPushTime := GetRelativeTimeMs L now\<rparr>) (h\<lparr>clock := clk\<rparr>))
    else \<exists>clk. obs_ShouldAccept L r t s h = Some (False, h\<lparr>clock := clk\<rparr>)"
  using ShouldAccept_eq [OF assms, of L] by (auto split: if_splits)

text \<open>
  An observation with a buffer takes every pushed sample that is in order; samples of another type
  replace what was buffered, and no more than the maximum count is kept. Neither that nor the backup
  it may cause stops the daemon or touches anything else.
\<close>

theorem ProcessAccepted_ok:
  assumes "utf8_copy_ok L" "obs_attached L h r" "get_obs h r = Some ob" "obs_ok ob (nextBuff h)" "sample_ok t s"
  shows "\<exists>h' ob'. obs_ProcessAccepted L r t s h = Some h' \<and> obs_changed r h h' \<and> get_obs h' r = Some ob' \<and>
    contents (ob', 0) = buffered (o_maxCount ob) (o_bufferedType ob) (contents (ob, 0)) t s"
  using assms by (rule ProcessAccepted_total)

subsection \<open>A concrete observation\<close>

lemma obs_hub_attached: "obs_attached sample_legato (obs_hub ob) 0"
proof -
  have "tree_ok sample_legato (obs_hub ob)"
    by (auto simp: tree_ok_def obs_hub_def initial_hub_def children_ok_def parent_ok_def name_ok_def
        HUB_MAX_ENTRY_NAME_BYTES_def sample_legato_def illegal_in_path_def)
  moreover have "obs_namespace (obs_hub ob)"
    by (simp add: obs_namespace_def obs_hub_def initial_hub_def name_of_def)
  ultimately show ?thesis
    by (simp add: obs_attached_def HUB_MAX_ENTRY_NAME_BYTES_def sample_legato_def)
      (simp add: obs_hub_def res_Construct_def)
qed

lemma ShouldAccept_filter_witness:
  "\<exists>now clk. obs_ShouldAccept sample_legato 0 IO_DATA_TYPE_NUMERIC (number_at 1 5)
       (obs_hub (number_obs\<lparr>o_highLimit := dbl_of_int 6\<rparr>)) =
     Some (True, put_obs 0 (number_obs\<lparr>o_highLimit := dbl_of_int 6,
                                       o_lastPushTime := GetRelativeTimeMs sample_legato now\<rparr>)
                   ((obs_hub (number_obs\<lparr>o_highLimit := dbl_of_int 6\<rparr>))\<lparr>clock := clk\<rparr>))"
proof -
  let ?ob = "number_obs\<lparr>o_highLimit := dbl_of_int 6\<rparr>"
  let ?x = "(res_Construct 2)\<lparr>r_sub := Observation ?ob\<rparr>"
  have ok: "sample_ok IO_DATA_TYPE_NUMERIC (number_at 1 5)"
    by (simp add: sample_ok_def number_at_def)
  have "within_limits NAN (dbl_of_int 6) (dbl_of_int 5)" by code_simp
  then have p: "passes_filter sample_legato ?x ?ob IO_DATA_TYPE_NUMERIC (sample_val (number_at 1 5)) 0"
    by (simp add: passes_filter_def number_at_def number_obs_def res_Construct_def)
  show ?thesis
    using ShouldAccept_filter [OF obs_hub_simps(1) _ ok obs_hub_simps(2), where L = sample_legato and ob = ?ob] p
    by (simp add: res_Construct_def) blast
qed

lemma ProcessAccepted_ok_witness:
  "\<exists>h' ob'. obs_ProcessAccepted sample_legato 0 IO_DATA_TYPE_NUMERIC (number_at 1 5)
      (obs_hub (number_obs\<lparr>o_backupPeriod := 1\<rparr>)) = Some h'
     \<and> get_obs h' 0 = Some ob' \<and> contents (ob', 0) = [number_at 1 5]"
proof -
  let ?ob = "number_obs\<lparr>o_backupPeriod := 1\<rparr>"
  have "obs_ok ?ob 0" by (simp add: obs_ok_def buffer_ok_def number_obs_def)
  moreover have "sample_ok IO_DATA_TYPE_NUMERIC (number_at 1 5)"
    by (simp add: sample_ok_def number_at_def)
  moreover have "buffered (o_maxCount ?ob) (o_bufferedType ?ob) (contents (?ob, 0)) IO_DATA_TYPE_NUMERIC (number_at 1 5)
      = [number_at 1 5]"
    by (simp add: buffered_def number_obs_def contents_def in_order_def)
  ultimately show ?thesis
    using ProcessAccepted_ok [OF sample_legato_ok obs_hub_attached obs_hub_simps(3), of ?ob
        IO_DATA_TYPE_NUMERIC "number_at 1 5"] by auto
qed

end
