(* ===== verification/ReadOp.thy ===== *)
theory ReadOp
  imports ObsSpec
begin

text \<open>
  Reading the buffer of an observation as JSON (\<open>obs.c\<close>): a read operation writes the samples from some
  start time on to a file descriptor, piece by piece as the descriptor takes them, while samples may
  come and go in the buffer.

  A read operation is named by its file descriptor. It holds a reference on the buffer entry it will
  write next, which keeps the entry alive when it has been dropped from the buffer. The reference
  count of an entry is one for the buffer that holds it and one for each read operation.
\<close>

definition READ_OP_BUFF_BYTES :: nat where
  "READ_OP_BUFF_BYTES = IO_MAX_STRING_VALUE_LEN + 48"

text \<open>The text of one sample; empty if it does not fit the buffer.\<close>

definition sample_text :: "legato \<Rightarrow> io_DataType_t \<Rightarrow> dataSample_Ref_t \<Rightarrow> string option" where
  "sample_text L t s =
     (let pre = ''{\"t\":'' @ dbl_format (dataSample_GetTimestamp s) @ '',\"v\":'' in
      if length pre \<ge> READ_OP_BUFF_BYTES then Some []
      else do {
        (result, json) \<leftarrow> dataSample_ConvertToJson L s t (READ_OP_BUFF_BYTES - length pre - 1);
        Some (if result \<noteq> LE_OK then [] else pre @ json @ ''}'')
      })"

text \<open>The loop over entries that do not fit, and the entry to write after the one that was loaded.\<close>

fun LoadFrom ::
  "legato \<Rightarrow> io_DataType_t \<Rightarrow> BufferEntry_t list \<Rightarrow> (BufferEntry_t option \<times> string) option" where
  "LoadFrom L t [] = Some (None, [])"
| "LoadFrom L t (b # bs) = do {
     piece \<leftarrow> sample_text L t (snd b);
     if piece = [] then LoadFrom L t bs
     else Some (case bs of [] \<Rightarrow> None | c # _ \<Rightarrow> Some c, piece)
   }"

text \<open>
  The entries from the one to be loaded on. An entry that no one else holds has fallen out of the
  buffer, so that reading goes on with the oldest one in it. After an entry that has fallen out but
  is held by another read operation there is none (the link of a popped entry leads nowhere).
\<close>

definition entries_from ::
  "BufferEntry_t list \<Rightarrow> (BufferEntry_t \<Rightarrow> nat) \<Rightarrow> BufferEntry_t option \<Rightarrow> BufferEntry_t list" where
  "entries_from bs others next =
     (case next of
        None \<Rightarrow> []
      | Some b \<Rightarrow>
          if b \<in> set bs then dropWhile (\<lambda>c. c \<noteq> b) bs
          else if others b = 0 then bs
          else [b])"

definition LoadReadOpBuffer ::
  "legato \<Rightarrow> io_DataType_t \<Rightarrow> BufferEntry_t list \<Rightarrow> (BufferEntry_t \<Rightarrow> nat) \<Rightarrow> ReadOperation_t \<Rightarrow>
   (bool \<times> ReadOperation_t) option" where
  "LoadReadOpBuffer L t bs others op = do {
     (next, piece) \<leftarrow> LoadFrom L t (entries_from bs others (op_nextEntryPtr op));
     Some (piece \<noteq> [], op\<lparr>op_nextEntryPtr := next, op_writeBuffer := piece, op_writeLen := length piece,
                         op_writeOffset := 0\<rparr>)
   }"

subsection \<open>Writing\<close>

text \<open>What a call of \<open>write\<close> may return, with \<open>EINTR\<close> retried.\<close>

datatype write_result = Wrote nat | WouldBlock | WriteError

text \<open>What the loop does next: go on, wait for the descriptor, or end the operation.\<close>

datatype read_status = Going | Waiting | Ended le_result_t

definition write_chunk :: "ReadOperation_t \<Rightarrow> string" where
  "write_chunk op =
     (case op_state op of
        START \<Rightarrow> ''[''
      | SAMPLE \<Rightarrow> drop (op_writeOffset op) (op_writeBuffer op)
      | COMMA \<Rightarrow> '',''
      | END \<Rightarrow> '']'')"

text \<open>One turn of the loop: the operation afterwards, what was written, and the status.\<close>

definition read_turn ::
  "legato \<Rightarrow> io_DataType_t \<Rightarrow> BufferEntry_t list \<Rightarrow> (BufferEntry_t \<Rightarrow> nat) \<Rightarrow> write_result \<Rightarrow> ReadOperation_t \<Rightarrow>
   (ReadOperation_t \<times> string \<times> read_status) option" where
  "read_turn L t bs others res op =
     (case res of
        WouldBlock \<Rightarrow> Some (op, [], Waiting)
      | WriteError \<Rightarrow> Some (op, [], Ended LE_COMM_ERROR)
      | Wrote n \<Rightarrow>
          let out = take n (write_chunk op) in
          (case op_state op of
             START \<Rightarrow> Some (op\<lparr>op_state := (if op_writeLen op > 0 then SAMPLE else END)\<rparr>, out, Going)
           | SAMPLE \<Rightarrow>
               let op = op\<lparr>op_writeOffset := op_writeOffset op + n\<rparr> in
               if op_writeOffset op = op_writeLen op then do {
                 (loaded, op) \<leftarrow> LoadReadOpBuffer L t bs others op;
                 Some (op\<lparr>op_state := (if loaded then COMMA else END)\<rparr>, out, Going)
               }
               else Some (op, out, Going)
           | COMMA \<Rightarrow> Some (op\<lparr>op_state := SAMPLE\<rparr>, out, Going)
           | END \<Rightarrow> Some (op, out, Ended LE_OK)))"

text \<open>
  The loop of \<open>ContinueReadOp\<close> with the results of its calls of \<open>write\<close>; when there is no further
  result the descriptor would block.
\<close>

fun read_run ::
  "legato \<Rightarrow> io_DataType_t \<Rightarrow> BufferEntry_t list \<Rightarrow> (BufferEntry_t \<Rightarrow> nat) \<Rightarrow> write_result list \<Rightarrow> ReadOperation_t \<Rightarrow>
   (ReadOperation_t \<times> string \<times> read_status) option" where
  "read_run L t bs others [] op = Some (op, [], Waiting)"
| "read_run L t bs others (res # ress) op = do {
     (op, out, st) \<leftarrow> read_turn L t bs others res op;
     if st \<noteq> Going then Some (op, out, st)
     else do {
       (op, out', st) \<leftarrow> read_run L t bs others ress op;
       Some (op, out @ out', st)
     }
   }"

subsection \<open>Operations of an observation\<close>

definition find_op :: "nat \<Rightarrow> Observation_t \<Rightarrow> ReadOperation_t option" where
  "find_op fd ob = find (\<lambda>op. op_fd op = fd) (o_readOpList ob)"

definition put_op :: "ReadOperation_t \<Rightarrow> Observation_t \<Rightarrow> Observation_t" where
  "put_op op ob = ob\<lparr>o_readOpList := map (\<lambda>q. if op_fd q = op_fd op then op else q) (o_readOpList ob)\<rparr>"

definition other_readers :: "nat \<Rightarrow> Observation_t \<Rightarrow> BufferEntry_t \<Rightarrow> nat" where
  "other_readers fd ob b =
     length (filter (\<lambda>q. op_fd q \<noteq> fd \<and> op_nextEntryPtr q = Some b) (o_readOpList ob))"

definition EndRead :: "rid \<Rightarrow> nat \<Rightarrow> le_result_t \<Rightarrow> hub \<Rightarrow> hub option" where
  "EndRead r fd result h = do {
     ob \<leftarrow> get_obs h r;
     op \<leftarrow> find_op fd ob;
     Some (add_event (ReadDone (op_handler op) (op_context op) (result = LE_OK))
       (put_obs r (ob\<lparr>o_readOpList := filter (\<lambda>q. op_fd q \<noteq> fd) (o_readOpList ob)\<rparr>) h))
   }"

definition ContinueReadOp :: "legato \<Rightarrow> rid \<Rightarrow> nat \<Rightarrow> write_result list \<Rightarrow> hub \<Rightarrow> hub option" where
  "ContinueReadOp L r fd results h = do {
     ob \<leftarrow> get_obs h r;
     t \<leftarrow> res_GetDataType h r;
     op \<leftarrow> find_op fd ob;
     (op, out, st) \<leftarrow> read_run L t (o_sampleList ob) (other_readers fd ob) results op;
     let h = add_event (FdWrite fd out) (put_obs r (put_op op ob) h);
     case st of
       Ended result \<Rightarrow> EndRead r fd result h
     | _ \<Rightarrow> Some h
   }"

text \<open>The event of the descriptor: an error or a hang-up, or room to write.\<close>

definition ReadOpFdEventHandler ::
  "legato \<Rightarrow> rid \<Rightarrow> nat \<Rightarrow> bool \<Rightarrow> write_result list \<Rightarrow> hub \<Rightarrow> hub option" where
  "ReadOpFdEventHandler L r fd hangup results h =
     (if hangup then EndRead r fd LE_COMM_ERROR h else ContinueReadOp L r fd results h)"

text \<open>\<open>nonblock\<close> is whether the descriptor could be set to non-blocking mode.\<close>

definition StartRead ::
  "legato \<Rightarrow> rid \<Rightarrow> BufferEntry_t option \<Rightarrow> nat \<Rightarrow> bool \<Rightarrow> nat \<Rightarrow> nat \<Rightarrow> write_result list \<Rightarrow> hub \<Rightarrow> hub option" where
  "StartRead L r start outputFile nonblock handlerPtr contextPtr results h =
     (if \<not> nonblock then Some (add_event (ReadDone handlerPtr contextPtr False) h)
      else do {
        ob \<leftarrow> get_obs h r;
        t \<leftarrow> res_GetDataType h r;
        let op = \<lparr> op_fd = outputFile, op_nextEntryPtr = start, op_state = START, op_writeBuffer = [],
                  op_writeLen = 0, op_writeOffset = 0, op_handler = handlerPtr, op_context = contextPtr \<rparr>;
        let ob = ob\<lparr>o_readOpList := o_readOpList ob @ [op]\<rparr>;
        (_, op) \<leftarrow> LoadReadOpBuffer L t (o_sampleList ob) (other_readers outputFile ob) op;
        ContinueReadOp L r outputFile results (put_obs r (put_op op ob) h)
      })"

definition obs_ReadBufferJson ::
  "legato \<Rightarrow> rid \<Rightarrow> double \<Rightarrow> nat \<Rightarrow> bool \<Rightarrow> nat \<Rightarrow> nat \<Rightarrow> write_result list \<Rightarrow> hub \<Rightarrow> hub option" where
  "obs_ReadBufferJson L r startAfter outputFile nonblock handlerPtr contextPtr results h = do {
     ob \<leftarrow> get_obs h r;
     let (start, clk) = start_after L ob startAfter (clock h);
     StartRead L r (case start of [] \<Rightarrow> None | b # _ \<Rightarrow> Some b) outputFile nonblock handlerPtr contextPtr results
       (h\<lparr>clock := clk\<rparr>)
   }"

subsection \<open>What a read writes\<close>

text \<open>The pieces that are written for a list of entries, and what is still to be written.\<close>

definition pieces :: "legato \<Rightarrow> io_DataType_t \<Rightarrow> BufferEntry_t list \<Rightarrow> string list" where
  "pieces L t bs = filter (\<lambda>p. p \<noteq> []) (map (\<lambda>b. case sample_text L t (snd b) of None \<Rightarrow> [] | Some p \<Rightarrow> p) bs)"

definition pieces_end :: "string list \<Rightarrow> string" where
  "pieces_end ps = concat (map ((#) (CHR '','')) ps) @ '']''"

definition json_list :: "string list \<Rightarrow> string" where
  "json_list ps = ''['' @ (case ps of [] \<Rightarrow> '']'' | p # ps \<Rightarrow> p @ pieces_end ps)"

definition loaded_ok :: "ReadOperation_t \<Rightarrow> bool" where
  "loaded_ok op \<longleftrightarrow> op_writeLen op = length (op_writeBuffer op) \<and>
     (case op_state op of
        START \<Rightarrow> op_writeOffset op = 0
      | SAMPLE \<Rightarrow> op_writeOffset op < op_writeLen op
      | COMMA \<Rightarrow> op_writeOffset op = 0 \<and> 0 < op_writeLen op
      | END \<Rightarrow> True)"

definition remaining ::
  "legato \<Rightarrow> io_DataType_t \<Rightarrow> BufferEntry_t list \<Rightarrow> (BufferEntry_t \<Rightarrow> nat) \<Rightarrow> ReadOperation_t \<Rightarrow> string" where
  "remaining L t bs others op =
     (let after = pieces_end (pieces L t (entries_from bs others (op_nextEntryPtr op))) in
      case op_state op of
        START \<Rightarrow> ''['' @ (if op_writeLen op > 0 then op_writeBuffer op @ after else '']'')
      | SAMPLE \<Rightarrow> drop (op_writeOffset op) (op_writeBuffer op) @ after
      | COMMA \<Rightarrow> '','' @ op_writeBuffer op @ after
      | END \<Rightarrow> '']'')"

definition readable :: "legato \<Rightarrow> io_DataType_t \<Rightarrow> BufferEntry_t list \<Rightarrow> bool" where
  "readable L t bs \<longleftrightarrow> distinct bs \<and> (\<forall>b \<in> set bs. sample_text L t (snd b) \<noteq> None)"

lemma entries_from_suffix:
  assumes "distinct full" "full = pre @ b # bs"
  shows "entries_from full others (Some b) = b # bs"
proof -
  have "b \<notin> set pre" using assms by auto
  then have "dropWhile (\<lambda>c. c \<noteq> b) full = b # bs"
    unfolding assms(2) by (intro dropWhile_append_stop [THEN trans]) auto
  then show ?thesis using assms(2) by (simp add: entries_from_def)
qed

lemma LoadFrom_pieces:
  assumes "readable L t full" "suffix bs full"
  shows "\<exists>next p. LoadFrom L t bs = Some (next, p) \<and>
    (next = None \<or> next \<in> Some ` set full) \<and>
    pieces L t bs = (if p = [] then [] else p # pieces L t (entries_from full others next)) \<and>
    (p = [] \<longrightarrow> next = None)"
  using assms(2)
proof (induction bs)
  case (Cons b bs)
  obtain pre where pre: "full = pre @ b # bs" using Cons.prems by (auto simp: suffix_def)
  then obtain p where p: "sample_text L t (snd b) = Some p"
    using assms(1) by (auto simp: readable_def)
  have IH: "suffix bs full" using Cons.prems by (auto intro: suffix_ConsD)
  show ?case
  proof (cases "p = []")
    case True
    then show ?thesis using Cons.IH [OF IH] p by (simp add: pieces_def)
  next
    case False
    have "pieces L t bs = pieces L t (entries_from full others (case bs of [] \<Rightarrow> None | c # _ \<Rightarrow> Some c))"
    proof (cases bs)
      case Nil
      then show ?thesis by (simp add: entries_from_def)
    next
      case (Cons c cs)
      then show ?thesis
        using entries_from_suffix [of full "pre @ [b]" c cs others] pre assms(1) by (simp add: readable_def)
    qed
    then show ?thesis
      using False p pre by (auto simp: pieces_def split: list.splits)
  qed
qed (simp add: pieces_def)

lemma entries_from_in_suffix: "next = None \<or> next \<in> Some ` set bs \<Longrightarrow> suffix (entries_from bs others next) bs"
  by (auto simp: entries_from_def suffix_dropWhile)

lemma Load_pieces:
  assumes "readable L t bs" "op_nextEntryPtr op = None \<or> op_nextEntryPtr op \<in> Some ` set bs"
  shows "\<exists>next p. LoadReadOpBuffer L t bs others op = Some (p \<noteq> [], op\<lparr>op_nextEntryPtr := next, op_writeBuffer := p,
      op_writeLen := length p, op_writeOffset := 0\<rparr>) \<and> (next = None \<or> next \<in> Some ` set bs) \<and>
    pieces L t (entries_from bs others (op_nextEntryPtr op)) =
      (if p = [] then [] else p # pieces L t (entries_from bs others next))"
proof -
  obtain nx' p where "LoadFrom L t (entries_from bs others (op_nextEntryPtr op)) = Some (nx', p)"
    "nx' = None \<or> nx' \<in> Some ` set bs"
    "pieces L t (entries_from bs others (op_nextEntryPtr op)) =
      (if p = [] then [] else p # pieces L t (entries_from bs others nx'))"
    using LoadFrom_pieces [OF assms(1) entries_from_in_suffix [OF assms(2)], where others = others] by blast
  then show ?thesis
    unfolding LoadReadOpBuffer_def by (intro exI [of _ nx'] exI [of _ p]) simp
qed

text \<open>
  A turn of the loop in which the descriptor takes some of what it is offered writes the beginning of
  what remains; the last turn writes the rest.
\<close>

lemma read_turn_remaining:
  assumes "readable L t bs" "op_nextEntryPtr op = None \<or> op_nextEntryPtr op \<in> Some ` set bs" "loaded_ok op"
    "0 < n" "n \<le> length (write_chunk op)"
  shows "\<exists>op' out st. read_turn L t bs others (Wrote n) op = Some (op', out, st) \<and> length out = n \<and>
    op_fd op' = op_fd op \<and>
    (if st = Going then out @ remaining L t bs others op' = remaining L t bs others op \<and> loaded_ok op' \<and>
       (op_nextEntryPtr op' = None \<or> op_nextEntryPtr op' \<in> Some ` set bs)
     else st = Ended LE_OK \<and> out = remaining L t bs others op)"
proof (cases "op_state op")
  case START
  then show ?thesis
    using assms by (auto simp: read_turn_def write_chunk_def remaining_def loaded_ok_def Let_def le_Suc_eq)
next
  case SAMPLE
  define op1 where "op1 = op\<lparr>op_writeOffset := op_writeOffset op + n\<rparr>"
  have len: "n \<le> op_writeLen op - op_writeOffset op" "op_writeLen op = length (op_writeBuffer op)"
    using assms(3,5) SAMPLE by (simp_all add: write_chunk_def loaded_ok_def)
  have out: "length (take n (write_chunk op)) = n" using assms(5) by simp
  show ?thesis
  proof (cases "op_writeOffset op + n = op_writeLen op")
    case True
    have nx: "op_nextEntryPtr op1 = op_nextEntryPtr op" by (simp add: op1_def)
    obtain nx' p where l: "LoadReadOpBuffer L t bs others op1 = Some (p \<noteq> [], op1\<lparr>op_nextEntryPtr := nx',
        op_writeBuffer := p, op_writeLen := length p, op_writeOffset := 0\<rparr>)" "nx' = None \<or> nx' \<in> Some ` set bs"
      "pieces L t (entries_from bs others (op_nextEntryPtr op)) =
        (if p = [] then [] else p # pieces L t (entries_from bs others nx'))"
      using Load_pieces [OF assms(1), of op1 others] assms(2) nx by auto
    have all: "take n (write_chunk op) = drop (op_writeOffset op) (op_writeBuffer op)"
      using True len SAMPLE by (simp add: write_chunk_def)
    show ?thesis
      using l True SAMPLE out all
      by (auto simp: read_turn_def Let_def op1_def remaining_def loaded_ok_def pieces_end_def)
  next
    case False
    have "take n (write_chunk op) @ drop (op_writeOffset op + n) (op_writeBuffer op)
        = drop (op_writeOffset op) (op_writeBuffer op)"
      using SAMPLE by (simp add: write_chunk_def) (metis add.commute append_take_drop_id drop_drop)
    then show ?thesis
      using False SAMPLE out assms(2,3) len
      by (auto simp: read_turn_def Let_def remaining_def loaded_ok_def)
  qed
next
  case COMMA
  then show ?thesis
    using assms by (auto simp: read_turn_def write_chunk_def remaining_def loaded_ok_def Let_def le_Suc_eq)
next
  case END
  then show ?thesis
    using assms by (auto simp: read_turn_def write_chunk_def remaining_def loaded_ok_def Let_def le_Suc_eq)
qed

text \<open>The results of calls of \<open>write\<close> that each took at least a byte and at most what was offered.\<close>

fun takes ::
  "legato \<Rightarrow> io_DataType_t \<Rightarrow> BufferEntry_t list \<Rightarrow> (BufferEntry_t \<Rightarrow> nat) \<Rightarrow> write_result list \<Rightarrow> ReadOperation_t \<Rightarrow> bool" where
  "takes L t bs others [] op = True"
| "takes L t bs others (res # ress) op =
     (case res of
        Wrote n \<Rightarrow> 0 < n \<and> n \<le> length (write_chunk op) \<and>
          (case read_turn L t bs others (Wrote n) op of
             Some (op', _, Going) \<Rightarrow> takes L t bs others ress op'
           | _ \<Rightarrow> True)
      | _ \<Rightarrow> False)"

lemma remaining_nonempty: "loaded_ok op \<Longrightarrow> remaining L t bs others op \<noteq> []"
  by (cases "op_state op") (auto simp: remaining_def loaded_ok_def Let_def)

lemma read_run_remaining:
  assumes "readable L t bs" "op_nextEntryPtr op = None \<or> op_nextEntryPtr op \<in> Some ` set bs" "loaded_ok op"
    "takes L t bs others ress op"
  shows "\<exists>op' out st. read_run L t bs others ress op = Some (op', out, st) \<and> op_fd op' = op_fd op \<and>
    (st = Ended LE_OK \<and> out = remaining L t bs others op \<or>
     st = Waiting \<and> out @ remaining L t bs others op' = remaining L t bs others op \<and> loaded_ok op'
       \<and> length ress \<le> length out)"
  using assms(2-4)
proof (induction ress arbitrary: op)
  case (Cons res ress)
  obtain n where n: "res = Wrote n" "0 < n" "n \<le> length (write_chunk op)"
    using Cons.prems(3) by (cases res) auto
  obtain op1 out st where r: "read_turn L t bs others (Wrote n) op = Some (op1, out, st)" "length out = n"
    "op_fd op1 = op_fd op"
    "if st = Going then out @ remaining L t bs others op1 = remaining L t bs others op \<and> loaded_ok op1 \<and>
       (op_nextEntryPtr op1 = None \<or> op_nextEntryPtr op1 \<in> Some ` set bs)
     else st = Ended LE_OK \<and> out = remaining L t bs others op"
    using read_turn_remaining [OF assms(1) Cons.prems(1,2) n(2,3)] by blast
  show ?case
  proof (cases "st = Going")
    case True
    then have 1: "op_nextEntryPtr op1 = None \<or> op_nextEntryPtr op1 \<in> Some ` set bs" "loaded_ok op1"
      "out @ remaining L t bs others op1 = remaining L t bs others op" using r(4) by simp_all
    have "takes L t bs others ress op1" using Cons.prems(3) n(1) r(1) True by simp
    from Cons.IH [OF 1(1,2) this] obtain op2 out2 st2 where i:
      "read_run L t bs others ress op1 = Some (op2, out2, st2)" "op_fd op2 = op_fd op1"
      "st2 = Ended LE_OK \<and> out2 = remaining L t bs others op1 \<or>
       st2 = Waiting \<and> out2 @ remaining L t bs others op2 = remaining L t bs others op1 \<and> loaded_ok op2
         \<and> length ress \<le> length out2" by blast
    have "read_run L t bs others (res # ress) op = Some (op2, out @ out2, st2)"
      using r(1) n(1) True i(1) by simp
    moreover have "st2 = Ended LE_OK \<and> out @ out2 = remaining L t bs others op \<or>
       st2 = Waiting \<and> (out @ out2) @ remaining L t bs others op2 = remaining L t bs others op \<and> loaded_ok op2
         \<and> length (res # ress) \<le> length (out @ out2)"
    proof -
      have "length ress \<le> length out2 \<Longrightarrow> length (res # ress) \<le> length (out @ out2)"
        using r(2) n(2) by simp
      then show ?thesis using i(3) 1(3) by (metis append_assoc)
    qed
    ultimately show ?thesis using i(2) r(3) by auto
  next
    case False
    then show ?thesis using r n(1) by auto
  qed
qed simp

lemma read_run_enough:
  assumes "readable L t bs" "op_nextEntryPtr op = None \<or> op_nextEntryPtr op \<in> Some ` set bs" "loaded_ok op"
    "takes L t bs others ress op" "length (remaining L t bs others op) \<le> length ress"
  shows "\<exists>op'. read_run L t bs others ress op = Some (op', remaining L t bs others op, Ended LE_OK) \<and>
    op_fd op' = op_fd op"
proof -
  obtain op' out st where r: "read_run L t bs others ress op = Some (op', out, st)" "op_fd op' = op_fd op"
    "st = Ended LE_OK \<and> out = remaining L t bs others op \<or>
     st = Waiting \<and> out @ remaining L t bs others op' = remaining L t bs others op \<and> loaded_ok op'
       \<and> length ress \<le> length out"
    using read_run_remaining [OF assms(1-4)] by blast
  have False if w: "st = Waiting"
  proof -
    have "length out + length (remaining L t bs others op') = length (remaining L t bs others op)"
      using r(3) w by (metis length_append read_status.distinct(5))
    moreover have "length ress \<le> length out" using r(3) w by auto
    ultimately have "length (remaining L t bs others op') = 0" using assms(5) by linarith
    then have "remaining L t bs others op' = []" by simp
    then show False using r(3) w remaining_nonempty by auto
  qed
  then show ?thesis using r by auto
qed

lemma read_turn_frame:
  "read_turn L t bs others res op = Some (op', out, st) \<Longrightarrow>
   op_fd op' = op_fd op \<and> op_handler op' = op_handler op \<and> op_context op' = op_context op"
  by (cases res; cases "op_state op")
    (auto simp: read_turn_def LoadReadOpBuffer_def Let_def bind_Some_iff split: if_splits)

lemma read_run_frame:
  "read_run L t bs others ress op = Some (op', out, st) \<Longrightarrow>
   op_fd op' = op_fd op \<and> op_handler op' = op_handler op \<and> op_context op' = op_context op"
proof (induction ress arbitrary: op op' out st)
  case (Cons res ress)
  obtain op1 out1 st1 where r: "read_turn L t bs others res op = Some (op1, out1, st1)"
    using Cons.prems by (auto simp: bind_Some_iff)
  have "st1 \<noteq> Going \<longrightarrow> op' = op1"
    "st1 = Going \<longrightarrow> (\<exists>out2. read_run L t bs others ress op1 = Some (op', out2, st))"
    using Cons.prems r by (auto simp: bind_Some_iff)
  then show ?case using Cons.IH read_turn_frame [OF r] by metis
qed simp

lemma get_obs_add_event [simp]: "get_obs (add_event ev h) r = get_obs h r"
  by (simp add: get_obs_def)

lemma put_obs_events: "put_obs r ob (h\<lparr>events := e\<rparr>) = (put_obs r ob h)\<lparr>events := e\<rparr>"
  by (simp add: put_obs_def put_res_def split: option.splits)

lemma put_obs_add_event: "put_obs r ob (add_event ev h) = add_event ev (put_obs r ob h)"
  by (simp add: put_obs_def put_res_def add_event_def split: option.splits)

lemma find_op_last:
  "\<forall>q \<in> set qs. op_fd q \<noteq> op_fd op \<Longrightarrow> find (\<lambda>q. op_fd q = op_fd op) (qs @ [op]) = Some op"
  by (induction qs) auto

lemma map_other_ops: "\<forall>q \<in> set qs. op_fd q \<noteq> fd \<Longrightarrow> map (\<lambda>q. if op_fd q = fd then op else q) qs = qs"
  by (induction qs) auto

lemma filter_other_ops: "\<forall>q \<in> set qs. op_fd q \<noteq> fd \<Longrightarrow> filter (\<lambda>q. op_fd q \<noteq> fd) qs = qs"
  by (induction qs) auto

text \<open>The read operation that is started, before its buffer is loaded.\<close>

definition new_read_op :: "BufferEntry_t option \<Rightarrow> nat \<Rightarrow> nat \<Rightarrow> nat \<Rightarrow> ReadOperation_t" where
  "new_read_op start fd handler ctx =
     \<lparr> op_fd = fd, op_nextEntryPtr = start, op_state = START, op_writeBuffer = [],
       op_writeLen = 0, op_writeOffset = 0, op_handler = handler, op_context = ctx \<rparr>"

definition first_entry :: "BufferEntry_t list \<Rightarrow> BufferEntry_t option" where
  "first_entry bs = (case bs of [] \<Rightarrow> None | b # _ \<Rightarrow> Some b)"

lemma entries_from_first:
  assumes "distinct full" "suffix bs full"
  shows "entries_from full others (first_entry bs) = bs" "first_entry bs = None \<or> first_entry bs \<in> Some ` set full"
proof -
  show "entries_from full others (first_entry bs) = bs"
    using assms entries_from_suffix [OF assms(1)]
    by (cases bs) (auto simp: first_entry_def suffix_def entries_from_def)
  show "first_entry bs = None \<or> first_entry bs \<in> Some ` set full"
    using set_mono_suffix [OF assms(2)] by (cases bs) (auto simp: first_entry_def)
qed

definition started ::
  "legato \<Rightarrow> io_DataType_t \<Rightarrow> Observation_t \<Rightarrow> BufferEntry_t list \<Rightarrow> nat \<Rightarrow> nat \<Rightarrow> nat \<Rightarrow> ReadOperation_t" where
  "started L t ob start fd handler ctx =
     (case LoadReadOpBuffer L t (o_sampleList ob) (other_readers fd ob)
             (new_read_op (first_entry start) fd handler ctx) of
        Some (_, op) \<Rightarrow> op
      | None \<Rightarrow> new_read_op (first_entry start) fd handler ctx)"

lemma started_ok:
  assumes "readable L t (o_sampleList ob)" "suffix start (o_sampleList ob)"
    "op = started L t ob start fd handler ctx"
  shows "\<exists>ok. LoadReadOpBuffer L t (o_sampleList ob) (other_readers fd ob)
      (new_read_op (first_entry start) fd handler ctx) = Some (ok, op)"
    "op_nextEntryPtr op = None \<or> op_nextEntryPtr op \<in> Some ` set (o_sampleList ob)" "loaded_ok op"
    "op_fd op = fd" "op_handler op = handler" "op_context op = ctx"
    "remaining L t (o_sampleList ob) (other_readers fd ob) op = json_list (pieces L t start)"
proof -
  have d: "distinct (o_sampleList ob)" using assms(1) by (simp add: readable_def)
  have n: "op_nextEntryPtr (new_read_op (first_entry start) fd handler ctx) = first_entry start"
    by (simp add: new_read_op_def)
  obtain nx p where l: "LoadReadOpBuffer L t (o_sampleList ob) (other_readers fd ob)
      (new_read_op (first_entry start) fd handler ctx) = Some (p \<noteq> [],
        (new_read_op (first_entry start) fd handler ctx)\<lparr>op_nextEntryPtr := nx, op_writeBuffer := p,
          op_writeLen := length p, op_writeOffset := 0\<rparr>)" "nx = None \<or> nx \<in> Some ` set (o_sampleList ob)"
    "pieces L t start = (if p = [] then [] else p # pieces L t (entries_from (o_sampleList ob) (other_readers fd ob) nx))"
    using Load_pieces [OF assms(1), where others = "other_readers fd ob"
        and op = "new_read_op (first_entry start) fd handler ctx"]
      entries_from_first [OF d assms(2)] n by force
  have op: "op = (new_read_op (first_entry start) fd handler ctx)\<lparr>op_nextEntryPtr := nx, op_writeBuffer := p,
          op_writeLen := length p, op_writeOffset := 0\<rparr>"
    using l(1) by (simp add: assms(3) started_def)
  show "\<exists>ok. LoadReadOpBuffer L t (o_sampleList ob) (other_readers fd ob)
      (new_read_op (first_entry start) fd handler ctx) = Some (ok, op)"
    using l(1) op by blast
  show "op_nextEntryPtr op = None \<or> op_nextEntryPtr op \<in> Some ` set (o_sampleList ob)" "loaded_ok op"
    "op_fd op = fd" "op_handler op = handler" "op_context op = ctx"
    using l(2) by (simp_all add: op new_read_op_def loaded_ok_def)
  show "remaining L t (o_sampleList ob) (other_readers fd ob) op = json_list (pieces L t start)"
    using l(3) by (simp add: op new_read_op_def remaining_def json_list_def)
qed

lemma start_after_suffix: "suffix (fst (start_after L ob t clk)) (o_sampleList ob)"
proof -
  obtain bs clk' where f: "FindBufferEntry L ob t clk = (bs, clk')" by force
  then have "suffix bs (o_sampleList ob)" using FindBufferEntry_suffix [of L ob t clk] by simp
  then show ?thesis
    using f by (auto simp: start_after_def split: list.splits intro: suffix_ConsD)
qed

lemma ReadBuffer_run:
  assumes "get_obs h r = Some ob" "res_GetDataType h r = Some t" "readable L t (o_sampleList ob)"
    "\<forall>q \<in> set (o_readOpList ob). op_fd q \<noteq> fd" "start_after L ob startAfter (clock h) = (start, clk)"
    "takes L t (o_sampleList ob) (other_readers fd ob) results (started L t ob start fd handler ctx)"
    "length (json_list (pieces L t start)) \<le> length results"
  shows "obs_ReadBufferJson L r startAfter fd True handler ctx results h =
    Some (h\<lparr>clock := clk, events := events h @ [FdWrite fd (json_list (pieces L t start)), ReadDone handler ctx True]\<rparr>)"
proof -
  define op where "op = started L t ob start fd handler ctx"
  have suf: "suffix start (o_sampleList ob)"
    using start_after_suffix [of L ob startAfter "clock h"] assms(5) by simp
  note st = started_ok [OF assms(3) suf op_def]
  define ob1 where "ob1 = ob\<lparr>o_readOpList := o_readOpList ob @ [new_read_op (first_entry start) fd handler ctx]\<rparr>"
  define ob2 where "ob2 = ob\<lparr>o_readOpList := o_readOpList ob @ [op]\<rparr>"
  define h1 where "h1 = put_obs r ob2 (h\<lparr>clock := clk\<rparr>)"
  have readers: "other_readers fd ob1 = other_readers fd ob" "other_readers fd ob2 = other_readers fd ob"
    using st(4) by (auto simp: ob1_def ob2_def other_readers_def new_read_op_def)
  have put: "put_op op ob1 = ob2"
    using assms(4) st(4) map_other_ops [of "o_readOpList ob" fd op]
    by (simp add: put_op_def ob1_def ob2_def new_read_op_def)
  have start: "obs_ReadBufferJson L r startAfter fd True handler ctx results h = ContinueReadOp L r fd results h1"
    using assms(1,2,5) st(1) readers(1) put
    by (auto simp: obs_ReadBufferJson_def StartRead_def Let_def first_entry_def [symmetric]
        new_read_op_def [symmetric] ob1_def [symmetric] h1_def res_GetDataType_def)
  obtain op' where run: "read_run L t (o_sampleList ob) (other_readers fd ob) results op
      = Some (op', json_list (pieces L t start), Ended LE_OK)" "op_fd op' = fd"
    using read_run_enough [OF assms(3) st(2,3) assms(6) [folded op_def]] st(4,7) assms(7) by auto
  note frame = read_run_frame [OF run(1)]
  define ob3 where "ob3 = put_op op' ob2"
  define h2 where "h2 = add_event (FdWrite fd (json_list (pieces L t start))) (put_obs r ob3 h1)"
  have ob3: "ob3 = ob\<lparr>o_readOpList := o_readOpList ob @ [op']\<rparr>"
    using assms(4) run(2) st(4) map_other_ops [of "o_readOpList ob" fd op']
    by (simp add: ob3_def put_op_def ob2_def)
  have find: "find_op fd ob2 = Some op" "find_op fd ob3 = Some op'"
    using assms(4) find_op_last [of "o_readOpList ob" op] find_op_last [of "o_readOpList ob" op'] st(4) run(2)
    by (simp_all add: find_op_def ob2_def ob3)
  have g: "get_obs h1 r = Some ob2" "get_obs h2 r = Some ob3"
    using assms(1) by (simp_all add: h1_def h2_def get_put_obs get_obs_add_event)
  have "res_GetDataType h1 r = Some t"
    using assms(1,2) by (auto simp: h1_def res_GetDataType_def put_obs_def get_obs_Some)
  moreover have "o_sampleList ob2 = o_sampleList ob" by (simp add: ob2_def)
  ultimately have "ContinueReadOp L r fd results h1 = EndRead r fd LE_OK h2"
    using g(1) find(1) run(1) readers(2) by (simp add: ContinueReadOp_def h2_def ob3_def)
  also have "\<dots> = Some (add_event (ReadDone handler ctx True) (put_obs r ob h2))"
  proof -
    have "ob3\<lparr>o_readOpList := filter (\<lambda>q. op_fd q \<noteq> fd) (o_readOpList ob3)\<rparr> = ob"
      using filter_other_ops [OF assms(4)] run(2) by (simp add: ob3)
    then show ?thesis using g(2) find(2) frame st(5,6) by (simp add: EndRead_def)
  qed
  also have "\<dots> = Some (h\<lparr>clock := clk, events := events h @
      [FdWrite fd (json_list (pieces L t start)), ReadDone handler ctx True]\<rparr>)"
    using put_obs_same [OF assms(1)]
    by (simp add: h2_def h1_def put_obs_frame put_obs_events add_event_def)
  finally show ?thesis using start by simp
qed

text \<open>A sample whose JSON form is the text of a document.\<close>

definition showable :: "io_DataType_t \<Rightarrow> dataSample_Ref_t \<Rightarrow> bool" where
  "showable t s \<longleftrightarrow> \<not> isnan (timestamp s) \<and> \<not> isinf (timestamp s) \<and> showable_value t (sample_val s)"

lemma sample_text_object:
  assumes "utf8_copy_ok L" "showable t s" "sample_text L t s = Some p" "p \<noteq> []"
  shows "\<exists>j. json_text j p"
proof -
  have w: "ws []" by (simp add: ws_def)
  let ?ts = "dbl_format (timestamp s)"
  let ?pre = "''{\"t\":'' @ ?ts @ '',\"v\":''"
  obtain out where out: "p = ?pre @ out @ ''}''" "length ?pre < READ_OP_BUFF_BYTES"
    "dataSample_ConvertToJson L s t (READ_OP_BUFF_BYTES - length ?pre - 1) = Some (LE_OK, out)"
    using assms(3,4) by (auto simp: sample_text_def Let_def dataSample_GetTimestamp_def bind_eq_Some_conv split: if_splits)
  have fin: "\<not> isnan (timestamp s)" "\<not> isinf (timestamp s)" using assms(2) by (simp_all add: showable_def)
  have room: "0 < READ_OP_BUFF_BYTES - length ?pre - 1"
    using dbl_format_length [OF fin] by (simp add: READ_OP_BUFF_BYTES_def IO_MAX_STRING_VALUE_LEN_def)
  obtain j where j: "json_text j out" using ConvertToJson_text [OF assms(1) _ room out(3)] assms(2) unfolding showable_def by blast
  have ts: "json_text (JNum ?ts) ?ts" using fin by (auto intro!: text_num dbl_format_token)
  have r: "raw_ok ''t''" "raw_ok ''v''" by simp_all
  have "json_members [(''v'', j)] (CHR 0x22 # ''v'' @ [CHR 0x22] @ [] @ '':'' @ [] @ out @ [] @ ''}'')"
    by (rule members_last [OF r(2) w w j w])
  from text_obj [OF w members_more [OF r(1) w w ts w w this]] show ?thesis using out(1) by auto
qed

lemma elems_pieces:
  assumes "\<forall>p \<in> set (q # ps). \<exists>j. json_text j p"
  shows "\<exists>js. json_elems js (q @ pieces_end ps)"
  using assms
proof (induction ps arbitrary: q)
  have w: "ws []" by (simp add: ws_def)
  case Nil
  then obtain j where "json_text j q" by auto
  from elems_last [OF this w] show ?case by (auto simp: pieces_end_def)
next
  have w: "ws []" by (simp add: ws_def)
  case (Cons p ps)
  then obtain j js where "json_text j q" "json_elems js (p @ pieces_end ps)" by fastforce
  from elems_more [OF this(1) w w this(2)] show ?case by (auto simp: pieces_end_def)
qed

lemma json_list_valid:
  assumes "utf8_copy_ok L" "\<forall>b \<in> set bs. showable t (snd b)"
  shows "json_IsValid (json_list (pieces L t bs))"
proof -
  have w: "ws []" by (simp add: ws_def)
  have p: "\<forall>p \<in> set (pieces L t bs). \<exists>j. json_text j p"
    using sample_text_object [OF assms(1)] assms(2) by (auto simp: pieces_def split: option.splits)
  have "\<exists>j. json_text j (json_list (pieces L t bs))"
  proof (cases "pieces L t bs")
    case Nil
    then show ?thesis using text_arr0 [OF w] by (auto simp: json_list_def)
  next
    case (Cons q ps)
    obtain js where "json_elems js (q @ pieces_end ps)" using elems_pieces [of q ps] p Cons by auto
    from text_arr [OF w this] show ?thesis by (auto simp: json_list_def Cons)
  qed
  then show ?thesis using json_text_valid w by blast
qed

text \<open>
  C9: a read of a buffer that is given room by its descriptor ends successfully and has then written a
  bracket, the texts of the samples from the start time on, oldest first and separated by commas, and a
  bracket; a sample whose text does not fit the buffer of the read is left out. This is valid JSON if all these
  samples have a JSON form: it is not for triggers, numbers that are not finite, and strings with quotes
  or a backslash at the end. Each accepted write is progress, so as many as the list has bytes are enough.
\<close>

theorem ReadBufferJson_complete:
  assumes "get_obs h r = Some ob" "res_GetDataType h r = Some t" "readable L t (o_sampleList ob)"
    "\<forall>q \<in> set (o_readOpList ob). op_fd q \<noteq> fd" "start_after L ob startAfter (clock h) = (start, clk)"
    "takes L t (o_sampleList ob) (other_readers fd ob) results (started L t ob start fd handler ctx)"
    "length (json_list (pieces L t start)) \<le> length results"
  shows "obs_ReadBufferJson L r startAfter fd True handler ctx results h =
    Some (h\<lparr>clock := clk, events := events h @ [FdWrite fd (json_list (pieces L t start)), ReadDone handler ctx True]\<rparr>) \<and>
    (utf8_copy_ok L \<and> (\<forall>b \<in> set start. showable t (snd b)) \<longrightarrow> json_IsValid (json_list (pieces L t start)))"
  using ReadBuffer_run [OF assms] json_list_valid by blast

text \<open>Two numbers read in pieces of one byte.\<close>

definition two_numbers :: "BufferEntry_t list" where
  "two_numbers = [(0, number_at 1 5), (1, number_at 2 7)]"

definition read_hub :: hub where
  "read_hub = (obs_hub (with_list number_obs two_numbers))\<lparr>resources :=
     [0 \<mapsto> (res_Construct 2)\<lparr>r_currentType := IO_DATA_TYPE_NUMERIC,
                             r_sub := Observation (with_list number_obs two_numbers)\<rparr>]\<rparr>"

lemma number_text:
  assumes "dbl_format (dbl_of_int t) = ft" "dbl_format (dbl_of_int v) = fv" "length ft < 100" "length fv < 100"
  shows "sample_text L IO_DATA_TYPE_NUMERIC (number_at t v) = Some (''{\"t\":'' @ ft @ '',\"v\":'' @ fv @ ''}'')"
  using assms
  by (simp add: sample_text_def number_at_def READ_OP_BUFF_BYTES_def IO_MAX_STRING_VALUE_LEN_def
      dataSample_GetTimestamp_def dataSample_ConvertToJson_def dataSample_GetNumeric_def print_result_def
      snprintf_text_def)

lemma two_numbers_text:
  "sample_text L IO_DATA_TYPE_NUMERIC (number_at 1 5) = Some ''{\"t\":1.000000,\"v\":5.000000}''"
  "sample_text L IO_DATA_TYPE_NUMERIC (number_at 2 7) = Some ''{\"t\":2.000000,\"v\":7.000000}''"
proof -
  have "dbl_format (dbl_of_int 1) = ''1.000000''" "dbl_format (dbl_of_int 5) = ''5.000000''"
    "dbl_format (dbl_of_int 2) = ''2.000000''" "dbl_format (dbl_of_int 7) = ''7.000000''"
    by code_simp+
  then show "sample_text L IO_DATA_TYPE_NUMERIC (number_at 1 5) = Some ''{\"t\":1.000000,\"v\":5.000000}''"
    "sample_text L IO_DATA_TYPE_NUMERIC (number_at 2 7) = Some ''{\"t\":2.000000,\"v\":7.000000}''"
    by (simp_all add: number_text)
qed

lemma two_numbers_readable:
  "readable L IO_DATA_TYPE_NUMERIC two_numbers"
  "pieces L IO_DATA_TYPE_NUMERIC two_numbers = [''{\"t\":1.000000,\"v\":5.000000}'', ''{\"t\":2.000000,\"v\":7.000000}'']"
  using two_numbers_text [of L] by (simp_all add: readable_def pieces_def two_numbers_def)

text \<open>A byte at a time is always taken.\<close>

lemma write_chunk_nonempty: "loaded_ok op \<Longrightarrow> write_chunk op \<noteq> []"
  by (cases "op_state op") (auto simp: loaded_ok_def write_chunk_def)

lemma takes_bytes:
  assumes "readable L t bs"
  shows "op_nextEntryPtr op = None \<or> op_nextEntryPtr op \<in> Some ` set bs \<Longrightarrow> loaded_ok op \<Longrightarrow>
    takes L t bs others (replicate k (Wrote 1)) op"
proof (induction k arbitrary: op)
  case (Suc k)
  have n: "1 \<le> length (write_chunk op)"
    using write_chunk_nonempty [OF Suc.prems(2)] by (cases "write_chunk op") auto
  obtain op' out st where "read_turn L t bs others (Wrote 1) op = Some (op', out, st)"
    "st = Going \<longrightarrow> loaded_ok op' \<and> (op_nextEntryPtr op' = None \<or> op_nextEntryPtr op' \<in> Some ` set bs)"
    using read_turn_remaining [OF assms Suc.prems zero_less_one n] by metis
  then show ?case using Suc.IH [of op'] n by (cases st) simp_all
qed simp

lemma ReadBufferJson_complete_witness:
  "\<exists>h. obs_ReadBufferJson sample_legato 0 NAN 4 True 5 6 (replicate 60 (Wrote 1)) read_hub = Some h
    \<and> events h = [FdWrite 4 ''[{\"t\":1.000000,\"v\":5.000000},{\"t\":2.000000,\"v\":7.000000}]'', ReadDone 5 6 True]
    \<and> json_IsValid ''[{\"t\":1.000000,\"v\":5.000000},{\"t\":2.000000,\"v\":7.000000}]''"
proof -
  let ?ob = "with_list number_obs two_numbers"
  have g: "get_obs read_hub 0 = Some ?ob" "res_GetDataType read_hub 0 = Some IO_DATA_TYPE_NUMERIC"
    "events read_hub = []" "clock read_hub = 0"
    by (simp_all add: read_hub_def get_obs_def res_GetDataType_def) (simp_all add: obs_hub_def initial_hub_def)
  have rd: "readable sample_legato IO_DATA_TYPE_NUMERIC (o_sampleList ?ob)"
    by (simp add: two_numbers_readable)
  have no: "\<forall>q \<in> set (o_readOpList ?ob). op_fd q \<noteq> 4"
    by (simp add: with_list_def number_obs_def)
  have st: "start_after sample_legato ?ob NAN 0 = (two_numbers, 0)"
    by (simp add: start_after_def FindBufferEntry_def dbl_eq_def split: list.splits)
  note s = started_ok [OF rd, of two_numbers _ 4 5 6, OF _ refl]
  have tk: "takes sample_legato IO_DATA_TYPE_NUMERIC (o_sampleList ?ob) (other_readers 4 ?ob) (replicate 60 (Wrote 1))
      (started sample_legato IO_DATA_TYPE_NUMERIC ?ob two_numbers 4 5 6)"
    by (rule takes_bytes [OF rd s(2,3)]) simp_all
  have "showable IO_DATA_TYPE_NUMERIC (number_at 1 5)" "showable IO_DATA_TYPE_NUMERIC (number_at 2 7)"
    unfolding showable_def number_at_def showable_value_def DataSample_t.select_convs sample_value.case by code_simp+
  then have "\<forall>b \<in> set two_numbers. showable IO_DATA_TYPE_NUMERIC (snd b)" by (simp add: two_numbers_def)
  then show ?thesis
    using sample_legato_ok ReadBufferJson_complete [OF g(1,2) rd no st [folded g(4)] tk] g(3)
    by (simp add: two_numbers_readable json_list_def pieces_end_def)
qed

subsection \<open>Reads while the buffer changes\<close>

text \<open>
  The steps of a read operation when samples come and go between its turns: each turn sees a buffer,
  a type and other readers of its own. The second component is what has been written.
\<close>

inductive reading :: "legato \<Rightarrow> ReadOperation_t \<Rightarrow> string \<Rightarrow> bool" for L where
  reading_start:
    "LoadReadOpBuffer L t bs others (new_read_op start fd handler ctx) = Some (loaded, op) \<Longrightarrow> reading L op []"
| reading_turn:
    "reading L op w \<Longrightarrow> 0 < n \<Longrightarrow> n \<le> length (write_chunk op) \<Longrightarrow>
     read_turn L t bs others (Wrote n) op = Some (op', out, Going) \<Longrightarrow> reading L op' (w @ out)"

inductive_cases reading_cases: "reading L op w"

definition is_piece :: "legato \<Rightarrow> string \<Rightarrow> bool" where
  "is_piece L p \<longleftrightarrow> p \<noteq> [] \<and> (\<exists>t s. sample_text L t s = Some p)"

definition items_text :: "string list \<Rightarrow> string" where
  "items_text ps = (case ps of [] \<Rightarrow> [] | p # ps \<Rightarrow> p @ concat (map ((#) (CHR '','')) ps))"

lemma items_text_snoc: "items_text (ps @ [p]) = (if ps = [] then p else items_text ps @ '','' @ p)"
  by (cases ps) (simp_all add: items_text_def)

lemma json_list_items: "json_list ps = ''['' @ items_text ps @ '']''"
  by (cases ps) (simp_all add: json_list_def items_text_def pieces_end_def)

text \<open>What has been written, by state, with the pieces that are complete.\<close>

definition written_ok :: "legato \<Rightarrow> ReadOperation_t \<Rightarrow> string list \<Rightarrow> string \<Rightarrow> bool" where
  "written_ok L op ps w \<longleftrightarrow>
     loaded_ok op \<and> (\<forall>p \<in> set ps. is_piece L p) \<and>
     (op_writeBuffer op \<noteq> [] \<longrightarrow> is_piece L (op_writeBuffer op)) \<and>
     (case op_state op of
        START \<Rightarrow> w = [] \<and> ps = []
      | SAMPLE \<Rightarrow> w = ''['' @ (if ps = [] then [] else items_text ps @ '','')
                    @ take (op_writeOffset op) (op_writeBuffer op)
      | COMMA \<Rightarrow> w = ''['' @ items_text ps \<and> ps \<noteq> []
      | END \<Rightarrow> w = ''['' @ items_text ps)"

lemma LoadFrom_is_piece: "LoadFrom L t bs = Some (nx, p) \<Longrightarrow> p \<noteq> [] \<Longrightarrow> is_piece L p"
  by (induction bs) (auto simp: bind_Some_iff is_piece_def split: if_splits)

lemma Load_is_piece:
  assumes "LoadReadOpBuffer L t bs others op = Some (loaded, op')"
  obtains nx p where "op' = op\<lparr>op_nextEntryPtr := nx, op_writeBuffer := p, op_writeLen := length p, op_writeOffset := 0\<rparr>"
    "loaded = (p \<noteq> [])" "p \<noteq> [] \<longrightarrow> is_piece L p"
  using assms LoadFrom_is_piece by (auto simp: LoadReadOpBuffer_def bind_Some_iff)

lemma read_turn_written:
  assumes "written_ok L op ps w" "0 < n" "n \<le> length (write_chunk op)"
    "read_turn L t bs others (Wrote n) op = Some (op', out, Going)"
  shows "\<exists>ps'. written_ok L op' ps' (w @ out)"
proof (cases "op_state op")
  case START
  then show ?thesis
    using assms by (intro exI [of _ "[]"])
      (auto simp: written_ok_def read_turn_def write_chunk_def loaded_ok_def items_text_def Let_def le_Suc_eq)
next
  case SAMPLE
  have out: "out = take n (drop (op_writeOffset op) (op_writeBuffer op))"
    using assms(4) SAMPLE by (auto simp: read_turn_def write_chunk_def Let_def bind_Some_iff split: if_splits)
  have w: "w @ out = ''['' @ (if ps = [] then [] else items_text ps @ '','')
      @ take (op_writeOffset op + n) (op_writeBuffer op)"
    using assms(1) SAMPLE out by (simp add: written_ok_def take_add)
  have b: "is_piece L (op_writeBuffer op)" "op_writeLen op = length (op_writeBuffer op)"
    using assms(1) SAMPLE by (auto simp: written_ok_def loaded_ok_def)
  show ?thesis
  proof (cases "op_writeOffset op + n = op_writeLen op")
    case True
    define op1 where "op1 = op\<lparr>op_writeOffset := op_writeOffset op + n\<rparr>"
    obtain loaded op2 where l: "LoadReadOpBuffer L t bs others op1 = Some (loaded, op2)"
      "op' = op2\<lparr>op_state := (if loaded then COMMA else END)\<rparr>"
      using assms(4) SAMPLE True by (auto simp: read_turn_def Let_def op1_def bind_Some_iff)
    obtain nx p where p: "op2 = op1\<lparr>op_nextEntryPtr := nx, op_writeBuffer := p, op_writeLen := length p, op_writeOffset := 0\<rparr>"
      "loaded = (p \<noteq> [])" "p \<noteq> [] \<longrightarrow> is_piece L p"
      by (rule Load_is_piece [OF l(1)])
    have "w @ out = ''['' @ items_text (ps @ [op_writeBuffer op])"
      using w True b(2) by (simp add: items_text_snoc)
    then have "written_ok L op' (ps @ [op_writeBuffer op]) (w @ out)"
      using assms(1) b(1) l(2) p by (auto simp: written_ok_def loaded_ok_def)
    then show ?thesis by blast
  next
    case False
    have "n \<le> op_writeLen op - op_writeOffset op"
      using assms(3) SAMPLE b(2) by (simp add: write_chunk_def)
    then have "op_writeOffset op + n < op_writeLen op"
      using False assms(1,2) SAMPLE by (auto simp: written_ok_def loaded_ok_def)
    then have "written_ok L op' ps (w @ out)"
      using assms(1,4) SAMPLE False w
      by (auto simp: written_ok_def loaded_ok_def read_turn_def Let_def)
    then show ?thesis by blast
  qed
next
  case COMMA
  then have "written_ok L op' ps (w @ out)"
    using assms by (auto simp: written_ok_def read_turn_def write_chunk_def loaded_ok_def Let_def le_Suc_eq)
  then show ?thesis by blast
next
  case END
  then show ?thesis using assms(4) by (simp add: read_turn_def Let_def)
qed

lemma reading_written: "reading L op w \<Longrightarrow> \<exists>ps. written_ok L op ps w"
proof (induction rule: reading.induct)
  case (reading_start t bs others start fd handler ctx loaded op)
  obtain nx p where "op = (new_read_op start fd handler ctx)\<lparr>op_nextEntryPtr := nx, op_writeBuffer := p,
      op_writeLen := length p, op_writeOffset := 0\<rparr>" "loaded = (p \<noteq> [])" "p \<noteq> [] \<longrightarrow> is_piece L p"
    by (rule Load_is_piece [OF reading_start])
  then have "written_ok L op [] []"
    by (simp add: written_ok_def loaded_ok_def new_read_op_def)
  then show ?case by blast
next
  case (reading_turn op w n t bs others op' out)
  then show ?case using read_turn_written by blast
qed

text \<open>
  C19: whatever happens to the buffer between its turns (samples pushed, dropped or replaced by others
  of another type, other readers), a read that completes has written a JSON list of pieces, each the
  text of one sample: no piece is torn, and brackets and commas are in place.
\<close>

theorem reading_well_formed:
  assumes "reading L op w" "0 < n" "read_turn L t bs others (Wrote n) op = Some (op', out, Ended res)"
  shows "res = LE_OK \<and> (\<exists>ps. (\<forall>p \<in> set ps. is_piece L p) \<and> w @ out = json_list ps)"
proof -
  obtain ps where ps: "written_ok L op ps w" using reading_written [OF assms(1)] by blast
  have e: "op_state op = END" "out = '']''" "res = LE_OK"
    using assms(2,3)
    by (cases "op_state op"; auto simp: read_turn_def write_chunk_def Let_def bind_Some_iff split: if_splits)+
  then have "w @ out = json_list ps" using ps by (simp add: written_ok_def json_list_items)
  then show ?thesis using ps e(3) by (auto simp: written_ok_def)
qed

text \<open>An empty list, with a sample that is pushed after the bracket was written.\<close>

lemma reading_well_formed_witness:
  "\<exists>op w op' out ps. reading sample_legato op w
     \<and> read_turn sample_legato IO_DATA_TYPE_NUMERIC two_numbers (\<lambda>_. 0) (Wrote 1) op = Some (op', out, Ended LE_OK)
     \<and> w @ out = json_list ps \<and> (\<forall>p \<in> set ps. is_piece sample_legato p)"
proof -
  let ?op = "new_read_op None 4 5 6"
  let ?fin = "?op\<lparr>op_state := END\<rparr>"
  have l: "LoadReadOpBuffer sample_legato IO_DATA_TYPE_NUMERIC [] (\<lambda>_. 0) ?op = Some (False, ?op)"
    by (simp add: LoadReadOpBuffer_def entries_from_def new_read_op_def)
  have "read_turn sample_legato IO_DATA_TYPE_NUMERIC [] (\<lambda>_. 0) (Wrote 1) ?op = Some (?fin, ''['', Going)"
    by (simp add: read_turn_def new_read_op_def write_chunk_def)
  then have r: "reading sample_legato ?fin ''[''"
    using reading_turn [OF reading_start [OF l], of 1] by (simp add: write_chunk_def new_read_op_def)
  have e: "read_turn sample_legato IO_DATA_TYPE_NUMERIC two_numbers (\<lambda>_. 0) (Wrote 1) ?fin = Some (?fin, '']'', Ended LE_OK)"
    by (simp add: read_turn_def new_read_op_def write_chunk_def)
  show ?thesis
    using reading_well_formed [OF r zero_less_one e] r e by blast
qed

text \<open>
  The sample of a trigger has no value in the text of a read: after the name of the value member
  comes the closing brace, which is not JSON.
\<close>

theorem trigger_text_not_json:
  assumes "length (dbl_format (timestamp s)) < 50000"
  shows "sample_text L IO_DATA_TYPE_TRIGGER s = Some (''{\"t\":'' @ dbl_format (timestamp s) @ '',\"v\":}'')"
  using assms
  by (simp add: sample_text_def READ_OP_BUFF_BYTES_def IO_MAX_STRING_VALUE_LEN_def dataSample_GetTimestamp_def
      dataSample_ConvertToJson_def)

lemma trigger_text_not_json_witness:
  "sample_text sample_legato IO_DATA_TYPE_TRIGGER \<lparr> timestamp = dbl_of_int 1, sample_val = VTrigger \<rparr>
     = Some ''{\"t\":1.000000,\"v\":}'' \<and> \<not> json_IsValid ''{\"t\":1.000000,\"v\":}''"
proof -
  have f: "dbl_format (dbl_of_int 1) = ''1.000000''" by code_simp
  have "\<not> json_IsValid ''{\"t\":1.000000,\"v\":}''" by code_simp
  then show ?thesis
    using trigger_text_not_json [of "\<lparr> timestamp = dbl_of_int 1, sample_val = VTrigger \<rparr>" sample_legato]
    by (simp add: f)
qed

end
