(* ===== verification/Resource.thy ===== *)
theory Resource
  imports ReadOp
begin

text \<open>
  Resources, \<open>src/apps/DataHub/components/dataHub/resource.c\<close>: creation and destruction, the routes
  between them, pushes with overrides, defaults and suspended updates, and the administrative settings.

  The recursions along routes have an argument that bounds their depth. With the number of resources
  ever created, plus one, it is never reached unless the routes form a loop; then the C code does not
  end either, and the result is \<open>None\<close>.
\<close>

definition HUB_MAX_UNITS_BYTES :: nat where
  "HUB_MAX_UNITS_BYTES = 24"

definition update_res :: "rid \<Rightarrow> (res_Resource_t \<Rightarrow> res_Resource_t) \<Rightarrow> hub \<Rightarrow> hub option" where
  "update_res r f h = do { x \<leftarrow> resources h r; Some (put_res r (f x) h) }"

subsection \<open>Helpers\<close>

text \<open>Whether a resource can be reached from another along routes, searched depth first.\<close>

fun can_get_there :: "nat \<Rightarrow> hub \<Rightarrow> rid \<Rightarrow> rid \<Rightarrow> bool option" where
  "can_get_there 0 h there here = None"
| "can_get_there (Suc n) h there here = do {
     x \<leftarrow> resources h here;
     any_option (\<lambda>d. if d = there then Some True else can_get_there n h there d) (r_destList x)
   }"

definition CanGetThereFromHere :: "hub \<Rightarrow> rid \<Rightarrow> rid \<Rightarrow> bool option" where
  "CanGetThereFromHere h there here = can_get_there (Suc (nextRes h)) h there here"

definition IsAcceptable :: "hub \<Rightarrow> rid \<Rightarrow> io_DataType_t \<Rightarrow> bool option" where
  "IsAcceptable h r t = do {
     entryType \<leftarrow> entry_type_of h r;
     if entryType \<noteq> ADMIN_ENTRY_TYPE_INPUT \<and> entryType \<noteq> ADMIN_ENTRY_TYPE_OUTPUT then Some True
     else do { d \<leftarrow> ioPoint_GetDataType h r; Some (t = d) }
   }"

text \<open>Units that are too long are cut off.\<close>

definition SetUnits :: "legato \<Rightarrow> rid \<Rightarrow> string \<Rightarrow> hub \<Rightarrow> hub option" where
  "SetUnits L r units = update_res r (\<lambda>x. x\<lparr>r_units := snd (utf8_Copy L units HUB_MAX_UNITS_BYTES)\<rparr>)"

subsection \<open>Creation and destruction\<close>

definition res_CreateInput ::
  "legato \<Rightarrow> eid \<Rightarrow> io_DataType_t \<Rightarrow> string \<Rightarrow> hub \<Rightarrow> (rid \<times> hub) option" where
  "res_CreateInput L e t units h = do {
     let (r, h) = ioPoint_CreateInput t e h;
     h \<leftarrow> update_res r (\<lambda>x. x\<lparr>r_currentType := t\<rparr>) h;
     h \<leftarrow> SetUnits L r units h;
     Some (r, h)
   }"

definition res_CreateOutput ::
  "legato \<Rightarrow> eid \<Rightarrow> io_DataType_t \<Rightarrow> string \<Rightarrow> hub \<Rightarrow> (rid \<times> hub) option" where
  "res_CreateOutput L e t units h = do {
     (r, h) \<leftarrow> ioPoint_CreateOutput t e h;
     h \<leftarrow> update_res r (\<lambda>x. x\<lparr>r_currentType := t\<rparr>) h;
     h \<leftarrow> SetUnits L r units h;
     Some (r, h)
   }"

definition res_CreateObservation :: "legato \<Rightarrow> eid \<Rightarrow> hub \<Rightarrow> rid \<times> hub" where
  "res_CreateObservation L e h = obs_Create L e h"

definition res_CreatePlaceholder :: "eid \<Rightarrow> hub \<Rightarrow> rid \<times> hub" where
  "res_CreatePlaceholder e h = alloc_res (res_Construct e) h"

text \<open>The references on the resource's samples are released with the object.\<close>

definition res_Destruct :: "rid \<Rightarrow> hub \<Rightarrow> hub option" where
  "res_Destruct r h = do {
     h \<leftarrow> update_res r (\<lambda>x. x\<lparr>r_entryRef := None, r_currentValue := None, r_pushedValue := None\<rparr>) h;
     x \<leftarrow> resources h r;
     le_assert (r_srcPtr x = None);
     le_assert (r_destList x = []);
     h \<leftarrow> update_res r (\<lambda>x. x\<lparr>r_overrideValue := None, r_defaultValue := None\<rparr>) h;
     h \<leftarrow> handler_RemoveAll r h;
     update_res r (\<lambda>x. x\<lparr>r_jsonExample := None\<rparr>) h
   }"

text \<open>Every pending read ends with an error.\<close>

definition end_reads :: "rid \<Rightarrow> hub \<Rightarrow> hub option" where
  "end_reads r h = do {
     ob \<leftarrow> get_obs h r;
     fold_option (\<lambda>op. EndRead r (op_fd op) LE_COMM_ERROR) (o_readOpList ob) h
   }"

definition ObservationDestructor :: "legato \<Rightarrow> rid \<Rightarrow> hub \<Rightarrow> hub option" where
  "ObservationDestructor L r h = do {
     ob \<leftarrow> get_obs h r;
     let h = put_obs r (ob\<lparr>o_sampleList := [], o_count := 0, o_maxCount := 0\<rparr>) h;
     h \<leftarrow> (if o_backupPeriod ob > 0 then DeleteBackup L r h else Some h);
     h \<leftarrow> end_reads r h;
     res_Destruct r h
   }"

text \<open>The last reference on a resource is released: its destructor runs and the object is gone.\<close>

definition Release_Resource :: "legato \<Rightarrow> rid \<Rightarrow> hub \<Rightarrow> hub option" where
  "Release_Resource L r h = do {
     x \<leftarrow> resources h r;
     h \<leftarrow> (case r_sub x of Observation _ \<Rightarrow> ObservationDestructor L r h | _ \<Rightarrow> res_Destruct r h);
     Some (h\<lparr>resources := (resources h)(r := None)\<rparr>)
   }"

subsection \<open>JSON examples and routes\<close>

fun set_json_example :: "nat \<Rightarrow> rid \<Rightarrow> dataSample_Ref_t \<Rightarrow> hub \<Rightarrow> hub option" where
  "set_json_example 0 r example h = None"
| "set_json_example (Suc n) r example h = do {
     x \<leftarrow> resources h r;
     fold_option (\<lambda>d h. do {
         ok \<leftarrow> IsAcceptable h d IO_DATA_TYPE_JSON;
         if ok then set_json_example n d example h else Some h
       }) (r_destList x) (put_res r (x\<lparr>r_jsonExample := Some example\<rparr>) h)
   }"

definition res_SetJsonExample :: "rid \<Rightarrow> dataSample_Ref_t \<Rightarrow> hub \<Rightarrow> hub option" where
  "res_SetJsonExample r example h = set_json_example (Suc (nextRes h)) r example h"

definition res_GetJsonExample :: "hub \<Rightarrow> rid \<Rightarrow> dataSample_Ref_t option option" where
  "res_GetJsonExample h r = map_option r_jsonExample (resources h r)"

text \<open>
  Linking a resource into the list of destinations of its source, and taking it out again. A link that
  is taken out must be in the list.
\<close>

definition link_dest :: "rid \<Rightarrow> rid \<Rightarrow> hub \<Rightarrow> hub option" where
  "link_dest src dest h = do {
     h \<leftarrow> update_res src (\<lambda>y. y\<lparr>r_destList := r_destList y @ [dest]\<rparr>) h;
     update_res dest (\<lambda>x. x\<lparr>r_srcPtr := Some src\<rparr>) h
   }"

definition unlink_dest :: "rid \<Rightarrow> rid \<Rightarrow> hub \<Rightarrow> hub option" where
  "unlink_dest src dest h = do {
     y \<leftarrow> resources h src;
     le_assert (dest \<in> set (r_destList y));
     h \<leftarrow> update_res src (\<lambda>y. y\<lparr>r_destList := remove1 dest (r_destList y)\<rparr>) h;
     update_res dest (\<lambda>x. x\<lparr>r_srcPtr := None\<rparr>) h
   }"

text \<open>During an extended update a resource whose settings change takes no new values.\<close>

definition mark_changing :: "rid \<Rightarrow> hub \<Rightarrow> hub option" where
  "mark_changing r h =
     (if IsUpdateInProgress h then update_res r (\<lambda>x. x\<lparr>r_isConfigChanging := True\<rparr>) h else Some h)"

definition connect_source :: "rid \<Rightarrow> rid \<Rightarrow> hub \<Rightarrow> (le_result_t \<times> hub) option" where
  "connect_source dest src h = do {
     loop \<leftarrow> CanGetThereFromHere h src dest;
     if loop then Some (LE_DUPLICATE, h)
     else do {
       h \<leftarrow> link_dest src dest h;
       y \<leftarrow> resources h src;
       h \<leftarrow> (case r_jsonExample y of
               None \<Rightarrow> Some h
             | Some example \<Rightarrow> do {
                 ok \<leftarrow> IsAcceptable h dest IO_DATA_TYPE_JSON;
                 if ok then res_SetJsonExample dest example h else Some h
               });
       h \<leftarrow> mark_changing src h;
       h \<leftarrow> mark_changing dest h;
       Some (LE_OK, h)
     }
   }"

definition clear_source :: "legato \<Rightarrow> rid \<Rightarrow> hub \<Rightarrow> (le_result_t \<times> hub) option" where
  "clear_source L dest h = do {
     entryType \<leftarrow> entry_type_of h dest;
     h \<leftarrow> (if entryType = ADMIN_ENTRY_TYPE_OBSERVATION \<or> entryType = ADMIN_ENTRY_TYPE_PLACEHOLDER
           then SetUnits L dest [] h else Some h);
     Some (LE_OK, h)
   }"

definition res_SetSource :: "legato \<Rightarrow> rid \<Rightarrow> rid option \<Rightarrow> hub \<Rightarrow> (le_result_t \<times> hub) option" where
  "res_SetSource L dest src h = do {
     x \<leftarrow> resources h dest;
     if r_srcPtr x = src then Some (LE_OK, h)
     else do {
       h \<leftarrow> (case r_srcPtr x of None \<Rightarrow> Some h | Some old \<Rightarrow> unlink_dest old dest h);
       case src of
         Some s \<Rightarrow> connect_source dest s h
       | None \<Rightarrow> clear_source L dest h
     }
   }"

definition res_GetSource :: "hub \<Rightarrow> rid \<Rightarrow> eid option option" where
  "res_GetSource h dest = do {
     x \<leftarrow> resources h dest;
     case r_srcPtr x of
       None \<Rightarrow> Some None
     | Some s \<Rightarrow> map_option r_entryRef (resources h s)
   }"

subsection \<open>Pushes\<close>

text \<open>The current value of a resource changes: its destinations and its handlers are told.\<close>

definition UpdateCurrentValue ::
  "(rid \<Rightarrow> io_DataType_t \<Rightarrow> string option \<Rightarrow> dataSample_Ref_t \<Rightarrow> hub \<Rightarrow> hub option) \<Rightarrow>
   legato \<Rightarrow> rid \<Rightarrow> io_DataType_t \<Rightarrow> dataSample_Ref_t \<Rightarrow> hub \<Rightarrow> hub option" where
  "UpdateCurrentValue push L r t s h = do {
     ok \<leftarrow> IsAcceptable h r t;
     if \<not> ok then Some h
     else do {
       h \<leftarrow> update_res r (\<lambda>x. x\<lparr>r_currentType := t, r_currentValue := Some s\<rparr>) h;
       h \<leftarrow> update_res r (\<lambda>x.
             if t = IO_DATA_TYPE_JSON
             then (if r_jsonExample x = None then x\<lparr>r_jsonExample := Some s\<rparr> else x)
             else x\<lparr>r_jsonExample := None\<rparr>) h;
       x \<leftarrow> resources h r;
       h \<leftarrow> fold_option (\<lambda>d h. do { x \<leftarrow> resources h r; push d t (Some (r_units x)) s h })
             (r_destList x) h;
       handler_CallAll L r t s h
     }
   }"

text \<open>What an observation makes of a sample; \<open>None\<close> (inside \<open>Some\<close>) when it drops it.\<close>

definition observe ::
  "legato \<Rightarrow> rid \<Rightarrow> io_DataType_t \<Rightarrow> dataSample_Ref_t \<Rightarrow> hub \<Rightarrow>
   ((io_DataType_t \<times> dataSample_Ref_t) option \<times> hub) option" where
  "observe L r t s h = do {
     ((result, t, s), h) \<leftarrow> obs_DoJsonExtraction L r t s h;
     if result \<noteq> LE_OK then Some (None, h)
     else do {
       h \<leftarrow> obs_ProcessAccepted L r t s h;
       (s, h) \<leftarrow> obs_ApplyTransform L r t s h;
       (accepted, h) \<leftarrow> obs_ShouldAccept L r t s h;
       Some (if accepted then Some (t, s) else None, h)
     }
   }"

text \<open>An override in effect replaces a pushed sample, but not its time.\<close>

definition overridden ::
  "hub \<Rightarrow> rid \<Rightarrow> io_DataType_t \<Rightarrow> dataSample_Ref_t \<Rightarrow> string option \<Rightarrow>
   (io_DataType_t \<times> dataSample_Ref_t \<times> string option) option" where
  "overridden h r t s units = do {
     ov \<leftarrow> res_IsOverridden h r;
     if \<not> ov then Some (t, s, units)
     else do {
       x \<leftarrow> resources h r;
       v \<leftarrow> r_overrideValue x;
       copy \<leftarrow> dataSample_Copy (r_overrideType x) v;
       Some (r_overrideType x, dataSample_SetTimestamp copy (dataSample_GetTimestamp s), None)
     }
   }"

text \<open>
  The subclass has the last word on units and type: \<open>None\<close> (inside \<open>Some\<close>) when the units of an input
  or output do not match.
\<close>

definition adapt ::
  "legato \<Rightarrow> rid \<Rightarrow> io_DataType_t \<Rightarrow> dataSample_Ref_t \<Rightarrow> string option \<Rightarrow> hub \<Rightarrow>
   ((io_DataType_t \<times> dataSample_Ref_t) option \<times> hub) option" where
  "adapt L r t s units h = do {
     entryType \<leftarrow> entry_type_of h r;
     x \<leftarrow> resources h r;
     if entryType = ADMIN_ENTRY_TYPE_INPUT \<or> entryType = ADMIN_ENTRY_TYPE_OUTPUT then
       (if units \<noteq> None \<and> r_units x \<noteq> [] \<and> units \<noteq> Some (r_units x) then Some (None, h)
        else do {
          (t, s, h) \<leftarrow> ioPoint_DoTypeCoercion L r t s h;
          Some (Some (t, s), h)
        })
     else if entryType = ADMIN_ENTRY_TYPE_OBSERVATION \<or> entryType = ADMIN_ENTRY_TYPE_PLACEHOLDER then do {
       h \<leftarrow> (case units of None \<Rightarrow> Some h | Some u \<Rightarrow> SetUnits L r u h);
       Some (Some (t, s), h)
     }
     else None
   }"

text \<open>The part of a push that comes after the filter of an observation.\<close>

definition push_taken ::
  "(rid \<Rightarrow> io_DataType_t \<Rightarrow> string option \<Rightarrow> dataSample_Ref_t \<Rightarrow> hub \<Rightarrow> hub option) \<Rightarrow>
   legato \<Rightarrow> rid \<Rightarrow> io_DataType_t \<Rightarrow> string option \<Rightarrow> dataSample_Ref_t \<Rightarrow> hub \<Rightarrow> hub option" where
  "push_taken push L r t units s h = do {
     h \<leftarrow> update_res r (\<lambda>x. x\<lparr>r_pushedType := t, r_pushedValue := Some s\<rparr>) h;
     x \<leftarrow> resources h r;
     if r_isConfigChanging x then Some h
     else do {
       (t, s, units) \<leftarrow> overridden h r t s units;
       (adapted, h) \<leftarrow> adapt L r t s units h;
       case adapted of
         None \<Rightarrow> Some h
       | Some (t, s) \<Rightarrow> UpdateCurrentValue push L r t s h
     }
   }"

definition push_step ::
  "(rid \<Rightarrow> io_DataType_t \<Rightarrow> string option \<Rightarrow> dataSample_Ref_t \<Rightarrow> hub \<Rightarrow> hub option) \<Rightarrow>
   legato \<Rightarrow> rid \<Rightarrow> io_DataType_t \<Rightarrow> string option \<Rightarrow> dataSample_Ref_t \<Rightarrow> hub \<Rightarrow> hub option" where
  "push_step push L r t units s h = do {
     x \<leftarrow> resources h r;
     le_assert (r_entryRef x \<noteq> None);
     let units = (if units = Some [] then None else units);
     entryType \<leftarrow> entry_type_of h r;
     (taken, h) \<leftarrow> (if entryType = ADMIN_ENTRY_TYPE_OBSERVATION then observe L r t s h
                    else Some (Some (t, s), h));
     case taken of
       None \<Rightarrow> Some h
     | Some (t, s) \<Rightarrow> push_taken push L r t units s h
   }"

fun push_along :: "nat \<Rightarrow> legato \<Rightarrow> rid \<Rightarrow> io_DataType_t \<Rightarrow> string option \<Rightarrow> dataSample_Ref_t \<Rightarrow> hub \<Rightarrow> hub option" where
  "push_along 0 L r t units s h = None"
| "push_along (Suc n) L r t units s h = push_step (push_along n L) L r t units s h"

definition res_Push ::
  "legato \<Rightarrow> rid \<Rightarrow> io_DataType_t \<Rightarrow> string option \<Rightarrow> dataSample_Ref_t \<Rightarrow> hub \<Rightarrow> hub option" where
  "res_Push L r t units s h = push_along (Suc (nextRes h)) L r t units s h"

text \<open>A change of the current value that does not come from a push.\<close>

definition update_current ::
  "legato \<Rightarrow> rid \<Rightarrow> io_DataType_t \<Rightarrow> dataSample_Ref_t \<Rightarrow> hub \<Rightarrow> hub option" where
  "update_current L r t s h = UpdateCurrentValue (push_along (Suc (nextRes h)) L) L r t s h"

definition res_AddPushHandler ::
  "rid \<Rightarrow> io_DataType_t \<Rightarrow> nat \<Rightarrow> nat \<Rightarrow> hub \<Rightarrow> (hid \<times> hub) option" where
  "res_AddPushHandler r t callbackPtr contextPtr h = do {
     x \<leftarrow> resources h r;
     e \<leftarrow> r_entryRef x;
     b \<leftarrow> resTree_IsResource h e;
     le_assert b;
     handler_Add r t callbackPtr contextPtr h
   }"

subsection \<open>Moving and dropping settings\<close>

definition res_HasAdminSettings :: "hub \<Rightarrow> rid \<Rightarrow> bool option" where
  "res_HasAdminSettings h r = do {
     entryType \<leftarrow> entry_type_of h r;
     le_assert (entryType \<noteq> ADMIN_ENTRY_TYPE_OBSERVATION);
     x \<leftarrow> resources h r;
     Some (r_srcPtr x \<noteq> None \<or> r_destList x \<noteq> [] \<or> r_overrideValue x \<noteq> None
           \<or> r_defaultValue x \<noteq> None \<or> r_pushHandlerList x \<noteq> [])
   }"

definition move_current :: "legato \<Rightarrow> admin_EntryType_t \<Rightarrow> res_Resource_t \<Rightarrow> res_Resource_t \<Rightarrow> res_Resource_t" where
  "move_current L replacementType x y =
     (if replacementType = ADMIN_ENTRY_TYPE_INPUT \<or> replacementType = ADMIN_ENTRY_TYPE_OUTPUT
      then (if r_currentValue x \<noteq> None \<and> r_currentType x = r_currentType y
            then y\<lparr>r_currentValue := r_currentValue x\<rparr> else y)
      else y\<lparr>r_units := snd (utf8_Copy L (r_units x) HUB_MAX_UNITS_BYTES),
             r_currentType := r_currentType x, r_currentValue := r_currentValue x\<rparr>)"

text \<open>The replacement takes the place of the old resource in the list of its source.\<close>

definition move_source :: "rid \<Rightarrow> rid \<Rightarrow> hub \<Rightarrow> hub option" where
  "move_source src dest h = do {
     x \<leftarrow> resources h src;
     case r_srcPtr x of
       None \<Rightarrow> update_res dest (\<lambda>y. y\<lparr>r_srcPtr := None\<rparr>) h
     | Some s \<Rightarrow> do {
         h \<leftarrow> unlink_dest s src h;
         link_dest s dest h
       }
   }"

definition move_dests :: "rid \<Rightarrow> rid \<Rightarrow> hub \<Rightarrow> hub option" where
  "move_dests src dest h = do {
     x \<leftarrow> resources h src;
     h \<leftarrow> update_res src (\<lambda>x. x\<lparr>r_destList := []\<rparr>) h;
     fold_option (link_dest dest) (r_destList x) h
   }"

definition res_MoveAdminSettings ::
  "legato \<Rightarrow> rid \<Rightarrow> rid \<Rightarrow> admin_EntryType_t \<Rightarrow> hub \<Rightarrow> hub option" where
  "res_MoveAdminSettings L src dest replacementType h = do {
     x \<leftarrow> resources h src;
     y \<leftarrow> resources h dest;
     le_assert (r_entryRef x \<noteq> None);
     le_assert (r_entryRef y \<noteq> None);
     h \<leftarrow> update_res dest (move_current L replacementType x) h;
     h \<leftarrow> update_res src (\<lambda>x. x\<lparr>r_currentValue := None\<rparr>) h;
     h \<leftarrow> update_res dest (\<lambda>y. y\<lparr>r_pushedType := r_pushedType x, r_pushedValue := r_pushedValue x\<rparr>) h;
     h \<leftarrow> update_res src (\<lambda>x. x\<lparr>r_pushedValue := None\<rparr>) h;
     h \<leftarrow> move_source src dest h;
     h \<leftarrow> move_dests src dest h;
     h \<leftarrow> update_res dest (\<lambda>y. y\<lparr>r_overrideType := r_overrideType x, r_overrideValue := r_overrideValue x\<rparr>) h;
     h \<leftarrow> update_res src (\<lambda>x. x\<lparr>r_overrideValue := None\<rparr>) h;
     h \<leftarrow> update_res dest (\<lambda>y. y\<lparr>r_defaultType := r_defaultType x, r_defaultValue := r_defaultValue x\<rparr>) h;
     h \<leftarrow> update_res src (\<lambda>x. x\<lparr>r_defaultValue := None\<rparr>) h;
     h \<leftarrow> update_res dest (\<lambda>y. y\<lparr>r_isConfigChanging := r_isConfigChanging x\<rparr>) h;
     handler_MoveAll dest src h
   }"

text \<open>
  Every destination loses its source. As many steps as there are destinations are enough; a step that
  takes none off the list would be repeated for ever.
\<close>

fun drop_dests :: "nat \<Rightarrow> legato \<Rightarrow> rid \<Rightarrow> hub \<Rightarrow> hub option" where
  "drop_dests n L r h = do {
     x \<leftarrow> resources h r;
     case r_destList x of
       [] \<Rightarrow> Some h
     | d # _ \<Rightarrow> (case n of
         0 \<Rightarrow> None
       | Suc m \<Rightarrow> do { (_, h) \<leftarrow> res_SetSource L d None h; drop_dests m L r h })
   }"

declare drop_dests.simps [simp del]

definition DropSettings :: "legato \<Rightarrow> rid \<Rightarrow> hub \<Rightarrow> hub option" where
  "DropSettings L r h = do {
     h \<leftarrow> update_res r (\<lambda>x. x\<lparr>r_currentValue := None, r_pushedValue := None\<rparr>) h;
     (_, h) \<leftarrow> res_SetSource L r None h;
     x \<leftarrow> resources h r;
     h \<leftarrow> drop_dests (length (r_destList x)) L r h;
     update_res r (\<lambda>x. x\<lparr>r_overrideValue := None, r_defaultValue := None, r_jsonExample := None\<rparr>) h
   }"

definition res_DeleteObservation :: "legato \<Rightarrow> rid \<Rightarrow> hub \<Rightarrow> hub option" where
  "res_DeleteObservation L r h = do { h \<leftarrow> DropSettings L r h; Release_Resource L r h }"

subsection \<open>Settings of observations, inputs and outputs\<close>

text \<open>During an extended update a change of a filter or transform suspends the observation.\<close>

definition res_SetMinPeriod :: "rid \<Rightarrow> double \<Rightarrow> hub \<Rightarrow> hub option" where
  "res_SetMinPeriod r v h = do { h \<leftarrow> obs_SetMinPeriod r v h; mark_changing r h }"

definition res_GetMinPeriod :: "hub \<Rightarrow> rid \<Rightarrow> double option" where
  "res_GetMinPeriod = obs_GetMinPeriod"

definition res_SetHighLimit :: "rid \<Rightarrow> double \<Rightarrow> hub \<Rightarrow> hub option" where
  "res_SetHighLimit r v h = do { h \<leftarrow> obs_SetHighLimit r v h; mark_changing r h }"

definition res_GetHighLimit :: "hub \<Rightarrow> rid \<Rightarrow> double option" where
  "res_GetHighLimit = obs_GetHighLimit"

definition res_SetLowLimit :: "rid \<Rightarrow> double \<Rightarrow> hub \<Rightarrow> hub option" where
  "res_SetLowLimit r v h = do { h \<leftarrow> obs_SetLowLimit r v h; mark_changing r h }"

definition res_GetLowLimit :: "hub \<Rightarrow> rid \<Rightarrow> double option" where
  "res_GetLowLimit = obs_GetLowLimit"

definition res_SetChangeBy :: "rid \<Rightarrow> double \<Rightarrow> hub \<Rightarrow> hub option" where
  "res_SetChangeBy r v h = do { h \<leftarrow> obs_SetChangeBy r v h; mark_changing r h }"

definition res_GetChangeBy :: "hub \<Rightarrow> rid \<Rightarrow> double option" where
  "res_GetChangeBy = obs_GetChangeBy"

definition res_SetTransform :: "rid \<Rightarrow> obs_TransformType_t \<Rightarrow> hub \<Rightarrow> hub option" where
  "res_SetTransform r t h = do { h \<leftarrow> obs_SetTransform r t h; mark_changing r h }"

definition res_GetTransform :: "hub \<Rightarrow> rid \<Rightarrow> obs_TransformType_t option" where
  "res_GetTransform = obs_GetTransform"

definition res_SetBufferMaxCount :: "legato \<Rightarrow> rid \<Rightarrow> 32 word \<Rightarrow> hub \<Rightarrow> hub option" where
  "res_SetBufferMaxCount = obs_SetBufferMaxCount"

definition res_GetBufferMaxCount :: "hub \<Rightarrow> rid \<Rightarrow> 32 word option" where
  "res_GetBufferMaxCount = obs_GetBufferMaxCount"

definition res_SetBufferBackupPeriod :: "legato \<Rightarrow> rid \<Rightarrow> 32 word \<Rightarrow> hub \<Rightarrow> hub option" where
  "res_SetBufferBackupPeriod = obs_SetBufferBackupPeriod"

definition res_GetBufferBackupPeriod :: "hub \<Rightarrow> rid \<Rightarrow> 32 word option" where
  "res_GetBufferBackupPeriod = obs_GetBufferBackupPeriod"

definition res_MarkOptional :: "rid \<Rightarrow> hub \<Rightarrow> hub option" where
  "res_MarkOptional = ioPoint_MarkOptional"

definition res_IsMandatory :: "hub \<Rightarrow> rid \<Rightarrow> bool option" where
  "res_IsMandatory = ioPoint_IsMandatory"

definition res_SetJsonExtraction :: "legato \<Rightarrow> rid \<Rightarrow> string \<Rightarrow> hub \<Rightarrow> hub option" where
  "res_SetJsonExtraction = obs_SetJsonExtraction"

definition res_GetJsonExtraction :: "hub \<Rightarrow> rid \<Rightarrow> string option" where
  "res_GetJsonExtraction = obs_GetJsonExtraction"

definition res_ReadBufferJson ::
  "legato \<Rightarrow> rid \<Rightarrow> double \<Rightarrow> nat \<Rightarrow> bool \<Rightarrow> nat \<Rightarrow> nat \<Rightarrow> write_result list \<Rightarrow> hub \<Rightarrow> hub option" where
  "res_ReadBufferJson = obs_ReadBufferJson"

definition res_FindBufferedSampleAfter ::
  "legato \<Rightarrow> rid \<Rightarrow> double \<Rightarrow> hub \<Rightarrow> (dataSample_Ref_t option \<times> hub) option" where
  "res_FindBufferedSampleAfter = obs_FindBufferedSampleAfter"

definition res_QueryMin :: "legato \<Rightarrow> rid \<Rightarrow> double \<Rightarrow> hub \<Rightarrow> (double \<times> hub) option" where
  "res_QueryMin = obs_QueryMin"

definition res_QueryMax :: "legato \<Rightarrow> rid \<Rightarrow> double \<Rightarrow> hub \<Rightarrow> (double \<times> hub) option" where
  "res_QueryMax = obs_QueryMax"

definition res_QueryMean :: "legato \<Rightarrow> rid \<Rightarrow> double \<Rightarrow> hub \<Rightarrow> (double \<times> hub) option" where
  "res_QueryMean = obs_QueryMean"

definition res_QueryStdDev :: "legato \<Rightarrow> rid \<Rightarrow> double \<Rightarrow> hub \<Rightarrow> (double \<times> hub) option" where
  "res_QueryStdDev = obs_QueryStdDev"

lemmas obs_wrapper_defs = res_GetMinPeriod_def res_GetHighLimit_def res_GetLowLimit_def res_GetChangeBy_def
  res_GetTransform_def res_SetBufferMaxCount_def res_GetBufferMaxCount_def res_SetBufferBackupPeriod_def
  res_GetBufferBackupPeriod_def res_SetJsonExtraction_def res_GetJsonExtraction_def res_ReadBufferJson_def
  res_FindBufferedSampleAfter_def res_QueryMin_def res_QueryMax_def res_QueryMean_def res_QueryStdDev_def

subsection \<open>Defaults and overrides\<close>

definition res_SetDefault :: "legato \<Rightarrow> rid \<Rightarrow> io_DataType_t \<Rightarrow> dataSample_Ref_t \<Rightarrow> hub \<Rightarrow> hub option" where
  "res_SetDefault L r t v h = do {
     h \<leftarrow> update_res r (\<lambda>x. x\<lparr>r_defaultValue := Some v, r_defaultType := t\<rparr>) h;
     ok \<leftarrow> IsAcceptable h r t;
     if \<not> ok then Some h
     else do {
       x \<leftarrow> resources h r;
       ov \<leftarrow> res_IsOverridden h r;
       pushed \<leftarrow> (if r_pushedValue x = None then Some False else IsAcceptable h r (r_pushedType x));
       if \<not> ov \<and> \<not> pushed then update_current L r t v h else Some h
     }
   }"

definition res_HasDefault :: "hub \<Rightarrow> rid \<Rightarrow> bool option" where
  "res_HasDefault h r = map_option (\<lambda>x. r_defaultValue x \<noteq> None) (resources h r)"

definition res_GetDefaultDataType :: "hub \<Rightarrow> rid \<Rightarrow> io_DataType_t option" where
  "res_GetDefaultDataType h r =
     map_option (\<lambda>x. if r_defaultValue x = None then IO_DATA_TYPE_TRIGGER else r_defaultType x) (resources h r)"

definition res_GetDefaultValue :: "hub \<Rightarrow> rid \<Rightarrow> dataSample_Ref_t option option" where
  "res_GetDefaultValue h r = map_option r_defaultValue (resources h r)"

definition res_RemoveDefault :: "rid \<Rightarrow> hub \<Rightarrow> hub option" where
  "res_RemoveDefault r = update_res r (\<lambda>x. x\<lparr>r_defaultValue := None\<rparr>)"

definition res_SetOverride :: "legato \<Rightarrow> rid \<Rightarrow> io_DataType_t \<Rightarrow> dataSample_Ref_t \<Rightarrow> hub \<Rightarrow> hub option" where
  "res_SetOverride L r t v h = do {
     h \<leftarrow> update_res r (\<lambda>x. x\<lparr>r_overrideValue := Some v, r_overrideType := t\<rparr>) h;
     ok \<leftarrow> IsAcceptable h r t;
     if ok then update_current L r t v h else Some h
   }"

definition res_HasOverride :: "hub \<Rightarrow> rid \<Rightarrow> bool option" where
  "res_HasOverride h r = map_option (\<lambda>x. r_overrideValue x \<noteq> None) (resources h r)"

definition res_GetOverrideDataType :: "hub \<Rightarrow> rid \<Rightarrow> io_DataType_t option" where
  "res_GetOverrideDataType h r =
     map_option (\<lambda>x. if r_overrideValue x = None then IO_DATA_TYPE_TRIGGER else r_overrideType x) (resources h r)"

definition res_GetOverrideValue :: "hub \<Rightarrow> rid \<Rightarrow> dataSample_Ref_t option option" where
  "res_GetOverrideValue h r = map_option r_overrideValue (resources h r)"

definition acceptable_value ::
  "hub \<Rightarrow> rid \<Rightarrow> dataSample_Ref_t option \<Rightarrow> io_DataType_t \<Rightarrow> dataSample_Ref_t option option" where
  "acceptable_value h r v t =
     (case v of
        None \<Rightarrow> Some None
      | Some s \<Rightarrow> do { ok \<leftarrow> IsAcceptable h r t; Some (if ok then Some s else None) })"

text \<open>Without the override, the last pushed value applies, or else the default.\<close>

definition res_RemoveOverride :: "legato \<Rightarrow> rid \<Rightarrow> hub \<Rightarrow> hub option" where
  "res_RemoveOverride L r h = do {
     x \<leftarrow> resources h r;
     if r_overrideValue x = None then Some h
     else do {
       h \<leftarrow> update_res r (\<lambda>x. x\<lparr>r_overrideValue := None\<rparr>) h;
       pushed \<leftarrow> acceptable_value h r (r_pushedValue x) (r_pushedType x);
       case pushed of
         Some s \<Rightarrow> update_current L r (r_pushedType x) s h
       | None \<Rightarrow> do {
           deflt \<leftarrow> acceptable_value h r (r_defaultValue x) (r_defaultType x);
           case deflt of
             Some s \<Rightarrow> update_current L r (r_defaultType x) s h
           | None \<Rightarrow> Some h
         }
     }
   }"

subsection \<open>Extended updates\<close>

definition res_StartUpdate :: "hub \<Rightarrow> hub" where
  "res_StartUpdate h = h\<lparr>IsUpdateInProgress := True\<rparr>"

text \<open>
  The walk over the resources below an entry (\<open>resTree.c\<close>). Children are younger than their parents,
  so that the number of entries ever created bounds the depth.
\<close>

fun ForEachResourceUnder ::
  "nat \<Rightarrow> (rid \<Rightarrow> admin_EntryType_t \<Rightarrow> hub \<Rightarrow> hub option) \<Rightarrow> eid \<Rightarrow> hub \<Rightarrow> hub option" where
  "ForEachResourceUnder 0 func e h = None"
| "ForEachResourceUnder (Suc n) func e h = do {
     x \<leftarrow> entries h e;
     fold_option (\<lambda>c h. do {
         y \<leftarrow> entries h c;
         h \<leftarrow> (case e_resourcePtr y of None \<Rightarrow> Some h | Some r \<Rightarrow> func r (e_type y) h);
         ForEachResourceUnder n func c h
       }) (e_childList x) h
   }"

definition resTree_ForEachResource ::
  "(rid \<Rightarrow> admin_EntryType_t \<Rightarrow> hub \<Rightarrow> hub option) \<Rightarrow> hub \<Rightarrow> hub option" where
  "resTree_ForEachResource func h = ForEachResourceUnder (Suc (nextEntry h)) func (RootPtr h) h"

definition ClearConfigChangingFlag :: "rid \<Rightarrow> admin_EntryType_t \<Rightarrow> hub \<Rightarrow> hub option" where
  "ClearConfigChangingFlag r entryType = update_res r (\<lambda>x. x\<lparr>r_isConfigChanging := False\<rparr>)"

definition res_EndUpdate :: "legato \<Rightarrow> hub \<Rightarrow> hub option" where
  "res_EndUpdate L h = do {
     h \<leftarrow> resTree_ForEachResource ClearConfigChangingFlag (h\<lparr>IsUpdateInProgress := False\<rparr>);
     Some (obs_DeleteUnusedBackupFiles L h)
   }"

subsection \<open>Restoring a backup\<close>

text \<open>The newest of the restored samples is pushed to the observation.\<close>

definition push_newest :: "legato \<Rightarrow> rid \<Rightarrow> dataSample_Ref_t option \<Rightarrow> hub \<Rightarrow> hub option" where
  "push_newest L r newest h =
     (case newest of
        None \<Rightarrow> Some h
      | Some s \<Rightarrow> do { ob \<leftarrow> get_obs h r; res_Push L r (o_bufferedType ob) (Some []) s h })"

definition obs_RestoreBackup :: "legato \<Rightarrow> rid \<Rightarrow> hub \<Rightarrow> hub option" where
  "obs_RestoreBackup L r h =
     (if \<not> fs_ok L (BACKUP_DIR L) (clock h) then Some h
      else do {
        (result, path) \<leftarrow> GetBackupFilePath L (MAX_BACKUP_FILE_PATH_BYTES L) r h;
        if result \<noteq> LE_OK \<or> \<not> fs_ok L path (clock h) then Some h
        else (case backupFiles h path of
                None \<Rightarrow> Some h
              | Some file \<Rightarrow> do {
                  ob \<leftarrow> get_obs h r;
                  (newest, (ob, n), clk) \<leftarrow> read_backup L file (ob, nextBuff h) (clock h);
                  push_newest L r newest (put_obs r ob (h\<lparr>nextBuff := n, clock := clk\<rparr>))
                })
      })"

definition res_RestoreBackup :: "legato \<Rightarrow> rid \<Rightarrow> hub \<Rightarrow> hub option" where
  "res_RestoreBackup L r h = do {
     entryType \<leftarrow> entry_type_of h r;
     le_assert (entryType = ADMIN_ENTRY_TYPE_OBSERVATION);
     obs_RestoreBackup L r h
   }"

end
