(* ===== verification/HubInv.thy ===== *)
theory HubInv
  imports Resource
begin

text \<open>
  What holds of the Data Hub between two requests: the invariant \<open>hub_ok\<close>, in five parts, and the
  relation \<open>evolves\<close> between the states before and after an operation that leaves the shape of the hub
  alone.
\<close>

subsection \<open>Values\<close>

definition typed :: "io_DataType_t \<Rightarrow> dataSample_Ref_t option \<Rightarrow> bool" where
  "typed t v \<longleftrightarrow> (\<forall>s. v = Some s \<longrightarrow> sample_fine t s)"

lemma typed_simps [simp]: "typed t None" "typed t (Some s) = sample_fine t s"
  by (simp_all add: typed_def)

fun sub_ok :: "nat \<Rightarrow> io_DataType_t \<Rightarrow> res_kind \<Rightarrow> bool" where
  "sub_ok n t Placeholder = True"
| "sub_ok n t (IoPoint p) = (t = io_dataType p)"
| "sub_ok n t (Observation ob) = obs_ok ob n"

text \<open>
  Every sample has the type recorded with it, the units fit their buffer, an input or output keeps its
  type, an observation its bounds.
\<close>

definition value_ok :: "nat \<Rightarrow> res_Resource_t \<Rightarrow> bool" where
  "value_ok n x \<longleftrightarrow>
     typed (r_currentType x) (r_currentValue x) \<and> typed (r_pushedType x) (r_pushedValue x) \<and>
     typed (r_overrideType x) (r_overrideValue x) \<and> typed (r_defaultType x) (r_defaultValue x) \<and>
     typed IO_DATA_TYPE_JSON (r_jsonExample x) \<and> length (r_units x) < HUB_MAX_UNITS_BYTES \<and>
     sub_ok n (r_currentType x) (r_sub x)"

definition values_ok :: "hub \<Rightarrow> bool" where
  "values_ok h \<longleftrightarrow> (\<forall>r x. resources h r = Some x \<longrightarrow> value_ok (nextBuff h) x)"

lemma values_okD: "values_ok h \<Longrightarrow> resources h r = Some x \<Longrightarrow> value_ok (nextBuff h) x"
  by (simp add: values_ok_def)

lemma obs_ok_mono: "obs_ok ob n \<Longrightarrow> n \<le> m \<Longrightarrow> obs_ok ob m"
  unfolding obs_ok_def buffer_ok_def by fastforce

lemma value_ok_mono: "value_ok n x \<Longrightarrow> n \<le> m \<Longrightarrow> value_ok m x"
  unfolding value_ok_def by (cases "r_sub x") (auto intro: obs_ok_mono)

lemma utf8_copy_length: "utf8_copy_ok L \<Longrightarrow> 0 < n \<Longrightarrow> length (snd (utf8_Copy L s n)) < n"
  by (cases "length s < n") (auto elim: utf8_copy_overflow [of L n s])

lemma units_bound [simp]:
  "utf8_copy_ok L \<Longrightarrow> length (snd (utf8_Copy L s HUB_MAX_UNITS_BYTES)) < HUB_MAX_UNITS_BYTES"
  by (rule utf8_copy_length) (simp_all add: HUB_MAX_UNITS_BYTES_def)

lemma HUB_MAX_UNITS_pos [simp]: "0 < HUB_MAX_UNITS_BYTES"
  by (simp add: HUB_MAX_UNITS_BYTES_def)

subsection \<open>Resources and their entries\<close>

fun kind_ok :: "admin_EntryType_t \<Rightarrow> res_kind \<Rightarrow> bool" where
  "kind_ok ADMIN_ENTRY_TYPE_INPUT (IoPoint _) = True"
| "kind_ok ADMIN_ENTRY_TYPE_OUTPUT (IoPoint _) = True"
| "kind_ok ADMIN_ENTRY_TYPE_OBSERVATION (Observation _) = True"
| "kind_ok ADMIN_ENTRY_TYPE_PLACEHOLDER Placeholder = True"
| "kind_ok _ _ = False"

text \<open>
  A resource and its entry name each other, and the type of the entry says what kind of resource it
  has; an entry without a resource is a namespace. Where there are observations there is the
  namespace for them.
\<close>

definition attached :: "hub \<Rightarrow> rid \<Rightarrow> res_Resource_t \<Rightarrow> bool" where
  "attached h r x \<longleftrightarrow>
     (\<exists>e y. r_entryRef x = Some e \<and> entries h e = Some y \<and> e_resourcePtr y = Some r \<and> kind_ok (e_type y) (r_sub x))"

definition entry_ok :: "hub \<Rightarrow> eid \<Rightarrow> Entry_t \<Rightarrow> bool" where
  "entry_ok h e y \<longleftrightarrow>
     (case e_resourcePtr y of
        None \<Rightarrow> e_type y = ADMIN_ENTRY_TYPE_NAMESPACE
      | Some r \<Rightarrow> \<exists>x. resources h r = Some x \<and> r_entryRef x = Some e)"

definition attached_ok :: "hub \<Rightarrow> bool" where
  "attached_ok h \<longleftrightarrow>
     (\<forall>r x. resources h r = Some x \<longrightarrow> attached h r x) \<and>
     (\<forall>e y. entries h e = Some y \<longrightarrow> entry_ok h e y) \<and>
     ((\<exists>r. get_obs h r \<noteq> None) \<longrightarrow> obs_namespace h)"

lemma attachedE:
  assumes "attached_ok h" "resources h r = Some x"
  obtains e y where "r_entryRef x = Some e" "entries h e = Some y" "e_resourcePtr y = Some r"
    "kind_ok (e_type y) (r_sub x)" "entry_type_of h r = Some (e_type y)"
proof -
  have "attached h r x" using assms by (simp add: attached_ok_def)
  then show thesis
    using that assms(2) by (auto simp: attached_def entry_type_of_def resTree_GetEntryType_def)
qed

lemma parts [simp]:
  "r_sub x = IoPoint p \<Longrightarrow> io_part x = Some p" "r_sub x = Observation ob \<Longrightarrow> obs_part x = Some ob"
  by simp_all

lemma kindE:
  assumes "attached_ok h" "resources h r = Some x"
  obtains t where "kind_ok t (r_sub x)" "entry_type_of h r = Some t"
  using assms by (rule attachedE) (rule that)

lemma kind_ok_cases:
  assumes "kind_ok t k"
  obtains (io) p where "k = IoPoint p" "t = ADMIN_ENTRY_TYPE_INPUT \<or> t = ADMIN_ENTRY_TYPE_OUTPUT"
  | (obs) ob where "k = Observation ob" "t = ADMIN_ENTRY_TYPE_OBSERVATION"
  | (plain) "k = Placeholder" "t = ADMIN_ENTRY_TYPE_PLACEHOLDER"
  using assms by (cases "(t, k)" rule: kind_ok.cases) auto

subsection \<open>Routes\<close>

text \<open>
  The routes are a forest: the abstract view of them is the source of every resource. The lists of
  destinations hold the same information from the other side.
\<close>

definition dests :: "hub \<Rightarrow> rid \<Rightarrow> rid list" where
  "dests h r = (case resources h r of None \<Rightarrow> [] | Some x \<Rightarrow> r_destList x)"

definition source :: "hub \<Rightarrow> rid \<Rightarrow> rid option" where
  "source h r = (case resources h r of None \<Rightarrow> None | Some x \<Rightarrow> r_srcPtr x)"

definition links_ok :: "hub \<Rightarrow> bool" where
  "links_ok h \<longleftrightarrow>
     (\<forall>s. distinct (dests h s)) \<and> (\<forall>s d. d \<in> set (dests h s) \<longleftrightarrow> source h d = Some s)"

definition routes :: "(rid \<Rightarrow> rid option) \<Rightarrow> (rid \<times> rid) set" where
  "routes src = {(s, d). src d = Some s}"

definition routes_ok :: "hub \<Rightarrow> bool" where
  "routes_ok h \<longleftrightarrow> links_ok h \<and> acyclic (routes (source h))"

lemma dests_Some [simp]: "resources h r = Some x \<Longrightarrow> dests h r = r_destList x"
  by (simp add: dests_def)

lemma source_Some [simp]: "resources h r = Some x \<Longrightarrow> source h r = r_srcPtr x"
  by (simp add: source_def)

lemma dests_None [simp]: "resources h r = None \<Longrightarrow> dests h r = []"
  by (simp add: dests_def)

lemma source_None [simp]: "resources h r = None \<Longrightarrow> source h r = None"
  by (simp add: source_def)

lemma links_okD:
  assumes "links_ok h" "resources h s = Some x"
  shows "distinct (r_destList x)" "d \<in> set (r_destList x) \<Longrightarrow> source h d = Some s"
    "r_srcPtr x = Some q \<Longrightarrow> s \<in> set (dests h q)"
proof -
  have l: "distinct (dests h s)" "\<And>d. d \<in> set (dests h s) \<longleftrightarrow> source h d = Some s"
    "\<And>q. s \<in> set (dests h q) \<longleftrightarrow> source h s = Some q"
    using assms(1) by (simp_all add: links_ok_def)
  show "distinct (r_destList x)" "d \<in> set (r_destList x) \<Longrightarrow> source h d = Some s"
    "r_srcPtr x = Some q \<Longrightarrow> s \<in> set (dests h q)"
    using l assms(2) by simp_all
qed

lemma links_ok_dest:
  "links_ok h \<Longrightarrow> resources h s = Some y \<Longrightarrow> d \<in> set (r_destList y) \<longleftrightarrow> source h d = Some s"
  unfolding links_ok_def dests_Some [of h s y, symmetric] by blast

lemma source_live:
  assumes "links_ok h" "source h d = Some s"
  shows "resources h d \<noteq> None" "resources h s \<noteq> None"
proof -
  show "resources h d \<noteq> None" using assms(2) by (auto simp: source_def split: option.splits)
  have "d \<in> set (dests h s)" using assms by (simp add: links_ok_def)
  then show "resources h s \<noteq> None" by (cases "resources h s") simp_all
qed

subsection \<open>Numbers\<close>

text \<open>
  Live resources have numbers that were given out; their handlers are live, and no two resources share
  a handler.
\<close>

definition heard :: "hub \<Rightarrow> rid \<Rightarrow> hid list" where
  "heard h r = (case resources h r of None \<Rightarrow> [] | Some x \<Rightarrow> r_pushHandlerList x)"

lemma heard_simps [simp]:
  "resources h r = Some x \<Longrightarrow> heard h r = r_pushHandlerList x" "resources h r = None \<Longrightarrow> heard h r = []"
  by (simp_all add: heard_def)

definition numbered :: "hub \<Rightarrow> bool" where
  "numbered h \<longleftrightarrow>
     (\<forall>r. resources h r \<noteq> None \<longrightarrow> r < nextRes h) \<and>
     (\<forall>r. \<forall>n \<in> set (heard h r). handlers h n \<noteq> None \<and> n < nextHandler h) \<and>
     (\<forall>r q. r \<noteq> q \<longrightarrow> set (heard h r) \<inter> set (heard h q) = {})"

lemma numberedD:
  assumes "numbered h" "resources h r = Some x"
  shows "r < nextRes h" "\<forall>n \<in> set (r_pushHandlerList x). handlers h n \<noteq> None"
proof -
  have a: "\<And>r. resources h r \<noteq> None \<Longrightarrow> r < nextRes h" "\<forall>n \<in> set (heard h r). handlers h n \<noteq> None"
    using assms(1) by (simp_all add: numbered_def)
  show "r < nextRes h" "\<forall>n \<in> set (r_pushHandlerList x). handlers h n \<noteq> None" using a assms(2) by simp_all
qed

lemma routes_below:
  assumes "links_ok h" "numbered h"
  shows "routes (source h) \<subseteq> {..<nextRes h} \<times> {..<nextRes h}"
  using source_live [OF assms(1)] assms(2) by (fastforce simp: routes_def numbered_def)

lemma finite_routes: "links_ok h \<Longrightarrow> numbered h \<Longrightarrow> finite (routes (source h))"
  using routes_below by (rule finite_subset) simp_all

lemma depth_bound:
  assumes "links_ok h" "numbered h"
  shows "below_count (routes (source h)) r < Suc (nextRes h)"
proof -
  have "Range (routes (source h)) \<subseteq> {..<nextRes h}" using routes_below [OF assms] by auto
  then show ?thesis using below_count_bound [of "{..<nextRes h}"] by (fastforce simp: less_Suc_eq_le)
qed

lemma depth_less:
  assumes "routes_ok h" "numbered h" "source h d = Some s"
  shows "below_count (routes (source h)) d < below_count (routes (source h)) s"
  using assms finite_routes by (intro below_count_less) (auto simp: routes_ok_def routes_def)

subsection \<open>The invariant\<close>

definition hub_ok :: "legato \<Rightarrow> hub \<Rightarrow> bool" where
  "hub_ok L h \<longleftrightarrow> tree_ok L h \<and> attached_ok h \<and> routes_ok h \<and> numbered h \<and> values_ok h"

lemma hub_okD:
  assumes "hub_ok L h"
  shows "tree_ok L h" "attached_ok h" "routes_ok h" "numbered h" "values_ok h" "links_ok h"
  using assms by (auto simp: hub_ok_def routes_ok_def)

text \<open>What is asked of the framework: its string copy, and a limit on names that admits \<open>obs\<close>.\<close>

definition framework_ok :: "legato \<Rightarrow> bool" where
  "framework_ok L \<longleftrightarrow> utf8_copy_ok L \<and> 4 \<le> HUB_MAX_ENTRY_NAME_BYTES L"

lemma framework_okD: "framework_ok L \<Longrightarrow> utf8_copy_ok L" "framework_ok L \<Longrightarrow> 4 \<le> HUB_MAX_ENTRY_NAME_BYTES L"
  by (simp_all add: framework_ok_def)

lemma sample_framework_ok: "framework_ok sample_legato"
  using sample_legato_ok by (simp add: framework_ok_def HUB_MAX_ENTRY_NAME_BYTES_def) (simp add: sample_legato_def)

lemma initial_hub_ok: "hub_ok L initial_hub"
proof -
  have "routes (source initial_hub) = {}" "\<And>r. dests initial_hub r = []" "\<And>r. heard initial_hub r = []"
    by (simp_all add: routes_def source_def dests_def heard_def initial_hub_def)
  then show ?thesis
    using initial_tree_ok [of L]
    by (simp add: hub_ok_def attached_ok_def entry_ok_def routes_ok_def links_ok_def numbered_def values_ok_def
        acyclic_def get_obs_def source_def initial_hub_def)
qed

subsection \<open>Evolution\<close>

fun same_kind :: "res_kind \<Rightarrow> res_kind \<Rightarrow> bool" where
  "same_kind Placeholder Placeholder = True"
| "same_kind (IoPoint p) (IoPoint q) = (io_dataType p = io_dataType q)"
| "same_kind (Observation _) (Observation _) = True"
| "same_kind _ _ = False"

lemma same_kind_refl [simp]: "same_kind k k"
  by (cases k) simp_all

lemma same_kind_trans: "same_kind a b \<Longrightarrow> same_kind b c \<Longrightarrow> same_kind a c"
  by (cases a; cases b; cases c) simp_all

lemma same_kind_ok: "same_kind a b \<Longrightarrow> kind_ok t a = kind_ok t b"
  by (cases a; cases b; cases t) simp_all

text \<open>A resource stays in its place; it also keeps its links; it also keeps its settings.\<close>

definition same_place :: "res_Resource_t \<Rightarrow> res_Resource_t \<Rightarrow> bool" where
  "same_place x y \<longleftrightarrow>
     r_entryRef y = r_entryRef x \<and> r_pushHandlerList y = r_pushHandlerList x \<and> same_kind (r_sub x) (r_sub y)"

definition same_links :: "res_Resource_t \<Rightarrow> res_Resource_t \<Rightarrow> bool" where
  "same_links x y \<longleftrightarrow> same_place x y \<and> r_srcPtr y = r_srcPtr x \<and> r_destList y = r_destList x"

definition same_shape :: "res_Resource_t \<Rightarrow> res_Resource_t \<Rightarrow> bool" where
  "same_shape x y \<longleftrightarrow>
     same_links x y \<and> r_isConfigChanging y = r_isConfigChanging x \<and>
     r_overrideType y = r_overrideType x \<and> r_overrideValue y = r_overrideValue x \<and>
     r_defaultType y = r_defaultType x \<and> r_defaultValue y = r_defaultValue x"

lemmas same_defs = same_place_def same_links_def same_shape_def

lemma same_refl [simp]: "same_place x x" "same_links x x" "same_shape x x"
  by (simp_all add: same_defs)

lemma same_trans:
  "same_place x y \<Longrightarrow> same_place y z \<Longrightarrow> same_place x z" "same_links x y \<Longrightarrow> same_links y z \<Longrightarrow> same_links x z"
  "same_shape x y \<Longrightarrow> same_shape y z \<Longrightarrow> same_shape x z"
  by (auto simp: same_defs intro: same_kind_trans)

definition evolves :: "(res_Resource_t \<Rightarrow> res_Resource_t \<Rightarrow> bool) \<Rightarrow> hub \<Rightarrow> hub \<Rightarrow> bool" where
  "evolves P h h' \<longleftrightarrow>
     entries h' = entries h \<and> RootPtr h' = RootPtr h \<and> nextEntry h' = nextEntry h \<and>
     nextRes h' = nextRes h \<and> handlers h' = handlers h \<and> nextHandler h' = nextHandler h \<and>
     treeHandlers h' = treeHandlers h \<and> IsUpdateInProgress h' = IsUpdateInProgress h \<and>
     nextBuff h \<le> nextBuff h' \<and> (\<forall>r. rel_option P (resources h r) (resources h' r))"

lemma evolves_refl: "(\<And>x. P x x) \<Longrightarrow> evolves P h h"
  by (simp add: evolves_def option.rel_refl)

lemma evolves_trans:
  assumes "\<And>x y z. P x y \<Longrightarrow> P y z \<Longrightarrow> P x z" "evolves P h h1" "evolves P h1 h2"
  shows "evolves P h h2"
proof -
  have "rel_option P (resources h r) (resources h2 r)" for r
  proof -
    have r: "rel_option P (resources h r) (resources h1 r)" "rel_option P (resources h1 r) (resources h2 r)"
      using assms(2,3) by (simp_all add: evolves_def)
    show ?thesis
    proof (cases "resources h r")
      case None
      then show ?thesis using r by simp
    next
      case (Some x)
      then obtain y where y: "resources h1 r = Some y" "P x y" using r(1) by (auto simp: option_rel_Some1)
      then obtain z where "resources h2 r = Some z" "P y z" using r(2) by (auto simp: option_rel_Some1)
      then show ?thesis using Some y(2) assms(1) by auto
    qed
  qed
  then show ?thesis using assms(2,3) by (simp add: evolves_def)
qed

lemma evolves_mono: "evolves P h h' \<Longrightarrow> (\<And>x y. P x y \<Longrightarrow> Q x y) \<Longrightarrow> evolves Q h h'"
  by (auto simp: evolves_def intro: option.rel_mono_strong)

lemma evolves_Some:
  assumes "evolves P h h'" "resources h r = Some x"
  obtains y where "resources h' r = Some y" "P x y"
proof -
  have "rel_option P (resources h r) (resources h' r)" using assms(1) by (simp add: evolves_def)
  then show thesis using assms(2) that by (cases "resources h' r") auto
qed

lemma evolves_rev:
  assumes "evolves P h h'" "resources h' r = Some y"
  obtains x where "resources h r = Some x" "P x y"
proof -
  have "rel_option P (resources h r) (resources h' r)" using assms(1) by (simp add: evolves_def)
  then show thesis using assms(2) that by (cases "resources h r") auto
qed

lemma evolves_live: "evolves P h h' \<Longrightarrow> (resources h' r = None) = (resources h r = None)"
  by (cases "resources h r"; cases "resources h' r") (auto elim: evolves_Some evolves_rev)

lemma evolves_tree: "evolves P h h' \<Longrightarrow> tree_ok L h' = tree_ok L h"
  by (auto simp: evolves_def tree_ok_def children_ok_def parent_ok_def name_of_def cong: inj_on_cong)

lemma evolves_obs_namespace: "evolves P h h' \<Longrightarrow> obs_namespace h' = obs_namespace h"
  by (auto simp: evolves_def obs_namespace_def name_of_def)

lemma evolves_attached:
  assumes "evolves same_place h h'" "attached_ok h"
  shows "attached_ok h'"
proof -
  have e: "entries h' = entries h" using assms(1) by (simp add: evolves_def)
  have "attached h' r y" if "resources h' r = Some y" for r y
  proof -
    obtain x where x: "resources h r = Some x" "same_place x y"
      using evolves_rev [OF assms(1)] \<open>resources h' r = Some y\<close> by metis
    then have "attached h r x" using assms(2) by (simp add: attached_ok_def)
    then show ?thesis using x(2) same_kind_ok by (auto simp: attached_def same_place_def e)
  qed
  moreover have "entry_ok h' c y" if "entries h' c = Some y" for c y
  proof (cases "e_resourcePtr y")
    case None
    have "entry_ok h c y" using assms(2) \<open>entries h' c = Some y\<close> by (simp add: attached_ok_def e)
    then show ?thesis using None by (simp add: entry_ok_def)
  next
    case (Some r)
    have "entry_ok h c y" using assms(2) \<open>entries h' c = Some y\<close> by (simp add: attached_ok_def e)
    then obtain x where "resources h r = Some x" "r_entryRef x = Some c" using Some by (auto simp: entry_ok_def)
    moreover obtain z where "resources h' r = Some z" "same_place x z"
      using evolves_Some [OF assms(1)] calculation(1) by metis
    ultimately show ?thesis using Some by (simp add: entry_ok_def same_place_def)
  qed
  moreover have "get_obs h r \<noteq> None" if "get_obs h' r \<noteq> None" for r
  proof -
    obtain y ob where y: "resources h' r = Some y" "r_sub y = Observation ob"
      using \<open>get_obs h' r \<noteq> None\<close> by (auto simp: get_obs_Some)
    then obtain x where x: "resources h r = Some x" "same_place x y" using evolves_rev [OF assms(1)] by metis
    then obtain ob' where "r_sub x = Observation ob'" using y(2) by (cases "r_sub x") (auto simp: same_place_def)
    then show ?thesis using x(1) by (simp add: get_obs_Some)
  qed
  ultimately show ?thesis
    using assms(2) evolves_obs_namespace [OF assms(1)] unfolding attached_ok_def by metis
qed

lemma evolves_links:
  assumes "evolves same_links h h'"
  shows "dests h' = dests h" "source h' = source h"
proof -
  have "dests h' r = dests h r \<and> source h' r = source h r" for r
  proof (cases "resources h r")
    case None
    then show ?thesis using evolves_live [OF assms, of r] by simp
  next
    case (Some x)
    then obtain y where "resources h' r = Some y" "same_links x y" using evolves_Some [OF assms] by metis
    then show ?thesis using Some by (simp add: same_links_def)
  qed
  then show "dests h' = dests h" "source h' = source h" by auto
qed

lemma evolves_routes: "evolves same_links h h' \<Longrightarrow> routes_ok h' = routes_ok h"
  using evolves_links [of h h'] by (simp add: routes_ok_def links_ok_def)

lemma evolves_numbered:
  assumes "evolves same_place h h'" "numbered h"
  shows "numbered h'"
proof -
  have heard: "heard h' r = heard h r" for r
  proof (cases "resources h r")
    case None
    then show ?thesis using evolves_live [OF assms(1), of r] by simp
  next
    case (Some x)
    then obtain y where "resources h' r = Some y" "same_place x y" using evolves_Some [OF assms(1)] by metis
    then show ?thesis using Some by (simp add: same_place_def)
  qed
  have "handlers h' = handlers h" "nextRes h' = nextRes h" "nextHandler h' = nextHandler h"
    using assms(1) by (simp_all add: evolves_def)
  then show ?thesis
    using assms(2) evolves_live [OF assms(1)] unfolding numbered_def heard by simp
qed

lemma same_shape_links: "same_shape x y \<Longrightarrow> same_links x y"
  by (simp add: same_shape_def)

lemma same_links_place: "same_links x y \<Longrightarrow> same_place x y"
  by (simp add: same_links_def)

lemma links_trans: "evolves same_links h h1 \<Longrightarrow> evolves same_links h1 h2 \<Longrightarrow> evolves same_links h h2"
  by (rule evolves_trans [of same_links]) (auto intro: same_trans)

lemma shape_links: "evolves same_shape h h' \<Longrightarrow> evolves same_links h h'"
  using evolves_mono [of same_shape h h' same_links] same_shape_links by blast

lemma links_place: "evolves same_links h h' \<Longrightarrow> evolves same_place h h'"
  using evolves_mono [of same_links h h' same_place] same_links_place by blast

text \<open>An operation that keeps the links keeps the invariant, as far as values are right.\<close>

lemma evolves_ok:
  assumes "hub_ok L h" "evolves same_links h h'" "values_ok h'"
  shows "hub_ok L h'"
  using assms evolves_tree [OF assms(2)] evolves_attached [OF evolves_mono [OF assms(2) same_links_place]]
    evolves_routes [OF assms(2)] evolves_numbered [OF evolves_mono [OF assms(2) same_links_place]]
  by (simp add: hub_ok_def)

lemma update_res_evolves:
  assumes "resources h r = Some x" "P x (f x)" "\<And>z. P z z"
  shows "evolves P h (put_res r (f x) h)"
  using assms by (auto simp: evolves_def option.rel_refl)

lemma obs_changed_evolves:
  assumes "obs_changed r h h'" "get_obs h r \<noteq> None"
  shows "evolves same_shape h h'"
proof -
  obtain ob clk n files where h': "h' = put_obs r ob (h\<lparr>clock := clk, nextBuff := n, backupFiles := files\<rparr>)"
    "nextBuff h \<le> n" using assms(1) by (auto simp: obs_changed_def)
  obtain x ob' where x: "resources h r = Some x" "r_sub x = Observation ob'" using assms(2) by (auto simp: get_obs_Some)
  then have "same_shape x (x\<lparr>r_sub := Observation ob\<rparr>)" by (simp add: same_defs)
  then show ?thesis
    using x h' by (auto simp: evolves_def put_obs_def option.rel_refl)
qed

end
