(* ===== verification/PushSpec.thy ===== *)
theory PushSpec
  imports HubInv
begin

text \<open>
  What a push promises: in a well-formed hub it always ends, however the resources are connected, and
  leaves the hub well-formed and its shape unchanged.
\<close>

subsection \<open>Deliveries\<close>

text \<open>
  The contract between a list of receivers and an operation that delivers to one of them: the
  operation works for every receiver that is ready, and what it changes leaves the others ready.
\<close>

locale delivery =
  fixes deliver :: "'a \<Rightarrow> 's \<Rightarrow> 's option" and ok :: "'s \<Rightarrow> bool" and ready :: "'s \<Rightarrow> 'a \<Rightarrow> bool"
    and changed :: "'s \<Rightarrow> 's \<Rightarrow> bool"
  assumes changed_refl: "changed s s"
    and changed_trans: "changed s s' \<Longrightarrow> changed s' s'' \<Longrightarrow> changed s s''"
    and ready_changed: "changed s s' \<Longrightarrow> ready s a \<Longrightarrow> ready s' a"
    and deliver_ok: "ok s \<Longrightarrow> ready s a \<Longrightarrow> \<exists>s'. deliver a s = Some s' \<and> ok s' \<and> changed s s'"
begin

lemma all_delivered:
  assumes "ok s" "\<forall>a \<in> set as. ready s a"
  shows "\<exists>s'. fold_option deliver as s = Some s' \<and> ok s' \<and> changed s s'"
  using assms
proof (induction as arbitrary: s)
  case (Cons a as)
  obtain s1 where s1: "deliver a s = Some s1" "ok s1" "changed s s1" using deliver_ok Cons.prems by force
  then obtain s2 where "fold_option deliver as s1 = Some s2" "ok s2" "changed s1 s2"
    using Cons.IH [of s1] Cons.prems ready_changed by force
  then show ?case using s1 changed_trans by auto
qed (simp add: changed_refl)

end

text \<open>A delivery whose effect on its receiver is not undone by the others.\<close>

locale lasting_delivery = delivery +
  fixes reached :: "'b \<Rightarrow> 'a \<Rightarrow> bool"
  assumes deliver_reached: "ok s \<Longrightarrow> ready s a \<Longrightarrow> deliver a s = Some s' \<Longrightarrow> reached s' a"
    and reached_changed: "changed s s' \<Longrightarrow> reached s a \<Longrightarrow> reached s' a"
begin

lemma all_reached:
  assumes "ok s" "\<forall>a \<in> set as. ready s a"
  shows "\<exists>s'. fold_option deliver as s = Some s' \<and> ok s' \<and> changed s s' \<and> (\<forall>a \<in> set as. reached s' a)"
  using assms
proof (induction as arbitrary: s)
  case (Cons a as)
  obtain s1 where s1: "deliver a s = Some s1" "ok s1" "changed s s1" using deliver_ok Cons.prems by force
  then obtain s2 where s2: "fold_option deliver as s1 = Some s2" "ok s2" "changed s1 s2" "\<forall>a \<in> set as. reached s2 a"
    using Cons.IH [of s1] Cons.prems ready_changed by force
  have "reached s2 a" using deliver_reached [of s a s1] reached_changed [OF s2(3)] s1(1) Cons.prems by simp
  then show ?case using s1 s2 changed_trans by auto
qed (simp add: changed_refl)

end

subsection \<open>The steps of a push\<close>

text \<open>The resources that a resource feeds, itself included.\<close>

definition reach :: "hub \<Rightarrow> rid \<Rightarrow> rid set" where
  "reach h r = {q. (r, q) \<in> (routes (source h))\<^sup>*}"

text \<open>The shape of the hub stays, and resources outside of a set are not touched.\<close>

definition stirs :: "rid set \<Rightarrow> hub \<Rightarrow> hub \<Rightarrow> bool" where
  "stirs A h h' \<longleftrightarrow> evolves same_shape h h' \<and> (\<forall>q. q \<notin> A \<longrightarrow> resources h' q = resources h q)"

lemma stirs_refl [simp]: "stirs A h h"
  by (simp add: stirs_def evolves_refl)

lemma stirs_trans: "stirs A h h1 \<Longrightarrow> stirs A h1 h2 \<Longrightarrow> stirs A h h2"
  unfolding stirs_def using evolves_trans [of same_shape h h1 h2] same_trans(3) by metis

lemma shape_trans: "evolves same_shape h h1 \<Longrightarrow> evolves same_shape h1 h2 \<Longrightarrow> evolves same_shape h h2"
  by (rule evolves_trans [of same_shape]) (auto intro: same_trans(3))

lemma stirs_mono: "stirs A h h' \<Longrightarrow> A \<subseteq> B \<Longrightarrow> stirs B h h'"
  by (auto simp: stirs_def)

lemma stirs_evolves: "stirs A h h' \<Longrightarrow> evolves same_shape h h'"
  by (simp add: stirs_def)

lemma stirs_live: "stirs A h h' \<Longrightarrow> (resources h' r = None) = (resources h r = None)"
  by (rule evolves_live [OF stirs_evolves])

lemma stirs_source: "stirs A h h' \<Longrightarrow> source h' = source h"
  using evolves_links(2) [OF evolves_mono [OF stirs_evolves same_shape_links]] .

lemma evolves_reach: "evolves same_shape h h' \<Longrightarrow> reach h' r = reach h r"
  using evolves_links(2) [of h h'] evolves_mono [of same_shape h h' same_links] same_shape_links by (simp add: reach_def)

lemma stirs_reach: "stirs A h h' \<Longrightarrow> reach h' r = reach h r"
  by (rule evolves_reach [OF stirs_evolves])

lemma reach_self [simp]: "r \<in> reach h r"
  by (simp add: reach_def)

lemma not_reach_dest: "routes_ok h \<Longrightarrow> source h d = Some r \<Longrightarrow> r \<notin> reach h d"
  using rtrancl_into_trancl2 [of r d "routes (source h)" r]
  by (auto simp: reach_def routes_ok_def acyclic_def routes_def)

lemma reach_dest: "source h d = Some r \<Longrightarrow> reach h d \<subseteq> reach h r"
  by (auto simp: reach_def routes_def intro: converse_rtrancl_into_rtrancl)

lemma shape_ok: "hub_ok L h \<Longrightarrow> evolves same_shape h h' \<Longrightarrow> values_ok h' \<Longrightarrow> hub_ok L h'"
  by (rule evolves_ok) (auto intro: evolves_mono same_shape_links)

lemma values_put_res:
  assumes "values_ok h" "value_ok (nextBuff h) y"
  shows "values_ok (put_res r y h)"
  using assms by (simp add: values_ok_def)

lemma update_res_shape:
  assumes "hub_ok L h" "resources h r = Some x" "same_shape x (f x)" "value_ok (nextBuff h) (f x)"
  shows "update_res r f h = Some (put_res r (f x) h)" "hub_ok L (put_res r (f x) h)"
    "stirs {r} h (put_res r (f x) h)"
proof -
  show "update_res r f h = Some (put_res r (f x) h)" using assms(2) by (simp add: update_res_def)
  have e: "evolves same_shape h (put_res r (f x) h)"
    using update_res_evolves [of h r x same_shape f] assms(2,3) by simp
  then show "stirs {r} h (put_res r (f x) h)" by (simp add: stirs_def)
  show "hub_ok L (put_res r (f x) h)"
    using shape_ok [OF assms(1) e] values_put_res [OF hub_okD(5) [OF assms(1)] assms(4)] by blast
qed

lemma SetUnits_ok:
  assumes "hub_ok L h" "framework_ok L" "resources h r \<noteq> None"
  shows "\<exists>h'. SetUnits L r u h = Some h' \<and> hub_ok L h' \<and> stirs {r} h h'"
proof -
  obtain x where x: "resources h r = Some x" using assms(3) by auto
  let ?f = "\<lambda>x. x\<lparr>r_units := snd (utf8_Copy L u HUB_MAX_UNITS_BYTES)\<rparr>"
  have "value_ok (nextBuff h) (?f x)"
    using values_okD [OF hub_okD(5) [OF assms(1)] x] framework_okD(1) [OF assms(2)] by (simp add: value_ok_def)
  moreover have "same_shape x (?f x)" by (simp add: same_defs)
  ultimately show ?thesis using update_res_shape [OF assms(1) x, of ?f] unfolding SetUnits_def by blast
qed

lemma clock_shape [simp]: "stirs A h (h\<lparr>clock := clk\<rparr>)" "stirs A h (h\<lparr>events := ev\<rparr>)"
  by (simp_all add: stirs_def evolves_def option.rel_refl)

lemma clock_ok: "hub_ok L h \<Longrightarrow> hub_ok L (h\<lparr>clock := clk\<rparr>)" "hub_ok L h \<Longrightarrow> hub_ok L (h\<lparr>events := ev\<rparr>)"
  by (rule shape_ok, assumption, rule stirs_evolves, simp, simp add: hub_ok_def values_ok_def)+

lemma CallAll_ok:
  assumes "hub_ok L h" "resources h r = Some x" "sample_ok t s"
  shows "\<exists>h'. handler_CallAll L r t s h = Some h' \<and> hub_ok L h' \<and> stirs A h h'"
proof -
  have "\<forall>n \<in> set (r_pushHandlerList x). handlers h n \<noteq> None"
    using numberedD(2) [OF hub_okD(4) [OF assms(1)] assms(2)] .
  then have "handler_CallAll L r t s h = Some (h\<lparr>events :=
      events h @ concat (map (\<lambda>n. told L t s (the (handlers h n))) (r_pushHandlerList x))\<rparr>)"
    using assms(2) CallHandlers_told [OF assms(3)] by (simp add: handler_CallAll_def)
  then show ?thesis using clock_ok(2) [OF assms(1)] clock_shape(2) by blast
qed

lemma obs_changed_values:
  assumes "obs_changed r h h'" "get_obs h r \<noteq> None" "values_ok h"
  shows "values_ok h'"
proof -
  obtain ob clk n files where h': "h' = put_obs r ob (h\<lparr>clock := clk, nextBuff := n, backupFiles := files\<rparr>)"
    "nextBuff h \<le> n" "obs_ok ob n" using assms(1) by (auto simp: obs_changed_def)
  obtain x ob' where x: "resources h r = Some x" "r_sub x = Observation ob'" using assms(2) by (auto simp: get_obs_Some)
  have "value_ok n (x\<lparr>r_sub := Observation ob\<rparr>)"
    using value_ok_mono [OF values_okD [OF assms(3) x(1)] h'(2)] h'(3) by (simp add: value_ok_def)
  moreover have "value_ok n y" if "resources h q = Some y" for q y
    using value_ok_mono [OF values_okD [OF assms(3) that] h'(2)] .
  ultimately show ?thesis using x h'(1) by (auto simp: values_ok_def put_obs_def)
qed

lemma obs_changed_ok:
  assumes "hub_ok L h" "obs_changed r h h'" "get_obs h r \<noteq> None"
  shows "hub_ok L h'" "stirs {r} h h'"
proof -
  have e: "evolves same_shape h h'" using obs_changed_evolves [OF assms(2,3)] .
  show "hub_ok L h'"
    using shape_ok [OF assms(1) e] obs_changed_values [OF assms(2,3)] hub_okD(5) [OF assms(1)] by blast
  show "stirs {r} h h'"
    using e assms(2) by (auto simp: stirs_def obs_changed_def put_obs_def split: option.splits)
qed

lemma hub_obs_attached:
  assumes "hub_ok L h" "framework_ok L" "get_obs h r = Some ob"
  shows "obs_attached L h r" "obs_ok ob (nextBuff h)" "entry_type_of h r = Some ADMIN_ENTRY_TYPE_OBSERVATION"
proof -
  obtain x where x: "resources h r = Some x" "r_sub x = Observation ob" using assms(3) by (auto simp: get_obs_Some)
  obtain e y where e: "r_entryRef x = Some e" "entries h e = Some y" "kind_ok (e_type y) (r_sub x)"
    "entry_type_of h r = Some (e_type y)"
    using attachedE [OF hub_okD(2) [OF assms(1)] x(1)] by metis
  have "obs_namespace h" using hub_okD(2) [OF assms(1)] assms(3) by (auto simp: attached_ok_def)
  then show "obs_attached L h r"
    using x e hub_okD(1) [OF assms(1)] framework_okD(2) [OF assms(2)] by (auto simp: obs_attached_def)
  show "obs_ok ob (nextBuff h)"
    using values_okD [OF hub_okD(5) [OF assms(1)] x(1)] x(2) by (simp add: value_ok_def)
  show "entry_type_of h r = Some ADMIN_ENTRY_TYPE_OBSERVATION"
    using e x(2) by (auto elim: kind_ok_cases)
qed

lemma observe_ok:
  assumes "hub_ok L h" "framework_ok L" "get_obs h r = Some ob" "sample_fine t s"
  shows "\<exists>taken h'. observe L r t s h = Some (taken, h') \<and> hub_ok L h' \<and> stirs {r} h h' \<and>
    (\<forall>t' s'. taken = Some (t', s') \<longrightarrow> sample_fine t' s')"
proof -
  note utf8 = framework_okD(1) [OF assms(2)]
  obtain res t1 s1 clk where j: "obs_DoJsonExtraction L r t s h = Some ((res, t1, s1), h\<lparr>clock := clk\<rparr>)"
    "sample_fine t1 s1"
    using DoJsonExtraction_total [OF utf8 assms(3,4)] by metis
  let ?h1 = "h\<lparr>clock := clk\<rparr>"
  have h1: "hub_ok L ?h1" "stirs {r} h ?h1" "get_obs ?h1 r = Some ob"
    using clock_ok(1) [OF assms(1)] assms(3) by simp_all
  show ?thesis
  proof (cases "res = LE_OK")
    case False
    then show ?thesis using j h1 by (auto simp: observe_def)
  next
    case True
    have ok1: "sample_ok t1 s1" using j(2) by (simp add: sample_fine_def)
    note a1 = hub_obs_attached [OF h1(1) assms(2) h1(3)]
    obtain h2 ob2 where p: "obs_ProcessAccepted L r t1 s1 ?h1 = Some h2" "obs_changed r ?h1 h2"
      "get_obs h2 r = Some ob2"
      using ProcessAccepted_total [OF utf8 a1(1) h1(3) a1(2) ok1] by blast
    have h2: "hub_ok L h2" "stirs {r} ?h1 h2"
      using obs_changed_ok [OF h1(1) p(2)] h1(3) by auto
    note a2 = hub_obs_attached [OF h2(1) assms(2) p(3)]
    obtain s2 clk2 where t: "obs_ApplyTransform L r t1 s1 h2 = Some (s2, h2\<lparr>clock := clk2\<rparr>)" "sample_fine t1 s2"
      using ApplyTransform_total [OF p(3) _ j(2)] a2(2) unfolding obs_ok_def by blast
    let ?h3 = "h2\<lparr>clock := clk2\<rparr>"
    have h3: "hub_ok L ?h3" "stirs {r} h2 ?h3" "get_obs ?h3 r = Some ob2"
      using clock_ok(1) [OF h2(1)] p(3) by simp_all
    note a3 = hub_obs_attached [OF h3(1) assms(2) h3(3)]
    obtain x where x: "resources ?h3 r = Some x" "r_sub x = Observation ob2" using h3(3) by (auto simp: get_obs_Some)
    have cur: "\<forall>p. r_currentValue x = Some p \<longrightarrow> sample_ok (r_currentType x) p"
      using values_okD [OF hub_okD(5) [OF h3(1)] x(1)] by (auto simp: value_ok_def sample_fine_def)
    have ok2: "sample_ok t1 s2" using t(2) by (simp add: sample_fine_def)
    obtain b h4 where a: "obs_ShouldAccept L r t1 s2 ?h3 = Some (b, h4)" "obs_changed r ?h3 h4"
      using ShouldAccept_total [OF x ok2 a3(2) a3(3) cur, of L] by blast
    have h4: "hub_ok L h4" "stirs {r} ?h3 h4" using obs_changed_ok [OF h3(1) a(2)] h3(3) by auto
    have e: "observe L r t s h = Some (if b then Some (t1, s2) else None, h4)"
      unfolding observe_def using j(1) True p(1) t(1) a(1) by simp
    have "stirs {r} h h4"
      using stirs_trans [OF stirs_trans [OF h1(2) h2(2)]
          stirs_trans [OF h3(2) h4(2)]] .
    then show ?thesis using e h4(1) t(2) by auto
  qed
qed

text \<open>Inputs and outputs take values of their type only.\<close>

definition takes :: "res_Resource_t \<Rightarrow> io_DataType_t \<Rightarrow> bool" where
  "takes x t \<longleftrightarrow> (case r_sub x of IoPoint p \<Rightarrow> t = io_dataType p | _ \<Rightarrow> True)"

lemma IsAcceptable_ok:
  assumes "hub_ok L h" "resources h r = Some x"
  shows "IsAcceptable h r t = Some (takes x t)"
proof -
  obtain et where e: "kind_ok et (r_sub x)" "entry_type_of h r = Some et"
    by (rule kindE [OF hub_okD(2) [OF assms(1)] assms(2)])
  from e(1) show ?thesis
    using e(2) assms(2) by (cases rule: kind_ok_cases) (auto simp: IsAcceptable_def ioPoint_GetDataType_def takes_def)
qed

lemma IsOverridden_ok:
  assumes "hub_ok L h" "resources h r = Some x"
  shows "res_IsOverridden h r =
    Some (r_overrideValue x \<noteq> None \<and> takes x (r_overrideType x))"
proof -
  obtain et where e: "kind_ok et (r_sub x)" "entry_type_of h r = Some et"
    by (rule kindE [OF hub_okD(2) [OF assms(1)] assms(2)])
  from e(1) show ?thesis
    using e(2) assms(2) by (cases rule: kind_ok_cases) (auto simp: res_IsOverridden_def ioPoint_GetDataType_def takes_def)
qed

lemma SetTimestamp_fine [simp]: "sample_fine t (dataSample_SetTimestamp s ts) = sample_fine t s"
  by (simp add: sample_fine_def dataSample_SetTimestamp_def sample_ok_def)

lemma overridden_ok:
  assumes "hub_ok L h" "resources h r = Some x" "sample_fine t s"
  shows "\<exists>t' s' u'. overridden h r t s u = Some (t', s', u') \<and> sample_fine t' s'"
proof (cases "res_IsOverridden h r = Some False")
  case True
  then show ?thesis using assms(3) by (simp add: overridden_def)
next
  case False
  then obtain v where v: "r_overrideValue x = Some v" "res_IsOverridden h r = Some True"
    using IsOverridden_ok [OF assms(1,2)] by auto
  then have "sample_fine (r_overrideType x) v"
    using values_okD [OF hub_okD(5) [OF assms(1)] assms(2)] by (simp add: value_ok_def)
  moreover have "dataSample_Copy (r_overrideType x) v = Some v"
    using calculation Copy_ok by (simp add: sample_fine_def)
  ultimately show ?thesis using v assms(2) by (simp add: overridden_def)
qed

lemma adapt_ok:
  assumes "hub_ok L h" "framework_ok L" "resources h r = Some x" "sample_fine t s"
  shows "\<exists>taken h'. adapt L r t s u h = Some (taken, h') \<and> hub_ok L h' \<and> stirs {r} h h' \<and>
    (\<forall>t' s'. taken = Some (t', s') \<longrightarrow> sample_fine t' s')"
proof -
  obtain et where e: "kind_ok et (r_sub x)" "entry_type_of h r = Some et"
    by (rule kindE [OF hub_okD(2) [OF assms(1)] assms(3)])
  have units: "\<exists>h'. (case u of None \<Rightarrow> Some h | Some w \<Rightarrow> SetUnits L r w h) = Some h' \<and> hub_ok L h' \<and>
      stirs {r} h h'"
    using SetUnits_ok [OF assms(1,2), of r] assms(1,3) by (cases u) auto
  from e(1) show ?thesis
  proof (cases rule: kind_ok_cases)
    case (io p)
    then have "ioPoint_GetDataType h r = Some (io_dataType p)" using assms(3) by (simp add: ioPoint_GetDataType_def)
    then obtain s' clk where "ioPoint_DoTypeCoercion L r t s h = Some (io_dataType p, s', h\<lparr>clock := clk\<rparr>)"
      "sample_fine (io_dataType p) s'"
      using DoTypeCoercion_total [OF framework_okD(1) [OF assms(2)] assms(4)] by blast
    then show ?thesis
      using io e(2) assms(1,3) clock_ok(1) [OF assms(1)] by (auto simp: adapt_def)
  next
    case (obs ob)
    then show ?thesis using units e(2) assms(3,4) by (auto simp: adapt_def)
  next
    case plain
    then show ?thesis using units e(2) assms(3,4) by (auto simp: adapt_def)
  qed
qed

subsection \<open>Pushes end\<close>

text \<open>
  A push function does its work for a resource in every hub of the same shape, and touches only what
  the resource feeds.
\<close>

definition pushes ::
  "(rid \<Rightarrow> io_DataType_t \<Rightarrow> string option \<Rightarrow> dataSample_Ref_t \<Rightarrow> hub \<Rightarrow> hub option) \<Rightarrow> legato \<Rightarrow> hub \<Rightarrow> rid \<Rightarrow> bool" where
  "pushes push L h r \<longleftrightarrow>
     (\<forall>h1 t u s. evolves same_shape h h1 \<longrightarrow> hub_ok L h1 \<longrightarrow> sample_fine t s \<longrightarrow>
        (\<exists>h2. push r t u s h1 = Some h2 \<and> hub_ok L h2 \<and> stirs (reach h r) h1 h2))"

lemma pushes_evolves: "evolves same_shape h h1 \<Longrightarrow> pushes push L h r \<Longrightarrow> pushes push L h1 r"
  using shape_trans [of h h1] evolves_reach [of h h1 r] unfolding pushes_def by simp

text \<open>A resource has a value of some type as its current one.\<close>

definition has :: "io_DataType_t \<Rightarrow> dataSample_Ref_t \<Rightarrow> hub \<Rightarrow> rid \<Rightarrow> bool" where
  "has t s h q \<longleftrightarrow> (\<exists>x. resources h q = Some x \<and> r_currentType x = t \<and> r_currentValue x = Some s)"

definition push_from ::
  "(rid \<Rightarrow> io_DataType_t \<Rightarrow> string option \<Rightarrow> dataSample_Ref_t \<Rightarrow> hub \<Rightarrow> hub option) \<Rightarrow>
   rid \<Rightarrow> io_DataType_t \<Rightarrow> dataSample_Ref_t \<Rightarrow> rid \<Rightarrow> hub \<Rightarrow> hub option" where
  "push_from push r t s d h = do { x \<leftarrow> resources h r; push d t (Some (r_units x)) s h }"

lemma push_delivery:
  assumes "sample_fine t s"
  shows "delivery (push_from push r t s) (hub_ok L)
    (\<lambda>h d. resources h r \<noteq> None \<and> pushes push L h d \<and> reach h d \<subseteq> A) (stirs A)"
proof
  fix h d
  assume a: "hub_ok L h" "resources h r \<noteq> None \<and> pushes push L h d \<and> reach h d \<subseteq> A"
  then obtain x h2 where "resources h r = Some x" "push d t (Some (r_units x)) s h = Some h2" "hub_ok L h2"
    "stirs (reach h d) h h2"
    using assms evolves_refl [of same_shape h] unfolding pushes_def by fastforce
  then show "\<exists>h'. push_from push r t s d h = Some h' \<and> hub_ok L h' \<and> stirs A h h'"
    using a(2) stirs_mono by (auto simp: push_from_def)
next
  fix h h' d
  assume "stirs A h h'" "resources h r \<noteq> None \<and> pushes push L h d \<and> reach h d \<subseteq> A"
  then show "resources h' r \<noteq> None \<and> pushes push L h' d \<and> reach h' d \<subseteq> A"
    using pushes_evolves [OF stirs_evolves] stirs_live stirs_reach by metis
qed (auto intro: stirs_trans)

lemma UpdateCurrentValue_eq:
  assumes "hub_ok L h" "resources h r = Some x" "sample_fine t s" "takes x t"
  shows "\<exists>h1. UpdateCurrentValue push L r t s h =
      Option.bind (fold_option (push_from push r t s) (r_destList x) h1) (handler_CallAll L r t s) \<and>
    hub_ok L h1 \<and> stirs {r} h h1 \<and> has t s h1 r"
proof -
  define f where "f = (\<lambda>x :: res_Resource_t. x\<lparr>r_currentType := t, r_currentValue := Some s\<rparr>)"
  define g where "g = (\<lambda>x :: res_Resource_t. if t = IO_DATA_TYPE_JSON
             then (if r_jsonExample x = None then x\<lparr>r_jsonExample := Some s\<rparr> else x)
             else x\<lparr>r_jsonExample := None\<rparr>)"
  have v: "value_ok (nextBuff h) x" using values_okD [OF hub_okD(5) [OF assms(1)] assms(2)] .
  have "sub_ok (nextBuff h) t (r_sub x)" using assms(4) v by (cases "r_sub x") (auto simp: value_ok_def takes_def)
  then have vf: "value_ok (nextBuff h) (f x)" using v assms(3) by (simp add: value_ok_def f_def)
  then have vg: "value_ok (nextBuff h) (g (f x))"
    using assms(3) by (auto simp: value_ok_def g_def f_def)
  have sf: "same_shape x (f x)" "same_shape (f x) (g (f x))" by (simp_all add: same_defs f_def g_def)
  let ?h1 = "put_res r (f x) h"
  note h1 = update_res_shape [where f = f, OF assms(1,2) sf(1) vf]
  have r1: "resources ?h1 r = Some (f x)" "nextBuff ?h1 = nextBuff h" by simp_all
  let ?h2 = "put_res r (g (f x)) ?h1"
  note h2 = update_res_shape [where f = g, OF h1(2) r1(1) sf(2) vg [folded r1(2)]]
  have r2: "resources ?h2 r = Some (g (f x))" "r_destList (g (f x)) = r_destList x" "has t s ?h2 r"
    by (simp_all add: has_def g_def f_def)
  have "UpdateCurrentValue push L r t s h =
      Option.bind (fold_option (push_from push r t s) (r_destList x) ?h2) (handler_CallAll L r t s)"
    unfolding UpdateCurrentValue_def f_def [symmetric] g_def [symmetric] push_from_def
    using IsAcceptable_ok [OF assms(1,2), of t] assms(4) h1(1) h2(1) r2 by simp
  then show ?thesis using h2(2) stirs_trans [OF h1(3) h2(3)] r2(3) by blast
qed

lemma UpdateCurrentValue_ok:
  assumes "hub_ok L h" "resources h r = Some x" "sample_fine t s" "\<forall>d \<in> set (r_destList x). pushes push L h d"
  shows "\<exists>h'. UpdateCurrentValue push L r t s h = Some h' \<and> hub_ok L h' \<and> stirs (reach h r) h h' \<and>
    (if takes x t then has t s h' r else h' = h)"
proof (cases "takes x t")
  case False
  then show ?thesis
    using assms(1) IsAcceptable_ok [OF assms(1,2), of t] by (simp add: UpdateCurrentValue_def)
next
  case True
  obtain h1 where h1: "UpdateCurrentValue push L r t s h =
      Option.bind (fold_option (push_from push r t s) (r_destList x) h1) (handler_CallAll L r t s)"
    "hub_ok L h1" "stirs {r} h h1" "has t s h1 r"
    using UpdateCurrentValue_eq [OF assms(1-3) True] by blast
  have "reach h d \<subseteq> reach h r - {r}" if "d \<in> set (r_destList x)" for d
    using reach_dest not_reach_dest [OF hub_okD(3) [OF assms(1)]]
      links_okD(2) [OF hub_okD(6) [OF assms(1)] assms(2) that] by blast
  then have "\<forall>d \<in> set (r_destList x). resources h1 r \<noteq> None \<and> pushes push L h1 d \<and> reach h1 d \<subseteq> reach h r - {r}"
    using assms(4) pushes_evolves [OF stirs_evolves [OF h1(3)]] h1(4) stirs_reach [OF h1(3)] by (auto simp: has_def)
  from delivery.all_delivered [OF push_delivery [OF assms(3)] h1(2) this]
  obtain h2 where h2: "fold_option (push_from push r t s) (r_destList x) h1 = Some h2" "hub_ok L h2"
    "stirs (reach h r - {r}) h1 h2"
    by blast
  have r2: "resources h2 r = resources h1 r" using h2(3) by (simp add: stirs_def)
  then obtain z where z: "resources h2 r = Some z" using h1(4) by (auto simp: has_def)
  obtain h3 where h3: "handler_CallAll L r t s h2 = Some h3" "hub_ok L h3" "stirs {} h2 h3"
    using CallAll_ok [OF h2(2) z, of t s "{}"] assms(3) by (auto simp: sample_fine_def)
  have "resources h3 r = resources h1 r" using r2 h3(3) by (simp add: stirs_def)
  then have "has t s h3 r" using h1(4) by (simp add: has_def)
  moreover have "stirs (reach h r) h h3"
    using stirs_trans [OF stirs_trans [OF stirs_mono [OF h1(3)] stirs_mono [OF h2(3)]] stirs_mono [OF h3(3)],
        of "reach h r"] by simp
  ultimately show ?thesis using h1(1) h2(1) h3(1,2) True by simp
qed

lemma push_taken_ok:
  assumes "hub_ok L h" "framework_ok L" "resources h r = Some x" "sample_fine t s"
    "\<forall>d \<in> set (r_destList x). pushes push L h d"
  shows "\<exists>h'. push_taken push L r t u s h = Some h' \<and> hub_ok L h' \<and> stirs (reach h r) h h'"
proof -
  define f where "f = (\<lambda>x :: res_Resource_t. x\<lparr>r_pushedType := t, r_pushedValue := Some s\<rparr>)"
  have v: "value_ok (nextBuff h) (f x)"
    using values_okD [OF hub_okD(5) [OF assms(1)] assms(3)] assms(4) by (simp add: value_ok_def f_def)
  have "same_shape x (f x)" by (simp add: same_defs f_def)
  note h1 = update_res_shape [where f = f, OF assms(1,3) this v]
  let ?h1 = "put_res r (f x) h"
  have r1: "resources ?h1 r = Some (f x)" by simp
  show ?thesis
  proof (cases "r_isConfigChanging (f x)")
    case True
    then have "push_taken push L r t u s h = Some ?h1"
      unfolding push_taken_def f_def [symmetric] using h1(1) by simp
    then show ?thesis using h1(2) stirs_mono [OF h1(3), of "reach h r"] by simp
  next
    case False
    obtain t' s' u' where o: "overridden ?h1 r t s u = Some (t', s', u')" "sample_fine t' s'"
      using overridden_ok [OF h1(2) r1 assms(4)] by blast
    obtain taken h2 where a: "adapt L r t' s' u' ?h1 = Some (taken, h2)" "hub_ok L h2" "stirs {r} ?h1 h2"
      "\<forall>t' s'. taken = Some (t', s') \<longrightarrow> sample_fine t' s'"
      using adapt_ok [OF h1(2) assms(2) r1 o(2)] by blast
    have e: "push_taken push L r t u s h =
        (case taken of None \<Rightarrow> Some h2 | Some (t, s) \<Rightarrow> UpdateCurrentValue push L r t s h2)"
      unfolding push_taken_def f_def [symmetric] using h1(1) False o(1) a(1) by simp
    have e2: "stirs {r} h h2" "stirs (reach h r) h h2"
      using stirs_trans [OF h1(3) a(3)] stirs_mono [of "{r}" h h2 "reach h r"] by simp_all
    note ev = stirs_evolves [OF e2(1)]
    show ?thesis
    proof (cases taken)
      case None
      then show ?thesis using e a(2) e2(2) by simp
    next
      case (Some p)
      then obtain t2 s2 where p: "taken = Some (t2, s2)" "sample_fine t2 s2" using a(4) by (cases p) auto
      obtain y where y: "resources h2 r = Some y" "same_shape x y" using evolves_Some [OF ev assms(3)] by metis
      then have "\<forall>d \<in> set (r_destList y). pushes push L h2 d"
        using assms(5) pushes_evolves [OF ev] by (simp add: same_defs)
      then obtain h3 where "UpdateCurrentValue push L r t2 s2 h2 = Some h3" "hub_ok L h3" "stirs (reach h r) h2 h3"
        using UpdateCurrentValue_ok [OF a(2) y(1) p(2)] stirs_reach [OF e2(1)] by metis
      then show ?thesis using e p(1) stirs_trans [OF e2(2)] by auto
    qed
  qed
qed

lemma push_step_ok:
  assumes "hub_ok L h" "framework_ok L" "resources h r = Some x" "sample_fine t s"
    "\<forall>d \<in> set (r_destList x). pushes push L h d"
  shows "\<exists>h'. push_step push L r t u s h = Some h' \<and> hub_ok L h' \<and> stirs (reach h r) h h'"
proof -
  obtain e y where at: "r_entryRef x = Some e" "entries h e = Some y" "e_resourcePtr y = Some r"
    "kind_ok (e_type y) (r_sub x)" "entry_type_of h r = Some (e_type y)"
    by (rule attachedE [OF hub_okD(2) [OF assms(1)] assms(3)])
  let ?u = "if u = Some [] then None else u"
  obtain taken h1 where o: "(if e_type y = ADMIN_ENTRY_TYPE_OBSERVATION then observe L r t s h
      else Some (Some (t, s), h)) = Some (taken, h1)" "hub_ok L h1" "stirs {r} h h1"
    "\<forall>t' s'. taken = Some (t', s') \<longrightarrow> sample_fine t' s'"
  proof (cases "e_type y = ADMIN_ENTRY_TYPE_OBSERVATION")
    case True
    obtain ob where "get_obs h r = Some ob"
      using True at(4) assms(3) by (cases "r_sub x") (auto simp: get_obs_Some)
    from observe_ok [OF assms(1,2) this assms(4)] show thesis using True that by auto
  next
    case False
    then show thesis using that [of "Some (t, s)" h] assms(1,4) by simp
  qed
  have e: "push_step push L r t u s h =
      (case taken of None \<Rightarrow> Some h1 | Some (t, s) \<Rightarrow> push_taken push L r t ?u s h1)"
    using assms(3) at o(1) by (simp add: push_step_def Let_def)
  have e1: "stirs (reach h r) h h1" using stirs_mono [OF o(3)] by simp
  note ev = stirs_evolves [OF o(3)]
  show ?thesis
  proof (cases taken)
    case None
    then show ?thesis using e o(2) e1 by simp
  next
    case (Some p)
    then obtain t1 s1 where p: "taken = Some (t1, s1)" "sample_fine t1 s1" using o(4) by (cases p) auto
    obtain z where z: "resources h1 r = Some z" "same_shape x z" using evolves_Some [OF ev assms(3)] by metis
    then have "\<forall>d \<in> set (r_destList z). pushes push L h1 d"
      using assms(5) pushes_evolves [OF ev] by (simp add: same_defs)
    then obtain h2 where "push_taken push L r t1 ?u s1 h1 = Some h2" "hub_ok L h2" "stirs (reach h r) h1 h2"
      using push_taken_ok [OF o(2) assms(2) z(1) p(2)] stirs_reach [OF o(3)] by metis
    then show ?thesis using e p(1) stirs_trans [OF e1] by auto
  qed
qed

lemma push_along_pushes:
  assumes "framework_ok L" "hub_ok L h" "resources h r \<noteq> None" "below_count (routes (source h)) r < n"
  shows "pushes (push_along n L) L h r"
  using assms(2-4)
proof (induction n arbitrary: h r)
  case (Suc n)
  show ?case
    unfolding pushes_def
  proof (intro allI impI)
    fix h1 t u s
    assume h1: "evolves same_shape h h1" "hub_ok L h1" and s: "sample_fine t s"
    have routes: "source h1 = source h"
      using evolves_links(2) [OF evolves_mono [OF h1(1) same_shape_links]] .
    obtain x where x: "resources h1 r = Some x" using Suc.prems(2) evolves_live [OF h1(1)] by fastforce
    have "pushes (push_along n L) L h1 d" if d: "d \<in> set (r_destList x)" for d
    proof (rule Suc.IH [OF h1(2)])
      have src: "source h1 d = Some r" using links_okD(2) [OF hub_okD(6) [OF h1(2)] x d] .
      then show "resources h1 d \<noteq> None" using source_live(1) [OF hub_okD(6) [OF h1(2)]] by blast
      show "below_count (routes (source h1)) d < n"
        using depth_less [OF hub_okD(3,4) [OF h1(2)] src] Suc.prems(3) routes by simp
    qed
    then show "\<exists>h2. push_along (Suc n) L r t u s h1 = Some h2 \<and> hub_ok L h2 \<and>
        stirs (reach h r) h1 h2"
      using push_step_ok [OF h1(2) assms(1) x s, of "push_along n L"] evolves_reach [OF h1(1)] by simp
  qed
qed simp

lemma push_all_pushes:
  assumes "framework_ok L" "hub_ok L h" "resources h r \<noteq> None"
  shows "pushes (push_along (Suc (nextRes h)) L) L h r"
  using push_along_pushes [OF assms] depth_bound [OF hub_okD(6,4) [OF assms(2)]] by blast

lemma res_Push_ok:
  assumes "framework_ok L" "hub_ok L h" "resources h r \<noteq> None" "sample_fine t s"
  shows "\<exists>h'. res_Push L r t u s h = Some h' \<and> hub_ok L h' \<and> stirs (reach h r) h h'"
  using push_all_pushes [OF assms(1-3)] assms(2,4) evolves_refl [of same_shape h] same_refl(3)
  unfolding pushes_def res_Push_def by blast

lemma update_current_ok:
  assumes "framework_ok L" "hub_ok L h" "resources h r = Some x" "sample_fine t s"
  shows "\<exists>h'. update_current L r t s h = Some h' \<and> hub_ok L h' \<and> stirs (reach h r) h h' \<and>
    (if takes x t then has t s h' r else h' = h)"
proof -
  note x = assms(3)
  have "pushes (push_along (Suc (nextRes h)) L) L h d" if "d \<in> set (r_destList x)" for d
    using links_okD(2) [OF hub_okD(6) [OF assms(2)] x that] source_live(1) [OF hub_okD(6) [OF assms(2)]]
    by (intro push_all_pushes [OF assms(1,2)]) blast
  then show ?thesis
    unfolding update_current_def using UpdateCurrentValue_ok [OF assms(2) x assms(4)] by blast
qed

text \<open>Pushes of clients, one after another, are deliveries.\<close>

type_synonym push = "rid \<times> io_DataType_t \<times> string option \<times> dataSample_Ref_t"

definition push_ready :: "hub \<Rightarrow> push \<Rightarrow> bool" where
  "push_ready h p = (case p of (r, t, u, s) \<Rightarrow> resources h r \<noteq> None \<and> sample_fine t s)"

definition do_push :: "legato \<Rightarrow> push \<Rightarrow> hub \<Rightarrow> hub option" where
  "do_push L p h = (case p of (r, t, u, s) \<Rightarrow> res_Push L r t u s h)"

interpretation pushing: delivery "do_push L" "\<lambda>h. hub_ok L h \<and> framework_ok L" push_ready "stirs UNIV" for L
proof
  fix h p
  assume "hub_ok L h \<and> framework_ok L" "push_ready h p"
  then show "\<exists>h'. do_push L p h = Some h' \<and> (hub_ok L h' \<and> framework_ok L) \<and> stirs UNIV h h'"
    using res_Push_ok [of L h] stirs_mono [OF _ subset_UNIV]
    by (cases p) (fastforce simp: do_push_def push_ready_def)
qed (auto intro: stirs_trans simp: stirs_live push_ready_def)

subsection \<open>Pushes reach everything that a resource feeds\<close>

text \<open>A resource that takes every value as it is.\<close>

definition plain :: "hub \<Rightarrow> rid \<Rightarrow> bool" where
  "plain h r \<longleftrightarrow> (\<exists>x. resources h r = Some x \<and> r_sub x = Placeholder \<and> r_overrideValue x = None
     \<and> \<not> r_isConfigChanging x)"

lemma plain_evolves:
  assumes "evolves same_shape h h'" "plain h r"
  shows "plain h' r"
proof -
  obtain x where x: "resources h r = Some x" "r_sub x = Placeholder" "r_overrideValue x = None" "\<not> r_isConfigChanging x"
    using assms(2) by (auto simp: plain_def)
  obtain y where y: "resources h' r = Some y" "same_shape x y" using evolves_Some [OF assms(1) x(1)] by metis
  moreover have "r_sub y = Placeholder" using y(2) x(2) by (cases "r_sub y") (auto simp: same_defs)
  ultimately show ?thesis using x by (simp add: plain_def same_defs)
qed

lemma plain_step:
  assumes "hub_ok L h" "framework_ok L" "resources h r = Some x" "plain h r" "sample_fine t s"
  shows "\<exists>h1. push_step push L r t u s h =
      Option.bind (fold_option (push_from push r t s) (r_destList x) h1) (handler_CallAll L r t s) \<and>
    hub_ok L h1 \<and> stirs {r} h h1 \<and> has t s h1 r"
proof -
  have x: "r_sub x = Placeholder" "r_overrideValue x = None" "\<not> r_isConfigChanging x"
    using assms(3,4) by (auto simp: plain_def)
  obtain e y where at: "r_entryRef x = Some e" "entries h e = Some y" "e_resourcePtr y = Some r"
    "kind_ok (e_type y) (r_sub x)" "entry_type_of h r = Some (e_type y)"
    by (rule attachedE [OF hub_okD(2) [OF assms(1)] assms(3)])
  have type: "entry_type_of h r = Some ADMIN_ENTRY_TYPE_PLACEHOLDER"
    using at(4,5) x(1) by (auto elim: kind_ok_cases)
  define w where "w = (if u = Some [] then None else u)"
  define f where "f = (\<lambda>x :: res_Resource_t. x\<lparr>r_pushedType := t, r_pushedValue := Some s\<rparr>)"
  have v: "value_ok (nextBuff h) (f x)"
    using values_okD [OF hub_okD(5) [OF assms(1)] assms(3)] assms(5) by (simp add: value_ok_def f_def)
  have "same_shape x (f x)" by (simp add: same_defs f_def)
  note h1 = update_res_shape [where f = f, OF assms(1,3) this v]
  let ?h1 = "put_res r (f x) h"
  have r1: "resources ?h1 r = Some (f x)" "entry_type_of ?h1 r = Some ADMIN_ENTRY_TYPE_PLACEHOLDER"
    using type assms(3) by (simp_all add: f_def entry_type_of_def resTree_GetEntryType_def)
  have ov: "overridden ?h1 r t s w = Some (t, s, w)"
    using IsOverridden_ok [OF h1(2) r1(1)] x(2) by (simp add: overridden_def f_def)
  obtain h2 where h2: "(case w of None \<Rightarrow> Some ?h1 | Some v \<Rightarrow> SetUnits L r v ?h1) = Some h2" "hub_ok L h2"
    "stirs {r} ?h1 h2"
    using SetUnits_ok [OF h1(2) assms(2), of r] h1(2) r1(1) by (cases w) auto
  have "adapt L r t s w ?h1 = Some (Some (t, s), h2)"
    using r1 h2(1) by (simp add: adapt_def)
  then have e: "push_step push L r t u s h = UpdateCurrentValue push L r t s h2"
    using assms(3) type at(1) h1(1) ov x(3)
    unfolding push_step_def push_taken_def Let_def f_def [symmetric] w_def [symmetric] by simp (simp add: f_def)
  have s2: "stirs {r} h h2" using stirs_trans [OF h1(3) h2(3)] .
  obtain z where z: "resources h2 r = Some z" "same_shape x z"
    using evolves_Some [OF stirs_evolves [OF s2] assms(3)] by metis
  have "r_sub z = Placeholder" using z(2) x(1) by (cases "r_sub z") (auto simp: same_defs)
  then obtain h3 where "UpdateCurrentValue push L r t s h2 =
      Option.bind (fold_option (push_from push r t s) (r_destList z) h3) (handler_CallAll L r t s)"
    "hub_ok L h3" "stirs {r} h2 h3" "has t s h3 r"
    using UpdateCurrentValue_eq [OF h2(2) z(1) assms(5)] by (auto simp: takes_def)
  then show ?thesis using e stirs_trans [OF s2] z(2) by (auto simp: same_defs)
qed

text \<open>Pushing along the routes of plain resources, one by one.\<close>

definition spreads ::
  "(rid \<Rightarrow> io_DataType_t \<Rightarrow> string option \<Rightarrow> dataSample_Ref_t \<Rightarrow> hub \<Rightarrow> hub option) \<Rightarrow>
   legato \<Rightarrow> io_DataType_t \<Rightarrow> dataSample_Ref_t \<Rightarrow> hub \<Rightarrow> rid \<Rightarrow> bool" where
  "spreads push L t s h r \<longleftrightarrow>
     (\<forall>h1 h2 u. evolves same_shape h h1 \<longrightarrow> hub_ok L h1 \<longrightarrow> push r t u s h1 = Some h2 \<longrightarrow>
        (\<forall>q \<in> reach h r. has t s h2 q))"

lemma spreads_evolves:
  assumes "evolves same_shape h h1" "spreads push L t s h r"
  shows "spreads push L t s h1 r"
  unfolding spreads_def evolves_reach [OF assms(1)]
  using assms(2) shape_trans [OF assms(1)] unfolding spreads_def by blast

lemma spread_delivery:
  assumes "sample_fine t s"
  shows "lasting_delivery (push_from push r t s) (hub_ok L)
    (\<lambda>h d. resources h r \<noteq> None \<and> pushes push L h d \<and> reach h d \<subseteq> A \<and> spreads push L t s h d)
    (\<lambda>h h'. stirs A h h' \<and> (\<forall>q. has t s h q \<longrightarrow> has t s h' q)) (\<lambda>h d. \<forall>q \<in> reach h d. has t s h q)"
proof
  fix h d
  assume h: "hub_ok L h"
    and d: "resources h r \<noteq> None \<and> pushes push L h d \<and> reach h d \<subseteq> A \<and> spreads push L t s h d"
  then obtain x h2 where p: "resources h r = Some x" "push d t (Some (r_units x)) s h = Some h2" "hub_ok L h2"
    "stirs (reach h d) h h2"
    using assms evolves_refl [of same_shape h] unfolding pushes_def by fastforce
  have "\<forall>q \<in> reach h d. has t s h2 q"
    using d h p(2) evolves_refl [of same_shape h] unfolding spreads_def by auto
  then have "\<forall>q. has t s h q \<longrightarrow> has t s h2 q"
    using p(4) by (fastforce simp: stirs_def has_def)
  then show "\<exists>h'. push_from push r t s d h = Some h' \<and> hub_ok L h' \<and>
      stirs A h h' \<and> (\<forall>q. has t s h q \<longrightarrow> has t s h' q)"
    using p d stirs_mono by (auto simp: push_from_def)
next
  fix h d h'
  assume h: "hub_ok L h" and p: "push_from push r t s d h = Some h'"
    and d: "resources h r \<noteq> None \<and> pushes push L h d \<and> reach h d \<subseteq> A \<and> spreads push L t s h d"
  obtain x where x: "resources h r = Some x" "push d t (Some (r_units x)) s h = Some h'"
    using p by (auto simp: push_from_def bind_Some_iff)
  obtain h2 where "push d t (Some (r_units x)) s h = Some h2" "stirs (reach h d) h h2"
    using d h assms evolves_refl [of same_shape h] same_refl(3) unfolding pushes_def by blast
  then have "stirs (reach h d) h h'" using x(2) by simp
  moreover have "\<forall>q \<in> reach h d. has t s h' q"
    using d h x(2) evolves_refl [of same_shape h] unfolding spreads_def by auto
  ultimately show "\<forall>q \<in> reach h' d. has t s h' q" using stirs_reach by blast
next
  fix h h' d
  assume c: "stirs A h h' \<and> (\<forall>q. has t s h q \<longrightarrow> has t s h' q)"
  then have ev: "evolves same_shape h h'" using stirs_evolves by blast
  assume d: "resources h r \<noteq> None \<and> pushes push L h d \<and> reach h d \<subseteq> A \<and> spreads push L t s h d"
  have "spreads push L t s h' d" using d spreads_evolves [OF ev] by blast
  then show "resources h' r \<noteq> None \<and> pushes push L h' d \<and> reach h' d \<subseteq> A \<and> spreads push L t s h' d"
    using d pushes_evolves [OF ev] evolves_live [OF ev] evolves_reach [OF ev] by metis
qed (auto intro: stirs_trans simp: stirs_reach)

lemma has_resources: "resources h' = resources h \<Longrightarrow> has t s h' = has t s h"
  by (simp add: has_def fun_eq_iff)

lemma reach_cases:
  assumes "q \<in> reach h r"
  obtains "q = r" | d where "source h d = Some r" "q \<in> reach h d"
  using assms by (auto simp: reach_def routes_def elim: converse_rtranclE)

lemma plain_spreads:
  assumes "framework_ok L" "sample_fine t s" "hub_ok L h" "\<forall>q \<in> reach h r. plain h q"
    "below_count (routes (source h)) r < n"
  shows "spreads (push_along n L) L t s h r"
  using assms(3-5)
proof (induction n arbitrary: h r)
  case (Suc n)
  let ?push = "push_along n L"
  show ?case
    unfolding spreads_def
  proof (intro allI impI)
    fix h1 h2 u
    assume ev: "evolves same_shape h h1" and ok1: "hub_ok L h1" and p: "push_along (Suc n) L r t u s h1 = Some h2"
    have plain1: "\<forall>q \<in> reach h r. plain h1 q" using Suc.prems(2) plain_evolves [OF ev] by blast
    have routes: "source h1 = source h" using evolves_links(2) [OF evolves_mono [OF ev same_shape_links]] .
    obtain x where x: "resources h1 r = Some x" using plain1 by (force simp: plain_def)
    obtain h3 where h3: "push_step ?push L r t u s h1 =
        Option.bind (fold_option (push_from ?push r t s) (r_destList x) h3) (handler_CallAll L r t s)"
      "hub_ok L h3" "stirs {r} h1 h3" "has t s h3 r"
      using plain_step [OF ok1 assms(1) x plain1 [rule_format, OF reach_self] assms(2), of ?push u] by blast
    note ev3 = stirs_evolves [OF h3(3)]
    have ready: "resources h3 r \<noteq> None \<and> pushes ?push L h3 d \<and> reach h3 d \<subseteq> reach h r \<and> spreads ?push L t s h3 d"
      if d: "d \<in> set (r_destList x)" for d
    proof -
      have src: "source h1 d = Some r" using links_okD(2) [OF hub_okD(6) [OF ok1] x d] .
      have src3: "source h3 d = Some r" using src stirs_source [OF h3(3)] by simp
      have depth: "below_count (routes (source h3)) d < n"
        using depth_less [OF hub_okD(3,4) [OF ok1] src] Suc.prems(3) routes stirs_source [OF h3(3)] by simp
      have sub: "reach h3 d \<subseteq> reach h r"
        using reach_dest [OF src3] stirs_reach [OF h3(3)] evolves_reach [OF ev] by simp
      then have "\<forall>q \<in> reach h3 d. plain h3 q" using plain1 plain_evolves [OF ev3] by blast
      then have "spreads ?push L t s h3 d" using Suc.IH [OF h3(2) _ depth] by blast
      moreover have "pushes ?push L h3 d"
        using push_along_pushes [OF assms(1) h3(2) _ depth] source_live(1) [OF hub_okD(6) [OF h3(2)] src3] by blast
      ultimately show ?thesis using sub h3(4) by (auto simp: has_def)
    qed
    from lasting_delivery.all_reached [OF spread_delivery [OF assms(2)] h3(2) ballI [OF ready]]
    obtain h4 where h4: "fold_option (push_from ?push r t s) (r_destList x) h3 = Some h4" "hub_ok L h4"
      "stirs (reach h r) h3 h4" "\<forall>q. has t s h3 q \<longrightarrow> has t s h4 q"
      "\<forall>d \<in> set (r_destList x). \<forall>q \<in> reach h4 d. has t s h4 q"
      by blast
    obtain z where z: "resources h4 r = Some z" using h3(4) h4(4) by (force simp: has_def)
    obtain h5 where h5: "handler_CallAll L r t s h4 = Some h5" "stirs {} h4 h5"
      using CallAll_ok [OF h4(2) z, of t s "{}"] assms(2) by (auto simp: sample_fine_def)
    have h2: "h2 = h5" using p h3(1) h4(1) h5(1) by simp
    have has: "has t s h2 = has t s h4" using has_resources h5(2) unfolding h2 stirs_def by blast
    show "\<forall>q \<in> reach h r. has t s h2 q"
    proof
      fix q
      assume "q \<in> reach h r"
      then show "has t s h2 q"
      proof (cases rule: reach_cases)
        case 1
        then show ?thesis using h3(4) h4(4) has by simp
      next
        case (2 d)
        then have "d \<in> set (r_destList x)"
          using hub_okD(6) [OF ok1] x routes by (metis dests_Some links_ok_def)
        moreover have "reach h4 d = reach h d"
          using stirs_reach [OF h4(3)] stirs_reach [OF h3(3)] evolves_reach [OF ev] by simp
        ultimately show ?thesis using h4(5) 2(2) has by simp
      qed
    qed
  qed
qed simp

subsection \<open>Properties\<close>

text \<open>
  C2: whatever clients push, in whatever order and along whatever routes, every push ends without
  stopping the daemon and leaves the hub well-formed, with the same entries, routes and settings.
\<close>

theorem pushes_end:
  assumes "framework_ok L" "hub_ok L h" "\<forall>p \<in> set ps. push_ready h p"
  shows "\<exists>h'. fold_option (do_push L) ps h = Some h' \<and> hub_ok L h' \<and> evolves same_shape h h'"
  using pushing.all_delivered [of L h] assms stirs_evolves by blast

text \<open>
  C5: a sample that is pushed to a resource which feeds only resources that take every value becomes
  the current value of each of them; resources that are not fed by it are not touched.
\<close>

theorem push_reaches_all:
  assumes "framework_ok L" "hub_ok L h" "sample_fine t s" "\<forall>q \<in> reach h r. plain h q"
  shows "\<exists>h'. res_Push L r t u s h = Some h' \<and> (\<forall>q \<in> reach h r. has t s h' q) \<and>
    (\<forall>q. q \<notin> reach h r \<longrightarrow> resources h' q = resources h q)"
proof -
  have r: "resources h r \<noteq> None" using assms(4) reach_self [of r h] by (auto simp: plain_def)
  obtain h' where h': "res_Push L r t u s h = Some h'" "stirs (reach h r) h h'"
    using res_Push_ok [OF assms(1,2) r assms(3)] by blast
  have "spreads (push_along (Suc (nextRes h)) L) L t s h r"
    by (rule plain_spreads [OF assms(1,3,2,4) depth_bound [OF hub_okD(6,4) [OF assms(2)]]])
  then have "\<forall>q \<in> reach h r. has t s h' q"
    using h'(1) assms(2) evolves_refl [of same_shape h] same_refl(3) unfolding spreads_def res_Push_def by blast
  then show ?thesis using h' by (auto simp: stirs_def)
qed

subsection \<open>A concrete hub\<close>

text \<open>Two placeholders, the first of which feeds the second, which may have settings.\<close>

definition second_res :: res_Resource_t where
  "second_res = (res_Construct 2)\<lparr>r_srcPtr := Some 0\<rparr>"

definition route_hub :: "res_Resource_t \<Rightarrow> hub" where
  "route_hub x = initial_hub\<lparr>
     entries := [0 \<mapsto> \<lparr> e_parentPtr = None, e_name = [], e_childList = [1, 2],
                       e_type = ADMIN_ENTRY_TYPE_NAMESPACE, e_resourcePtr = None, e_refCount = 3 \<rparr>,
                 1 \<mapsto> \<lparr> e_parentPtr = Some 0, e_name = ''a'', e_childList = [],
                       e_type = ADMIN_ENTRY_TYPE_PLACEHOLDER, e_resourcePtr = Some 0, e_refCount = 1 \<rparr>,
                 2 \<mapsto> \<lparr> e_parentPtr = Some 0, e_name = ''b'', e_childList = [],
                       e_type = ADMIN_ENTRY_TYPE_PLACEHOLDER, e_resourcePtr = Some 1, e_refCount = 1 \<rparr>],
     nextEntry := 3,
     resources := [0 \<mapsto> (res_Construct 1)\<lparr>r_destList := [1]\<rparr>, 1 \<mapsto> x],
     nextRes := 2\<rparr>"

lemma route_hub_simps [simp]:
  "resources (route_hub x) 0 = Some ((res_Construct 1)\<lparr>r_destList := [1]\<rparr>)"
  "resources (route_hub x) 1 = Some x" "resources (route_hub x) (Suc 0) = Some x"
  "nextRes (route_hub x) = 2" "nextBuff (route_hub x) = 0" "IsUpdateInProgress (route_hub x) = False"
  "resources (route_hub x) (Suc (Suc n)) = None"
  by (simp_all add: route_hub_def initial_hub_def)

lemma route_hub_source:
  assumes "r_srcPtr x = Some 0"
  shows "source (route_hub x) = [1 \<mapsto> 0]"
proof
  fix q
  show "source (route_hub x) q = [1 \<mapsto> 0] q"
    using assms by (auto simp: source_def route_hub_def initial_hub_def res_Construct_def)
qed

lemma res_Construct_value: "value_ok n (res_Construct e)"
  by (simp add: value_ok_def res_Construct_def)

lemma route_hub_ok:
  assumes "same_links second_res x" "value_ok 0 x"
  shows "hub_ok sample_legato (route_hub x)"
proof -
  have x: "r_entryRef x = Some 2" "r_srcPtr x = Some 0" "r_destList x = []" "r_pushHandlerList x = []"
    "r_sub x = Placeholder"
    using assms(1) by (cases "r_sub x"; simp add: same_defs second_res_def res_Construct_def)+
  have "tree_ok sample_legato (route_hub x)"
    by (auto simp: tree_ok_def route_hub_def initial_hub_def children_ok_def parent_ok_def name_ok_def
        name_of_def HUB_MAX_ENTRY_NAME_BYTES_def sample_legato_def illegal_in_path_def)
  moreover have "attached_ok (route_hub x)"
    using x by (auto simp: attached_ok_def attached_def entry_ok_def route_hub_def initial_hub_def
        res_Construct_def get_obs_def obs_part_def split: if_splits)
  moreover have "routes_ok (route_hub x)"
  proof -
    have d: "dests (route_hub x) q = (if q = 0 then [1] else [])" for q
      using x(3) by (auto simp: dests_def route_hub_def initial_hub_def res_Construct_def)
    have "routes (source (route_hub x)) = {(0, 1)}"
      by (auto simp: route_hub_source [OF x(2)] routes_def split: if_splits)
    then have "acyclic (routes (source (route_hub x)))" by (simp add: acyclic_insert) (simp add: acyclic_def)
    then show ?thesis by (auto simp: routes_ok_def links_ok_def d route_hub_source [OF x(2)] split: if_splits)
  qed
  moreover have "numbered (route_hub x)"
  proof -
    have "heard (route_hub x) q = []" for q
      using x(4) by (auto simp: heard_def route_hub_def initial_hub_def res_Construct_def)
    then show ?thesis by (auto simp: numbered_def route_hub_def initial_hub_def split: if_splits)
  qed
  moreover have "values_ok (route_hub x)"
    using assms(2) res_Construct_value [of 0 1]
    by (auto simp: values_ok_def value_ok_def route_hub_def initial_hub_def res_Construct_def)
  ultimately show ?thesis by (simp add: hub_ok_def)
qed

lemma second_res_ok: "hub_ok sample_legato (route_hub second_res)"
  by (rule route_hub_ok) (simp_all add: value_ok_def second_res_def res_Construct_def)

lemma number_at_fine: "sample_fine IO_DATA_TYPE_NUMERIC (number_at 1 5)"
  by (simp add: sample_fine_def sample_ok_def number_at_def fits_def)

lemma second_res_links: "source (route_hub second_res) = [1 \<mapsto> 0]"
  by (rule route_hub_source) (simp add: second_res_def)

lemma pushes_end_witness:
  "\<exists>h'. fold_option (do_push sample_legato)
      [(0, IO_DATA_TYPE_NUMERIC, Some ''V'', number_at 1 5), (1, IO_DATA_TYPE_NUMERIC, None, number_at 1 5)]
      (route_hub second_res) = Some h' \<and> hub_ok sample_legato h'"
  using pushes_end [OF sample_framework_ok second_res_ok,
      of "[(0, IO_DATA_TYPE_NUMERIC, Some ''V'', number_at 1 5), (1, IO_DATA_TYPE_NUMERIC, None, number_at 1 5)]"]
    number_at_fine by (auto simp: push_ready_def)

lemma push_reaches_all_witness:
  "\<exists>h'. res_Push sample_legato 0 IO_DATA_TYPE_NUMERIC None (number_at 1 5) (route_hub second_res) = Some h' \<and>
     has IO_DATA_TYPE_NUMERIC (number_at 1 5) h' 0 \<and> has IO_DATA_TYPE_NUMERIC (number_at 1 5) h' 1"
proof -
  have "reach (route_hub second_res) 0 = {0, 1}"
    by (auto simp: reach_def second_res_links routes_def elim: converse_rtranclE rtranclE split: if_splits)
  moreover have "plain (route_hub second_res) 0" "plain (route_hub second_res) 1"
    by (simp_all add: plain_def second_res_def res_Construct_def)
  ultimately show ?thesis
    using push_reaches_all [OF sample_framework_ok second_res_ok number_at_fine, of 0 None] by fastforce
qed

end
