(* ===== verification/Settings.thy ===== *)
theory Settings
  imports PushSpec
begin

text \<open>
  What overrides, defaults and suspension promise: which value a resource has after they are set and
  removed, and what a push does meanwhile.
\<close>

subsection \<open>Overrides and defaults\<close>

lemma coerce_same: "coerce L t t s clk = Some (None, clk)"
  by (cases t) (simp_all add: coerce_def)

text \<open>A pushed value that is accepted as it is becomes the current one.\<close>

lemma push_adapted:
  assumes "hub_ok L h" "framework_ok L" "resources h r = Some x" "sample_fine t s" "\<not> r_isConfigChanging x"
    "\<forall>ob. r_sub x \<noteq> Observation ob"
    "overridden (put_res r (x\<lparr>r_pushedType := t, r_pushedValue := Some s\<rparr>) h) r t s (if u = Some [] then None else u) = Some (t', s', u')"
    "adapt L r t' s' u' (put_res r (x\<lparr>r_pushedType := t, r_pushedValue := Some s\<rparr>) h) =
       Some (Some (t', s'), (put_res r (x\<lparr>r_pushedType := t, r_pushedValue := Some s\<rparr>) h)\<lparr>clock := clk\<rparr>)"
    "sample_fine t' s'" "takes x t'"
  shows "\<exists>h'. res_Push L r t u s h = Some h' \<and> hub_ok L h' \<and> has t' s' h' r \<and> stirs (reach h r) h h'"
proof -
  obtain e y where at: "r_entryRef x = Some e" "entries h e = Some y" "e_resourcePtr y = Some r"
    "kind_ok (e_type y) (r_sub x)" "entry_type_of h r = Some (e_type y)"
    by (rule attachedE [OF hub_okD(2) [OF assms(1)] assms(3)])
  have no: "e_type y \<noteq> ADMIN_ENTRY_TYPE_OBSERVATION" using at(4) assms(6) by (auto elim: kind_ok_cases)
  define w where "w = (if u = Some [] then None else u)"
  define f where "f = (\<lambda>x :: res_Resource_t. x\<lparr>r_pushedType := t, r_pushedValue := Some s\<rparr>)"
  have v: "value_ok (nextBuff h) (f x)"
    using values_okD [OF hub_okD(5) [OF assms(1)] assms(3)] assms(4) by (simp add: value_ok_def f_def)
  have "same_shape x (f x)" by (simp add: same_defs f_def)
  note h1 = update_res_shape [where f = f, OF assms(1,3) this v]
  let ?h1 = "put_res r (f x) h"
  let ?h2 = "?h1\<lparr>clock := clk\<rparr>" and ?push = "push_along (nextRes h) L"
  have ov: "overridden ?h1 r t s w = Some (t', s', u')" and a: "adapt L r t' s' u' ?h1 = Some (Some (t', s'), ?h2)"
    using assms(7,8) by (simp_all add: f_def w_def)
  have e: "res_Push L r t u s h = UpdateCurrentValue ?push L r t' s' ?h2"
    using assms(3,5) at(1,5) no h1(1) ov a
    unfolding res_Push_def push_along.simps push_step_def push_taken_def Let_def f_def [symmetric] w_def [symmetric]
    by simp (simp add: f_def)
  have h2: "hub_ok L ?h2" "resources ?h2 r = Some (f x)" using clock_ok(1) [OF h1(2)] by simp_all
  have st: "stirs {r} h ?h2" using stirs_trans [OF h1(3) clock_shape(1)] .
  have src: "source ?h2 = source h" using stirs_source [OF st] .
  have "pushes ?push L ?h2 d" if "d \<in> set (r_destList (f x))" for d
  proof (rule push_along_pushes [OF assms(2) h2(1)])
    have d: "source ?h2 d = Some r" using links_okD(2) [OF hub_okD(6) [OF h2(1)] h2(2) that] .
    then show "resources ?h2 d \<noteq> None" using source_live(1) [OF hub_okD(6) [OF h2(1)]] by blast
    have "below_count (routes (source ?h2)) r < Suc (nextRes h)"
      using depth_bound [OF hub_okD(6,4) [OF assms(1)]] src by simp
    then show "below_count (routes (source ?h2)) d < nextRes h"
      using depth_less [OF hub_okD(3,4) [OF h2(1)] d] by simp
  qed
  moreover have "takes (f x) t'" using assms(10) by (simp add: takes_def f_def)
  ultimately obtain h' where h': "UpdateCurrentValue ?push L r t' s' ?h2 = Some h'" "hub_ok L h'" "stirs (reach ?h2 r) ?h2 h'"
    "has t' s' h' r"
    using UpdateCurrentValue_ok [OF h2(1,2) assms(9), of ?push] by auto
  have "stirs (reach h r) h h'"
    using stirs_trans [OF stirs_mono [OF st] h'(3) [unfolded stirs_reach [OF st]]] by simp
  then show ?thesis using e h' by auto
qed

lemma push_overridden:
  assumes "hub_ok L h" "framework_ok L" "resources h r = Some x" "sample_fine t s"
    "r_overrideValue x = Some v" "takes x (r_overrideType x)" "\<not> r_isConfigChanging x"
    "\<forall>ob. r_sub x \<noteq> Observation ob"
  shows "\<exists>h'. res_Push L r t u s h = Some h' \<and> hub_ok L h' \<and>
    has (r_overrideType x) (dataSample_SetTimestamp v (dataSample_GetTimestamp s)) h' r"
proof -
  obtain e and y :: Entry_t where at: "kind_ok (e_type y) (r_sub x)" "entry_type_of h r = Some (e_type y)"
    by (rule attachedE [OF hub_okD(2) [OF assms(1)] assms(3)])
  let ?x = "x\<lparr>r_pushedType := t, r_pushedValue := Some s\<rparr>"
  let ?h1 = "put_res r ?x h"
  define new where "new = dataSample_SetTimestamp v (dataSample_GetTimestamp s)"
  have vx: "value_ok (nextBuff h) x" using values_okD [OF hub_okD(5) [OF assms(1)] assms(3)] .
  then have v: "value_ok (nextBuff h) ?x" and fine: "sample_fine (r_overrideType x) v"
    using assms(4,5) by (simp_all add: value_ok_def)
  have "same_shape x ?x" by (simp add: same_defs)
  note h1 = update_res_shape [where f = "\<lambda>x. x\<lparr>r_pushedType := t, r_pushedValue := Some s\<rparr>", OF assms(1,3) this v]
  have r1: "resources ?h1 r = Some ?x" "entry_type_of ?h1 r = Some (e_type y)" "takes ?x (r_overrideType x)"
    using at(2) assms(3,6) by (simp_all add: entry_type_of_def resTree_GetEntryType_def takes_def)
  have ov: "overridden ?h1 r t s (if u = Some [] then None else u) = Some (r_overrideType x, new, None)"
    using IsOverridden_ok [OF h1(2) r1(1)] r1(3) assms(5) Copy_ok [of "r_overrideType x" v] fine
    by (simp add: overridden_def new_def sample_fine_def)
  have "\<exists>clk. adapt L r (r_overrideType x) new None ?h1 = Some (Some (r_overrideType x, new), ?h1\<lparr>clock := clk\<rparr>)"
    using at(1)
  proof (cases rule: kind_ok_cases)
    case (io p)
    then have "r_overrideType x = io_dataType p" "ioPoint_GetDataType ?h1 r = Some (io_dataType p)"
      using assms(6) by (simp_all add: takes_def ioPoint_GetDataType_def)
    then show ?thesis
      using io r1(1,2) coerce_same by (auto simp: adapt_def ioPoint_DoTypeCoercion_def)
  next
    case plain
    have "adapt L r (r_overrideType x) new None ?h1 = Some (Some (r_overrideType x, new), ?h1\<lparr>clock := clock ?h1\<rparr>)"
      using plain r1(1,2) by (simp add: adapt_def)
    then show ?thesis by blast
  qed (use assms(8) in simp)
  then obtain clk where a: "adapt L r (r_overrideType x) new None ?h1 = Some (Some (r_overrideType x, new), ?h1\<lparr>clock := clk\<rparr>)"
    by blast
  have "sample_fine (r_overrideType x) new" using fine by (simp add: new_def)
  from push_adapted [OF assms(1-4,7,8) ov a this assms(6)] show ?thesis by (auto simp: new_def)
qed

text \<open>An input or output without an override takes a value of its own type as it is.\<close>

lemma push_io:
  assumes "hub_ok L h" "framework_ok L" "resources h r = Some x" "sample_fine t s"
    "r_sub x = IoPoint p" "io_dataType p = t" "r_overrideValue x = None" "\<not> r_isConfigChanging x"
  shows "\<exists>h'. res_Push L r t None s h = Some h' \<and> hub_ok L h' \<and> has t s h' r \<and> stirs (reach h r) h h'"
proof -
  obtain e and y :: Entry_t where at: "kind_ok (e_type y) (r_sub x)" "entry_type_of h r = Some (e_type y)"
    by (rule attachedE [OF hub_okD(2) [OF assms(1)] assms(3)])
  let ?x = "x\<lparr>r_pushedType := t, r_pushedValue := Some s\<rparr>"
  let ?h1 = "put_res r ?x h"
  have v: "value_ok (nextBuff h) ?x"
    using values_okD [OF hub_okD(5) [OF assms(1)] assms(3)] assms(4) by (simp add: value_ok_def)
  have "same_shape x ?x" by (simp add: same_defs)
  note h1 = update_res_shape [where f = "\<lambda>x. x\<lparr>r_pushedType := t, r_pushedValue := Some s\<rparr>", OF assms(1,3) this v]
  have r1: "resources ?h1 r = Some ?x" "entry_type_of ?h1 r = Some (e_type y)" "ioPoint_GetDataType ?h1 r = Some t"
    using at(2) assms(3,5,6) by (simp_all add: entry_type_of_def resTree_GetEntryType_def ioPoint_GetDataType_def)
  have ov: "overridden ?h1 r t s (if None = Some [] then None else None) = Some (t, s, None)"
    using IsOverridden_ok [OF h1(2) r1(1)] assms(7) by (simp add: overridden_def)
  have ty: "e_type y = ADMIN_ENTRY_TYPE_INPUT \<or> e_type y = ADMIN_ENTRY_TYPE_OUTPUT"
    using at(1) assms(5) by (auto elim: kind_ok_cases)
  then obtain clk where a: "adapt L r t s None ?h1 = Some (Some (t, s), ?h1\<lparr>clock := clk\<rparr>)"
    using r1 coerce_same by (auto simp: adapt_def ioPoint_DoTypeCoercion_def)
  have "\<forall>ob. r_sub x \<noteq> Observation ob" "takes x t" using assms(5,6) by (simp_all add: takes_def)
  from push_adapted [OF assms(1-4,8) this(1) ov a assms(4) this(2)] show ?thesis .
qed

text \<open>What a push leaves of a suspended resource: the pushed value is recorded, nothing else.\<close>

lemma push_suspended:
  assumes "hub_ok L h" "resources h r = Some x" "r_isConfigChanging x" "\<forall>ob. r_sub x \<noteq> Observation ob"
  shows "res_Push L r t u s h = Some (put_res r (x\<lparr>r_pushedType := t, r_pushedValue := Some s\<rparr>) h)"
proof -
  obtain e y where at: "r_entryRef x = Some e" "entries h e = Some y" "e_resourcePtr y = Some r"
    "kind_ok (e_type y) (r_sub x)" "entry_type_of h r = Some (e_type y)"
    by (rule attachedE [OF hub_okD(2) [OF assms(1)] assms(2)])
  have no: "e_type y \<noteq> ADMIN_ENTRY_TYPE_OBSERVATION" using at(4) assms(4) by (auto elim: kind_ok_cases)
  show ?thesis
    using assms(2,3) at(1,5) no
    by (simp add: res_Push_def push_step_def push_taken_def update_res_def Let_def)
qed

text \<open>The settings of a resource change without its value.\<close>

lemma update_setting:
  assumes "hub_ok L h" "resources h r = Some x" "same_links x (f x)" "value_ok (nextBuff h) (f x)"
  shows "update_res r f h = Some (put_res r (f x) h)" "hub_ok L (put_res r (f x) h)"
    "source (put_res r (f x) h) = source h" "evolves same_links h (put_res r (f x) h)"
proof -
  show e: "evolves same_links h (put_res r (f x) h)"
    using update_res_evolves [of h r x same_links f] assms(2,3) by simp
  show "hub_ok L (put_res r (f x) h)"
    using evolves_ok [OF assms(1) e values_put_res [OF hub_okD(5) [OF assms(1)] assms(4)]] .
  show "update_res r f h = Some (put_res r (f x) h)" using assms(2) by (simp add: update_res_def)
  show "source (put_res r (f x) h) = source h" using evolves_links(2) [OF e] .
qed

lemma SetOverride_ok:
  assumes "hub_ok L h" "framework_ok L" "resources h r = Some x" "sample_fine t v"
  shows "\<exists>h'. res_SetOverride L r t v h = Some h' \<and> hub_ok L h' \<and>
    res_GetOverrideValue h' r = Some (Some v) \<and> (takes x t \<longrightarrow> has t v h' r) \<and> evolves same_links h h' \<and>
    res_GetOverrideDataType h' r = Some t"
proof -
  define f where "f = (\<lambda>x :: res_Resource_t. x\<lparr>r_overrideValue := Some v, r_overrideType := t\<rparr>)"
  have vx: "value_ok (nextBuff h) (f x)"
    using values_okD [OF hub_okD(5) [OF assms(1)] assms(3)] assms(4) by (simp add: value_ok_def f_def)
  have l: "same_links x (f x)" by (simp add: same_defs f_def)
  note h1 = update_setting [where f = f, OF assms(1,3) l vx]
  have r1: "resources (put_res r (f x) h) r = Some (f x)" "takes (f x) t = takes x t"
    by (simp_all add: f_def takes_def)
  obtain h2 where h2: "update_current L r t v (put_res r (f x) h) = Some h2" "hub_ok L h2"
    "stirs (reach (put_res r (f x) h) r) (put_res r (f x) h) h2"
    "if takes (f x) t then has t v h2 r else h2 = put_res r (f x) h"
    using update_current_ok [OF assms(2) h1(2) r1(1) assms(4)] by blast
  have e: "res_SetOverride L r t v h = (if takes x t then Some h2 else Some (put_res r (f x) h))"
    unfolding res_SetOverride_def f_def [symmetric]
    using h1(1) IsAcceptable_ok [OF h1(2) r1(1), of t] r1(2) h2(1) by simp
  have ev: "evolves same_links h h2" using links_trans [OF h1(4) shape_links [OF stirs_evolves [OF h2(3)]]] .
  show ?thesis
  proof (cases "takes x t")
    case True
    obtain z where "resources h2 r = Some z" "same_shape (f x) z"
      using evolves_Some [OF stirs_evolves [OF h2(3)] r1(1)] by metis
    then show ?thesis using e True h2(2,4) r1(2) ev by (auto simp: res_GetOverrideValue_def res_GetOverrideDataType_def same_defs f_def)
  next
    case False
    then show ?thesis using e h1(2,4) r1(1) by (simp add: res_GetOverrideValue_def res_GetOverrideDataType_def f_def)
  qed
qed

lemma acceptable_value_ok:
  assumes "hub_ok L h" "resources h r = Some x"
  shows "acceptable_value h r v t = Some (if takes x t then v else None)"
  using IsAcceptable_ok [OF assms, of t] by (cases v) (simp_all add: acceptable_value_def)

text \<open>The value that applies when there is no override: what was pushed last, or else the default.\<close>

definition fallback :: "res_Resource_t \<Rightarrow> (io_DataType_t \<times> dataSample_Ref_t) option" where
  "fallback x =
     (case (if takes x (r_pushedType x) then r_pushedValue x else None) of
        Some s \<Rightarrow> Some (r_pushedType x, s)
      | None \<Rightarrow> (case (if takes x (r_defaultType x) then r_defaultValue x else None) of
                  Some s \<Rightarrow> Some (r_defaultType x, s)
                | None \<Rightarrow> None))"

lemma fallback_fine:
  "value_ok n x \<Longrightarrow> fallback x = Some (t, s) \<Longrightarrow> sample_fine t s \<and> takes x t"
  by (auto simp: fallback_def value_ok_def split: option.splits if_splits)

lemma RemoveOverride_ok:
  assumes "hub_ok L h" "framework_ok L" "resources h r = Some x" "r_overrideValue x \<noteq> None"
  shows "\<exists>h'. res_RemoveOverride L r h = Some h' \<and> hub_ok L h' \<and> res_HasOverride h' r = Some False \<and>
    (case fallback x of
       Some (t, s) \<Rightarrow> has t s h' r
     | None \<Rightarrow> h' = put_res r (x\<lparr>r_overrideValue := None\<rparr>) h) \<and> evolves same_links h h'"
proof -
  define f where "f = (\<lambda>x :: res_Resource_t. x\<lparr>r_overrideValue := None\<rparr>)"
  note vx = values_okD [OF hub_okD(5) [OF assms(1)] assms(3)]
  then have vf: "value_ok (nextBuff h) (f x)" by (simp add: value_ok_def f_def)
  have l: "same_links x (f x)" by (simp add: same_defs f_def)
  note h1 = update_setting [where f = f, OF assms(1,3) l vf]
  let ?h1 = "put_res r (f x) h"
  have r1: "resources ?h1 r = Some (f x)" "\<And>t. takes (f x) t = takes x t" by (simp_all add: f_def takes_def)
  have e: "res_RemoveOverride L r h =
      (case fallback x of Some (t, s) \<Rightarrow> update_current L r t s ?h1 | None \<Rightarrow> Some ?h1)"
    unfolding res_RemoveOverride_def f_def [symmetric]
    using assms(3,4) h1(1) acceptable_value_ok [OF h1(2) r1(1)] r1(2)
    by (auto simp: fallback_def split: option.splits)
  show ?thesis
  proof (cases "fallback x")
    case None
    then show ?thesis using e h1(2,4) r1(1) by (simp add: res_HasOverride_def f_def)
  next
    case (Some p)
    then obtain t s where p: "fallback x = Some (t, s)" by (cases p) auto
    note fine = fallback_fine [OF vx p]
    obtain h2 where h2: "update_current L r t s ?h1 = Some h2" "hub_ok L h2" "stirs (reach ?h1 r) ?h1 h2"
      "if takes (f x) t then has t s h2 r else h2 = ?h1"
      using update_current_ok [OF assms(2) h1(2) r1(1), of t s] fine by blast
    obtain z where "resources h2 r = Some z" "same_shape (f x) z"
      using evolves_Some [OF stirs_evolves [OF h2(3)] r1(1)] by metis
    then have "res_HasOverride h2 r = Some False" by (simp add: res_HasOverride_def same_defs f_def)
    then show ?thesis
      using e p h2(1,2,4) fine r1(2) links_trans [OF h1(4) shape_links [OF stirs_evolves [OF h2(3)]]] by simp
  qed
qed

text \<open>A default is the current value as long as there is neither an override nor a push.\<close>

definition on_default :: "res_Resource_t \<Rightarrow> bool" where
  "on_default x \<longleftrightarrow>
     (r_overrideValue x = None \<or> \<not> takes x (r_overrideType x)) \<and>
     (r_pushedValue x = None \<or> \<not> takes x (r_pushedType x))"

lemma SetDefault_ok:
  assumes "hub_ok L h" "framework_ok L" "resources h r = Some x" "sample_fine t v"
  shows "\<exists>h'. res_SetDefault L r t v h = Some h' \<and> hub_ok L h' \<and> res_GetDefaultValue h' r = Some (Some v) \<and>
    (if takes x t \<and> on_default x then has t v h' r
     else h' = put_res r (x\<lparr>r_defaultValue := Some v, r_defaultType := t\<rparr>) h) \<and> evolves same_links h h' \<and>
    res_GetDefaultDataType h' r = Some t"
proof -
  define f where "f = (\<lambda>x :: res_Resource_t. x\<lparr>r_defaultValue := Some v, r_defaultType := t\<rparr>)"
  have vf: "value_ok (nextBuff h) (f x)"
    using values_okD [OF hub_okD(5) [OF assms(1)] assms(3)] assms(4) by (simp add: value_ok_def f_def)
  have l: "same_links x (f x)" by (simp add: same_defs f_def)
  note h1 = update_setting [where f = f, OF assms(1,3) l vf]
  let ?h1 = "put_res r (f x) h"
  have r1: "resources ?h1 r = Some (f x)" "\<And>t. takes (f x) t = takes x t" by (simp_all add: f_def takes_def)
  obtain h2 where h2: "update_current L r t v ?h1 = Some h2" "hub_ok L h2" "stirs (reach ?h1 r) ?h1 h2"
    "if takes (f x) t then has t v h2 r else h2 = ?h1"
    using update_current_ok [OF assms(2) h1(2) r1(1) assms(4)] by blast
  have pushed: "(if r_pushedValue (f x) = None then Some False else IsAcceptable ?h1 r (r_pushedType (f x))) =
      Some (r_pushedValue x \<noteq> None \<and> takes x (r_pushedType x))"
    using IsAcceptable_ok [OF h1(2) r1(1)] r1(2) by (simp add: f_def)
  have "res_IsOverridden ?h1 r = Some (r_overrideValue x \<noteq> None \<and> takes x (r_overrideType x))"
    using IsOverridden_ok [OF h1(2) r1(1)] r1(2) by (simp add: f_def)
  then have e: "res_SetDefault L r t v h = Some (if takes x t \<and> on_default x then h2 else ?h1)"
    unfolding res_SetDefault_def f_def [symmetric]
    using h1(1) IsAcceptable_ok [OF h1(2) r1(1), of t] r1 h2(1) pushed by (auto simp: on_default_def)
  show ?thesis
  proof (cases "takes x t \<and> on_default x")
    case True
    obtain z where "resources h2 r = Some z" "same_shape (f x) z"
      using evolves_Some [OF stirs_evolves [OF h2(3)] r1(1)] by metis
    then show ?thesis
      using e True h2(2,4) r1(2) links_trans [OF h1(4) shape_links [OF stirs_evolves [OF h2(3)]]]
      by (auto simp: res_GetDefaultValue_def res_GetDefaultDataType_def same_defs f_def)
  next
    case False
    then show ?thesis using e h1(2,4) r1(1) by (auto simp: res_GetDefaultValue_def res_GetDefaultDataType_def f_def)
  qed
qed

subsection \<open>Properties\<close>

text \<open>
  C22: while an override of a fitting type is set for an input, an output or a placeholder that is not
  suspended, a push does not show: the current value is the override's value with the time of the pushed sample, whatever was
  pushed and in whatever units. (A suspended resource keeps its current value, see \<open>suspended_push_recorded\<close>;
  an observation filters and transforms what is pushed first.)
\<close>

theorem override_hides_pushes:
  assumes "hub_ok L h" "framework_ok L" "resources h r = Some x" "sample_fine t s"
    "r_overrideValue x = Some v" "takes x (r_overrideType x)" "\<not> r_isConfigChanging x"
    "\<forall>ob. r_sub x \<noteq> Observation ob"
  shows "\<exists>h'. res_Push L r t u s h = Some h' \<and> hub_ok L h' \<and>
    has (r_overrideType x) (dataSample_SetTimestamp v (dataSample_GetTimestamp s)) h' r"
  using assms by (rule push_overridden)

text \<open>
  C21: when an override is removed, the current value becomes the value that was pushed last, if its
  type fits the resource, or else the default, if its type fits; otherwise nothing but the override
  changes, so that the override's value stays the current one.
\<close>

theorem RemoveOverride_restores:
  assumes "hub_ok L h" "framework_ok L" "resources h r = Some x" "r_overrideValue x \<noteq> None"
  shows "\<exists>h'. res_RemoveOverride L r h = Some h' \<and> hub_ok L h' \<and> res_HasOverride h' r = Some False \<and>
    (case fallback x of
       Some (t, s) \<Rightarrow> has t s h' r
     | None \<Rightarrow> h' = put_res r (x\<lparr>r_overrideValue := None\<rparr>) h)"
  using RemoveOverride_ok [OF assms] by blast

text \<open>
  A default shows at once, and only then, if its type fits and there is neither a fitting override
  nor a fitting pushed value; it is recorded in any case.
\<close>

theorem SetDefault_shows:
  assumes "hub_ok L h" "framework_ok L" "resources h r = Some x" "sample_fine t v"
  shows "\<exists>h'. res_SetDefault L r t v h = Some h' \<and> hub_ok L h' \<and> res_GetDefaultValue h' r = Some (Some v) \<and>
    (if takes x t \<and> on_default x then has t v h' r
     else h' = put_res r (x\<lparr>r_defaultValue := Some v, r_defaultType := t\<rparr>) h)"
  using SetDefault_ok [OF assms] by blast

text \<open>
  A push to a resource whose configuration is changing is recorded as the pushed value and has no
  other effect.
\<close>

theorem suspended_push_recorded:
  assumes "hub_ok L h" "resources h r = Some x" "r_isConfigChanging x" "\<forall>ob. r_sub x \<noteq> Observation ob"
  shows "res_Push L r t u s h = Some (put_res r (x\<lparr>r_pushedType := t, r_pushedValue := Some s\<rparr>) h)"
  using assms by (rule push_suspended)

subsection \<open>Instances\<close>

definition overridden_res :: res_Resource_t where
  "overridden_res = second_res\<lparr>r_overrideValue := Some (number_at 1 5), r_overrideType := IO_DATA_TYPE_NUMERIC,
     r_pushedValue := Some (number_at 2 6), r_pushedType := IO_DATA_TYPE_NUMERIC\<rparr>"

lemma number_fine [simp]: "sample_fine IO_DATA_TYPE_NUMERIC (number_at a b)"
  by (simp add: sample_fine_def sample_ok_def number_at_def fits_def)

lemma overridden_hub_ok: "hub_ok sample_legato (route_hub overridden_res)"
  by (rule route_hub_ok) (simp_all add: value_ok_def same_defs overridden_res_def second_res_def res_Construct_def)

lemma second_res_kind [simp]: "r_sub second_res = Placeholder" "r_isConfigChanging second_res = False"
  by (simp_all add: second_res_def res_Construct_def)

lemma override_hides_pushes_witness:
  "\<exists>h'. res_Push sample_legato 1 IO_DATA_TYPE_NUMERIC (Some ''V'') (number_at 3 7) (route_hub overridden_res) = Some h' \<and>
     has IO_DATA_TYPE_NUMERIC (number_at 3 5) h' 1"
proof -
  have "dataSample_SetTimestamp (number_at 1 5) (dataSample_GetTimestamp (number_at 3 7)) = number_at 3 5"
    by (simp add: number_at_def dataSample_SetTimestamp_def dataSample_GetTimestamp_def)
  then show ?thesis
    using override_hides_pushes [OF overridden_hub_ok sample_framework_ok route_hub_simps(2) number_fine,
        of "number_at 1 5" "Some ''V''" 3 7]
    by (auto simp: overridden_res_def takes_def)
qed

lemma RemoveOverride_restores_witness:
  "\<exists>h'. res_RemoveOverride sample_legato 1 (route_hub overridden_res) = Some h' \<and>
     has IO_DATA_TYPE_NUMERIC (number_at 2 6) h' 1"
proof -
  have "fallback overridden_res = Some (IO_DATA_TYPE_NUMERIC, number_at 2 6)"
    by (simp add: fallback_def overridden_res_def takes_def)
  then show ?thesis
    using RemoveOverride_restores [OF overridden_hub_ok sample_framework_ok route_hub_simps(2)]
    by (auto simp: overridden_res_def)
qed

lemma SetDefault_shows_witness:
  "\<exists>h'. res_SetDefault sample_legato 1 IO_DATA_TYPE_NUMERIC (number_at 3 7) (route_hub second_res) = Some h' \<and>
     has IO_DATA_TYPE_NUMERIC (number_at 3 7) h' 1"
proof -
  have "on_default second_res" by (simp add: on_default_def second_res_def res_Construct_def)
  then show ?thesis
    using SetDefault_shows [OF second_res_ok sample_framework_ok route_hub_simps(2) number_fine, of 3 7]
    by (auto simp: takes_def)
qed

lemma suspended_push_recorded_witness:
  "\<exists>h'. res_Push sample_legato 1 IO_DATA_TYPE_NUMERIC None (number_at 3 7)
       (route_hub (second_res\<lparr>r_isConfigChanging := True\<rparr>)) = Some h' \<and> res_GetCurrentValue h' 1 = Some None"
proof -
  have "hub_ok sample_legato (route_hub (second_res\<lparr>r_isConfigChanging := True\<rparr>))"
    by (rule route_hub_ok) (simp_all add: value_ok_def same_defs second_res_def res_Construct_def)
  then show ?thesis
    using suspended_push_recorded [of sample_legato _ 1 "second_res\<lparr>r_isConfigChanging := True\<rparr>"
        IO_DATA_TYPE_NUMERIC None "number_at 3 7"]
    by (simp add: res_GetCurrentValue_def second_res_def res_Construct_def)
qed

end
