(* ===== verification/RouteSpec.thy ===== *)
theory RouteSpec
  imports Settings
begin

text \<open>
  Routes: setting the source of a resource is an update of the forest of sources, refused when it would
  close a loop of two or more resources; the invariant of the hub is kept but for a route of a resource to
  itself, JSON examples are handed on along the new route.
\<close>

subsection \<open>Reachability\<close>

lemma can_get_there_reach:
  assumes "routes_ok h" "numbered h" "resources h here \<noteq> None" "below_count (routes (source h)) here < n"
  shows "can_get_there n h there here = Some ((here, there) \<in> (routes (source h))\<^sup>+)"
  using assms(3,4)
proof (induction n arbitrary: here)
  case (Suc n)
  obtain x where x: "resources h here = Some x" using Suc.prems(1) by auto
  have links: "links_ok h" using assms(1) by (simp add: routes_ok_def)
  have edge: "d \<in> set (r_destList x) \<longleftrightarrow> (here, d) \<in> routes (source h)" for d
    using links_ok_dest [OF links x] by (simp add: routes_def)
  have "any_option (\<lambda>d. if d = there then Some True else can_get_there n h there d) (r_destList x) =
      Some (\<exists>d \<in> set (r_destList x). d = there \<or> (d, there) \<in> (routes (source h))\<^sup>+)"
  proof (rule any_option_total)
    fix d
    assume "d \<in> set (r_destList x)"
    then have src: "source h d = Some here" using links_okD(2) [OF links x] by blast
    have "below_count (routes (source h)) d < n" using depth_less [OF assms(1,2) src] Suc.prems(2) by simp
    then have "can_get_there n h there d = Some ((d, there) \<in> (routes (source h))\<^sup>+)"
      using Suc.IH source_live(1) [OF links src] by blast
    then show "(if d = there then Some True else can_get_there n h there d) =
        Some (d = there \<or> (d, there) \<in> (routes (source h))\<^sup>+)" by simp
  qed
  moreover have "(here, there) \<in> (routes (source h))\<^sup>+ \<longleftrightarrow>
      (\<exists>d. (here, d) \<in> routes (source h) \<and> (d, there) \<in> (routes (source h))\<^sup>*)"
    by (auto simp: trancl_unfold_left)
  ultimately show ?case using x edge by (simp add: rtrancl_eq_or_trancl) blast
qed simp

lemma CanGetThereFromHere_reach:
  assumes "routes_ok h" "numbered h" "resources h here \<noteq> None"
  shows "CanGetThereFromHere h there here = Some ((here, there) \<in> (routes (source h))\<^sup>+)"
proof -
  have "links_ok h" using assms(1) by (simp add: routes_ok_def)
  then show ?thesis
    unfolding CanGetThereFromHere_def using can_get_there_reach [OF assms] depth_bound [OF _ assms(2)] by blast
qed

subsection \<open>Linking\<close>

lemma dests_put [simp]: "dests (put_res r y h) = (dests h)(r := r_destList y)"
  by (simp add: dests_def fun_eq_iff)

lemma source_put [simp]: "source (put_res r y h) = (source h)(r := r_srcPtr y)"
  by (simp add: source_def fun_eq_iff)

lemma place_ok:
  "hub_ok L h \<Longrightarrow> evolves same_place h h' \<Longrightarrow> values_ok h' \<Longrightarrow> routes_ok h' \<Longrightarrow> hub_ok L h'"
  by (simp add: hub_ok_def evolves_tree evolves_attached evolves_numbered)

lemma place_trans: "evolves same_place h h1 \<Longrightarrow> evolves same_place h1 h2 \<Longrightarrow> evolves same_place h h2"
  by (rule evolves_trans [of same_place]) (auto intro: same_trans)

lemma update_link:
  assumes "resources h r = Some x" "values_ok h" "f x = x\<lparr>r_destList := ds, r_srcPtr := src\<rparr>"
  shows "update_res r f h = Some (put_res r (f x) h)" "evolves same_place h (put_res r (f x) h)"
    "values_ok (put_res r (f x) h)" "dests (put_res r (f x) h) = (dests h)(r := ds)"
    "source (put_res r (f x) h) = (source h)(r := src)"
proof -
  show "update_res r f h = Some (put_res r (f x) h)" using assms(1) by (simp add: update_res_def)
  have "same_place x (f x)" using assms(3) by (simp add: same_defs)
  then show "evolves same_place h (put_res r (f x) h)"
    using update_res_evolves [of h r x same_place f] assms(1) by simp
  show "values_ok (put_res r (f x) h)"
    using values_put_res [OF assms(2)] values_okD [OF assms(2,1)] assms(3) by (simp add: value_ok_def)
qed (simp_all add: assms(3))

lemma unlink_ok:
  assumes "links_ok h" "values_ok h" "source h dest = Some src"
  shows "\<exists>h'. unlink_dest src dest h = Some h' \<and> evolves same_place h h' \<and> values_ok h' \<and> links_ok h' \<and>
    source h' = (source h)(dest := None)"
proof -
  obtain y where y: "resources h src = Some y" using source_live(2) [OF assms(1,3)] by auto
  have d: "dest \<in> set (r_destList y)" "distinct (r_destList y)"
    using links_ok_dest [OF assms(1) y] assms(3) links_okD(1) [OF assms(1) y] by simp_all
  let ?f = "\<lambda>y. y\<lparr>r_destList := remove1 dest (r_destList y)\<rparr>" and ?g = "\<lambda>x. x\<lparr>r_srcPtr := None\<rparr>"
  have fy: "?f y = y\<lparr>r_destList := remove1 dest (r_destList y), r_srcPtr := r_srcPtr y\<rparr>" by simp
  note 1 = update_link [where f = ?f, OF y assms(2) fy]
  let ?h1 = "put_res src (?f y) h"
  obtain x where x: "resources ?h1 dest = Some x"
    using source_live(1) [OF assms(1,3)] by (cases "dest = src") auto
  have gx: "?g x = x\<lparr>r_destList := r_destList x, r_srcPtr := None\<rparr>" by simp
  note 2 = update_link [where f = ?g, OF x 1(3) gx]
  let ?h2 = "put_res dest (?g x) ?h1"
  have "unlink_dest src dest h = Some ?h2"
    using y d(1) 1(1) 2(1) by (simp add: unlink_dest_def)
  moreover have dests: "dests ?h2 = (dests h)(src := remove1 dest (dests h src))"
    unfolding 2(4) 1(4) using dests_Some [OF x] unfolding 1(4) using y by (auto simp: fun_eq_iff)
  moreover have source: "source ?h2 = (source h)(dest := None)"
    unfolding 2(5) 1(5) using y by (auto simp: fun_eq_iff)
  moreover have "links_ok ?h2"
    using assms(1,3) unfolding links_ok_def dests source by (auto simp del: dests_Some)
  ultimately show ?thesis using place_trans [OF 1(2) 2(2)] 2(3) by blast
qed

lemma link_ok:
  assumes "links_ok h" "values_ok h" "source h dest = None" "resources h src \<noteq> None" "resources h dest \<noteq> None"
  shows "\<exists>h'. link_dest src dest h = Some h' \<and> evolves same_place h h' \<and> values_ok h' \<and> links_ok h' \<and>
    source h' = (source h)(dest \<mapsto> src)"
proof -
  obtain y where y: "resources h src = Some y" using assms(4) by auto
  let ?f = "\<lambda>y. y\<lparr>r_destList := r_destList y @ [dest]\<rparr>" and ?g = "\<lambda>x. x\<lparr>r_srcPtr := Some src\<rparr>"
  have fy: "?f y = y\<lparr>r_destList := r_destList y @ [dest], r_srcPtr := r_srcPtr y\<rparr>" by simp
  note 1 = update_link [where f = ?f, OF y assms(2) fy]
  let ?h1 = "put_res src (?f y) h"
  obtain x where x: "resources ?h1 dest = Some x" using assms(5) by (cases "dest = src") auto
  have gx: "?g x = x\<lparr>r_destList := r_destList x, r_srcPtr := Some src\<rparr>" by simp
  note 2 = update_link [where f = ?g, OF x 1(3) gx]
  let ?h2 = "put_res dest (?g x) ?h1"
  have "link_dest src dest h = Some ?h2" using 1(1) 2(1) by (simp add: link_dest_def)
  moreover have dests: "dests ?h2 = (dests h)(src := dests h src @ [dest])"
    unfolding 2(4) 1(4) using dests_Some [OF x] unfolding 1(4) using y by (auto simp: fun_eq_iff)
  moreover have source: "source ?h2 = (source h)(dest \<mapsto> src)"
    unfolding 2(5) 1(5) using y by (auto simp: fun_eq_iff)
  moreover have "links_ok ?h2"
    using assms(1,3) unfolding links_ok_def dests source by (auto simp del: dests_Some)
  ultimately show ?thesis using place_trans [OF 1(2) 2(2)] 2(3) by blast
qed

subsection \<open>JSON examples along routes\<close>

lemma example_delivery:
  assumes "\<And>h d. hub_ok L h \<Longrightarrow> ready h d \<Longrightarrow>
      \<exists>h'. set_json_example n d example h = Some h' \<and> hub_ok L h' \<and> evolves same_shape h h'"
    "\<And>h h' d. evolves same_shape h h' \<Longrightarrow> ready h d \<Longrightarrow> ready h' d" "\<And>h d. ready h d \<Longrightarrow> resources h d \<noteq> None"
  shows "delivery (\<lambda>d h. do {
         ok \<leftarrow> IsAcceptable h d IO_DATA_TYPE_JSON;
         if ok then set_json_example n d example h else Some h
       }) (hub_ok L) ready (evolves same_shape)"
proof
  fix h d
  assume a: "hub_ok L h" "ready h d"
  then obtain x where "resources h d = Some x" using assms(3) by blast
  then have "IsAcceptable h d IO_DATA_TYPE_JSON = Some (takes x IO_DATA_TYPE_JSON)"
    using IsAcceptable_ok [OF a(1)] by blast
  then show "\<exists>h'. (do {
         ok \<leftarrow> IsAcceptable h d IO_DATA_TYPE_JSON;
         if ok then set_json_example n d example h else Some h
       }) = Some h' \<and> hub_ok L h' \<and> evolves same_shape h h'"
    using assms(1) [OF a] a(1) evolves_refl [of same_shape h] by auto
qed (use assms(2) in \<open>auto intro: shape_trans evolves_refl\<close>)

lemma set_json_example_ok:
  assumes "hub_ok L h" "resources h r \<noteq> None" "sample_fine IO_DATA_TYPE_JSON example"
    "below_count (routes (source h)) r < n"
  shows "\<exists>h'. set_json_example n r example h = Some h' \<and> hub_ok L h' \<and> evolves same_shape h h'"
  using assms(1,2,4)
proof (induction n arbitrary: h r)
  case (Suc n)
  obtain x where x: "resources h r = Some x" using Suc.prems(2) by auto
  define f where "f = (\<lambda>x :: res_Resource_t. x\<lparr>r_jsonExample := Some example\<rparr>)"
  have vf: "value_ok (nextBuff h) (f x)"
    using values_okD [OF hub_okD(5) [OF Suc.prems(1)] x] assms(3) by (simp add: value_ok_def f_def)
  have "same_shape x (f x)" by (simp add: same_defs f_def)
  note h1 = update_res_shape [where f = f, OF Suc.prems(1) x this vf]
  let ?h1 = "put_res r (f x) h"
  define ready where "ready = (\<lambda>h d. resources h d \<noteq> None \<and> below_count (routes (source h)) d < n)"
  have stable: "ready h' d" if "evolves same_shape h h'" "ready h d" for h h' d
    using that(2) evolves_live [OF that(1), of d] evolves_links(2) [OF evolves_mono [OF that(1) same_shape_links]]
    by (simp add: ready_def del: not_None_eq)
  have del: "delivery (\<lambda>d h. do {
         ok \<leftarrow> IsAcceptable h d IO_DATA_TYPE_JSON;
         if ok then set_json_example n d example h else Some h
       }) (hub_ok L) ready (evolves same_shape)"
    by (rule example_delivery [OF _ stable]) (simp_all add: ready_def Suc.IH)
  have "ready ?h1 d" if "d \<in> set (r_destList x)" for d
  proof -
    have src: "source h d = Some r" using links_okD(2) [OF hub_okD(6) [OF Suc.prems(1)] x that] .
    then have "resources h d \<noteq> None" using source_live(1) [OF hub_okD(6) [OF Suc.prems(1)]] by blast
    then have "resources ?h1 d \<noteq> None" using stirs_live [OF h1(3), of d] by simp
    moreover have "below_count (routes (source h)) d < n"
      using depth_less [OF hub_okD(3,4) [OF Suc.prems(1)] src] Suc.prems(3) by simp
    ultimately show ?thesis using stirs_source [OF h1(3)] by (simp add: ready_def)
  qed
  then obtain h2 where "set_json_example (Suc n) r example h = Some h2" "hub_ok L h2" "evolves same_shape ?h1 h2"
    using delivery.all_delivered [OF del h1(2), of "r_destList x"] x by (auto simp: f_def)
  then show ?case using shape_trans [OF stirs_evolves [OF h1(3)]] by blast
qed simp

lemma SetJsonExample_ok:
  assumes "hub_ok L h" "resources h r \<noteq> None" "sample_fine IO_DATA_TYPE_JSON example"
  shows "\<exists>h'. res_SetJsonExample r example h = Some h' \<and> hub_ok L h' \<and> evolves same_shape h h'"
  using set_json_example_ok [OF assms] depth_bound [OF hub_okD(6,4) [OF assms(1)]]
  unfolding res_SetJsonExample_def by blast

subsection \<open>Setting a source\<close>

text \<open>The abstract operation on the forest of sources.\<close>

definition set_source :: "rid \<Rightarrow> rid option \<Rightarrow> (rid \<Rightarrow> rid option) \<Rightarrow> le_result_t \<times> (rid \<Rightarrow> rid option)" where
  "set_source dest src f =
     (if f dest = src then (LE_OK, f)
      else case src of
        None \<Rightarrow> (LE_OK, f(dest := None))
      | Some s \<Rightarrow>
          if (dest, s) \<in> (routes (f(dest := None)))\<^sup>+ then (LE_DUPLICATE, f(dest := None))
          else (LE_OK, f(dest \<mapsto> s)))"

lemma routes_clear: "routes (f(d := None)) \<subseteq> routes f"
  by (auto simp: routes_def split: if_splits)

lemma routes_set: "routes (f(d \<mapsto> s)) = insert (s, d) (routes (f(d := None)))"
  by (auto simp: routes_def split: if_splits)

lemma mark_changing_ok:
  assumes "hub_ok L h" "resources h r \<noteq> None"
  shows "\<exists>h'. mark_changing r h = Some h' \<and> hub_ok L h' \<and> evolves same_links h h'"
proof (cases "IsUpdateInProgress h")
  case True
  obtain x where x: "resources h r = Some x" using assms(2) by auto
  define f where "f = (\<lambda>x :: res_Resource_t. x\<lparr>r_isConfigChanging := True\<rparr>)"
  have vf: "value_ok (nextBuff h) (f x)"
    using values_okD [OF hub_okD(5) [OF assms(1)] x] by (simp add: value_ok_def f_def)
  have l: "same_links x (f x)" by (simp add: same_defs f_def)
  show ?thesis
    using update_setting(1,2) [where f = f, OF assms(1) x l vf] update_res_evolves [of h r x same_links f] l x True
    unfolding mark_changing_def f_def [symmetric] by auto
next
  case False
  then show ?thesis using assms(1) evolves_refl [of same_links h] by (simp add: mark_changing_def)
qed

lemma connect_source_ok:
  assumes "hub_ok L h" "source h dest = None" "resources h s \<noteq> None" "resources h dest \<noteq> None" "s \<noteq> dest"
  shows "\<exists>res h'. connect_source dest s h = Some (res, h') \<and> hub_ok L h' \<and> evolves same_place h h' \<and>
    (if (dest, s) \<in> (routes (source h))\<^sup>+ then res = LE_DUPLICATE \<and> h' = h
     else res = LE_OK \<and> source h' = (source h)(dest \<mapsto> s))"
proof (cases "(dest, s) \<in> (routes (source h))\<^sup>+")
  case True
  then have "connect_source dest s h = Some (LE_DUPLICATE, h)"
    using CanGetThereFromHere_reach [OF hub_okD(3,4) [OF assms(1)] assms(4)] by (simp add: connect_source_def)
  then show ?thesis using True assms(1) evolves_refl [of same_place h] by simp
next
  case False
  obtain h1 where h1: "link_dest s dest h = Some h1" "evolves same_place h h1" "values_ok h1" "links_ok h1"
    "source h1 = (source h)(dest \<mapsto> s)"
    using link_ok [OF hub_okD(6,5) [OF assms(1)] assms(2-4)] by blast
  have "(dest, s) \<notin> (routes (source h))\<^sup>*" using False assms(5) by (auto simp: rtrancl_eq_or_trancl)
  moreover have "(source h)(dest := None) = source h" using assms(2) by auto
  ultimately have "acyclic (routes (source h1))"
    using hub_okD(3) [OF assms(1)] h1(5) routes_set [of "source h" dest s] by (simp add: routes_ok_def)
  then have ok1: "hub_ok L h1"
    using place_ok [OF assms(1) h1(2,3)] h1(4) by (simp add: routes_ok_def)
  obtain y x where y: "resources h1 s = Some y" and x: "resources h1 dest = Some x"
    using assms(3,4) evolves_live [OF h1(2), of s] evolves_live [OF h1(2), of dest] by auto
  let ?hand = "case r_jsonExample y of None \<Rightarrow> Some h1
     | Some example \<Rightarrow> do {
         ok \<leftarrow> IsAcceptable h1 dest IO_DATA_TYPE_JSON;
         if ok then res_SetJsonExample dest example h1 else Some h1
       }"
  obtain h2 where h2: "?hand = Some h2" "hub_ok L h2" "evolves same_shape h1 h2"
  proof (cases "r_jsonExample y")
    case None
    then show thesis using that ok1 evolves_refl [of same_shape h1] by simp
  next
    case (Some example)
    then have "sample_fine IO_DATA_TYPE_JSON example"
      using values_okD [OF h1(3) y] by (simp add: value_ok_def)
    then obtain h3 where "res_SetJsonExample dest example h1 = Some h3" "hub_ok L h3" "evolves same_shape h1 h3"
      using SetJsonExample_ok [OF ok1, of dest example] x by blast
    then show thesis
      using that Some IsAcceptable_ok [OF ok1 x, of IO_DATA_TYPE_JSON] ok1 evolves_refl [of same_shape h1]
      by (cases "takes x IO_DATA_TYPE_JSON") auto
  qed
  have live2: "resources h2 s \<noteq> None" "resources h2 dest \<noteq> None" using x y evolves_live [OF h2(3)] by auto
  obtain h3 where h3: "mark_changing s h2 = Some h3" "hub_ok L h3" "evolves same_links h2 h3"
    using mark_changing_ok [OF h2(2) live2(1)] by blast
  have "resources h3 dest \<noteq> None" using live2(2) evolves_live [OF h3(3), of dest] by simp
  then obtain h4 where h4: "mark_changing dest h3 = Some h4" "hub_ok L h4" "evolves same_links h3 h4"
    using mark_changing_ok [OF h3(2)] by blast
  have ev: "evolves same_links h1 h4" using links_trans [OF links_trans [OF shape_links [OF h2(3)] h3(3)] h4(3)] .
  have "connect_source dest s h = Some (LE_OK, h4)"
    using CanGetThereFromHere_reach [OF hub_okD(3,4) [OF assms(1)] assms(4)] False h1(1) y h2(1) h3(1) h4(1)
    by (simp add: connect_source_def)
  moreover have "evolves same_place h h4"
    using place_trans [OF h1(2) links_place [OF ev]] .
  ultimately show ?thesis using False h4(2) evolves_links(2) [OF ev] h1(5) by auto
qed

lemma clear_source_ok:
  assumes "hub_ok L h" "framework_ok L" "resources h dest \<noteq> None"
  shows "\<exists>h'. clear_source L dest h = Some (LE_OK, h') \<and> hub_ok L h' \<and> evolves same_shape h h'"
proof -
  obtain x where x: "resources h dest = Some x" using assms(3) by auto
  obtain t where "entry_type_of h dest = Some t" by (rule kindE [OF hub_okD(2) [OF assms(1)] x])
  then show ?thesis
    using SetUnits_ok [OF assms, of "[]"] assms(1) evolves_refl [of same_shape h] stirs_evolves
    by (fastforce simp: clear_source_def)
qed

lemma SetSource_ok:
  assumes "hub_ok L h" "framework_ok L" "resources h dest \<noteq> None" "\<forall>s. src = Some s \<longrightarrow> resources h s \<noteq> None \<and> s \<noteq> dest"
  shows "\<exists>res h'. res_SetSource L dest src h = Some (res, h') \<and> hub_ok L h' \<and> evolves same_place h h' \<and>
    (res, source h') = set_source dest src (source h)"
proof -
  obtain x where x: "resources h dest = Some x" using assms(3) by auto
  show ?thesis
  proof (cases "r_srcPtr x = src")
    case True
    then have "res_SetSource L dest src h = Some (LE_OK, h)" using x by (simp add: res_SetSource_def)
    then show ?thesis using True x assms(1) evolves_refl [of same_place h] by (simp add: set_source_def)
  next
    case False
    obtain h1 where h1: "(case r_srcPtr x of None \<Rightarrow> Some h | Some old \<Rightarrow> unlink_dest old dest h) = Some h1"
      "evolves same_place h h1" "values_ok h1" "links_ok h1" "source h1 = (source h)(dest := None)"
    proof (cases "r_srcPtr x")
      case None
      then have "source h = (source h)(dest := None)" using x by auto
      then show thesis using that [of h] None hub_okD(5,6) [OF assms(1)] evolves_refl [of same_place h] by simp
    next
      case (Some old)
      then show thesis using that unlink_ok [OF hub_okD(6,5) [OF assms(1)], of dest old] x by auto
    qed
    have "acyclic (routes (source h1))"
      using hub_okD(3) [OF assms(1)] acyclic_subset [OF _ routes_clear] h1(5) by (auto simp: routes_ok_def)
    then have ok1: "hub_ok L h1" using place_ok [OF assms(1) h1(2,3)] h1(4) by (simp add: routes_ok_def)
    have d1: "source h1 dest = None" "resources h1 dest \<noteq> None"
      using h1(5) assms(3) evolves_live [OF h1(2), of dest] by auto
    show ?thesis
    proof (cases src)
      case None
      obtain h2 where h2: "clear_source L dest h1 = Some (LE_OK, h2)" "hub_ok L h2" "evolves same_shape h1 h2"
        using clear_source_ok [OF ok1 assms(2) d1(2)] by blast
      then have "evolves same_place h h2" "source h2 = source h1"
        using place_trans [OF h1(2) links_place [OF shape_links [OF h2(3)]]]
          evolves_links(2) [OF shape_links [OF h2(3)]] by blast+
      moreover have "res_SetSource L dest src h = Some (LE_OK, h2)"
        unfolding res_SetSource_def using x False None h1(1) h2(1) by auto
      ultimately show ?thesis using h2(2) h1(5) False None x by (auto simp: set_source_def)
    next
      case (Some s)
      have s: "resources h1 s \<noteq> None" "s \<noteq> dest" using assms(4) Some evolves_live [OF h1(2), of s] by auto
      obtain res h2 where h2: "connect_source dest s h1 = Some (res, h2)" "hub_ok L h2" "evolves same_place h1 h2"
        "if (dest, s) \<in> (routes (source h1))\<^sup>+ then res = LE_DUPLICATE \<and> h2 = h1
         else res = LE_OK \<and> source h2 = (source h1)(dest \<mapsto> s)"
        using connect_source_ok [OF ok1 d1(1) s(1) d1(2) s(2)] by blast
      have "res_SetSource L dest src h = Some (res, h2)"
        using x False Some h1(1) h2(1) by (simp add: res_SetSource_def)
      moreover have "(res, source h2) = set_source dest src (source h)"
        using h2(4) h1(5) False Some x by (auto simp: set_source_def)
      ultimately show ?thesis using h2(2) place_trans [OF h1(2) h2(3)] by blast
    qed
  qed
qed

subsection \<open>A route from a resource to itself\<close>

lemma mark_changing_source:
  assumes "resources h r \<noteq> None"
  shows "\<exists>h'. mark_changing r h = Some h' \<and> source h' = source h \<and> (\<forall>q. resources h' q \<noteq> None \<longleftrightarrow> resources h q \<noteq> None)"
  using assms by (auto simp: mark_changing_def update_res_def put_res_def source_def fun_eq_iff)

lemma self_connect:
  assumes "hub_ok L h" "source h r = None" "resources h r = Some x" "r_jsonExample x = None"
  shows "\<exists>h'. connect_source r r h = Some (LE_OK, h') \<and> source h' = (source h)(r \<mapsto> r)"
proof -
  obtain h1 where h1: "link_dest r r h = Some h1" "source h1 = (source h)(r \<mapsto> r)"
    using link_ok [OF hub_okD(6,5) [OF assms(1)] assms(2), of r] assms(3) by auto
  obtain y where y: "resources h1 r = Some y" "r_jsonExample y = None"
    using h1(1) assms(3,4) by (auto simp: link_dest_def update_res_def put_res_def split: bind_splits)
  have live: "resources h1 r \<noteq> None" using y(1) by simp
  obtain h2 where h2: "mark_changing r h1 = Some h2" "source h2 = source h1" "resources h2 r \<noteq> None"
    using mark_changing_source [OF live] live by blast
  obtain h3 where h3: "mark_changing r h2 = Some h3" "source h3 = source h2"
    using mark_changing_source [OF h2(3)] by blast
  have "(r, r) \<notin> (routes (source h))\<^sup>+" using hub_okD(3) [OF assms(1)] by (simp add: routes_ok_def acyclic_def)
  then have "CanGetThereFromHere h r r = Some False"
    using CanGetThereFromHere_reach [OF hub_okD(3,4) [OF assms(1)], of r r] assms(3) by simp
  then have "connect_source r r h = Some (LE_OK, h3)"
    using h1(1) y h2(1) h3(1) by (simp add: connect_source_def)
  then show ?thesis using h1(2) h2(2) h3(2) by simp
qed

lemma self_source:
  assumes "hub_ok L h" "resources h r = Some x" "r_jsonExample x = None"
  shows "\<exists>h'. res_SetSource L r (Some r) h = Some (LE_OK, h') \<and> source h' = (source h)(r \<mapsto> r) \<and> \<not> hub_ok L h'"
proof -
  have ns: "r_srcPtr x \<noteq> Some r"
  proof
    assume "r_srcPtr x = Some r"
    then have "(r, r) \<in> (routes (source h))\<^sup>+" using assms(2) by (auto simp: routes_def source_def)
    then show False using hub_okD(3) [OF assms(1)] by (auto simp: routes_ok_def acyclic_def)
  qed
  obtain h1 where h1: "(case r_srcPtr x of None \<Rightarrow> Some h | Some old \<Rightarrow> unlink_dest old r h) = Some h1"
    "hub_ok L h1" "source h1 = (source h)(r := None)" "\<exists>y. resources h1 r = Some y \<and> r_jsonExample y = None"
  proof (cases "r_srcPtr x")
    case None
    then have "source h = (source h)(r := None)" using assms(2) by auto
    then show thesis using that [of h] None assms by simp
  next
    case (Some old)
    obtain h1 where h1: "unlink_dest old r h = Some h1" "evolves same_place h h1" "values_ok h1" "links_ok h1"
      "source h1 = (source h)(r := None)"
      using unlink_ok [OF hub_okD(6,5) [OF assms(1)], of r old] Some assms(2) by auto
    have "acyclic (routes (source h1))"
      using hub_okD(3) [OF assms(1)] acyclic_subset [OF _ routes_clear] h1(5) by (auto simp: routes_ok_def)
    then have "hub_ok L h1" using place_ok [OF assms(1) h1(2,3)] h1(4) by (simp add: routes_ok_def)
    moreover have "\<exists>y. resources h1 r = Some y \<and> r_jsonExample y = None"
      using h1(1) assms(2,3) by (auto simp: unlink_dest_def update_res_def put_res_def split: bind_splits if_splits)
    ultimately show thesis using that Some h1(1,5) by simp
  qed
  obtain y where y: "resources h1 r = Some y" "r_jsonExample y = None" using h1(4) by blast
  have s1: "source h1 r = None" using h1(3) by simp
  obtain h2 where h2: "connect_source r r h1 = Some (LE_OK, h2)" "source h2 = (source h1)(r \<mapsto> r)"
    using self_connect [OF h1(2) s1 y] by blast
  have "res_SetSource L r (Some r) h = Some (LE_OK, h2)"
    using assms(2) ns h1(1) h2(1) by (simp add: res_SetSource_def)
  moreover have s2: "source h2 = (source h)(r \<mapsto> r)" using h2(2) h1(3) by simp
  moreover have "\<not> hub_ok L h2"
  proof
    assume "hub_ok L h2"
    then have "acyclic (routes (source h2))" using hub_okD(3) by (simp add: routes_ok_def)
    moreover have "(r, r) \<in> (routes (source h2))\<^sup>+" using s2 by (auto simp: routes_def)
    ultimately show False by (simp add: acyclic_def)
  qed
  ultimately show ?thesis by blast
qed

lemma set_source_self:
  assumes "hub_ok L h"
  shows "set_source r (Some r) (source h) = (LE_OK, (source h)(r \<mapsto> r))"
proof -
  have "(r, r) \<notin> (routes (source h))\<^sup>+" using hub_okD(3) [OF assms] by (simp add: routes_ok_def acyclic_def)
  then have "(r, r) \<notin> (routes ((source h)(r := None)))\<^sup>+"
    using trancl_mono [OF _ routes_clear] by blast
  moreover have "source h r \<noteq> Some r"
    using \<open>(r, r) \<notin> (routes (source h))\<^sup>+\<close> by (auto simp: routes_def)
  ultimately show ?thesis by (simp add: set_source_def)
qed

lemma entry_type_put:
  "resources h r = Some x \<Longrightarrow> r_entryRef y = r_entryRef x \<Longrightarrow> entry_type_of (put_res r y h) r = entry_type_of h r"
  by (simp add: entry_type_of_def resTree_GetEntryType_def)

lemma self_loop_push:
  assumes "resources h r = Some x" "r_entryRef x = Some e" "entry_type_of h r = Some ADMIN_ENTRY_TYPE_PLACEHOLDER"
    "r_overrideValue x = None" "\<not> r_isConfigChanging x" "r_destList x = [r]"
  shows "push_along n L r t u s h = None"
  using assms
proof (induction n arbitrary: h x u)
  case (Suc n)
  define y where "y = x\<lparr>r_pushedType := t, r_pushedValue := Some s\<rparr>"
  define w where "w = (if u = Some [] then None else u)"
  define z where "z = (case w of None \<Rightarrow> y | Some v \<Rightarrow> y\<lparr>r_units := snd (utf8_Copy L v HUB_MAX_UNITS_BYTES)\<rparr>)"
  define z' where "z' = z\<lparr>r_currentType := t, r_currentValue := Some s\<rparr>"
  define z'' where "z'' = (if t = IO_DATA_TYPE_JSON
             then (if r_jsonExample z' = None then z'\<lparr>r_jsonExample := Some s\<rparr> else z')
             else z'\<lparr>r_jsonExample := None\<rparr>)"
  have same: "r_entryRef v = Some e \<and> r_overrideValue v = None \<and> \<not> r_isConfigChanging v \<and> r_destList v = [r]"
    if "v \<in> {y, z, z', z''}" for v
    using Suc.prems that by (auto simp: y_def z_def z'_def z''_def split: option.splits if_splits)
  have type: "entry_type_of (put_res r v h) r = Some ADMIN_ENTRY_TYPE_PLACEHOLDER" if "v \<in> {y, z, z', z''}" for v
    using entry_type_put [OF Suc.prems(1), of v] same [OF that] Suc.prems(2,3) by simp
  have mem: "y \<in> {y, z, z', z''}" "z \<in> {y, z, z', z''}" "z'' \<in> {y, z, z', z''}" by simp_all
  have twice: "put_res r b (put_res r a h) = put_res r b h" for a b by (simp add: put_res_def)
  have "push_along n L r t v s (put_res r z'' h) = None" for v
    using Suc.IH [of "put_res r z'' h" z''] same [OF mem(3)] type [OF mem(3)] put_res_resources by simp
  then have "UpdateCurrentValue (push_along n L) L r t s (put_res r z h) = None"
    using type [OF mem(2)] same [OF mem(3)]
    by (simp add: UpdateCurrentValue_def IsAcceptable_def update_res_def twice z'_def [symmetric] z''_def [symmetric])
  moreover have "adapt L r t s w (put_res r y h) = Some (Some (t, s), put_res r z h)"
    using type [OF mem(1)] by (cases w) (simp_all add: adapt_def SetUnits_def update_res_def twice z_def)
  moreover have "overridden (put_res r y h) r t s w = Some (t, s, w)"
    using type [OF mem(1)] same [OF mem(1)] by (simp add: overridden_def res_IsOverridden_def)
  ultimately show ?case
    using Suc.prems(1-3,5)
    by (simp add: push_step_def push_taken_def Let_def update_res_def y_def [symmetric] w_def [symmetric])
qed simp

lemma self_route:
  assumes "hub_ok L h" "resources h r = Some x" "r_sub x = Placeholder" "r_srcPtr x = None" "r_destList x = []"
    "r_jsonExample x = None" "r_overrideValue x = None" "\<not> r_isConfigChanging x" "\<not> IsUpdateInProgress h"
  shows "\<exists>h'. res_SetSource L r (Some r) h = Some (LE_OK, h') \<and> (\<forall>n t u s. push_along n L r t u s h' = None)"
proof -
  obtain e y where at: "r_entryRef x = Some e" "entries h e = Some y" "e_resourcePtr y = Some r"
    "kind_ok (e_type y) (r_sub x)" "entry_type_of h r = Some (e_type y)"
    by (rule attachedE [OF hub_okD(2) [OF assms(1)] assms(2)])
  then have type: "entry_type_of h r = Some ADMIN_ENTRY_TYPE_PLACEHOLDER"
    using assms(3) by (auto elim: kind_ok_cases)
  let ?z = "x\<lparr>r_destList := [r], r_srcPtr := Some r\<rparr>"
  have "res_SetSource L r (Some r) h = Some (LE_OK, put_res r ?z h)"
    using assms(2,4-6,9)
    by (simp add: res_SetSource_def connect_source_def CanGetThereFromHere_def link_dest_def update_res_def
        mark_changing_def put_res_def)
  moreover have "push_along n L r t u s (put_res r ?z h) = None" for n t u s
    by (rule self_loop_push [of _ _ ?z e])
      (use at(1) type entry_type_put [OF assms(2), of ?z] assms(7,8) in simp_all)
  ultimately show ?thesis by blast
qed

subsection \<open>Properties\<close>

text \<open>
  C18: the search for a loop finds exactly the resources that are fed, directly or indirectly, by the
  one it starts from.
\<close>

theorem CanGetThereFromHere_reachable:
  assumes "hub_ok L h" "resources h here \<noteq> None"
  shows "CanGetThereFromHere h there here = Some ((here, there) \<in> (routes (source h))\<^sup>+)"
  using CanGetThereFromHere_reach [OF hub_okD(3,4) [OF assms(1)] assms(2)] .

text \<open>
  C3: setting a source implements the update of the forest of sources, with \<open>LE_DUPLICATE\<close> exactly when
  the source is another resource that is fed, directly or indirectly, by the destination (the old
  source is gone in that case, too). A route of a resource to itself is not refused, and is the only one
  that breaks the invariant of the hub; that the resource has no JSON example, which would be handed
  on to itself for ever, is supposed for such a route only.
\<close>

theorem SetSource_refines:
  assumes "hub_ok L h" "framework_ok L" "resources h dest \<noteq> None"
    "\<forall>s. src = Some s \<longrightarrow> resources h s \<noteq> None"
    "\<forall>x. src = Some dest \<longrightarrow> resources h dest = Some x \<longrightarrow> r_jsonExample x = None"
  shows "\<exists>res h'. res_SetSource L dest src h = Some (res, h') \<and>
    (res, source h') = set_source dest src (source h) \<and> (hub_ok L h' \<longleftrightarrow> src \<noteq> Some dest)"
proof (cases "src = Some dest")
  case True
  then show ?thesis using self_source [OF assms(1)] assms(3,5) set_source_self [OF assms(1)] by auto
next
  case False
  then have "\<forall>s. src = Some s \<longrightarrow> resources h s \<noteq> None \<and> s \<noteq> dest" using assms(4) by auto
  then show ?thesis using SetSource_ok [OF assms(1-3)] False by blast
qed
text \<open>
  C38: a resource can be made its own source, and every push to it then recurses for ever.
\<close>

theorem self_route_hangs:
  assumes "hub_ok L h" "resources h r = Some x" "r_sub x = Placeholder" "r_srcPtr x = None" "r_destList x = []"
    "r_jsonExample x = None" "r_overrideValue x = None" "\<not> r_isConfigChanging x" "\<not> IsUpdateInProgress h"
  shows "\<exists>h'. res_SetSource L r (Some r) h = Some (LE_OK, h') \<and> (\<forall>n t u s. push_along n L r t u s h' = None)"
  using assms by (rule self_route)

subsection \<open>Instances\<close>

text \<open>Without its source the second resource is on its own.\<close>

definition lone_hub :: hub where
  "lone_hub = put_res 0 (res_Construct 1) (route_hub (second_res\<lparr>r_srcPtr := None\<rparr>))"

lemma lone_hub_ok: "hub_ok sample_legato lone_hub"
proof -
  obtain h' where h': "unlink_dest 0 1 (route_hub second_res) = Some h'" "evolves same_place (route_hub second_res) h'"
    "values_ok h'" "links_ok h'" "source h' = (source (route_hub second_res))(1 := None)"
    using unlink_ok [OF hub_okD(6,5) [OF second_res_ok], of 1 0] second_res_links by auto
  have "unlink_dest 0 1 (route_hub second_res) = Some lone_hub"
    by (simp add: unlink_dest_def update_res_def lone_hub_def put_res_def res_Construct_def route_hub_def
        initial_hub_def second_res_def fun_upd_twist)
  then have "h' = lone_hub" using h'(1) by simp
  moreover have "routes (source h') = {}" using h'(5) second_res_links by (auto simp: routes_def split: if_splits)
  then have "acyclic (routes (source h'))" by (simp add: acyclic_def)
  ultimately show ?thesis
    using place_ok [OF second_res_ok h'(2,3)] h'(4) by (simp add: routes_ok_def)
qed

lemma CanGetThereFromHere_reachable_witness:
  "CanGetThereFromHere (route_hub second_res) 1 0 = Some True"
proof -
  have "(0, 1) \<in> routes (source (route_hub second_res))" by (simp add: second_res_links routes_def)
  then show ?thesis
    using CanGetThereFromHere_reachable [OF second_res_ok, of 0 1] by auto
qed

lemma SetSource_refines_witness:
  "\<exists>h'. res_SetSource sample_legato 0 (Some 1) (route_hub second_res) = Some (LE_DUPLICATE, h') \<and>
     hub_ok sample_legato h'"
proof -
  let ?f = "source (route_hub second_res)"
  have f: "?f(0 := None) = ?f" "(0, 1) \<in> routes ?f" by (auto simp: second_res_links routes_def)
  then have "set_source 0 (Some 1) ?f = (LE_DUPLICATE, ?f)"
    unfolding set_source_def f(1) using f(2) by (simp add: second_res_links r_into_trancl')
  then show ?thesis
    using SetSource_refines [OF second_res_ok sample_framework_ok, of 0 "Some 1"] by auto
qed

lemma self_route_hangs_witness:
  "\<exists>h'. res_SetSource sample_legato 1 (Some 1) lone_hub = Some (LE_OK, h') \<and>
     res_Push sample_legato 1 IO_DATA_TYPE_NUMERIC None (number_at 1 5) h' = None"
proof -
  have "resources lone_hub 1 = Some (second_res\<lparr>r_srcPtr := None\<rparr>)" "\<not> IsUpdateInProgress lone_hub"
    by (simp_all add: lone_hub_def)
  then show ?thesis
    using self_route_hangs [OF lone_hub_ok, of 1] unfolding res_Push_def
    by (auto simp: second_res_def res_Construct_def simp del: push_along.simps)
qed

end
