(* ===== verification/ResTree.thy ===== *)
theory ResTree
  imports RouteSpec EntryTree
begin

text \<open>
  The resources of the tree, the second half of \<open>src/apps/DataHub/components/dataHub/resTree.c\<close>: what is
  attached to an entry, replaced, found or created along a path, deleted, and the operations on the
  resource of an entry. With them go the handlers that are told of changes of the tree
  (\<open>adminService.c\<close>).
\<close>

subsection \<open>Names of types\<close>

fun hub_GetDataTypeName :: "io_DataType_t \<Rightarrow> string" where
  "hub_GetDataTypeName IO_DATA_TYPE_TRIGGER = ''trigger''"
| "hub_GetDataTypeName IO_DATA_TYPE_BOOLEAN = ''Boolean''"
| "hub_GetDataTypeName IO_DATA_TYPE_NUMERIC = ''numeric''"
| "hub_GetDataTypeName IO_DATA_TYPE_STRING = ''string''"
| "hub_GetDataTypeName IO_DATA_TYPE_JSON = ''JSON''"

fun hub_GetEntryTypeName :: "admin_EntryType_t \<Rightarrow> string" where
  "hub_GetEntryTypeName ADMIN_ENTRY_TYPE_NONE = ''** none **''"
| "hub_GetEntryTypeName ADMIN_ENTRY_TYPE_NAMESPACE = ''namespace''"
| "hub_GetEntryTypeName ADMIN_ENTRY_TYPE_PLACEHOLDER = ''placeholder''"
| "hub_GetEntryTypeName ADMIN_ENTRY_TYPE_INPUT = ''input''"
| "hub_GetEntryTypeName ADMIN_ENTRY_TYPE_OUTPUT = ''output''"
| "hub_GetEntryTypeName ADMIN_ENTRY_TYPE_OBSERVATION = ''observation''"

subsection \<open>Handlers for changes of the tree\<close>

definition admin_AddResourceTreeChangeHandler :: "nat \<Rightarrow> nat \<Rightarrow> hub \<Rightarrow> nat \<times> hub" where
  "admin_AddResourceTreeChangeHandler callbackPtr contextPtr h =
     (nextHandler h,
      h\<lparr>treeHandlers := treeHandlers h @ [(nextHandler h, callbackPtr, contextPtr)],
        nextHandler := nextHandler h + 1\<rparr>)"

text \<open>The reference is the handler's address: it must be one that was given out.\<close>

definition admin_RemoveResourceTreeChangeHandler :: "nat \<Rightarrow> hub \<Rightarrow> hub option" where
  "admin_RemoveResourceTreeChangeHandler handlerRef h = do {
     le_assert (handlerRef \<in> fst ` set (treeHandlers h));
     Some (h\<lparr>treeHandlers := filter (\<lambda>x. fst x \<noteq> handlerRef) (treeHandlers h)\<rparr>)
   }"

definition admin_CallResourceTreeChangeHandlers ::
  "string \<Rightarrow> admin_EntryType_t \<Rightarrow> admin_ResourceOperationType_t \<Rightarrow> hub \<Rightarrow> hub" where
  "admin_CallResourceTreeChangeHandlers path entryType operation h =
     h\<lparr>events := events h @
        map (\<lambda>(_, callbackPtr, contextPtr). TreeChange callbackPtr contextPtr path entryType operation)
          (treeHandlers h)\<rparr>"

text \<open>Whether the whole path fitted is not asked.\<close>

definition CallResourceTreeChangeHandlers ::
  "legato \<Rightarrow> eid \<Rightarrow> admin_EntryType_t \<Rightarrow> admin_ResourceOperationType_t \<Rightarrow> hub \<Rightarrow> hub option" where
  "CallResourceTreeChangeHandlers L e entryType operation h = do {
     (_, absolutePath) \<leftarrow> resTree_GetPath L h HUB_MAX_RESOURCE_PATH_BYTES (RootPtr h) e;
     Some (admin_CallResourceTreeChangeHandlers absolutePath entryType operation h)
   }"

subsection \<open>Resources come and go\<close>

definition ReplaceResource :: "legato \<Rightarrow> eid \<Rightarrow> rid \<Rightarrow> admin_EntryType_t \<Rightarrow> hub \<Rightarrow> hub option" where
  "ReplaceResource L e replacement replacementType h = do {
     x \<leftarrow> entries h e;
     h \<leftarrow> (case e_resourcePtr x of
             None \<Rightarrow> Some h
           | Some old \<Rightarrow> do {
               h \<leftarrow> res_MoveAdminSettings L old replacement replacementType h;
               Release_Resource L old h
             });
     x \<leftarrow> entries h e;
     Some (put_entry e (x\<lparr>e_resourcePtr := Some replacement, e_type := replacementType\<rparr>) h)
   }"

text \<open>A resource of the given kind at the end of a path, from whatever was there.\<close>

definition resTree_GetResource :: "legato \<Rightarrow> eid \<Rightarrow> string \<Rightarrow> hub \<Rightarrow> (eid option \<times> hub) option" where
  "resTree_GetResource L base path h = do {
     (entryRef, h) \<leftarrow> GoToEntry L base path True h;
     case entryRef of
       None \<Rightarrow> Some (None, h)
     | Some e \<Rightarrow> do {
         x \<leftarrow> entries h e;
         if e_type x = ADMIN_ENTRY_TYPE_NAMESPACE then do {
           let (r, h) = res_CreatePlaceholder e h;
           h \<leftarrow> ReplaceResource L e r ADMIN_ENTRY_TYPE_PLACEHOLDER h;
           Some (Some e, h)
         }
         else Some (Some e, h)
       }
   }"

definition resTree_GetInput ::
  "legato \<Rightarrow> eid \<Rightarrow> string \<Rightarrow> io_DataType_t \<Rightarrow> string \<Rightarrow> hub \<Rightarrow> (eid option \<times> hub) option" where
  "resTree_GetInput L base path t units h = do {
     (entryRef, h) \<leftarrow> GoToEntry L base path True h;
     case entryRef of
       None \<Rightarrow> Some (None, h)
     | Some e \<Rightarrow> do {
         x \<leftarrow> entries h e;
         case e_type x of
           ADMIN_ENTRY_TYPE_NONE \<Rightarrow> None
         | ADMIN_ENTRY_TYPE_INPUT \<Rightarrow> Some (None, h)
         | ADMIN_ENTRY_TYPE_OUTPUT \<Rightarrow> Some (None, h)
         | ADMIN_ENTRY_TYPE_OBSERVATION \<Rightarrow> Some (None, h)
         | _ \<Rightarrow> do {
             (r, h) \<leftarrow> res_CreateInput L e t units h;
             h \<leftarrow> ReplaceResource L e r ADMIN_ENTRY_TYPE_INPUT h;
             h \<leftarrow> CallResourceTreeChangeHandlers L e ADMIN_ENTRY_TYPE_INPUT ADMIN_RESOURCE_ADDED h;
             Some (Some e, h)
           }
       }
   }"

definition resTree_GetOutput ::
  "legato \<Rightarrow> eid \<Rightarrow> string \<Rightarrow> io_DataType_t \<Rightarrow> string \<Rightarrow> hub \<Rightarrow> (eid option \<times> hub) option" where
  "resTree_GetOutput L base path t units h = do {
     (entryRef, h) \<leftarrow> GoToEntry L base path True h;
     case entryRef of
       None \<Rightarrow> Some (None, h)
     | Some e \<Rightarrow> do {
         x \<leftarrow> entries h e;
         case e_type x of
           ADMIN_ENTRY_TYPE_NONE \<Rightarrow> None
         | ADMIN_ENTRY_TYPE_INPUT \<Rightarrow> Some (None, h)
         | ADMIN_ENTRY_TYPE_OUTPUT \<Rightarrow> Some (None, h)
         | ADMIN_ENTRY_TYPE_OBSERVATION \<Rightarrow> Some (None, h)
         | _ \<Rightarrow> do {
             (r, h) \<leftarrow> res_CreateOutput L e t units h;
             h \<leftarrow> ReplaceResource L e r ADMIN_ENTRY_TYPE_OUTPUT h;
             h \<leftarrow> CallResourceTreeChangeHandlers L e ADMIN_ENTRY_TYPE_OUTPUT ADMIN_RESOURCE_ADDED h;
             Some (Some e, h)
           }
       }
   }"

definition resTree_GetObservation :: "legato \<Rightarrow> eid \<Rightarrow> string \<Rightarrow> hub \<Rightarrow> (eid option \<times> hub) option" where
  "resTree_GetObservation L base path h = do {
     (entryRef, h) \<leftarrow> GoToEntry L base path True h;
     case entryRef of
       None \<Rightarrow> Some (None, h)
     | Some e \<Rightarrow> do {
         x \<leftarrow> entries h e;
         case e_type x of
           ADMIN_ENTRY_TYPE_NONE \<Rightarrow> None
         | ADMIN_ENTRY_TYPE_INPUT \<Rightarrow> Some (None, h)
         | ADMIN_ENTRY_TYPE_OUTPUT \<Rightarrow> Some (None, h)
         | ADMIN_ENTRY_TYPE_OBSERVATION \<Rightarrow> Some (Some e, h)
         | _ \<Rightarrow> do {
             let (r, h) = res_CreateObservation L e h;
             h \<leftarrow> ReplaceResource L e r ADMIN_ENTRY_TYPE_OBSERVATION h;
             h \<leftarrow> res_RestoreBackup L r h;
             h \<leftarrow> CallResourceTreeChangeHandlers L e ADMIN_ENTRY_TYPE_OBSERVATION ADMIN_RESOURCE_ADDED h;
             Some (Some e, h)
           }
       }
   }"

text \<open>The resource of an entry is taken off it, which makes it a namespace.\<close>

definition detach :: "eid \<Rightarrow> hub \<Rightarrow> hub option" where
  "detach e h = do {
     x \<leftarrow> entries h e;
     Some (put_entry e (x\<lparr>e_resourcePtr := None, e_type := ADMIN_ENTRY_TYPE_NAMESPACE\<rparr>) h)
   }"

definition resTree_DeleteIO :: "legato \<Rightarrow> eid \<Rightarrow> hub \<Rightarrow> hub option" where
  "resTree_DeleteIO L e h = do {
     x \<leftarrow> entries h e;
     h \<leftarrow> CallResourceTreeChangeHandlers L e (e_type x) ADMIN_RESOURCE_REMOVED h;
     io \<leftarrow> e_resourcePtr x;
     keep \<leftarrow> res_HasAdminSettings h io;
     if keep then do {
       let (r, h) = res_CreatePlaceholder e h;
       ReplaceResource L e r ADMIN_ENTRY_TYPE_PLACEHOLDER h
     }
     else do {
       h \<leftarrow> detach e h;
       h \<leftarrow> Release_Resource L io h;
       Release_Entry e h
     }
   }"

definition resTree_DeleteObservation :: "legato \<Rightarrow> eid \<Rightarrow> hub \<Rightarrow> hub option" where
  "resTree_DeleteObservation L e h = do {
     h \<leftarrow> CallResourceTreeChangeHandlers L e ADMIN_ENTRY_TYPE_OBSERVATION ADMIN_RESOURCE_REMOVED h;
     x \<leftarrow> entries h e;
     r \<leftarrow> e_resourcePtr x;
     h \<leftarrow> res_DeleteObservation L r h;
     h \<leftarrow> detach e h;
     Release_Entry e h
   }"

subsection \<open>Operations on the resource of an entry\<close>

definition with_resource :: "hub \<Rightarrow> eid \<Rightarrow> (rid \<Rightarrow> 'a option) \<Rightarrow> 'a option" where
  "with_resource h e f = do { x \<leftarrow> entries h e; r \<leftarrow> e_resourcePtr x; f r }"

text \<open>The operations for observations ask for the type of the entry first.\<close>

definition with_observation :: "hub \<Rightarrow> eid \<Rightarrow> (rid \<Rightarrow> 'a option) \<Rightarrow> 'a option \<Rightarrow> 'a option" where
  "with_observation h e f otherwise = do {
     x \<leftarrow> entries h e;
     r \<leftarrow> e_resourcePtr x;
     if e_type x = ADMIN_ENTRY_TYPE_OBSERVATION then f r else otherwise
   }"

definition resTree_GetUnits :: "hub \<Rightarrow> eid \<Rightarrow> string option" where
  "resTree_GetUnits h e = with_resource h e (res_GetUnits h)"

definition resTree_GetDataType :: "hub \<Rightarrow> eid \<Rightarrow> io_DataType_t option" where
  "resTree_GetDataType h e = with_resource h e (res_GetDataType h)"

definition resTree_Push :: "legato \<Rightarrow> eid \<Rightarrow> io_DataType_t \<Rightarrow> dataSample_Ref_t \<Rightarrow> hub \<Rightarrow> hub option" where
  "resTree_Push L e t s h = do {
     x \<leftarrow> entries h e;
     if e_type x = ADMIN_ENTRY_TYPE_NAMESPACE then Some h
     else if e_type x = ADMIN_ENTRY_TYPE_NONE then None
     else do { r \<leftarrow> e_resourcePtr x; res_Push L r t None s h }
   }"

definition resTree_AddPushHandler ::
  "eid \<Rightarrow> io_DataType_t \<Rightarrow> nat \<Rightarrow> nat \<Rightarrow> hub \<Rightarrow> (hid \<times> hub) option" where
  "resTree_AddPushHandler e t callbackPtr contextPtr h =
     with_resource h e (\<lambda>r. res_AddPushHandler r t callbackPtr contextPtr h)"

definition resTree_GetCurrentValue :: "hub \<Rightarrow> eid \<Rightarrow> dataSample_Ref_t option option" where
  "resTree_GetCurrentValue h e = do {
     x \<leftarrow> entries h e;
     case e_resourcePtr x of None \<Rightarrow> Some None | Some r \<Rightarrow> res_GetCurrentValue h r
   }"

text \<open>The destination must have a resource, by its type; the source may be any entry, or none.\<close>

definition resTree_SetSource :: "legato \<Rightarrow> eid \<Rightarrow> eid option \<Rightarrow> hub \<Rightarrow> (le_result_t \<times> hub) option" where
  "resTree_SetSource L destEntry srcEntry h = do {
     x \<leftarrow> entries h destEntry;
     le_assert (e_type x \<noteq> ADMIN_ENTRY_TYPE_NAMESPACE);
     le_assert (e_type x \<noteq> ADMIN_ENTRY_TYPE_NONE);
     src \<leftarrow> (case srcEntry of
               None \<Rightarrow> Some None
             | Some s \<Rightarrow> do { y \<leftarrow> entries h s; Some (e_resourcePtr y) });
     r \<leftarrow> e_resourcePtr x;
     res_SetSource L r src h
   }"

definition resTree_GetSource :: "hub \<Rightarrow> eid \<Rightarrow> eid option option" where
  "resTree_GetSource h destEntry = do {
     x \<leftarrow> entries h destEntry;
     case e_resourcePtr x of None \<Rightarrow> Some None | Some r \<Rightarrow> res_GetSource h r
   }"

definition resTree_SetMinPeriod :: "eid \<Rightarrow> double \<Rightarrow> hub \<Rightarrow> hub option" where
  "resTree_SetMinPeriod e v h = with_resource h e (\<lambda>r. res_SetMinPeriod r v h)"

definition resTree_GetMinPeriod :: "hub \<Rightarrow> eid \<Rightarrow> double option" where
  "resTree_GetMinPeriod h e = with_resource h e (res_GetMinPeriod h)"

definition resTree_SetHighLimit :: "eid \<Rightarrow> double \<Rightarrow> hub \<Rightarrow> hub option" where
  "resTree_SetHighLimit e v h = with_resource h e (\<lambda>r. res_SetHighLimit r v h)"

definition resTree_GetHighLimit :: "hub \<Rightarrow> eid \<Rightarrow> double option" where
  "resTree_GetHighLimit h e = with_resource h e (res_GetHighLimit h)"

definition resTree_SetLowLimit :: "eid \<Rightarrow> double \<Rightarrow> hub \<Rightarrow> hub option" where
  "resTree_SetLowLimit e v h = with_resource h e (\<lambda>r. res_SetLowLimit r v h)"

definition resTree_GetLowLimit :: "hub \<Rightarrow> eid \<Rightarrow> double option" where
  "resTree_GetLowLimit h e = with_resource h e (res_GetLowLimit h)"

definition resTree_SetChangeBy :: "eid \<Rightarrow> double \<Rightarrow> hub \<Rightarrow> hub option" where
  "resTree_SetChangeBy e v h = with_resource h e (\<lambda>r. res_SetChangeBy r v h)"

definition resTree_GetChangeBy :: "hub \<Rightarrow> eid \<Rightarrow> double option" where
  "resTree_GetChangeBy h e = with_resource h e (res_GetChangeBy h)"

definition resTree_SetTransform :: "eid \<Rightarrow> obs_TransformType_t \<Rightarrow> hub \<Rightarrow> hub option" where
  "resTree_SetTransform e t h = with_resource h e (\<lambda>r. res_SetTransform r t h)"

definition resTree_GetTransform :: "hub \<Rightarrow> eid \<Rightarrow> obs_TransformType_t option" where
  "resTree_GetTransform h e = with_resource h e (res_GetTransform h)"

definition resTree_SetBufferMaxCount :: "legato \<Rightarrow> eid \<Rightarrow> 32 word \<Rightarrow> hub \<Rightarrow> hub option" where
  "resTree_SetBufferMaxCount L e count h = with_resource h e (\<lambda>r. res_SetBufferMaxCount L r count h)"

definition resTree_GetBufferMaxCount :: "hub \<Rightarrow> eid \<Rightarrow> 32 word option" where
  "resTree_GetBufferMaxCount h e = with_resource h e (res_GetBufferMaxCount h)"

definition resTree_SetBufferBackupPeriod :: "legato \<Rightarrow> eid \<Rightarrow> 32 word \<Rightarrow> hub \<Rightarrow> hub option" where
  "resTree_SetBufferBackupPeriod L e seconds h = with_resource h e (\<lambda>r. res_SetBufferBackupPeriod L r seconds h)"

definition resTree_GetBufferBackupPeriod :: "hub \<Rightarrow> eid \<Rightarrow> 32 word option" where
  "resTree_GetBufferBackupPeriod h e = with_resource h e (res_GetBufferBackupPeriod h)"

definition resTree_MarkOptional :: "eid \<Rightarrow> hub \<Rightarrow> hub option" where
  "resTree_MarkOptional e h = with_resource h e (\<lambda>r. res_MarkOptional r h)"

definition resTree_IsMandatory :: "hub \<Rightarrow> eid \<Rightarrow> bool option" where
  "resTree_IsMandatory h e = do {
     t \<leftarrow> resTree_GetEntryType h e;
     if t \<noteq> ADMIN_ENTRY_TYPE_OUTPUT then Some False else with_resource h e (res_IsMandatory h)
   }"

definition resTree_SetDefault :: "legato \<Rightarrow> eid \<Rightarrow> io_DataType_t \<Rightarrow> dataSample_Ref_t \<Rightarrow> hub \<Rightarrow> hub option" where
  "resTree_SetDefault L e t v h = with_resource h e (\<lambda>r. res_SetDefault L r t v h)"

definition resTree_HasDefault :: "hub \<Rightarrow> eid \<Rightarrow> bool option" where
  "resTree_HasDefault h e = with_resource h e (res_HasDefault h)"

definition resTree_GetDefaultDataType :: "hub \<Rightarrow> eid \<Rightarrow> io_DataType_t option" where
  "resTree_GetDefaultDataType h e = with_resource h e (res_GetDefaultDataType h)"

definition resTree_GetDefaultValue :: "hub \<Rightarrow> eid \<Rightarrow> dataSample_Ref_t option option" where
  "resTree_GetDefaultValue h e = with_resource h e (res_GetDefaultValue h)"

definition resTree_RemoveDefault :: "eid \<Rightarrow> hub \<Rightarrow> hub option" where
  "resTree_RemoveDefault e h = with_resource h e (\<lambda>r. res_RemoveDefault r h)"

definition resTree_SetOverride :: "legato \<Rightarrow> eid \<Rightarrow> io_DataType_t \<Rightarrow> dataSample_Ref_t \<Rightarrow> hub \<Rightarrow> hub option" where
  "resTree_SetOverride L e t v h = with_resource h e (\<lambda>r. res_SetOverride L r t v h)"

definition resTree_HasOverride :: "hub \<Rightarrow> eid \<Rightarrow> bool option" where
  "resTree_HasOverride h e = with_resource h e (res_HasOverride h)"

definition resTree_GetOverrideDataType :: "hub \<Rightarrow> eid \<Rightarrow> io_DataType_t option" where
  "resTree_GetOverrideDataType h e = with_resource h e (res_GetOverrideDataType h)"

definition resTree_GetOverrideValue :: "hub \<Rightarrow> eid \<Rightarrow> dataSample_Ref_t option option" where
  "resTree_GetOverrideValue h e = with_resource h e (res_GetOverrideValue h)"

definition resTree_RemoveOverride :: "legato \<Rightarrow> eid \<Rightarrow> hub \<Rightarrow> hub option" where
  "resTree_RemoveOverride L e h = with_resource h e (\<lambda>r. res_RemoveOverride L r h)"

definition resTree_StartUpdate :: "hub \<Rightarrow> hub" where
  "resTree_StartUpdate = res_StartUpdate"

definition resTree_EndUpdate :: "legato \<Rightarrow> hub \<Rightarrow> hub option" where
  "resTree_EndUpdate = res_EndUpdate"

definition resTree_ReadBufferJson ::
  "legato \<Rightarrow> eid \<Rightarrow> double \<Rightarrow> nat \<Rightarrow> bool \<Rightarrow> nat \<Rightarrow> nat \<Rightarrow> write_result list \<Rightarrow> hub \<Rightarrow> hub option" where
  "resTree_ReadBufferJson L e startAfter outputFile nonblock handlerPtr contextPtr results h =
     with_observation h e
       (\<lambda>r. res_ReadBufferJson L r startAfter outputFile nonblock handlerPtr contextPtr results h) None"

definition resTree_FindBufferedSampleAfter ::
  "legato \<Rightarrow> eid \<Rightarrow> double \<Rightarrow> hub \<Rightarrow> (dataSample_Ref_t option \<times> hub) option" where
  "resTree_FindBufferedSampleAfter L e startAfter h =
     with_observation h e (\<lambda>r. res_FindBufferedSampleAfter L r startAfter h) None"

definition resTree_SetJsonExample :: "eid \<Rightarrow> dataSample_Ref_t \<Rightarrow> hub \<Rightarrow> hub option" where
  "resTree_SetJsonExample e example h = with_resource h e (\<lambda>r. res_SetJsonExample r example h)"

definition resTree_GetJsonExample :: "hub \<Rightarrow> eid \<Rightarrow> dataSample_Ref_t option option" where
  "resTree_GetJsonExample h e = with_resource h e (res_GetJsonExample h)"

definition resTree_SetJsonExtraction :: "legato \<Rightarrow> eid \<Rightarrow> string \<Rightarrow> hub \<Rightarrow> hub option" where
  "resTree_SetJsonExtraction L e extractionSpec h =
     with_observation h e (\<lambda>r. res_SetJsonExtraction L r extractionSpec h) (Some h)"

definition resTree_GetJsonExtraction :: "hub \<Rightarrow> eid \<Rightarrow> string option" where
  "resTree_GetJsonExtraction h e = with_observation h e (res_GetJsonExtraction h) (Some [])"

definition resTree_QueryMin :: "legato \<Rightarrow> eid \<Rightarrow> double \<Rightarrow> hub \<Rightarrow> (double \<times> hub) option" where
  "resTree_QueryMin L e startTime h = with_observation h e (\<lambda>r. res_QueryMin L r startTime h) (Some (NAN, h))"

definition resTree_QueryMax :: "legato \<Rightarrow> eid \<Rightarrow> double \<Rightarrow> hub \<Rightarrow> (double \<times> hub) option" where
  "resTree_QueryMax L e startTime h = with_observation h e (\<lambda>r. res_QueryMax L r startTime h) (Some (NAN, h))"

definition resTree_QueryMean :: "legato \<Rightarrow> eid \<Rightarrow> double \<Rightarrow> hub \<Rightarrow> (double \<times> hub) option" where
  "resTree_QueryMean L e startTime h = with_observation h e (\<lambda>r. res_QueryMean L r startTime h) (Some (NAN, h))"

definition resTree_QueryStdDev :: "legato \<Rightarrow> eid \<Rightarrow> double \<Rightarrow> hub \<Rightarrow> (double \<times> hub) option" where
  "resTree_QueryStdDev L e startTime h = with_observation h e (\<lambda>r. res_QueryStdDev L r startTime h) (Some (NAN, h))"

end
