(* ===== verification/MoveSpec.thy ===== *)
theory MoveSpec
  imports ResTree
begin

text \<open>
  Replacing a resource by another one: the settings, routes and handlers go over to the new resource,
  and the invariant of the hub is kept.
\<close>

subsection \<open>What is moved\<close>

text \<open>The new resource afterwards, what is left of the old one, and the others with the old resource's
  number replaced in their links.\<close>

definition moved :: "legato \<Rightarrow> admin_EntryType_t \<Rightarrow> res_Resource_t \<Rightarrow> res_Resource_t \<Rightarrow> res_Resource_t" where
  "moved L T x y = (move_current L T x y)
     \<lparr>r_pushedType := r_pushedType x, r_pushedValue := r_pushedValue x,
      r_srcPtr := r_srcPtr x, r_destList := r_destList x,
      r_overrideType := r_overrideType x, r_overrideValue := r_overrideValue x,
      r_defaultType := r_defaultType x, r_defaultValue := r_defaultValue x,
      r_isConfigChanging := r_isConfigChanging x, r_pushHandlerList := r_pushHandlerList x\<rparr>"

definition shell :: "res_Resource_t \<Rightarrow> res_Resource_t" where
  "shell x = x\<lparr>r_currentValue := None, r_pushedValue := None, r_srcPtr := None, r_destList := [],
     r_overrideValue := None, r_defaultValue := None, r_pushHandlerList := []\<rparr>"

definition relinked :: "rid \<Rightarrow> rid \<Rightarrow> res_Resource_t \<Rightarrow> res_Resource_t" where
  "relinked a b z = z
     \<lparr>r_destList := (if a \<in> set (r_destList z) then remove1 a (r_destList z) @ [b] else r_destList z),
      r_srcPtr := (if r_srcPtr z = Some a then Some b else r_srcPtr z)\<rparr>"

definition replaced :: "legato \<Rightarrow> admin_EntryType_t \<Rightarrow> rid \<Rightarrow> rid \<Rightarrow> hub \<Rightarrow> rid \<Rightarrow> res_Resource_t option" where
  "replaced L T old new h q =
     (if q = old then map_option shell (resources h old)
      else if q = new then Some (moved L T (the (resources h old)) (the (resources h new)))
      else map_option (relinked old new) (resources h q))"

lemma update_res_map: "update_res r f h =
    (if resources h r = None then None else Some (h\<lparr>resources := (resources h)(r := map_option f (resources h r))\<rparr>))"
  by (auto simp: update_res_def put_res_def)

lemma link_dests:
  assumes "resources h n = Some y" "n \<notin> set ds" "distinct ds" "\<forall>d \<in> set ds. resources h d \<noteq> None"
  shows "fold_option (link_dest n) ds h = Some (h\<lparr>resources := (\<lambda>q.
      if q = n then Some (y\<lparr>r_destList := r_destList y @ ds\<rparr>)
      else if q \<in> set ds then map_option (\<lambda>z. z\<lparr>r_srcPtr := Some n\<rparr>) (resources h q) else resources h q)\<rparr>)"
  using assms
proof (induction ds arbitrary: h y)
  case Nil
  have "(\<lambda>q. if q = n then Some (y\<lparr>r_destList := r_destList y @ []\<rparr>)
      else if q \<in> set [] then map_option (\<lambda>z. z\<lparr>r_srcPtr := Some n\<rparr>) (resources h q) else resources h q) = resources h"
    using Nil by auto
  then show ?case unfolding fold_option.simps by (simp only:) simp
next
  case (Cons d ds)
  let ?y = "y\<lparr>r_destList := r_destList y @ [d]\<rparr>"
  let ?h = "h\<lparr>resources := (resources h)(n \<mapsto> ?y, d := map_option (\<lambda>z. z\<lparr>r_srcPtr := Some n\<rparr>) (resources h d))\<rparr>"
  have "link_dest n d h = Some ?h"
    using Cons.prems by (auto simp: link_dest_def update_res_map)
  moreover have "fold_option (link_dest n) ds ?h = Some (?h\<lparr>resources := (\<lambda>q.
      if q = n then Some (?y\<lparr>r_destList := r_destList ?y @ ds\<rparr>)
      else if q \<in> set ds then map_option (\<lambda>z. z\<lparr>r_srcPtr := Some n\<rparr>) (resources ?h q) else resources ?h q)\<rparr>)"
    by (rule Cons.IH) (use Cons.prems in auto)
  moreover have "(\<lambda>q. if q = n then Some (?y\<lparr>r_destList := r_destList ?y @ ds\<rparr>)
      else if q \<in> set ds then map_option (\<lambda>z. z\<lparr>r_srcPtr := Some n\<rparr>) (resources ?h q) else resources ?h q) =
    (\<lambda>q. if q = n then Some (y\<lparr>r_destList := r_destList y @ d # ds\<rparr>)
      else if q \<in> set (d # ds) then map_option (\<lambda>z. z\<lparr>r_srcPtr := Some n\<rparr>) (resources h q) else resources h q)"
    using Cons.prems by (auto simp: fun_eq_iff)
  ultimately show ?case by simp
qed

lemma unlinked:
  assumes "resources h s = Some z" "resources h r = Some x" "s \<noteq> r" "r \<in> set (r_destList z)"
  shows "unlink_dest s r h = Some (h\<lparr>resources := (resources h)
    (s \<mapsto> z\<lparr>r_destList := remove1 r (r_destList z)\<rparr>, r \<mapsto> x\<lparr>r_srcPtr := None\<rparr>)\<rparr>)"
  using assms by (simp add: unlink_dest_def update_res_map)

lemma linked:
  assumes "resources h s = Some z" "resources h r = Some x" "s \<noteq> r"
  shows "link_dest s r h = Some (h\<lparr>resources := (resources h)
    (s \<mapsto> z\<lparr>r_destList := r_destList z @ [r]\<rparr>, r \<mapsto> x\<lparr>r_srcPtr := Some s\<rparr>)\<rparr>)"
  using assms by (simp add: link_dest_def update_res_map)

text \<open>The links of the resources around the two, after each half of the move.\<close>

lemma map_option_id: "(\<And>z. v = Some z \<Longrightarrow> f z = z) \<Longrightarrow> map_option f v = v"
  by (cases v) simp_all

lemma move_source_eq:
  assumes "links_ok h" "resources h a = Some x" "a \<noteq> b" "source h a \<noteq> Some a" "source h b = None" "dests h b = []"
    "g = h\<lparr>resources := (resources h)(a \<mapsto> x', b \<mapsto> y')\<rparr>" "r_srcPtr x' = r_srcPtr x" "r_srcPtr y' = None"
  shows "move_source a b g = Some (h\<lparr>resources := (\<lambda>q.
      if q = a then Some (x'\<lparr>r_srcPtr := None\<rparr>)
      else if q = b then Some (y'\<lparr>r_srcPtr := r_srcPtr x\<rparr>)
      else map_option (\<lambda>z. z\<lparr>r_destList :=
        (if a \<in> set (r_destList z) then remove1 a (r_destList z) @ [b] else r_destList z)\<rparr>) (resources h q))\<rparr>)"
    (is "_ = Some (h\<lparr>resources := ?R\<rparr>)")
proof (cases "r_srcPtr x")
  case None
  have "a \<notin> set (r_destList z)" if "resources h q = Some z" for q z
    using links_ok_dest [OF assms(1) that, of a] assms(2) None by simp
  then have "?R = (resources h)(a \<mapsto> x', b \<mapsto> y')"
    using assms(3,8,9) None by (auto simp: fun_eq_iff intro!: map_option_id)
  moreover have "move_source a b g = Some (h\<lparr>resources := (resources h)(a \<mapsto> x', b \<mapsto> y')\<rparr>)"
    using assms(3,7,8,9) None by (cases y') (simp add: move_source_def update_res_map)
  ultimately show ?thesis by (simp only:)
next
  case (Some s)
  obtain z where z: "resources h s = Some z" using source_live(2) [OF assms(1), of a s] assms(2) Some by auto
  have mem: "a \<in> set (r_destList v) \<longleftrightarrow> q = s" if "resources h q = Some v" for q v
    using links_ok_dest [OF assms(1) that, of a] assms(2) Some by auto
  have s: "s \<noteq> a" "s \<noteq> b" using assms(2,4,6) Some mem [OF z] z by auto
  let ?z = "z\<lparr>r_destList := remove1 a (r_destList z)\<rparr>"
  let ?g1 = "h\<lparr>resources := (resources h)(a \<mapsto> x'\<lparr>r_srcPtr := None\<rparr>, b \<mapsto> y', s \<mapsto> ?z)\<rparr>"
  have "unlink_dest s a g = Some ?g1"
    using unlinked [of g s z a x'] z s mem [OF z] assms(3,7) by (simp add: fun_upd_twist)
  moreover have "link_dest s b ?g1 = Some (h\<lparr>resources := (resources h)(a \<mapsto> x'\<lparr>r_srcPtr := None\<rparr>,
      b \<mapsto> y'\<lparr>r_srcPtr := Some s\<rparr>, s \<mapsto> ?z\<lparr>r_destList := remove1 a (r_destList z) @ [b]\<rparr>)\<rparr>)"
    using linked [of ?g1 s ?z b y'] s assms(3) by (simp add: fun_upd_twist)
  moreover have "?R = (resources h)(a \<mapsto> x'\<lparr>r_srcPtr := None\<rparr>,
      b \<mapsto> y'\<lparr>r_srcPtr := Some s\<rparr>, s \<mapsto> ?z\<lparr>r_destList := remove1 a (r_destList z) @ [b]\<rparr>)"
    using mem z s assms(3) Some by (auto simp: fun_eq_iff intro!: map_option_id)
  ultimately show ?thesis
    using assms(3,7,8) Some by (simp add: move_source_def)
qed

lemma move_dests_eq:
  assumes "links_ok h" "resources h a = Some x" "a \<noteq> b" "source h a \<noteq> Some a" "source h b = None" "dests h b = []"
    "g = h\<lparr>resources := (\<lambda>q.
      if q = a then Some x' else if q = b then Some y'
      else map_option (\<lambda>z. z\<lparr>r_destList := f z\<rparr>) (resources h q))\<rparr>"
    "r_destList x' = r_destList x" "r_destList y' = []"
  shows "move_dests a b g = Some (h\<lparr>resources := (\<lambda>q.
      if q = a then Some (x'\<lparr>r_destList := []\<rparr>) else if q = b then Some (y'\<lparr>r_destList := r_destList x\<rparr>)
      else map_option (\<lambda>z. z\<lparr>r_destList := f z, r_srcPtr := if r_srcPtr z = Some a then Some b else r_srcPtr z\<rparr>)
        (resources h q))\<rparr>)"
proof -
  let ?ds = "r_destList x"
  have mem: "d \<in> set ?ds \<longleftrightarrow> source h d = Some a" for d using links_ok_dest [OF assms(1,2)] .
  have ds: "b \<notin> set ?ds" "a \<notin> set ?ds" "distinct ?ds" "\<forall>d \<in> set ?ds. resources h d \<noteq> None"
    using mem assms(4,5) links_okD(1) [OF assms(1,2)] source_live(1) [OF assms(1)] by auto
  let ?g1 = "h\<lparr>resources := (\<lambda>q.
      if q = a then Some (x'\<lparr>r_destList := []\<rparr>) else if q = b then Some y'
      else map_option (\<lambda>z. z\<lparr>r_destList := f z\<rparr>) (resources h q))\<rparr>"
  have "(resources g)(a \<mapsto> x'\<lparr>r_destList := []\<rparr>) = resources ?g1" using assms(7) by (auto simp: fun_eq_iff)
  then have u: "update_res a (\<lambda>x. x\<lparr>r_destList := []\<rparr>) g = Some ?g1" using assms(7) by (simp add: update_res_map)
  have "fold_option (link_dest b) ?ds ?g1 = Some (?g1\<lparr>resources := (\<lambda>q.
      if q = b then Some (y'\<lparr>r_destList := r_destList y' @ ?ds\<rparr>)
      else if q \<in> set ?ds then map_option (\<lambda>z. z\<lparr>r_srcPtr := Some b\<rparr>) (resources ?g1 q) else resources ?g1 q)\<rparr>)"
    by (rule link_dests) (use ds assms(3) in auto)
  moreover have "(\<lambda>q. if q = b then Some (y'\<lparr>r_destList := r_destList y' @ ?ds\<rparr>)
      else if q \<in> set ?ds then map_option (\<lambda>z. z\<lparr>r_srcPtr := Some b\<rparr>) (resources ?g1 q) else resources ?g1 q) =
    (\<lambda>q. if q = a then Some (x'\<lparr>r_destList := []\<rparr>) else if q = b then Some (y'\<lparr>r_destList := ?ds\<rparr>)
      else map_option (\<lambda>z. z\<lparr>r_destList := f z, r_srcPtr := if r_srcPtr z = Some a then Some b else r_srcPtr z\<rparr>)
        (resources h q))" (is "?A = ?B")
  proof
    fix q
    show "?A q = ?B q"
    proof (cases "resources h q")
      case None
      then show ?thesis using ds assms(2,3,9) by auto
    next
      case (Some z)
      then have "q \<in> set ?ds \<longleftrightarrow> r_srcPtr z = Some a" using mem by simp
      then show ?thesis using Some ds assms(3,9) by auto
    qed
  qed
  ultimately show ?thesis
    using u assms(3,7,8) by (simp add: move_dests_def)
qed

lemma move_current_keeps [simp]:
  "r_entryRef (move_current L T x y) = r_entryRef y" "r_srcPtr (move_current L T x y) = r_srcPtr y"
  "r_destList (move_current L T x y) = r_destList y" "r_pushHandlerList (move_current L T x y) = r_pushHandlerList y"
  "r_sub (move_current L T x y) = r_sub y" "r_jsonExample (move_current L T x y) = r_jsonExample y"
  by (simp_all add: move_current_def)

lemma MoveAdminSettings_eq:
  assumes "links_ok h" "resources h a = Some x" "resources h b = Some y" "a \<noteq> b" "source h a \<noteq> Some a"
    "r_entryRef x \<noteq> None" "r_entryRef y \<noteq> None" "r_srcPtr y = None" "r_destList y = []" "r_pushHandlerList y = []"
  shows "res_MoveAdminSettings L a b T h = Some (h\<lparr>resources := replaced L T a b h\<rparr>)"
proof -
  define x1 where "x1 = x\<lparr>r_currentValue := None, r_pushedValue := None\<rparr>"
  define y1 where "y1 = (move_current L T x y)\<lparr>r_pushedType := r_pushedType x, r_pushedValue := r_pushedValue x\<rparr>"
  define f where "f = (\<lambda>z :: res_Resource_t. if a \<in> set (r_destList z) then remove1 a (r_destList z) @ [b] else r_destList z)"
  have b: "source h b = None" "dests h b = []" using assms(3,8,9) by simp_all
  let ?h1 = "h\<lparr>resources := (resources h)(a \<mapsto> x1, b \<mapsto> y1)\<rparr>"
  have s: "move_source a b ?h1 = Some (h\<lparr>resources := (\<lambda>q.
      if q = a then Some (x1\<lparr>r_srcPtr := None\<rparr>) else if q = b then Some (y1\<lparr>r_srcPtr := r_srcPtr x\<rparr>)
      else map_option (\<lambda>z. z\<lparr>r_destList := f z\<rparr>) (resources h q))\<rparr>)" (is "_ = Some ?h2")
    unfolding f_def
    by (rule move_source_eq [OF assms(1,2,4,5) b refl]) (simp_all add: x1_def y1_def assms(8))
  have d: "move_dests a b ?h2 = Some (h\<lparr>resources := (\<lambda>q.
      if q = a then Some (x1\<lparr>r_srcPtr := None, r_destList := []\<rparr>)
      else if q = b then Some (y1\<lparr>r_srcPtr := r_srcPtr x, r_destList := r_destList x\<rparr>)
      else map_option (\<lambda>z. z\<lparr>r_destList := f z, r_srcPtr := if r_srcPtr z = Some a then Some b else r_srcPtr z\<rparr>)
        (resources h q))\<rparr>)" (is "_ = Some ?h3")
    by (rule move_dests_eq [OF assms(1,2,4,5) b refl]) (simp_all add: x1_def y1_def assms(9))
  let ?x2 = "x1\<lparr>r_srcPtr := None, r_destList := []\<rparr>"
  let ?y2 = "y1\<lparr>r_srcPtr := r_srcPtr x, r_destList := r_destList x\<rparr>"
  have "res_MoveAdminSettings L a b T h = do {
     h \<leftarrow> update_res b (\<lambda>y. y\<lparr>r_overrideType := r_overrideType x, r_overrideValue := r_overrideValue x\<rparr>) ?h3;
     h \<leftarrow> update_res a (\<lambda>x. x\<lparr>r_overrideValue := None\<rparr>) h;
     h \<leftarrow> update_res b (\<lambda>y. y\<lparr>r_defaultType := r_defaultType x, r_defaultValue := r_defaultValue x\<rparr>) h;
     h \<leftarrow> update_res a (\<lambda>x. x\<lparr>r_defaultValue := None\<rparr>) h;
     h \<leftarrow> update_res b (\<lambda>y. y\<lparr>r_isConfigChanging := r_isConfigChanging x\<rparr>) h;
     handler_MoveAll b a h
   }"
    unfolding res_MoveAdminSettings_def
    using assms(2,3,4,6,7) s d
    by (simp add: update_res_map x1_def y1_def fun_upd_twist)
  also have "\<dots> = Some (h\<lparr>resources := replaced L T a b h\<rparr>)"
  proof -
    have "replaced L T a b h = (resources ?h3)(
        a \<mapsto> ?x2\<lparr>r_overrideValue := None, r_defaultValue := None, r_pushHandlerList := []\<rparr>,
        b \<mapsto> ?y2\<lparr>r_overrideType := r_overrideType x, r_overrideValue := r_overrideValue x,
              r_defaultType := r_defaultType x, r_defaultValue := r_defaultValue x,
              r_isConfigChanging := r_isConfigChanging x, r_pushHandlerList := r_pushHandlerList x\<rparr>)"
      using assms(2,3,4)
      by (auto simp: replaced_def fun_eq_iff shell_def moved_def relinked_def [abs_def] x1_def y1_def f_def)
    then show ?thesis
      using assms(4,10)
      by (simp add: update_res_map handler_MoveAll_def put_res_def x1_def y1_def fun_upd_twist)
  qed
  finally show ?thesis .
qed

subsection \<open>A new resource\<close>

text \<open>A resource as the constructors leave it, for a given entry and type of entry.\<close>

definition fresh_res :: "hub \<Rightarrow> eid \<Rightarrow> admin_EntryType_t \<Rightarrow> res_Resource_t \<Rightarrow> bool" where
  "fresh_res h e t x \<longleftrightarrow>
     r_entryRef x = Some e \<and> r_srcPtr x = None \<and> r_destList x = [] \<and> r_pushHandlerList x = [] \<and>
     value_ok (nextBuff h) x \<and> kind_ok t (r_sub x) \<and> (t = ADMIN_ENTRY_TYPE_OBSERVATION \<longrightarrow> obs_namespace h)"

definition with_new :: "res_Resource_t \<Rightarrow> hub \<Rightarrow> hub" where
  "with_new x h = put_res (nextRes h) x (h\<lparr>nextRes := Suc (nextRes h)\<rparr>)"

definition entry_set :: "eid \<Rightarrow> Entry_t \<Rightarrow> rid option \<Rightarrow> admin_EntryType_t \<Rightarrow> hub \<Rightarrow> hub" where
  "entry_set e y r t h = put_entry e (y\<lparr>e_resourcePtr := r, e_type := t\<rparr>) h"

lemma entry_set_frame [simp]:
  "entries (entry_set e y r t h) = (entries h)(e \<mapsto> y\<lparr>e_resourcePtr := r, e_type := t\<rparr>)"
  "RootPtr (entry_set e y r t h) = RootPtr h" "nextEntry (entry_set e y r t h) = nextEntry h"
  "resources (entry_set e y r t h) = resources h" "nextRes (entry_set e y r t h) = nextRes h"
  "handlers (entry_set e y r t h) = handlers h" "nextHandler (entry_set e y r t h) = nextHandler h"
  "nextBuff (entry_set e y r t h) = nextBuff h"
  by (simp_all add: entry_set_def)

lemma entry_set_links [simp]:
  "dests (entry_set e y r t h) = dests h" "source (entry_set e y r t h) = source h"
  "heard (entry_set e y r t h) = heard h" "get_obs (entry_set e y r t h) = get_obs h"
  by (simp_all add: fun_eq_iff dests_def source_def heard_def get_obs_def)

lemma entry_set_names: "entries h e = Some y \<Longrightarrow> name_of (entry_set e y r t h) = name_of h"
  by (auto simp: name_of_def fun_eq_iff)

lemma tree_cong:
  assumes "entries h' = entries h" "RootPtr h' = RootPtr h" "nextEntry h' = nextEntry h"
  shows "tree_ok L h' = tree_ok L h" "obs_namespace h' = obs_namespace h"
proof -
  have n: "name_of h' = name_of h" using assms(1) by (auto simp: name_of_def fun_eq_iff)
  show "tree_ok L h' = tree_ok L h" "obs_namespace h' = obs_namespace h"
    unfolding tree_ok_def children_ok_def parent_ok_def obs_namespace_def n assms by (rule refl)+
qed

text \<open>An entry may change its resource and its number of references.\<close>

definition same_node :: "Entry_t \<Rightarrow> Entry_t \<Rightarrow> bool" where
  "same_node y z \<longleftrightarrow>
     e_name z = e_name y \<and> e_parentPtr z = e_parentPtr y \<and> e_childList z = e_childList y \<and>
     length (e_childList z) \<le> e_refCount z \<and> 0 < e_refCount z"

lemma put_entry_names: "entries h e = Some y \<Longrightarrow> e_name z = e_name y \<Longrightarrow> name_of (put_entry e z h) = name_of h"
  by (auto simp: name_of_def fun_eq_iff)

lemma put_entry_tree:
  assumes "tree_ok L h" "entries h e = Some y" "same_node y z"
  shows "tree_ok L (put_entry e z h)"
proof -
  let ?h = "put_entry e z h"
  have z: "e_name z = e_name y" "e_parentPtr z = e_parentPtr y" "e_childList z = e_childList y"
    "length (e_childList z) \<le> e_refCount z" "0 < e_refCount z" using assms(3) by (auto simp: same_node_def)
  note n = put_entry_names [OF assms(2) z(1)]
  have same: "\<exists>v'. entries ?h c = Some v' \<and> e_parentPtr v' = e_parentPtr v \<and> e_name v' = e_name v
      \<and> e_childList v' = e_childList v" if "entries h c = Some v" for c v
    using that assms(2) z by (cases "c = e") simp_all
  have c: "children_ok L ?h c cs" if "children_ok L h c cs" for c cs
    using that same unfolding children_ok_def n by metis
  have p: "parent_ok ?h c v'" if "parent_ok h c v" "e_parentPtr v' = e_parentPtr v" for c v v'
    using that same unfolding parent_ok_def put_entry_other(2) by metis
  have "c < nextEntry h \<and> children_ok L ?h c (e_childList v) \<and> parent_ok ?h c v
      \<and> length (e_childList v) \<le> e_refCount v \<and> 0 < e_refCount v" if "entries ?h c = Some v" for c v
  proof (cases "c = e")
    case True
    then have "v = z" using that by simp
    then show ?thesis using True tree_okD(1-3) [OF assms(1,2)] c p [of e y z] z by simp
  next
    case False
    then show ?thesis using tree_okD [OF assms(1), of c v] that c p [of c v v] by simp
  qed
  then show ?thesis using assms(1) by (simp add: tree_ok_def)
qed

lemma entry_set_tree:
  assumes "tree_ok L h" "entries h e = Some y"
  shows "tree_ok L (entry_set e y r t h)"
  unfolding entry_set_def
  by (rule put_entry_tree [OF assms]) (use tree_okD(4,5) [OF assms] in \<open>simp add: same_node_def\<close>)

lemma entry_set_namespace: "entries h e = Some y \<Longrightarrow> obs_namespace (entry_set e y r t h) = obs_namespace h"
  using entry_set_names [of h e y r t] by (auto simp: obs_namespace_def)

lemma not_yet:
  assumes "hub_ok L h"
  shows "resources h (nextRes h) = None" "source h q \<noteq> Some (nextRes h)" "nextRes h \<notin> set (dests h q)"
    "source h (nextRes h) = None"
proof -
  show n: "resources h (nextRes h) = None"
    using hub_okD(4) [OF assms] by (auto simp: numbered_def)
  show s: "source h q \<noteq> Some (nextRes h)"
    using source_live(2) [OF hub_okD(6) [OF assms], of q "nextRes h"] n by auto
  show "source h (nextRes h) = None" using n by simp
  then show "nextRes h \<notin> set (dests h q)"
    using hub_okD(6) [OF assms] by (auto simp: links_ok_def)
qed

text \<open>The other resources keep their entry and their own part.\<close>

definition still :: "res_Resource_t \<Rightarrow> res_Resource_t \<Rightarrow> bool" where
  "still x z \<longleftrightarrow> r_entryRef z = r_entryRef x \<and> r_sub z = r_sub x"

definition others_still :: "hub \<Rightarrow> hub \<Rightarrow> rid set \<Rightarrow> bool" where
  "others_still h h' A \<longleftrightarrow> (\<forall>q. q \<notin> A \<longrightarrow> rel_option still (resources h q) (resources h' q))"

lemma others_rev:
  assumes "others_still h h' A" "q \<notin> A" "resources h' q = Some z"
  obtains x where "resources h q = Some x" "still x z"
proof -
  have "rel_option still (resources h q) (resources h' q)" using assms(1,2) by (simp add: others_still_def)
  then show thesis using assms(3) that by (cases "resources h q") auto
qed

lemma others_Some:
  assumes "others_still h h' A" "q \<notin> A" "resources h q = Some x"
  obtains z where "resources h' q = Some z" "still x z"
proof -
  have "rel_option still (resources h q) (resources h' q)" using assms(1,2) by (simp add: others_still_def)
  then show thesis using assms(3) that by (cases "resources h' q") auto
qed

lemma entry_resource:
  assumes "attached_ok h" "entries h e = Some y" "e_resourcePtr y = Some r"
  obtains x where "resources h r = Some x" "r_entryRef x = Some e" "kind_ok (e_type y) (r_sub x)"
    "entry_type_of h r = Some (e_type y)"
proof -
  have "entry_ok h e y" using assms(1,2) by (simp add: attached_ok_def)
  then obtain x where x: "resources h r = Some x" "r_entryRef x = Some e" using assms(3) by (auto simp: entry_ok_def)
  show thesis by (rule attachedE [OF assms(1) x(1)]) (use that x assms(2) in auto)
qed

lemma attached_swap:
  assumes "attached_ok h" "entries h e = Some y" "entries h' = (entries h)(e \<mapsto> y\<lparr>e_resourcePtr := Some n, e_type := t\<rparr>)"
    "resources h n = None" "resources h' n = Some x" "r_entryRef x = Some e" "kind_ok t (r_sub x)"
    "others_still h h' ({n} \<union> set_option (e_resourcePtr y))" "\<forall>r \<in> set_option (e_resourcePtr y). resources h' r = None"
    "obs_namespace h' = obs_namespace h" "t = ADMIN_ENTRY_TYPE_OBSERVATION \<longrightarrow> obs_namespace h"
  shows "attached_ok h'"
proof -
  let ?A = "{n} \<union> set_option (e_resourcePtr y)"
  have att: "attached h' r z" if z: "resources h' r = Some z" for r z
  proof (cases "r = n")
    case True
    then show ?thesis using assms(3,5,6,7) z by (simp add: attached_def)
  next
    case False
    then have r: "r \<notin> ?A" using assms(9) z by auto
    obtain w where w: "resources h r = Some w" "still w z" by (rule others_rev [OF assms(8) r z])
    obtain c v where v: "r_entryRef w = Some c" "entries h c = Some v" "e_resourcePtr v = Some r" "kind_ok (e_type v) (r_sub w)"
      by (rule attachedE [OF assms(1) w(1)])
    moreover have "c \<noteq> e" using v(2,3) assms(2) r by auto
    ultimately show ?thesis using w(2) assms(3) by (simp add: attached_def still_def)
  qed
  have ent: "entry_ok h' c v" if v: "entries h' c = Some v" for c v
  proof (cases "c = e")
    case True
    then show ?thesis using v assms(3,5,6) by (auto simp: entry_ok_def)
  next
    case False
    then have v': "entries h c = Some v" using v assms(3) by simp
    then have ok: "entry_ok h c v" using assms(1) by (simp add: attached_ok_def)
    show ?thesis
    proof (cases "e_resourcePtr v")
      case None
      then show ?thesis using ok by (simp add: entry_ok_def)
    next
      case (Some r)
      obtain w where w: "resources h r = Some w" "r_entryRef w = Some c" using ok Some by (auto simp: entry_ok_def)
      have "r \<notin> ?A"
      proof
        assume "r \<in> ?A"
        then have "e_resourcePtr y = Some r" using w(1) assms(4) by auto
        then show False using entry_resource [OF assms(1,2)] w False by force
      qed
      then obtain z where "resources h' r = Some z" "still w z" using others_Some [OF assms(8) _ w(1)] by metis
      then show ?thesis using Some w(2) by (simp add: entry_ok_def still_def)
    qed
  qed
  have obs: "obs_namespace h'" if g: "get_obs h' r \<noteq> None" for r
  proof -
    obtain z ob where z: "resources h' r = Some z" "r_sub z = Observation ob" using g by (auto simp: get_obs_Some)
    show ?thesis
    proof (cases "r = n")
      case True
      then have "t = ADMIN_ENTRY_TYPE_OBSERVATION" using z assms(5,7) by (cases t) auto
      then show ?thesis using assms(10,11) by simp
    next
      case False
      then have "r \<notin> ?A" using assms(9) z by auto
      then obtain w where w: "resources h r = Some w" "still w z" by (rule others_rev [OF assms(8) _ z(1)])
      then have "r_sub w = Observation ob" using z by (simp add: still_def)
      then have "get_obs h r \<noteq> None" using w by (simp add: get_obs_def)
      then show ?thesis using assms(1,10) by (auto simp: attached_ok_def)
    qed
  qed
  show ?thesis unfolding attached_ok_def using att ent obs by blast
qed

subsection \<open>The new resource in its place\<close>

lemma attach_ok:
  assumes "hub_ok L h" "entries h e = Some y" "e_resourcePtr y = None" "fresh_res h e t x"
  shows "hub_ok L (entry_set e y (Some (nextRes h)) t (with_new x h))"
proof -
  let ?n = "nextRes h"
  let ?g = "with_new x h"
  let ?h = "entry_set e y (Some ?n) t ?g"
  note ok = hub_okD [OF assms(1)] and new = not_yet [OF assms(1)]
  have x: "r_entryRef x = Some e" "r_srcPtr x = None" "r_destList x = []" "r_pushHandlerList x = []"
    "value_ok (nextBuff h) x" "kind_ok t (r_sub x)" "t = ADMIN_ENTRY_TYPE_OBSERVATION \<longrightarrow> obs_namespace h"
    using assms(4) by (simp_all add: fresh_res_def)
  have g: "entries ?g = entries h" "resources ?g = (resources h)(?n \<mapsto> x)" "nextRes ?g = Suc ?n"
    "RootPtr ?g = RootPtr h" "nextEntry ?g = nextEntry h" "handlers ?g = handlers h" "nextBuff ?g = nextBuff h"
    "nextHandler ?g = nextHandler h"
    by (simp_all add: with_new_def)
  have tree: "tree_ok L ?g" and ns: "obs_namespace ?g = obs_namespace h"
    using tree_cong [OF g(1,4,5)] ok(1) by simp_all
  have "others_still h ?h ({?n} \<union> set_option (e_resourcePtr y))"
    by (simp add: others_still_def g still_def option.rel_refl)
  then have "attached_ok ?h"
    using attached_swap [OF ok(2) assms(2), where h' = ?h and n = ?n and t = t and x = x] new(1) x assms(2,3) ns
    by (simp add: g entry_set_namespace)
  moreover have "dests ?g = dests h" "source ?g = source h" "heard ?g = heard h"
    using new(1) x(2-4) by (auto simp: fun_eq_iff dests_def source_def heard_def g)
  then have "routes_ok ?h" "numbered ?h"
    using ok(3,4) by (auto simp: routes_ok_def links_ok_def numbered_def g less_Suc_eq)
  moreover have "values_ok ?h" using ok(5) x(5) by (simp add: values_ok_def g)
  ultimately show ?thesis
    using entry_set_tree [OF tree, of e y] assms(2) by (simp add: hub_ok_def g)
qed

lemma acyclic_rename:
  assumes "finite R" "acyclic R" "inj f"
  shows "acyclic (map_prod f f ` R)"
  by (rule wf_acyclic, rule wf_map_prod_image [OF finite_acyclic_wf [OF assms(1,2)] assms(3)])

lemma still_relinked [simp]: "still z (relinked a b z)"
  by (simp add: still_def relinked_def)

text \<open>All that the new resource takes over is of the right type.\<close>

lemma moved_value:
  assumes "utf8_copy_ok L" "value_ok n x" "value_ok n y" "kind_ok t (r_sub y)"
  shows "value_ok n (moved L t x y)"
  using assms by (cases "(t, r_sub y)" rule: kind_ok.cases) (auto simp: value_ok_def moved_def move_current_def)

lemma moved_keeps [simp]:
  "r_entryRef (moved L t x y) = r_entryRef y" "r_sub (moved L t x y) = r_sub y"
  "r_srcPtr (moved L t x y) = r_srcPtr x" "r_destList (moved L t x y) = r_destList x"
  "r_pushHandlerList (moved L t x y) = r_pushHandlerList x"
  by (simp_all add: moved_def)

lemma shell_release:
  assumes "resources h r = Some (shell x)" "\<forall>ob. r_sub x \<noteq> Observation ob"
  shows "Release_Resource L r h = Some (h\<lparr>resources := (resources h)(r := None)\<rparr>)"
proof -
  have "r_sub (shell x) = r_sub x" by (simp add: shell_def)
  then show ?thesis
    using assms by (cases "r_sub x")
      (simp_all add: Release_Resource_def res_Destruct_def update_res_map shell_def handler_RemoveAll_def put_res_def)
qed

text \<open>The links afterwards: the new resource stands where the old one stood.\<close>

definition swapped :: "legato \<Rightarrow> admin_EntryType_t \<Rightarrow> rid \<Rightarrow> res_Resource_t \<Rightarrow> hub \<Rightarrow> rid \<Rightarrow> res_Resource_t option" where
  "swapped L t a x h q =
     (if q = a then None
      else if q = nextRes h then map_option (\<lambda>xa. moved L t xa x) (resources h a)
      else map_option (relinked a (nextRes h)) (resources h q))"

definition after_swap :: "legato \<Rightarrow> eid \<Rightarrow> Entry_t \<Rightarrow> admin_EntryType_t \<Rightarrow> rid \<Rightarrow> res_Resource_t \<Rightarrow> hub \<Rightarrow> hub" where
  "after_swap L e y t a x h =
     entry_set e y (Some (nextRes h)) t (h\<lparr>nextRes := Suc (nextRes h), resources := swapped L t a x h\<rparr>)"

lemma swap_links:
  assumes "hub_ok L h" "resources h a = Some xa" "resources h' = swapped L t a x h"
  shows "source h' = (\<lambda>q. if q = a then None else if q = nextRes h then source h a
      else if source h q = Some a then Some (nextRes h) else source h q)"
    "dests h' = (\<lambda>q. if q = a then [] else if q = nextRes h then dests h a
      else if a \<in> set (dests h q) then remove1 a (dests h q) @ [nextRes h] else dests h q)"
    "heard h' = (\<lambda>q. if q = a then [] else if q = nextRes h then heard h a else heard h q)"
proof -
  have "source h' q = (if q = a then None else if q = nextRes h then source h a
      else if source h q = Some a then Some (nextRes h) else source h q)
    \<and> dests h' q = (if q = a then [] else if q = nextRes h then dests h a
      else if a \<in> set (dests h q) then remove1 a (dests h q) @ [nextRes h] else dests h q)
    \<and> heard h' q = (if q = a then [] else if q = nextRes h then heard h a else heard h q)" for q
    using assms(2,3) not_yet(1) [OF assms(1)]
    by (cases "resources h q") (simp_all add: source_def dests_def heard_def swapped_def relinked_def)
  then show "source h' = (\<lambda>q. if q = a then None else if q = nextRes h then source h a
      else if source h q = Some a then Some (nextRes h) else source h q)"
    "dests h' = (\<lambda>q. if q = a then [] else if q = nextRes h then dests h a
      else if a \<in> set (dests h q) then remove1 a (dests h q) @ [nextRes h] else dests h q)"
    "heard h' = (\<lambda>q. if q = a then [] else if q = nextRes h then heard h a else heard h q)"
    by (simp_all add: fun_eq_iff)
qed

lemma swap_routes:
  assumes "hub_ok L h" "resources h a = Some xa" "resources h' = swapped L t a x h"
  shows "routes_ok h'"
proof -
  let ?n = "nextRes h"
  note ok = hub_okD [OF assms(1)] and new = not_yet [OF assms(1)]
  note links = swap_links [OF assms]
  have na: "?n \<noteq> a" using new(1) assms(2) by auto
  have mem: "d \<in> set (dests h s) \<longleftrightarrow> source h d = Some s" "distinct (dests h s)" for s d
    using ok(6) by (simp_all add: links_ok_def)
  have aa: "source h a \<noteq> Some a" using ok(3) by (auto simp: routes_ok_def routes_def acyclic_def)
  have "distinct (dests h' s)" for s
    using mem(2) new(3) by (auto simp: links(2) dest: notin_set_remove1)
  moreover have "d \<in> set (dests h' s) \<longleftrightarrow> source h' d = Some s" for s d
    using mem new(2-4) na aa by (auto simp: links(1,2))
  moreover have "acyclic (routes (source h'))"
  proof -
    define f where "f q = (if q = a then ?n else if q = ?n then a else q)" for q
    have "inj f" using na by (auto simp: f_def inj_def split: if_splits)
    then have "acyclic (map_prod f f ` routes (source h))"
      using ok(3) finite_routes [OF ok(6,4)] by (intro acyclic_rename) (simp_all add: routes_ok_def)
    moreover have "routes (source h') \<subseteq> map_prod f f ` routes (source h)"
    proof
      fix p assume "p \<in> routes (source h')"
      then obtain s d where p: "p = (s, d)" "source h' d = Some s" by (auto simp: routes_def)
      then have "source h (f d) = Some (f s)"
        using new(2-4) na aa by (auto simp: links(1) f_def split: if_splits)
      moreover have "f (f s) = s" "f (f d) = d" using na by (simp_all add: f_def)
      ultimately show "p \<in> map_prod f f ` routes (source h)"
        using p(1) by (auto simp: routes_def map_prod_def intro!: image_eqI [of _ _ "(f s, f d)"])
    qed
    ultimately show ?thesis by (rule acyclic_subset)
  qed
  ultimately show ?thesis by (simp add: routes_ok_def links_ok_def)
qed

lemma swap_ok:
  assumes "utf8_copy_ok L" "hub_ok L h" "entries h e = Some y" "e_resourcePtr y = Some a" "fresh_res h e t x"
  shows "hub_ok L (after_swap L e y t a x h)"
proof -
  let ?n = "nextRes h"
  let ?g = "h\<lparr>nextRes := Suc (nextRes h), resources := swapped L t a x h\<rparr>"
  let ?h = "after_swap L e y t a x h"
  note ok = hub_okD [OF assms(2)] and new = not_yet [OF assms(2)]
  have x: "r_entryRef x = Some e" "value_ok (nextBuff h) x" "kind_ok t (r_sub x)"
    "t = ADMIN_ENTRY_TYPE_OBSERVATION \<longrightarrow> obs_namespace h"
    using assms(5) by (simp_all add: fresh_res_def)
  obtain xa where xa: "resources h a = Some xa" by (rule entry_resource [OF ok(2) assms(3,4)])
  have na: "?n \<noteq> a" using new(1) xa by auto
  have tree: "tree_ok L ?g" and ns: "obs_namespace ?g = obs_namespace h"
    using tree_cong [of ?g h] ok(1) by simp_all
  have res: "resources ?h = swapped L t a x h" by (simp add: after_swap_def)
  have n: "swapped L t a x h ?n = Some (moved L t xa x)" "swapped L t a x h a = None"
    using na xa by (simp_all add: swapped_def)
  have "rel_option still (resources h q) (resources ?h q)" if "q \<notin> {?n, a}" for q
    using that by (cases "resources h q") (simp_all add: res swapped_def)
  then have "others_still h ?h ({?n} \<union> set_option (e_resourcePtr y))"
    using assms(4) by (simp add: others_still_def)
  then have "attached_ok ?h"
    using attached_swap [OF ok(2) assms(3), where h' = ?h and n = ?n and t = t and x = "moved L t xa x"]
      new(1) x n assms(3,4) ns res by (simp add: after_swap_def entry_set_namespace)
  moreover have "routes_ok ?h" by (rule swap_routes [OF assms(2) xa res])
  moreover have "numbered ?h"
  proof -
    have "resources ?h r \<noteq> None \<Longrightarrow> r < Suc ?n" for r
      using ok(4) by (auto simp: res swapped_def numbered_def less_Suc_eq split: if_splits)
    then show ?thesis
      using ok(4) na unfolding numbered_def swap_links(3) [OF assms(2) xa res]
      by (auto simp: after_swap_def)
  qed
  moreover have "values_ok ?h"
    unfolding values_ok_def
  proof (intro allI impI)
    fix r z assume z: "resources ?h r = Some z"
    have old: "value_ok (nextBuff h) w" if "resources h q = Some w" for q w using values_okD [OF ok(5) that] .
    have "value_ok (nextBuff h) z"
    proof (cases "r = ?n")
      case True
      then show ?thesis using z n(1) moved_value [OF assms(1) old [OF xa] x(2,3)] by (simp add: res)
    next
      case False
      then obtain w where "resources h r = Some w" "z = relinked a ?n w"
        using z by (auto simp: res swapped_def split: if_splits)
      then show ?thesis using old [of r w] by (simp add: value_ok_def relinked_def)
    qed
    then show "value_ok (nextBuff ?h) z" by (simp add: after_swap_def)
  qed
  ultimately show ?thesis
    using entry_set_tree [OF tree, of e y] assms(3) by (simp add: hub_ok_def after_swap_def)
qed

subsection \<open>Replacing\<close>

lemma with_new_frame:
  "entries (with_new x h) = entries h" "resources (with_new x h) = (resources h)(nextRes h \<mapsto> x)"
  "RootPtr (with_new x h) = RootPtr h" "nextEntry (with_new x h) = nextEntry h"
  "with_new x h\<lparr>resources := R\<rparr> = h\<lparr>nextRes := Suc (nextRes h), resources := R\<rparr>"
  by (simp_all add: with_new_def put_res_def)

lemma Replace_attach:
  assumes "entries h e = Some y" "e_resourcePtr y = None"
  shows "ReplaceResource L e (nextRes h) t (with_new x h) = Some (entry_set e y (Some (nextRes h)) t (with_new x h))"
  using assms by (simp add: ReplaceResource_def with_new_frame entry_set_def)

lemma Replace_swap:
  assumes "hub_ok L h" "entries h e = Some y" "e_resourcePtr y = Some a" "fresh_res h e t x"
    "e_type y \<noteq> ADMIN_ENTRY_TYPE_OBSERVATION"
  shows "ReplaceResource L e (nextRes h) t (with_new x h) = Some (after_swap L e y t a x h)"
proof -
  let ?n = "nextRes h"
  let ?g = "with_new x h"
  note ok = hub_okD [OF assms(1)] and new = not_yet [OF assms(1)]
  obtain xa where xa: "resources h a = Some xa" "r_entryRef xa = Some e" "kind_ok (e_type y) (r_sub xa)"
    by (rule entry_resource [OF ok(2) assms(2,3)])
  have na: "?n \<noteq> a" using new(1) xa(1) by auto
  have x: "r_entryRef x = Some e" "r_srcPtr x = None" "r_destList x = []" "r_pushHandlerList x = []"
    using assms(4) by (simp_all add: fresh_res_def)
  have links: "dests ?g = dests h" "source ?g = source h"
    using new(1) x by (auto simp: fun_eq_iff dests_def source_def with_new_frame)
  have "links_ok ?g" using ok(6) by (simp add: links_ok_def links)
  moreover have "source ?g a \<noteq> Some a" using ok(3) by (auto simp: links routes_ok_def routes_def acyclic_def)
  ultimately have "res_MoveAdminSettings L a ?n t ?g = Some (?g\<lparr>resources := replaced L t a ?n ?g\<rparr>)"
    using MoveAdminSettings_eq [of ?g a xa ?n x L t] xa x na by (simp add: with_new_frame)
  moreover have "\<forall>ob. r_sub xa \<noteq> Observation ob" using xa(3) assms(5) by (cases "e_type y") auto
  moreover have "replaced L t a ?n ?g a = Some (shell xa)" using xa na by (simp add: replaced_def with_new_frame)
  moreover have "(replaced L t a ?n ?g)(a := None) = swapped L t a x h"
    using xa na by (auto simp: fun_eq_iff replaced_def swapped_def with_new_frame)
  ultimately show ?thesis
    using assms(2,3) shell_release [of "?g\<lparr>resources := replaced L t a ?n ?g\<rparr>" a xa L]
    by (simp add: ReplaceResource_def with_new_frame after_swap_def entry_set_def)
qed

text \<open>Either way the result is a hub in order, with the new resource in its place.\<close>

definition placed :: "legato \<Rightarrow> eid \<Rightarrow> Entry_t \<Rightarrow> admin_EntryType_t \<Rightarrow> res_Resource_t \<Rightarrow> hub \<Rightarrow> hub" where
  "placed L e y t x h =
     (case e_resourcePtr y of
        None \<Rightarrow> entry_set e y (Some (nextRes h)) t (with_new x h)
      | Some a \<Rightarrow> after_swap L e y t a x h)"

lemma Replace_ok:
  assumes "utf8_copy_ok L" "hub_ok L h" "entries h e = Some y" "fresh_res h e t x"
    "e_type y \<noteq> ADMIN_ENTRY_TYPE_OBSERVATION"
  shows "ReplaceResource L e (nextRes h) t (with_new x h) = Some (placed L e y t x h)"
    "hub_ok L (placed L e y t x h)"
proof -
  show "ReplaceResource L e (nextRes h) t (with_new x h) = Some (placed L e y t x h)"
    using Replace_attach [OF assms(3)] Replace_swap [OF assms(2,3) _ assms(4,5)]
    by (simp add: placed_def split: option.split)
  show "hub_ok L (placed L e y t x h)"
    using attach_ok [OF assms(2,3) _ assms(4)] swap_ok [OF assms(1-3) _ assms(4)]
    by (simp add: placed_def split: option.split)
qed

end
