(* ===== verification/TreeSpec.thy ===== *)
theory TreeSpec
  imports MoveSpec
begin

text \<open>
  Inputs, outputs and placeholders that are asked for at a path: the entry is found or created, what was
  there is replaced, and its settings stay.
\<close>

subsection \<open>Growth of the tree\<close>

text \<open>Only bare namespaces are added on the way to an entry.\<close>

definition sprouted :: "hub \<Rightarrow> hub \<Rightarrow> bool" where
  "sprouted h h' \<longleftrightarrow>
     h' = h\<lparr>entries := entries h', nextEntry := nextEntry h'\<rparr> \<and>
     (\<forall>e z. entries h' e = Some z \<longrightarrow>
        (e_type z = ADMIN_ENTRY_TYPE_NAMESPACE \<and> e_resourcePtr z = None) \<or>
        (\<exists>x. entries h e = Some x \<and> e_type z = e_type x \<and> e_resourcePtr z = e_resourcePtr x))"

lemma sproutedD:
  "sprouted h h' \<Longrightarrow> entries h' e = Some z \<Longrightarrow>
   (e_type z = ADMIN_ENTRY_TYPE_NAMESPACE \<and> e_resourcePtr z = None) \<or>
   (\<exists>x. entries h e = Some x \<and> e_type z = e_type x \<and> e_resourcePtr z = e_resourcePtr x)"
  by (simp add: sprouted_def)

lemma sprouted_refl: "sprouted h h"
  by (simp add: sprouted_def)

lemma sprouted_trans:
  assumes "sprouted h g" "sprouted g h'"
  shows "sprouted h h'"
proof -
  have g: "g = h\<lparr>entries := entries g, nextEntry := nextEntry g\<rparr>"
    and h': "h' = g\<lparr>entries := entries h', nextEntry := nextEntry h'\<rparr>"
    using assms by (simp_all add: sprouted_def)
  have "h' = h\<lparr>entries := entries h', nextEntry := nextEntry h'\<rparr>"
    by (subst h', subst g) simp
  moreover have "(e_type z = ADMIN_ENTRY_TYPE_NAMESPACE \<and> e_resourcePtr z = None) \<or>
      (\<exists>x. entries h e = Some x \<and> e_type z = e_type x \<and> e_resourcePtr z = e_resourcePtr x)"
    if "entries h' e = Some z" for e z
    using assms that unfolding sprouted_def by metis
  ultimately show ?thesis by (simp add: sprouted_def)
qed

lemma AddChild_sprouts:
  assumes "AddChild L p n h = Some (c, h')"
  shows "sprouted h h'"
  using assms
  by (auto simp: AddChild_def sprouted_def put_entry_def bind_Some_iff Let_def split: if_splits prod.splits)

text \<open>What every new child keeps is kept on the whole way.\<close>

lemma GoToEntryLoop_keeps:
  assumes "\<And>p n h c h'. P h \<Longrightarrow> AddChild L p n h = Some (c, h') \<Longrightarrow> P h'"
  shows "P h \<Longrightarrow> GoToEntryLoop L e path b h = Some (r, h') \<Longrightarrow> P h'"
proof (induction "length path" arbitrary: e path h rule: less_induct)
  case less
  define p where "p = (if char_at path = Some (CHR ''/'') then tl path else path)"
  define name where "name = takeWhile (\<lambda>c. c \<noteq> CHR ''/'') p"
  define rest where "rest = dropWhile (\<lambda>c. c \<noteq> CHR ''/'') p"
  show ?case
  proof (cases "path = [] \<or> name = [] \<or> length name \<ge> HUB_MAX_ENTRY_NAME_BYTES L")
    case True
    then show ?thesis
      using less.prems unfolding GoToEntryLoop.simps [of L e path b h] Let_def p_def [symmetric] name_def [symmetric]
      by (auto split: if_splits)
  next
    case False
    then have ne: "path \<noteq> []" "name \<noteq> []" "length name < HUB_MAX_ENTRY_NAME_BYTES L" by auto
    note step = GoToEntryLoop_step [OF ne(1) p_def name_def rest_def ne(2,3), of e b h]
    have shorter: "length rest < length path"
      using ne(1,2) path_rest_shorter [of path "\<lambda>c. c \<noteq> CHR ''/''" "char_at path = Some (CHR ''/'')"]
      unfolding rest_def name_def p_def by simp
    show ?thesis
    proof (cases "resTree_FindChild h e name")
      case None
      then show ?thesis using less.prems step by simp
    next
      case (Some c)
      show ?thesis
      proof (cases c)
        case (Some child)
        then show ?thesis
          using less.prems step \<open>resTree_FindChild h e name = Some c\<close> less.hyps [OF shorter] by simp
      next
        case None
        then show ?thesis
          using less.prems step \<open>resTree_FindChild h e name = Some c\<close> less.hyps [OF shorter assms [OF less.prems(1)]]
          by (auto split: if_splits option.splits)
      qed
    qed
  qed
qed

lemma GoToEntry_keeps:
  assumes "\<And>p n h c h'. P h \<Longrightarrow> AddChild L p n h = Some (c, h') \<Longrightarrow> P h'" "P h" "GoToEntry L e path b h = Some (r, h')"
  shows "P h'"
  using GoToEntryLoop_keeps [of P L h e path b r h'] assms by (auto simp: GoToEntry_def split: if_splits)

lemma GoToEntry_sprouts: "GoToEntry L e path b h = Some (r, h') \<Longrightarrow> sprouted h h'"
  using GoToEntry_keeps [of "sprouted h" L h e path b r h'] AddChild_sprouts sprouted_trans sprouted_refl by blast

lemma sprouted_frame:
  assumes "sprouted h h'"
  shows "resources h' = resources h" "handlers h' = handlers h" "nextRes h' = nextRes h"
    "nextHandler h' = nextHandler h" "nextBuff h' = nextBuff h" "RootPtr h' = RootPtr h"
    "dests h' = dests h" "source h' = source h" "heard h' = heard h" "get_obs h' = get_obs h"
    "treeHandlers h' = treeHandlers h" "IsUpdateInProgress h' = IsUpdateInProgress h"
proof -
  have "h' = h\<lparr>entries := entries h', nextEntry := nextEntry h'\<rparr>" using assms by (simp add: sprouted_def)
  then obtain E k where h': "h' = h\<lparr>entries := E, nextEntry := k\<rparr>" by blast
  show "resources h' = resources h" "handlers h' = handlers h" "nextRes h' = nextRes h"
    "nextHandler h' = nextHandler h" "nextBuff h' = nextBuff h" "RootPtr h' = RootPtr h"
    "dests h' = dests h" "source h' = source h" "heard h' = heard h" "get_obs h' = get_obs h"
    "treeHandlers h' = treeHandlers h" "IsUpdateInProgress h' = IsUpdateInProgress h"
    unfolding h' by (simp_all add: fun_eq_iff dests_def source_def heard_def get_obs_def)
qed

lemma grown_obs_namespace:
  assumes "tree_ok L h" "grown h h'" "obs_namespace h"
  shows "obs_namespace h'"
proof -
  obtain x c where c: "entries h (RootPtr h) = Some x" "c \<in> set (e_childList x)" "name_of h c = ''obs''"
    using assms(3) by (auto simp: obs_namespace_def)
  obtain y cs where y: "entries h' (RootPtr h) = Some y" "e_childList y = e_childList x @ cs"
    by (rule grown_entry [OF assms(2) c(1)])
  obtain z where z: "entries h c = Some z" using children_okD [OF tree_okD(2) [OF assms(1) c(1)] c(2)] by blast
  obtain z' where "entries h' c = Some z'" "e_name z' = e_name z" by (rule grown_entry [OF assms(2) z])
  then have "name_of h' c = ''obs''" using c(3) z by (simp add: name_of_def)
  moreover have "RootPtr h' = RootPtr h" using assms(2) by (simp add: grown_def)
  ultimately show ?thesis using y c(2) by (auto simp: obs_namespace_def)
qed

lemma sprout_ok:
  assumes "hub_ok L h" "sprouted h h'" "grown h h'" "tree_ok L h'"
  shows "hub_ok L h'"
proof -
  note ok = hub_okD [OF assms(1)] and f = sprouted_frame [OF assms(2)]
  have "attached h' r x" if x: "resources h r = Some x" for r x
  proof -
    obtain e y where y: "r_entryRef x = Some e" "entries h e = Some y" "e_resourcePtr y = Some r"
      "kind_ok (e_type y) (r_sub x)" by (rule attachedE [OF ok(2) x])
    obtain z where "entries h' e = Some z" "e_type z = e_type y" "e_resourcePtr z = e_resourcePtr y"
      by (rule grown_entry [OF assms(3) y(2)])
    then show ?thesis using y by (simp add: attached_def)
  qed
  moreover have "entry_ok h' e z" if z: "entries h' e = Some z" for e z
  proof -
    consider "e_type z = ADMIN_ENTRY_TYPE_NAMESPACE" "e_resourcePtr z = None"
      | x where "entries h e = Some x" "e_type z = e_type x" "e_resourcePtr z = e_resourcePtr x"
      using sproutedD [OF assms(2) z] by auto
    then show ?thesis
    proof cases
      case 1
      then show ?thesis by (simp add: entry_ok_def)
    next
      case 2
      moreover have "entry_ok h e x" using ok(2) 2(1) by (simp add: attached_ok_def)
      ultimately show ?thesis by (auto simp: entry_ok_def f(1) split: option.splits)
    qed
  qed
  moreover have "(\<exists>r. get_obs h' r \<noteq> None) \<longrightarrow> obs_namespace h'"
    using grown_obs_namespace [OF ok(1) assms(3)] ok(2) by (auto simp: attached_ok_def f(10))
  ultimately have "attached_ok h'" by (simp add: attached_ok_def f(1))
  then show ?thesis
    using ok(3-5) assms(4) by (simp add: hub_ok_def routes_ok_def links_ok_def numbered_def values_ok_def f)
qed

lemma GoTo_ok:
  assumes "framework_ok L" "hub_ok L h" "entries h base \<noteq> None"
  shows "\<exists>r h'. GoToEntry L base path True h = Some (r, h') \<and> hub_ok L h' \<and> sprouted h h' \<and> grown h h' \<and>
    (\<forall>e. r = Some e \<longrightarrow> entries h' e \<noteq> None \<and> resTree_FindEntry L h' base path = Some (Some e))"
proof -
  obtain r h' where g: "GoToEntry L base path True h = Some (r, h')" "tree_ok L h'" "grown h h'"
    "\<forall>e. r = Some e \<longrightarrow> entries h' e \<noteq> None \<and> resTree_FindEntry L h' base path = Some (Some e)"
    using GoToEntry_ok [OF framework_okD(1) [OF assms(1)] hub_okD(1) [OF assms(2)] assms(3), of path True] by blast
  have "sprouted h h'" by (rule GoToEntry_sprouts [OF g(1)])
  then show ?thesis using sprout_ok [OF assms(2) _ g(3,2)] g by blast
qed

subsection \<open>Entries that stay\<close>

text \<open>All entries but some stay where they are in the tree, with their names.\<close>

definition kept :: "eid set \<Rightarrow> hub \<Rightarrow> hub \<Rightarrow> bool" where
  "kept X h h' \<longleftrightarrow> RootPtr h' = RootPtr h \<and>
     (\<forall>e. e \<notin> X \<longrightarrow> entries h e \<noteq> None \<longrightarrow>
        map_option (\<lambda>y. (e_parentPtr y, e_name y)) (entries h' e) = map_option (\<lambda>y. (e_parentPtr y, e_name y)) (entries h e))"

lemma keptD:
  "kept X h h' \<Longrightarrow> entries h e = Some y \<Longrightarrow> e \<notin> X \<Longrightarrow>
   \<exists>z. entries h' e = Some z \<and> e_parentPtr z = e_parentPtr y \<and> e_name z = e_name y"
  by (auto simp: kept_def)

lemma kept_root: "kept X h h' \<Longrightarrow> RootPtr h' = RootPtr h"
  by (simp add: kept_def)

lemma kept_trans:
  assumes "kept X h g" "kept Y g h'"
  shows "kept (X \<union> Y) h h'"
  unfolding kept_def
proof (intro conjI allI impI)
  show "RootPtr h' = RootPtr h" using assms by (simp add: kept_def)
  fix e assume e: "e \<notin> X \<union> Y" "entries h e \<noteq> None"
  then obtain y where y: "entries h e = Some y" by auto
  then obtain z where z: "entries g e = Some z" "e_parentPtr z = e_parentPtr y" "e_name z = e_name y"
    using keptD [OF assms(1)] e by blast
  then show "map_option (\<lambda>y. (e_parentPtr y, e_name y)) (entries h' e) = map_option (\<lambda>y. (e_parentPtr y, e_name y)) (entries h e)"
    using keptD [OF assms(2) z(1)] e y by auto
qed

lemma kept_same: "entries h' = entries h \<Longrightarrow> RootPtr h' = RootPtr h \<Longrightarrow> kept X h h'"
  by (simp add: kept_def)

lemma kept_grown: "grown h h' \<Longrightarrow> kept X h h'"
  unfolding kept_def grown_def by fastforce

lemma kept_weaken: "kept X h h' \<Longrightarrow> X \<subseteq> Y \<Longrightarrow> kept Y h h'"
  by (auto simp: kept_def)

subsection \<open>New inputs, outputs and placeholders\<close>

definition new_io :: "legato \<Rightarrow> eid \<Rightarrow> io_DataType_t \<Rightarrow> string \<Rightarrow> bool \<Rightarrow> res_Resource_t" where
  "new_io L e t units mandatory = (res_Construct e)
     \<lparr>r_sub := IoPoint \<lparr> io_dataType = t, io_isMandatory = mandatory \<rparr>, r_currentType := t,
      r_units := snd (utf8_Copy L units HUB_MAX_UNITS_BYTES)\<rparr>"

lemma CreateInput_new:
  "res_CreateInput L e t units h = Some (nextRes h, with_new (new_io L e t units False) h)"
  by (simp add: res_CreateInput_def ioPoint_CreateInput_def ioPoint_Create_def alloc_res_def update_res_def SetUnits_def
      put_res_def with_new_def new_io_def)

lemma CreateOutput_new:
  "res_CreateOutput L e t units h = Some (nextRes h, with_new (new_io L e t units True) h)"
  by (simp add: res_CreateOutput_def ioPoint_CreateOutput_def ioPoint_Create_def alloc_res_def update_res_def SetUnits_def
      put_res_def with_new_def new_io_def io_part_def)

lemma CreatePlaceholder_new: "res_CreatePlaceholder e h = (nextRes h, with_new (res_Construct e) h)"
  by (simp add: res_CreatePlaceholder_def alloc_res_def with_new_def)

lemma fresh_io:
  assumes "utf8_copy_ok L" "t = ADMIN_ENTRY_TYPE_INPUT \<or> t = ADMIN_ENTRY_TYPE_OUTPUT"
  shows "fresh_res h e t (new_io L e d units b)"
  using assms by (auto simp: fresh_res_def new_io_def res_Construct_def value_ok_def)

lemma fresh_placeholder: "fresh_res h e ADMIN_ENTRY_TYPE_PLACEHOLDER (res_Construct e)"
  using res_Construct_value [of "nextBuff h" e] by (simp add: fresh_res_def) (simp add: res_Construct_def)

subsection \<open>What a new resource takes over\<close>

definition took_over :: "res_Resource_t \<Rightarrow> res_Resource_t \<Rightarrow> bool" where
  "took_over x z \<longleftrightarrow>
     r_overrideValue z = r_overrideValue x \<and> r_overrideType z = r_overrideType x \<and>
     r_defaultValue z = r_defaultValue x \<and> r_defaultType z = r_defaultType x \<and>
     r_pushHandlerList z = r_pushHandlerList x \<and> r_srcPtr z = r_srcPtr x \<and> r_destList z = r_destList x \<and>
     r_isConfigChanging z = r_isConfigChanging x \<and>
     r_pushedValue z = r_pushedValue x \<and> r_pushedType z = r_pushedType x \<and>
     r_currentValue z = (if r_currentType z = r_currentType x then r_currentValue x else None)"

definition resource_at :: "hub \<Rightarrow> eid \<Rightarrow> res_Resource_t option" where
  "resource_at h e = do { y \<leftarrow> entries h e; r \<leftarrow> e_resourcePtr y; resources h r }"

lemma sprouted_resource_at:
  assumes "sprouted h h'" "grown h h'"
  shows "resource_at h' e = resource_at h e"
proof (cases "entries h' e")
  case None
  then show ?thesis using grown_live [OF assms(2), of e] by (cases "entries h e") (simp_all add: resource_at_def)
next
  case (Some z)
  consider x where "entries h e = Some x" "e_resourcePtr z = e_resourcePtr x"
    | "entries h e = None" "e_resourcePtr z = None"
  proof (cases "entries h e")
    case None
    then show thesis using sproutedD [OF assms(1) Some] that(2) by auto
  next
    case (Some x)
    then show thesis using that(1) grown_entry [OF assms(2) Some] \<open>entries h' e = Some z\<close> by (metis option.inject)
  qed
  then show ?thesis
    using Some sprouted_frame(1) [OF assms(1)] by cases (simp_all add: resource_at_def)
qed

lemma placed_entry:
  assumes "entries h e = Some y"
  shows "entries (placed L e y t x h) = (entries h)(e \<mapsto> y\<lparr>e_resourcePtr := Some (nextRes h), e_type := t\<rparr>)"
    "same_names h (placed L e y t x h)" "nextRes (placed L e y t x h) = Suc (nextRes h)"
    "RootPtr (placed L e y t x h) = RootPtr h" "treeHandlers (placed L e y t x h) = treeHandlers h"
    "clock (placed L e y t x h) = clock h" "IsUpdateInProgress (placed L e y t x h) = IsUpdateInProgress h"
  using assms
  by (auto simp: placed_def after_swap_def with_new_frame same_names_def entry_set_def with_new_def split: option.split)

lemma placed_kept: "entries h e = Some y \<Longrightarrow> kept X h (placed L e y t x h)"
  using placed_entry(1,4) [of h e y L t x] by (simp add: kept_def)

lemma placed_resource:
  assumes "hub_ok L h" "entries h e = Some y" "fresh_res h e t x"
  shows "\<exists>z. resources (placed L e y t x h) (nextRes h) = Some z \<and> r_sub z = r_sub x \<and>
    (t = ADMIN_ENTRY_TYPE_INPUT \<or> t = ADMIN_ENTRY_TYPE_OUTPUT \<longrightarrow> r_units z = r_units x \<and> r_currentType z = r_currentType x) \<and>
    (case resource_at h e of
       None \<Rightarrow> z = x
     | Some xa \<Rightarrow> z = moved L t xa x)"
proof (cases "e_resourcePtr y")
  case None
  then show ?thesis using assms(2) by (simp add: placed_def with_new_frame resource_at_def)
next
  case (Some a)
  obtain xa where xa: "resources h a = Some xa"
    by (rule entry_resource [OF hub_okD(2) [OF assms(1)] assms(2) Some])
  then have "a \<noteq> nextRes h" using not_yet(1) [OF assms(1)] by auto
  then show ?thesis
    using Some xa assms(2) by (auto simp: placed_def after_swap_def swapped_def resource_at_def moved_def move_current_def)
qed

lemma moved_took_over:
  assumes "r_currentValue y = None"
  shows "t = ADMIN_ENTRY_TYPE_INPUT \<or> t = ADMIN_ENTRY_TYPE_OUTPUT \<Longrightarrow> took_over x (moved L t x y)"
  using assms by (auto simp: took_over_def moved_def move_current_def)

text \<open>Every entry holds a reference of its own besides those of its children.\<close>

definition own_ref :: "Entry_t \<Rightarrow> bool" where
  "own_ref y \<longleftrightarrow> e_refCount y = Suc (length (e_childList y))"

definition owned :: "hub \<Rightarrow> bool" where
  "owned h \<longleftrightarrow> (\<forall>e y. entries h e = Some y \<longrightarrow> own_ref y)"

lemma AddChild_owned: "owned h \<Longrightarrow> AddChild L p n h = Some (c, h') \<Longrightarrow> owned h'"
  by (auto simp: AddChild_def owned_def own_ref_def put_entry_def bind_Some_iff Let_def split: if_splits prod.splits)

lemma GoToEntry_owned: "owned h \<Longrightarrow> GoToEntry L e path b h = Some (r, h') \<Longrightarrow> owned h'"
  using GoToEntry_keeps [of owned L h e path b r h'] AddChild_owned by blast

lemma placed_owned: "owned h \<Longrightarrow> entries h e = Some y \<Longrightarrow> owned (placed L e y t x h)"
  using placed_entry(1) [of h e y L t x] by (auto simp: owned_def own_ref_def)

text \<open>The part the operations share: the new resource is put in place, and the handlers are told.\<close>

lemma tell_ok:
  assumes "hub_ok L h" "entries h e \<noteq> None"
  shows "\<exists>ev. CallResourceTreeChangeHandlers L e t op h = Some (h\<lparr>events := ev\<rparr>) \<and> hub_ok L (h\<lparr>events := ev\<rparr>)"
proof -
  have "\<exists>r p. resTree_GetPath L h HUB_MAX_RESOURCE_PATH_BYTES (RootPtr h) e = Some (r, p)"
    by (rule GetPath_total [OF hub_okD(1) [OF assms(1)] assms(2)]) (simp add: HUB_MAX_RESOURCE_PATH_BYTES_def)
  then obtain r p where "resTree_GetPath L h HUB_MAX_RESOURCE_PATH_BYTES (RootPtr h) e = Some (r, p)" by blast
  then show ?thesis
    using clock_ok(2) [OF assms(1)]
    by (simp add: CallResourceTreeChangeHandlers_def admin_CallResourceTreeChangeHandlers_def) (rule exI, rule refl)
qed

definition io_added :: "legato \<Rightarrow> eid \<Rightarrow> admin_EntryType_t \<Rightarrow> res_Resource_t \<Rightarrow> hub \<Rightarrow> hub \<Rightarrow> bool" where
  "io_added L e t x h h' \<longleftrightarrow>
     (\<exists>y z. entries h' e = Some y \<and> e_type y = t \<and> resource_at h' e = Some z \<and>
        r_sub z = r_sub x \<and> r_units z = r_units x \<and> r_currentType z = r_currentType x \<and>
        (case resource_at h e of None \<Rightarrow> z = x | Some xa \<Rightarrow> took_over xa z))"

lemma add_io:
  assumes "framework_ok L" "hub_ok L h" "entries h e = Some y" "t = ADMIN_ENTRY_TYPE_INPUT \<or> t = ADMIN_ENTRY_TYPE_OUTPUT"
    "e_type y \<noteq> ADMIN_ENTRY_TYPE_OBSERVATION" "x = new_io L e d units b"
  obtains h' where "do { h \<leftarrow> ReplaceResource L e (nextRes h) t (with_new x h);
       h \<leftarrow> CallResourceTreeChangeHandlers L e t ADMIN_RESOURCE_ADDED h; Some (Some e, h) } = Some (Some e, h')"
    "hub_ok L h'" "io_added L e t x h h'" "same_names h h'" "owned h \<longrightarrow> owned h'" "kept {} h h'"
proof -
  note u = framework_okD(1) [OF assms(1)]
  have x: "fresh_res h e t x" using fresh_io [OF u assms(4)] by (simp add: assms(6))
  note r = Replace_ok [OF u assms(2,3) x assms(5)] and pe = placed_entry [OF assms(3), of L t x]
  obtain ev where ev: "CallResourceTreeChangeHandlers L e t ADMIN_RESOURCE_ADDED (placed L e y t x h)
      = Some (placed L e y t x h\<lparr>events := ev\<rparr>)" "hub_ok L (placed L e y t x h\<lparr>events := ev\<rparr>)"
    using tell_ok [OF r(2), of e t ADMIN_RESOURCE_ADDED] pe(1) by auto
  let ?h = "placed L e y t x h\<lparr>events := ev\<rparr>"
  obtain z where z: "resources ?h (nextRes h) = Some z" "r_sub z = r_sub x" "r_units z = r_units x"
    "r_currentType z = r_currentType x"
    "case resource_at h e of None \<Rightarrow> z = x | Some xa \<Rightarrow> z = moved L t xa x"
    using placed_resource [OF assms(2,3) x] assms(4) by auto
  have v: "r_currentValue x = None" by (simp add: assms(6) new_io_def res_Construct_def)
  have "io_added L e t x h ?h"
    using z pe(1) moved_took_over [OF v assms(4)]
    by (auto simp: io_added_def resource_at_def split: option.splits)
  moreover have "same_names h ?h" using pe(2) by (simp add: same_names_def)
  moreover have "owned h \<longrightarrow> owned ?h" using placed_owned [of h e y L t x] assms(3) by (simp add: owned_def)
  moreover have "kept {} h ?h" using placed_kept [OF assms(3), of "{}" L t x] by (simp add: kept_def)
  ultimately show thesis using that ev r(1) by simp
qed

lemma GoToEntryLoop_found:
  "GoToEntryLoop L e path False h = Some (Some e', h') \<Longrightarrow> GoToEntryLoop L e path True h = Some (Some e', h)"
proof (induction "length path" arbitrary: e path rule: less_induct)
  case less
  define p where "p = (if char_at path = Some (CHR ''/'') then tl path else path)"
  define name where "name = takeWhile (\<lambda>c. c \<noteq> CHR ''/'') p"
  define rest where "rest = dropWhile (\<lambda>c. c \<noteq> CHR ''/'') p"
  show ?case
  proof (cases "path = [] \<or> name = [] \<or> length name \<ge> HUB_MAX_ENTRY_NAME_BYTES L")
    case True
    then show ?thesis
      using less.prems unfolding GoToEntryLoop.simps [of L e path] Let_def p_def [symmetric] name_def [symmetric]
      by (auto split: if_splits)
  next
    case False
    then have ne: "path \<noteq> []" "name \<noteq> []" "length name < HUB_MAX_ENTRY_NAME_BYTES L" by auto
    note step = GoToEntryLoop_step [OF ne(1) p_def name_def rest_def ne(2,3), of e]
    have "length rest < length path"
      using ne(1,2) path_rest_shorter [of path "\<lambda>c. c \<noteq> CHR ''/''" "char_at path = Some (CHR ''/'')"]
      unfolding rest_def name_def p_def by simp
    then show ?thesis
      using less.hyps less.prems by (simp add: step split: option.splits)
  qed
qed

lemma GoToEntry_found: "resTree_FindEntry L h e path = Some (Some e') \<Longrightarrow> GoToEntry L e path True h = Some (Some e', h)"
  using GoToEntryLoop_found [of L e path h e']
  by (auto simp: resTree_FindEntry_def GoToEntry_def split: if_splits)

text \<open>Whether a path leads to something that an input or output can replace.\<close>

definition occupied :: "hub \<Rightarrow> eid \<Rightarrow> bool" where
  "occupied h e \<longleftrightarrow>
     (\<exists>y. entries h e = Some y \<and>
        e_type y \<in> {ADMIN_ENTRY_TYPE_INPUT, ADMIN_ENTRY_TYPE_OUTPUT, ADMIN_ENTRY_TYPE_OBSERVATION})"

lemma no_none_type:
  assumes "attached_ok h" "entries h e = Some y"
  shows "e_type y \<noteq> ADMIN_ENTRY_TYPE_NONE"
proof
  assume n: "e_type y = ADMIN_ENTRY_TYPE_NONE"
  show False
  proof (cases "e_resourcePtr y")
    case None
    have "entry_ok h e y" using assms by (simp add: attached_ok_def)
    then show False using n None by (simp add: entry_ok_def)
  next
    case (Some r)
    show False by (rule entry_resource [OF assms Some]) (use n in simp)
  qed
qed

text \<open>What asking for an input or output promises.\<close>

definition io_promise ::
  "legato \<Rightarrow> eid \<Rightarrow> string \<Rightarrow> io_DataType_t \<Rightarrow> string \<Rightarrow> admin_EntryType_t \<Rightarrow> bool \<Rightarrow> hub \<Rightarrow> eid option \<Rightarrow> hub \<Rightarrow> bool" where
  "io_promise L base path d units t m h r h' \<longleftrightarrow>
     hub_ok L h' \<and> (owned h \<longrightarrow> owned h') \<and> kept {} h h' \<and>
     (case r of
        None \<Rightarrow> sprouted h h'
      | Some e \<Rightarrow> resTree_FindEntry L h' base path = Some (Some e) \<and> io_added L e t (new_io L e d units m) h h') \<and>
     (\<forall>e. resTree_FindEntry L h base path = Some (Some e) \<longrightarrow> r = (if occupied h e then None else Some e))"

lemma Get_io:
  assumes "framework_ok L" "hub_ok L h" "entries h base \<noteq> None"
  shows "\<exists>r h'. resTree_GetInput L base path d units h = Some (r, h') \<and>
      io_promise L base path d units ADMIN_ENTRY_TYPE_INPUT False h r h'"
    "\<exists>r h'. resTree_GetOutput L base path d units h = Some (r, h') \<and>
      io_promise L base path d units ADMIN_ENTRY_TYPE_OUTPUT True h r h'"
proof -
  obtain r g where g: "GoToEntry L base path True h = Some (r, g)" "hub_ok L g" "sprouted h g" "grown h g"
    "\<And>e. r = Some e \<Longrightarrow> entries g e \<noteq> None \<and> resTree_FindEntry L g base path = Some (Some e)"
    using GoTo_ok [OF assms(1-3), of path] by blast
  have ow: "owned h \<longrightarrow> owned g" using GoToEntry_owned g(1) by blast
  have kp: "kept {} h g" by (rule kept_grown [OF g(4)])
  have f: "r = Some e \<and> g = h" if "resTree_FindEntry L h base path = Some (Some e)" for e
    using GoToEntry_found [OF that] g(1) by simp
  have "(\<exists>r h'. resTree_GetInput L base path d units h = Some (r, h') \<and> io_promise L base path d units ADMIN_ENTRY_TYPE_INPUT False h r h') \<and>
    (\<exists>r h'. resTree_GetOutput L base path d units h = Some (r, h') \<and> io_promise L base path d units ADMIN_ENTRY_TYPE_OUTPUT True h r h')"
  proof (cases r)
    case None
    then show ?thesis
      using g f ow kp by (auto simp: resTree_GetInput_def resTree_GetOutput_def io_promise_def)
  next
    case (Some e)
    obtain y where y: "entries g e = Some y" using g(5) [OF Some] by auto
    show ?thesis
    proof (cases "occupied g e")
      case True
      then have "io_promise L base path d units t m h None g" for t m using g f Some ow kp by (auto simp: io_promise_def)
      then show ?thesis
        using True y g(1) Some by (auto simp: resTree_GetInput_def resTree_GetOutput_def occupied_def)
    next
      case False
      then have ty: "e_type y = ADMIN_ENTRY_TYPE_NAMESPACE \<or> e_type y = ADMIN_ENTRY_TYPE_PLACEHOLDER"
        using y no_none_type [OF hub_okD(2) [OF g(2)] y] by (cases "e_type y") (auto simp: occupied_def)
      have no: "e_type y \<noteq> ADMIN_ENTRY_TYPE_OBSERVATION" using ty by auto
      have fin: "io_promise L base path d units t m h (Some e) h'" if "hub_ok L h'" "io_added L e t (new_io L e d units m) g h'" "same_names g h'" "owned g \<longrightarrow> owned h'" "kept {} g h'" for t m h'
        using that ow kept_trans [OF kp that(5)] g(5) [OF Some] f False Some same_names_FindEntry [OF that(3), of L base path]
          sprouted_resource_at [OF g(3,4)]
        by (auto simp: io_promise_def io_added_def)
      obtain h1 where h1: "do { h \<leftarrow> ReplaceResource L e (nextRes g) ADMIN_ENTRY_TYPE_INPUT (with_new (new_io L e d units False) g);
          h \<leftarrow> CallResourceTreeChangeHandlers L e ADMIN_ENTRY_TYPE_INPUT ADMIN_RESOURCE_ADDED h; Some (Some e, h) } = Some (Some e, h1)"
        "hub_ok L h1" "io_added L e ADMIN_ENTRY_TYPE_INPUT (new_io L e d units False) g h1" "same_names g h1" "owned g \<longrightarrow> owned h1" "kept {} g h1"
        by (rule add_io [where t = ADMIN_ENTRY_TYPE_INPUT and d = d and units = units and b = False,
              OF assms(1) g(2) y _ no refl]) simp_all
      obtain h2 where h2: "do { h \<leftarrow> ReplaceResource L e (nextRes g) ADMIN_ENTRY_TYPE_OUTPUT (with_new (new_io L e d units True) g);
          h \<leftarrow> CallResourceTreeChangeHandlers L e ADMIN_ENTRY_TYPE_OUTPUT ADMIN_RESOURCE_ADDED h; Some (Some e, h) } = Some (Some e, h2)"
        "hub_ok L h2" "io_added L e ADMIN_ENTRY_TYPE_OUTPUT (new_io L e d units True) g h2" "same_names g h2" "owned g \<longrightarrow> owned h2" "kept {} g h2"
        by (rule add_io [where t = ADMIN_ENTRY_TYPE_OUTPUT and d = d and units = units and b = True,
              OF assms(1) g(2) y _ no refl]) simp_all
      have "resTree_GetInput L base path d units h = Some (Some e, h1)"
        using ty y g(1) Some h1(1) by (auto simp: resTree_GetInput_def CreateInput_new)
      moreover have "resTree_GetOutput L base path d units h = Some (Some e, h2)"
        using ty y g(1) Some h2(1) by (auto simp: resTree_GetOutput_def CreateOutput_new)
      ultimately show ?thesis using fin [OF h1(2-6)] fin [OF h2(2-6)] by blast
    qed
  qed
  then show "\<exists>r h'. resTree_GetInput L base path d units h = Some (r, h') \<and> io_promise L base path d units ADMIN_ENTRY_TYPE_INPUT False h r h'"
    "\<exists>r h'. resTree_GetOutput L base path d units h = Some (r, h') \<and> io_promise L base path d units ADMIN_ENTRY_TYPE_OUTPUT True h r h'"
    by simp_all
qed

subsection \<open>Deleting\<close>

definition pruned :: "eid \<Rightarrow> eid \<Rightarrow> Entry_t \<Rightarrow> hub \<Rightarrow> hub" where
  "pruned e p y h = h\<lparr>entries := (entries h)
     (e := None, p \<mapsto> y\<lparr>e_childList := remove1 e (e_childList y), e_refCount := e_refCount y - 1\<rparr>)\<rparr>"

lemma release_leaf:
  assumes "entries h e = Some x" "e_parentPtr x = Some p" "p \<noteq> e" "e_childList x = []" "e_resourcePtr x = None"
    "e_refCount x = 1" "entries h p = Some y" "1 < e_refCount y" "1 < nextEntry h"
  shows "Release_Entry e h = Some (pruned e p y h)"
proof -
  define k where "k = nextEntry h - 2"
  have k: "nextEntry h = Suc (Suc k)" using assms(9) by (simp add: k_def)
  define y' where "y' = y\<lparr>e_childList := remove1 e (e_childList y)\<rparr>"
  define g where "g = (put_entry p y' h)\<lparr>entries := (entries (put_entry p y' h))(e := None)\<rparr>"
  have "release_entry (Suc (Suc k)) e h = release_entry (Suc k) p g"
    unfolding release_entry.simps(2) [of "Suc k" e h]
    using assms(1-7) by (simp del: release_entry.simps add: g_def y'_def)
  also have "entries g p = Some y'" using assms(3) by (simp add: g_def)
  then have "release_entry (Suc k) p g = Some (put_entry p (y'\<lparr>e_refCount := e_refCount y' - 1\<rparr>) g)"
    using assms(8) by (simp add: y'_def)
  also have "put_entry p (y'\<lparr>e_refCount := e_refCount y' - 1\<rparr>) g = pruned e p y h"
    using assms(3) by (simp add: pruned_def put_entry_def g_def y'_def fun_upd_twist)
  finally show ?thesis by (simp only: Release_Entry_def k)
qed

lemma pruned_frame [simp]:
  "resources (pruned e p y h) = resources h" "handlers (pruned e p y h) = handlers h"
  "nextRes (pruned e p y h) = nextRes h" "nextHandler (pruned e p y h) = nextHandler h"
  "nextBuff (pruned e p y h) = nextBuff h" "RootPtr (pruned e p y h) = RootPtr h"
  "nextEntry (pruned e p y h) = nextEntry h" "dests (pruned e p y h) = dests h"
  "source (pruned e p y h) = source h" "heard (pruned e p y h) = heard h" "get_obs (pruned e p y h) = get_obs h"
  by (simp_all add: pruned_def fun_eq_iff dests_def source_def heard_def get_obs_def)

text \<open>An entry as it is after a leaf is gone.\<close>

definition trimmed :: "eid \<Rightarrow> eid \<Rightarrow> eid \<Rightarrow> Entry_t \<Rightarrow> Entry_t" where
  "trimmed e p c z =
     (if c = p then z\<lparr>e_childList := remove1 e (e_childList z), e_refCount := e_refCount z - 1\<rparr> else z)"

lemma pruned_entries:
  assumes "entries h p = Some y" "p \<noteq> e"
  shows "entries (pruned e p y h) c = (if c = e then None else map_option (trimmed e p c) (entries h c))"
  using assms by (cases "entries h c") (auto simp: pruned_def trimmed_def)

lemma trimmed_simps [simp]:
  "e_name (trimmed e p c z) = e_name z" "e_parentPtr (trimmed e p c z) = e_parentPtr z"
  "e_type (trimmed e p c z) = e_type z" "e_resourcePtr (trimmed e p c z) = e_resourcePtr z"
  "e_childList (trimmed e p c z) = (if c = p then remove1 e (e_childList z) else e_childList z)"
  "e_refCount (trimmed e p c z) = (if c = p then e_refCount z - 1 else e_refCount z)"
  by (simp_all add: trimmed_def)

lemma pruned_owned:
  assumes "owned h" "entries h p = Some v" "p \<noteq> e" "e \<in> set (e_childList v)"
  shows "owned (pruned e p v h)"
proof -
  have "own_ref (trimmed e p c z)" if "entries h c = Some z" for c z
  proof -
    have "own_ref z" using assms(1) that by (simp add: owned_def)
    then show ?thesis
      using that assms(2,4) length_pos_if_in_set [of e "e_childList z"] by (auto simp: own_ref_def length_remove1)
  qed
  then show ?thesis using pruned_entries [OF assms(2,3)] by (auto simp: owned_def)
qed

lemma prune_tree:
  assumes "tree_ok L h" "entries h e = Some x" "e \<noteq> RootPtr h" "e_parentPtr x = Some p" "e_childList x = []"
    "entries h p = Some y" "p \<noteq> e" "e \<in> set (e_childList y)" "1 < e_refCount y"
  shows "tree_ok L (pruned e p y h)"
proof -
  let ?h = "pruned e p y h"
  note pe = pruned_entries [OF assms(6,7)]
  have nm: "name_of ?h c = name_of h c" if "c \<noteq> e" for c
    using that by (cases "entries h c") (simp_all add: name_of_def pe)
  have kids: "e \<notin> set (e_childList (trimmed e p c z))" if "entries h c = Some z" for c z
    using children_okD [OF tree_okD(2) [OF assms(1) that], of e] tree_okD(2) [OF assms(1) that] assms(2,4)
    by (auto simp: children_ok_def)
  have ch: "children_ok L ?h c (e_childList (trimmed e p c z))" if z: "entries h c = Some z" for c z
  proof -
    have c: "children_ok L h c (e_childList z)" by (rule tree_okD(2) [OF assms(1) z])
    have sub: "set (e_childList (trimmed e p c z)) \<subseteq> set (e_childList z)"
      by (simp add: set_remove1_subset)
    have "distinct (e_childList (trimmed e p c z))" using c by (simp add: children_ok_def)
    moreover have "inj_on (name_of ?h) (set (e_childList (trimmed e p c z)))"
    proof -
      have "inj_on (name_of h) (set (e_childList (trimmed e p c z)))"
        using c sub by (auto simp: children_ok_def intro: inj_on_subset)
      moreover have "name_of ?h d = name_of h d" if "d \<in> set (e_childList (trimmed e p c z))" for d
        by (rule nm) (use kids [OF z] that in blast)
      ultimately show ?thesis using inj_on_cong [of "set (e_childList (trimmed e p c z))" "name_of ?h" "name_of h"] by blast
    qed
    moreover have "\<exists>v. entries ?h d = Some v \<and> e_parentPtr v = Some c \<and> name_ok L (e_name v)"
      if d: "d \<in> set (e_childList (trimmed e p c z))" for d
    proof -
      obtain v where "entries h d = Some v" "e_parentPtr v = Some c" "name_ok L (e_name v)"
        using children_okD [OF c] d sub by blast
      moreover have "d \<noteq> e" using kids [OF z] d by blast
      ultimately show ?thesis by (simp add: pe)
    qed
    ultimately show ?thesis by (simp add: children_ok_def)
  qed
  have pa: "parent_ok ?h c (trimmed e p c z)" if z: "entries h c = Some z" and c: "c \<noteq> e" for c z
  proof (cases "c = RootPtr h")
    case True
    then show ?thesis using tree_okD(3) [OF assms(1) z] by (simp add: parent_ok_def)
  next
    case False
    obtain q w where q: "e_parentPtr z = Some q" "q < c" "entries h q = Some w" "c \<in> set (e_childList w)"
      by (rule tree_ok_parent [OF assms(1) z False])
    have "q \<noteq> e" using q(3,4) assms(2,5) by auto
    moreover have "c \<in> set (e_childList (trimmed e p q w))" using q(4) c by simp
    ultimately show ?thesis using False q by (simp add: parent_ok_def pe)
  qed
  have "c < nextEntry h \<and> children_ok L ?h c (e_childList v) \<and> parent_ok ?h c v
      \<and> length (e_childList v) \<le> e_refCount v \<and> 0 < e_refCount v" if v: "entries ?h c = Some v" for c v
  proof -
    obtain z where z: "entries h c = Some z" "v = trimmed e p c z" "c \<noteq> e"
      using v by (auto simp: pe split: if_splits)
    have "length (e_childList v) \<le> e_refCount v \<and> 0 < e_refCount v"
      using tree_okD(4,5) [OF assms(1) z(1)] z assms(6,8,9) by (auto simp: length_remove1)
    then show ?thesis using tree_okD(1) [OF assms(1) z(1)] ch [OF z(1)] pa [OF z(1,3)] z(2) by simp
  qed
  moreover have "entries ?h (RootPtr h) \<noteq> None"
    using assms(1,3) by (auto simp: tree_ok_def pe)
  ultimately show ?thesis by (simp add: tree_ok_def)
qed

text \<open>A resource without settings of the administrator is taken off its entry and freed.\<close>

definition plain_res :: "res_Resource_t \<Rightarrow> bool" where
  "plain_res x \<longleftrightarrow>
     r_srcPtr x = None \<and> r_destList x = [] \<and> r_overrideValue x = None \<and> r_defaultValue x = None \<and> r_pushHandlerList x = []"

definition dropped :: "eid \<Rightarrow> Entry_t \<Rightarrow> rid \<Rightarrow> hub \<Rightarrow> hub" where
  "dropped e y r h = entry_set e y None ADMIN_ENTRY_TYPE_NAMESPACE (h\<lparr>resources := (resources h)(r := None)\<rparr>)"

lemma dropped_frame [simp]:
  "entries (dropped e y r h) = (entries h)(e \<mapsto> y\<lparr>e_resourcePtr := None, e_type := ADMIN_ENTRY_TYPE_NAMESPACE\<rparr>)"
  "resources (dropped e y r h) = (resources h)(r := None)" "RootPtr (dropped e y r h) = RootPtr h"
  "nextEntry (dropped e y r h) = nextEntry h" "nextRes (dropped e y r h) = nextRes h"
  by (simp_all add: dropped_def)

lemma drop_release:
  assumes "entries h e = Some y" "resources h r = Some x" "plain_res x" "\<forall>ob. r_sub x \<noteq> Observation ob"
  shows "do { h \<leftarrow> detach e h; Release_Resource L r h } = Some (dropped e y r h)"
  using assms
  by (cases "r_sub x") (simp_all add: detach_def Release_Resource_def res_Destruct_def update_res_map plain_res_def
      handler_RemoveAll_def put_res_def put_entry_def dropped_def entry_set_def)

lemma drop_ok:
  assumes "hub_ok L h" "entries h e = Some y" "e_resourcePtr y = Some r" "resources h r = Some x" "plain_res x"
  shows "hub_ok L (dropped e y r h)"
proof -
  let ?h = "dropped e y r h"
  let ?g = "h\<lparr>resources := (resources h)(r := None)\<rparr>"
  note ok = hub_okD [OF assms(1)]
  have "tree_ok L ?h"
    unfolding dropped_def by (rule entry_set_tree) (use ok(1) tree_cong(1) [of ?g h] assms(2) in simp_all)
  moreover have "attached ?h q z" if z: "resources ?h q = Some z" for q z
  proof -
    have q: "resources h q = Some z" "q \<noteq> r" using z by (auto split: if_splits)
    obtain c v where v: "r_entryRef z = Some c" "entries h c = Some v" "e_resourcePtr v = Some q" "kind_ok (e_type v) (r_sub z)"
      by (rule attachedE [OF ok(2) q(1)])
    then have "c \<noteq> e" using assms(2,3) q(2) by auto
    then show ?thesis using v by (simp add: attached_def)
  qed
  moreover have "entry_ok ?h c v" if v: "entries ?h c = Some v" for c v
  proof (cases "c = e")
    case True
    then show ?thesis using v by (auto simp: entry_ok_def)
  next
    case False
    then have v': "entries h c = Some v" using v by simp
    show ?thesis
    proof (cases "e_resourcePtr v")
      case None
      have "entry_ok h c v" using ok(2) v' by (simp add: attached_ok_def)
      then show ?thesis using None by (simp add: entry_ok_def)
    next
      case (Some q)
      obtain z where z: "resources h q = Some z" "r_entryRef z = Some c" by (rule entry_resource [OF ok(2) v' Some])
      obtain x' where "resources h r = Some x'" "r_entryRef x' = Some e" by (rule entry_resource [OF ok(2) assms(2,3)])
      then have "q \<noteq> r" using z False by auto
      then show ?thesis using z Some by (simp add: entry_ok_def)
    qed
  qed
  moreover have "obs_namespace ?h" if "get_obs ?h q \<noteq> None" for q
  proof -
    have "get_obs h q \<noteq> None" using that by (auto simp: get_obs_Some split: if_splits)
    then have "obs_namespace ?g" using ok(2) tree_cong(2) [of ?g h] by (auto simp: attached_ok_def)
    then show ?thesis using assms(2) by (simp add: dropped_def entry_set_namespace)
  qed
  ultimately have "tree_ok L ?h" "attached_ok ?h" unfolding attached_ok_def by blast+
  moreover have "dests ?h = dests h" "source ?h = source h" "heard ?h = heard h"
    using assms(4,5) by (auto simp: fun_eq_iff dests_def source_def heard_def plain_res_def)
  then have "routes_ok ?h" "numbered ?h"
    using ok(3,4) by (auto simp: routes_ok_def links_ok_def numbered_def dropped_def)
  moreover have "values_ok ?h" using ok(5) by (simp add: values_ok_def dropped_def)
  ultimately show ?thesis by (simp add: hub_ok_def)
qed

text \<open>The leaf of a bare namespace goes without a trace.\<close>

lemma prune_ok:
  assumes "hub_ok L h" "entries h e = Some x" "e \<noteq> RootPtr h" "e_parentPtr x = Some p" "e_childList x = []"
    "e_resourcePtr x = None" "p \<noteq> RootPtr h" "entries h p = Some y" "1 < e_refCount y"
  shows "hub_ok L (pruned e p y h)"
proof -
  let ?h = "pruned e p y h"
  note ok = hub_okD [OF assms(1)]
  obtain q w where q: "e_parentPtr x = Some q" "q < e" "entries h q = Some w" "e \<in> set (e_childList w)"
    by (rule tree_ok_parent [OF ok(1) assms(2,3)])
  have p: "p \<noteq> e" "e \<in> set (e_childList y)" using q assms(4,8) by auto
  note pe = pruned_entries [OF assms(8) p(1)]
  have tree: "tree_ok L ?h" by (rule prune_tree [OF ok(1) assms(2,3,4,5,8) p assms(9)])
  have "attached ?h r z" if z: "resources h r = Some z" for r z
  proof -
    obtain c v where v: "r_entryRef z = Some c" "entries h c = Some v" "e_resourcePtr v = Some r" "kind_ok (e_type v) (r_sub z)"
      by (rule attachedE [OF ok(2) z])
    then have "c \<noteq> e" using assms(2,6) by auto
    then show ?thesis using v by (simp add: attached_def pe)
  qed
  moreover have "entry_ok ?h c v" if v: "entries ?h c = Some v" for c v
  proof -
    obtain z where z: "entries h c = Some z" "v = trimmed e p c z" using v by (auto simp: pe split: if_splits)
    then have "entry_ok h c z" using ok(2) by (simp add: attached_ok_def)
    then show ?thesis using z(2) by (auto simp: entry_ok_def split: option.splits)
  qed
  moreover have "obs_namespace ?h" if ns: "obs_namespace h"
  proof -
    obtain z c where c: "entries h (RootPtr h) = Some z" "c \<in> set (e_childList z)" "name_of h c = ''obs''"
      using ns by (auto simp: obs_namespace_def)
    obtain v where v: "entries h c = Some v" "e_parentPtr v = Some (RootPtr h)"
      using children_okD [OF tree_okD(2) [OF ok(1) c(1)] c(2)] by blast
    have "c \<noteq> e" using v assms(2,4,7) by auto
    then have "name_of ?h c = ''obs''" using c(3) v by (simp add: name_of_def pe)
    moreover have "entries ?h (RootPtr h) = Some z" using c(1) assms(3,7) by (simp add: pe trimmed_def)
    ultimately show ?thesis using c(2) unfolding obs_namespace_def pruned_frame by blast
  qed
  ultimately have "attached_ok ?h" using ok(2) unfolding attached_ok_def by simp
  then show ?thesis
    using ok(3-5) tree by (simp add: hub_ok_def routes_ok_def links_ok_def numbered_def values_ok_def)
qed

text \<open>A reference on a node with children is given back.\<close>

lemma recount_ok:
  assumes "hub_ok L h" "entries h e = Some y" "length (e_childList y) \<le> n" "0 < n"
  shows "hub_ok L (put_entry e (y\<lparr>e_refCount := n\<rparr>) h)"
proof -
  let ?h = "put_entry e (y\<lparr>e_refCount := n\<rparr>) h"
  note ok = hub_okD [OF assms(1)]
  have "tree_ok L ?h" by (rule put_entry_tree [OF ok(1) assms(2)]) (use assms(3,4) in \<open>simp add: same_node_def\<close>)
  moreover have "attached ?h r z" if "resources h r = Some z" for r z
  proof -
    have "attached h r z" using ok(2) that by (simp add: attached_ok_def)
    then show ?thesis using assms(2) unfolding attached_def by fastforce
  qed
  moreover have "entry_ok ?h c v" if "entries ?h c = Some v" for c v
  proof (cases "c = e")
    case True
    then have v: "v = y\<lparr>e_refCount := n\<rparr>" using that by simp
    have "entry_ok h e y" using ok(2) assms(2) by (simp add: attached_ok_def)
    then show ?thesis using True v by (auto simp: entry_ok_def split: option.splits)
  next
    case False
    then have "entry_ok h c v" using ok(2) that by (simp add: attached_ok_def)
    then show ?thesis by (auto simp: entry_ok_def split: option.splits)
  qed
  moreover have "obs_namespace ?h = obs_namespace h"
    using put_entry_names [OF assms(2), of "y\<lparr>e_refCount := n\<rparr>"] assms(2) by (auto simp: obs_namespace_def)
  moreover have "get_obs ?h = get_obs h" "dests ?h = dests h" "source ?h = source h" "heard ?h = heard h"
    by (simp_all add: fun_eq_iff dests_def source_def heard_def get_obs_def)
  ultimately show ?thesis
    using ok by (simp add: hub_ok_def attached_ok_def routes_ok_def links_ok_def numbered_def values_ok_def)
qed

subsection \<open>Deleting an input or output\<close>

text \<open>
  Without settings of the administrator the resource goes, and its entry with it unless it has children;
  otherwise a placeholder takes the settings.
\<close>

definition deleted :: "eid \<Rightarrow> Entry_t \<Rightarrow> rid \<Rightarrow> res_Resource_t \<Rightarrow> hub \<Rightarrow> bool" where
  "deleted e y r x h' \<longleftrightarrow>
     resources h' r = None \<and>
     (if plain_res x then
        entries h' e = (if e_childList y = [] then None
          else Some (y\<lparr>e_resourcePtr := None, e_type := ADMIN_ENTRY_TYPE_NAMESPACE, e_refCount := e_refCount y - 1\<rparr>))
      else \<exists>v z. entries h' e = Some v \<and> e_type v = ADMIN_ENTRY_TYPE_PLACEHOLDER \<and> resource_at h' e = Some z \<and>
        r_sub z = Placeholder \<and> took_over x z)"

lemma moved_to_placeholder: "took_over x (moved L ADMIN_ENTRY_TYPE_PLACEHOLDER x (res_Construct e))"
  by (simp add: took_over_def moved_def move_current_def)

lemma HasAdminSettings_eq:
  assumes "attached_ok h" "entries h e = Some y" "e_resourcePtr y = Some r" "resources h r = Some x"
    "e_type y \<noteq> ADMIN_ENTRY_TYPE_OBSERVATION"
  shows "res_HasAdminSettings h r = Some (\<not> plain_res x)"
proof -
  have "entry_type_of h r = Some (e_type y)" by (rule entry_resource [OF assms(1-3)])
  then show ?thesis using assms(4,5) by (auto simp: res_HasAdminSettings_def plain_res_def)
qed

lemma tell_then_delete:
  assumes "hub_ok L h" "entries h e = Some y" "e_resourcePtr y = Some r" "resources h r = Some x"
    "e_type y \<noteq> ADMIN_ENTRY_TYPE_OBSERVATION"
  obtains ev where "hub_ok L (h\<lparr>events := ev\<rparr>)"
    "resTree_DeleteIO L e h =
      (if plain_res x then do {
         h \<leftarrow> do { h \<leftarrow> detach e (h\<lparr>events := ev\<rparr>); Release_Resource L r h };
         Release_Entry e h }
       else ReplaceResource L e (nextRes h) ADMIN_ENTRY_TYPE_PLACEHOLDER (with_new (res_Construct e) (h\<lparr>events := ev\<rparr>)))"
proof -
  obtain ev where ev: "CallResourceTreeChangeHandlers L e (e_type y) ADMIN_RESOURCE_REMOVED h = Some (h\<lparr>events := ev\<rparr>)"
    "hub_ok L (h\<lparr>events := ev\<rparr>)"
    using tell_ok [OF assms(1), of e "e_type y" ADMIN_RESOURCE_REMOVED] assms(2) by auto
  have "res_HasAdminSettings (h\<lparr>events := ev\<rparr>) r = Some (\<not> plain_res x)"
    using HasAdminSettings_eq [OF hub_okD(2) [OF ev(2)], of e y r x] assms(2-5) by simp
  then show thesis
    using that [OF ev(2)] ev(1) assms(2,3) by (simp add: resTree_DeleteIO_def CreatePlaceholder_new)
qed

lemma DeleteIO_ok:
  assumes "framework_ok L" "hub_ok L h" "entries h e = Some y" "e_type y \<in> {ADMIN_ENTRY_TYPE_INPUT, ADMIN_ENTRY_TYPE_OUTPUT}"
    "own_ref y" "e_parentPtr y = Some p" "p \<noteq> RootPtr h" "entries h p = Some v" "own_ref v"
  obtains h' r x where "resTree_DeleteIO L e h = Some h'" "hub_ok L h'" "e_resourcePtr y = Some r"
    "resources h r = Some x" "deleted e y r x h'" "owned h \<and> e_childList y = [] \<longrightarrow> owned h'" "kept {e} h h'"
proof -
  note ok = hub_okD [OF assms(2)]
  have no: "e_type y \<noteq> ADMIN_ENTRY_TYPE_OBSERVATION" "e_type y \<noteq> ADMIN_ENTRY_TYPE_NAMESPACE" using assms(4) by auto
  have root: "e \<noteq> RootPtr h" using tree_okD(3) [OF ok(1) assms(3)] assms(6) by (auto simp: parent_ok_def split: if_splits)
  obtain q w where q: "e_parentPtr y = Some q" "q < e" "entries h q = Some w" "e \<in> set (e_childList w)"
    by (rule tree_ok_parent [OF ok(1) assms(3) root])
  obtain r where r: "e_resourcePtr y = Some r"
  proof (cases "e_resourcePtr y")
    case None
    have "entry_ok h e y" using ok(2) assms(3) by (simp add: attached_ok_def)
    then show thesis using None no(2) by (simp add: entry_ok_def)
  qed
  obtain x where x: "resources h r = Some x" "kind_ok (e_type y) (r_sub x)" by (rule entry_resource [OF ok(2) assms(3) r])
  have kind: "\<forall>ob. r_sub x \<noteq> Observation ob" using x(2) assms(4) by auto
  obtain ev where ev: "hub_ok L (h\<lparr>events := ev\<rparr>)"
    "resTree_DeleteIO L e h =
      (if plain_res x then do {
         h \<leftarrow> do { h \<leftarrow> detach e (h\<lparr>events := ev\<rparr>); Release_Resource L r h };
         Release_Entry e h }
       else ReplaceResource L e (nextRes h) ADMIN_ENTRY_TYPE_PLACEHOLDER (with_new (res_Construct e) (h\<lparr>events := ev\<rparr>)))"
    by (rule tell_then_delete [OF assms(2,3) r x(1) no(1)])
  let ?g = "h\<lparr>events := ev\<rparr>"
  have g: "entries ?g e = Some y" "resources ?g r = Some x" using assms(3) x(1) by simp_all
  show thesis
  proof (cases "plain_res x")
    case False
    note fr = fresh_placeholder [of ?g e]
    note rep = Replace_ok [OF framework_okD(1) [OF assms(1)] ev(1) g(1) fr no(1)]
    have "nextRes ?g \<noteq> r" using not_yet(1) [OF ev(1)] g(2) by auto
    then have "resources (placed L e y ADMIN_ENTRY_TYPE_PLACEHOLDER (res_Construct e) ?g) r = None"
      using r by (simp add: placed_def after_swap_def swapped_def)
    moreover have "resource_at ?g e = Some x" using g r by (simp add: resource_at_def)
    ultimately have "deleted e y r x (placed L e y ADMIN_ENTRY_TYPE_PLACEHOLDER (res_Construct e) ?g)"
      using placed_resource [OF ev(1) g(1) fr] placed_entry(1) [OF g(1), of L ADMIN_ENTRY_TYPE_PLACEHOLDER "res_Construct e"]
        moved_to_placeholder [of x L e] False
      by (auto simp: deleted_def resource_at_def res_Construct_def)
    moreover have "owned h \<longrightarrow> owned (placed L e y ADMIN_ENTRY_TYPE_PLACEHOLDER (res_Construct e) ?g)"
      using placed_owned [OF _ g(1)] by (simp add: owned_def)
    moreover have "kept {e} h (placed L e y ADMIN_ENTRY_TYPE_PLACEHOLDER (res_Construct e) ?g)"
      using placed_kept [OF g(1), of "{e}" L ADMIN_ENTRY_TYPE_PLACEHOLDER "res_Construct e"] by (simp add: kept_def)
    ultimately show thesis using that rep ev(2) False r x(1) by simp
  next
    case True
    let ?d = "dropped e y r ?g"
    have d: "do { h \<leftarrow> detach e ?g; Release_Resource L r h } = Some ?d" "hub_ok L ?d"
      using drop_release [OF g True kind] drop_ok [OF ev(1) g(1) r g(2) True] by blast+
    let ?y = "y\<lparr>e_resourcePtr := None, e_type := ADMIN_ENTRY_TYPE_NAMESPACE\<rparr>"
    have ent: "entries ?d e = Some ?y" "p \<noteq> e" "entries ?d p = Some v" using assms(3,6,8) q by auto
    show thesis
    proof (cases "e_childList y = []")
      case leaf: True
      have v: "1 < e_refCount v" using assms(6,8,9) q by (cases "e_childList v") (auto simp: own_ref_def)
      have "1 < nextEntry h" using tree_okD(1) [OF ok(1) assms(3)] q(2) by linarith
      then have "Release_Entry e ?d = Some (pruned e p v ?d)"
        using release_leaf [OF ent(1) _ ent(2) _ _ _ ent(3) v] assms(5,6) leaf by (simp add: own_ref_def dropped_def)
      moreover have "hub_ok L (pruned e p v ?d)"
        by (rule prune_ok [OF d(2) ent(1) _ _ _ _ _ ent(3) v]) (use root assms(6,7) leaf in \<open>simp_all add: dropped_def\<close>)
      moreover have "deleted e y r x (pruned e p v ?d)"
        using True leaf pruned_entries [OF ent(3,2)] by (simp add: deleted_def)
      moreover have "owned h \<longrightarrow> owned ?d" using assms(3) by (simp add: owned_def own_ref_def)
      then have "owned h \<longrightarrow> owned (pruned e p v ?d)"
        using pruned_owned [OF _ ent(3,2)] assms(6,8) q by simp
      moreover have "kept {e} h (pruned e p v ?d)"
        using pruned_entries [OF ent(3,2)] by (auto simp: kept_def)
      ultimately show thesis using that d(1) ev(2) True r x(1) by simp
    next
      case False
      let ?n = "e_refCount y - 1"
      have n: "length (e_childList y) \<le> ?n" "0 < ?n" "1 < e_refCount y" using assms(5) False by (auto simp: own_ref_def)
      let ?h = "put_entry e (?y\<lparr>e_refCount := ?n\<rparr>) ?d"
      obtain k where k: "nextEntry ?d = Suc k" using tree_okD(1) [OF ok(1) assms(3)] by (cases "nextEntry h") (auto simp: dropped_def)
      then have "Release_Entry e ?d = Some ?h"
        using ent(1) n(3) by (simp add: Release_Entry_def)
      moreover have "hub_ok L ?h" using recount_ok [OF d(2) ent(1), of ?n] n by simp
      moreover have "deleted e y r x ?h" using True False by (simp add: deleted_def)
      moreover have "kept {e} h ?h" by (simp add: kept_def)
      ultimately show thesis using that d(1) ev(2) True False r x(1) by simp
    qed
  qed
qed

lemma initial_owned: "owned initial_hub"
  by (simp add: owned_def own_ref_def initial_hub_def)

subsection \<open>Properties\<close>

text \<open>
  C4: asking for an input or output at a path ends without stopping the daemon and keeps the invariant
  of the hub. Where an input, output or observation is found, the answer is nothing; otherwise the
  path then leads to an entry with a resource of the type and units asked for, which takes over all
  settings, routes and handlers of the placeholder there was.
\<close>

theorem GetIO_takes_over:
  assumes "framework_ok L" "hub_ok L h" "entries h base \<noteq> None"
  shows "(\<exists>r h'. resTree_GetInput L base path d units h = Some (r, h') \<and>
      io_promise L base path d units ADMIN_ENTRY_TYPE_INPUT False h r h') \<and>
    (\<exists>r h'. resTree_GetOutput L base path d units h = Some (r, h') \<and>
      io_promise L base path d units ADMIN_ENTRY_TYPE_OUTPUT True h r h')"
  using Get_io [OF assms] by blast

text \<open>
  C11: deleting an input or output whose parent is not the root, and whose entry and parent still hold the
  reference that their creation gave them, keeps the invariant of the hub: without settings of the
  administrator, the resource goes, and with it its entry if that has no children; otherwise a
  placeholder keeps all settings, routes and handlers and the current value. Entries lose that reference
  when an input with a child is deleted and created again; there a second deletion stops the daemon (C39).
\<close>

theorem DeleteIO_keeps_settings:
  assumes "framework_ok L" "hub_ok L h" "entries h e = Some y" "e_type y \<in> {ADMIN_ENTRY_TYPE_INPUT, ADMIN_ENTRY_TYPE_OUTPUT}"
    "own_ref y" "e_parentPtr y = Some p" "p \<noteq> RootPtr h" "entries h p = Some v" "own_ref v"
  shows "\<exists>h' r x. resTree_DeleteIO L e h = Some h' \<and> hub_ok L h' \<and> e_resourcePtr y = Some r \<and>
    resources h r = Some x \<and> deleted e y r x h'"
  using DeleteIO_ok [OF assms] by metis

subsection \<open>Instances\<close>

text \<open>A hub with one input of an application.\<close>

definition input_hub :: "hub option" where
  "input_hub = map_option snd (resTree_GetInput sample_legato 0 ''app/x'' IO_DATA_TYPE_NUMERIC ''V'' initial_hub)"

lemma initial_root: "entries initial_hub 0 \<noteq> None"
  by (simp add: initial_hub_def)

lemma GetIO_takes_over_witness:
  "\<exists>h'. resTree_GetInput sample_legato 0 ''app/x'' IO_DATA_TYPE_NUMERIC ''V'' initial_hub = Some (Some 2, h') \<and>
     io_promise sample_legato 0 ''app/x'' IO_DATA_TYPE_NUMERIC ''V'' ADMIN_ENTRY_TYPE_INPUT False initial_hub (Some 2) h'"
proof -
  have "map_option fst (resTree_GetInput sample_legato 0 ''app/x'' IO_DATA_TYPE_NUMERIC ''V'' initial_hub) = Some (Some 2)"
    by code_simp
  then show ?thesis
    using GetIO_takes_over [OF sample_framework_ok initial_hub_ok initial_root,
        of "''app/x''" IO_DATA_TYPE_NUMERIC "''V''"] by auto
qed

lemma input_hub_ok: "\<exists>h. input_hub = Some h \<and> hub_ok sample_legato h"
  using Get_io(1) [OF sample_framework_ok initial_hub_ok initial_root, of "''app/x''" IO_DATA_TYPE_NUMERIC "''V''"]
  by (auto simp: input_hub_def io_promise_def)

lemma DeleteIO_keeps_settings_witness:
  "\<exists>h h'. input_hub = Some h \<and> resTree_DeleteIO sample_legato 2 h = Some h' \<and> entries h' 2 = None \<and>
     hub_ok sample_legato h'"
proof -
  obtain h where h: "input_hub = Some h" "hub_ok sample_legato h" using input_hub_ok by blast
  have "map_option (\<lambda>h. (map_option (\<lambda>y. (e_type y, e_parentPtr y, e_childList y, e_refCount y, e_resourcePtr y)) (entries h 2),
      map_option (\<lambda>y. (e_childList y, e_refCount y)) (entries h 1), RootPtr h,
      map_option plain_res (resources h 0))) input_hub =
    Some (Some (ADMIN_ENTRY_TYPE_INPUT, Some 1, [], 1, Some 0), Some ([2], 2), 0, Some True)"
    by code_simp
  then obtain y v x where y: "entries h 2 = Some y" "e_type y = ADMIN_ENTRY_TYPE_INPUT" "e_parentPtr y = Some 1"
    "e_childList y = []" "e_refCount y = 1" "e_resourcePtr y = Some 0" "entries h 1 = Some v" "e_childList v = [2]"
    "e_refCount v = 2" "RootPtr h = 0" "resources h 0 = Some x" "plain_res x"
    unfolding h(1) by (auto simp del: One_nat_def)
  then show ?thesis
    using DeleteIO_keeps_settings [OF sample_framework_ok h(2) y(1) _ _ y(3) _ y(7)] h(1)
    by (auto simp: own_ref_def deleted_def)
qed

end
