(* ===== verification/UpdateSpec.thy ===== *)
theory UpdateSpec
  imports TreeSpec
begin

text \<open>
  The end of an extended update: the walk over the tree reaches every resource below the root, so that
  none of them is left suspended.
\<close>

subsection \<open>Suspended resources\<close>

text \<open>A change that suspends no resource.\<close>

definition calmer :: "res_Resource_t \<Rightarrow> res_Resource_t \<Rightarrow> bool" where
  "calmer x y \<longleftrightarrow> same_links x y \<and> (r_isConfigChanging y \<longrightarrow> r_isConfigChanging x)"

lemma calmer_refl [simp]: "calmer x x"
  by (simp add: calmer_def)

lemma calmer_trans: "calmer x y \<Longrightarrow> calmer y z \<Longrightarrow> calmer x z"
  by (auto simp: calmer_def intro: same_trans)

lemma calmer_links: "evolves calmer h h' \<Longrightarrow> evolves same_links h h'"
  using evolves_mono [of calmer h h' same_links] by (auto simp: calmer_def)

definition calm :: "hub \<Rightarrow> rid \<Rightarrow> bool" where
  "calm h r \<longleftrightarrow> (\<forall>x. resources h r = Some x \<longrightarrow> \<not> r_isConfigChanging x)"

lemma calm_stays:
  assumes "evolves calmer h h'" "calm h r"
  shows "calm h' r"
  unfolding calm_def
proof (intro allI impI)
  fix y assume "resources h' r = Some y"
  then obtain x where "resources h r = Some x" "calmer x y" by (rule evolves_rev [OF assms(1)])
  then show "\<not> r_isConfigChanging y" using assms(2) by (auto simp: calm_def calmer_def)
qed

lemma clear_ok:
  assumes "hub_ok L h" "resources h r \<noteq> None"
  shows "\<exists>h'. ClearConfigChangingFlag r t h = Some h' \<and> hub_ok L h' \<and> evolves calmer h h' \<and> calm h' r"
proof -
  define f where "f = (\<lambda>x :: res_Resource_t. x\<lparr>r_isConfigChanging := False\<rparr>)"
  obtain x where x: "resources h r = Some x" using assms(2) by auto
  have "value_ok (nextBuff h) (f x)"
    using values_okD [OF hub_okD(5) [OF assms(1)] x] by (simp add: value_ok_def f_def)
  moreover have "same_links x (f x)" by (simp add: same_defs f_def)
  moreover have "calmer x (f x)" by (simp add: calmer_def same_defs f_def)
  ultimately show ?thesis
    using update_setting(1,2) [where f = f, OF assms(1) x] update_res_evolves [where P = calmer and f = f, OF x]
    by (simp add: ClearConfigChangingFlag_def f_def [symmetric] calm_def) (simp add: f_def)
qed

text \<open>Clearing the flags of some resources clears them all: no step undoes another.\<close>

interpretation clearing: lasting_delivery "\<lambda>r. ClearConfigChangingFlag r t" "hub_ok L" "\<lambda>h r. resources h r \<noteq> None"
  "evolves calmer" calm for L t
proof unfold_locales
  fix h h' r
  show "evolves calmer h h'" if "evolves calmer h g" "evolves calmer g h'" for g
    by (rule evolves_trans [OF calmer_trans that])
  show "resources h' r \<noteq> None" if "evolves calmer h h'" "resources h r \<noteq> None"
    using that evolves_live [OF that(1), of r] by simp
  show "\<exists>h'. ClearConfigChangingFlag r t h = Some h' \<and> hub_ok L h' \<and> evolves calmer h h'"
    if "hub_ok L h" "resources h r \<noteq> None" using clear_ok [OF that] by blast
  show "calm h' r" if "hub_ok L h" "resources h r \<noteq> None" "ClearConfigChangingFlag r t h = Some h'"
    using clear_ok [OF that(1,2), of t] that(3) by auto
  show "calm h' r" if "evolves calmer h h'" "calm h r" by (rule calm_stays [OF that])
qed (auto intro: evolves_refl)

subsection \<open>The walk\<close>

text \<open>The entries below an entry, itself included.\<close>

definition under :: "hub \<Rightarrow> eid \<Rightarrow> eid set" where
  "under h e = {d. (e, d) \<in> {(p, c). \<exists>x. entries h c = Some x \<and> e_parentPtr x = Some p \<and> c \<noteq> RootPtr h}\<^sup>*}"

definition calm_under :: "hub \<Rightarrow> eid \<Rightarrow> bool" where
  "calm_under h e \<longleftrightarrow>
     (\<forall>d \<in> under h e. \<forall>x r. entries h d = Some x \<and> e_resourcePtr x = Some r \<longrightarrow> calm h r)"

lemma evolves_entries: "evolves P h h' \<Longrightarrow> entries h' = entries h" "evolves P h h' \<Longrightarrow> RootPtr h' = RootPtr h"
  by (simp_all add: evolves_def)

lemma calm_under_stays:
  assumes "evolves calmer h h'" "calm_under h e"
  shows "calm_under h' e"
proof -
  have "under h' e = under h e" "entries h' = entries h"
    using evolves_entries [OF assms(1)] by (simp_all add: under_def)
  then show ?thesis using assms(2) calm_stays [OF assms(1)] unfolding calm_under_def by metis
qed

lemma under_cases:
  assumes "tree_ok L h" "entries h e = Some x" "d \<in> under h e"
  obtains "d = e" | c where "c \<in> set (e_childList x)" "d \<in> under h c"
proof -
  have "(e, d) \<in> {(p, c). \<exists>x. entries h c = Some x \<and> e_parentPtr x = Some p \<and> c \<noteq> RootPtr h}\<^sup>*"
    using assms(3) by (simp add: under_def)
  then show thesis
  proof (cases rule: converse_rtranclE)
    case base
    then show thesis using that(1) by simp
  next
    case (step c)
    then obtain y where y: "entries h c = Some y" "e_parentPtr y = Some e" "c \<noteq> RootPtr h" by auto
    have "c \<in> set (e_childList x)"
      using tree_ok_parent [OF assms(1) y(1,3)] y(2) assms(2) by force
    then show thesis using that(2) step(2) by (simp add: under_def)
  qed
qed

definition visit :: "nat \<Rightarrow> (rid \<Rightarrow> admin_EntryType_t \<Rightarrow> hub \<Rightarrow> hub option) \<Rightarrow> eid \<Rightarrow> hub \<Rightarrow> hub option" where
  "visit n func c h = do {
     y \<leftarrow> entries h c;
     h \<leftarrow> (case e_resourcePtr y of None \<Rightarrow> Some h | Some r \<Rightarrow> func r (e_type y) h);
     ForEachResourceUnder n func c h
   }"

text \<open>One visit, if the walk below is right.\<close>

lemma visit_ok:
  assumes "hub_ok L h" "entries h c = Some y"
    "\<And>h'. hub_ok L h' \<Longrightarrow> evolves calmer h h' \<Longrightarrow>
      \<exists>g. ForEachResourceUnder n ClearConfigChangingFlag c h' = Some g \<and> hub_ok L g \<and> evolves calmer h' g \<and>
        (\<forall>d \<in> set (e_childList y). calm_under g d)"
  shows "\<exists>g. visit n ClearConfigChangingFlag c h = Some g \<and> hub_ok L g \<and> evolves calmer h g \<and> calm_under g c"
proof -
  obtain h1 where h1: "(case e_resourcePtr y of None \<Rightarrow> Some h | Some r \<Rightarrow> ClearConfigChangingFlag r (e_type y) h) = Some h1"
    "hub_ok L h1" "evolves calmer h h1" "\<forall>r. e_resourcePtr y = Some r \<longrightarrow> calm h1 r"
  proof (cases "e_resourcePtr y")
    case None
    then show thesis using that assms(1) evolves_refl [of calmer h] by simp
  next
    case (Some r)
    obtain x where "resources h r = Some x" by (rule entry_resource [OF hub_okD(2) [OF assms(1)] assms(2) Some])
    then show thesis using that clear_ok [OF assms(1), of r "e_type y"] Some by auto
  qed
  obtain g where g: "ForEachResourceUnder n ClearConfigChangingFlag c h1 = Some g" "hub_ok L g" "evolves calmer h1 g"
    "\<forall>d \<in> set (e_childList y). calm_under g d"
    using assms(3) [OF h1(2,3)] by blast
  have y: "entries g c = Some y" using assms(2) evolves_entries(1) [OF g(3)] evolves_entries(1) [OF h1(3)] by simp
  have "calm_under g c"
    unfolding calm_under_def
  proof (intro ballI allI impI)
    fix d x r
    assume d: "d \<in> under g c" and x: "entries g d = Some x \<and> e_resourcePtr x = Some r"
    show "calm g r"
      by (rule under_cases [OF hub_okD(1) [OF g(2)] y d])
        (use h1(4) calm_stays [OF g(3)] x y g(4) in \<open>auto simp: calm_under_def\<close>)
  qed
  then show ?thesis
    using assms(2) h1(1) g evolves_trans [OF calmer_trans h1(3) g(3)] by (simp add: visit_def)
qed

lemma ForEach_Suc:
  "ForEachResourceUnder (Suc n) func e h = do { x \<leftarrow> entries h e; fold_option (visit n func) (e_childList x) h }"
  by (simp add: visit_def [abs_def])

lemma walk_ok:
  assumes "hub_ok L h" "entries h e = Some x" "nextEntry h < e + n"
  shows "\<exists>g. ForEachResourceUnder n ClearConfigChangingFlag e h = Some g \<and> hub_ok L g \<and> evolves calmer h g \<and>
    (\<forall>d \<in> set (e_childList x). calm_under g d)"
  using assms
proof (induction n arbitrary: e h x)
  case 0
  then show ?case using tree_okD(1) [OF hub_okD(1) [OF 0(1)] 0(2)] by simp
next
  case (Suc n)
  have lasting: "lasting_delivery (visit n ClearConfigChangingFlag) (hub_ok L)
      (\<lambda>h c. entries h c \<noteq> None \<and> nextEntry h < c + n) (evolves calmer) calm_under"
  proof
    fix h h' c
    show "evolves calmer h h'" if "evolves calmer h g" "evolves calmer g h'" for g
      by (rule evolves_trans [OF calmer_trans that])
    show "entries h' c \<noteq> None \<and> nextEntry h' < c + n" if "evolves calmer h h'" "entries h c \<noteq> None \<and> nextEntry h < c + n"
      using that by (simp add: evolves_def)
    show "calm_under h' c" if "evolves calmer h h'" "calm_under h c" by (rule calm_under_stays [OF that])
    have visit: "\<exists>g. visit n ClearConfigChangingFlag c h = Some g \<and> hub_ok L g \<and> evolves calmer h g \<and> calm_under g c"
      if a: "hub_ok L h" "entries h c \<noteq> None \<and> nextEntry h < c + n"
    proof -
      obtain y where y: "entries h c = Some y" using a(2) by auto
      show ?thesis
      proof (rule visit_ok [OF a(1) y])
        fix h' assume h': "hub_ok L h'" "evolves calmer h h'"
        then have "entries h' c = Some y" "nextEntry h' < c + n" using y a(2) by (simp_all add: evolves_def)
        then show "\<exists>g. ForEachResourceUnder n ClearConfigChangingFlag c h' = Some g \<and> hub_ok L g \<and> evolves calmer h' g \<and>
          (\<forall>d \<in> set (e_childList y). calm_under g d)"
          by (rule Suc.IH [OF h'(1)])
      qed
    qed
    show "\<exists>h'. visit n ClearConfigChangingFlag c h = Some h' \<and> hub_ok L h' \<and> evolves calmer h h'"
      if "hub_ok L h" "entries h c \<noteq> None \<and> nextEntry h < c + n" using visit [OF that] by blast
    show "calm_under h' c"
      if "hub_ok L h" "entries h c \<noteq> None \<and> nextEntry h < c + n" "visit n ClearConfigChangingFlag c h = Some h'"
      using visit [OF that(1,2)] that(3) by auto
  qed (auto intro: evolves_refl)
  have "entries h c \<noteq> None \<and> nextEntry h < c + n" if c: "c \<in> set (e_childList x)" for c
  proof -
    obtain y where y: "entries h c = Some y" "e_parentPtr y = Some e"
      using children_okD [OF tree_okD(2) [OF hub_okD(1) [OF Suc.prems(1)] Suc.prems(2)] c] by blast
    moreover have "c \<noteq> RootPtr h"
      using tree_okD(3) [OF hub_okD(1) [OF Suc.prems(1)] y(1)] y(2) by (auto simp: parent_ok_def split: if_splits)
    then have "e < c" using tree_ok_parent [OF hub_okD(1) [OF Suc.prems(1)] y(1)] y(2) by force
    ultimately show ?thesis using Suc.prems(3) by simp
  qed
  then show ?case
    using lasting_delivery.all_reached [OF lasting Suc.prems(1), of "e_childList x"] Suc.prems(2)
    unfolding ForEach_Suc by auto
qed

lemma all_under_root:
  assumes "tree_ok L h" "entries h e = Some x"
  shows "e \<in> under h (RootPtr h)"
  using assms(2)
proof (induction e arbitrary: x rule: less_induct)
  case (less e)
  show ?case
  proof (cases "e = RootPtr h")
    case True
    then show ?thesis by (simp add: under_def)
  next
    case False
    obtain p y where p: "e_parentPtr x = Some p" "p < e" "entries h p = Some y"
      by (rule tree_ok_parent [OF assms(1) less.prems False])
    have "p \<in> under h (RootPtr h)" by (rule less.IH [OF p(2,3)])
    then show ?thesis
      unfolding under_def using p(1) less.prems False by (auto intro: rtrancl_into_rtrancl)
  qed
qed

text \<open>The resource is attached to the root itself, where no walk over the tree meets it.\<close>

definition at_root :: "hub \<Rightarrow> rid \<Rightarrow> bool" where
  "at_root h r \<longleftrightarrow> (\<exists>x. entries h (RootPtr h) = Some x \<and> e_resourcePtr x = Some r)"

lemma hub_cong:
  assumes "entries h' = entries h" "RootPtr h' = RootPtr h" "nextEntry h' = nextEntry h" "resources h' = resources h"
    "handlers h' = handlers h" "nextRes h' = nextRes h" "nextHandler h' = nextHandler h" "nextBuff h' = nextBuff h"
  shows "hub_ok L h' = hub_ok L h"
proof -
  have "attached h' = attached h" "entry_ok h' = entry_ok h" "get_obs h' = get_obs h" "dests h' = dests h"
    "source h' = source h" "heard h' = heard h"
    unfolding attached_def [abs_def] entry_ok_def [abs_def] get_obs_def [abs_def] dests_def [abs_def]
      source_def [abs_def] heard_def [abs_def] assms by (rule refl)+
  then show ?thesis
    using tree_cong [OF assms(1-3)] assms
    by (simp add: hub_ok_def attached_ok_def routes_ok_def links_ok_def numbered_def values_ok_def)
qed

lemma settle_ok:
  "hub_ok L h \<Longrightarrow> hub_ok L (h\<lparr>IsUpdateInProgress := b\<rparr>)" "hub_ok L h \<Longrightarrow> hub_ok L (h\<lparr>backupFiles := f\<rparr>)"
  using hub_cong [of "h\<lparr>IsUpdateInProgress := b\<rparr>" h L] hub_cong [of "h\<lparr>backupFiles := f\<rparr>" h L] by simp_all

lemma EndUpdate_ok:
  assumes "hub_ok L h"
  obtains g where "res_EndUpdate L h = Some (obs_DeleteUnusedBackupFiles L g)" "hub_ok L g"
    "evolves calmer (h\<lparr>IsUpdateInProgress := False\<rparr>) g" "\<forall>r. at_root h r \<or> calm g r"
proof -
  let ?h = "h\<lparr>IsUpdateInProgress := False\<rparr>"
  have h: "hub_ok L ?h" by (rule settle_ok(1) [OF assms])
  obtain x where x: "entries ?h (RootPtr ?h) = Some x" using hub_okD(1) [OF h] by (auto simp: tree_ok_def)
  obtain g where g: "ForEachResourceUnder (Suc (nextEntry ?h)) ClearConfigChangingFlag (RootPtr ?h) ?h = Some g"
    "hub_ok L g" "evolves calmer ?h g" "\<forall>d \<in> set (e_childList x). calm_under g d"
    using walk_ok [OF h x, of "Suc (nextEntry ?h)"] by auto
  have "calm g r" if root: "\<not> at_root h r" for r
    unfolding calm_def
  proof (intro allI impI)
    fix z assume z: "resources g r = Some z"
    obtain e y where y: "entries g e = Some y" "e_resourcePtr y = Some r" by (rule attachedE [OF hub_okD(2) [OF g(2)] z])
    have "calm g r"
    proof (rule under_cases [OF hub_okD(1) [OF g(2)] _ all_under_root [OF hub_okD(1) [OF g(2)] y(1)]])
      show "entries g (RootPtr g) = Some x" using x evolves_entries [OF g(3)] by simp
      show "calm g r" if "e = RootPtr g"
        using root that y evolves_entries [OF g(3)] by (simp add: at_root_def)
      show "calm g r" if "c \<in> set (e_childList x)" "e \<in> under g c" for c
        using g(4) that y by (auto simp: calm_under_def)
    qed
    then show "\<not> r_isConfigChanging z" using z by (simp add: calm_def)
  qed
  then have "\<forall>r. at_root h r \<or> calm g r" by blast
  then show thesis
    using that g(1-3) by (simp add: res_EndUpdate_def resTree_ForEachResource_def del: ForEachResourceUnder.simps)
qed

subsection \<open>Properties\<close>


subsection \<open>Instances\<close>


end
