(* ===== verification/DeleteSpec.thy ===== *)
theory DeleteSpec
  imports UpdateSpec
begin

text \<open>
  The deletion of observations: settings and routes are dropped, then resource and entry go. Handlers
  are removed on the way; removing one that a client registered has the same effect on the hub.
\<close>

subsection \<open>Removing handlers\<close>

text \<open>Some handlers of a resource are taken off its list and deleted.\<close>

definition unheard :: "rid \<Rightarrow> hid list \<Rightarrow> hub \<Rightarrow> hub" where
  "unheard r ns h = (case resources h r of
     None \<Rightarrow> h
   | Some x \<Rightarrow> (put_res r (x\<lparr>r_pushHandlerList := filter (\<lambda>n. n \<notin> set ns) (r_pushHandlerList x)\<rparr>) h)
       \<lparr>handlers := (\<lambda>n. if n \<in> set ns then None else handlers h n)\<rparr>)"

lemma unheard_ok:
  assumes "hub_ok L h" "resources h r = Some x" "set ns \<subseteq> set (r_pushHandlerList x)"
  shows "hub_ok L (unheard r ns h)"
proof -
  let ?h = "unheard r ns h"
  let ?x = "x\<lparr>r_pushHandlerList := filter (\<lambda>n. n \<notin> set ns) (r_pushHandlerList x)\<rparr>"
  note ok = hub_okD [OF assms(1)]
  have f: "entries ?h = entries h" "RootPtr ?h = RootPtr h" "nextEntry ?h = nextEntry h" "nextRes ?h = nextRes h"
    "nextBuff ?h = nextBuff h" "handlers ?h = (\<lambda>n. if n \<in> set ns then None else handlers h n)"
    "nextHandler ?h = nextHandler h" "resources ?h = (resources h)(r \<mapsto> ?x)"
    using assms(2) by (simp_all add: unheard_def)
  have s: "rel_option still (resources h q) (resources ?h q)" for q
    using assms(2) by (auto simp: still_def f option.rel_refl)
  have "attached ?h q z" if z: "resources ?h q = Some z" for q z
  proof -
    obtain w where w: "resources h q = Some w" "still w z" using s [of q] z by (cases "resources h q") auto
    then have "attached h q w" using ok(2) by (simp add: attached_ok_def)
    then show ?thesis using w(2) by (simp add: attached_def still_def f(1))
  qed
  moreover have "entry_ok ?h c v" if v: "entries h c = Some v" for c v
  proof (cases "e_resourcePtr v")
    case None
    have "entry_ok h c v" using ok(2) v by (simp add: attached_ok_def)
    then show ?thesis using None by (simp add: entry_ok_def)
  next
    case (Some q)
    obtain w where "resources h q = Some w" "r_entryRef w = Some c" by (rule entry_resource [OF ok(2) v Some])
    then show ?thesis using s [of q] Some by (auto simp: entry_ok_def still_def option_rel_Some1)
  qed
  moreover have "get_obs ?h q = get_obs h q" for q
    using assms(2) by (simp add: get_obs_def obs_part_def f(8))
  ultimately have "attached_ok ?h"
    using ok(2) tree_cong(2) [OF f(1-3)] by (simp add: attached_ok_def f(1))
  moreover have "dests ?h = dests h" "source ?h = source h"
    using assms(2) by (auto simp: fun_eq_iff dests_def source_def f(8))
  moreover have hd: "heard ?h = (heard h)(r := filter (\<lambda>n. n \<notin> set ns) (heard h r))"
    using assms(2) by (auto simp: fun_eq_iff heard_def f(8))
  have sub: "m \<in> set (heard h q)" if "m \<in> set (heard ?h q)" for m q
    using that by (auto simp: hd split: if_splits)
  have apart: "set (heard h p) \<inter> set (heard h q) = {}" if "p \<noteq> q" for p q
    using ok(4) that by (simp add: numbered_def)
  have "numbered ?h"
    unfolding numbered_def
  proof (intro conjI allI ballI impI)
    show "q < nextRes ?h" if "resources ?h q \<noteq> None" for q
      using ok(4) that assms(2) by (auto simp: numbered_def f(4,8) split: if_splits)
    fix q m assume m: "m \<in> set (heard ?h q)"
    show "m < nextHandler ?h" using ok(4) sub [OF m] by (auto simp: numbered_def f(7))
    have "m \<notin> set ns"
    proof (cases "q = r")
      case True
      then show ?thesis using m by (simp add: hd)
    next
      case False
      then show ?thesis using sub [OF m] apart [of q r] assms(2,3) by (auto simp: heard_def)
    qed
    then show "handlers ?h m \<noteq> None" using ok(4) sub [OF m] by (auto simp: numbered_def f(6))
  next
    fix p q :: rid assume "p \<noteq> q"
    then show "set (heard ?h p) \<inter> set (heard ?h q) = {}" using apart [of p q] sub by blast
  qed
  moreover have "values_ok ?h"
    using ok(5) values_okD [OF ok(5) assms(2)] by (simp add: values_ok_def f(5,8)) (simp add: value_ok_def)
  ultimately show ?thesis
    using ok tree_cong(1) [OF f(1-3)] by (simp add: hub_ok_def routes_ok_def links_ok_def)
qed

lemma unheard_frame:
  "entries (unheard r ns h) = entries h" "RootPtr (unheard r ns h) = RootPtr h"
  by (simp_all add: unheard_def split: option.split)

lemma Remove_unheard:
  assumes "hub_ok L h" "handlers h n = Some hp" "resources h (h_listPtr hp) = Some x" "n \<in> set (r_pushHandlerList x)"
    "distinct (r_pushHandlerList x)"
  shows "handler_Remove n h = Some (unheard (h_listPtr hp) [n] h)"
proof -
  have "remove1 n (r_pushHandlerList x) = filter (\<lambda>m. m \<notin> set [n]) (r_pushHandlerList x)"
    using assms(5) by (auto simp: distinct_remove1_removeAll removeAll_filter_not_eq intro!: filter_cong)
  then show ?thesis
    using assms(2-4) by (simp add: handler_Remove_def unheard_def DeleteHandler_def put_res_def fun_upd_def cong: if_cong)
qed

subsection \<open>Dropping settings\<close>

lemma clear_source_obs:
  assumes "res_SetSource L d None h = Some (res, h')"
  shows "get_obs h' = get_obs h"
proof -
  have u: "get_obs g' = get_obs g" if "update_res r f g = Some g'" "\<And>x. r_sub (f x) = r_sub x" for r f g g'
    using that by (auto simp: update_res_def get_obs_def obs_part_def fun_eq_iff split: bind_splits if_splits)
  show ?thesis
    using assms
    by (auto simp: res_SetSource_def clear_source_def unlink_dest_def SetUnits_def split: if_splits option.splits bind_splits
        dest!: u)
qed

lemma drop_dests_ok:
  assumes "framework_ok L" "hub_ok L h" "resources h r \<noteq> None" "length (dests h r) \<le> n"
  shows "\<exists>h'. drop_dests n L r h = Some h' \<and> hub_ok L h' \<and> evolves same_place h h' \<and> dests h' r = [] \<and>
    (source h r = None \<longrightarrow> source h' r = None) \<and> get_obs h' = get_obs h"
  using assms(2-4)
proof (induction n arbitrary: h)
  case 0
  then show ?case
    using evolves_refl [of same_place h] by (auto simp: drop_dests.simps [of 0])
next
  case (Suc n)
  obtain x where x: "resources h r = Some x" using Suc.prems(2) by auto
  show ?case
  proof (cases "r_destList x")
    case Nil
    then show ?thesis using x Suc.prems(1) evolves_refl [of same_place h] by (auto simp: drop_dests.simps [of "Suc n"])
  next
    case (Cons d ds)
    have src: "source h d = Some r" using links_okD(2) [OF hub_okD(6) [OF Suc.prems(1)] x] Cons by simp
    then have "resources h d \<noteq> None" using source_live(1) [OF hub_okD(6) [OF Suc.prems(1)]] by blast
    then obtain res h1 where h1: "res_SetSource L d None h = Some (res, h1)" "hub_ok L h1" "evolves same_place h h1"
      "(res, source h1) = set_source d None (source h)"
      using SetSource_ok [OF Suc.prems(1) assms(1), of d None] by auto
    then have s1: "source h1 = (source h)(d := None)" using src by (simp add: set_source_def)
    have dist: "distinct (dests g r)" "set (dests g r) = {c. source g c = Some r}" if "hub_ok L g" for g
      using hub_okD(6) [OF that] by (auto simp: links_ok_def)
    have "set (dests h1 r) = set (dests h r) - {d}" using dist(2) [OF h1(2)] dist(2) [OF Suc.prems(1)] s1 by auto
    then have "card (set (dests h1 r)) < card (set (dests h r))"
      using dist(2) [OF Suc.prems(1)] src by (intro psubset_card_mono [OF finite_set]) auto
    then have len: "length (dests h1 r) \<le> n"
      using Suc.prems(3) dist(1) [OF h1(2)] dist(1) [OF Suc.prems(1)] by (simp add: distinct_card)
    have live: "resources h1 r \<noteq> None" using Suc.prems(2) evolves_live [OF h1(3), of r] by simp
    obtain h2 where h2: "drop_dests n L r h1 = Some h2" "hub_ok L h2" "evolves same_place h1 h2" "dests h2 r = []"
      "source h1 r = None \<longrightarrow> source h2 r = None" "get_obs h2 = get_obs h1"
      using Suc.IH [OF h1(2) live len] by (elim exE conjE)
    have "drop_dests (Suc n) L r h = Some h2"
      unfolding drop_dests.simps [of "Suc n" L r h] using x Cons h1(1) h2(1) by simp
    moreover have "source h r = None \<longrightarrow> source h2 r = None" using h2(5) s1 by simp
    moreover have "get_obs h2 = get_obs h" using h2(6) clear_source_obs [OF h1(1)] by simp
    ultimately show ?thesis using h2(2,4) place_trans [OF h1(3) h2(3)] by (intro exI [of _ h2] conjI)
  qed
qed

lemma DropSettings_ok:
  assumes "framework_ok L" "hub_ok L h" "resources h r \<noteq> None"
  shows "\<exists>h' x. DropSettings L r h = Some h' \<and> hub_ok L h' \<and> evolves same_place h h' \<and> get_obs h' = get_obs h \<and>
    resources h' r = Some x \<and> r_srcPtr x = None \<and> r_destList x = [] \<and> r_overrideValue x = None \<and> r_defaultValue x = None"
proof -
  obtain x where x: "resources h r = Some x" using assms(3) by auto
  define f where "f = (\<lambda>x :: res_Resource_t. x\<lparr>r_currentValue := None, r_pushedValue := None\<rparr>)"
  define g where "g = (\<lambda>x :: res_Resource_t. x\<lparr>r_overrideValue := None, r_defaultValue := None, r_jsonExample := None\<rparr>)"
  have fx: "same_links x (f x)" "value_ok (nextBuff h) (f x)"
    using values_okD [OF hub_okD(5) [OF assms(2)] x] by (simp_all add: f_def same_defs value_ok_def)
  note h1 = update_setting [where f = f, OF assms(2) x fx]
  let ?h1 = "put_res r (f x) h"
  obtain res h2 where h2: "res_SetSource L r None ?h1 = Some (res, h2)" "hub_ok L h2" "evolves same_place ?h1 h2"
    "(res, source h2) = set_source r None (source ?h1)"
    using SetSource_ok [OF h1(2) assms(1), of r None] by auto
  have s2: "source h2 r = None" using h2(4) by (auto simp: set_source_def split: if_splits)
  have live2: "resources h2 r \<noteq> None" using evolves_live [OF h2(3), of r] by simp
  then obtain y where y: "resources h2 r = Some y" by auto
  obtain h3 where h3: "drop_dests (length (r_destList y)) L r h2 = Some h3" "hub_ok L h3" "evolves same_place h2 h3"
    "dests h3 r = []" "source h3 r = None" "get_obs h3 = get_obs h2"
    using drop_dests_ok [OF assms(1) h2(2) live2, of "length (r_destList y)"] y s2 by auto
  obtain z where z: "resources h3 r = Some z" using live2 evolves_live [OF h3(3), of r] by auto
  have gz: "same_links z (g z)" "value_ok (nextBuff h3) (g z)"
    using values_okD [OF hub_okD(5) [OF h3(2)] z] by (simp_all add: g_def same_defs value_ok_def)
  note h4 = update_setting [where f = g, OF h3(2) z gz]
  have "DropSettings L r h = Some (put_res r (g z) h3)"
    using h1(1) h2(1) y h3(1) h4(1) by (simp add: DropSettings_def f_def [symmetric] g_def [symmetric])
  moreover have "evolves same_place h (put_res r (g z) h3)"
    using place_trans [OF place_trans [OF links_place [OF h1(4)] h2(3)] place_trans [OF h3(3) links_place [OF h4(4)]]] .
  moreover have "get_obs (put_res r (g z) h3) = get_obs h"
  proof -
    have "get_obs (put_res r (g z) h3) = get_obs h3"
      using z by (auto simp: get_obs_def obs_part_def g_def fun_eq_iff)
    also have "\<dots> = get_obs ?h1" using h3(6) clear_source_obs [OF h2(1)] by simp
    also have "\<dots> = get_obs h" using x by (auto simp: get_obs_def obs_part_def f_def fun_eq_iff)
    finally show ?thesis .
  qed
  moreover have "r_srcPtr (g z) = None" "r_destList (g z) = []" "r_overrideValue (g z) = None" "r_defaultValue (g z) = None"
    using h3(4,5) z by (simp_all add: g_def)
  ultimately show ?thesis using h4(2) by auto
qed

subsection \<open>The observation goes\<close>

lemma release_obs:
  assumes "resources h r = Some x" "r_sub x = Observation ob" "o_backupPeriod ob = 0" "o_readOpList ob = []"
    "r_srcPtr x = None" "r_destList x = []"
  shows "Release_Resource L r h =
    Some ((unheard r (r_pushHandlerList x) h)\<lparr>resources := (resources h)(r := None)\<rparr>)"
  using assms
  by (simp add: Release_Resource_def ObservationDestructor_def end_reads_def get_obs_def put_obs_def res_Destruct_def
      update_res_def handler_RemoveAll_def fold_DeleteHandler put_res_def unheard_def Let_def obs_part_def cong: if_cong)

lemma DeleteObs_ok:
  assumes "framework_ok L" "hub_ok L h" "owned h" "entries h e = Some y" "e_resourcePtr y = Some r"
    "get_obs h r = Some ob" "o_backupPeriod ob = 0" "o_readOpList ob = []"
    "e_childList y = []" "e_parentPtr y = Some p" "p \<noteq> RootPtr h"
  shows "\<exists>h'. resTree_DeleteObservation L e h = Some h' \<and> hub_ok L h' \<and> owned h' \<and> kept {e} h h' \<and>
    entries h' e = None \<and> resources h' r = None"
proof -
  obtain ev where ev: "CallResourceTreeChangeHandlers L e ADMIN_ENTRY_TYPE_OBSERVATION ADMIN_RESOURCE_REMOVED h
      = Some (h\<lparr>events := ev\<rparr>)" "hub_ok L (h\<lparr>events := ev\<rparr>)"
    using tell_ok [OF assms(2), of e ADMIN_ENTRY_TYPE_OBSERVATION ADMIN_RESOURCE_REMOVED] assms(4) by auto
  let ?g = "h\<lparr>events := ev\<rparr>"
  have live: "resources ?g r \<noteq> None" using assms(6) by (auto simp: get_obs_Some)
  obtain h1 x where h1: "DropSettings L r ?g = Some h1" "hub_ok L h1" "evolves same_place ?g h1" "get_obs h1 = get_obs ?g"
    "resources h1 r = Some x" "r_srcPtr x = None" "r_destList x = []" "r_overrideValue x = None" "r_defaultValue x = None"
    using DropSettings_ok [OF assms(1) ev(2) live] by blast
  have sub: "r_sub x = Observation ob"
  proof -
    have "get_obs h1 r = Some ob" using h1(4) assms(6) by (simp add: get_obs_def)
    then show ?thesis using h1(5) by (simp add: get_obs_def)
  qed
  have ent: "entries h1 = entries h" "RootPtr h1 = RootPtr h" using evolves_entries [OF h1(3)] by simp_all
  define h2 where "h2 = unheard r (r_pushHandlerList x) h1"
  have ok2: "hub_ok L h2" unfolding h2_def by (rule unheard_ok [OF h1(2,5)]) simp
  have e2: "entries h2 = entries h" "RootPtr h2 = RootPtr h" by (simp_all add: h2_def unheard_frame ent)
  obtain x2 where x2: "resources h2 r = Some x2" "plain_res x2"
    using h1(5-9) by (auto simp: h2_def unheard_def plain_res_def)
  let ?d = "dropped e y r h2"
  have d: "hub_ok L ?d" by (rule drop_ok [OF ok2 _ assms(5) x2]) (simp add: e2 assms(4))
  have gone: "do { h \<leftarrow> Release_Resource L r h1; detach e h } = Some ?d"
    using release_obs [OF h1(5) sub assms(7,8) h1(6,7)] assms(4) e2 h1(5)
    by (simp add: h2_def detach_def dropped_def entry_set_def put_entry_def unheard_def put_res_def)
  then obtain k where k: "Release_Resource L r h1 = Some k" "detach e k = Some ?d" by (auto split: bind_splits)
  have root: "e \<noteq> RootPtr h"
    using tree_okD(3) [OF hub_okD(1) [OF assms(2)] assms(4)] assms(10) by (auto simp: parent_ok_def split: if_splits)
  obtain q v where q: "e_parentPtr y = Some q" "q < e" "entries h q = Some v" "e \<in> set (e_childList v)"
    by (rule tree_ok_parent [OF hub_okD(1) [OF assms(2)] assms(4) root])
  then have v: "entries h p = Some v" "p < e" using assms(10) by simp_all
  let ?y = "y\<lparr>e_resourcePtr := None, e_type := ADMIN_ENTRY_TYPE_NAMESPACE\<rparr>"
  have de: "entries ?d e = Some ?y" "p \<noteq> e" "entries ?d p = Some v" using v e2 by auto
  have own: "own_ref y" "own_ref v" using assms(3,4) v(1) by (simp_all add: owned_def)
  have v1: "1 < e_refCount v" using own(2) q(4) by (cases "e_childList v") (auto simp: own_ref_def)
  have "e < nextEntry ?d" by (rule tree_okD(1) [OF hub_okD(1) [OF d] de(1)])
  then have "1 < nextEntry ?d" using v(2) by linarith
  then have rel: "Release_Entry e ?d = Some (pruned e p v ?d)"
    using release_leaf [OF de(1) _ de(2) _ _ _ de(3) v1] own(1) assms(9,10) by (simp add: own_ref_def)
  have "hub_ok L (pruned e p v ?d)"
    by (rule prune_ok [OF d de(1) _ _ _ _ _ de(3) v1]) (use root assms(9-11) e2 in simp_all)
  moreover have "owned ?d" using assms(3,4) e2 by (auto simp: owned_def own_ref_def)
  then have "owned (pruned e p v ?d)" using pruned_owned [OF _ de(3,2)] q(4) by simp
  moreover have "kept {e} h (pruned e p v ?d)"
    using pruned_entries [OF de(3,2)] e2 by (auto simp: kept_def)
  moreover have "resTree_DeleteObservation L e h = Some (pruned e p v ?d)"
    using ev(1) assms(4,5) h1(1) rel k by (simp add: resTree_DeleteObservation_def res_DeleteObservation_def)
  ultimately show ?thesis using pruned_entries [OF de(3,2)] by auto
qed

end
