(* ===== verification/RequestSpec.thy ===== *)
theory RequestSpec
  imports DeleteSpec
begin

text \<open>
  Sequences of requests to the resource tree: every admissible request ends without stopping the
  daemon, and the invariant of the hub holds after every sequence of them. Deleting an entry that was deleted
  and created again while it had a child is not admissible, and does stop it.
\<close>

subsection \<open>Requests\<close>

datatype request =
    AskEntry eid string
  | AskInput eid string io_DataType_t string
  | AskOutput eid string io_DataType_t string
  | AskResource eid string
  | AskObservation eid string
  | Delete eid
  | DeleteObs eid
  | Push eid io_DataType_t dataSample_Ref_t
  | Route eid "eid option"
  | Default eid io_DataType_t dataSample_Ref_t
  | NoDefault eid
  | Override eid io_DataType_t dataSample_Ref_t
  | NoOverride eid
  | Example eid dataSample_Ref_t
  | Listen eid io_DataType_t nat nat
  | Unlisten hid
  | Optional eid
  | MinPeriod eid double
  | HighLimit eid double
  | LowLimit eid double
  | ChangeBy eid double
  | Transform eid obs_TransformType_t
  | BufferSize eid "32 word"
  | Extraction eid string
  | StartUpdate
  | EndUpdate

fun perform :: "legato \<Rightarrow> request \<Rightarrow> hub \<Rightarrow> hub option" where
  "perform L (AskEntry base path) h = map_option snd (resTree_GetEntry L base path h)"
| "perform L (AskInput base path t units) h = map_option snd (resTree_GetInput L base path t units h)"
| "perform L (AskOutput base path t units) h = map_option snd (resTree_GetOutput L base path t units h)"
| "perform L (AskResource base path) h = map_option snd (resTree_GetResource L base path h)"
| "perform L (AskObservation base path) h = map_option snd (resTree_GetObservation L base path h)"
| "perform L (Delete e) h = resTree_DeleteIO L e h"
| "perform L (DeleteObs e) h = resTree_DeleteObservation L e h"
| "perform L (Push e t s) h = resTree_Push L e t s h"
| "perform L (Route dest src) h = map_option snd (resTree_SetSource L dest src h)"
| "perform L (Default e t v) h = resTree_SetDefault L e t v h"
| "perform L (NoDefault e) h = resTree_RemoveDefault e h"
| "perform L (Override e t v) h = resTree_SetOverride L e t v h"
| "perform L (NoOverride e) h = resTree_RemoveOverride L e h"
| "perform L (Example e v) h = resTree_SetJsonExample e v h"
| "perform L (Listen e t callbackPtr contextPtr) h = map_option snd (resTree_AddPushHandler e t callbackPtr contextPtr h)"
| "perform L (Unlisten n) h = handler_Remove n h"
| "perform L (Optional e) h = resTree_MarkOptional e h"
| "perform L (MinPeriod e v) h = resTree_SetMinPeriod e v h"
| "perform L (HighLimit e v) h = resTree_SetHighLimit e v h"
| "perform L (LowLimit e v) h = resTree_SetLowLimit e v h"
| "perform L (ChangeBy e v) h = resTree_SetChangeBy e v h"
| "perform L (Transform e t) h = resTree_SetTransform e t h"
| "perform L (BufferSize e n) h = resTree_SetBufferMaxCount L e n h"
| "perform L (Extraction e extractionSpec) h = resTree_SetJsonExtraction L e extractionSpec h"
| "perform L StartUpdate h = Some (resTree_StartUpdate h)"
| "perform L EndUpdate h = resTree_EndUpdate L h"

subsection \<open>Admissible requests\<close>

definition live :: "hub \<Rightarrow> eid \<Rightarrow> bool" where
  "live h e \<longleftrightarrow> entries h e \<noteq> None"

definition has_resource :: "hub \<Rightarrow> eid \<Rightarrow> bool" where
  "has_resource h e \<longleftrightarrow> (\<exists>y. entries h e = Some y \<and> e_resourcePtr y \<noteq> None)"

definition of_type :: "hub \<Rightarrow> eid \<Rightarrow> admin_EntryType_t set \<Rightarrow> bool" where
  "of_type h e T \<longleftrightarrow> (\<exists>y. entries h e = Some y \<and> e_type y \<in> T)"

text \<open>A leaf of the tree that is not directly below the root.\<close>

definition inner_leaf :: "hub \<Rightarrow> eid \<Rightarrow> bool" where
  "inner_leaf h e \<longleftrightarrow>
     (\<exists>y p. entries h e = Some y \<and> e_childList y = [] \<and> e_parentPtr y = Some p \<and> p \<noteq> RootPtr h)"

definition buffers_only :: "hub \<Rightarrow> eid \<Rightarrow> bool" where
  "buffers_only h e \<longleftrightarrow>
     (\<exists>y r ob. entries h e = Some y \<and> e_resourcePtr y = Some r \<and> get_obs h r = Some ob \<and> o_backupPeriod ob = 0)"

text \<open>An observation without a backup and without reads under way.\<close>

definition idle :: "hub \<Rightarrow> eid \<Rightarrow> bool" where
  "idle h e \<longleftrightarrow>
     (\<exists>y r ob. entries h e = Some y \<and> e_resourcePtr y = Some r \<and> get_obs h r = Some ob \<and>
        o_backupPeriod ob = 0 \<and> o_readOpList ob = [])"

text \<open>A handler that is on the list it was put on, once.\<close>

definition removable :: "hub \<Rightarrow> hid \<Rightarrow> bool" where
  "removable h n \<longleftrightarrow>
     (\<forall>hp. handlers h n = Some hp \<longrightarrow>
        (\<exists>x. resources h (h_listPtr hp) = Some x \<and> n \<in> set (r_pushHandlerList x) \<and> distinct (r_pushHandlerList x)))"

text \<open>
  What a client must respect: entries are live and have the resources that the request needs; values
  have the type that is said; nothing is made its own source; only leaves are deleted, and
  observations only while they are idle; observations are created below an existing namespace for them, while there is no backup to restore.
\<close>

fun admissible :: "hub \<Rightarrow> request \<Rightarrow> bool" where
  "admissible h (AskEntry base path) = live h base"
| "admissible h (AskInput base path t units) = live h base"
| "admissible h (AskOutput base path t units) = live h base"
| "admissible h (AskResource base path) = live h base"
| "admissible h (AskObservation base path) = (live h base \<and> obs_namespace h \<and> backupFiles h = Map.empty)"
| "admissible h (Delete e) = (of_type h e {ADMIN_ENTRY_TYPE_INPUT, ADMIN_ENTRY_TYPE_OUTPUT} \<and> inner_leaf h e)"
| "admissible h (DeleteObs e) = (idle h e \<and> inner_leaf h e)"
| "admissible h (Push e t s) = (live h e \<and> sample_fine t s)"
| "admissible h (Route dest src) =
     (has_resource h dest \<and> (case src of None \<Rightarrow> True | Some s \<Rightarrow> live h s \<and> s \<noteq> dest))"
| "admissible h (Default e t v) = (has_resource h e \<and> sample_fine t v)"
| "admissible h (NoDefault e) = has_resource h e"
| "admissible h (Override e t v) = (has_resource h e \<and> sample_fine t v)"
| "admissible h (NoOverride e) = has_resource h e"
| "admissible h (Example e v) = (has_resource h e \<and> sample_fine IO_DATA_TYPE_JSON v)"
| "admissible h (Listen e t callbackPtr contextPtr) = has_resource h e"
| "admissible h (Unlisten n) = removable h n"
| "admissible h (Optional e) = of_type h e {ADMIN_ENTRY_TYPE_INPUT, ADMIN_ENTRY_TYPE_OUTPUT}"
| "admissible h (MinPeriod e v) = of_type h e {ADMIN_ENTRY_TYPE_OBSERVATION}"
| "admissible h (HighLimit e v) = of_type h e {ADMIN_ENTRY_TYPE_OBSERVATION}"
| "admissible h (LowLimit e v) = of_type h e {ADMIN_ENTRY_TYPE_OBSERVATION}"
| "admissible h (ChangeBy e v) = of_type h e {ADMIN_ENTRY_TYPE_OBSERVATION}"
| "admissible h (Transform e t) = of_type h e {ADMIN_ENTRY_TYPE_OBSERVATION}"
| "admissible h (BufferSize e n) = buffers_only h e"
| "admissible h (Extraction e extractionSpec) =
     (of_type h e {ADMIN_ENTRY_TYPE_OBSERVATION} \<and> length extractionSpec \<le> ADMIN_MAX_JSON_EXTRACTOR_LEN)"
| "admissible h StartUpdate = True"
| "admissible h EndUpdate = True"

inductive step :: "legato \<Rightarrow> hub \<Rightarrow> request \<Rightarrow> hub \<Rightarrow> bool" for L :: legato where
  step: "admissible h req \<Longrightarrow> perform L req h = Some h' \<Longrightarrow> step L h req h'"

inductive run :: "legato \<Rightarrow> hub \<Rightarrow> request list \<Rightarrow> hub \<Rightarrow> bool" for L :: legato where
  stop: "run L h [] h"
| more: "step L h req g \<Longrightarrow> run L g reqs h' \<Longrightarrow> run L h (req # reqs) h'"

inductive_cases step_cases: "step L h req h'"

inductive_simps run_Nil [simp]: "run L h [] h'"

inductive_simps run_Cons: "run L h (req # reqs) h'"

subsection \<open>One request\<close>

definition settled :: "legato \<Rightarrow> hub \<Rightarrow> bool" where
  "settled L h \<longleftrightarrow> hub_ok L h \<and> owned h"

text \<open>An operation goes well if it ends in such a state, with all entries where they were but those given.\<close>

definition goes_well :: "legato \<Rightarrow> hub \<Rightarrow> eid set \<Rightarrow> hub option \<Rightarrow> bool" where
  "goes_well L h X m \<longleftrightarrow> (\<exists>h'. m = Some h' \<and> settled L h' \<and> kept X h h')"

lemma goes_wellI: "m = Some h' \<Longrightarrow> hub_ok L h' \<Longrightarrow> owned h' \<Longrightarrow> kept X h h' \<Longrightarrow> goes_well L h X m"
  by (auto simp: goes_well_def settled_def)

lemma goes_same:
  "m = Some h' \<Longrightarrow> hub_ok L h' \<Longrightarrow> owned h' \<Longrightarrow> entries h' = entries h \<Longrightarrow> RootPtr h' = RootPtr h \<Longrightarrow>
   goes_well L h X m"
  by (auto intro: goes_wellI kept_same)

lemma goes_wellE:
  assumes "goes_well L h X m"
  obtains h' where "m = Some h'" "settled L h'" "kept X h h'"
  using assms by (auto simp: goes_well_def)

lemma settledD: "settled L h \<Longrightarrow> hub_ok L h" "settled L h \<Longrightarrow> owned h"
  by (simp_all add: settled_def)

lemma owned_cong: "owned h \<Longrightarrow> entries h' = entries h \<Longrightarrow> owned h'"
  by (simp add: owned_def)

lemma evolves_well:
  assumes "settled L h" "m = Some h'" "hub_ok L h'" "evolves P h h'"
  shows "goes_well L h X m"
  using assms owned_cong [OF settledD(2) [OF assms(1)] evolves_entries(1) [OF assms(4)]]
    kept_same [OF evolves_entries [OF assms(4)]]
  by (auto intro: goes_wellI)

lemma resource_live:
  assumes "hub_ok L h" "has_resource h e"
  obtains y r x where "entries h e = Some y" "e_resourcePtr y = Some r" "resources h r = Some x"
    "kind_ok (e_type y) (r_sub x)" "entry_type_of h r = Some (e_type y)" "\<And>f :: rid \<Rightarrow> hub option. with_resource h e f = f r"
proof -
  obtain y r where y: "entries h e = Some y" "e_resourcePtr y = Some r" using assms(2) by (auto simp: has_resource_def)
  show thesis
    by (rule entry_resource [OF hub_okD(2) [OF assms(1)] y]) (rule that [OF y], simp_all add: with_resource_def y)
qed

lemma typed_resource:
  assumes "hub_ok L h" "of_type h e T" "ADMIN_ENTRY_TYPE_NAMESPACE \<notin> T"
  shows "has_resource h e"
proof -
  obtain y where y: "entries h e = Some y" "e_type y \<in> T" using assms(2) by (auto simp: of_type_def)
  have "entry_ok h e y" using hub_okD(2) [OF assms(1)] y(1) by (simp add: attached_ok_def)
  then show ?thesis using y assms(3) by (auto simp: has_resource_def entry_ok_def split: option.splits)
qed

text \<open>Asking for entries and resources.\<close>

lemma ask_entry:
  assumes "framework_ok L" "settled L h" "live h base"
  shows "goes_well L h {} (map_option snd (resTree_GetEntry L base path h))"
proof -
  obtain r g where g: "GoToEntry L base path True h = Some (r, g)" "hub_ok L g" "grown h g"
    using GoTo_ok [OF assms(1) settledD(1) [OF assms(2)], of base path] assms(3) by (auto simp: live_def)
  then show ?thesis
    using GoToEntry_owned [OF settledD(2) [OF assms(2)] g(1)] kept_grown [OF g(3)]
    by (auto simp: resTree_GetEntry_def intro: goes_wellI)
qed

lemma ask_io:
  assumes "framework_ok L" "settled L h" "live h base"
  shows "goes_well L h {} (map_option snd (resTree_GetInput L base path t units h))"
    "goes_well L h {} (map_option snd (resTree_GetOutput L base path t units h))"
  using Get_io [OF assms(1) settledD(1) [OF assms(2)], of base path t units] assms(3) settledD(2) [OF assms(2)]
  by (auto simp: live_def io_promise_def intro: goes_wellI)

lemma GetResource_ok:
  assumes "framework_ok L" "settled L h" "live h base"
  shows "\<exists>r h'. resTree_GetResource L base path h = Some (r, h') \<and> settled L h' \<and> kept {} h h' \<and>
    (\<forall>e. r = Some e \<longrightarrow> has_resource h' e \<and> resTree_FindEntry L h' base path = Some (Some e))"
proof -
  note u = framework_okD(1) [OF assms(1)]
  obtain r g where g: "GoToEntry L base path True h = Some (r, g)" "hub_ok L g" "grown h g"
    "\<forall>e. r = Some e \<longrightarrow> entries g e \<noteq> None \<and> resTree_FindEntry L g base path = Some (Some e)"
    using GoTo_ok [OF assms(1) settledD(1) [OF assms(2)], of base path] assms(3) by (auto simp: live_def)
  have ow: "settled L g" "kept {} h g"
    using GoToEntry_owned [OF settledD(2) [OF assms(2)] g(1)] g(2) kept_grown [OF g(3)] by (simp_all add: settled_def)
  show ?thesis
  proof (cases r)
    case None
    then show ?thesis using g(1) ow by (auto simp: resTree_GetResource_def)
  next
    case (Some e)
    obtain y where y: "entries g e = Some y" using g(4) Some by auto
    show ?thesis
    proof (cases "e_type y = ADMIN_ENTRY_TYPE_NAMESPACE")
      case False
      then have "of_type g e (- {ADMIN_ENTRY_TYPE_NAMESPACE})" using y by (simp add: of_type_def)
      then have "has_resource g e" by (rule typed_resource [OF g(2)]) simp
      then show ?thesis using g(1,4) ow y Some False by (auto simp: resTree_GetResource_def)
    next
      case True
      then have "e_type y \<noteq> ADMIN_ENTRY_TYPE_OBSERVATION" by simp
      note rep = Replace_ok [OF u g(2) y fresh_placeholder this]
      let ?p = "placed L e y ADMIN_ENTRY_TYPE_PLACEHOLDER (res_Construct e) g"
      note pe = placed_entry(1,2) [OF y, of L ADMIN_ENTRY_TYPE_PLACEHOLDER "res_Construct e"]
      have "resTree_GetResource L base path h = Some (Some e, ?p)"
        using g(1) y Some True rep(1) by (simp add: resTree_GetResource_def CreatePlaceholder_new)
      moreover have "settled L ?p" using rep(2) placed_owned [OF settledD(2) [OF ow(1)] y] by (simp add: settled_def)
      moreover have "kept {} h ?p" using kept_trans [OF ow(2) placed_kept [OF y]] by simp
      moreover have "has_resource ?p e" using pe(1) by (simp add: has_resource_def)
      moreover have "resTree_FindEntry L ?p base path = Some (Some e)"
        using g(4) Some same_names_FindEntry [OF pe(2)] by simp
      ultimately show ?thesis by blast
    qed
  qed
qed

lemma ask_resource:
  assumes "framework_ok L" "settled L h" "live h base"
  shows "goes_well L h {} (map_option snd (resTree_GetResource L base path h))"
  using GetResource_ok [OF assms, of path] by (auto simp: goes_well_def)

definition new_obs :: "legato \<Rightarrow> eid \<Rightarrow> hub \<Rightarrow> res_Resource_t" where
  "new_obs L e h = (res_Construct e)\<lparr>r_sub := Observation
       \<lparr> o_highLimit = NAN, o_lowLimit = NAN, o_changeBy = NAN, o_minPeriod = NAN,
         o_lastPushTime = mem_junk L (nextRes h),
         o_transformType = OBS_TRANSFORM_TYPE_NONE,
         o_maxCount = 0, o_count = 0,
         o_bufferedType = IO_DATA_TYPE_TRIGGER,
         o_backupPeriod = 0, o_lastBackupTime = 0, o_backupTimer = None,
         o_sampleList = [], o_readOpList = [], o_jsonExtraction = [] \<rparr>\<rparr>"

lemma CreateObservation_new: "res_CreateObservation L e h = (nextRes h, with_new (new_obs L e h) h)"
  by (simp add: res_CreateObservation_def obs_Create_def alloc_res_def with_new_def new_obs_def)

lemma fresh_obs: "obs_namespace h \<Longrightarrow> fresh_res h e ADMIN_ENTRY_TYPE_OBSERVATION (new_obs L e g)"
  by (simp add: fresh_res_def new_obs_def res_Construct_def value_ok_def obs_ok_def buffer_ok_def)

text \<open>Without files there is nothing to restore.\<close>

lemma RestoreBackup_none:
  assumes "framework_ok L" "hub_ok L h" "get_obs h r \<noteq> None" "backupFiles h = Map.empty"
  shows "res_RestoreBackup L r h = Some h"
proof -
  obtain ob where ob: "get_obs h r = Some ob" using assms(3) by auto
  note at = hub_obs_attached [OF assms(2,1) ob]
  have "length (BACKUP_DIR L) < MAX_BACKUP_FILE_PATH_BYTES L" by (simp add: MAX_BACKUP_FILE_PATH_BYTES_def)
  then obtain res path where "GetBackupFilePath L (MAX_BACKUP_FILE_PATH_BYTES L) r h = Some (res, path)"
    using GetBackupFilePath_total [OF framework_okD(1) [OF assms(1)] at(1)] by blast
  then show ?thesis using at(3) assms(4) by (simp add: res_RestoreBackup_def obs_RestoreBackup_def)
qed

lemma placed_files: "backupFiles (placed L e y t x h) = backupFiles h"
  by (simp add: placed_def after_swap_def entry_set_def with_new_def put_res_def split: option.split)

lemma GetObservation_ok:
  assumes "framework_ok L" "settled L h" "live h base" "obs_namespace h" "backupFiles h = Map.empty"
  shows "\<exists>r h'. resTree_GetObservation L base path h = Some (r, h') \<and> settled L h' \<and> kept {} h h' \<and>
    (\<forall>e. r = Some e \<longrightarrow> of_type h' e {ADMIN_ENTRY_TYPE_OBSERVATION} \<and>
       resTree_FindEntry L h' base path = Some (Some e))"
proof -
  note u = framework_okD(1) [OF assms(1)]
  obtain r g where g: "GoToEntry L base path True h = Some (r, g)" "hub_ok L g" "sprouted h g" "grown h g"
    "\<forall>e. r = Some e \<longrightarrow> entries g e \<noteq> None \<and> resTree_FindEntry L g base path = Some (Some e)"
    using GoTo_ok [OF assms(1) settledD(1) [OF assms(2)], of base path] assms(3) by (auto simp: live_def)
  have ow: "settled L g" "kept {} h g"
    using GoToEntry_owned [OF settledD(2) [OF assms(2)] g(1)] g(2) kept_grown [OF g(4)] by (simp_all add: settled_def)
  have ns: "obs_namespace g"
    by (rule grown_obs_namespace [OF hub_okD(1) [OF settledD(1) [OF assms(2)]] g(4) assms(4)])
  have files: "backupFiles g = Map.empty" using g(3) assms(5) unfolding sprouted_def by (metis hub.select_convs hub.surjective hub.update_convs)
  show ?thesis
  proof (cases r)
    case None
    then show ?thesis using g(1) ow by (auto simp: resTree_GetObservation_def)
  next
    case (Some e)
    obtain y where y: "entries g e = Some y" using g(5) Some by auto
    show ?thesis
    proof (cases "e_type y = ADMIN_ENTRY_TYPE_NAMESPACE \<or> e_type y = ADMIN_ENTRY_TYPE_PLACEHOLDER")
      case False
      then show ?thesis
        using g(1,5) ow y Some no_none_type [OF hub_okD(2) [OF g(2)] y]
        by (cases "e_type y") (auto simp: resTree_GetObservation_def of_type_def)
    next
      case True
      then have "e_type y \<noteq> ADMIN_ENTRY_TYPE_OBSERVATION" by auto
      note rep = Replace_ok [OF u g(2) y fresh_obs [OF ns, of e L g] this]
      let ?p = "placed L e y ADMIN_ENTRY_TYPE_OBSERVATION (new_obs L e g) g"
      note pe = placed_entry(1,2) [OF y, of L ADMIN_ENTRY_TYPE_OBSERVATION "new_obs L e g"]
      obtain z where "resources ?p (nextRes g) = Some z" "r_sub z = r_sub (new_obs L e g)"
        using placed_resource [OF g(2) y fresh_obs [OF ns, of e L g]] by blast
      then have "get_obs ?p (nextRes g) \<noteq> None" by (simp add: get_obs_def new_obs_def)
      then have restore: "res_RestoreBackup L (nextRes g) ?p = Some ?p"
        using RestoreBackup_none [OF assms(1) rep(2)] files by (simp add: placed_files)
      obtain ev where ev: "CallResourceTreeChangeHandlers L e ADMIN_ENTRY_TYPE_OBSERVATION ADMIN_RESOURCE_ADDED ?p = Some (?p\<lparr>events := ev\<rparr>)"
        "hub_ok L (?p\<lparr>events := ev\<rparr>)"
        using tell_ok [OF rep(2), of e ADMIN_ENTRY_TYPE_OBSERVATION ADMIN_RESOURCE_ADDED] pe(1) by auto
      let ?h = "?p\<lparr>events := ev\<rparr>"
      have "resTree_GetObservation L base path h = Some (Some e, ?h)"
        using g(1) y Some True rep(1) restore ev(1) by (auto simp: resTree_GetObservation_def CreateObservation_new)
      moreover have "settled L ?h"
        using ev(2) placed_owned [OF settledD(2) [OF ow(1)] y, of L ADMIN_ENTRY_TYPE_OBSERVATION "new_obs L e g"]
        by (simp add: settled_def owned_def)
      moreover have "kept {} h ?h"
        using kept_trans [OF ow(2) placed_kept [OF y, of "{}" L ADMIN_ENTRY_TYPE_OBSERVATION "new_obs L e g"]]
        by (simp add: kept_def)
      moreover have "of_type ?h e {ADMIN_ENTRY_TYPE_OBSERVATION}" using pe(1) by (simp add: of_type_def)
      moreover have "same_names g ?h" using pe(2) by (simp add: same_names_def)
      then have "resTree_FindEntry L ?h base path = Some (Some e)"
        using g(5) Some same_names_FindEntry [of g ?h] by simp
      ultimately show ?thesis by blast
    qed
  qed
qed

lemma ask_observation:
  assumes "framework_ok L" "settled L h" "live h base" "obs_namespace h" "backupFiles h = Map.empty"
  shows "goes_well L h {} (map_option snd (resTree_GetObservation L base path h))"
  using GetObservation_ok [OF assms, of path] by (auto simp: goes_well_def)

text \<open>Deleting a leaf.\<close>

lemma delete_leaf:
  assumes "framework_ok L" "settled L h" "of_type h e {ADMIN_ENTRY_TYPE_INPUT, ADMIN_ENTRY_TYPE_OUTPUT}" "inner_leaf h e"
  shows "goes_well L h {e} (resTree_DeleteIO L e h)"
proof -
  note ok = settledD [OF assms(2)]
  obtain y p where y: "entries h e = Some y" "e_type y \<in> {ADMIN_ENTRY_TYPE_INPUT, ADMIN_ENTRY_TYPE_OUTPUT}"
    "e_childList y = []" "e_parentPtr y = Some p" "p \<noteq> RootPtr h"
    using assms(3,4) by (auto simp: of_type_def inner_leaf_def)
  have "e \<noteq> RootPtr h"
    using tree_okD(3) [OF hub_okD(1) [OF ok(1)] y(1)] y(4) by (auto simp: parent_ok_def split: if_splits)
  then obtain v where v: "entries h p = Some v"
    using tree_ok_parent [OF hub_okD(1) [OF ok(1)] y(1)] y(4) by (metis option.inject)
  have "own_ref y" "own_ref v" using ok(2) y(1) v by (simp_all add: owned_def)
  then obtain h' where "resTree_DeleteIO L e h = Some h'" "hub_ok L h'" "owned h \<and> e_childList y = [] \<longrightarrow> owned h'" "kept {e} h h'"
    using DeleteIO_ok [OF assms(1) ok(1) y(1,2) _ y(4,5) v] by metis
  then show ?thesis using ok(2) y(3) by (auto intro: goes_wellI)
qed

lemma delete_observation:
  assumes "framework_ok L" "settled L h" "idle h e" "inner_leaf h e"
  shows "goes_well L h {e} (resTree_DeleteObservation L e h)"
proof -
  obtain y r ob p where y: "entries h e = Some y" "e_resourcePtr y = Some r" "get_obs h r = Some ob" "o_backupPeriod ob = 0"
    "o_readOpList ob = []" "e_childList y = []" "e_parentPtr y = Some p" "p \<noteq> RootPtr h"
    using assms(3,4) by (auto simp: idle_def inner_leaf_def)
  show ?thesis
    using DeleteObs_ok [OF assms(1) settledD [OF assms(2)] y] by (auto simp: goes_well_def settled_def)
qed

text \<open>Pushes, routes and values.\<close>

lemma push_well:
  assumes "framework_ok L" "settled L h" "live h e" "sample_fine t s"
  shows "goes_well L h {} (resTree_Push L e t s h)"
proof -
  note ok = settledD [OF assms(2)]
  obtain y where y: "entries h e = Some y" using assms(3) by (auto simp: live_def)
  show ?thesis
  proof (cases "e_type y = ADMIN_ENTRY_TYPE_NAMESPACE")
    case True
    then show ?thesis using y ok by (auto simp: resTree_Push_def intro: goes_same)
  next
    case False
    then have "of_type h e (- {ADMIN_ENTRY_TYPE_NAMESPACE})" using y by (simp add: of_type_def)
    then have "has_resource h e" by (rule typed_resource [OF ok(1)]) simp
    then obtain r x where r: "e_resourcePtr y = Some r" "resources h r = Some x" using resource_live [OF ok(1)] y by (metis option.inject)
    obtain h' where h': "res_Push L r t None s h = Some h'" "hub_ok L h'" "stirs (reach h r) h h'"
      using res_Push_ok [OF assms(1) ok(1) _ assms(4), of r None] r(2) by auto
    show ?thesis
      by (rule evolves_well [OF assms(2) _ h'(2) stirs_evolves [OF h'(3)]])
        (use y r h'(1) False no_none_type [OF hub_okD(2) [OF ok(1)] y] in \<open>simp add: resTree_Push_def\<close>)
  qed
qed

lemma route_well:
  assumes "framework_ok L" "settled L h" "has_resource h dest" "case src of None \<Rightarrow> True | Some s \<Rightarrow> live h s \<and> s \<noteq> dest"
  shows "goes_well L h {} (map_option snd (resTree_SetSource L dest src h))"
proof -
  note ok = settledD [OF assms(2)]
  obtain y r x where y: "entries h dest = Some y" "e_resourcePtr y = Some r" "resources h r = Some x"
    by (rule resource_live [OF ok(1) assms(3)])
  define srcRes where "srcRes = (case src of None \<Rightarrow> Some None | Some s \<Rightarrow> do { z \<leftarrow> entries h s; Some (e_resourcePtr z) })"
  obtain q where q: "srcRes = Some q" "\<forall>p. q = Some p \<longrightarrow> resources h p \<noteq> None \<and> p \<noteq> r"
  proof (cases src)
    case None
    then show thesis using that by (simp add: srcRes_def)
  next
    case (Some s)
    obtain z where z: "entries h s = Some z" "s \<noteq> dest" using assms(4) Some by (auto simp: live_def)
    have "resources h p \<noteq> None \<and> p \<noteq> r" if p: "e_resourcePtr z = Some p" for p
    proof -
      obtain v where v: "resources h p = Some v" "r_entryRef v = Some s"
        by (rule entry_resource [OF hub_okD(2) [OF ok(1)] z(1) p])
      obtain w where "resources h r = Some w" "r_entryRef w = Some dest"
        by (rule entry_resource [OF hub_okD(2) [OF ok(1)] y(1,2)])
      then show ?thesis using v z(2) by auto
    qed
    then show thesis using that Some z(1) by (simp add: srcRes_def)
  qed
  obtain res h' where h': "res_SetSource L r q h = Some (res, h')" "hub_ok L h'" "evolves same_place h h'"
    using SetSource_ok [OF ok(1) assms(1) _ q(2)] y(3) by auto
  have ty: "e_type y \<noteq> ADMIN_ENTRY_TYPE_NAMESPACE" "e_type y \<noteq> ADMIN_ENTRY_TYPE_NONE"
  proof -
    obtain x where "resources h r = Some x" "r_entryRef x = Some dest" "kind_ok (e_type y) (r_sub x)"
      by (rule entry_resource [OF hub_okD(2) [OF ok(1)] y(1,2)])
    then show "e_type y \<noteq> ADMIN_ENTRY_TYPE_NAMESPACE" "e_type y \<noteq> ADMIN_ENTRY_TYPE_NONE"
      by (auto elim: kind_ok_cases)
  qed
  show ?thesis
    by (rule evolves_well [OF assms(2) _ h'(2,3)])
      (use y ty q(1) h'(1) in \<open>simp add: resTree_SetSource_def srcRes_def [symmetric]\<close>)
qed

lemma default_well:
  assumes "framework_ok L" "settled L h" "has_resource h e" "sample_fine t v"
  shows "goes_well L h {} (resTree_SetDefault L e t v h)" "goes_well L h {} (resTree_SetOverride L e t v h)"
proof -
  obtain y r x where x: "resources h r = Some x" and w: "\<And>f :: rid \<Rightarrow> hub option. with_resource h e f = f r"
    using resource_live [OF settledD(1) [OF assms(2)] assms(3)] by metis
  obtain h1 where h1: "res_SetDefault L r t v h = Some h1" "hub_ok L h1" "evolves same_links h h1"
    using SetDefault_ok [OF settledD(1) [OF assms(2)] assms(1) x assms(4)] by blast
  show "goes_well L h {} (resTree_SetDefault L e t v h)"
    by (rule evolves_well [OF assms(2) _ h1(2,3)]) (simp add: resTree_SetDefault_def w h1(1))
  obtain h2 where h2: "res_SetOverride L r t v h = Some h2" "hub_ok L h2" "evolves same_links h h2"
    using SetOverride_ok [OF settledD(1) [OF assms(2)] assms(1) x assms(4)] by blast
  show "goes_well L h {} (resTree_SetOverride L e t v h)"
    by (rule evolves_well [OF assms(2) _ h2(2,3)]) (simp add: resTree_SetOverride_def w h2(1))
qed

lemma setting_well:
  assumes "settled L h" "resources h r = Some x" "same_links x (f x)" "value_ok (nextBuff h) (f x)"
  shows "goes_well L h {} (update_res r f h)" "goes_well L h {} (Some (put_res r (f x) h))"
  using evolves_well [OF assms(1) _ update_setting(2,4) [where f = f, OF settledD(1) [OF assms(1)] assms(2-4)]]
    update_setting(1) [where f = f, OF settledD(1) [OF assms(1)] assms(2-4)] by auto

lemma remove_well:
  assumes "framework_ok L" "settled L h" "has_resource h e"
  shows "goes_well L h {} (resTree_RemoveDefault e h)" "goes_well L h {} (resTree_RemoveOverride L e h)"
proof -
  note ok = settledD [OF assms(2)]
  obtain y r x where x: "resources h r = Some x" and w: "\<And>f :: rid \<Rightarrow> hub option. with_resource h e f = f r"
    using resource_live [OF ok(1) assms(3)] by metis
  have v: "value_ok (nextBuff h) x" by (rule values_okD [OF hub_okD(5) [OF ok(1)] x])
  show "goes_well L h {} (resTree_RemoveDefault e h)"
    unfolding resTree_RemoveDefault_def w res_RemoveDefault_def
    by (rule setting_well(1) [OF assms(2) x]) (use v in \<open>simp_all add: same_defs value_ok_def\<close>)
  show "goes_well L h {} (resTree_RemoveOverride L e h)"
  proof (cases "r_overrideValue x = None")
    case True
    then show ?thesis using ok x by (auto simp: resTree_RemoveOverride_def w res_RemoveOverride_def intro: goes_same)
  next
    case False
    then obtain h' where h': "res_RemoveOverride L r h = Some h'" "hub_ok L h'" "evolves same_links h h'"
      using RemoveOverride_ok [OF ok(1) assms(1) x] by blast
    show ?thesis
      by (rule evolves_well [OF assms(2) _ h'(2,3)]) (simp add: resTree_RemoveOverride_def w h'(1))
  qed
qed

lemma example_well:
  assumes "settled L h" "has_resource h e" "sample_fine IO_DATA_TYPE_JSON v"
  shows "goes_well L h {} (resTree_SetJsonExample e v h)"
proof -
  obtain r x where x: "resources h r = Some x" and w: "\<And>f :: rid \<Rightarrow> hub option. with_resource h e f = f r"
    using resource_live [OF settledD(1) [OF assms(1)] assms(2)] by metis
  obtain h' where h': "res_SetJsonExample r v h = Some h'" "hub_ok L h'" "evolves same_shape h h'"
    using SetJsonExample_ok [OF settledD(1) [OF assms(1)] _ assms(3), of r] x by auto
  show ?thesis
    by (rule evolves_well [OF assms(1) _ h'(2,3)]) (simp add: resTree_SetJsonExample_def w h'(1))
qed

text \<open>A new handler.\<close>

definition listening :: "rid \<Rightarrow> res_Resource_t \<Rightarrow> Handler_t \<Rightarrow> hub \<Rightarrow> hub" where
  "listening r x hp h = put_res r (x\<lparr>r_pushHandlerList := r_pushHandlerList x @ [nextHandler h]\<rparr>)
     (h\<lparr>handlers := (handlers h)(nextHandler h \<mapsto> hp), nextHandler := nextHandler h + 1\<rparr>)"

lemma listening_ok:
  assumes "hub_ok L h" "resources h r = Some x"
  shows "hub_ok L (listening r x hp h)"
proof -
  let ?h = "listening r x hp h"
  let ?n = "nextHandler h"
  note ok = hub_okD [OF assms(1)]
  have f: "entries ?h = entries h" "RootPtr ?h = RootPtr h" "nextEntry ?h = nextEntry h" "nextRes ?h = nextRes h"
    "nextBuff ?h = nextBuff h" "handlers ?h = (handlers h)(?n \<mapsto> hp)" "nextHandler ?h = Suc ?n"
    "resources ?h = (resources h)(r \<mapsto> x\<lparr>r_pushHandlerList := r_pushHandlerList x @ [?n]\<rparr>)"
    by (simp_all add: listening_def)
  have "others_still h ?h {}"
    using assms(2) by (auto simp: others_still_def still_def f option.rel_refl)
  then have s: "rel_option still (resources h q) (resources ?h q)" for q by (simp add: others_still_def)
  have "attached ?h q z" if z: "resources ?h q = Some z" for q z
  proof -
    obtain w where w: "resources h q = Some w" "still w z" using s [of q] z by (cases "resources h q") auto
    then have "attached h q w" using ok(2) by (simp add: attached_ok_def)
    then show ?thesis using w(2) by (simp add: attached_def still_def f(1))
  qed
  moreover have "entry_ok ?h c v" if v: "entries h c = Some v" for c v
  proof (cases "e_resourcePtr v")
    case None
    have "entry_ok h c v" using ok(2) v by (simp add: attached_ok_def)
    then show ?thesis using None by (simp add: entry_ok_def)
  next
    case (Some q)
    obtain w where "resources h q = Some w" "r_entryRef w = Some c" by (rule entry_resource [OF ok(2) v Some])
    then show ?thesis using s [of q] Some by (auto simp: entry_ok_def still_def option_rel_Some1)
  qed
  moreover have "get_obs ?h q = get_obs h q" for q
    using assms(2) by (simp add: get_obs_def obs_part_def f(8))
  ultimately have "attached_ok ?h"
    using ok(2) tree_cong(2) [OF f(1-3)] by (simp add: attached_ok_def f(1))
  moreover have "dests ?h = dests h" "source ?h = source h"
    using assms(2) by (auto simp: fun_eq_iff dests_def source_def f(8))
  moreover have hd: "heard ?h = (heard h)(r := heard h r @ [?n])"
    using assms(2) by (auto simp: fun_eq_iff heard_def f(8))
  have below: "m < ?n" "handlers h m \<noteq> None" if "m \<in> set (heard h q)" for m q
    using ok(4) that by (auto simp: numbered_def)
  have "numbered ?h"
    unfolding numbered_def
  proof (intro conjI allI ballI impI)
    show "q < nextRes ?h" if "resources ?h q \<noteq> None" for q
      using ok(4) that assms(2) by (auto simp: numbered_def f(4,8) split: if_splits)
    fix q m assume "m \<in> set (heard ?h q)"
    then have "m = ?n \<or> m \<in> set (heard h q)" by (auto simp: hd split: if_splits)
    then show "handlers ?h m \<noteq> None" "m < nextHandler ?h"
      using below [of m q] by (auto simp: f(6,7))
  next
    fix p q :: rid assume "p \<noteq> q"
    then show "set (heard ?h p) \<inter> set (heard ?h q) = {}"
      using ok(4) below(1) [of ?n] by (auto simp: numbered_def hd)
  qed
  moreover have "values_ok ?h"
    using ok(5) values_okD [OF ok(5) assms(2)] by (simp add: values_ok_def f(5,8)) (simp add: value_ok_def)
  ultimately show ?thesis
    using ok tree_cong(1) [OF f(1-3)] by (simp add: hub_ok_def routes_ok_def links_ok_def)
qed

lemma listen_well:
  assumes "settled L h" "has_resource h e"
  shows "goes_well L h {} (map_option snd (resTree_AddPushHandler e t callbackPtr contextPtr h))"
proof -
  note ok = settledD [OF assms(1)]
  obtain y r x where y: "entries h e = Some y" "e_resourcePtr y = Some r" "resources h r = Some x"
    by (rule resource_live [OF ok(1) assms(2)])
  obtain x' where x': "resources h r = Some x'" "r_entryRef x' = Some e"
    by (rule entry_resource [OF hub_okD(2) [OF ok(1)] y(1,2)])
  let ?hp = "\<lparr> h_listPtr = r, h_dataType = t, h_callbackPtr = callbackPtr, h_contextPtr = contextPtr \<rparr>"
  have "map_option snd (resTree_AddPushHandler e t callbackPtr contextPtr h) = Some (listening r x ?hp h)"
    using y x' by (simp add: resTree_AddPushHandler_def with_resource_def res_AddPushHandler_def resTree_IsResource_def
        handler_Add_def listening_def Let_def)
  moreover have "owned (listening r x ?hp h)" using ok(2) by (simp add: owned_def listening_def)
  ultimately show ?thesis using listening_ok [OF ok(1) y(3)]
    by (auto simp: listening_def intro: goes_same)
qed

lemma unlisten_well:
  assumes "settled L h" "removable h n"
  shows "goes_well L h {} (handler_Remove n h)"
proof (cases "handlers h n")
  case None
  then show ?thesis using settledD [OF assms(1)] by (auto simp: handler_Remove_def intro: goes_same)
next
  case (Some hp)
  then obtain x where x: "resources h (h_listPtr hp) = Some x" "n \<in> set (r_pushHandlerList x)" "distinct (r_pushHandlerList x)"
    using assms(2) by (auto simp: removable_def)
  note ok = settledD [OF assms(1)]
  show ?thesis
    by (rule goes_same [OF Remove_unheard [OF ok(1) Some x] unheard_ok [OF ok(1) x(1)] owned_cong [OF ok(2)]])
      (use x(2) in \<open>simp_all add: unheard_frame\<close>)
qed

lemma optional_well:
  assumes "settled L h" "of_type h e {ADMIN_ENTRY_TYPE_INPUT, ADMIN_ENTRY_TYPE_OUTPUT}"
  shows "goes_well L h {} (resTree_MarkOptional e h)"
proof -
  note ok = settledD [OF assms(1)]
  have r: "has_resource h e" by (rule typed_resource [OF ok(1) assms(2)]) simp
  obtain y r x where y: "entries h e = Some y" "e_resourcePtr y = Some r" "resources h r = Some x" "kind_ok (e_type y) (r_sub x)"
    by (rule resource_live [OF ok(1) r])
  have "e_type y = ADMIN_ENTRY_TYPE_INPUT \<or> e_type y = ADMIN_ENTRY_TYPE_OUTPUT" using assms(2) y(1) by (auto simp: of_type_def)
  then obtain p where p: "r_sub x = IoPoint p" using y(4) by (auto elim: kind_ok_cases)
  define f where "f = (\<lambda>z :: res_Resource_t. z\<lparr>r_sub := IoPoint (p\<lparr>io_isMandatory := False\<rparr>)\<rparr>)"
  have "same_links x (f x)" using p by (simp add: same_defs f_def)
  moreover have "value_ok (nextBuff h) (f x)"
    using values_okD [OF hub_okD(5) [OF ok(1)] y(3)] p by (auto simp: value_ok_def f_def)
  ultimately have "goes_well L h {} (Some (put_res r (f x) h))" by (rule setting_well(2) [OF assms(1) y(3)])
  then show ?thesis
    using y(1-3) p by (simp add: resTree_MarkOptional_def with_resource_def res_MarkOptional_def ioPoint_MarkOptional_def f_def)
qed

text \<open>Settings of observations.\<close>

lemma observation:
  assumes "hub_ok L h" "of_type h e {ADMIN_ENTRY_TYPE_OBSERVATION}"
  obtains y r x ob where "entries h e = Some y" "e_resourcePtr y = Some r" "resources h r = Some x" "r_sub x = Observation ob"
    "obs_ok ob (nextBuff h)"
proof -
  have r: "has_resource h e" by (rule typed_resource [OF assms]) simp
  obtain y r x where y: "entries h e = Some y" "e_resourcePtr y = Some r" "resources h r = Some x" "kind_ok (e_type y) (r_sub x)"
    by (rule resource_live [OF assms(1) r])
  have "e_type y = ADMIN_ENTRY_TYPE_OBSERVATION" using assms(2) y(1) by (auto simp: of_type_def)
  then obtain ob where ob: "r_sub x = Observation ob" using y(4) by (auto elim: kind_ok_cases)
  have "value_ok (nextBuff h) x" by (rule values_okD [OF hub_okD(5) [OF assms(1)] y(3)])
  then have "obs_ok ob (nextBuff h)" using ob by (simp add: value_ok_def)
  then show thesis using that y(1-3) ob by blast
qed

lemma put_obs_well:
  assumes "settled L h" "resources h r = Some x" "r_sub x = Observation ob" "obs_ok ob' (nextBuff h)"
  shows "hub_ok L (put_obs r ob' h)" "evolves same_links h (put_obs r ob' h)"
proof -
  define f where "f = (\<lambda>z :: res_Resource_t. z\<lparr>r_sub := Observation ob'\<rparr>)"
  have p: "put_obs r ob' h = put_res r (f x) h" using assms(2) by (simp add: put_obs_def f_def)
  have "same_links x (f x)" using assms(3) by (simp add: same_defs f_def)
  moreover have "value_ok (nextBuff h) (f x)"
    using values_okD [OF hub_okD(5) [OF settledD(1) [OF assms(1)]] assms(2)] assms(4) by (simp add: value_ok_def f_def)
  ultimately show "hub_ok L (put_obs r ob' h)" "evolves same_links h (put_obs r ob' h)"
    using update_setting(2,4) [where f = f, OF settledD(1) [OF assms(1)] assms(2)] by (simp_all add: p)
qed

lemma mark_after:
  assumes "settled L h" "hub_ok L g" "evolves same_links h g" "resources h r \<noteq> None"
  shows "goes_well L h {} (mark_changing r g)"
proof -
  have "resources g r \<noteq> None" using assms(4) evolves_live [OF assms(3), of r] by simp
  then obtain h' where h': "mark_changing r g = Some h'" "hub_ok L h'" "evolves same_links g h'"
    using mark_changing_ok [OF assms(2)] by blast
  show ?thesis by (rule evolves_well [OF assms(1) h'(1,2) links_trans [OF assms(3) h'(3)]])
qed

lemma obs_setting_well:
  assumes "settled L h" "of_type h e {ADMIN_ENTRY_TYPE_OBSERVATION}" "\<And>ob n. obs_ok (f ob) n = obs_ok ob n"
  shows "goes_well L h {} (with_resource h e (\<lambda>r. do { h \<leftarrow> update_obs r f h; mark_changing r h }))"
proof -
  obtain y r x ob where y: "entries h e = Some y" "e_resourcePtr y = Some r" "resources h r = Some x" "r_sub x = Observation ob"
    "obs_ok ob (nextBuff h)" by (rule observation [OF settledD(1) [OF assms(1)] assms(2)])
  have "goes_well L h {} (mark_changing r (put_obs r (f ob) h))"
    by (rule mark_after [OF assms(1) put_obs_well [OF assms(1) y(3,4)]]) (use y(3,5) assms(3) in simp_all)
  then show ?thesis using y by (simp add: with_resource_def update_obs_def get_obs_def)
qed

lemma obs_settings_well:
  assumes "settled L h" "of_type h e {ADMIN_ENTRY_TYPE_OBSERVATION}"
  shows "goes_well L h {} (resTree_SetMinPeriod e v h)" "goes_well L h {} (resTree_SetHighLimit e v h)"
    "goes_well L h {} (resTree_SetLowLimit e v h)" "goes_well L h {} (resTree_SetChangeBy e v h)"
  unfolding resTree_SetMinPeriod_def resTree_SetHighLimit_def resTree_SetLowLimit_def resTree_SetChangeBy_def
    res_SetMinPeriod_def res_SetHighLimit_def res_SetLowLimit_def res_SetChangeBy_def
    obs_SetMinPeriod_def obs_SetHighLimit_def obs_SetLowLimit_def obs_SetChangeBy_def
  by (rule obs_setting_well [OF assms]; simp)+

text \<open>The buffer is cut to a size.\<close>

lemma cut_ok:
  assumes "obs_ok ob n" "c \<le> m"
  shows "TruncateBuffer c (ob\<lparr>o_maxCount := m\<rparr>) = Some (with_list (ob\<lparr>o_maxCount := m\<rparr>) (take_last c (o_sampleList ob)))"
    "obs_ok (with_list (ob\<lparr>o_maxCount := m\<rparr>) (take_last c (o_sampleList ob))) n"
proof -
  let ?ob = "ob\<lparr>o_maxCount := m\<rparr>"
  have b: "buffer_ok ?ob n" using assms(1) by (simp add: obs_ok_def buffer_ok_def)
  then show "TruncateBuffer c ?ob = Some (with_list ?ob (take_last c (o_sampleList ob)))"
    using TruncateBuffer_take_last [of ?ob c] by (simp add: buffer_ok_def)
  show "obs_ok (with_list ?ob (take_last c (o_sampleList ob))) n"
    using buffer_ok_take_last [OF b, of c] assms(2) by (simp add: obs_ok_def)
qed

lemma buffer_size_well:
  assumes "settled L h" "buffers_only h e"
  shows "goes_well L h {} (resTree_SetBufferMaxCount L e n h)"
proof -
  note ok = settledD [OF assms(1)]
  obtain y r ob where y: "entries h e = Some y" "e_resourcePtr y = Some r" "get_obs h r = Some ob" "o_backupPeriod ob = 0"
    using assms(2) by (auto simp: buffers_only_def)
  obtain x where x: "resources h r = Some x" "r_sub x = Observation ob" using y(3) by (auto simp: get_obs_Some)
  have oo: "obs_ok ob (nextBuff h)"
    using values_okD [OF hub_okD(5) [OF ok(1)] x(1)] x(2) by (simp add: value_ok_def)
  note cut = cut_ok [OF oo, of "unat n" "unat n"]
  show ?thesis
  proof (cases "o_maxCount ob = unat n")
    case True
    then show ?thesis
      using y ok by (auto simp: resTree_SetBufferMaxCount_def with_resource_def res_SetBufferMaxCount_def
          obs_SetBufferMaxCount_def intro: goes_same)
  next
    case False
    show ?thesis
      by (rule evolves_well [OF assms(1) _ put_obs_well [OF assms(1) x cut(2)]])
        (use y False cut(1) in \<open>simp_all add: resTree_SetBufferMaxCount_def with_resource_def res_SetBufferMaxCount_def
          obs_SetBufferMaxCount_def\<close>)
  qed
qed

lemma transform_well:
  assumes "settled L h" "of_type h e {ADMIN_ENTRY_TYPE_OBSERVATION}"
  shows "goes_well L h {} (resTree_SetTransform e t h)"
proof -
  obtain y r x ob where y: "entries h e = Some y" "e_resourcePtr y = Some r" "resources h r = Some x" "r_sub x = Observation ob"
    "obs_ok ob (nextBuff h)" by (rule observation [OF settledD(1) [OF assms(1)] assms(2)])
  define m where "m = (if t \<noteq> OBS_TRANSFORM_TYPE_NONE \<and> o_maxCount ob = 0 then 1 else o_maxCount ob)"
  define ob1 where "ob1 = ob\<lparr>o_transformType := t\<rparr>"
  define ob2 where "ob2 = with_list (ob1\<lparr>o_maxCount := m\<rparr>) (take_last 0 (o_sampleList ob1))"
  have o1: "obs_ok ob1 (nextBuff h)" using y(5) by (simp add: ob1_def)
  note cut = cut_ok [OF o1, of 0 m, folded ob2_def]
  define f where "f = (\<lambda>z :: res_Resource_t. z\<lparr>r_sub := Observation ob2, r_pushedValue := None\<rparr>)"
  have "same_links x (f x)" using y(4) by (simp add: same_defs f_def)
  moreover have "value_ok (nextBuff h) (f x)"
    using values_okD [OF hub_okD(5) [OF settledD(1) [OF assms(1)]] y(3)] cut(2) by (simp add: value_ok_def f_def)
  ultimately have up: "hub_ok L (put_res r (f x) h)" "evolves same_links h (put_res r (f x) h)"
    using update_setting(2,4) [where f = f, OF settledD(1) [OF assms(1)] y(3)] by blast+
  have "goes_well L h {} (mark_changing r (put_res r (f x) h))"
    by (rule mark_after [OF assms(1) up]) (simp add: y(3))
  moreover have "obs_SetTransform r t h = Some (put_res r (f x) h)"
  proof -
    have "(if t \<noteq> OBS_TRANSFORM_TYPE_NONE \<and> o_maxCount ob = 0 then ob1\<lparr>o_maxCount := 1\<rparr> else ob1) = ob1\<lparr>o_maxCount := m\<rparr>"
      by (simp add: m_def ob1_def)
    moreover have "obs_SetTransform r t h = do {
        ob \<leftarrow> TruncateBuffer 0
          (if t \<noteq> OBS_TRANSFORM_TYPE_NONE \<and> o_maxCount ob = 0 then ob1\<lparr>o_maxCount := 1\<rparr> else ob1);
        let h = put_obs r ob h;
        x \<leftarrow> resources h r;
        Some (put_res r (x\<lparr>r_pushedValue := None\<rparr>) h) }"
      using y(3,4) by (simp add: obs_SetTransform_def get_obs_def ob1_def)
    ultimately show ?thesis
      using y(3) cut(1) by (simp only: Option.bind.simps Let_def) (simp add: put_obs_def f_def put_res_def)
  qed
  ultimately show ?thesis using y(1,2) by (simp add: resTree_SetTransform_def with_resource_def res_SetTransform_def)
qed

lemma extraction_well:
  assumes "framework_ok L" "settled L h" "of_type h e {ADMIN_ENTRY_TYPE_OBSERVATION}"
    "length extractionSpec \<le> ADMIN_MAX_JSON_EXTRACTOR_LEN"
  shows "goes_well L h {} (resTree_SetJsonExtraction L e extractionSpec h)"
proof -
  obtain y r x ob where y: "entries h e = Some y" "e_resourcePtr y = Some r" "resources h r = Some x" "r_sub x = Observation ob"
    "obs_ok ob (nextBuff h)" by (rule observation [OF settledD(1) [OF assms(2)] assms(3)])
  have "obs_ok (ob\<lparr>o_jsonExtraction := extractionSpec\<rparr>) (nextBuff h)" using y(5) by simp
  note put = put_obs_well [OF assms(2) y(3,4) this]
  have "e_type y = ADMIN_ENTRY_TYPE_OBSERVATION" using assms(3) y(1) by (simp add: of_type_def)
  then have "resTree_SetJsonExtraction L e extractionSpec h = Some (put_obs r (ob\<lparr>o_jsonExtraction := extractionSpec\<rparr>) h)"
    using y framework_okD(1) [OF assms(1)] assms(4)
    by (simp add: resTree_SetJsonExtraction_def with_observation_def res_SetJsonExtraction_def obs_SetJsonExtraction_def get_obs_def)
  then show ?thesis by (rule evolves_well [OF assms(2) _ put])
qed

subsection \<open>All requests\<close>

text \<open>The entry a request may take away.\<close>

fun taken :: "request \<Rightarrow> eid set" where
  "taken (Delete e) = {e}"
| "taken (DeleteObs e) = {e}"
| "taken _ = {}"

lemma perform_well:
  assumes "framework_ok L" "settled L h" "admissible h req"
  shows "goes_well L h (taken req) (perform L req h)"
proof (cases req)
  case (Delete e)
  then show ?thesis using delete_leaf [OF assms(1,2)] assms(3) by simp
next
  case StartUpdate
  then show ?thesis
    using settle_ok(1) [OF settledD(1) [OF assms(2)], of True] owned_cong [OF settledD(2) [OF assms(2)]]
    by (auto simp: resTree_StartUpdate_def res_StartUpdate_def intro: goes_same)
next
  case EndUpdate
  obtain g where g: "res_EndUpdate L h = Some (obs_DeleteUnusedBackupFiles L g)" "hub_ok L g"
    "evolves calmer (h\<lparr>IsUpdateInProgress := False\<rparr>) g"
    by (rule EndUpdate_ok [OF settledD(1) [OF assms(2)]])
  have "owned (obs_DeleteUnusedBackupFiles L g)"
    using owned_cong [OF settledD(2) [OF assms(2)]] evolves_entries(1) [OF g(3)] by (simp add: obs_DeleteUnusedBackupFiles_def)
  moreover have "hub_ok L (obs_DeleteUnusedBackupFiles L g)"
    using settle_ok(2) [OF g(2)] by (simp add: obs_DeleteUnusedBackupFiles_def)
  moreover have "kept {} h (obs_DeleteUnusedBackupFiles L g)"
    using evolves_entries [OF g(3)] by (simp add: kept_def obs_DeleteUnusedBackupFiles_def)
  ultimately show ?thesis using g(1) EndUpdate by (auto simp: resTree_EndUpdate_def intro: goes_wellI)
qed (use assms in \<open>simp_all add: ask_entry ask_io ask_resource ask_observation push_well route_well default_well
    remove_well example_well listen_well unlisten_well delete_observation optional_well obs_settings_well transform_well buffer_size_well
    extraction_well\<close>)

lemma run_settled:
  assumes "framework_ok L" "run L h reqs h'" "settled L h"
  shows "settled L h'"
  using assms(2,3)
proof (induction rule: run.induct)
  case (more h req g reqs h')
  have "goes_well L h (taken req) (perform L req h)" "perform L req h = Some g"
    using step_cases [OF more.hyps(1)] perform_well [OF assms(1) more.prems] by auto
  then show ?case using more.IH by (auto simp: goes_well_def)
qed

lemma initial_settled: "settled L initial_hub"
  using initial_hub_ok initial_owned by (simp add: settled_def)

subsection \<open>Properties\<close>

text \<open>
  After every sequence of admissible requests from the start of the daemon the invariant of the
  hub holds and every entry has its own reference; and every further admissible request ends without
  stopping the daemon.
\<close>

theorem requests_never_stop:
  assumes "framework_ok L" "run L initial_hub reqs h"
  shows "hub_ok L h \<and> owned h \<and> (\<forall>req. admissible h req \<longrightarrow> (\<exists>h'. step L h req h'))"
proof -
  have s: "settled L h" by (rule run_settled [OF assms initial_settled])
  have "\<exists>h'. step L h req h'" if "admissible h req" for req
    using perform_well [OF assms(1) s that] step.step [OF that] by (auto simp: goes_well_def)
  then show ?thesis using s by (simp add: settled_def)
qed

text \<open>Deleting an input or output without settings whose entry has children gives back the reference of the entry only.\<close>

lemma delete_inner:
  assumes "hub_ok L h" "entries h e = Some y" "e_type y \<in> {ADMIN_ENTRY_TYPE_INPUT, ADMIN_ENTRY_TYPE_OUTPUT}"
    "e_resourcePtr y = Some r" "resources h r = Some x" "plain_res x"
  obtains g where "resTree_DeleteIO L e h = Release_Entry e g" "hub_ok L g" "same_names h g"
    "entries g e = Some (y\<lparr>e_resourcePtr := None, e_type := ADMIN_ENTRY_TYPE_NAMESPACE\<rparr>)" "e < nextEntry g"
proof -
  have no: "e_type y \<noteq> ADMIN_ENTRY_TYPE_OBSERVATION" using assms(3) by auto
  obtain ev where ev: "hub_ok L (h\<lparr>events := ev\<rparr>)"
    "resTree_DeleteIO L e h =
      (if plain_res x then do {
         h \<leftarrow> do { h \<leftarrow> detach e (h\<lparr>events := ev\<rparr>); Release_Resource L r h };
         Release_Entry e h }
       else ReplaceResource L e (nextRes h) ADMIN_ENTRY_TYPE_PLACEHOLDER (with_new (res_Construct e) (h\<lparr>events := ev\<rparr>)))"
    by (rule tell_then_delete [OF assms(1,2,4,5) no])
  obtain x' where x': "resources h r = Some x'" "kind_ok (e_type y) (r_sub x')"
    by (rule entry_resource [OF hub_okD(2) [OF assms(1)] assms(2,4)])
  then have kind: "\<forall>ob. r_sub x \<noteq> Observation ob" using assms(3,5) by auto
  let ?g = "h\<lparr>events := ev\<rparr>" and ?d = "dropped e y r (h\<lparr>events := ev\<rparr>)"
  have g: "entries ?g e = Some y" "resources ?g r = Some x" using assms(2,5) by simp_all
  have d: "do { h \<leftarrow> detach e ?g; Release_Resource L r h } = Some ?d" "hub_ok L ?d"
    using drop_release [OF g assms(6) kind] drop_ok [OF ev(1) g(1) assms(4) g(2) assms(6)] by blast+
  have "same_names h ?d" using assms(2) by (simp add: same_names_def)
  moreover have "e < nextEntry ?d" using tree_okD(1) [OF hub_okD(1) [OF assms(1)] assms(2)] by simp
  ultimately show thesis using that [of ?d] ev(2) d assms(6) by simp
qed

text \<open>Asking for an input where there is a namespace makes it the input, with the references it has.\<close>

lemma recreate_input:
  assumes "framework_ok L" "hub_ok L h" "resTree_FindEntry L h base path = Some (Some e)" "entries h e = Some y"
    "e_type y = ADMIN_ENTRY_TYPE_NAMESPACE" "e_resourcePtr y = None"
  obtains h' r z where "resTree_GetInput L base path t units h = Some (Some e, h')" "hub_ok L h'"
    "entries h' e = Some (y\<lparr>e_resourcePtr := Some r, e_type := ADMIN_ENTRY_TYPE_INPUT\<rparr>)" "resources h' r = Some z" "plain_res z"
proof -
  define x where "x = new_io L e t units False"
  let ?t = ADMIN_ENTRY_TYPE_INPUT
  note u = framework_okD(1) [OF assms(1)]
  have x: "fresh_res h e ?t x" unfolding x_def by (rule fresh_io [OF u]) simp
  have no: "e_type y \<noteq> ADMIN_ENTRY_TYPE_OBSERVATION" using assms(5) by simp
  note r = Replace_ok [OF u assms(2,4) x no] and pe = placed_entry [OF assms(4), of L ?t x]
  obtain ev where ev: "CallResourceTreeChangeHandlers L e ?t ADMIN_RESOURCE_ADDED (placed L e y ?t x h)
      = Some (placed L e y ?t x h\<lparr>events := ev\<rparr>)" "hub_ok L (placed L e y ?t x h\<lparr>events := ev\<rparr>)"
    using tell_ok [OF r(2), of e ?t ADMIN_RESOURCE_ADDED] pe(1) by auto
  let ?h = "placed L e y ?t x h\<lparr>events := ev\<rparr>"
  have "resource_at h e = None" using assms(4,6) by (simp add: resource_at_def)
  then have z: "resources ?h (nextRes h) = Some x" using placed_resource [OF assms(2,4) x] by auto
  have "GoToEntry L base path True h = Some (Some e, h)" by (rule GoToEntry_found [OF assms(3)])
  then have "resTree_GetInput L base path t units h = Some (Some e, ?h)"
    using assms(4,5) r(1) ev(1) by (simp add: resTree_GetInput_def CreateInput_new flip: x_def)
  moreover have "plain_res x" by (simp add: x_def new_io_def res_Construct_def plain_res_def)
  ultimately show thesis using that ev(2) pe(1) z by simp
qed

text \<open>An entry with children whose last reference is given back stops the daemon.\<close>

lemma release_inner:
  "entries h e = Some y \<Longrightarrow> e_refCount y = 1 \<Longrightarrow> e_childList y \<noteq> [] \<Longrightarrow> Release_Entry e h = None"
  by (cases "nextEntry h") (auto simp: Release_Entry_def bind_eq_None_conv)

text \<open>
  C39: deletion is safe for leaves only. When an input or output that has one entry below it, no settings
  of the administrator and its own reference is deleted, the hub stays well-formed, and when an input is then created
  again at its path, it does, too; but the entry has lost its own reference, and deleting the new input stops the
  daemon.
\<close>

theorem recreate_delete_aborts:
  assumes "framework_ok L" "hub_ok L h" "entries h e = Some y" "e_type y \<in> {ADMIN_ENTRY_TYPE_INPUT, ADMIN_ENTRY_TYPE_OUTPUT}"
    "own_ref y" "e_childList y = [k]" "resource_at h e = Some x" "plain_res x" "resTree_FindEntry L h base path = Some (Some e)"
  shows "\<exists>h1 h2. resTree_DeleteIO L e h = Some h1 \<and> hub_ok L h1 \<and>
    resTree_GetInput L base path t units h1 = Some (Some e, h2) \<and> hub_ok L h2 \<and> resTree_DeleteIO L e h2 = None"
proof -
  obtain r where r: "e_resourcePtr y = Some r" "resources h r = Some x"
    using assms(3,7) by (auto simp: resource_at_def bind_eq_Some_conv)
  have count: "e_refCount y = 2" using assms(5,6) by (simp add: own_ref_def)
  let ?y = "y\<lparr>e_resourcePtr := None, e_type := ADMIN_ENTRY_TYPE_NAMESPACE\<rparr>"
  obtain g where g: "resTree_DeleteIO L e h = Release_Entry e g" "hub_ok L g" "same_names h g" "entries g e = Some ?y" "e < nextEntry g"
    by (rule delete_inner [OF assms(2-4) r assms(8)])
  let ?z = "?y\<lparr>e_refCount := 1\<rparr>" let ?h1 = "put_entry e ?z g"
  have "Release_Entry e g = Some ?h1" using g(4,5) count by (cases "nextEntry g") (simp_all add: Release_Entry_def)
  then have h1: "resTree_DeleteIO L e h = Some ?h1" using g(1) by simp
  have ok1: "hub_ok L ?h1" by (rule recount_ok [OF g(2,4)]) (simp_all add: assms(6))
  have names: "same_names h ?h1" using g(3,4) assms(3) by (auto simp: same_names_def)
  then have "resTree_FindEntry L ?h1 base path = Some (Some e)" using same_names_FindEntry assms(9) by metis
  then obtain h2 q z where h2: "resTree_GetInput L base path t units ?h1 = Some (Some e, h2)" "hub_ok L h2"
    "entries h2 e = Some (?z\<lparr>e_resourcePtr := Some q, e_type := ADMIN_ENTRY_TYPE_INPUT\<rparr>)" "resources h2 q = Some z" "plain_res z"
    by (rule recreate_input [OF assms(1) ok1, where y = ?z]) simp_all
  obtain g2 where g2: "resTree_DeleteIO L e h2 = Release_Entry e g2"
    "entries g2 e = Some (?z\<lparr>e_resourcePtr := None, e_type := ADMIN_ENTRY_TYPE_NAMESPACE\<rparr>)"
    using delete_inner [OF h2(2,3) _ _ h2(4,5)] by (metis (no_types, lifting) Entry_t.select_convs(4,5) Entry_t.update_convs(4,5) Entry_t.surjective insertCI)
  have "Release_Entry e g2 = None" by (rule release_inner [OF g2(2)]) (simp_all add: assms(6))
  then show ?thesis using h1 ok1 h2(1,2) g2(1) by auto
qed
subsection \<open>Instances\<close>

lemma input_hub_run:
  assumes "input_hub = Some h"
  shows "run sample_legato initial_hub [AskInput 0 ''app/x'' IO_DATA_TYPE_NUMERIC ''V''] h"
proof -
  have "step sample_legato initial_hub (AskInput 0 ''app/x'' IO_DATA_TYPE_NUMERIC ''V'') h"
    by (rule step.step) (use assms initial_root in \<open>simp_all add: live_def input_hub_def\<close>)
  then show ?thesis by (auto intro: run.intros)
qed

lemma requests_never_stop_witness:
  "\<exists>h h'. run sample_legato initial_hub [AskInput 0 ''app/x'' IO_DATA_TYPE_NUMERIC ''V''] h \<and>
     hub_ok sample_legato h \<and> step sample_legato h (Push 2 IO_DATA_TYPE_NUMERIC (number_at 1 5)) h'"
proof -
  obtain h where h: "input_hub = Some h" using input_hub_ok by blast
  have "map_option (\<lambda>h. entries h 2 \<noteq> None) input_hub = Some True" by code_simp
  then have "admissible h (Push 2 IO_DATA_TYPE_NUMERIC (number_at 1 5))" unfolding h by (auto simp: live_def)
  then show ?thesis
    using requests_never_stop [OF sample_framework_ok input_hub_run [OF h]] input_hub_run [OF h] by blast
qed

text \<open>An input with another one below it.\<close>

definition nested_hub :: "hub option" where
  "nested_hub = do {
     (_, h) \<leftarrow> resTree_GetInput sample_legato 0 ''app/a'' IO_DATA_TYPE_NUMERIC [] initial_hub;
     map_option snd (resTree_GetInput sample_legato 0 ''app/a/b'' IO_DATA_TYPE_NUMERIC [] h)
   }"

lemma nested_hub_ok: "\<exists>h. nested_hub = Some h \<and> hub_ok sample_legato h"
proof -
  obtain r1 h1 where h1: "resTree_GetInput sample_legato 0 ''app/a'' IO_DATA_TYPE_NUMERIC [] initial_hub = Some (r1, h1)"
    "hub_ok sample_legato h1" "kept {} initial_hub h1"
    using Get_io(1) [OF sample_framework_ok initial_hub_ok initial_root, of "''app/a''" IO_DATA_TYPE_NUMERIC "[]"]
    by (auto simp: io_promise_def)
  have "entries h1 0 \<noteq> None" using keptD [OF h1(3)] initial_root by force
  from Get_io(1) [OF sample_framework_ok h1(2) this, of "''app/a/b''" IO_DATA_TYPE_NUMERIC "[]"]
  show ?thesis using h1(1) by (auto simp: nested_hub_def io_promise_def)
qed

lemma recreate_delete_aborts_witness:
  "\<exists>h h1 h2. nested_hub = Some h \<and> resTree_DeleteIO sample_legato 2 h = Some h1 \<and>
     resTree_GetInput sample_legato 0 ''app/a'' IO_DATA_TYPE_NUMERIC [] h1 = Some (Some 2, h2) \<and>
     resTree_DeleteIO sample_legato 2 h2 = None"
proof -
  obtain h where h: "nested_hub = Some h" "hub_ok sample_legato h" using nested_hub_ok by blast
  have "map_option (\<lambda>h. (map_option (\<lambda>y. (e_type y, e_childList y, e_refCount y)) (entries h 2),
      map_option plain_res (resource_at h 2), resTree_FindEntry sample_legato h 0 ''app/a'')) nested_hub =
    Some (Some (ADMIN_ENTRY_TYPE_INPUT, [3], 2), Some True, Some (Some 2))"
    by code_simp
  then obtain y x where y: "entries h 2 = Some y" "e_type y = ADMIN_ENTRY_TYPE_INPUT" "e_childList y = [3]" "e_refCount y = 2"
    "resource_at h 2 = Some x" "plain_res x" "resTree_FindEntry sample_legato h 0 ''app/a'' = Some (Some 2)"
    unfolding h(1) by auto
  have "e_type y \<in> {ADMIN_ENTRY_TYPE_INPUT, ADMIN_ENTRY_TYPE_OUTPUT}" "own_ref y" using y(2-4) by (simp_all add: own_ref_def)
  from recreate_delete_aborts [OF sample_framework_ok h(2) y(1) this y(3,5,6,7), of IO_DATA_TYPE_NUMERIC "[]"]
  show ?thesis using h(1) by blast
qed

end
