(* ===== verification/Client.thy ===== *)
theory Client
  imports RequestSpec
begin

text \<open>
  The state the services of the Data Hub share, and how a request finds its client
  (\<open>dataHub.c\<close>). Every request comes from a client: its IPC session and, when the framework can tell
  the process and the name of the app behind the session, that name. The services keep the
  resource tree, the context pointer of every session and the list of handlers for the start and
  the end of extended updates.

  A client that breaks the rules is killed: its session is closed, which is recorded as an event, and
  the request goes on to its next statement, as it does in C. What the generated code of the
  services does with the handlers of a closed session is not part of the repository.
\<close>

record client =
  session :: nat
  app_name :: "string option"

record daemon =
  hub_of :: hub
  contextPtr :: "nat \<Rightarrow> eid option"
  UpdateStartEndHandlerList :: "(nat \<times> nat \<times> nat) list"

definition initial_daemon :: daemon where
  "initial_daemon = \<lparr> hub_of = initial_hub, contextPtr = Map.empty, UpdateStartEndHandlerList = [] \<rparr>"

subsection \<open>Operations on the hub\<close>

definition with_hub :: "hub \<Rightarrow> daemon \<Rightarrow> daemon" where
  "with_hub h d = d\<lparr>hub_of := h\<rparr>"

text \<open>An operation of the resource tree inside a request.\<close>

definition on_hub :: "(hub \<Rightarrow> hub option) \<Rightarrow> daemon \<Rightarrow> daemon option" where
  "on_hub f d = do { h \<leftarrow> f (hub_of d); Some (with_hub h d) }"

definition via_hub :: "(hub \<Rightarrow> ('a \<times> hub) option) \<Rightarrow> daemon \<Rightarrow> ('a \<times> daemon) option" where
  "via_hub f d = do { (x, h) \<leftarrow> f (hub_of d); Some (x, with_hub h d) }"

text \<open>The creation of a sample, which may read the clock.\<close>

definition stamp :: "(nat \<Rightarrow> dataSample_Ref_t \<times> nat) \<Rightarrow> daemon \<Rightarrow> dataSample_Ref_t \<times> daemon" where
  "stamp f d = (let (s, n) = f (clock (hub_of d)) in (s, with_hub ((hub_of d)\<lparr>clock := n\<rparr>) d))"

definition stamp_text ::
  "(nat \<Rightarrow> (dataSample_Ref_t \<times> nat) option) \<Rightarrow> daemon \<Rightarrow> (dataSample_Ref_t \<times> daemon) option" where
  "stamp_text f d = do {
     (s, n) \<leftarrow> f (clock (hub_of d));
     Some (s, with_hub ((hub_of d)\<lparr>clock := n\<rparr>) d)
   }"

definition LE_KILL_CLIENT :: "client \<Rightarrow> daemon \<Rightarrow> daemon" where
  "LE_KILL_CLIENT c d = with_hub (add_event (KillClient (session c)) (hub_of d)) d"

subsection \<open>The namespace of a client\<close>

text \<open>
  The context pointer of the session holds the namespace once it was looked up; it is a plain
  pointer, which does not keep the entry alive.
\<close>

definition hub_GetClientNamespace :: "legato \<Rightarrow> client \<Rightarrow> daemon \<Rightarrow> (eid option \<times> daemon) option" where
  "hub_GetClientNamespace L c d =
     (case contextPtr d (session c) of
        Some ns \<Rightarrow> Some (Some ns, d)
      | None \<Rightarrow>
          (case app_name c of
             None \<Rightarrow> Some (None, LE_KILL_CLIENT c d)
           | Some appName \<Rightarrow> do {
               (app, d) \<leftarrow> via_hub (resTree_GetEntry L (resTree_GetRoot (hub_of d)) ''app'') d;
               app \<leftarrow> app;
               (ns, d) \<leftarrow> via_hub (resTree_GetEntry L app appName) d;
               Some (ns, d\<lparr>contextPtr := (contextPtr d)(session c := ns)\<rparr>)
             }))"

subsection \<open>Lemmas\<close>

lemma with_hub_simps [simp]:
  "hub_of (with_hub h d) = h" "contextPtr (with_hub h d) = contextPtr d"
  "UpdateStartEndHandlerList (with_hub h d) = UpdateStartEndHandlerList d"
  "with_hub h (with_hub g d) = with_hub h d" "with_hub (hub_of d) d = d"
  by (simp_all add: with_hub_def)

lemma kill_simps [simp]:
  "hub_of (LE_KILL_CLIENT c d) = add_event (KillClient (session c)) (hub_of d)"
  "contextPtr (LE_KILL_CLIENT c d) = contextPtr d"
  "UpdateStartEndHandlerList (LE_KILL_CLIENT c d) = UpdateStartEndHandlerList d"
  by (simp_all add: LE_KILL_CLIENT_def)

end
