(* ===== verification/ClientSpec.thy ===== *)
theory ClientSpec
  imports Client
begin

text \<open>
  The invariant of the daemon: the invariant of the hub, and every context pointer is the live
  namespace of an app, two levels below the root. It is kept by everything that keeps the hub's
  entries where they are.
\<close>

subsection \<open>Paths of one name, and longer ones\<close>

lemma GoToEntryLoop_nil: "GoToEntryLoop L e [] b h = Some (Some e, h)"
  by (simp add: GoToEntryLoop.simps [of L e "[]"])

lemma name_path:
  assumes "name_ok L n"
  shows "GoToEntryLoop L e n b h =
    (case resTree_FindChild h e n of
       None \<Rightarrow> None
     | Some (Some child) \<Rightarrow> Some (Some child, h)
     | Some None \<Rightarrow> if b then (case AddChild L e n h of None \<Rightarrow> None | Some (child, h') \<Rightarrow> Some (Some child, h'))
         else Some (None, h))"
proof -
  have n: "n \<noteq> []" "CHR ''/'' \<notin> set n" "length n < HUB_MAX_ENTRY_NAME_BYTES L" using assms by (auto simp: name_ok_def)
  have p: "n = (if char_at n = Some (CHR ''/'') then tl n else n)" using n(1,2) by (cases n) auto
  have "takeWhile (\<lambda>c. c \<noteq> CHR ''/'') n = n" "dropWhile (\<lambda>c. c \<noteq> CHR ''/'') n = []"
    using n(2) by (auto simp: takeWhile_eq_all_conv dropWhile_eq_Nil_conv)
  note t = this [symmetric]
  show ?thesis
    by (simp add: GoToEntryLoop_step [OF n(1) p t n(1,3)] GoToEntryLoop_nil split: option.split)
qed

lemma name_legal: "name_ok L n \<Longrightarrow> \<not> (\<exists>c \<in> set n. illegal_in_path c)"
  by (simp add: name_ok_def)

lemma child_entry:
  assumes "framework_ok L" "hub_ok L h" "entries h e \<noteq> None" "name_ok L n"
  shows "\<exists>c h' y. resTree_GetEntry L e n h = Some (Some c, h') \<and> hub_ok L h' \<and> grown h h' \<and> sprouted h h' \<and>
    entries h' c = Some y \<and> e_parentPtr y = Some e \<and> e_name y = n \<and>
    resTree_FindEntry L h' e n = Some (Some c)"
proof -
  obtain r g where g: "GoToEntry L e n True h = Some (r, g)" "hub_ok L g" "grown h g" "sprouted h g"
    "\<forall>c. r = Some c \<longrightarrow> entries g c \<noteq> None \<and> resTree_FindEntry L g e n = Some (Some c)"
    using GoTo_ok [OF assms(1-3), of n] by blast
  have "r \<noteq> None"
    using g(1) by (auto simp: GoToEntry_def name_legal [OF assms(4)] name_path [OF assms(4)] split: option.splits)
  then obtain c where c: "r = Some c" "entries g c \<noteq> None" "resTree_FindEntry L g e n = Some (Some c)" using g(5) by blast
  obtain x where x: "entries g e = Some x" using grown_live [OF g(3) assms(3)] by blast
  have found: "resTree_FindChild g e n = Some (Some c)"
    using c(3) by (auto simp: resTree_FindEntry_def GoToEntry_def name_legal [OF assms(4)] name_path [OF assms(4)]
        split: option.splits)
  note child = FindChild_Some [OF hub_okD(1) [OF g(2)] x found]
  obtain y where "entries g c = Some y" "e_parentPtr y = Some e"
    using children_okD [OF tree_okD(2) [OF hub_okD(1) [OF g(2)] x] child(1)] by blast
  then have "entries g c = Some y" "e_parentPtr y = Some e" "e_name y = n" using child(2) by (simp_all add: name_of_def)
  then show ?thesis using g(1-4) c(1,3) by (auto simp: resTree_GetEntry_def)
qed

text \<open>What a path that is not empty leads to has a parent that is the start of the path or younger.\<close>

lemma found_below_loop:
  assumes "tree_ok L h" "GoToEntryLoop L base path False h = Some (Some e, h')" "path \<noteq> []" "entries h base \<noteq> None"
  shows "\<exists>y p. entries h e = Some y \<and> e_parentPtr y = Some p \<and> base \<le> p \<and>
    (p = base \<or> (\<exists>z q. entries h p = Some z \<and> e_parentPtr z = Some q \<and> base \<le> q))"
  using assms(2-4)
proof (induction "length path" arbitrary: base path rule: less_induct)
  case less
  define p where "p = (if char_at path = Some (CHR ''/'') then tl path else path)"
  define name where "name = takeWhile (\<lambda>c. c \<noteq> CHR ''/'') p"
  define rest where "rest = dropWhile (\<lambda>c. c \<noteq> CHR ''/'') p"
  have ne: "name \<noteq> []" "length name < HUB_MAX_ENTRY_NAME_BYTES L"
    using less.prems(1,2) unfolding GoToEntryLoop.simps [of L base path] Let_def p_def [symmetric] name_def [symmetric]
    by (auto split: if_splits)
  note step = GoToEntryLoop_step [OF less.prems(2) p_def name_def rest_def ne, of base False h]
  have shorter: "length rest < length path"
    using ne(1) less.prems(2) path_rest_shorter [of path "\<lambda>c. c \<noteq> CHR ''/''" "char_at path = Some (CHR ''/'')"]
    unfolding rest_def name_def p_def by simp
  obtain x where x: "entries h base = Some x" using less.prems(3) by auto
  obtain c where c: "resTree_FindChild h base name = Some (Some c)" "GoToEntryLoop L c rest False h = Some (Some e, h')"
    using less.prems(1) step by (auto split: option.splits)
  obtain y where y: "entries h c = Some y" "e_parentPtr y = Some base"
    using children_okD [OF tree_okD(2) [OF assms(1) x] FindChild_Some(1) [OF assms(1) x c(1)]] by blast
  show ?case
  proof (cases "rest = []")
    case True
    then show ?thesis using c(2) y by (simp add: GoToEntryLoop.simps [of L _ "[]"])
  next
    case False
    have bc: "base < c" using tree_okD(3) [OF assms(1) y(1)] y(2) by (auto simp: parent_ok_def split: if_splits)
    obtain v q where v: "entries h e = Some v" "e_parentPtr v = Some q" "c \<le> q"
      "q = c \<or> (\<exists>z q'. entries h q = Some z \<and> e_parentPtr z = Some q' \<and> c \<le> q')"
      using less.hyps [OF shorter c(2) False] y(1) by auto
    have "\<exists>z q'. entries h q = Some z \<and> e_parentPtr z = Some q' \<and> base \<le> q'"
      using v(4)
    proof
      assume "q = c"
      then show ?thesis using y by auto
    next
      assume "\<exists>z q'. entries h q = Some z \<and> e_parentPtr z = Some q' \<and> c \<le> q'"
      then show ?thesis using bc by fastforce
    qed
    then show ?thesis using v(1-3) bc by auto
  qed
qed

lemma found_below:
  assumes "tree_ok L h" "resTree_FindEntry L h base path = Some (Some e)" "path \<noteq> []" "entries h base \<noteq> None"
  obtains y p where "entries h e = Some y" "e_parentPtr y = Some p" "base \<le> p"
    "p = base \<or> (\<exists>z q. entries h p = Some z \<and> e_parentPtr z = Some q \<and> base \<le> q)"
proof -
  obtain h' where "GoToEntryLoop L base path False h = Some (Some e, h')"
    using assms(2) by (auto simp: resTree_FindEntry_def GoToEntry_def split: if_splits)
  from found_below_loop [OF assms(1) this assms(3,4)] that show thesis by blast
qed

subsection \<open>Namespaces of apps\<close>

definition app_namespace :: "hub \<Rightarrow> eid \<Rightarrow> bool" where
  "app_namespace h e \<longleftrightarrow>
     (\<exists>y p z. entries h e = Some y \<and> e_parentPtr y = Some p \<and> entries h p = Some z \<and> e_parentPtr z = Some (RootPtr h) \<and>
        e_name z = ''app'')"

lemma app_namespace_live: "app_namespace h e \<Longrightarrow> live h e"
  by (auto simp: app_namespace_def live_def)

lemma app_namespace_kept:
  assumes "app_namespace h e" "kept X h h'" "e \<notin> X" "\<And>y p. entries h e = Some y \<Longrightarrow> e_parentPtr y = Some p \<Longrightarrow> p \<notin> X"
  shows "app_namespace h' e"
proof -
  obtain y p z where y: "entries h e = Some y" "e_parentPtr y = Some p" "entries h p = Some z" "e_parentPtr z = Some (RootPtr h)"
    "e_name z = ''app''"
    using assms(1) by (auto simp: app_namespace_def)
  obtain y' where y': "entries h' e = Some y'" "e_parentPtr y' = e_parentPtr y" using keptD [OF assms(2) y(1) assms(3)] by blast
  obtain z' where "entries h' p = Some z'" "e_parentPtr z' = e_parentPtr z" "e_name z' = e_name z"
    using keptD [OF assms(2) y(3) assms(4) [OF y(1,2)]] by blast
  then show ?thesis using y y' kept_root [OF assms(2)] by (auto simp: app_namespace_def)
qed

text \<open>What is found below the namespace of an app is no such namespace itself.\<close>

lemma below_namespace:
  assumes "tree_ok L h" "app_namespace h ns" "app_namespace h e" "resTree_FindEntry L h ns path = Some (Some e)" "path \<noteq> []"
  shows False
proof -
  obtain a where a: "entries h ns = Some a" using assms(2) by (auto simp: app_namespace_def)
  obtain y p where y: "entries h e = Some y" "e_parentPtr y = Some p" "ns \<le> p"
    "p = ns \<or> (\<exists>z q. entries h p = Some z \<and> e_parentPtr z = Some q \<and> ns \<le> q)"
    by (rule found_below [OF assms(1,4,5)]) (simp add: a)
  obtain z where z: "entries h p = Some z" "e_parentPtr z = Some (RootPtr h)"
    using assms(3) y(1,2) by (auto simp: app_namespace_def)
  have par: "q < c" if "entries h c = Some v" "e_parentPtr v = Some q" for c v q
    using tree_okD(3) [OF assms(1) that(1)] that(2) by (auto simp: parent_ok_def split: if_splits)
  obtain q w where q: "e_parentPtr a = Some q" "entries h q = Some w" "e_parentPtr w = Some (RootPtr h)"
    using assms(2) a by (auto simp: app_namespace_def)
  have "RootPtr h < q" "q < ns" using par [OF q(2,3)] par [OF a q(1)] by auto
  moreover have "p \<noteq> ns"
  proof
    assume "p = ns"
    then have "q = RootPtr h" using z a q(1) by simp
    then show False using par [OF q(2,3)] by simp
  qed
  ultimately show False using y(4) z by auto
qed

subsection \<open>The invariant\<close>

definition client_ok :: "legato \<Rightarrow> client \<Rightarrow> bool" where
  "client_ok L c \<longleftrightarrow> (\<exists>n. app_name c = Some n \<and> name_ok L n)"

definition daemon_ok :: "legato \<Rightarrow> daemon \<Rightarrow> bool" where
  "daemon_ok L d \<longleftrightarrow> settled L (hub_of d) \<and> (\<forall>s e. contextPtr d s = Some e \<longrightarrow> app_namespace (hub_of d) e)"

text \<open>A request is served if it does not stop the daemon and keeps the invariant.\<close>

definition served :: "legato \<Rightarrow> daemon option \<Rightarrow> bool" where
  "served L m \<longleftrightarrow> (\<exists>d. m = Some d \<and> daemon_ok L d)"

lemma daemon_okD:
  assumes "daemon_ok L d"
  shows "settled L (hub_of d)" "hub_ok L (hub_of d)" "owned (hub_of d)"
    "contextPtr d s = Some e \<Longrightarrow> app_namespace (hub_of d) e"
    "entries (hub_of d) (RootPtr (hub_of d)) \<noteq> None"
proof -
  show "settled L (hub_of d)" using assms by (simp add: daemon_ok_def)
  then show "hub_ok L (hub_of d)" "owned (hub_of d)" by (simp_all add: settled_def)
  then show "entries (hub_of d) (RootPtr (hub_of d)) \<noteq> None" using hub_okD(1) by (auto simp: tree_ok_def)
  show "contextPtr d s = Some e \<Longrightarrow> app_namespace (hub_of d) e" using assms by (simp add: daemon_ok_def)
qed

lemma initial_daemon_ok: "daemon_ok L initial_daemon"
  using initial_settled [of L] by (simp add: daemon_ok_def initial_daemon_def)

lemma with_hub_ok:
  assumes "daemon_ok L d" "settled L h" "kept {} (hub_of d) h"
  shows "daemon_ok L (with_hub h d)"
  using assms app_namespace_kept [OF _ assms(3)] by (simp add: daemon_ok_def)

lemma on_hub_ok:
  assumes "daemon_ok L d" "goes_well L (hub_of d) {} (f (hub_of d))"
  shows "\<exists>h'. on_hub f d = Some (with_hub h' d) \<and> f (hub_of d) = Some h' \<and> daemon_ok L (with_hub h' d)"
  using assms with_hub_ok by (auto simp: goes_well_def on_hub_def)

lemma via_hub_ok:
  assumes "daemon_ok L d" "goes_well L (hub_of d) {} (map_option snd (f (hub_of d)))"
  shows "\<exists>x h'. via_hub f d = Some (x, with_hub h' d) \<and> f (hub_of d) = Some (x, h') \<and> daemon_ok L (with_hub h' d)"
  using assms with_hub_ok by (auto simp: goes_well_def via_hub_def)

text \<open>Events and readings of the clock do not matter.\<close>

lemma kill_ok: "daemon_ok L d \<Longrightarrow> daemon_ok L (LE_KILL_CLIENT c d)"
proof -
  assume a: "daemon_ok L d"
  let ?h = "add_event (KillClient (session c)) (hub_of d)"
  have "hub_ok L ?h = hub_ok L (hub_of d)" by (rule hub_cong) simp_all
  then have "settled L ?h" using daemon_okD(2,3) [OF a] by (simp add: settled_def owned_def)
  then show ?thesis using with_hub_ok [OF a, of ?h] by (simp add: LE_KILL_CLIENT_def kept_same)
qed

lemma clock_hub_ok:
  assumes "daemon_ok L d"
  shows "daemon_ok L (with_hub ((hub_of d)\<lparr>clock := n\<rparr>) d)"
proof -
  let ?h = "(hub_of d)\<lparr>clock := n\<rparr>"
  have "hub_ok L ?h = hub_ok L (hub_of d)" by (rule hub_cong) simp_all
  then have "settled L ?h" using daemon_okD(2,3) [OF assms] by (simp add: settled_def owned_def)
  then show ?thesis using with_hub_ok [OF assms, of ?h] by (simp add: kept_same)
qed

subsection \<open>Samples\<close>

text \<open>A sample is created with a reading of the clock at most.\<close>

lemma stamp_ok:
  assumes "daemon_ok L d" "\<And>n. sample_fine t (fst (f n))"
  shows "\<exists>s n. stamp f d = (s, with_hub ((hub_of d)\<lparr>clock := n\<rparr>) d) \<and> sample_fine t s \<and>
    daemon_ok L (with_hub ((hub_of d)\<lparr>clock := n\<rparr>) d)"
  using assms(2) [of "clock (hub_of d)"] clock_hub_ok [OF assms(1)]
  by (cases "f (clock (hub_of d))") (auto simp: stamp_def)

lemma stamp_text_ok:
  assumes "daemon_ok L d" "utf8_copy_ok L" "length v \<le> IO_MAX_STRING_VALUE_LEN" "t = IO_DATA_TYPE_STRING \<or> t = IO_DATA_TYPE_JSON"
    "f = dataSample_CreateString L ts v \<or> f = dataSample_CreateJson L ts v"
  shows "\<exists>s n. stamp_text f d = Some (s, with_hub ((hub_of d)\<lparr>clock := n\<rparr>) d) \<and> sample_fine t s \<and>
    daemon_ok L (with_hub ((hub_of d)\<lparr>clock := n\<rparr>) d)"
proof -
  have "length v < HUB_MAX_STRING_BYTES" using assms(3) by (simp add: HUB_MAX_STRING_BYTES_def IO_MAX_STRING_VALUE_LEN_def)
  then obtain s n where "f (clock (hub_of d)) = Some (s, n)" "sample_fine t s"
    using CreateString_total [OF assms(2), of v t ts "clock (hub_of d)"] assms(4,5)
    by (auto simp: dataSample_CreateJson_def)
  then show ?thesis using clock_hub_ok [OF assms(1)] by (auto simp: stamp_text_def)
qed

subsection \<open>The namespace of a client\<close>

lemma namespace_ok:
  assumes "framework_ok L" "daemon_ok L d" "client_ok L c"
  shows "\<exists>ns d'. hub_GetClientNamespace L c d = Some (Some ns, d') \<and> daemon_ok L d' \<and>
    kept {} (hub_of d) (hub_of d') \<and> contextPtr d' (session c) = Some ns \<and> app_namespace (hub_of d') ns \<and>
    UpdateStartEndHandlerList d' = UpdateStartEndHandlerList d \<and> sprouted (hub_of d) (hub_of d')"
proof (cases "contextPtr d (session c)")
  case (Some ns)
  then show ?thesis
    using assms(2) daemon_okD(4) [OF assms(2) Some] kept_same [of "hub_of d" "hub_of d"] sprouted_refl
    by (simp add: hub_GetClientNamespace_def)
next
  case None
  let ?h = "hub_of d"
  obtain n where n: "app_name c = Some n" "name_ok L n" using assms(3) by (auto simp: client_ok_def)
  have app: "name_ok L ''app''"
    using framework_okD(2) [OF assms(1)] by (simp add: name_ok_def illegal_in_path_def)
  note ok = daemon_okD [OF assms(2)]
  obtain a h1 y1 where h1: "resTree_GetEntry L (RootPtr ?h) ''app'' ?h = Some (Some a, h1)" "hub_ok L h1" "grown ?h h1"
    "sprouted ?h h1" "entries h1 a = Some y1" "e_parentPtr y1 = Some (RootPtr ?h)" "e_name y1 = ''app''"
    using child_entry [OF assms(1) ok(2,5) app] by blast
  have "entries h1 a \<noteq> None" using h1(5) by simp
  then obtain ns h2 y2 where h2: "resTree_GetEntry L a n h1 = Some (Some ns, h2)" "hub_ok L h2" "grown h1 h2"
    "sprouted h1 h2" "entries h2 ns = Some y2" "e_parentPtr y2 = Some a"
    using child_entry [OF assms(1) h1(2) _ n(2)] by blast
  have k: "kept {} ?h h2" using kept_trans [OF kept_grown [OF h1(3), of "{}"] kept_grown [OF h2(3), of "{}"]] by simp
  obtain y1' where y1': "entries h2 a = Some y1'" "e_parentPtr y1' = e_parentPtr y1" "e_name y1' = e_name y1"
    using keptD [OF kept_grown [OF h2(3), of "{}"] h1(5)] by auto
  have ns: "app_namespace h2 ns"
    using h2(5,6) y1' h1(6,7) kept_root [OF k] by (auto simp: app_namespace_def)
  have "owned h2"
    using GoToEntry_owned [OF GoToEntry_owned [OF ok(3)]] h1(1) h2(1) unfolding resTree_GetEntry_def by blast
  then have s: "settled L h2" using h2(2) by (simp add: settled_def)
  define d' where "d' = (with_hub h2 d)\<lparr>contextPtr := (contextPtr d)(session c \<mapsto> ns)\<rparr>"
  have "hub_GetClientNamespace L c d = Some (Some ns, d')"
    using None n(1) h1(1) h2(1) by (simp add: hub_GetClientNamespace_def via_hub_def resTree_GetRoot_def d'_def)
  moreover have "daemon_ok L d'"
    using with_hub_ok [OF assms(2) s k] ns by (simp add: daemon_ok_def d'_def)
  ultimately show ?thesis
    using k ns sprouted_trans [OF h1(4) h2(4)] by (simp add: d'_def)
qed

end
