(* ===== verification/IoService.thy ===== *)
theory IoService
  imports Client
begin

text \<open>
  The I/O API the Data Hub serves to the apps, \<open>src/apps/DataHub/components/dataHub/ioService.c\<close>: the
  apps create their inputs and outputs, push samples, fetch values and register handlers here, all
  within the namespace of the app. The result of a fetch is its code with what was written to the
  client's variables, the time stamp and the value, if anything was.
\<close>

subsection \<open>Finding a resource\<close>

definition is_io :: "admin_EntryType_t \<Rightarrow> bool" where
  "is_io t = (t = ADMIN_ENTRY_TYPE_INPUT \<or> t = ADMIN_ENTRY_TYPE_OUTPUT)"

text \<open>An entry of the client's namespace, and with its type whether it is an input or output.\<close>

definition find_in :: "legato \<Rightarrow> eid option \<Rightarrow> string \<Rightarrow> daemon \<Rightarrow> eid option option" where
  "find_in L ns path d = (case ns of None \<Rightarrow> Some None | Some e \<Rightarrow> resTree_FindEntry L (hub_of d) e path)"

definition io_FindResource :: "legato \<Rightarrow> client \<Rightarrow> string \<Rightarrow> daemon \<Rightarrow> (eid option \<times> daemon) option" where
  "io_FindResource L c path d = do {
     (ns, d) \<leftarrow> hub_GetClientNamespace L c d;
     entryRef \<leftarrow> find_in L ns path d;
     case entryRef of
       None \<Rightarrow> Some (None, d)
     | Some e \<Rightarrow> do {
         entryType \<leftarrow> resTree_GetEntryType (hub_of d) e;
         Some (if is_io entryType then Some e else None, d)
       }
   }"

text \<open>A request on the resource at a path, and what is done when there is none.\<close>

definition at_resource ::
  "legato \<Rightarrow> client \<Rightarrow> string \<Rightarrow> (daemon \<Rightarrow> 'a option) \<Rightarrow> (eid \<Rightarrow> daemon \<Rightarrow> 'a option) \<Rightarrow> daemon \<Rightarrow> 'a option" where
  "at_resource L c path missing found d = do {
     (resRef, d) \<leftarrow> io_FindResource L c path d;
     case resRef of None \<Rightarrow> missing d | Some e \<Rightarrow> found e d
   }"

subsection \<open>Creation and deletion\<close>

text \<open>
  What is there already: an entry of the wanted type must have the same data type and units; the
  other types of resources conflict, and namespaces and placeholders can be upgraded.
\<close>

definition existing ::
  "admin_EntryType_t \<Rightarrow> io_DataType_t \<Rightarrow> string \<Rightarrow> eid \<Rightarrow> hub \<Rightarrow> le_result_t option option" where
  "existing wanted dataType units e h = do {
     t \<leftarrow> resTree_GetEntryType h e;
     if t = wanted then do {
       dt \<leftarrow> resTree_GetDataType h e;
       u \<leftarrow> resTree_GetUnits h e;
       Some (Some (if dt \<noteq> dataType \<or> units \<noteq> u then LE_DUPLICATE else LE_OK))
     }
     else (case t of
         ADMIN_ENTRY_TYPE_INPUT \<Rightarrow> Some (Some LE_DUPLICATE)
       | ADMIN_ENTRY_TYPE_OUTPUT \<Rightarrow> Some (Some LE_DUPLICATE)
       | ADMIN_ENTRY_TYPE_OBSERVATION \<Rightarrow> Some (Some LE_DUPLICATE)
       | ADMIN_ENTRY_TYPE_NAMESPACE \<Rightarrow> Some None
       | ADMIN_ENTRY_TYPE_PLACEHOLDER \<Rightarrow> Some None
       | ADMIN_ENTRY_TYPE_NONE \<Rightarrow> None)
   }"

text \<open>
  Creation in a namespace. Without a namespace \<open>NULL\<close> is what the entries are looked for below, or
  what the name is asked of for the message.
\<close>

definition create_io ::
  "(eid \<Rightarrow> string \<Rightarrow> io_DataType_t \<Rightarrow> string \<Rightarrow> hub \<Rightarrow> (eid option \<times> hub) option) \<Rightarrow>
   client \<Rightarrow> eid option \<Rightarrow> string \<Rightarrow> io_DataType_t \<Rightarrow> string \<Rightarrow> daemon \<Rightarrow> (le_result_t \<times> daemon) option" where
  "create_io get c ns path dataType units d = do {
     ns \<leftarrow> ns;
     (resRef, d) \<leftarrow> via_hub (get ns path dataType units) d;
     case resRef of
       None \<Rightarrow> do {
         _ \<leftarrow> resTree_GetEntryName (hub_of d) ns;
         Some (LE_FAULT, LE_KILL_CLIENT c d)
       }
     | Some _ \<Rightarrow> Some (LE_OK, d)
   }"

definition io_CreateInput ::
  "legato \<Rightarrow> client \<Rightarrow> string \<Rightarrow> io_DataType_t \<Rightarrow> string \<Rightarrow> daemon \<Rightarrow> (le_result_t \<times> daemon) option" where
  "io_CreateInput L c path dataType units d = do {
     (ns, d) \<leftarrow> hub_GetClientNamespace L c d;
     resRef \<leftarrow> find_in L ns path d;
     known \<leftarrow> (case resRef of
                 None \<Rightarrow> Some None
               | Some e \<Rightarrow> existing ADMIN_ENTRY_TYPE_INPUT dataType units e (hub_of d));
     case known of
       Some result \<Rightarrow> Some (result, d)
     | None \<Rightarrow> create_io (resTree_GetInput L) c ns path dataType units d
   }"

definition io_CreateOutput ::
  "legato \<Rightarrow> client \<Rightarrow> string \<Rightarrow> io_DataType_t \<Rightarrow> string \<Rightarrow> daemon \<Rightarrow> (le_result_t \<times> daemon) option" where
  "io_CreateOutput L c path dataType units d = do {
     (ns, d) \<leftarrow> hub_GetClientNamespace L c d;
     resRef \<leftarrow> find_in L ns path d;
     known \<leftarrow> (case resRef of
                 None \<Rightarrow> Some None
               | Some e \<Rightarrow> existing ADMIN_ENTRY_TYPE_OUTPUT dataType units e (hub_of d));
     case known of
       Some result \<Rightarrow> Some (result, d)
     | None \<Rightarrow> create_io (resTree_GetOutput L) c ns path dataType units d
   }"

text \<open>The example is not checked for being JSON.\<close>

definition io_SetJsonExample :: "legato \<Rightarrow> client \<Rightarrow> string \<Rightarrow> string \<Rightarrow> daemon \<Rightarrow> daemon option" where
  "io_SetJsonExample L c path example = at_resource L c path Some
     (\<lambda>e d. do {
        t \<leftarrow> resTree_GetEntryType (hub_of d) e;
        if t \<noteq> ADMIN_ENTRY_TYPE_INPUT then Some d
        else do {
          dt \<leftarrow> resTree_GetDataType (hub_of d) e;
          if dt \<noteq> IO_DATA_TYPE_JSON then Some d
          else do {
            (sampleRef, d) \<leftarrow> stamp_text (dataSample_CreateJson L (dbl_of_int 0) example) d;
            on_hub (resTree_SetJsonExample e sampleRef) d
          }
        }
      })"

definition io_DeleteResource :: "legato \<Rightarrow> client \<Rightarrow> string \<Rightarrow> daemon \<Rightarrow> daemon option" where
  "io_DeleteResource L c path = at_resource L c path Some (\<lambda>e. on_hub (resTree_DeleteIO L e))"

subsection \<open>Pushing samples\<close>

definition kill :: "client \<Rightarrow> daemon \<Rightarrow> daemon option" where
  "kill c d = Some (LE_KILL_CLIENT c d)"

definition io_PushTrigger :: "legato \<Rightarrow> client \<Rightarrow> string \<Rightarrow> double \<Rightarrow> daemon \<Rightarrow> daemon option" where
  "io_PushTrigger L c path ts = at_resource L c path (kill c)
     (\<lambda>e d. let (sampleRef, d) = stamp (dataSample_CreateTrigger L ts) d
            in on_hub (resTree_Push L e IO_DATA_TYPE_TRIGGER sampleRef) d)"

definition io_PushBoolean :: "legato \<Rightarrow> client \<Rightarrow> string \<Rightarrow> double \<Rightarrow> bool \<Rightarrow> daemon \<Rightarrow> daemon option" where
  "io_PushBoolean L c path ts v = at_resource L c path (kill c)
     (\<lambda>e d. let (sampleRef, d) = stamp (dataSample_CreateBoolean L ts v) d
            in on_hub (resTree_Push L e IO_DATA_TYPE_BOOLEAN sampleRef) d)"

definition io_PushNumeric :: "legato \<Rightarrow> client \<Rightarrow> string \<Rightarrow> double \<Rightarrow> double \<Rightarrow> daemon \<Rightarrow> daemon option" where
  "io_PushNumeric L c path ts v = at_resource L c path (kill c)
     (\<lambda>e d. let (sampleRef, d) = stamp (dataSample_CreateNumeric L ts v) d
            in on_hub (resTree_Push L e IO_DATA_TYPE_NUMERIC sampleRef) d)"

definition io_PushString :: "legato \<Rightarrow> client \<Rightarrow> string \<Rightarrow> double \<Rightarrow> string \<Rightarrow> daemon \<Rightarrow> daemon option" where
  "io_PushString L c path ts v = at_resource L c path (kill c)
     (\<lambda>e d. do {
        (sampleRef, d) \<leftarrow> stamp_text (dataSample_CreateString L ts v) d;
        on_hub (resTree_Push L e IO_DATA_TYPE_STRING sampleRef) d
      })"

definition io_PushJson :: "legato \<Rightarrow> client \<Rightarrow> string \<Rightarrow> double \<Rightarrow> string \<Rightarrow> daemon \<Rightarrow> daemon option" where
  "io_PushJson L c path ts v = at_resource L c path (kill c)
     (\<lambda>e d. if json_IsValid v then do {
              (sampleRef, d) \<leftarrow> stamp_text (dataSample_CreateJson L ts v) d;
              on_hub (resTree_Push L e IO_DATA_TYPE_JSON sampleRef) d
            } else Some d)"

subsection \<open>Push handlers\<close>

text \<open>
  A new handler hears of the current value at once, as far as its type goes. The reference of the
  handler is \<open>None\<close> when the client was killed.
\<close>

definition io_AddPushHandler ::
  "legato \<Rightarrow> client \<Rightarrow> string \<Rightarrow> io_DataType_t \<Rightarrow> nat \<Rightarrow> nat \<Rightarrow> daemon \<Rightarrow> (hid option \<times> daemon) option" where
  "io_AddPushHandler L c path dataType callbackPtr context d = do {
     (ns, d) \<leftarrow> hub_GetClientNamespace L c d;
     case ns of
       None \<Rightarrow> Some (None, LE_KILL_CLIENT c d)
     | Some ns \<Rightarrow> do {
         resRef \<leftarrow> resTree_FindEntry L (hub_of d) ns path;
         case resRef of
           None \<Rightarrow> do {
             _ \<leftarrow> resTree_GetEntryName (hub_of d) ns;
             Some (None, LE_KILL_CLIENT c d)
           }
         | Some e \<Rightarrow> do {
             entryType \<leftarrow> resTree_GetEntryType (hub_of d) e;
             if \<not> is_io entryType then do {
               _ \<leftarrow> resTree_GetEntryName (hub_of d) ns;
               Some (None, LE_KILL_CLIENT c d)
             }
             else do {
               (handlerRef, d) \<leftarrow> via_hub (resTree_AddPushHandler e dataType callbackPtr context) d;
               sampleRef \<leftarrow> resTree_GetCurrentValue (hub_of d) e;
               d \<leftarrow> (case sampleRef of
                       None \<Rightarrow> Some d
                     | Some s \<Rightarrow> do {
                         t \<leftarrow> resTree_GetDataType (hub_of d) e;
                         on_hub (handler_Call L handlerRef t s) d
                       });
               Some (Some handlerRef, d)
             }
           }
       }
   }"

definition io_AddTriggerPushHandler ::
  "legato \<Rightarrow> client \<Rightarrow> string \<Rightarrow> nat \<Rightarrow> nat \<Rightarrow> daemon \<Rightarrow> (hid option \<times> daemon) option" where
  "io_AddTriggerPushHandler L c path callbackPtr context =
     io_AddPushHandler L c path IO_DATA_TYPE_TRIGGER callbackPtr context"

definition io_RemoveTriggerPushHandler :: "hid \<Rightarrow> daemon \<Rightarrow> daemon option" where
  "io_RemoveTriggerPushHandler handlerRef = on_hub (handler_Remove handlerRef)"

definition io_AddBooleanPushHandler ::
  "legato \<Rightarrow> client \<Rightarrow> string \<Rightarrow> nat \<Rightarrow> nat \<Rightarrow> daemon \<Rightarrow> (hid option \<times> daemon) option" where
  "io_AddBooleanPushHandler L c path callbackPtr context =
     io_AddPushHandler L c path IO_DATA_TYPE_BOOLEAN callbackPtr context"

definition io_RemoveBooleanPushHandler :: "hid \<Rightarrow> daemon \<Rightarrow> daemon option" where
  "io_RemoveBooleanPushHandler handlerRef = on_hub (handler_Remove handlerRef)"

definition io_AddNumericPushHandler ::
  "legato \<Rightarrow> client \<Rightarrow> string \<Rightarrow> nat \<Rightarrow> nat \<Rightarrow> daemon \<Rightarrow> (hid option \<times> daemon) option" where
  "io_AddNumericPushHandler L c path callbackPtr context =
     io_AddPushHandler L c path IO_DATA_TYPE_NUMERIC callbackPtr context"

definition io_RemoveNumericPushHandler :: "hid \<Rightarrow> daemon \<Rightarrow> daemon option" where
  "io_RemoveNumericPushHandler handlerRef = on_hub (handler_Remove handlerRef)"

definition io_AddStringPushHandler ::
  "legato \<Rightarrow> client \<Rightarrow> string \<Rightarrow> nat \<Rightarrow> nat \<Rightarrow> daemon \<Rightarrow> (hid option \<times> daemon) option" where
  "io_AddStringPushHandler L c path callbackPtr context =
     io_AddPushHandler L c path IO_DATA_TYPE_STRING callbackPtr context"

definition io_RemoveStringPushHandler :: "hid \<Rightarrow> daemon \<Rightarrow> daemon option" where
  "io_RemoveStringPushHandler handlerRef = on_hub (handler_Remove handlerRef)"

definition io_AddJsonPushHandler ::
  "legato \<Rightarrow> client \<Rightarrow> string \<Rightarrow> nat \<Rightarrow> nat \<Rightarrow> daemon \<Rightarrow> (hid option \<times> daemon) option" where
  "io_AddJsonPushHandler L c path callbackPtr context =
     io_AddPushHandler L c path IO_DATA_TYPE_JSON callbackPtr context"

definition io_RemoveJsonPushHandler :: "hid \<Rightarrow> daemon \<Rightarrow> daemon option" where
  "io_RemoveJsonPushHandler handlerRef = on_hub (handler_Remove handlerRef)"

subsection \<open>Options and defaults\<close>

definition io_MarkOptional :: "legato \<Rightarrow> client \<Rightarrow> string \<Rightarrow> daemon \<Rightarrow> daemon option" where
  "io_MarkOptional L c path = at_resource L c path (kill c)
     (\<lambda>e d. do {
        t \<leftarrow> resTree_GetEntryType (hub_of d) e;
        if t \<noteq> ADMIN_ENTRY_TYPE_OUTPUT then kill c d else on_hub (resTree_MarkOptional e) d
      })"

text \<open>A default of the app is set once: what all four operations check before.\<close>

definition if_no_default ::
  "legato \<Rightarrow> client \<Rightarrow> string \<Rightarrow> io_DataType_t \<Rightarrow> (eid \<Rightarrow> daemon \<Rightarrow> daemon option) \<Rightarrow> daemon \<Rightarrow> daemon option" where
  "if_no_default L c path dataType set_it = at_resource L c path (kill c)
     (\<lambda>e d. do {
        t \<leftarrow> resTree_GetDataType (hub_of d) e;
        if t \<noteq> dataType then kill c d
        else do {
          has \<leftarrow> resTree_HasDefault (hub_of d) e;
          if has then Some d else set_it e d
        }
      })"

definition io_SetBooleanDefault :: "legato \<Rightarrow> client \<Rightarrow> string \<Rightarrow> bool \<Rightarrow> daemon \<Rightarrow> daemon option" where
  "io_SetBooleanDefault L c path v = if_no_default L c path IO_DATA_TYPE_BOOLEAN
     (\<lambda>e d. let (sampleRef, d) = stamp (dataSample_CreateBoolean L (dbl_of_int 0) v) d
            in on_hub (resTree_SetDefault L e IO_DATA_TYPE_BOOLEAN sampleRef) d)"

definition io_SetNumericDefault :: "legato \<Rightarrow> client \<Rightarrow> string \<Rightarrow> double \<Rightarrow> daemon \<Rightarrow> daemon option" where
  "io_SetNumericDefault L c path v = if_no_default L c path IO_DATA_TYPE_NUMERIC
     (\<lambda>e d. let (sampleRef, d) = stamp (dataSample_CreateNumeric L (dbl_of_int 0) v) d
            in on_hub (resTree_SetDefault L e IO_DATA_TYPE_NUMERIC sampleRef) d)"

definition io_SetStringDefault :: "legato \<Rightarrow> client \<Rightarrow> string \<Rightarrow> string \<Rightarrow> daemon \<Rightarrow> daemon option" where
  "io_SetStringDefault L c path v = if_no_default L c path IO_DATA_TYPE_STRING
     (\<lambda>e d. do {
        (sampleRef, d) \<leftarrow> stamp_text (dataSample_CreateString L (dbl_of_int 0) v) d;
        on_hub (resTree_SetDefault L e IO_DATA_TYPE_STRING sampleRef) d
      })"

definition io_SetJsonDefault :: "legato \<Rightarrow> client \<Rightarrow> string \<Rightarrow> string \<Rightarrow> daemon \<Rightarrow> daemon option" where
  "io_SetJsonDefault L c path v = if_no_default L c path IO_DATA_TYPE_JSON
     (\<lambda>e d. if json_IsValid v then do {
              (sampleRef, d) \<leftarrow> stamp_text (dataSample_CreateJson L (dbl_of_int 0) v) d;
              on_hub (resTree_SetDefault L e IO_DATA_TYPE_JSON sampleRef) d
            } else kill c d)"

subsection \<open>Fetching values\<close>

text \<open>The current value, with the type that is asked for; asking for another type kills the client.\<close>

definition GetCurrentValue ::
  "client \<Rightarrow> eid \<Rightarrow> io_DataType_t \<Rightarrow> daemon \<Rightarrow> (dataSample_Ref_t option \<times> daemon) option" where
  "GetCurrentValue c e dataType d = do {
     t \<leftarrow> resTree_GetDataType (hub_of d) e;
     if t \<noteq> dataType then Some (None, LE_KILL_CLIENT c d)
     else do {
       v \<leftarrow> resTree_GetCurrentValue (hub_of d) e;
       Some (v, d)
     }
   }"

type_synonym 'a fetched = "(le_result_t \<times> (double \<times> 'a) option) \<times> daemon"

definition not_found :: "daemon \<Rightarrow> 'a fetched option" where
  "not_found d = Some ((LE_NOT_FOUND, None), d)"

definition unavailable :: "daemon \<Rightarrow> 'a fetched option" where
  "unavailable d = Some ((LE_UNAVAILABLE, None), d)"

definition io_GetTimestamp :: "legato \<Rightarrow> client \<Rightarrow> string \<Rightarrow> daemon \<Rightarrow> unit fetched option" where
  "io_GetTimestamp L c path = at_resource L c path not_found
     (\<lambda>e d. do {
        v \<leftarrow> resTree_GetCurrentValue (hub_of d) e;
        case v of
          None \<Rightarrow> unavailable d
        | Some s \<Rightarrow> Some ((LE_OK, Some (dataSample_GetTimestamp s, ())), d)
      })"

definition io_GetBoolean :: "legato \<Rightarrow> client \<Rightarrow> string \<Rightarrow> daemon \<Rightarrow> bool fetched option" where
  "io_GetBoolean L c path = at_resource L c path not_found
     (\<lambda>e d. do {
        (v, d) \<leftarrow> GetCurrentValue c e IO_DATA_TYPE_BOOLEAN d;
        case v of
          None \<Rightarrow> unavailable d
        | Some s \<Rightarrow> do {
            x \<leftarrow> dataSample_GetBoolean s;
            Some ((LE_OK, Some (dataSample_GetTimestamp s, x)), d)
          }
      })"

definition io_GetNumeric :: "legato \<Rightarrow> client \<Rightarrow> string \<Rightarrow> daemon \<Rightarrow> double fetched option" where
  "io_GetNumeric L c path = at_resource L c path not_found
     (\<lambda>e d. do {
        (v, d) \<leftarrow> GetCurrentValue c e IO_DATA_TYPE_NUMERIC d;
        case v of
          None \<Rightarrow> unavailable d
        | Some s \<Rightarrow> do {
            x \<leftarrow> dataSample_GetNumeric s;
            Some ((LE_OK, Some (dataSample_GetTimestamp s, x)), d)
          }
      })"

definition io_GetString :: "legato \<Rightarrow> client \<Rightarrow> string \<Rightarrow> nat \<Rightarrow> daemon \<Rightarrow> string fetched option" where
  "io_GetString L c path valueSize = at_resource L c path not_found
     (\<lambda>e d. do {
        (v, d) \<leftarrow> GetCurrentValue c e IO_DATA_TYPE_STRING d;
        case v of
          None \<Rightarrow> unavailable d
        | Some s \<Rightarrow> do {
            str \<leftarrow> dataSample_GetString s;
            let (r, x) = utf8_Copy L str valueSize;
            Some ((r, Some (dataSample_GetTimestamp s, x)), d)
          }
      })"

definition io_GetJson :: "legato \<Rightarrow> client \<Rightarrow> string \<Rightarrow> nat \<Rightarrow> daemon \<Rightarrow> string fetched option" where
  "io_GetJson L c path valueSize = at_resource L c path not_found
     (\<lambda>e d. do {
        v \<leftarrow> resTree_GetCurrentValue (hub_of d) e;
        case v of
          None \<Rightarrow> unavailable d
        | Some s \<Rightarrow> do {
            t \<leftarrow> resTree_GetDataType (hub_of d) e;
            (r, x) \<leftarrow> dataSample_ConvertToJson L s t valueSize;
            Some ((r, Some (dataSample_GetTimestamp s, x)), d)
          }
      })"

subsection \<open>Handlers for the start and end of updates\<close>

definition io_AddUpdateStartEndHandler :: "nat \<Rightarrow> nat \<Rightarrow> daemon \<Rightarrow> nat \<times> daemon" where
  "io_AddUpdateStartEndHandler callbackPtr context d =
     (let n = nextHandler (hub_of d) in
      (n, d\<lparr>UpdateStartEndHandlerList := UpdateStartEndHandlerList d @ [(n, callbackPtr, context)],
            hub_of := (hub_of d)\<lparr>nextHandler := n + 1\<rparr>\<rparr>))"

text \<open>The reference is the handler's address: it must be one that was given out.\<close>

definition io_RemoveUpdateStartEndHandler :: "nat \<Rightarrow> daemon \<Rightarrow> daemon option" where
  "io_RemoveUpdateStartEndHandler handlerRef d = do {
     le_assert (handlerRef \<in> fst ` set (UpdateStartEndHandlerList d));
     Some (d\<lparr>UpdateStartEndHandlerList :=
               filter (\<lambda>x. fst x \<noteq> handlerRef) (UpdateStartEndHandlerList d)\<rparr>)
   }"

definition CallUpdateStartEndHandlers :: "bool \<Rightarrow> daemon \<Rightarrow> daemon" where
  "CallUpdateStartEndHandlers isStarting d =
     with_hub (fold (\<lambda>(_, callbackPtr, context). add_event (UpdateStartEnd callbackPtr context isStarting))
                 (UpdateStartEndHandlerList d) (hub_of d)) d"

definition ioService_StartUpdate :: "daemon \<Rightarrow> daemon" where
  "ioService_StartUpdate = CallUpdateStartEndHandlers True"

definition ioService_EndUpdate :: "daemon \<Rightarrow> daemon" where
  "ioService_EndUpdate = CallUpdateStartEndHandlers False"

end
