(* ===== verification/IoSpec.thy ===== *)
theory IoSpec
  imports ClientSpec IoService
begin

text \<open>
  What the I/O API promises its clients: calls that respect the rules never stop the daemon and keep its
  invariant; what is created is found, what is pushed can be fetched.
\<close>

subsection \<open>The resource of a call\<close>

lemma FindEntry_total:
  assumes "framework_ok L" "hub_ok L h" "entries h base \<noteq> None"
  shows "\<exists>r. resTree_FindEntry L h base path = Some r \<and> (\<forall>e. r = Some e \<longrightarrow> entries h e \<noteq> None)"
  using GoToEntry_ok [OF framework_okD(1) [OF assms(1)] hub_okD(1) [OF assms(2)] assms(3), of path False]
  by (auto simp: resTree_FindEntry_def)

text \<open>The state in which a call finds its resource.\<close>

definition found_io :: "legato \<Rightarrow> client \<Rightarrow> string \<Rightarrow> daemon \<Rightarrow> eid \<Rightarrow> daemon \<Rightarrow> bool" where
  "found_io L c path d e d' \<longleftrightarrow>
     io_FindResource L c path d = Some (Some e, d') \<and> daemon_ok L d' \<and>
     (\<exists>ns. app_namespace (hub_of d') ns \<and> resTree_FindEntry L (hub_of d') ns path = Some (Some e)) \<and>
     of_type (hub_of d') e {ADMIN_ENTRY_TYPE_INPUT, ADMIN_ENTRY_TYPE_OUTPUT} \<and> has_resource (hub_of d') e"

lemma io_FindResource_cases:
  assumes "framework_ok L" "daemon_ok L d" "client_ok L c"
  obtains d' where "io_FindResource L c path d = Some (None, d')" "daemon_ok L d'"
  | e d' where "found_io L c path d e d'"
proof -
  obtain ns d' where ns: "hub_GetClientNamespace L c d = Some (Some ns, d')" "daemon_ok L d'" "app_namespace (hub_of d') ns"
    using namespace_ok [OF assms] by blast
  note ok = daemon_okD [OF ns(2)]
  have "entries (hub_of d') ns \<noteq> None" using app_namespace_live [OF ns(3)] by (simp add: live_def)
  then obtain r where r: "resTree_FindEntry L (hub_of d') ns path = Some r" "\<forall>e. r = Some e \<longrightarrow> entries (hub_of d') e \<noteq> None"
    using FindEntry_total [OF assms(1) ok(2)] by blast
  show thesis
  proof (cases r)
    case None
    then show thesis using that(1) ns(1,2) r(1) by (simp add: io_FindResource_def find_in_def)
  next
    case (Some e)
    then obtain y where y: "entries (hub_of d') e = Some y" using r(2) by auto
    have f: "io_FindResource L c path d = Some (if is_io (e_type y) then Some e else None, d')"
      using ns(1) r(1) Some y by (simp add: io_FindResource_def find_in_def resTree_GetEntryType_def)
    show thesis
    proof (cases "is_io (e_type y)")
      case False
      then show thesis using that(1) f ns(2) by simp
    next
      case True
      then have t: "of_type (hub_of d') e {ADMIN_ENTRY_TYPE_INPUT, ADMIN_ENTRY_TYPE_OUTPUT}"
        using y by (simp add: of_type_def is_io_def)
      then have "has_resource (hub_of d') e" by (rule typed_resource [OF ok(2)]) simp
      then show thesis using that(2) f True ns(2,3) r(1) Some t by (auto simp: found_io_def)
    qed
  qed
qed

lemma at_resource_cases:
  assumes "framework_ok L" "daemon_ok L d" "client_ok L c"
    "\<And>d'. daemon_ok L d' \<Longrightarrow> P (missing d')" "\<And>e d'. found_io L c path d e d' \<Longrightarrow> P (found e d')"
  shows "P (at_resource L c path missing found d)"
  by (rule io_FindResource_cases [OF assms(1-3), of path])
    (use assms(4,5) in \<open>auto simp: at_resource_def found_io_def\<close>)

lemma found_ioD:
  assumes "found_io L c path d e d'"
  shows "daemon_ok L d'" "settled L (hub_of d')" "hub_ok L (hub_of d')"
    "of_type (hub_of d') e {ADMIN_ENTRY_TYPE_INPUT, ADMIN_ENTRY_TYPE_OUTPUT}" "has_resource (hub_of d') e" "live (hub_of d') e"
  using assms daemon_okD by (auto simp: found_io_def has_resource_def live_def)

text \<open>What is read of the resource of a call.\<close>

lemma found_reads:
  assumes "found_io L c path d e d'"
  obtains y r x where "entries (hub_of d') e = Some y" "e_resourcePtr y = Some r" "resources (hub_of d') r = Some x"
    "resTree_GetEntryType (hub_of d') e = Some (e_type y)"
    "resTree_GetDataType (hub_of d') e = Some (r_currentType x)" "resTree_GetUnits (hub_of d') e = Some (r_units x)"
    "resTree_GetCurrentValue (hub_of d') e = Some (r_currentValue x)"
    "resTree_HasDefault (hub_of d') e = Some (r_defaultValue x \<noteq> None)"
    "typed (r_currentType x) (r_currentValue x)"
proof -
  note f = found_ioD [OF assms]
  obtain y r x where y: "entries (hub_of d') e = Some y" "e_resourcePtr y = Some r" "resources (hub_of d') r = Some x"
    by (rule resource_live [OF f(3,5)])
  moreover have "typed (r_currentType x) (r_currentValue x)"
    using values_okD [OF hub_okD(5) [OF f(3)] y(3)] by (simp add: value_ok_def)
  ultimately show thesis
    using that by (simp add: resTree_GetEntryType_def resTree_GetDataType_def resTree_GetUnits_def resTree_GetCurrentValue_def
        resTree_HasDefault_def with_resource_def res_GetDataType_def res_GetUnits_def res_GetCurrentValue_def res_HasDefault_def)
qed

lemma found_types:
  assumes "found_io L c path d e d'"
  shows "\<exists>t. resTree_GetEntryType (hub_of d') e = Some t" "\<exists>t. resTree_GetDataType (hub_of d') e = Some t"
    "\<exists>b. resTree_HasDefault (hub_of d') e = Some b"
  by (rule found_reads [OF assms]; blast)+

subsection \<open>Calls\<close>

datatype io_call =
    CreateInput string io_DataType_t string
  | CreateOutput string io_DataType_t string
  | SetJsonExample string string
  | DeleteResource string
  | PushTrigger string double
  | PushBoolean string double bool
  | PushNumeric string double double
  | PushString string double string
  | PushJson string double string
  | AddPushHandler string io_DataType_t nat nat
  | RemovePushHandler io_DataType_t hid
  | MarkOptional string
  | SetBooleanDefault string bool
  | SetNumericDefault string double
  | SetStringDefault string string
  | SetJsonDefault string string
  | GetTimestamp string
  | GetBoolean string
  | GetNumeric string
  | GetString string nat
  | GetJson string nat
  | AddUpdateStartEndHandler nat nat
  | RemoveUpdateStartEndHandler nat

fun io_add_handler :: "legato \<Rightarrow> client \<Rightarrow> string \<Rightarrow> io_DataType_t \<Rightarrow> nat \<Rightarrow> nat \<Rightarrow> daemon \<Rightarrow> (hid option \<times> daemon) option" where
  "io_add_handler L c path IO_DATA_TYPE_TRIGGER = io_AddTriggerPushHandler L c path"
| "io_add_handler L c path IO_DATA_TYPE_BOOLEAN = io_AddBooleanPushHandler L c path"
| "io_add_handler L c path IO_DATA_TYPE_NUMERIC = io_AddNumericPushHandler L c path"
| "io_add_handler L c path IO_DATA_TYPE_STRING = io_AddStringPushHandler L c path"
| "io_add_handler L c path IO_DATA_TYPE_JSON = io_AddJsonPushHandler L c path"

fun io_remove_handler :: "io_DataType_t \<Rightarrow> hid \<Rightarrow> daemon \<Rightarrow> daemon option" where
  "io_remove_handler IO_DATA_TYPE_TRIGGER = io_RemoveTriggerPushHandler"
| "io_remove_handler IO_DATA_TYPE_BOOLEAN = io_RemoveBooleanPushHandler"
| "io_remove_handler IO_DATA_TYPE_NUMERIC = io_RemoveNumericPushHandler"
| "io_remove_handler IO_DATA_TYPE_STRING = io_RemoveStringPushHandler"
| "io_remove_handler IO_DATA_TYPE_JSON = io_RemoveJsonPushHandler"

fun io_serve :: "legato \<Rightarrow> client \<Rightarrow> io_call \<Rightarrow> daemon \<Rightarrow> daemon option" where
  "io_serve L c (CreateInput path t units) d = map_option snd (io_CreateInput L c path t units d)"
| "io_serve L c (CreateOutput path t units) d = map_option snd (io_CreateOutput L c path t units d)"
| "io_serve L c (SetJsonExample path example) d = io_SetJsonExample L c path example d"
| "io_serve L c (DeleteResource path) d = io_DeleteResource L c path d"
| "io_serve L c (PushTrigger path ts) d = io_PushTrigger L c path ts d"
| "io_serve L c (PushBoolean path ts b) d = io_PushBoolean L c path ts b d"
| "io_serve L c (PushNumeric path ts v) d = io_PushNumeric L c path ts v d"
| "io_serve L c (PushString path ts s) d = io_PushString L c path ts s d"
| "io_serve L c (PushJson path ts s) d = io_PushJson L c path ts s d"
| "io_serve L c (AddPushHandler path t callbackPtr context) d =
     map_option snd (io_add_handler L c path t callbackPtr context d)"
| "io_serve L c (RemovePushHandler t n) d = io_remove_handler t n d"
| "io_serve L c (MarkOptional path) d = io_MarkOptional L c path d"
| "io_serve L c (SetBooleanDefault path b) d = io_SetBooleanDefault L c path b d"
| "io_serve L c (SetNumericDefault path v) d = io_SetNumericDefault L c path v d"
| "io_serve L c (SetStringDefault path s) d = io_SetStringDefault L c path s d"
| "io_serve L c (SetJsonDefault path s) d = io_SetJsonDefault L c path s d"
| "io_serve L c (GetTimestamp path) d = map_option snd (io_GetTimestamp L c path d)"
| "io_serve L c (GetBoolean path) d = map_option snd (io_GetBoolean L c path d)"
| "io_serve L c (GetNumeric path) d = map_option snd (io_GetNumeric L c path d)"
| "io_serve L c (GetString path n) d = map_option snd (io_GetString L c path n d)"
| "io_serve L c (GetJson path n) d = map_option snd (io_GetJson L c path n d)"
| "io_serve L c (AddUpdateStartEndHandler callbackPtr context) d = Some (snd (io_AddUpdateStartEndHandler callbackPtr context d))"
| "io_serve L c (RemoveUpdateStartEndHandler n) d = io_RemoveUpdateStartEndHandler n d"

text \<open>
  The rules for an app: texts have the length the interface admits, a resource is not deleted while
  there are others below it, and never the namespace of the app itself; handlers that are removed are
  on their lists.
\<close>

definition text_ok :: "string \<Rightarrow> bool" where
  "text_ok s \<longleftrightarrow> length s \<le> IO_MAX_STRING_VALUE_LEN"

definition childless :: "hub \<Rightarrow> eid \<Rightarrow> bool" where
  "childless h e \<longleftrightarrow> (\<forall>y. entries h e = Some y \<longrightarrow> e_childList y = [])"

definition leaf_at :: "legato \<Rightarrow> client \<Rightarrow> string \<Rightarrow> daemon \<Rightarrow> bool" where
  "leaf_at L c path d \<longleftrightarrow> (\<forall>e d'. io_FindResource L c path d = Some (Some e, d') \<longrightarrow> childless (hub_of d') e)"

fun io_proper :: "legato \<Rightarrow> client \<Rightarrow> daemon \<Rightarrow> io_call \<Rightarrow> bool" where
  "io_proper L c d (SetJsonExample path example) = text_ok example"
| "io_proper L c d (DeleteResource path) = (path \<noteq> [] \<and> leaf_at L c path d)"
| "io_proper L c d (PushString path ts s) = text_ok s"
| "io_proper L c d (PushJson path ts s) = text_ok s"
| "io_proper L c d (RemovePushHandler t n) = removable (hub_of d) n"
| "io_proper L c d (SetStringDefault path s) = text_ok s"
| "io_proper L c d (SetJsonDefault path s) = text_ok s"
| "io_proper L c d (RemoveUpdateStartEndHandler n) = (n \<in> fst ` set (UpdateStartEndHandlerList d))"
| "io_proper L c d _ = True"

subsection \<open>Each call is served\<close>

lemma servedI: "m = Some d \<Longrightarrow> daemon_ok L d \<Longrightarrow> served L m"
  by (simp add: served_def)

lemma served_on_hub:
  assumes "daemon_ok L d" "goes_well L (hub_of d) {} (f (hub_of d))"
  shows "served L (on_hub f d)"
  using on_hub_ok [of L d f] assms by (auto simp: served_def)

lemma served_with_hub:
  assumes "daemon_ok L (with_hub h d)" "goes_well L h {} (f h)"
  shows "served L (on_hub f (with_hub h d))"
  using served_on_hub [OF assms(1), of f] assms(2) by simp

text \<open>An operation with a sample on a resource.\<close>

lemma served_stamp:
  assumes "daemon_ok L d" "\<And>n. sample_fine t (fst (f n))"
    "\<And>h s. settled L h \<Longrightarrow> entries h = entries (hub_of d) \<Longrightarrow> sample_fine t s \<Longrightarrow> goes_well L h {} (g s h)"
  shows "served L (let (s, d) = stamp f d in on_hub (g s) d)"
proof -
  obtain s n where s: "stamp f d = (s, with_hub ((hub_of d)\<lparr>clock := n\<rparr>) d)" "sample_fine t s"
    "daemon_ok L (with_hub ((hub_of d)\<lparr>clock := n\<rparr>) d)" using stamp_ok [OF assms(1), of t f] assms(2) by blast
  have "goes_well L ((hub_of d)\<lparr>clock := n\<rparr>) {} (g s ((hub_of d)\<lparr>clock := n\<rparr>))"
    by (rule assms(3)) (use daemon_okD(1) [OF s(3)] s(2) in simp_all)
  then show ?thesis using served_with_hub [OF s(3)] s(1) by simp
qed

lemma served_stamp_text:
  assumes "framework_ok L" "daemon_ok L d" "text_ok v" "t = IO_DATA_TYPE_STRING \<or> t = IO_DATA_TYPE_JSON"
    "f = dataSample_CreateString L ts v \<or> f = dataSample_CreateJson L ts v"
    "\<And>h s. settled L h \<Longrightarrow> entries h = entries (hub_of d) \<Longrightarrow> sample_fine t s \<Longrightarrow> goes_well L h {} (g s h)"
  shows "served L (do { (s, d) \<leftarrow> stamp_text f d; on_hub (g s) d })"
proof -
  obtain s n where s: "stamp_text f d = Some (s, with_hub ((hub_of d)\<lparr>clock := n\<rparr>) d)" "sample_fine t s"
    "daemon_ok L (with_hub ((hub_of d)\<lparr>clock := n\<rparr>) d)"
    using stamp_text_ok [OF assms(2) framework_okD(1) [OF assms(1)] _ assms(4,5)] assms(3) by (auto simp: text_ok_def)
  have "goes_well L ((hub_of d)\<lparr>clock := n\<rparr>) {} (g s ((hub_of d)\<lparr>clock := n\<rparr>))"
    by (rule assms(6)) (use daemon_okD(1) [OF s(3)] s(2) in simp_all)
  then show ?thesis using served_with_hub [OF s(3)] s(1) by simp
qed

lemma entries_has: "entries h = entries g \<Longrightarrow> has_resource h e = has_resource g e" "entries h = entries g \<Longrightarrow> live h e = live g e"
  by (simp_all add: has_resource_def live_def)

lemma served_kill: "daemon_ok L d \<Longrightarrow> served L (kill c d)"
  using kill_ok by (simp add: kill_def served_def)

lemma push_served:
  assumes "framework_ok L" "daemon_ok L d" "client_ok L c"
  shows "served L (io_PushTrigger L c path ts d)" "served L (io_PushBoolean L c path ts b d)"
    "served L (io_PushNumeric L c path ts v d)"
    "text_ok s \<Longrightarrow> served L (io_PushString L c path ts s d)" "text_ok s \<Longrightarrow> served L (io_PushJson L c path ts s d)"
proof -
  note at = at_resource_cases [OF assms, where P = "served L" and path = path]
  have p: "goes_well L h {} (resTree_Push L e t x h)"
    if "found_io L c path d e d'" "settled L h" "entries h = entries (hub_of d')" "sample_fine t x" for e d' h t x
    by (rule push_well [OF assms(1) that(2) _ that(4)]) (use found_ioD(6) [OF that(1)] entries_has(2) [OF that(3)] in simp)
  have push: "served L (at_resource L c path (kill c) (\<lambda>e d. let (s, d) = stamp f d in on_hub (resTree_Push L e t s) d) d)"
    if "\<And>n. sample_fine t (fst (f n))" for f t
    by (rule at) (erule served_kill, rule served_stamp [where t = t], erule found_ioD, rule that, rule p)
  have push_text: "served L (do { (s, d) \<leftarrow> stamp_text f d'; on_hub (resTree_Push L e t s) d })"
    if "found_io L c path d e d'" "text_ok s" "f = dataSample_CreateString L ts s \<or> f = dataSample_CreateJson L ts s"
      "t = IO_DATA_TYPE_STRING \<or> t = IO_DATA_TYPE_JSON" for f t e d'
    by (rule served_stamp_text [OF assms(1) found_ioD(1) [OF that(1)] that(2,4,3)]) (rule p [OF that(1)])
  show "served L (io_PushTrigger L c path ts d)" "served L (io_PushBoolean L c path ts b d)"
    "served L (io_PushNumeric L c path ts v d)"
    unfolding io_PushTrigger_def io_PushBoolean_def io_PushNumeric_def by (rule push; simp)+
  show "served L (io_PushString L c path ts s d)" if "text_ok s"
    unfolding io_PushString_def by (rule at, erule served_kill) (erule push_text [OF _ that], simp_all)
  show "served L (io_PushJson L c path ts s d)" if "text_ok s"
    unfolding io_PushJson_def
  proof (rule at, erule served_kill)
    fix e d' assume f: "found_io L c path d e d'"
    show "served L (if json_IsValid s then do { (s, d) \<leftarrow> stamp_text (dataSample_CreateJson L ts s) d';
        on_hub (resTree_Push L e IO_DATA_TYPE_JSON s) d } else Some d')"
      using push_text [OF f that, of "dataSample_CreateJson L ts s" IO_DATA_TYPE_JSON] found_ioD(1) [OF f]
      by (simp add: served_def)
  qed
qed

text \<open>Creation: both calls are one, for the type that is wanted.\<close>

definition create_call ::
  "legato \<Rightarrow> client \<Rightarrow> admin_EntryType_t \<Rightarrow> (eid \<Rightarrow> string \<Rightarrow> io_DataType_t \<Rightarrow> string \<Rightarrow> hub \<Rightarrow> (eid option \<times> hub) option) \<Rightarrow>
   string \<Rightarrow> io_DataType_t \<Rightarrow> string \<Rightarrow> daemon \<Rightarrow> (le_result_t \<times> daemon) option" where
  "create_call L c wanted get path t units d = do {
     (ns, d) \<leftarrow> hub_GetClientNamespace L c d;
     resRef \<leftarrow> find_in L ns path d;
     known \<leftarrow> (case resRef of None \<Rightarrow> Some None | Some e \<Rightarrow> existing wanted t units e (hub_of d));
     case known of
       Some result \<Rightarrow> Some (result, d)
     | None \<Rightarrow> create_io get c ns path t units d
   }"

lemma create_calls:
  "io_CreateInput L c = create_call L c ADMIN_ENTRY_TYPE_INPUT (resTree_GetInput L)"
  "io_CreateOutput L c = create_call L c ADMIN_ENTRY_TYPE_OUTPUT (resTree_GetOutput L)"
  by (simp_all add: fun_eq_iff io_CreateInput_def io_CreateOutput_def create_call_def)

text \<open>What is at a path of the client's namespace.\<close>

definition io_at :: "legato \<Rightarrow> client \<Rightarrow> string \<Rightarrow> admin_EntryType_t \<Rightarrow> io_DataType_t \<Rightarrow> string \<Rightarrow> daemon \<Rightarrow> bool" where
  "io_at L c path k t units d \<longleftrightarrow>
     (\<exists>ns e y x. contextPtr d (session c) = Some ns \<and> resTree_FindEntry L (hub_of d) ns path = Some (Some e) \<and>
        entries (hub_of d) e = Some y \<and> e_type y = k \<and> resource_at (hub_of d) e = Some x \<and>
        r_currentType x = t \<and> r_units x = units)"

lemma resource_at_reads:
  assumes "resource_at h e = Some x"
  shows "resTree_GetDataType h e = Some (r_currentType x)" "resTree_GetUnits h e = Some (r_units x)"
  using assms by (auto simp: resource_at_def resTree_GetDataType_def resTree_GetUnits_def with_resource_def res_GetDataType_def
      res_GetUnits_def split: bind_splits)

text \<open>What a call finds decides it: the same again changes nothing, anything else is refused.\<close>

lemma create_again:
  assumes "io_at L c path k t units d" "is_io k" "is_io k'"
  shows "create_call L c k' get path t' units' d =
    Some (if k' = k \<and> t' = t \<and> units' = units then LE_OK else LE_DUPLICATE, d)"
  using assms by (auto simp: io_at_def create_call_def hub_GetClientNamespace_def find_in_def existing_def is_io_def
      resTree_GetEntryType_def resource_at_reads)

lemma existing_total:
  assumes "hub_ok L h" "entries h e = Some y" "is_io wanted"
  obtains "existing wanted t units e h = Some None" "e_type y \<in> {ADMIN_ENTRY_TYPE_NAMESPACE, ADMIN_ENTRY_TYPE_PLACEHOLDER}"
  | "existing wanted t units e h = Some (Some LE_DUPLICATE)"
  | x where "existing wanted t units e h = Some (Some LE_OK)" "e_type y = wanted" "resource_at h e = Some x"
    "r_currentType x = t" "r_units x = units"
proof (cases "e_type y = wanted")
  case False
  then show thesis
    using assms(2,3) no_none_type [OF hub_okD(2) [OF assms(1)] assms(2)] that(1,2)
    by (cases "e_type y") (simp_all add: existing_def resTree_GetEntryType_def)
next
  case True
  then have "of_type h e (- {ADMIN_ENTRY_TYPE_NAMESPACE})" using assms(2,3) by (auto simp: of_type_def is_io_def)
  then have "has_resource h e" by (rule typed_resource [OF assms(1)]) simp
  then obtain r x where r: "e_resourcePtr y = Some r" "resources h r = Some x"
    using resource_live [OF assms(1)] assms(2) by (metis option.inject)
  then have x: "resource_at h e = Some x" using assms(2) by (simp add: resource_at_def)
  show thesis
  proof (cases "r_currentType x = t \<and> r_units x = units")
    case True
    then show thesis
      using that(3) [OF _ \<open>e_type y = wanted\<close> x] \<open>e_type y = wanted\<close> assms(2) resource_at_reads [OF x]
      by (simp add: existing_def resTree_GetEntryType_def)
  next
    case False
    then show thesis
      using that(2) \<open>e_type y = wanted\<close> assms(2) resource_at_reads [OF x]
      by (auto simp: existing_def resTree_GetEntryType_def)
  qed
qed

lemma create_ok:
  assumes "framework_ok L" "daemon_ok L d" "client_ok L c"
    "k = ADMIN_ENTRY_TYPE_INPUT \<and> get = resTree_GetInput L \<or> k = ADMIN_ENTRY_TYPE_OUTPUT \<and> get = resTree_GetOutput L"
  shows "\<exists>r d'. create_call L c k get path t units d = Some (r, d') \<and> daemon_ok L d' \<and>
    r \<in> {LE_OK, LE_DUPLICATE, LE_FAULT} \<and>
    (r = LE_OK \<and> length units < HUB_MAX_UNITS_BYTES \<longrightarrow> io_at L c path k t units d')"
proof -
  obtain ns d1 where ns: "hub_GetClientNamespace L c d = Some (Some ns, d1)" "daemon_ok L d1" "app_namespace (hub_of d1) ns"
    "contextPtr d1 (session c) = Some ns"
    using namespace_ok [OF assms(1-3)] by blast
  note ok = daemon_okD [OF ns(2)]
  have live: "entries (hub_of d1) ns \<noteq> None" using app_namespace_live [OF ns(3)] by (simp add: live_def)
  obtain r where r: "resTree_FindEntry L (hub_of d1) ns path = Some r" "\<forall>e. r = Some e \<longrightarrow> entries (hub_of d1) e \<noteq> None"
    using FindEntry_total [OF assms(1) ok(2) live] by blast
  have start: "create_call L c k get path t units d = do {
      known \<leftarrow> (case r of None \<Rightarrow> Some None | Some e \<Rightarrow> existing k t units e (hub_of d1));
      case known of Some result \<Rightarrow> Some (result, d1) | None \<Rightarrow> create_io get c (Some ns) path t units d1 }"
    using ns(1) r(1) by (simp add: create_call_def find_in_def)
  obtain m where m: "\<exists>x h'. get ns path t units (hub_of d1) = Some (x, h') \<and> io_promise L ns path t units k m (hub_of d1) x h'"
    using Get_io [OF assms(1) ok(2) live, of path t units] assms(4) by metis
  then obtain x h' where x: "get ns path t units (hub_of d1) = Some (x, h')" "io_promise L ns path t units k m (hub_of d1) x h'"
    by blast
  let ?d = "with_hub h' d1"
  have d2: "daemon_ok L ?d" "kept {} (hub_of d1) h'"
    using with_hub_ok [OF ns(2), of h'] x(2) ok(3) by (auto simp: io_promise_def settled_def)
  have "live h' ns" using app_namespace_live [OF app_namespace_kept [OF ns(3) d2(2)]] by simp
  then obtain nm where nm: "resTree_GetEntryName h' ns = Some nm" by (auto simp: live_def resTree_GetEntryName_def)
  have made: "\<exists>r d'. create_io get c (Some ns) path t units d1 = Some (r, d') \<and> daemon_ok L d' \<and>
    r \<in> {LE_OK, LE_DUPLICATE, LE_FAULT} \<and> (r = LE_OK \<and> length units < HUB_MAX_UNITS_BYTES \<longrightarrow> io_at L c path k t units d')"
  proof (cases x)
    case None
    then show ?thesis using x(1) nm kill_ok [OF d2(1)] by (simp add: create_io_def via_hub_def)
  next
    case (Some e)
    then have "io_at L c path k t units ?d" if "length units < HUB_MAX_UNITS_BYTES"
      using x(2) ns(4) that framework_okD(1) [OF assms(1)]
      by (auto simp: io_at_def io_promise_def io_added_def new_io_def)
    then show ?thesis using x(1) Some d2(1) by (auto simp: create_io_def via_hub_def)
  qed
  show ?thesis
  proof (cases r)
    case None
    then show ?thesis using start made by simp
  next
    case (Some e)
    then obtain y where y: "entries (hub_of d1) e = Some y" using r(2) by auto
    have k: "is_io k" using assms(4) by (auto simp: is_io_def)
    show ?thesis
    proof (rule existing_total [OF ok(2) y k, of t units])
      assume "existing k t units e (hub_of d1) = Some None"
      then show ?thesis using start made Some by simp
    next
      assume "existing k t units e (hub_of d1) = Some (Some LE_DUPLICATE)"
      then show ?thesis using start Some ns(2) by simp
    next
      fix z assume "existing k t units e (hub_of d1) = Some (Some LE_OK)" "e_type y = k" "resource_at (hub_of d1) e = Some z"
        "r_currentType z = t" "r_units z = units"
      then show ?thesis using start Some ns(2,4) r(1) y by (auto simp: io_at_def)
    qed
  qed
qed

lemma create_served:
  assumes "framework_ok L" "daemon_ok L d" "client_ok L c"
  shows "served L (map_option snd (io_CreateInput L c path t units d))"
    "served L (map_option snd (io_CreateOutput L c path t units d))"
  using create_ok [OF assms, of ADMIN_ENTRY_TYPE_INPUT "resTree_GetInput L" path t units]
    create_ok [OF assms, of ADMIN_ENTRY_TYPE_OUTPUT "resTree_GetOutput L" path t units]
  by (auto simp: create_calls served_def)

lemma example_served:
  assumes "framework_ok L" "daemon_ok L d" "client_ok L c" "text_ok example"
  shows "served L (io_SetJsonExample L c path example d)"
  unfolding io_SetJsonExample_def
proof (rule at_resource_cases [OF assms(1-3), where P = "served L"], simp add: served_def)
  fix e d' assume f: "found_io L c path d e d'"
  have "served L (do { (s, d) \<leftarrow> stamp_text (dataSample_CreateJson L (dbl_of_int 0) example) d'; on_hub (resTree_SetJsonExample e s) d })"
    by (rule served_stamp_text [where t = IO_DATA_TYPE_JSON and ts = "dbl_of_int 0", OF assms(1) found_ioD(1) [OF f] assms(4)])
      (simp, simp, rule example_well, assumption, subst entries_has(1), assumption, rule found_ioD(5) [OF f], assumption)
  then show "served L (do {
        t \<leftarrow> resTree_GetEntryType (hub_of d') e;
        if t \<noteq> ADMIN_ENTRY_TYPE_INPUT then Some d'
        else do {
          dt \<leftarrow> resTree_GetDataType (hub_of d') e;
          if dt \<noteq> IO_DATA_TYPE_JSON then Some d'
          else do {
            (sampleRef, d) \<leftarrow> stamp_text (dataSample_CreateJson L (dbl_of_int 0) example) d';
            on_hub (resTree_SetJsonExample e sampleRef) d
          }
        }
      })"
    using found_types [OF f] servedI [OF refl found_ioD(1) [OF f]] by auto
qed

text \<open>The leaf that is deleted is nobody's namespace.\<close>

lemma delete_served:
  assumes "framework_ok L" "daemon_ok L d" "client_ok L c" "path \<noteq> []" "leaf_at L c path d"
  shows "served L (io_DeleteResource L c path d)"
  unfolding io_DeleteResource_def
proof (rule at_resource_cases [OF assms(1-3), where P = "served L"], simp add: served_def)
  fix e d' assume f: "found_io L c path d e d'"
  let ?h = "hub_of d'"
  note ok = daemon_okD [OF found_ioD(1) [OF f]]
  obtain ns where ns: "app_namespace ?h ns" "resTree_FindEntry L ?h ns path = Some (Some e)" using f by (auto simp: found_io_def)
  note tree = hub_okD(1) [OF ok(2)]
  have live: "entries ?h ns \<noteq> None" using app_namespace_live [OF ns(1)] by (simp add: live_def)
  obtain y p where y: "entries ?h e = Some y" "e_parentPtr y = Some p" "ns \<le> p"
    by (rule found_below [OF tree ns(2) assms(4) live])
  have leaf: "e_childList y = []"
    using assms(5) f y(1) by (auto simp: leaf_at_def found_io_def childless_def)
  have "RootPtr ?h < ns"
  proof -
    obtain a q w where a: "entries ?h ns = Some a" "e_parentPtr a = Some q" "entries ?h q = Some w" "e_parentPtr w = Some (RootPtr ?h)"
      using ns(1) by (auto simp: app_namespace_def)
    then have "q < ns" "RootPtr ?h < q"
      using tree_okD(3) [OF tree a(1)] tree_okD(3) [OF tree a(3)] by (auto simp: parent_ok_def split: if_splits)
    then show ?thesis by simp
  qed
  then have "inner_leaf ?h e" using y leaf by (simp add: inner_leaf_def)
  then have "goes_well L ?h {e} (resTree_DeleteIO L e ?h)"
    by (rule delete_leaf [OF assms(1) ok(1) found_ioD(4) [OF f]])
  then obtain h' where h': "resTree_DeleteIO L e ?h = Some h'" "settled L h'" "kept {e} ?h h'" by (rule goes_wellE)
  have "app_namespace h' b" if b: "contextPtr d' s = Some b" for s b
  proof (rule app_namespace_kept [OF ok(4) [OF b] h'(3)])
    show "b \<notin> {e}" using below_namespace [OF tree ns(1) _ ns(2) assms(4)] ok(4) [OF b] by auto
    fix v q assume v: "entries ?h b = Some v" "e_parentPtr v = Some q"
    then obtain w where "entries ?h q = Some w" "b \<in> set (e_childList w)"
      using tree_okD(3) [OF tree v(1)] by (auto simp: parent_ok_def split: if_splits)
    then show "q \<notin> {e}" using y(1) leaf by auto
  qed
  then have "daemon_ok L (with_hub h' d')" using h'(2) by (simp add: daemon_ok_def)
  then show "served L (on_hub (resTree_DeleteIO L e) d')" using h'(1) by (simp add: on_hub_def served_def)
qed

lemma option_served:
  assumes "framework_ok L" "daemon_ok L d" "client_ok L c"
  shows "served L (io_MarkOptional L c path d)"
  unfolding io_MarkOptional_def
proof (rule at_resource_cases [OF assms(1-3), where P = "served L"], erule served_kill)
  fix e d' assume f: "found_io L c path d e d'"
  have "served L (on_hub (resTree_MarkOptional e) d')"
    by (rule served_on_hub [of _ _ "resTree_MarkOptional e", OF found_ioD(1) [OF f] optional_well [OF found_ioD(2,4) [OF f]]])
  then show "served L (do {
        t \<leftarrow> resTree_GetEntryType (hub_of d') e;
        if t \<noteq> ADMIN_ENTRY_TYPE_OUTPUT then kill c d' else on_hub (resTree_MarkOptional e) d'
      })"
    using found_types [OF f] served_kill [OF found_ioD(1) [OF f]] by auto
qed

lemma if_no_default_served:
  assumes "framework_ok L" "daemon_ok L d" "client_ok L c" "\<And>e d'. found_io L c path d e d' \<Longrightarrow> served L (set_it e d')"
  shows "served L (if_no_default L c path t set_it d)"
  unfolding if_no_default_def
proof (rule at_resource_cases [OF assms(1-3), where P = "served L"], erule served_kill)
  fix e d' assume f: "found_io L c path d e d'"
  show "served L (do {
        t' \<leftarrow> resTree_GetDataType (hub_of d') e;
        if t' \<noteq> t then kill c d'
        else do {
          has \<leftarrow> resTree_HasDefault (hub_of d') e;
          if has then Some d' else set_it e d'
        }
      })"
    using found_types [OF f] served_kill [OF found_ioD(1) [OF f]] servedI [OF refl found_ioD(1) [OF f]] assms(4) [OF f] by auto
qed

lemma default_served:
  assumes "framework_ok L" "daemon_ok L d" "client_ok L c"
  shows "served L (io_SetBooleanDefault L c path b d)" "served L (io_SetNumericDefault L c path v d)"
    "text_ok s \<Longrightarrow> served L (io_SetStringDefault L c path s d)" "text_ok s \<Longrightarrow> served L (io_SetJsonDefault L c path s d)"
proof -
  note at = if_no_default_served [OF assms, of path]
  have p: "goes_well L h {} (resTree_SetDefault L e t x h)"
    if "found_io L c path d e d'" "settled L h" "entries h = entries (hub_of d')" "sample_fine t x" for e d' h t x
    by (rule default_well(1) [OF assms(1) that(2) _ that(4)]) (use found_ioD(5) [OF that(1)] entries_has(1) [OF that(3)] in simp)
  have texts: "served L (do { (s, d) \<leftarrow> stamp_text f d'; on_hub (resTree_SetDefault L e t s) d })"
    if "found_io L c path d e d'" "text_ok s" "f = dataSample_CreateString L ts s \<or> f = dataSample_CreateJson L ts s"
      "t = IO_DATA_TYPE_STRING \<or> t = IO_DATA_TYPE_JSON" for f t e d' ts
    by (rule served_stamp_text [OF assms(1) found_ioD(1) [OF that(1)] that(2,4,3)]) (rule p [OF that(1)])
  show "served L (io_SetBooleanDefault L c path b d)" unfolding io_SetBooleanDefault_def
    by (rule at) (rule served_stamp [where t = IO_DATA_TYPE_BOOLEAN], erule found_ioD, simp, rule p)
  show "served L (io_SetNumericDefault L c path v d)" unfolding io_SetNumericDefault_def
    by (rule at) (rule served_stamp [where t = IO_DATA_TYPE_NUMERIC], erule found_ioD, simp, rule p)
  show "served L (io_SetStringDefault L c path s d)" if "text_ok s"
    unfolding io_SetStringDefault_def by (rule at) (erule texts [where ts = "dbl_of_int 0", OF _ that], simp_all)
  show "served L (io_SetJsonDefault L c path s d)" if "text_ok s"
    unfolding io_SetJsonDefault_def
  proof (rule at)
    fix e d' assume f: "found_io L c path d e d'"
    show "served L (if json_IsValid s then do { (s, d) \<leftarrow> stamp_text (dataSample_CreateJson L (dbl_of_int 0) s) d';
        on_hub (resTree_SetDefault L e IO_DATA_TYPE_JSON s) d } else kill c d')"
      using texts [where ts = "dbl_of_int 0" and t = IO_DATA_TYPE_JSON, OF f that, of "dataSample_CreateJson L (dbl_of_int 0) s"] served_kill [OF found_ioD(1) [OF f]] by simp
  qed
qed

text \<open>Handlers.\<close>

lemma handler_Call_ok:
  assumes "daemon_ok L d" "sample_fine t s"
  shows "served L (on_hub (handler_Call L n t s) d)"
proof (cases "handlers (hub_of d) n")
  case None
  then show ?thesis using assms(1) by (simp add: handler_Call_def on_hub_def served_def)
next
  case (Some hp)
  let ?h = "(hub_of d)\<lparr>events := events (hub_of d) @ told L t s hp\<rparr>"
  have "sample_ok t s" using assms(2) by (simp add: sample_fine_def)
  then have c: "handler_Call L n t s (hub_of d) = Some ?h" using Some by (simp add: handler_Call_def CallPushHandler_told)
  have "hub_ok L ?h = hub_ok L (hub_of d)" by (rule hub_cong) simp_all
  then have "settled L ?h" using daemon_okD(2,3) [OF assms(1)] by (simp add: settled_def owned_def)
  then show ?thesis using with_hub_ok [OF assms(1), of ?h] c by (simp add: on_hub_def served_def kept_same)
qed

lemma AddPushHandler_ok:
  assumes "framework_ok L" "daemon_ok L d" "client_ok L c"
  shows "served L (map_option snd (io_AddPushHandler L c path t callbackPtr context d))"
proof -
  obtain ns d1 where ns: "hub_GetClientNamespace L c d = Some (Some ns, d1)" "daemon_ok L d1" "app_namespace (hub_of d1) ns"
    using namespace_ok [OF assms(1-3)] by blast
  note ok = daemon_okD [OF ns(2)]
  have live: "entries (hub_of d1) ns \<noteq> None" using app_namespace_live [OF ns(3)] by (simp add: live_def)
  then obtain nm where nm: "resTree_GetEntryName (hub_of d1) ns = Some nm" by (auto simp: resTree_GetEntryName_def)
  obtain r where r: "resTree_FindEntry L (hub_of d1) ns path = Some r" "\<forall>e. r = Some e \<longrightarrow> entries (hub_of d1) e \<noteq> None"
    using FindEntry_total [OF assms(1) ok(2) live] by blast
  have k: "served L (Some (LE_KILL_CLIENT c d1))" using kill_ok [OF ns(2)] by (simp add: served_def)
  show ?thesis
  proof (cases r)
    case None
    then show ?thesis using ns(1) r(1) nm k by (simp add: io_AddPushHandler_def)
  next
    case (Some e)
    then obtain y where y: "entries (hub_of d1) e = Some y" using r(2) by auto
    show ?thesis
    proof (cases "is_io (e_type y)")
      case False
      then show ?thesis using ns(1) r(1) nm k Some y by (simp add: io_AddPushHandler_def resTree_GetEntryType_def)
    next
      case True
      then have "of_type (hub_of d1) e {ADMIN_ENTRY_TYPE_INPUT, ADMIN_ENTRY_TYPE_OUTPUT}" using y by (simp add: of_type_def is_io_def)
      then have has: "has_resource (hub_of d1) e" by (rule typed_resource [OF ok(2)]) simp
      obtain n h2 where h2: "via_hub (resTree_AddPushHandler e t callbackPtr context) d1 = Some (n, with_hub h2 d1)"
        "daemon_ok L (with_hub h2 d1)" "resTree_AddPushHandler e t callbackPtr context (hub_of d1) = Some (n, h2)"
        using via_hub_ok [of L d1 "resTree_AddPushHandler e t callbackPtr context", OF ns(2) listen_well [OF ok(1) has]] by blast
      let ?d = "with_hub h2 d1"
      note ok2 = daemon_okD [OF h2(2)]
      have "entries h2 = entries (hub_of d1)"
        using h2(3) by (auto simp: resTree_AddPushHandler_def with_resource_def res_AddPushHandler_def handler_Add_def
            Let_def split: bind_splits if_splits option.splits)
      then have "has_resource (hub_of ?d) e" using has by (simp add: has_resource_def)
      then obtain v q x where v: "entries (hub_of ?d) e = Some v" "e_resourcePtr v = Some q" "resources (hub_of ?d) q = Some x"
        using resource_live [OF ok2(2)] by metis
      have fine: "typed (r_currentType x) (r_currentValue x)"
        using values_okD [OF hub_okD(5) [OF ok2(2)] v(3)] by (simp add: value_ok_def)
      have get: "resTree_GetCurrentValue h2 e = Some (r_currentValue x)" "resTree_GetDataType h2 e = Some (r_currentType x)"
        using v by (simp_all add: resTree_GetCurrentValue_def res_GetCurrentValue_def resTree_GetDataType_def
            with_resource_def res_GetDataType_def)
      have eq: "io_AddPushHandler L c path t callbackPtr context d = do {
            d \<leftarrow> (case r_currentValue x of None \<Rightarrow> Some ?d
               | Some s \<Rightarrow> on_hub (handler_Call L n (r_currentType x) s) ?d);
            Some (Some n, d) }"
        using ns(1) r(1) Some y True h2(1) get by (auto simp: io_AddPushHandler_def resTree_GetEntryType_def split: option.splits)
      show ?thesis
      proof (cases "r_currentValue x")
        case None
        then show ?thesis using eq h2(2) by (simp add: served_def)
      next
        case (Some s)
        then have "served L (on_hub (handler_Call L n (r_currentType x) s) ?d)"
          using handler_Call_ok [OF h2(2)] fine by simp
        then show ?thesis using eq Some by (auto simp: served_def)
      qed
    qed
  qed
qed

lemma handler_served:
  assumes "framework_ok L" "daemon_ok L d" "client_ok L c"
  shows "served L (map_option snd (io_add_handler L c path t callbackPtr context d))"
    "removable (hub_of d) n \<Longrightarrow> served L (io_remove_handler t n d)"
  using AddPushHandler_ok [OF assms, of path _ callbackPtr "context"]
    served_on_hub [of L d "handler_Remove n", OF assms(2) unlisten_well [OF daemon_okD(1) [OF assms(2)]]]
  by (cases t; simp add: io_AddTriggerPushHandler_def io_AddBooleanPushHandler_def io_AddNumericPushHandler_def
      io_AddStringPushHandler_def io_AddJsonPushHandler_def io_RemoveTriggerPushHandler_def io_RemoveBooleanPushHandler_def
      io_RemoveNumericPushHandler_def io_RemoveStringPushHandler_def io_RemoveJsonPushHandler_def)+

text \<open>A fetch of the current value with a type.\<close>

definition fetch_typed ::
  "client \<Rightarrow> io_DataType_t \<Rightarrow> (dataSample_Ref_t \<Rightarrow> 'b option) \<Rightarrow> (dataSample_Ref_t \<Rightarrow> 'b \<Rightarrow> le_result_t \<times> (double \<times> 'a) option) \<Rightarrow>
   eid \<Rightarrow> daemon \<Rightarrow> 'a fetched option" where
  "fetch_typed c t get reply e d = do {
     (v, d) \<leftarrow> GetCurrentValue c e t d;
     case v of None \<Rightarrow> unavailable d | Some s \<Rightarrow> do { x \<leftarrow> get s; Some (reply s x, d) }
   }"

lemma fetch_typed_served:
  assumes "found_io L c path d e d'" "\<And>s. sample_ok t s \<Longrightarrow> \<exists>x. get s = Some x"
  shows "served L (map_option snd (fetch_typed c t get reply e d'))"
proof (rule found_reads [OF assms(1)])
  have k: "served L (Some (LE_KILL_CLIENT c d'))" "served L (Some d')"
    using kill_ok found_ioD(1) [OF assms(1)] by (auto simp: served_def)
  fix y r x assume x: "resTree_GetDataType (hub_of d') e = Some (r_currentType x)"
    "resTree_GetCurrentValue (hub_of d') e = Some (r_currentValue x)" "typed (r_currentType x) (r_currentValue x)"
  have "\<exists>z. get s = Some z" if "r_currentValue x = Some s" "r_currentType x = t" for s
    using assms(2) x(3) that by (auto simp: sample_fine_def)
  then show ?thesis using x(1,2) k
    by (fastforce simp: fetch_typed_def GetCurrentValue_def unavailable_def split: option.split)
qed

lemma fetches_typed:
  "io_GetBoolean L c path = at_resource L c path not_found
     (fetch_typed c IO_DATA_TYPE_BOOLEAN dataSample_GetBoolean (\<lambda>s x. (LE_OK, Some (dataSample_GetTimestamp s, x))))"
  "io_GetNumeric L c path = at_resource L c path not_found
     (fetch_typed c IO_DATA_TYPE_NUMERIC dataSample_GetNumeric (\<lambda>s x. (LE_OK, Some (dataSample_GetTimestamp s, x))))"
  "io_GetString L c path n = at_resource L c path not_found
     (fetch_typed c IO_DATA_TYPE_STRING dataSample_GetString
       (\<lambda>s str. (fst (utf8_Copy L str n), Some (dataSample_GetTimestamp s, snd (utf8_Copy L str n)))))"
  by (simp_all add: io_GetBoolean_def io_GetNumeric_def io_GetString_def fetch_typed_def [abs_def] Let_def split_def
      cong del: option.case_cong_weak)

lemma sample_gets:
  "sample_ok IO_DATA_TYPE_BOOLEAN s \<Longrightarrow> \<exists>x. dataSample_GetBoolean s = Some x"
  "sample_ok IO_DATA_TYPE_NUMERIC s \<Longrightarrow> \<exists>x. dataSample_GetNumeric s = Some x"
  "sample_ok IO_DATA_TYPE_STRING s \<Longrightarrow> \<exists>x. dataSample_GetString s = Some x"
  by (auto simp: sample_ok_def value_of_type_def dataSample_GetBoolean_def dataSample_GetNumeric_def dataSample_GetString_def
      split: sample_value.splits)

lemma fetch_served:
  assumes "framework_ok L" "daemon_ok L d" "client_ok L c"
  shows "served L (map_option snd (io_GetTimestamp L c path d))" "served L (map_option snd (io_GetBoolean L c path d))"
    "served L (map_option snd (io_GetNumeric L c path d))" "served L (map_option snd (io_GetString L c path n d))"
    "served L (map_option snd (io_GetJson L c path n d))"
proof -
  have at: "served L (map_option snd (at_resource L c path not_found found d))"
    if "\<And>e d'. found_io L c path d e d' \<Longrightarrow> served L (map_option snd (found e d'))" for found :: "eid \<Rightarrow> daemon \<Rightarrow> 'z fetched option"
    by (rule at_resource_cases [OF assms, where P = "\<lambda>m. served L (map_option snd m)"])
      (simp add: not_found_def served_def, rule that)
  have k: "served L (Some (LE_KILL_CLIENT c d'))" "served L (Some d')" if "found_io L c path d e d'" for e d'
    using kill_ok found_ioD(1) [OF that] by (auto simp: served_def)
  show "served L (map_option snd (io_GetTimestamp L c path d))" unfolding io_GetTimestamp_def
  proof (rule at)
    fix e d' assume f: "found_io L c path d e d'"
    show "served L (map_option snd (do {
        v \<leftarrow> resTree_GetCurrentValue (hub_of d') e;
        case v of None \<Rightarrow> unavailable d' | Some s \<Rightarrow> Some ((LE_OK, Some (dataSample_GetTimestamp s, ())), d') }))"
      by (rule found_reads [OF f]) (use k [OF f] in \<open>simp add: unavailable_def split: option.split\<close>)
  qed
  show "served L (map_option snd (io_GetBoolean L c path d))" "served L (map_option snd (io_GetNumeric L c path d))"
    "served L (map_option snd (io_GetString L c path n d))"
    unfolding fetches_typed by (rule at, erule fetch_typed_served, erule sample_gets)+
  show "served L (map_option snd (io_GetJson L c path n d))" unfolding io_GetJson_def
  proof (rule at)
    fix e d' assume f: "found_io L c path d e d'"
    show "served L (map_option snd (do {
        v \<leftarrow> resTree_GetCurrentValue (hub_of d') e;
        case v of None \<Rightarrow> unavailable d'
        | Some s \<Rightarrow> do {
            t \<leftarrow> resTree_GetDataType (hub_of d') e;
            (r, x) \<leftarrow> dataSample_ConvertToJson L s t n;
            Some ((r, Some (dataSample_GetTimestamp s, x)), d')
          } }))"
    proof (rule found_reads [OF f])
      fix y r x assume x: "resTree_GetDataType (hub_of d') e = Some (r_currentType x)"
        "resTree_GetCurrentValue (hub_of d') e = Some (r_currentValue x)" "typed (r_currentType x) (r_currentValue x)"
      have "\<exists>z. dataSample_ConvertToJson L s (r_currentType x) n = Some z" if "r_currentValue x = Some s" for s
        by (rule ConvertToJson_defined) (use x(3) that in \<open>simp add: sample_fine_def\<close>)
      then show ?thesis using x(1,2) k [OF f] by (fastforce simp: unavailable_def split: option.split prod.split)
    qed
  qed
qed

end
