(* ===== verification/IoCalls.thy ===== *)
theory IoCalls
  imports IoSpec
begin

text \<open>
  Every call of the I/O API is served: the handlers for the start and the end of updates, and all calls
  together.
\<close>

subsection \<open>Handlers for updates\<close>

text \<open>Handler references only grow.\<close>

lemma reference_ok: "hub_ok L h \<Longrightarrow> hub_ok L (h\<lparr>nextHandler := Suc (nextHandler h)\<rparr>)"
proof -
  assume a: "hub_ok L h"
  let ?h = "h\<lparr>nextHandler := Suc (nextHandler h)\<rparr>"
  have f: "entries ?h = entries h" "RootPtr ?h = RootPtr h" "nextEntry ?h = nextEntry h" "resources ?h = resources h"
    "handlers ?h = handlers h" "nextRes ?h = nextRes h" "nextBuff ?h = nextBuff h" by simp_all
  have g: "attached ?h = attached h" "entry_ok ?h = entry_ok h" "get_obs ?h = get_obs h" "dests ?h = dests h"
    "source ?h = source h" "heard ?h = heard h"
    unfolding attached_def [abs_def] entry_ok_def [abs_def] get_obs_def [abs_def] dests_def [abs_def]
      source_def [abs_def] heard_def [abs_def] f by (rule refl)+
  have "numbered ?h" using hub_okD(4) [OF a] unfolding numbered_def g f by (auto simp: less_Suc_eq)
  then show ?thesis
    using a tree_cong [OF f(1-3)] g f by (simp add: hub_ok_def attached_ok_def routes_ok_def links_ok_def values_ok_def)
qed

lemma update_handler_served:
  assumes "daemon_ok L d"
  shows "daemon_ok L (snd (io_AddUpdateStartEndHandler callbackPtr context d))"
    "n \<in> fst ` set (UpdateStartEndHandlerList d) \<Longrightarrow> served L (io_RemoveUpdateStartEndHandler n d)"
proof -
  let ?h = "(hub_of d)\<lparr>nextHandler := Suc (nextHandler (hub_of d))\<rparr>"
  have "settled L ?h"
    using reference_ok [OF daemon_okD(2) [OF assms]] owned_cong [OF daemon_okD(3) [OF assms], of ?h] by (simp add: settled_def)
  then show "daemon_ok L (snd (io_AddUpdateStartEndHandler callbackPtr context d))"
    using with_hub_ok [OF assms, of ?h] by (simp add: kept_same io_AddUpdateStartEndHandler_def Let_def daemon_ok_def)
  show "served L (io_RemoveUpdateStartEndHandler n d)" if "n \<in> fst ` set (UpdateStartEndHandlerList d)"
    using assms that by (simp add: io_RemoveUpdateStartEndHandler_def le_assert_def served_def daemon_ok_def)
qed

text \<open>The handlers hear of the start and the end, which are events only.\<close>

lemma update_events:
  "\<exists>evs. fold (\<lambda>(_, callbackPtr, context). add_event (UpdateStartEnd callbackPtr context b)) hs h = h\<lparr>events := events h @ evs\<rparr>"
proof (induction hs arbitrary: h)
  case Nil
  show ?case by (intro exI [of _ "[]"]) simp
next
  case (Cons x hs)
  obtain n cb ctx where x: "x = (n, cb, ctx)" by (cases x)
  obtain evs where "fold (\<lambda>(_, cb, ctx). add_event (UpdateStartEnd cb ctx b)) hs (add_event (UpdateStartEnd cb ctx b) h) =
      (add_event (UpdateStartEnd cb ctx b) h)\<lparr>events := events (add_event (UpdateStartEnd cb ctx b) h) @ evs\<rparr>"
    using Cons.IH by blast
  then show ?case by (intro exI [of _ "UpdateStartEnd cb ctx b # evs"]) (simp add: x add_event_def [abs_def])
qed

lemma update_told_ok: "daemon_ok L d \<Longrightarrow> daemon_ok L (CallUpdateStartEndHandlers b d)"
proof -
  assume a: "daemon_ok L d"
  obtain evs where e: "fold (\<lambda>(_, cb, ctx). add_event (UpdateStartEnd cb ctx b)) (UpdateStartEndHandlerList d) (hub_of d) =
      (hub_of d)\<lparr>events := events (hub_of d) @ evs\<rparr>"
    using update_events by blast
  let ?h = "(hub_of d)\<lparr>events := events (hub_of d) @ evs\<rparr>"
  have "hub_ok L ?h = hub_ok L (hub_of d)" by (rule hub_cong) simp_all
  then have "settled L ?h" using daemon_okD(2,3) [OF a] by (simp add: settled_def owned_def)
  then show ?thesis using with_hub_ok [OF a, of ?h] e by (simp add: CallUpdateStartEndHandlers_def kept_same)
qed

subsection \<open>All calls\<close>

lemma io_served:
  assumes "framework_ok L" "daemon_ok L d" "client_ok L c" "io_proper L c d call"
  shows "served L (io_serve L c call d)"
proof (cases call)
  case (AddUpdateStartEndHandler callbackPtr ctx)
  then show ?thesis using update_handler_served(1) [OF assms(2)] by (simp add: served_def)
next
  case (RemoveUpdateStartEndHandler n)
  then show ?thesis using update_handler_served(2) [OF assms(2)] assms(4) by simp
qed (use assms(4) in \<open>simp_all add: create_served [OF assms(1-3)] example_served [OF assms(1-3)] delete_served [OF assms(1-3)]
    push_served [OF assms(1-3)] handler_served [OF assms(1-3)] option_served [OF assms(1-3)] default_served [OF assms(1-3)]
    fetch_served [OF assms(1-3)]\<close>)

end
