(* ===== verification/QueryService.thy ===== *)
theory QueryService
  imports IoService
begin

text \<open>
  The query API of the Data Hub, \<open>src/apps/DataHub/components/dataHub/queryService.c\<close>: reading the
  buffers of observations and their statistics, the values and properties of any resource, and
  handlers for what is pushed anywhere. The result of a fetch is its code with what was written to
  the client's variables, if anything was. Without a context pointer a session gets one, and with it
  the namespace of the client, as in the I/O API.
\<close>

subsection \<open>Buffers of observations\<close>

text \<open>\<open>GoToEntry\<close> skips a slash at the start of a path, so that the absolute path is found from the root.\<close>

definition query_FindObservation :: "legato \<Rightarrow> string \<Rightarrow> hub \<Rightarrow> eid option option" where
  "query_FindObservation L path h = do {
     entry \<leftarrow>
       (if strncmp_eq path ''/obs/'' 5 then resTree_FindEntry L h (resTree_GetRoot h) path
        else if char_at path = Some (CHR ''/'') then Some None
        else do {
          obsNamespace \<leftarrow> resTree_FindEntry L h (resTree_GetRoot h) ''obs'';
          case obsNamespace of None \<Rightarrow> Some None | Some ns \<Rightarrow> resTree_FindEntry L h ns path
        });
     case entry of
       None \<Rightarrow> Some None
     | Some e \<Rightarrow> do {
         t \<leftarrow> resTree_GetEntryType h e;
         Some (if t \<noteq> ADMIN_ENTRY_TYPE_OBSERVATION then None else Some e)
       }
   }"

text \<open>
  The start of every read: the observation, and a start time that is not negative; otherwise the
  client is killed, and \<open>LE_OK\<close> returned with nothing written.
\<close>

definition at_observation ::
  "legato \<Rightarrow> client \<Rightarrow> string \<Rightarrow> double \<Rightarrow>
   (eid \<Rightarrow> daemon \<Rightarrow> ((le_result_t \<times> 'a option) \<times> daemon) option) \<Rightarrow>
   daemon \<Rightarrow> ((le_result_t \<times> 'a option) \<times> daemon) option" where
  "at_observation L c obsPath startAfter act d = do {
     entryRef \<leftarrow> query_FindObservation L obsPath (hub_of d);
     case entryRef of
       None \<Rightarrow> Some ((LE_NOT_FOUND, None), d)
     | Some e \<Rightarrow>
         if dbl_lt startAfter (dbl_of_int 0) then Some ((LE_OK, None), LE_KILL_CLIENT c d)
         else act e d
   }"

definition query_ReadBufferJson ::
  "legato \<Rightarrow> client \<Rightarrow> string \<Rightarrow> double \<Rightarrow> nat \<Rightarrow> bool \<Rightarrow> nat \<Rightarrow> nat \<Rightarrow> write_result list \<Rightarrow>
   daemon \<Rightarrow> (le_result_t \<times> daemon) option" where
  "query_ReadBufferJson L c obsPath startAfter outputFile nonblock completionFuncPtr context results d = do {
     ((r, _), d) \<leftarrow> at_observation L c obsPath startAfter
       (\<lambda>e d. do {
          d \<leftarrow> on_hub (resTree_ReadBufferJson L e startAfter outputFile nonblock completionFuncPtr context results) d;
          Some ((LE_OK, None :: unit option), d)
        }) d;
     Some (r, d)
   }"

text \<open>The sample of a buffer that a read asks for, and what is made of it.\<close>

definition buffered ::
  "legato \<Rightarrow> eid \<Rightarrow> double \<Rightarrow> (dataSample_Ref_t \<Rightarrow> hub \<Rightarrow> (le_result_t \<times> 'a option) option) \<Rightarrow>
   daemon \<Rightarrow> ((le_result_t \<times> 'a option) \<times> daemon) option" where
  "buffered L e startAfter use d = do {
     (sample, d) \<leftarrow> via_hub (resTree_FindBufferedSampleAfter L e startAfter) d;
     case sample of
       None \<Rightarrow> Some ((LE_NOT_FOUND, None), d)
     | Some s \<Rightarrow> do { x \<leftarrow> use s (hub_of d); Some (x, d) }
   }"

definition query_ReadBufferSampleTimestamp ::
  "legato \<Rightarrow> client \<Rightarrow> string \<Rightarrow> double \<Rightarrow> daemon \<Rightarrow> unit fetched option" where
  "query_ReadBufferSampleTimestamp L c obsPath startAfter = at_observation L c obsPath startAfter
     (\<lambda>e. buffered L e startAfter (\<lambda>s _. Some (LE_OK, Some (dataSample_GetTimestamp s, ()))))"

definition query_ReadBufferSampleBoolean ::
  "legato \<Rightarrow> client \<Rightarrow> string \<Rightarrow> double \<Rightarrow> daemon \<Rightarrow> bool fetched option" where
  "query_ReadBufferSampleBoolean L c obsPath startAfter = at_observation L c obsPath startAfter
     (\<lambda>e d. do {
        t \<leftarrow> resTree_GetDataType (hub_of d) e;
        if t \<noteq> IO_DATA_TYPE_BOOLEAN then not_found d
        else buffered L e startAfter
               (\<lambda>s _. do { x \<leftarrow> dataSample_GetBoolean s; Some (LE_OK, Some (dataSample_GetTimestamp s, x)) }) d
      })"

definition query_ReadBufferSampleNumeric ::
  "legato \<Rightarrow> client \<Rightarrow> string \<Rightarrow> double \<Rightarrow> daemon \<Rightarrow> double fetched option" where
  "query_ReadBufferSampleNumeric L c obsPath startAfter = at_observation L c obsPath startAfter
     (\<lambda>e d. do {
        t \<leftarrow> resTree_GetDataType (hub_of d) e;
        if t \<noteq> IO_DATA_TYPE_NUMERIC then not_found d
        else buffered L e startAfter
               (\<lambda>s _. do { x \<leftarrow> dataSample_GetNumeric s; Some (LE_OK, Some (dataSample_GetTimestamp s, x)) }) d
      })"

text \<open>The sample is converted as if it had the data type the resource has now.\<close>

definition query_ReadBufferSampleString ::
  "legato \<Rightarrow> client \<Rightarrow> string \<Rightarrow> double \<Rightarrow> nat \<Rightarrow> daemon \<Rightarrow> string fetched option" where
  "query_ReadBufferSampleString L c obsPath startAfter valueSize = at_observation L c obsPath startAfter
     (\<lambda>e. buffered L e startAfter
        (\<lambda>s h. do {
           t \<leftarrow> resTree_GetDataType h e;
           (r, x) \<leftarrow> dataSample_ConvertToString L s t valueSize;
           Some (r, Some (dataSample_GetTimestamp s, x))
         }))"

definition query_ReadBufferSampleJson ::
  "legato \<Rightarrow> client \<Rightarrow> string \<Rightarrow> double \<Rightarrow> nat \<Rightarrow> daemon \<Rightarrow> string fetched option" where
  "query_ReadBufferSampleJson L c obsPath startAfter valueSize = at_observation L c obsPath startAfter
     (\<lambda>e. buffered L e startAfter
        (\<lambda>s h. do {
           t \<leftarrow> resTree_GetDataType h e;
           (r, x) \<leftarrow> dataSample_ConvertToJson L s t valueSize;
           Some (r, Some (dataSample_GetTimestamp s, x))
         }))"

text \<open>Statistics: not a number where there is no observation.\<close>

definition statistic ::
  "legato \<Rightarrow> string \<Rightarrow> (eid \<Rightarrow> hub \<Rightarrow> (double \<times> hub) option) \<Rightarrow> daemon \<Rightarrow> (double \<times> daemon) option" where
  "statistic L obsPath query d = do {
     entryRef \<leftarrow> query_FindObservation L obsPath (hub_of d);
     case entryRef of None \<Rightarrow> Some (NAN, d) | Some e \<Rightarrow> via_hub (query e) d
   }"

definition query_GetMin :: "legato \<Rightarrow> string \<Rightarrow> double \<Rightarrow> daemon \<Rightarrow> (double \<times> daemon) option" where
  "query_GetMin L obsPath startTime = statistic L obsPath (\<lambda>e. resTree_QueryMin L e startTime)"

definition query_GetMax :: "legato \<Rightarrow> string \<Rightarrow> double \<Rightarrow> daemon \<Rightarrow> (double \<times> daemon) option" where
  "query_GetMax L obsPath startTime = statistic L obsPath (\<lambda>e. resTree_QueryMax L e startTime)"

definition query_GetMean :: "legato \<Rightarrow> string \<Rightarrow> double \<Rightarrow> daemon \<Rightarrow> (double \<times> daemon) option" where
  "query_GetMean L obsPath startTime = statistic L obsPath (\<lambda>e. resTree_QueryMean L e startTime)"

definition query_GetStdDev :: "legato \<Rightarrow> string \<Rightarrow> double \<Rightarrow> daemon \<Rightarrow> (double \<times> daemon) option" where
  "query_GetStdDev L obsPath startTime = statistic L obsPath (\<lambda>e. resTree_QueryStdDev L e startTime)"

subsection \<open>Resources\<close>

text \<open>
  An absolute path leads to any entry; a relative one only to resources in the namespace of the
  client.
\<close>

definition query_FindResource :: "legato \<Rightarrow> client \<Rightarrow> string \<Rightarrow> daemon \<Rightarrow> (eid option \<times> daemon) option" where
  "query_FindResource L c path d =
     (if char_at path = Some (CHR ''/'') then do {
        entryRef \<leftarrow> resTree_FindEntryAtAbsolutePath L (hub_of d) path;
        Some (entryRef, d)
      }
      else do {
        (ns, d) \<leftarrow> hub_GetClientNamespace L c d;
        entryRef \<leftarrow> find_in L ns path d;
        case entryRef of
          None \<Rightarrow> Some (None, d)
        | Some e \<Rightarrow> do {
            isres \<leftarrow> resTree_IsResource (hub_of d) e;
            Some (if isres then Some e else None, d)
          }
      })"

text \<open>What the readers of a resource share: their two error codes.\<close>

definition read_resource ::
  "legato \<Rightarrow> client \<Rightarrow> string \<Rightarrow> (eid \<Rightarrow> hub \<Rightarrow> (le_result_t \<times> 'a option) option) \<Rightarrow>
   daemon \<Rightarrow> ((le_result_t \<times> 'a option) \<times> daemon) option" where
  "read_resource L c path fetch d = do {
     (entryRef, d) \<leftarrow> query_FindResource L c path d;
     case entryRef of
       None \<Rightarrow> Some ((LE_NOT_FOUND, None), d)
     | Some e \<Rightarrow> do {
         isres \<leftarrow> resTree_IsResource (hub_of d) e;
         if \<not> isres then Some ((LE_UNSUPPORTED, None), d)
         else do { x \<leftarrow> fetch e (hub_of d); Some (x, d) }
       }
   }"

definition query_GetDataType ::
  "legato \<Rightarrow> client \<Rightarrow> string \<Rightarrow> daemon \<Rightarrow> ((le_result_t \<times> io_DataType_t option) \<times> daemon) option" where
  "query_GetDataType L c path = read_resource L c path
     (\<lambda>e h. do { t \<leftarrow> resTree_GetDataType h e; Some (LE_OK, Some t) })"

definition query_GetUnits ::
  "legato \<Rightarrow> client \<Rightarrow> string \<Rightarrow> nat \<Rightarrow> daemon \<Rightarrow> ((le_result_t \<times> string option) \<times> daemon) option" where
  "query_GetUnits L c path unitsSize = read_resource L c path
     (\<lambda>e h. do {
        u \<leftarrow> resTree_GetUnits h e;
        let (r, x) = utf8_Copy L u unitsSize;
        Some (r, Some x)
      })"

text \<open>The current value, with the code for none.\<close>

definition current_of ::
  "(dataSample_Ref_t \<Rightarrow> io_DataType_t \<Rightarrow> (le_result_t \<times> 'a option) option) \<Rightarrow>
   eid \<Rightarrow> hub \<Rightarrow> (le_result_t \<times> 'a option) option" where
  "current_of use e h = do {
     v \<leftarrow> resTree_GetCurrentValue h e;
     case v of
       None \<Rightarrow> Some (LE_UNAVAILABLE, None)
     | Some s \<Rightarrow> do { t \<leftarrow> resTree_GetDataType h e; use s t }
   }"

definition query_GetTimestamp :: "legato \<Rightarrow> client \<Rightarrow> string \<Rightarrow> daemon \<Rightarrow> unit fetched option" where
  "query_GetTimestamp L c path = read_resource L c path
     (\<lambda>e h. do {
        v \<leftarrow> resTree_GetCurrentValue h e;
        case v of
          None \<Rightarrow> Some (LE_UNAVAILABLE, None)
        | Some s \<Rightarrow> Some (LE_OK, Some (dataSample_GetTimestamp s, ()))
      })"

definition query_GetBoolean :: "legato \<Rightarrow> client \<Rightarrow> string \<Rightarrow> daemon \<Rightarrow> bool fetched option" where
  "query_GetBoolean L c path = read_resource L c path (current_of
     (\<lambda>s t. if t \<noteq> IO_DATA_TYPE_BOOLEAN then Some (LE_FORMAT_ERROR, None)
            else do { x \<leftarrow> dataSample_GetBoolean s; Some (LE_OK, Some (dataSample_GetTimestamp s, x)) }))"

definition query_GetNumeric :: "legato \<Rightarrow> client \<Rightarrow> string \<Rightarrow> daemon \<Rightarrow> double fetched option" where
  "query_GetNumeric L c path = read_resource L c path (current_of
     (\<lambda>s t. if t \<noteq> IO_DATA_TYPE_NUMERIC then Some (LE_FORMAT_ERROR, None)
            else do { x \<leftarrow> dataSample_GetNumeric s; Some (LE_OK, Some (dataSample_GetTimestamp s, x)) }))"

definition query_GetString :: "legato \<Rightarrow> client \<Rightarrow> string \<Rightarrow> nat \<Rightarrow> daemon \<Rightarrow> string fetched option" where
  "query_GetString L c path valueSize = read_resource L c path (current_of
     (\<lambda>s t. if t \<noteq> IO_DATA_TYPE_STRING then Some (LE_FORMAT_ERROR, None)
            else do {
              str \<leftarrow> dataSample_GetString s;
              let (r, x) = utf8_Copy L str valueSize;
              Some (r, Some (dataSample_GetTimestamp s, x))
            }))"

definition query_GetJson :: "legato \<Rightarrow> client \<Rightarrow> string \<Rightarrow> nat \<Rightarrow> daemon \<Rightarrow> string fetched option" where
  "query_GetJson L c path valueSize = read_resource L c path (current_of
     (\<lambda>s t. if t = IO_DATA_TYPE_JSON then do {
              str \<leftarrow> dataSample_GetJson s;
              let (r, x) = utf8_Copy L str valueSize;
              Some (r, Some (dataSample_GetTimestamp s, x))
            }
            else do {
              (r, x) \<leftarrow> dataSample_ConvertToJson L s t valueSize;
              Some (r, Some (dataSample_GetTimestamp s, x))
            }))"

definition query_GetJsonExample ::
  "legato \<Rightarrow> client \<Rightarrow> string \<Rightarrow> nat \<Rightarrow> daemon \<Rightarrow> ((le_result_t \<times> string option) \<times> daemon) option" where
  "query_GetJsonExample L c path exampleSize = read_resource L c path
     (\<lambda>e h. do {
        t \<leftarrow> resTree_GetDataType h e;
        if t \<noteq> IO_DATA_TYPE_JSON then Some (LE_UNSUPPORTED, None)
        else do {
          v \<leftarrow> resTree_GetJsonExample h e;
          case v of
            None \<Rightarrow> Some (LE_UNAVAILABLE, None)
          | Some s \<Rightarrow> do {
              str \<leftarrow> dataSample_GetJson s;
              let (r, x) = utf8_Copy L str exampleSize;
              Some (r, Some x)
            }
        }
      })"

subsection \<open>Push handlers\<close>

text \<open>The resource is created if it is not there; the handler is not told of its current value.\<close>

definition query_AddPushHandler ::
  "legato \<Rightarrow> client \<Rightarrow> string \<Rightarrow> io_DataType_t \<Rightarrow> nat \<Rightarrow> nat \<Rightarrow> daemon \<Rightarrow> (hid option \<times> daemon) option" where
  "query_AddPushHandler L c path dataType callbackPtr context d = do {
     (resRef, d) \<leftarrow> via_hub (resTree_GetResource L (resTree_GetRoot (hub_of d)) path) d;
     case resRef of
       None \<Rightarrow> Some (None, LE_KILL_CLIENT c d)
     | Some e \<Rightarrow> do {
         (n, d) \<leftarrow> via_hub (resTree_AddPushHandler e dataType callbackPtr context) d;
         Some (Some n, d)
       }
   }"

definition query_AddTriggerPushHandler ::
  "legato \<Rightarrow> client \<Rightarrow> string \<Rightarrow> nat \<Rightarrow> nat \<Rightarrow> daemon \<Rightarrow> (hid option \<times> daemon) option" where
  "query_AddTriggerPushHandler L c path callbackPtr context =
     query_AddPushHandler L c path IO_DATA_TYPE_TRIGGER callbackPtr context"

definition query_RemoveTriggerPushHandler :: "hid \<Rightarrow> daemon \<Rightarrow> daemon option" where
  "query_RemoveTriggerPushHandler handlerRef = on_hub (handler_Remove handlerRef)"

definition query_AddBooleanPushHandler ::
  "legato \<Rightarrow> client \<Rightarrow> string \<Rightarrow> nat \<Rightarrow> nat \<Rightarrow> daemon \<Rightarrow> (hid option \<times> daemon) option" where
  "query_AddBooleanPushHandler L c path callbackPtr context =
     query_AddPushHandler L c path IO_DATA_TYPE_BOOLEAN callbackPtr context"

definition query_RemoveBooleanPushHandler :: "hid \<Rightarrow> daemon \<Rightarrow> daemon option" where
  "query_RemoveBooleanPushHandler handlerRef = on_hub (handler_Remove handlerRef)"

definition query_AddNumericPushHandler ::
  "legato \<Rightarrow> client \<Rightarrow> string \<Rightarrow> nat \<Rightarrow> nat \<Rightarrow> daemon \<Rightarrow> (hid option \<times> daemon) option" where
  "query_AddNumericPushHandler L c path callbackPtr context =
     query_AddPushHandler L c path IO_DATA_TYPE_NUMERIC callbackPtr context"

definition query_RemoveNumericPushHandler :: "hid \<Rightarrow> daemon \<Rightarrow> daemon option" where
  "query_RemoveNumericPushHandler handlerRef = on_hub (handler_Remove handlerRef)"

definition query_AddStringPushHandler ::
  "legato \<Rightarrow> client \<Rightarrow> string \<Rightarrow> nat \<Rightarrow> nat \<Rightarrow> daemon \<Rightarrow> (hid option \<times> daemon) option" where
  "query_AddStringPushHandler L c path callbackPtr context =
     query_AddPushHandler L c path IO_DATA_TYPE_STRING callbackPtr context"

definition query_RemoveStringPushHandler :: "hid \<Rightarrow> daemon \<Rightarrow> daemon option" where
  "query_RemoveStringPushHandler handlerRef = on_hub (handler_Remove handlerRef)"

definition query_AddJsonPushHandler ::
  "legato \<Rightarrow> client \<Rightarrow> string \<Rightarrow> nat \<Rightarrow> nat \<Rightarrow> daemon \<Rightarrow> (hid option \<times> daemon) option" where
  "query_AddJsonPushHandler L c path callbackPtr context =
     query_AddPushHandler L c path IO_DATA_TYPE_JSON callbackPtr context"

definition query_RemoveJsonPushHandler :: "hid \<Rightarrow> daemon \<Rightarrow> daemon option" where
  "query_RemoveJsonPushHandler handlerRef = on_hub (handler_Remove handlerRef)"

end
