(* ===== verification/QuerySpec.thy ===== *)
theory QuerySpec
  imports IoCalls QueryService
begin

text \<open>
  What the query API promises: its calls never stop the daemon and keep its invariant, and what is
  read of buffers and resources changes nothing but the clock, the events and the client's namespace.
\<close>

subsection \<open>Observations\<close>

lemma query_found:
  assumes "framework_ok L" "hub_ok L h"
  obtains "query_FindObservation L path h = Some None"
  | e where "query_FindObservation L path h = Some (Some e)" "of_type h e {ADMIN_ENTRY_TYPE_OBSERVATION}"
proof -
  have root: "entries h (RootPtr h) \<noteq> None" using hub_okD(1) [OF assms(2)] by (auto simp: tree_ok_def)
  have total: "\<exists>r. resTree_FindEntry L h b p = Some r \<and> (\<forall>e. r = Some e \<longrightarrow> (\<exists>y. entries h e = Some y))"
    if "entries h b \<noteq> None" for b p using FindEntry_total [OF assms that, of p] by auto
  obtain m where m: "resTree_FindEntry L h (RootPtr h) ''obs'' = Some m" "\<forall>e. m = Some e \<longrightarrow> (\<exists>y. entries h e = Some y)"
    using total [OF root] by blast
  have "\<exists>r. (if strncmp_eq path ''/obs/'' 5 then resTree_FindEntry L h (RootPtr h) path
      else if char_at path = Some (CHR ''/'') then Some None
      else do {
        obsNamespace \<leftarrow> resTree_FindEntry L h (RootPtr h) ''obs'';
        case obsNamespace of None \<Rightarrow> Some None | Some ns \<Rightarrow> resTree_FindEntry L h ns path
      }) = Some r \<and> (\<forall>e. r = Some e \<longrightarrow> (\<exists>y. entries h e = Some y))"
    using total [OF root, of path] m by (cases m) (auto intro!: total)
  then obtain r where r: "query_FindObservation L path h =
      (case r of None \<Rightarrow> Some None | Some e \<Rightarrow> do {
         t \<leftarrow> resTree_GetEntryType h e;
         Some (if t \<noteq> ADMIN_ENTRY_TYPE_OBSERVATION then None else Some e) })"
    "\<forall>e. r = Some e \<longrightarrow> (\<exists>y. entries h e = Some y)"
    unfolding query_FindObservation_def resTree_GetRoot_def by fastforce
  show thesis
  proof (cases r)
    case None
    then show thesis using that(1) r(1) by simp
  next
    case (Some e)
    then obtain y where "entries h e = Some y" using r(2) by blast
    then show thesis using that r(1) Some by (cases "e_type y = ADMIN_ENTRY_TYPE_OBSERVATION")
        (simp_all add: resTree_GetEntryType_def of_type_def)
  qed
qed

text \<open>Samples of the buffer.\<close>

lemma buffered_sample:
  assumes "buffer_ok ob n" "FindBufferedSampleAfter L ob t clk = (Some s, clk')"
  shows "sample_ok (o_bufferedType ob) s"
proof -
  obtain b bs where b: "fst (start_after L ob t clk) = b # bs" "s = snd b"
    using assms(2) by (auto simp: FindBufferedSampleAfter_def split: prod.splits list.splits)
  then have "b \<in> set (o_sampleList ob)" using start_after_suffix [of L ob t clk] by (auto simp: suffix_def)
  then show ?thesis using assms(1) b(2) by (simp add: buffer_ok_def)
qed

lemma FindBuffered_ok:
  assumes "hub_ok L h" "of_type h e {ADMIN_ENTRY_TYPE_OBSERVATION}"
  obtains y r x ob v n where "entries h e = Some y" "e_resourcePtr y = Some r" "resources h r = Some x"
    "r_sub x = Observation ob" "resTree_FindBufferedSampleAfter L e t h = Some (v, h\<lparr>clock := n\<rparr>)"
    "\<forall>s. v = Some s \<longrightarrow> sample_ok (o_bufferedType ob) s"
proof -
  obtain y r x ob where y: "entries h e = Some y" "e_resourcePtr y = Some r" "resources h r = Some x"
    "r_sub x = Observation ob" "obs_ok ob (nextBuff h)" by (rule observation [OF assms])
  obtain v n where v: "FindBufferedSampleAfter L ob t (clock h) = (v, n)" by force
  have "e_type y = ADMIN_ENTRY_TYPE_OBSERVATION" using assms(2) y(1) by (simp add: of_type_def)
  then have "resTree_FindBufferedSampleAfter L e t h = Some (v, h\<lparr>clock := n\<rparr>)"
    using y v by (simp add: resTree_FindBufferedSampleAfter_def with_observation_def res_FindBufferedSampleAfter_def
        obs_FindBufferedSampleAfter_def get_obs_def)
  moreover have "\<forall>s. v = Some s \<longrightarrow> sample_ok (o_bufferedType ob) s"
    using buffered_sample [of ob "nextBuff h" L t "clock h"] y(5) v by (simp add: obs_ok_def)
  ultimately show thesis using that y(1-4) by blast
qed

text \<open>Statistics.\<close>

lemma query_obs_ok:
  assumes "get_obs h r = Some ob" "\<exists>v n. Q ob t (clock h) = Some (v, n)"
  shows "\<exists>v n. query_obs Q r t h = Some (v, h\<lparr>clock := n\<rparr>)"
  using assms by (auto simp: query_obs_def)

lemma Query_ok:
  assumes "hub_ok L h" "of_type h e {ADMIN_ENTRY_TYPE_OBSERVATION}"
  shows "\<exists>v n. resTree_QueryMin L e t h = Some (v, h\<lparr>clock := n\<rparr>)" "\<exists>v n. resTree_QueryMax L e t h = Some (v, h\<lparr>clock := n\<rparr>)"
    "\<exists>v n. resTree_QueryMean L e t h = Some (v, h\<lparr>clock := n\<rparr>)" "\<exists>v n. resTree_QueryStdDev L e t h = Some (v, h\<lparr>clock := n\<rparr>)"
proof -
  obtain y r x ob where y: "entries h e = Some y" "e_resourcePtr y = Some r" "resources h r = Some x"
    "r_sub x = Observation ob" "obs_ok ob (nextBuff h)" by (rule observation [OF assms])
  have t: "e_type y = ADMIN_ENTRY_TYPE_OBSERVATION" using assms(2) y(1) by (simp add: of_type_def)
  have b: "buffer_ok ob (nextBuff h)" using y(5) by (simp add: obs_ok_def)
  have g: "get_obs h r = Some ob" using y by (simp add: get_obs_def)
  note q = query_obs_ok [OF g]
  show "\<exists>v n. resTree_QueryMin L e t h = Some (v, h\<lparr>clock := n\<rparr>)" "\<exists>v n. resTree_QueryMax L e t h = Some (v, h\<lparr>clock := n\<rparr>)"
    "\<exists>v n. resTree_QueryMean L e t h = Some (v, h\<lparr>clock := n\<rparr>)" "\<exists>v n. resTree_QueryStdDev L e t h = Some (v, h\<lparr>clock := n\<rparr>)"
    using y(1,2) t q [of "QueryMin L" t, OF Query_total(1) [OF b]] q [of "QueryMax L" t, OF Query_total(2) [OF b]]
      q [of "QueryMean L" t, OF Query_total(3) [OF b]] q [of "QueryStdDev L" t, OF Query_total(4) [OF b]]
    by (simp_all add: resTree_QueryMin_def resTree_QueryMax_def resTree_QueryMean_def resTree_QueryStdDev_def
        with_observation_def obs_wrapper_defs obs_QueryMin_def obs_QueryMax_def obs_QueryMean_def obs_QueryStdDev_def)
qed

subsection \<open>Reading a buffer\<close>

text \<open>The reads that convert a sample do so with the type the observation has now.\<close>

definition uniform :: "legato \<Rightarrow> hub \<Rightarrow> string \<Rightarrow> bool" where
  "uniform L h path \<longleftrightarrow>
     (\<forall>e x ob. query_FindObservation L path h = Some (Some e) \<longrightarrow> resource_at h e = Some x \<longrightarrow> r_sub x = Observation ob \<longrightarrow>
        o_bufferedType ob = r_currentType x)"

lemma clock_served: "daemon_ok L d \<Longrightarrow> served L (Some (with_hub ((hub_of d)\<lparr>clock := n\<rparr>) d))"
  using clock_hub_ok by (simp add: served_def)

lemma read_served:
  assumes "framework_ok L" "daemon_ok L d"
    "\<And>e. query_FindObservation L path (hub_of d) = Some (Some e) \<Longrightarrow> of_type (hub_of d) e {ADMIN_ENTRY_TYPE_OBSERVATION} \<Longrightarrow>
       served L (map_option snd (act e d))"
  shows "served L (map_option snd (at_observation L c path t act d))"
proof (rule query_found [OF assms(1) daemon_okD(2) [OF assms(2)], of path])
  assume "query_FindObservation L path (hub_of d) = Some None"
  then show ?thesis using assms(2) by (simp add: at_observation_def served_def)
next
  fix e assume "query_FindObservation L path (hub_of d) = Some (Some e)" "of_type (hub_of d) e {ADMIN_ENTRY_TYPE_OBSERVATION}"
  then show ?thesis using assms(3) kill_ok [OF assms(2)] by (simp add: at_observation_def served_def)
qed

lemma buffered_served:
  assumes "daemon_ok L d" "of_type (hub_of d) e {ADMIN_ENTRY_TYPE_OBSERVATION}"
    "\<And>s x ob n. resource_at (hub_of d) e = Some x \<Longrightarrow> r_sub x = Observation ob \<Longrightarrow> sample_ok (o_bufferedType ob) s \<Longrightarrow>
       \<exists>z. use s ((hub_of d)\<lparr>clock := n\<rparr>) = Some z"
  shows "served L (map_option snd (buffered L e t use d))"
proof -
  obtain y r x ob v n where y: "entries (hub_of d) e = Some y" "e_resourcePtr y = Some r" "resources (hub_of d) r = Some x"
    "r_sub x = Observation ob" "resTree_FindBufferedSampleAfter L e t (hub_of d) = Some (v, (hub_of d)\<lparr>clock := n\<rparr>)"
    "\<forall>s. v = Some s \<longrightarrow> sample_ok (o_bufferedType ob) s"
    by (rule FindBuffered_ok [OF daemon_okD(2) [OF assms(1)] assms(2)])
  have "resource_at (hub_of d) e = Some x" using y by (simp add: resource_at_def)
  then have "\<exists>z. use s ((hub_of d)\<lparr>clock := n\<rparr>) = Some z" if "v = Some s" for s using assms(3) y(4,6) that by blast
  then show ?thesis using y(5) clock_served [OF assms(1)] by (cases v) (auto simp: buffered_def via_hub_def)
qed

lemma observation_type:
  assumes "hub_ok L h" "of_type h e {ADMIN_ENTRY_TYPE_OBSERVATION}"
  obtains x where "resource_at h e = Some x" "\<And>n. resTree_GetDataType (h\<lparr>clock := n\<rparr>) e = Some (r_currentType x)"
    "resTree_GetDataType h e = Some (r_currentType x)"
  by (rule observation [OF assms])
    (use that in \<open>simp add: resource_at_def resTree_GetDataType_def with_resource_def res_GetDataType_def\<close>)

lemma reads_served:
  assumes "framework_ok L" "daemon_ok L d"
  shows "served L (map_option snd (query_ReadBufferSampleTimestamp L c path t d))"
    "uniform L (hub_of d) path \<Longrightarrow> served L (map_option snd (query_ReadBufferSampleBoolean L c path t d))"
    "uniform L (hub_of d) path \<Longrightarrow> served L (map_option snd (query_ReadBufferSampleNumeric L c path t d))"
    "uniform L (hub_of d) path \<Longrightarrow> served L (map_option snd (query_ReadBufferSampleString L c path t n d))"
    "uniform L (hub_of d) path \<Longrightarrow> served L (map_option snd (query_ReadBufferSampleJson L c path t n d))"
proof -
  note at = read_served [OF assms] and ok = daemon_okD(2) [OF assms(2)]
  show "served L (map_option snd (query_ReadBufferSampleTimestamp L c path t d))"
    unfolding query_ReadBufferSampleTimestamp_def by (rule at) (rule buffered_served [OF assms(2)], simp_all)
  have typed: "served L (map_option snd (do { t' \<leftarrow> resTree_GetDataType (hub_of d) e;
      if t' \<noteq> T then not_found d else buffered L e t (\<lambda>s _. do { x \<leftarrow> get s; Some (reply s x) }) d }))"
    if "uniform L (hub_of d) path" "query_FindObservation L path (hub_of d) = Some (Some e)"
      "of_type (hub_of d) e {ADMIN_ENTRY_TYPE_OBSERVATION}" "\<And>s. sample_ok T s \<Longrightarrow> \<exists>x. get s = Some x"
    for e T and get :: "dataSample_Ref_t \<Rightarrow> 'b option" and reply :: "dataSample_Ref_t \<Rightarrow> 'b \<Rightarrow> le_result_t \<times> (double \<times> 'a) option"
  proof -
    note given = that
    obtain x where x: "resource_at (hub_of d) e = Some x" "resTree_GetDataType (hub_of d) e = Some (r_currentType x)"
      by (rule observation_type [OF ok given(3)])
    have "served L (map_option snd (buffered L e t (\<lambda>s _. do { x \<leftarrow> get s; Some (reply s x) }) d))" if "r_currentType x = T"
      by (rule buffered_served [OF assms(2) given(3)]) (use given(1,2,4) x that in \<open>fastforce simp: uniform_def\<close>)
    then show ?thesis using x(2) assms(2) by (simp add: not_found_def served_def)
  qed
  have converted: "served L (map_option snd (buffered L e t (\<lambda>s h. do {
       t' \<leftarrow> resTree_GetDataType h e; (r, x) \<leftarrow> conv s t'; Some (reply s r x) }) d))"
    if "uniform L (hub_of d) path" "query_FindObservation L path (hub_of d) = Some (Some e)"
      "of_type (hub_of d) e {ADMIN_ENTRY_TYPE_OBSERVATION}" "\<And>s t'. sample_ok t' s \<Longrightarrow> \<exists>x. conv s t' = Some x"
    for e and conv :: "dataSample_Ref_t \<Rightarrow> io_DataType_t \<Rightarrow> ('b \<times> 'c) option" and
      reply :: "dataSample_Ref_t \<Rightarrow> 'b \<Rightarrow> 'c \<Rightarrow> le_result_t \<times> (double \<times> 'a) option"
  proof -
    note given = that
    obtain x where x: "resource_at (hub_of d) e = Some x" "\<And>n. resTree_GetDataType ((hub_of d)\<lparr>clock := n\<rparr>) e = Some (r_currentType x)"
      by (rule observation_type [OF ok given(3)]) (rule that)
    show ?thesis
      by (rule buffered_served [OF assms(2) given(3)]) (use given(1,2,4) x in \<open>fastforce simp: uniform_def\<close>)
  qed
  show "served L (map_option snd (query_ReadBufferSampleBoolean L c path t d))"
    "served L (map_option snd (query_ReadBufferSampleNumeric L c path t d))" if "uniform L (hub_of d) path"
    unfolding query_ReadBufferSampleBoolean_def query_ReadBufferSampleNumeric_def
    by (rule at, rule typed [OF that], assumption, assumption, erule sample_gets)+
  show "served L (map_option snd (query_ReadBufferSampleString L c path t n d))" if "uniform L (hub_of d) path"
    unfolding query_ReadBufferSampleString_def
    by (rule at, rule converted [OF that], assumption, assumption, erule ConvertToString_defined)
  show "served L (map_option snd (query_ReadBufferSampleJson L c path t n d))" if "uniform L (hub_of d) path"
    unfolding query_ReadBufferSampleJson_def
    by (rule at, rule converted [OF that], assumption, assumption, erule ConvertToJson_defined)
qed

lemma statistics_served:
  assumes "framework_ok L" "daemon_ok L d"
  shows "served L (map_option snd (query_GetMin L path t d))" "served L (map_option snd (query_GetMax L path t d))"
    "served L (map_option snd (query_GetMean L path t d))" "served L (map_option snd (query_GetStdDev L path t d))"
proof -
  note ok = daemon_okD(2) [OF assms(2)]
  have stat: "served L (map_option snd (statistic L path Q d))"
    if "\<And>e. of_type (hub_of d) e {ADMIN_ENTRY_TYPE_OBSERVATION} \<Longrightarrow> \<exists>v n. Q e (hub_of d) = Some (v, (hub_of d)\<lparr>clock := n\<rparr>)" for Q
  proof (rule query_found [OF assms(1) ok, of path])
    assume "query_FindObservation L path (hub_of d) = Some None"
    then show ?thesis using assms(2) by (simp add: statistic_def served_def)
  next
    fix e assume e: "query_FindObservation L path (hub_of d) = Some (Some e)" "of_type (hub_of d) e {ADMIN_ENTRY_TYPE_OBSERVATION}"
    from that [OF e(2)] obtain v n where "Q e (hub_of d) = Some (v, (hub_of d)\<lparr>clock := n\<rparr>)" by blast
    then show ?thesis using e(1) clock_served [OF assms(2)] by (simp add: statistic_def via_hub_def)
  qed
  show "served L (map_option snd (query_GetMin L path t d))" "served L (map_option snd (query_GetMax L path t d))"
    "served L (map_option snd (query_GetMean L path t d))" "served L (map_option snd (query_GetStdDev L path t d))"
    unfolding query_GetMin_def query_GetMax_def query_GetMean_def query_GetStdDev_def
    by (rule stat, erule Query_ok [OF ok])+
qed

subsection \<open>Reading resources\<close>

lemma query_FindResource_cases:
  assumes "framework_ok L" "daemon_ok L d" "client_ok L c"
  obtains d' where "query_FindResource L c path d = Some (None, d')" "daemon_ok L d'"
  | e d' where "query_FindResource L c path d = Some (Some e, d')" "daemon_ok L d'" "live (hub_of d') e"
proof (cases "char_at path = Some (CHR ''/'')")
  case True
  obtain r where "resTree_FindEntryAtAbsolutePath L (hub_of d) path = Some r" "\<forall>e. r = Some e \<longrightarrow> live (hub_of d) e"
    using FindEntry_total [OF assms(1) daemon_okD(2,5) [OF assms(2)], of "tl path"] True
    by (auto simp: resTree_FindEntryAtAbsolutePath_def resTree_GetRoot_def live_def)
  then show thesis using that assms(2) True by (cases r) (simp_all add: query_FindResource_def)
next
  case False
  obtain ns d' where ns: "hub_GetClientNamespace L c d = Some (Some ns, d')" "daemon_ok L d'" "app_namespace (hub_of d') ns"
    using namespace_ok [OF assms] by blast
  have "entries (hub_of d') ns \<noteq> None" using app_namespace_live [OF ns(3)] by (simp add: live_def)
  then obtain r where r: "resTree_FindEntry L (hub_of d') ns path = Some r" "\<forall>e. r = Some e \<longrightarrow> entries (hub_of d') e \<noteq> None"
    using FindEntry_total [OF assms(1) daemon_okD(2) [OF ns(2)]] by blast
  show thesis
  proof (cases r)
    case None
    then show thesis using that(1) False ns(1,2) r(1) by (simp add: query_FindResource_def find_in_def)
  next
    case (Some e)
    then obtain y where y: "entries (hub_of d') e = Some y" using r(2) by auto
    then have "query_FindResource L c path d = Some (if e_resourcePtr y \<noteq> None then Some e else None, d')"
      using False ns(1) r(1) Some by (simp add: query_FindResource_def find_in_def resTree_IsResource_def)
    then show thesis using that ns(2) y by (cases "e_resourcePtr y = None") (simp_all add: live_def)
  qed
qed

lemma read_resource_served:
  assumes "framework_ok L" "daemon_ok L d" "client_ok L c"
    "\<And>e d'. daemon_ok L d' \<Longrightarrow> has_resource (hub_of d') e \<Longrightarrow> \<exists>z. fetch e (hub_of d') = Some z"
  shows "served L (map_option snd (read_resource L c path fetch d))"
proof (rule query_FindResource_cases [OF assms(1-3), of path])
  fix d' assume "query_FindResource L c path d = Some (None, d')" "daemon_ok L d'"
  then show ?thesis by (simp add: read_resource_def served_def)
next
  fix e d' assume e: "query_FindResource L c path d = Some (Some e, d')" "daemon_ok L d'" "live (hub_of d') e"
  then obtain y where y: "entries (hub_of d') e = Some y" by (auto simp: live_def)
  show ?thesis
  proof (cases "e_resourcePtr y = None")
    case True
    then show ?thesis using e(1,2) y by (simp add: read_resource_def resTree_IsResource_def served_def)
  next
    case False
    then have "has_resource (hub_of d') e" using y by (simp add: has_resource_def)
    then obtain z where "fetch e (hub_of d') = Some z" using assms(4) [OF e(2)] by blast
    then show ?thesis using e(1,2) y False by (auto simp: read_resource_def resTree_IsResource_def served_def)
  qed
qed

text \<open>What is read of a resource is there.\<close>

lemma resource_reads:
  assumes "hub_ok L h" "has_resource h e"
  obtains x where "resource_at h e = Some x" "resTree_GetDataType h e = Some (r_currentType x)"
    "resTree_GetUnits h e = Some (r_units x)" "resTree_GetCurrentValue h e = Some (r_currentValue x)"
    "resTree_GetJsonExample h e = Some (r_jsonExample x)"
    "typed (r_currentType x) (r_currentValue x)" "typed IO_DATA_TYPE_JSON (r_jsonExample x)"
proof -
  obtain y r x where y: "entries h e = Some y" "e_resourcePtr y = Some r" "resources h r = Some x"
    by (rule resource_live [OF assms])
  have "value_ok (nextBuff h) x" by (rule values_okD [OF hub_okD(5) [OF assms(1)] y(3)])
  then show thesis
    using that [of x] y by (simp add: value_ok_def resource_at_def resTree_GetDataType_def resTree_GetUnits_def
        resTree_GetCurrentValue_def resTree_GetJsonExample_def with_resource_def res_GetDataType_def res_GetUnits_def
        res_GetCurrentValue_def res_GetJsonExample_def)
qed

lemma current_of_total:
  assumes "hub_ok L h" "has_resource h e" "\<And>s t. sample_ok t s \<Longrightarrow> \<exists>z. use s t = Some z"
  shows "\<exists>z. current_of use e h = Some z"
proof -
  obtain x :: res_Resource_t where x: "resTree_GetDataType h e = Some (r_currentType x)" "resTree_GetCurrentValue h e = Some (r_currentValue x)"
    "typed (r_currentType x) (r_currentValue x)"
    by (rule resource_reads [OF assms(1,2)])
  have "\<exists>z. use s (r_currentType x) = Some z" if "r_currentValue x = Some s" for s
    using x(3) that assms(3) by (simp add: sample_fine_def)
  then show ?thesis using x(1,2) by (auto simp: current_of_def split: option.split)
qed

lemma sample_json: "sample_ok IO_DATA_TYPE_JSON s \<Longrightarrow> \<exists>x. dataSample_GetJson s = Some x"
  by (auto simp: sample_ok_def value_of_type_def dataSample_GetJson_def dataSample_GetString_def split: sample_value.splits)

lemma values_served:
  assumes "framework_ok L" "daemon_ok L d" "client_ok L c"
  shows "served L (map_option snd (query_GetDataType L c path d))" "served L (map_option snd (query_GetUnits L c path n d))"
    "served L (map_option snd (query_GetTimestamp L c path d))" "served L (map_option snd (query_GetBoolean L c path d))"
    "served L (map_option snd (query_GetNumeric L c path d))" "served L (map_option snd (query_GetString L c path n d))"
    "served L (map_option snd (query_GetJson L c path n d))" "served L (map_option snd (query_GetJsonExample L c path n d))"
proof -
  note rd = read_resource_served [OF assms]
  show "served L (map_option snd (query_GetDataType L c path d))" unfolding query_GetDataType_def
    by (rule rd, erule resource_reads [OF daemon_okD(2)], assumption, simp)
  show "served L (map_option snd (query_GetUnits L c path n d))" unfolding query_GetUnits_def
    by (rule rd, erule resource_reads [OF daemon_okD(2)], assumption, simp add: Let_def split_def)
  show "served L (map_option snd (query_GetTimestamp L c path d))" unfolding query_GetTimestamp_def
    by (rule rd, erule resource_reads [OF daemon_okD(2)], assumption, simp split: option.split)
  show "served L (map_option snd (query_GetBoolean L c path d))" "served L (map_option snd (query_GetNumeric L c path d))"
    "served L (map_option snd (query_GetString L c path n d))"
    unfolding query_GetBoolean_def query_GetNumeric_def query_GetString_def
    by (rule rd, rule current_of_total [OF daemon_okD(2)], assumption, assumption, use sample_gets in \<open>force simp: Let_def split_def\<close>)+
  show "served L (map_option snd (query_GetJson L c path n d))" unfolding query_GetJson_def
  proof (rule rd, rule current_of_total [OF daemon_okD(2)], assumption, assumption)
    fix s t assume "sample_ok t s"
    then have "\<exists>z. dataSample_ConvertToJson L s t n = Some z" "t = IO_DATA_TYPE_JSON \<Longrightarrow> \<exists>x. dataSample_GetJson s = Some x"
      using ConvertToJson_defined sample_json by blast+
    then show "\<exists>z. (if t = IO_DATA_TYPE_JSON then do {
              str \<leftarrow> dataSample_GetJson s;
              let (r, x) = utf8_Copy L str n;
              Some (r, Some (dataSample_GetTimestamp s, x))
            }
            else do {
              (r, x) \<leftarrow> dataSample_ConvertToJson L s t n;
              Some (r, Some (dataSample_GetTimestamp s, x))
            }) = Some z"
      by (auto simp: Let_def split_def)
  qed
  show "served L (map_option snd (query_GetJsonExample L c path n d))" unfolding query_GetJsonExample_def
  proof (rule rd, erule resource_reads [OF daemon_okD(2)], assumption)
    fix e d' x
    assume x: "resTree_GetDataType (hub_of d') e = Some (r_currentType x)" "resTree_GetJsonExample (hub_of d') e = Some (r_jsonExample x)"
      "typed IO_DATA_TYPE_JSON (r_jsonExample x)"
    have "\<exists>z. dataSample_GetJson s = Some z" if "r_jsonExample x = Some s" for s
      using sample_json x(3) that by (simp add: sample_fine_def)
    then show "\<exists>z. (do {
        t \<leftarrow> resTree_GetDataType (hub_of d') e;
        if t \<noteq> IO_DATA_TYPE_JSON then Some (LE_UNSUPPORTED, None)
        else do {
          v \<leftarrow> resTree_GetJsonExample (hub_of d') e;
          case v of
            None \<Rightarrow> Some (LE_UNAVAILABLE, None)
          | Some s \<Rightarrow> do {
              str \<leftarrow> dataSample_GetJson s;
              let (r, x) = utf8_Copy L str n;
              Some (r, Some x)
            }
        }
      }) = Some z"
      using x(1,2) by (auto simp: Let_def split_def split: option.split)
  qed
qed

subsection \<open>Push handlers\<close>

lemma root_resource:
  assumes "framework_ok L" "daemon_ok L d"
  obtains r h where "resTree_GetResource L (resTree_GetRoot (hub_of d)) path (hub_of d) = Some (r, h)"
    "daemon_ok L (with_hub h d)" "\<forall>e. r = Some e \<longrightarrow> has_resource h e" "UpdateStartEndHandlerList (with_hub h d) = UpdateStartEndHandlerList d"
proof -
  have "live (hub_of d) (RootPtr (hub_of d))" using daemon_okD(5) [OF assms(2)] by (simp add: live_def)
  then obtain r h where h: "resTree_GetResource L (RootPtr (hub_of d)) path (hub_of d) = Some (r, h)" "settled L h"
    "kept {} (hub_of d) h" "\<forall>e. r = Some e \<longrightarrow> has_resource h e"
    using GetResource_ok [OF assms(1) daemon_okD(1) [OF assms(2)], of "RootPtr (hub_of d)" path] by auto
  show thesis using that [of r h] h(1,4) with_hub_ok [OF assms(2) h(2,3)] by (simp add: resTree_GetRoot_def)
qed

lemma subscribe_served:
  assumes "framework_ok L" "daemon_ok L d"
  shows "served L (map_option snd (query_AddPushHandler L c path t callbackPtr context d))"
proof -
  obtain r h where h: "resTree_GetResource L (resTree_GetRoot (hub_of d)) path (hub_of d) = Some (r, h)"
    "daemon_ok L (with_hub h d)" "\<forall>e. r = Some e \<longrightarrow> has_resource h e"
    by (rule root_resource [OF assms]) (rule that)
  have found: "via_hub (resTree_GetResource L (resTree_GetRoot (hub_of d)) path) d = Some (r, with_hub h d)"
    using h(1) by (simp add: via_hub_def)
  show ?thesis
  proof (cases r)
    case None
    then show ?thesis using found kill_ok [OF h(2)] by (simp add: query_AddPushHandler_def served_def)
  next
    case (Some e)
    then have "has_resource (hub_of (with_hub h d)) e" using h(3) by simp
    then obtain n h' where "via_hub (resTree_AddPushHandler e t callbackPtr context) (with_hub h d) = Some (n, with_hub h' (with_hub h d))"
      "daemon_ok L (with_hub h' (with_hub h d))"
      using via_hub_ok [of L "with_hub h d" "resTree_AddPushHandler e t callbackPtr context", OF h(2) listen_well [OF daemon_okD(1) [OF h(2)]]]
      by blast
    then show ?thesis using found Some by (simp add: query_AddPushHandler_def served_def)
  qed
qed

subsection \<open>All calls\<close>

datatype query_call =
    SampleTimestamp string double
  | SampleBoolean string double
  | SampleNumeric string double
  | SampleString string double nat
  | SampleJson string double nat
  | Minimum string double
  | Maximum string double
  | Mean string double
  | StdDev string double
  | DataTypeOf string
  | UnitsOf string nat
  | TimestampOf string
  | BooleanOf string
  | NumericOf string
  | StringOf string nat
  | JsonOf string nat
  | ExampleOf string nat
  | Subscribe string io_DataType_t nat nat
  | Unsubscribe io_DataType_t hid

fun query_add_handler :: "legato \<Rightarrow> client \<Rightarrow> string \<Rightarrow> io_DataType_t \<Rightarrow> nat \<Rightarrow> nat \<Rightarrow> daemon \<Rightarrow> (hid option \<times> daemon) option" where
  "query_add_handler L c path IO_DATA_TYPE_TRIGGER = query_AddTriggerPushHandler L c path"
| "query_add_handler L c path IO_DATA_TYPE_BOOLEAN = query_AddBooleanPushHandler L c path"
| "query_add_handler L c path IO_DATA_TYPE_NUMERIC = query_AddNumericPushHandler L c path"
| "query_add_handler L c path IO_DATA_TYPE_STRING = query_AddStringPushHandler L c path"
| "query_add_handler L c path IO_DATA_TYPE_JSON = query_AddJsonPushHandler L c path"

fun query_remove_handler :: "io_DataType_t \<Rightarrow> hid \<Rightarrow> daemon \<Rightarrow> daemon option" where
  "query_remove_handler IO_DATA_TYPE_TRIGGER = query_RemoveTriggerPushHandler"
| "query_remove_handler IO_DATA_TYPE_BOOLEAN = query_RemoveBooleanPushHandler"
| "query_remove_handler IO_DATA_TYPE_NUMERIC = query_RemoveNumericPushHandler"
| "query_remove_handler IO_DATA_TYPE_STRING = query_RemoveStringPushHandler"
| "query_remove_handler IO_DATA_TYPE_JSON = query_RemoveJsonPushHandler"

fun query_serve :: "legato \<Rightarrow> client \<Rightarrow> query_call \<Rightarrow> daemon \<Rightarrow> daemon option" where
  "query_serve L c (SampleTimestamp path t) d = map_option snd (query_ReadBufferSampleTimestamp L c path t d)"
| "query_serve L c (SampleBoolean path t) d = map_option snd (query_ReadBufferSampleBoolean L c path t d)"
| "query_serve L c (SampleNumeric path t) d = map_option snd (query_ReadBufferSampleNumeric L c path t d)"
| "query_serve L c (SampleString path t n) d = map_option snd (query_ReadBufferSampleString L c path t n d)"
| "query_serve L c (SampleJson path t n) d = map_option snd (query_ReadBufferSampleJson L c path t n d)"
| "query_serve L c (Minimum path t) d = map_option snd (query_GetMin L path t d)"
| "query_serve L c (Maximum path t) d = map_option snd (query_GetMax L path t d)"
| "query_serve L c (Mean path t) d = map_option snd (query_GetMean L path t d)"
| "query_serve L c (StdDev path t) d = map_option snd (query_GetStdDev L path t d)"
| "query_serve L c (DataTypeOf path) d = map_option snd (query_GetDataType L c path d)"
| "query_serve L c (UnitsOf path n) d = map_option snd (query_GetUnits L c path n d)"
| "query_serve L c (TimestampOf path) d = map_option snd (query_GetTimestamp L c path d)"
| "query_serve L c (BooleanOf path) d = map_option snd (query_GetBoolean L c path d)"
| "query_serve L c (NumericOf path) d = map_option snd (query_GetNumeric L c path d)"
| "query_serve L c (StringOf path n) d = map_option snd (query_GetString L c path n d)"
| "query_serve L c (JsonOf path n) d = map_option snd (query_GetJson L c path n d)"
| "query_serve L c (ExampleOf path n) d = map_option snd (query_GetJsonExample L c path n d)"
| "query_serve L c (Subscribe path t callbackPtr context) d = map_option snd (query_add_handler L c path t callbackPtr context d)"
| "query_serve L c (Unsubscribe t n) d = query_remove_handler t n d"

text \<open>
  The rules: the reads of buffered values need an observation whose buffer has the type of its value;
  handlers that are removed are on their lists.
\<close>

fun query_proper :: "legato \<Rightarrow> daemon \<Rightarrow> query_call \<Rightarrow> bool" where
  "query_proper L d (SampleBoolean path t) = uniform L (hub_of d) path"
| "query_proper L d (SampleNumeric path t) = uniform L (hub_of d) path"
| "query_proper L d (SampleString path t n) = uniform L (hub_of d) path"
| "query_proper L d (SampleJson path t n) = uniform L (hub_of d) path"
| "query_proper L d (Unsubscribe t n) = removable (hub_of d) n"
| "query_proper L d _ = True"

lemma query_handlers_served:
  assumes "framework_ok L" "daemon_ok L d"
  shows "served L (map_option snd (query_add_handler L c path t callbackPtr context d))"
    "removable (hub_of d) n \<Longrightarrow> served L (query_remove_handler t n d)"
  using subscribe_served [OF assms, of c path _ callbackPtr "context"]
    served_on_hub [of L d "handler_Remove n", OF assms(2) unlisten_well [OF daemon_okD(1) [OF assms(2)]]]
  by (cases t; simp add: query_AddTriggerPushHandler_def query_AddBooleanPushHandler_def query_AddNumericPushHandler_def
      query_AddStringPushHandler_def query_AddJsonPushHandler_def query_RemoveTriggerPushHandler_def
      query_RemoveBooleanPushHandler_def query_RemoveNumericPushHandler_def query_RemoveStringPushHandler_def
      query_RemoveJsonPushHandler_def)+

lemma query_served:
  assumes "framework_ok L" "daemon_ok L d" "client_ok L c" "query_proper L d call"
  shows "served L (query_serve L c call d)"
  using assms(4) by (cases call) (simp_all add: reads_served [OF assms(1,2)] statistics_served [OF assms(1,2)]
      values_served [OF assms(1-3)] query_handlers_served [OF assms(1,2)])

end
