(* ===== verification/AdminService.thy ===== *)
theory AdminService
  imports QueryService
begin

text \<open>
  The admin API of the Data Hub, \<open>src/apps/DataHub/components/dataHub/adminService.c\<close>: pushing to any
  resource, routes between resources, observations and their settings, defaults and overrides,
  walking the resource tree, and extended updates. The handlers for changes of the tree are in
  \<open>ResTree\<close>. The result of an operation that writes to the client's variables is its code with what
  was written.
\<close>

subsection \<open>Pushing samples\<close>

text \<open>The resource at an absolute path; nothing is done without one.\<close>

definition at_path ::
  "legato \<Rightarrow> string \<Rightarrow> 'a option \<Rightarrow> (eid \<Rightarrow> 'a option) \<Rightarrow> hub \<Rightarrow> 'a option" where
  "at_path L path missing found h = do {
     entry \<leftarrow> resTree_FindEntryAtAbsolutePath L h path;
     case entry of None \<Rightarrow> missing | Some e \<Rightarrow> found e
   }"

definition admin_push ::
  "legato \<Rightarrow> string \<Rightarrow> io_DataType_t \<Rightarrow> (daemon \<Rightarrow> (dataSample_Ref_t \<times> daemon) option) \<Rightarrow> daemon \<Rightarrow> daemon option" where
  "admin_push L path dataType create d = at_path L path (Some d)
     (\<lambda>e. do { (sampleRef, d) \<leftarrow> create d; on_hub (resTree_Push L e dataType sampleRef) d }) (hub_of d)"

definition admin_PushTrigger :: "legato \<Rightarrow> string \<Rightarrow> double \<Rightarrow> daemon \<Rightarrow> daemon option" where
  "admin_PushTrigger L path ts =
     admin_push L path IO_DATA_TYPE_TRIGGER (\<lambda>d. Some (stamp (dataSample_CreateTrigger L ts) d))"

definition admin_PushBoolean :: "legato \<Rightarrow> string \<Rightarrow> double \<Rightarrow> bool \<Rightarrow> daemon \<Rightarrow> daemon option" where
  "admin_PushBoolean L path ts v =
     admin_push L path IO_DATA_TYPE_BOOLEAN (\<lambda>d. Some (stamp (dataSample_CreateBoolean L ts v) d))"

definition admin_PushNumeric :: "legato \<Rightarrow> string \<Rightarrow> double \<Rightarrow> double \<Rightarrow> daemon \<Rightarrow> daemon option" where
  "admin_PushNumeric L path ts v =
     admin_push L path IO_DATA_TYPE_NUMERIC (\<lambda>d. Some (stamp (dataSample_CreateNumeric L ts v) d))"

definition admin_PushString :: "legato \<Rightarrow> string \<Rightarrow> double \<Rightarrow> string \<Rightarrow> daemon \<Rightarrow> daemon option" where
  "admin_PushString L path ts v =
     admin_push L path IO_DATA_TYPE_STRING (stamp_text (dataSample_CreateString L ts v))"

definition admin_PushJson :: "legato \<Rightarrow> string \<Rightarrow> double \<Rightarrow> string \<Rightarrow> daemon \<Rightarrow> daemon option" where
  "admin_PushJson L path ts v d = at_path L path (Some d)
     (\<lambda>e. if json_IsValid v then do {
            (sampleRef, d) \<leftarrow> stamp_text (dataSample_CreateJson L ts v) d;
            on_hub (resTree_Push L e IO_DATA_TYPE_JSON sampleRef) d
          } else Some d) (hub_of d)"

subsection \<open>Push handlers\<close>

definition admin_AddPushHandler ::
  "legato \<Rightarrow> client \<Rightarrow> string \<Rightarrow> io_DataType_t \<Rightarrow> nat \<Rightarrow> nat \<Rightarrow> daemon \<Rightarrow> (hid option \<times> daemon) option" where
  "admin_AddPushHandler L c path dataType callbackPtr context d = do {
     (resRef, d) \<leftarrow> via_hub (resTree_GetResource L (resTree_GetRoot (hub_of d)) path) d;
     case resRef of
       None \<Rightarrow> Some (None, LE_KILL_CLIENT c d)
     | Some e \<Rightarrow> do {
         (n, d) \<leftarrow> via_hub (resTree_AddPushHandler e dataType callbackPtr context) d;
         Some (Some n, d)
       }
   }"

definition admin_AddTriggerPushHandler ::
  "legato \<Rightarrow> client \<Rightarrow> string \<Rightarrow> nat \<Rightarrow> nat \<Rightarrow> daemon \<Rightarrow> (hid option \<times> daemon) option" where
  "admin_AddTriggerPushHandler L c path callbackPtr context =
     admin_AddPushHandler L c path IO_DATA_TYPE_TRIGGER callbackPtr context"

definition admin_RemoveTriggerPushHandler :: "hid \<Rightarrow> daemon \<Rightarrow> daemon option" where
  "admin_RemoveTriggerPushHandler handlerRef = on_hub (handler_Remove handlerRef)"

definition admin_AddBooleanPushHandler ::
  "legato \<Rightarrow> client \<Rightarrow> string \<Rightarrow> nat \<Rightarrow> nat \<Rightarrow> daemon \<Rightarrow> (hid option \<times> daemon) option" where
  "admin_AddBooleanPushHandler L c path callbackPtr context =
     admin_AddPushHandler L c path IO_DATA_TYPE_BOOLEAN callbackPtr context"

definition admin_RemoveBooleanPushHandler :: "hid \<Rightarrow> daemon \<Rightarrow> daemon option" where
  "admin_RemoveBooleanPushHandler handlerRef = on_hub (handler_Remove handlerRef)"

definition admin_AddNumericPushHandler ::
  "legato \<Rightarrow> client \<Rightarrow> string \<Rightarrow> nat \<Rightarrow> nat \<Rightarrow> daemon \<Rightarrow> (hid option \<times> daemon) option" where
  "admin_AddNumericPushHandler L c path callbackPtr context =
     admin_AddPushHandler L c path IO_DATA_TYPE_NUMERIC callbackPtr context"

definition admin_RemoveNumericPushHandler :: "hid \<Rightarrow> daemon \<Rightarrow> daemon option" where
  "admin_RemoveNumericPushHandler handlerRef = on_hub (handler_Remove handlerRef)"

definition admin_AddStringPushHandler ::
  "legato \<Rightarrow> client \<Rightarrow> string \<Rightarrow> nat \<Rightarrow> nat \<Rightarrow> daemon \<Rightarrow> (hid option \<times> daemon) option" where
  "admin_AddStringPushHandler L c path callbackPtr context =
     admin_AddPushHandler L c path IO_DATA_TYPE_STRING callbackPtr context"

definition admin_RemoveStringPushHandler :: "hid \<Rightarrow> daemon \<Rightarrow> daemon option" where
  "admin_RemoveStringPushHandler handlerRef = on_hub (handler_Remove handlerRef)"

definition admin_AddJsonPushHandler ::
  "legato \<Rightarrow> client \<Rightarrow> string \<Rightarrow> nat \<Rightarrow> nat \<Rightarrow> daemon \<Rightarrow> (hid option \<times> daemon) option" where
  "admin_AddJsonPushHandler L c path callbackPtr context =
     admin_AddPushHandler L c path IO_DATA_TYPE_JSON callbackPtr context"

definition admin_RemoveJsonPushHandler :: "hid \<Rightarrow> daemon \<Rightarrow> daemon option" where
  "admin_RemoveJsonPushHandler handlerRef = on_hub (handler_Remove handlerRef)"

subsection \<open>Routes\<close>

text \<open>Both resources are created if they are not there, the destination first.\<close>

definition admin_SetSource :: "legato \<Rightarrow> string \<Rightarrow> string \<Rightarrow> daemon \<Rightarrow> (le_result_t \<times> daemon) option" where
  "admin_SetSource L destPath srcPath d = do {
     (destEntry, d) \<leftarrow> via_hub (resTree_GetResource L (resTree_GetRoot (hub_of d)) destPath) d;
     case destEntry of
       None \<Rightarrow> Some (LE_BAD_PARAMETER, d)
     | Some dest \<Rightarrow> do {
         (srcEntry, d) \<leftarrow> via_hub (resTree_GetResource L (resTree_GetRoot (hub_of d)) srcPath) d;
         case srcEntry of
           None \<Rightarrow> Some (LE_BAD_PARAMETER, d)
         | Some src \<Rightarrow> via_hub (resTree_SetSource L dest (Some src)) d
       }
   }"

text \<open>The path of an entry for the client; any error but an overflow is fatal.\<close>

definition path_result :: "legato \<Rightarrow> nat \<Rightarrow> eid \<Rightarrow> hub \<Rightarrow> (le_result_t \<times> string option) option" where
  "path_result L buffSize e h = do {
     (result, s) \<leftarrow> resTree_GetPath L h buffSize (resTree_GetRoot h) e;
     case result of
       Inr _ \<Rightarrow> Some (LE_OK, Some s)
     | Inl err \<Rightarrow> if err = LE_OVERFLOW then Some (LE_OVERFLOW, Some s) else None
   }"

text \<open>The readers of the admin API change nothing, and so are functions of the hub.\<close>

definition at_any_resource :: "legato \<Rightarrow> string \<Rightarrow> 'a \<Rightarrow> (eid \<Rightarrow> 'a option) \<Rightarrow> hub \<Rightarrow> 'a option" where
  "at_any_resource L path missing found h = at_path L path (Some missing)
     (\<lambda>e. do {
        isres \<leftarrow> resTree_IsResource h e;
        if \<not> isres then Some missing else found e
      }) h"

definition admin_GetSource :: "legato \<Rightarrow> string \<Rightarrow> nat \<Rightarrow> hub \<Rightarrow> (le_result_t \<times> string option) option" where
  "admin_GetSource L destPath srcPathSize h = at_any_resource L destPath (LE_NOT_FOUND, None)
     (\<lambda>e. do {
        srcEntry \<leftarrow> resTree_GetSource h e;
        case srcEntry of None \<Rightarrow> Some (LE_NOT_FOUND, None) | Some s \<Rightarrow> path_result L srcPathSize s h
      }) h"

definition admin_RemoveSource :: "legato \<Rightarrow> string \<Rightarrow> daemon \<Rightarrow> daemon option" where
  "admin_RemoveSource L destPath d = do {
     destEntry \<leftarrow> resTree_FindEntry L (hub_of d) (resTree_GetRoot (hub_of d)) destPath;
     case destEntry of
       None \<Rightarrow> Some d
     | Some e \<Rightarrow> do {
         isres \<leftarrow> resTree_IsResource (hub_of d) e;
         if isres then map_option snd (via_hub (resTree_SetSource L e None) d) else Some d
       }
   }"

subsection \<open>Observations\<close>

definition GetObsNamespace :: "legato \<Rightarrow> hub \<Rightarrow> (eid \<times> hub) option" where
  "GetObsNamespace L h = do {
     (obsNamespace, h) \<leftarrow> resTree_GetEntry L (resTree_GetRoot h) ''obs'' h;
     ns \<leftarrow> obsNamespace;
     Some (ns, h)
   }"

text \<open>A path relative to \<open>/obs/\<close>; \<open>None\<close> is an absolute path to somewhere else.\<close>

definition obs_relative :: "string \<Rightarrow> string option" where
  "obs_relative path =
     (if strncmp_eq path ''/obs/'' 5 then Some (drop 5 path)
      else if char_at path = Some (CHR ''/'') then None
      else Some path)"

definition GetObservation :: "legato \<Rightarrow> string \<Rightarrow> hub \<Rightarrow> (eid option \<times> hub) option" where
  "GetObservation L path h =
     (case obs_relative path of
        None \<Rightarrow> Some (None, h)
      | Some p \<Rightarrow> do {
          (ns, h) \<leftarrow> GetObsNamespace L h;
          resTree_GetObservation L ns p h
        })"

text \<open>
  The type is asked of whatever was found: when nothing was, that is a dereferenced \<open>NULL\<close>.
\<close>

definition admin_FindObservation :: "legato \<Rightarrow> string \<Rightarrow> hub \<Rightarrow> (eid option \<times> hub) option" where
  "admin_FindObservation L path h =
     (case obs_relative path of
        None \<Rightarrow> Some (None, h)
      | Some p \<Rightarrow> do {
          (ns, h) \<leftarrow> GetObsNamespace L h;
          entryRef \<leftarrow> resTree_FindEntry L h ns p;
          e \<leftarrow> entryRef;
          t \<leftarrow> resTree_GetEntryType h e;
          Some (if t \<noteq> ADMIN_ENTRY_TYPE_OBSERVATION then None else Some e, h)
        })"

definition admin_CreateObs :: "legato \<Rightarrow> string \<Rightarrow> daemon \<Rightarrow> (le_result_t \<times> daemon) option" where
  "admin_CreateObs L path d = do {
     (obs, d) \<leftarrow> via_hub (GetObservation L path) d;
     Some (if obs = None then LE_BAD_PARAMETER else LE_OK, d)
   }"

text \<open>The path is taken as it is, and the type of the entry is not asked.\<close>

definition admin_DeleteObs :: "legato \<Rightarrow> string \<Rightarrow> daemon \<Rightarrow> daemon option" where
  "admin_DeleteObs L path d = do {
     obsNamespace \<leftarrow> resTree_FindEntry L (hub_of d) (resTree_GetRoot (hub_of d)) ''obs'';
     case obsNamespace of
       None \<Rightarrow> Some d
     | Some ns \<Rightarrow> do {
         entry \<leftarrow> resTree_FindEntry L (hub_of d) ns path;
         case entry of None \<Rightarrow> Some d | Some e \<Rightarrow> on_hub (resTree_DeleteObservation L e) d
       }
   }"

text \<open>A setting creates the observation; a reader finds it, or gives what stands for no setting.\<close>

definition set_observation ::
  "legato \<Rightarrow> string \<Rightarrow> (eid \<Rightarrow> hub \<Rightarrow> hub option) \<Rightarrow> daemon \<Rightarrow> daemon option" where
  "set_observation L path set_it d = do {
     (obsEntry, d) \<leftarrow> via_hub (GetObservation L path) d;
     case obsEntry of None \<Rightarrow> Some d | Some e \<Rightarrow> on_hub (set_it e) d
   }"

definition get_observation ::
  "legato \<Rightarrow> string \<Rightarrow> 'a \<Rightarrow> (hub \<Rightarrow> eid \<Rightarrow> 'a option) \<Rightarrow> daemon \<Rightarrow> ('a \<times> daemon) option" where
  "get_observation L path otherwise get d = do {
     (resEntry, d) \<leftarrow> via_hub (admin_FindObservation L path) d;
     case resEntry of
       None \<Rightarrow> Some (otherwise, d)
     | Some e \<Rightarrow> do { x \<leftarrow> get (hub_of d) e; Some (x, d) }
   }"

definition admin_SetMinPeriod :: "legato \<Rightarrow> string \<Rightarrow> double \<Rightarrow> daemon \<Rightarrow> daemon option" where
  "admin_SetMinPeriod L path minPeriod = set_observation L path (\<lambda>e. resTree_SetMinPeriod e minPeriod)"

definition admin_GetMinPeriod :: "legato \<Rightarrow> string \<Rightarrow> daemon \<Rightarrow> (double \<times> daemon) option" where
  "admin_GetMinPeriod L path = get_observation L path (dbl_of_int 0) resTree_GetMinPeriod"

definition admin_SetHighLimit :: "legato \<Rightarrow> string \<Rightarrow> double \<Rightarrow> daemon \<Rightarrow> daemon option" where
  "admin_SetHighLimit L path highLimit = set_observation L path (\<lambda>e. resTree_SetHighLimit e highLimit)"

definition admin_GetHighLimit :: "legato \<Rightarrow> string \<Rightarrow> daemon \<Rightarrow> (double \<times> daemon) option" where
  "admin_GetHighLimit L path = get_observation L path NAN resTree_GetHighLimit"

definition admin_SetLowLimit :: "legato \<Rightarrow> string \<Rightarrow> double \<Rightarrow> daemon \<Rightarrow> daemon option" where
  "admin_SetLowLimit L path lowLimit = set_observation L path (\<lambda>e. resTree_SetLowLimit e lowLimit)"

definition admin_GetLowLimit :: "legato \<Rightarrow> string \<Rightarrow> daemon \<Rightarrow> (double \<times> daemon) option" where
  "admin_GetLowLimit L path = get_observation L path NAN resTree_GetLowLimit"

definition admin_SetChangeBy :: "legato \<Rightarrow> string \<Rightarrow> double \<Rightarrow> daemon \<Rightarrow> daemon option" where
  "admin_SetChangeBy L path change = set_observation L path (\<lambda>e. resTree_SetChangeBy e change)"

definition admin_GetChangeBy :: "legato \<Rightarrow> string \<Rightarrow> daemon \<Rightarrow> (double \<times> daemon) option" where
  "admin_GetChangeBy L path = get_observation L path (dbl_of_int 0) resTree_GetChangeBy"

definition admin_SetTransform :: "legato \<Rightarrow> string \<Rightarrow> obs_TransformType_t \<Rightarrow> daemon \<Rightarrow> daemon option" where
  "admin_SetTransform L path transformType = set_observation L path (\<lambda>e. resTree_SetTransform e transformType)"

text \<open>Asking for the transform creates the observation.\<close>

definition admin_GetTransform :: "legato \<Rightarrow> string \<Rightarrow> daemon \<Rightarrow> (obs_TransformType_t \<times> daemon) option" where
  "admin_GetTransform L path d = do {
     (obsEntry, d) \<leftarrow> via_hub (GetObservation L path) d;
     case obsEntry of
       None \<Rightarrow> Some (OBS_TRANSFORM_TYPE_NONE, d)
     | Some e \<Rightarrow> do { t \<leftarrow> resTree_GetTransform (hub_of d) e; Some (t, d) }
   }"

definition admin_SetJsonExtraction :: "legato \<Rightarrow> string \<Rightarrow> string \<Rightarrow> daemon \<Rightarrow> daemon option" where
  "admin_SetJsonExtraction L path extractionSpec = set_observation L path (\<lambda>e. resTree_SetJsonExtraction L e extractionSpec)"

definition admin_GetJsonExtraction ::
  "legato \<Rightarrow> string \<Rightarrow> nat \<Rightarrow> daemon \<Rightarrow> ((le_result_t \<times> string option) \<times> daemon) option" where
  "admin_GetJsonExtraction L path resultSize = get_observation L path (LE_NOT_FOUND, None)
     (\<lambda>h e. do {
        extractionSpec \<leftarrow> resTree_GetJsonExtraction h e;
        if extractionSpec = [] then Some (LE_NOT_FOUND, None)
        else let (r, s) = utf8_Copy L extractionSpec resultSize in Some (r, Some s)
      })"

definition admin_SetBufferMaxCount :: "legato \<Rightarrow> string \<Rightarrow> 32 word \<Rightarrow> daemon \<Rightarrow> daemon option" where
  "admin_SetBufferMaxCount L path count = set_observation L path (\<lambda>e. resTree_SetBufferMaxCount L e count)"

definition admin_GetBufferMaxCount :: "legato \<Rightarrow> string \<Rightarrow> daemon \<Rightarrow> (32 word \<times> daemon) option" where
  "admin_GetBufferMaxCount L path = get_observation L path 0 resTree_GetBufferMaxCount"

definition admin_SetBufferBackupPeriod :: "legato \<Rightarrow> string \<Rightarrow> 32 word \<Rightarrow> daemon \<Rightarrow> daemon option" where
  "admin_SetBufferBackupPeriod L path seconds = set_observation L path (\<lambda>e. resTree_SetBufferBackupPeriod L e seconds)"

definition admin_GetBufferBackupPeriod :: "legato \<Rightarrow> string \<Rightarrow> daemon \<Rightarrow> (32 word \<times> daemon) option" where
  "admin_GetBufferBackupPeriod L path = get_observation L path 0 resTree_GetBufferBackupPeriod"

subsection \<open>Defaults and overrides\<close>

definition admin_IsMandatory :: "legato \<Rightarrow> string \<Rightarrow> hub \<Rightarrow> bool option" where
  "admin_IsMandatory L path h = at_path L path (Some False) (resTree_IsMandatory h) h"

definition SetDefault :: "legato \<Rightarrow> string \<Rightarrow> io_DataType_t \<Rightarrow> dataSample_Ref_t \<times> daemon \<Rightarrow> daemon option" where
  "SetDefault L path dataType = (\<lambda>(v, d). do {
     (resEntry, d) \<leftarrow> via_hub (resTree_GetResource L (resTree_GetRoot (hub_of d)) path) d;
     case resEntry of None \<Rightarrow> Some d | Some e \<Rightarrow> on_hub (resTree_SetDefault L e dataType v) d
   })"

definition admin_SetBooleanDefault :: "legato \<Rightarrow> string \<Rightarrow> bool \<Rightarrow> daemon \<Rightarrow> daemon option" where
  "admin_SetBooleanDefault L path v d =
     SetDefault L path IO_DATA_TYPE_BOOLEAN (stamp (dataSample_CreateBoolean L (dbl_of_int 0) v) d)"

definition admin_SetNumericDefault :: "legato \<Rightarrow> string \<Rightarrow> double \<Rightarrow> daemon \<Rightarrow> daemon option" where
  "admin_SetNumericDefault L path v d =
     SetDefault L path IO_DATA_TYPE_NUMERIC (stamp (dataSample_CreateNumeric L (dbl_of_int 0) v) d)"

definition admin_SetStringDefault :: "legato \<Rightarrow> string \<Rightarrow> string \<Rightarrow> daemon \<Rightarrow> daemon option" where
  "admin_SetStringDefault L path v d =
     stamp_text (dataSample_CreateString L (dbl_of_int 0) v) d \<bind> SetDefault L path IO_DATA_TYPE_STRING"

definition admin_SetJsonDefault :: "legato \<Rightarrow> string \<Rightarrow> string \<Rightarrow> daemon \<Rightarrow> daemon option" where
  "admin_SetJsonDefault L path v d =
     (if json_IsValid v
      then stamp_text (dataSample_CreateJson L (dbl_of_int 0) v) d \<bind> SetDefault L path IO_DATA_TYPE_JSON
      else Some d)"

definition admin_HasDefault :: "legato \<Rightarrow> string \<Rightarrow> hub \<Rightarrow> bool option" where
  "admin_HasDefault L path h = at_any_resource L path False (resTree_HasDefault h) h"

definition admin_GetDefaultDataType :: "legato \<Rightarrow> string \<Rightarrow> hub \<Rightarrow> io_DataType_t option" where
  "admin_GetDefaultDataType L path h =
     at_any_resource L path IO_DATA_TYPE_TRIGGER (resTree_GetDefaultDataType h) h"

text \<open>The value that is set, if it has the type that is asked for.\<close>

definition typed_default ::
  "io_DataType_t \<Rightarrow> 'a \<Rightarrow> (dataSample_Ref_t \<Rightarrow> 'a option) \<Rightarrow> hub \<Rightarrow> eid \<Rightarrow> 'a option" where
  "typed_default dataType missing use h e = do {
     v \<leftarrow> resTree_GetDefaultValue h e;
     case v of
       None \<Rightarrow> Some missing
     | Some s \<Rightarrow> do {
         t \<leftarrow> resTree_GetDefaultDataType h e;
         if t \<noteq> dataType then Some missing else use s
       }
   }"

definition admin_GetBooleanDefault :: "legato \<Rightarrow> string \<Rightarrow> hub \<Rightarrow> bool option" where
  "admin_GetBooleanDefault L path h = at_any_resource L path False
     (typed_default IO_DATA_TYPE_BOOLEAN False dataSample_GetBoolean h) h"

definition admin_GetNumericDefault :: "legato \<Rightarrow> string \<Rightarrow> hub \<Rightarrow> double option" where
  "admin_GetNumericDefault L path h = at_any_resource L path NAN
     (typed_default IO_DATA_TYPE_NUMERIC NAN dataSample_GetNumeric h) h"

definition admin_GetStringDefault :: "legato \<Rightarrow> string \<Rightarrow> nat \<Rightarrow> hub \<Rightarrow> (le_result_t \<times> string option) option" where
  "admin_GetStringDefault L path valueSize h = at_any_resource L path (LE_NOT_FOUND, None)
     (typed_default IO_DATA_TYPE_STRING (LE_NOT_FOUND, None)
        (\<lambda>s. do {
           str \<leftarrow> dataSample_GetString s;
           let (r, x) = utf8_Copy L str valueSize;
           Some (r, Some x)
         }) h) h"

definition admin_GetJsonDefault :: "legato \<Rightarrow> string \<Rightarrow> nat \<Rightarrow> hub \<Rightarrow> (le_result_t \<times> string option) option" where
  "admin_GetJsonDefault L path valueSize h = at_any_resource L path (LE_NOT_FOUND, None)
     (\<lambda>e. do {
        v \<leftarrow> resTree_GetDefaultValue h e;
        case v of
          None \<Rightarrow> Some (LE_NOT_FOUND, None)
        | Some s \<Rightarrow> do {
            t \<leftarrow> resTree_GetDefaultDataType h e;
            (r, x) \<leftarrow> dataSample_ConvertToJson L s t valueSize;
            Some (r, Some x)
          }
      }) h"

definition admin_RemoveDefault :: "legato \<Rightarrow> string \<Rightarrow> daemon \<Rightarrow> daemon option" where
  "admin_RemoveDefault L path d = at_any_resource L path d (\<lambda>e. on_hub (resTree_RemoveDefault e) d) (hub_of d)"

definition SetOverride :: "legato \<Rightarrow> string \<Rightarrow> io_DataType_t \<Rightarrow> dataSample_Ref_t \<times> daemon \<Rightarrow> daemon option" where
  "SetOverride L path dataType = (\<lambda>(v, d). do {
     (resEntry, d) \<leftarrow> via_hub (resTree_GetResource L (resTree_GetRoot (hub_of d)) path) d;
     case resEntry of None \<Rightarrow> Some d | Some e \<Rightarrow> on_hub (resTree_SetOverride L e dataType v) d
   })"

definition admin_SetBooleanOverride :: "legato \<Rightarrow> string \<Rightarrow> bool \<Rightarrow> daemon \<Rightarrow> daemon option" where
  "admin_SetBooleanOverride L path v d =
     SetOverride L path IO_DATA_TYPE_BOOLEAN (stamp (dataSample_CreateBoolean L (dbl_of_int 0) v) d)"

definition admin_SetNumericOverride :: "legato \<Rightarrow> string \<Rightarrow> double \<Rightarrow> daemon \<Rightarrow> daemon option" where
  "admin_SetNumericOverride L path v d =
     SetOverride L path IO_DATA_TYPE_NUMERIC (stamp (dataSample_CreateNumeric L (dbl_of_int 0) v) d)"

definition admin_SetStringOverride :: "legato \<Rightarrow> string \<Rightarrow> string \<Rightarrow> daemon \<Rightarrow> daemon option" where
  "admin_SetStringOverride L path v d =
     stamp_text (dataSample_CreateString L (dbl_of_int 0) v) d \<bind> SetOverride L path IO_DATA_TYPE_STRING"

definition admin_SetJsonOverride :: "legato \<Rightarrow> string \<Rightarrow> string \<Rightarrow> daemon \<Rightarrow> daemon option" where
  "admin_SetJsonOverride L path v d =
     (if json_IsValid v
      then stamp_text (dataSample_CreateJson L (dbl_of_int 0) v) d \<bind> SetOverride L path IO_DATA_TYPE_JSON
      else Some d)"

definition admin_HasOverride :: "legato \<Rightarrow> string \<Rightarrow> hub \<Rightarrow> bool option" where
  "admin_HasOverride L path h = at_any_resource L path False (resTree_HasOverride h) h"

definition admin_GetOverrideDataType :: "legato \<Rightarrow> string \<Rightarrow> hub \<Rightarrow> io_DataType_t option" where
  "admin_GetOverrideDataType L path h =
     at_any_resource L path IO_DATA_TYPE_TRIGGER (resTree_GetOverrideDataType h) h"

text \<open>The value that is set, if it has the type that is asked for.\<close>

definition typed_override ::
  "io_DataType_t \<Rightarrow> 'a \<Rightarrow> (dataSample_Ref_t \<Rightarrow> 'a option) \<Rightarrow> hub \<Rightarrow> eid \<Rightarrow> 'a option" where
  "typed_override dataType missing use h e = do {
     v \<leftarrow> resTree_GetOverrideValue h e;
     case v of
       None \<Rightarrow> Some missing
     | Some s \<Rightarrow> do {
         t \<leftarrow> resTree_GetOverrideDataType h e;
         if t \<noteq> dataType then Some missing else use s
       }
   }"

definition admin_GetBooleanOverride :: "legato \<Rightarrow> string \<Rightarrow> hub \<Rightarrow> bool option" where
  "admin_GetBooleanOverride L path h = at_any_resource L path False
     (typed_override IO_DATA_TYPE_BOOLEAN False dataSample_GetBoolean h) h"

definition admin_GetNumericOverride :: "legato \<Rightarrow> string \<Rightarrow> hub \<Rightarrow> double option" where
  "admin_GetNumericOverride L path h = at_any_resource L path NAN
     (typed_override IO_DATA_TYPE_NUMERIC NAN dataSample_GetNumeric h) h"

definition admin_GetStringOverride :: "legato \<Rightarrow> string \<Rightarrow> nat \<Rightarrow> hub \<Rightarrow> (le_result_t \<times> string option) option" where
  "admin_GetStringOverride L path valueSize h = at_any_resource L path (LE_NOT_FOUND, None)
     (typed_override IO_DATA_TYPE_STRING (LE_NOT_FOUND, None)
        (\<lambda>s. do {
           str \<leftarrow> dataSample_GetString s;
           let (r, x) = utf8_Copy L str valueSize;
           Some (r, Some x)
         }) h) h"

definition admin_GetJsonOverride :: "legato \<Rightarrow> string \<Rightarrow> nat \<Rightarrow> hub \<Rightarrow> (le_result_t \<times> string option) option" where
  "admin_GetJsonOverride L path valueSize h = at_any_resource L path (LE_NOT_FOUND, None)
     (\<lambda>e. do {
        v \<leftarrow> resTree_GetOverrideValue h e;
        case v of
          None \<Rightarrow> Some (LE_NOT_FOUND, None)
        | Some s \<Rightarrow> do {
            t \<leftarrow> resTree_GetOverrideDataType h e;
            (r, x) \<leftarrow> dataSample_ConvertToJson L s t valueSize;
            Some (r, Some x)
          }
      }) h"

definition admin_RemoveOverride :: "legato \<Rightarrow> string \<Rightarrow> daemon \<Rightarrow> daemon option" where
  "admin_RemoveOverride L path d = at_any_resource L path d (\<lambda>e. on_hub (resTree_RemoveOverride L e) d) (hub_of d)"

subsection \<open>Walking the tree\<close>

definition admin_GetFirstChild :: "legato \<Rightarrow> string \<Rightarrow> nat \<Rightarrow> hub \<Rightarrow> (le_result_t \<times> string option) option" where
  "admin_GetFirstChild L path childSize h = at_path L path (Some (LE_NOT_FOUND, None))
     (\<lambda>e. do {
        childEntry \<leftarrow> resTree_GetFirstChild h e;
        case childEntry of None \<Rightarrow> Some (LE_NOT_FOUND, None) | Some k \<Rightarrow> path_result L childSize k h
      }) h"

definition admin_GetNextSibling :: "legato \<Rightarrow> string \<Rightarrow> nat \<Rightarrow> hub \<Rightarrow> (le_result_t \<times> string option) option" where
  "admin_GetNextSibling L path siblingSize h = at_path L path (Some (LE_NOT_FOUND, None))
     (\<lambda>e. do {
        siblingRef \<leftarrow> resTree_GetNextSibling h e;
        case siblingRef of None \<Rightarrow> Some (LE_NOT_FOUND, None) | Some k \<Rightarrow> path_result L siblingSize k h
      }) h"

definition admin_GetEntryType :: "legato \<Rightarrow> string \<Rightarrow> hub \<Rightarrow> admin_EntryType_t option" where
  "admin_GetEntryType L path h = at_path L path (Some ADMIN_ENTRY_TYPE_NONE) (resTree_GetEntryType h) h"

definition admin_GetUnits :: "legato \<Rightarrow> string \<Rightarrow> nat \<Rightarrow> hub \<Rightarrow> (le_result_t \<times> string option) option" where
  "admin_GetUnits L path unitsBuffSize h = at_any_resource L path (LE_NOT_FOUND, None)
     (\<lambda>e. do {
        units \<leftarrow> resTree_GetUnits h e;
        let (r, s) = utf8_Copy L units unitsBuffSize;
        Some (if r \<noteq> LE_OK then LE_OVERFLOW else LE_OK, Some s)
      }) h"

definition admin_GetDataType :: "legato \<Rightarrow> string \<Rightarrow> hub \<Rightarrow> (le_result_t \<times> io_DataType_t option) option" where
  "admin_GetDataType L path h = at_any_resource L path (LE_NOT_FOUND, None)
     (\<lambda>e. do { t \<leftarrow> resTree_GetDataType h e; Some (LE_OK, Some t) }) h"

subsection \<open>Extended updates\<close>

definition admin_StartUpdate :: "daemon \<Rightarrow> daemon" where
  "admin_StartUpdate d = (let d = ioService_StartUpdate d in with_hub (res_StartUpdate (hub_of d)) d)"

definition admin_EndUpdate :: "legato \<Rightarrow> daemon \<Rightarrow> daemon option" where
  "admin_EndUpdate L d = on_hub (res_EndUpdate L) (ioService_EndUpdate d)"

end
