(* ===== verification/AdminSpec.thy ===== *)
theory AdminSpec
  imports QuerySpec AdminService
begin

text \<open>
  What the admin API promises: calls that respect the rules never stop the daemon and keep its
  invariant.
\<close>

subsection \<open>Resources at absolute paths\<close>

lemma at_path_cases:
  assumes "framework_ok L" "daemon_ok L d" "P missing" "\<And>e. live (hub_of d) e \<Longrightarrow> P (found e)"
  shows "P (at_path L path missing found (hub_of d))"
proof (cases "char_at path = Some (CHR ''/'')")
  case False
  then show ?thesis using assms(3) by (simp add: at_path_def resTree_FindEntryAtAbsolutePath_def)
next
  case True
  obtain r where "resTree_FindEntryAtAbsolutePath L (hub_of d) path = Some r" "\<forall>e. r = Some e \<longrightarrow> live (hub_of d) e"
    using FindEntry_total [OF assms(1) daemon_okD(2,5) [OF assms(2)], of "tl path"] True
    by (auto simp: resTree_FindEntryAtAbsolutePath_def resTree_GetRoot_def live_def)
  then show ?thesis using assms(3,4) by (cases r) (simp_all add: at_path_def)
qed

lemma at_any_resource_cases:
  assumes "framework_ok L" "daemon_ok L d" "P (Some missing)" "\<And>e. has_resource (hub_of d) e \<Longrightarrow> P (found e)"
  shows "P (at_any_resource L path missing found (hub_of d))"
  unfolding at_any_resource_def
proof (rule at_path_cases [where P = P, OF assms(1-3)])
  fix e assume "live (hub_of d) e"
  then obtain y where "entries (hub_of d) e = Some y" by (auto simp: live_def)
  then show "P (do { isres \<leftarrow> resTree_IsResource (hub_of d) e; if \<not> isres then Some missing else found e })"
    using assms(3) assms(4) [of e] by (simp add: resTree_IsResource_def has_resource_def)
qed

text \<open>What is read does not stop the daemon.\<close>

definition answered :: "'a option \<Rightarrow> bool" where
  "answered m \<longleftrightarrow> (\<exists>x. m = Some x)"

lemma answered_simps [simp]: "answered (Some x)" "\<not> answered None"
  by (simp_all add: answered_def)

lemma path_answered:
  assumes "framework_ok L" "daemon_ok L d" "live (hub_of d) e" "0 < n"
  shows "answered (path_result L n e (hub_of d))"
proof -
  let ?h = "hub_of d"
  note tree = hub_okD(1) [OF daemon_okD(2) [OF assms(2)]]
  obtain y where y: "entries ?h e = Some y" using assms(3) by (auto simp: live_def)
  have k: "e < Suc (nextEntry ?h)" using tree_okD(1) [OF tree y] by simp
  show ?thesis
  proof (cases "e = RootPtr ?h")
    case True
    then show ?thesis using assms(4) by (simp add: path_result_def resTree_GetPath_def resTree_GetRoot_def)
  next
    case False
    show ?thesis
      using get_path_full [OF framework_okD(1) [OF assms(1)] tree y False k assms(4)]
      by (auto simp: path_result_def resTree_GetPath_def resTree_GetRoot_def simp del: full_path.simps get_path.simps split: if_splits)
  qed
qed

text \<open>Defaults, overrides and the source of a resource.\<close>

lemma setting_reads:
  assumes "hub_ok L h" "has_resource h e"
  obtains x :: res_Resource_t where "resTree_HasDefault h e = Some (r_defaultValue x \<noteq> None)"
    "resTree_GetDefaultValue h e = Some (r_defaultValue x)" "typed (r_defaultType x) (r_defaultValue x)"
    "r_defaultValue x \<noteq> None \<longrightarrow> resTree_GetDefaultDataType h e = Some (r_defaultType x)"
    "resTree_HasOverride h e = Some (r_overrideValue x \<noteq> None)"
    "resTree_GetOverrideValue h e = Some (r_overrideValue x)" "typed (r_overrideType x) (r_overrideValue x)"
    "r_overrideValue x \<noteq> None \<longrightarrow> resTree_GetOverrideDataType h e = Some (r_overrideType x)"
    "answered (resTree_GetDefaultDataType h e)" "answered (resTree_GetOverrideDataType h e)"
proof -
  obtain y r x where y: "entries h e = Some y" "e_resourcePtr y = Some r" "resources h r = Some x"
    by (rule resource_live [OF assms])
  have "value_ok (nextBuff h) x" by (rule values_okD [OF hub_okD(5) [OF assms(1)] y(3)])
  then show thesis
    using that [of x] y by (auto simp: value_ok_def resTree_HasDefault_def resTree_GetDefaultValue_def resTree_GetDefaultDataType_def
        resTree_HasOverride_def resTree_GetOverrideValue_def resTree_GetOverrideDataType_def with_resource_def
        res_HasDefault_def res_GetDefaultValue_def res_GetDefaultDataType_def res_HasOverride_def res_GetOverrideValue_def
        res_GetOverrideDataType_def)
qed

lemma readers_answered:
  assumes "framework_ok L" "daemon_ok L d"
  shows "answered (admin_IsMandatory L path (hub_of d))" "answered (admin_HasDefault L path (hub_of d))"
    "answered (admin_GetDefaultDataType L path (hub_of d))" "answered (admin_HasOverride L path (hub_of d))"
    "answered (admin_GetOverrideDataType L path (hub_of d))" "answered (admin_GetEntryType L path (hub_of d))"
    "answered (admin_GetUnits L path n (hub_of d))" "answered (admin_GetDataType L path (hub_of d))"
proof -
  note at = at_path_cases [OF assms, where P = answered] and at_any = at_any_resource_cases [OF assms, where P = answered]
  note ok = daemon_okD(2) [OF assms(2)]
  show "answered (admin_IsMandatory L path (hub_of d))" unfolding admin_IsMandatory_def
  proof (rule at, simp)
    fix e assume "live (hub_of d) e"
    then obtain y where y: "entries (hub_of d) e = Some y" by (auto simp: live_def)
    show "answered (resTree_IsMandatory (hub_of d) e)"
    proof (cases "e_type y = ADMIN_ENTRY_TYPE_OUTPUT")
      case True
      then have "of_type (hub_of d) e {ADMIN_ENTRY_TYPE_OUTPUT}" using y by (simp add: of_type_def)
      then have "has_resource (hub_of d) e" by (rule typed_resource [OF ok]) simp
      then obtain r x where r: "e_resourcePtr y = Some r" "resources (hub_of d) r = Some x" "kind_ok (e_type y) (r_sub x)"
        using resource_live [OF ok] y by (metis option.inject)
      then obtain p where "r_sub x = IoPoint p" using True by (cases "r_sub x") auto
      then show ?thesis using y r True by (simp add: resTree_IsMandatory_def resTree_GetEntryType_def with_resource_def
          res_IsMandatory_def ioPoint_IsMandatory_def)
    qed (use y in \<open>simp add: resTree_IsMandatory_def resTree_GetEntryType_def\<close>)
  qed
  show "answered (admin_GetEntryType L path (hub_of d))" unfolding admin_GetEntryType_def
    by (rule at) (auto simp: live_def resTree_GetEntryType_def)
  show "answered (admin_HasDefault L path (hub_of d))" "answered (admin_HasOverride L path (hub_of d))"
    "answered (admin_GetDefaultDataType L path (hub_of d))" "answered (admin_GetOverrideDataType L path (hub_of d))"
    unfolding admin_HasDefault_def admin_HasOverride_def admin_GetDefaultDataType_def admin_GetOverrideDataType_def
    by (rule at_any, simp, erule setting_reads [OF ok], simp)+
  show "answered (admin_GetUnits L path n (hub_of d))" "answered (admin_GetDataType L path (hub_of d))"
    unfolding admin_GetUnits_def admin_GetDataType_def
    by (rule at_any, simp, erule resource_reads [OF ok], simp add: Let_def split_def)+
qed

lemma value_readers_answered:
  assumes "framework_ok L" "daemon_ok L d"
  shows "answered (admin_GetBooleanDefault L path (hub_of d))" "answered (admin_GetNumericDefault L path (hub_of d))"
    "answered (admin_GetStringDefault L path n (hub_of d))" "answered (admin_GetJsonDefault L path n (hub_of d))"
    "answered (admin_GetBooleanOverride L path (hub_of d))" "answered (admin_GetNumericOverride L path (hub_of d))"
    "answered (admin_GetStringOverride L path n (hub_of d))" "answered (admin_GetJsonOverride L path n (hub_of d))"
proof -
  note ok = daemon_okD(2) [OF assms(2)]
  have set: "answered (at_any_resource L path missing (typed_default t missing use (hub_of d)) (hub_of d))"
    "answered (at_any_resource L path missing (typed_override t missing use (hub_of d)) (hub_of d))"
    if "\<And>s. sample_ok t s \<Longrightarrow> answered (use s)" for t use and missing :: 'z
    by (rule at_any_resource_cases [OF assms, where P = answered], simp, erule setting_reads [OF ok],
        use that in \<open>auto simp: typed_default_def typed_override_def sample_fine_def split: option.split\<close>)+
  have gets: "sample_ok IO_DATA_TYPE_BOOLEAN s \<Longrightarrow> answered (dataSample_GetBoolean s)"
    "sample_ok IO_DATA_TYPE_NUMERIC s \<Longrightarrow> answered (dataSample_GetNumeric s)"
    "sample_ok IO_DATA_TYPE_STRING s \<Longrightarrow> answered (do { str \<leftarrow> dataSample_GetString s; let (r, x) = utf8_Copy L str n; Some (r, Some x) })"
    for s
    using sample_gets [of s] by (auto simp: Let_def split_def)
  have json: "answered (do { (r, x) \<leftarrow> dataSample_ConvertToJson L s t n; Some (r, Some x) })" if "sample_ok t s" for s t
    using ConvertToJson_defined [OF that, of L n] by auto
  show "answered (admin_GetBooleanDefault L path (hub_of d))" "answered (admin_GetNumericDefault L path (hub_of d))"
    "answered (admin_GetStringDefault L path n (hub_of d))"
    "answered (admin_GetBooleanOverride L path (hub_of d))" "answered (admin_GetNumericOverride L path (hub_of d))"
    "answered (admin_GetStringOverride L path n (hub_of d))"
    unfolding admin_GetBooleanDefault_def admin_GetNumericDefault_def admin_GetStringDefault_def
      admin_GetBooleanOverride_def admin_GetNumericOverride_def admin_GetStringOverride_def
    by (rule set, erule gets)+
  show "answered (admin_GetJsonDefault L path n (hub_of d))" "answered (admin_GetJsonOverride L path n (hub_of d))"
    unfolding admin_GetJsonDefault_def admin_GetJsonOverride_def
    by (rule at_any_resource_cases [OF assms, where P = answered], simp, erule setting_reads [OF ok],
        use json in \<open>auto simp: sample_fine_def split: option.split\<close>)+
qed

text \<open>Paths of entries.\<close>

lemma next_in_member: "next_in xs e = Some c \<Longrightarrow> c \<in> set xs"
  by (induction xs e rule: next_in.induct) (auto split: if_splits list.splits)

lemma path_readers_answered:
  assumes "framework_ok L" "daemon_ok L d" "0 < n"
  shows "answered (admin_GetFirstChild L path n (hub_of d))" "answered (admin_GetNextSibling L path n (hub_of d))"
    "answered (admin_GetSource L path n (hub_of d))"
proof -
  let ?h = "hub_of d"
  note at = at_path_cases [OF assms(1,2), where P = answered] and path = path_answered [OF assms(1,2) _ assms(3)]
  note ok = daemon_okD(2) [OF assms(2)]
  note tree = hub_okD(1) [OF ok]
  have child: "live ?h c" if "entries ?h e = Some y" "c \<in> set (e_childList y)" for e y c
    using children_okD [OF tree_okD(2) [OF tree that(1)] that(2)] by (auto simp: live_def)
  show "answered (admin_GetFirstChild L path n ?h)" unfolding admin_GetFirstChild_def
  proof (rule at, simp)
    fix e assume "live ?h e"
    then obtain y where y: "entries ?h e = Some y" by (auto simp: live_def)
    then show "answered (do { childEntry \<leftarrow> resTree_GetFirstChild ?h e;
        case childEntry of None \<Rightarrow> Some (LE_NOT_FOUND, None) | Some k \<Rightarrow> path_result L n k ?h })"
      using path [OF child [OF y]] by (simp add: resTree_GetFirstChild_def split: list.split)
  qed
  show "answered (admin_GetNextSibling L path n ?h)" unfolding admin_GetNextSibling_def
  proof (rule at, simp)
    fix e assume "live ?h e"
    then obtain y where y: "entries ?h e = Some y" by (auto simp: live_def)
    show "answered (do { siblingRef \<leftarrow> resTree_GetNextSibling ?h e;
        case siblingRef of None \<Rightarrow> Some (LE_NOT_FOUND, None) | Some k \<Rightarrow> path_result L n k ?h })"
    proof (cases "e_parentPtr y")
      case None
      then show ?thesis using y by (simp add: resTree_GetNextSibling_def)
    next
      case (Some p)
      then obtain z where z: "entries ?h p = Some z"
        using tree_okD(3) [OF tree y] by (auto simp: parent_ok_def split: if_splits)
      then show ?thesis using y Some path [OF child [OF z next_in_member]]
        by (simp add: resTree_GetNextSibling_def split: option.split)
    qed
  qed
  show "answered (admin_GetSource L path n ?h)" unfolding admin_GetSource_def
  proof (rule at_any_resource_cases [OF assms(1,2), where P = answered], simp)
    fix e assume "has_resource ?h e"
    then obtain y r x where y: "entries ?h e = Some y" "e_resourcePtr y = Some r" "resources ?h r = Some x"
      by (rule resource_live [OF ok])
    show "answered (do { srcEntry \<leftarrow> resTree_GetSource ?h e;
        case srcEntry of None \<Rightarrow> Some (LE_NOT_FOUND, None) | Some s \<Rightarrow> path_result L n s ?h })"
    proof (cases "r_srcPtr x")
      case None
      then show ?thesis using y by (simp add: resTree_GetSource_def res_GetSource_def)
    next
      case (Some q)
      then have "source ?h r = Some q" using y(3) by simp
      then obtain z where z: "resources ?h q = Some z" using source_live(2) [OF hub_okD(6) [OF ok]] by blast
      obtain s w where "r_entryRef z = Some s" "entries ?h s = Some w" by (rule attachedE [OF hub_okD(2) [OF ok] z])
      then show ?thesis using y Some z path [of s] by (simp add: resTree_GetSource_def res_GetSource_def live_def)
    qed
  qed
qed

subsection \<open>Pushes and routes\<close>

lemma admin_push_served:
  assumes "framework_ok L" "daemon_ok L d"
  shows "served L (admin_PushTrigger L path ts d)" "served L (admin_PushBoolean L path ts b d)"
    "served L (admin_PushNumeric L path ts v d)"
    "text_ok s \<Longrightarrow> served L (admin_PushString L path ts s d)" "text_ok s \<Longrightarrow> served L (admin_PushJson L path ts s d)"
proof -
  note at = at_path_cases [OF assms, where P = "served L"]
  have same: "served L (Some d)" using assms(2) by (simp add: served_def)
  have p: "goes_well L h {} (resTree_Push L e t x h)"
    if "live (hub_of d) e" "settled L h" "entries h = entries (hub_of d)" "sample_fine t x" for e h t x
    by (rule push_well [OF assms(1) that(2) _ that(4)]) (use that(1) entries_has(2) [OF that(3)] in simp)
  have push: "served L (do { (s, d) \<leftarrow> Some (stamp f d); on_hub (resTree_Push L e t s) d })"
    if "live (hub_of d) e" "\<And>n. sample_fine t (fst (f n))" for e f t
    using served_stamp [where t = t and f = f and g = "resTree_Push L e t", OF assms(2) that(2) p [OF that(1)]] by simp
  have texts: "served L (do { (s, d) \<leftarrow> stamp_text f d; on_hub (resTree_Push L e t s) d })"
    if "live (hub_of d) e" "text_ok s" "f = dataSample_CreateString L ts s \<or> f = dataSample_CreateJson L ts s"
      "t = IO_DATA_TYPE_STRING \<or> t = IO_DATA_TYPE_JSON" for f t e
    by (rule served_stamp_text [OF assms that(2,4,3)]) (rule p [OF that(1)])
  show "served L (admin_PushTrigger L path ts d)" "served L (admin_PushBoolean L path ts b d)"
    "served L (admin_PushNumeric L path ts v d)"
    unfolding admin_PushTrigger_def admin_PushBoolean_def admin_PushNumeric_def admin_push_def
    by (rule at, rule same, rule push; simp)+
  show "served L (admin_PushString L path ts s d)" if "text_ok s"
    unfolding admin_PushString_def admin_push_def by (rule at, rule same, erule texts [OF _ that]) simp_all
  show "served L (admin_PushJson L path ts s d)" if "text_ok s"
    unfolding admin_PushJson_def
    by (rule at, rule same) (use texts [OF _ that, of _ "dataSample_CreateJson L ts s" IO_DATA_TYPE_JSON] same in simp)
qed

text \<open>Asking for a resource keeps the others.\<close>

lemma resource_stays:
  assumes "framework_ok L" "settled L h" "live h base" "has_resource h e" "resTree_GetResource L base path h = Some (r, h')"
  shows "has_resource h' e"
proof -
  obtain q g where g: "GoToEntry L base path True h = Some (q, g)" "hub_ok L g" "grown h g"
    "\<forall>c. q = Some c \<longrightarrow> entries g c \<noteq> None"
    using GoTo_ok [OF assms(1) settledD(1) [OF assms(2)], of base path] assms(3) by (auto simp: live_def)
  have e: "has_resource g e" using assms(4) g(3) unfolding has_resource_def grown_def by metis
  show ?thesis
  proof (cases q)
    case None
    then show ?thesis using g(1) assms(5) e by (simp add: resTree_GetResource_def)
  next
    case (Some c)
    then obtain y where y: "entries g c = Some y" using g(4) by auto
    show ?thesis
    proof (cases "e_type y = ADMIN_ENTRY_TYPE_NAMESPACE")
      case True
      then have "e_type y \<noteq> ADMIN_ENTRY_TYPE_OBSERVATION" by simp
      note rep = Replace_ok(1) [OF framework_okD(1) [OF assms(1)] g(2) y fresh_placeholder this]
      have "h' = placed L c y ADMIN_ENTRY_TYPE_PLACEHOLDER (res_Construct c) g"
        using g(1) y Some True rep assms(5) by (simp add: resTree_GetResource_def CreatePlaceholder_new)
      then show ?thesis using e placed_entry(1) [OF y, of L] by (auto simp: has_resource_def)
    next
      case False
      then show ?thesis using g(1) y Some assms(5) e no_none_type [OF hub_okD(2) [OF g(2)] y]
        by (cases "e_type y") (auto simp: resTree_GetResource_def)
    qed
  qed
qed

text \<open>A route is made between two resources.\<close>

definition distinct_ends :: "legato \<Rightarrow> string \<Rightarrow> string \<Rightarrow> hub \<Rightarrow> bool" where
  "distinct_ends L destPath srcPath h \<longleftrightarrow>
     (\<forall>dest g src g'. resTree_GetResource L (RootPtr h) destPath h = Some (Some dest, g) \<longrightarrow>
        resTree_GetResource L (RootPtr g) srcPath g = Some (Some src, g') \<longrightarrow> dest \<noteq> src)"

lemma source_served:
  assumes "framework_ok L" "daemon_ok L d" "distinct_ends L destPath srcPath (hub_of d)"
  shows "served L (map_option snd (admin_SetSource L destPath srcPath d))"
proof -
  obtain q h where h: "resTree_GetResource L (resTree_GetRoot (hub_of d)) destPath (hub_of d) = Some (q, h)"
    "daemon_ok L (with_hub h d)" "\<forall>e. q = Some e \<longrightarrow> has_resource h e"
    by (rule root_resource [OF assms(1,2)]) (rule that)
  have v1: "via_hub (resTree_GetResource L (resTree_GetRoot (hub_of d)) destPath) d = Some (q, with_hub h d)"
    using h(1) by (simp add: via_hub_def)
  show ?thesis
  proof (cases q)
    case None
    then show ?thesis using v1 h(2) by (simp add: admin_SetSource_def served_def)
  next
    case (Some dest)
    obtain p g where g: "resTree_GetResource L (resTree_GetRoot (hub_of (with_hub h d))) srcPath (hub_of (with_hub h d)) = Some (p, g)"
      "daemon_ok L (with_hub g (with_hub h d))" "\<forall>e. p = Some e \<longrightarrow> has_resource g e"
      by (rule root_resource [OF assms(1) h(2)]) (rule that)
    have v2: "via_hub (resTree_GetResource L (resTree_GetRoot h) srcPath) (with_hub h d) = Some (p, with_hub g d)"
      using g(1) by (simp add: via_hub_def)
    show ?thesis
    proof (cases p)
      case None
      then show ?thesis using v1 v2 Some g(2) by (simp add: admin_SetSource_def served_def)
    next
      case (Some src)
      have "live h (RootPtr h)" using daemon_okD(5) [OF h(2)] by (simp add: live_def)
      then have "has_resource g dest"
        using resource_stays [OF assms(1) _ _ _ g(1) [unfolded with_hub_simps(1) resTree_GetRoot_def]] daemon_okD(1) [OF h(2)] h(3) \<open>q = Some dest\<close> by simp
      moreover have "dest \<noteq> src"
        using assms(3) h(1) g(1) \<open>q = Some dest\<close> Some by (auto simp: distinct_ends_def resTree_GetRoot_def)
      moreover have "live g src" using g(3) Some by (auto simp: has_resource_def live_def)
      moreover have "settled L g" using daemon_okD(1) [OF g(2)] by simp
      ultimately have "goes_well L (hub_of (with_hub g d)) {} (map_option snd (resTree_SetSource L dest (Some src) (hub_of (with_hub g d))))"
        using route_well [OF assms(1), of g dest "Some src"] by auto
      then have "\<exists>x h'. via_hub (resTree_SetSource L dest (Some src)) (with_hub g d) = Some (x, with_hub h' d) \<and> daemon_ok L (with_hub h' d)"
        using via_hub_ok [of L "with_hub g d"] g(2) by fastforce
      then show ?thesis using v1 v2 Some \<open>q = Some dest\<close> by (auto simp: admin_SetSource_def served_def)
    qed
  qed
qed

lemma no_source_served:
  assumes "framework_ok L" "daemon_ok L d"
  shows "served L (admin_RemoveSource L destPath d)"
proof -
  obtain q where q: "resTree_FindEntry L (hub_of d) (RootPtr (hub_of d)) destPath = Some q" "\<forall>e. q = Some e \<longrightarrow> entries (hub_of d) e \<noteq> None"
    using FindEntry_total [OF assms(1) daemon_okD(2,5) [OF assms(2)]] by blast
  show ?thesis
  proof (cases q)
    case None
    then show ?thesis using q(1) assms(2) by (simp add: admin_RemoveSource_def resTree_GetRoot_def served_def)
  next
    case (Some e)
    then obtain y where y: "entries (hub_of d) e = Some y" using q(2) by auto
    show ?thesis
    proof (cases "e_resourcePtr y")
      case None
      then show ?thesis using q(1) y Some assms(2)
        by (simp add: admin_RemoveSource_def resTree_GetRoot_def resTree_IsResource_def served_def)
    next
      case (Some r)
      then have "has_resource (hub_of d) e" using y by (simp add: has_resource_def)
      then have "goes_well L (hub_of d) {} (map_option snd (resTree_SetSource L e None (hub_of d)))"
        using route_well [OF assms(1) daemon_okD(1) [OF assms(2)], of e None] by simp
      then have "\<exists>x h'. via_hub (resTree_SetSource L e None) d = Some (x, with_hub h' d) \<and> daemon_ok L (with_hub h' d)"
        using via_hub_ok [OF assms(2)] by blast
      then show ?thesis using q(1) y Some \<open>q = Some e\<close>
        by (auto simp: admin_RemoveSource_def resTree_GetRoot_def resTree_IsResource_def served_def)
    qed
  qed
qed

subsection \<open>Defaults and overrides\<close>

lemma setter_served:
  assumes "framework_ok L" "daemon_ok L d" "sample_fine t v"
  shows "served L (SetDefault L path t (v, d))" "served L (SetOverride L path t (v, d))"
proof -
  obtain q h where h: "resTree_GetResource L (resTree_GetRoot (hub_of d)) path (hub_of d) = Some (q, h)"
    "daemon_ok L (with_hub h d)" "\<forall>e. q = Some e \<longrightarrow> has_resource h e"
    by (rule root_resource [OF assms(1,2)]) (rule that)
  have v: "via_hub (resTree_GetResource L (resTree_GetRoot (hub_of d)) path) d = Some (q, with_hub h d)"
    using h(1) by (simp add: via_hub_def)
  show "served L (SetDefault L path t (v, d))" "served L (SetOverride L path t (v, d))"
  proof (atomize (full), cases q)
    case None
    then show "served L (SetDefault L path t (v, d)) \<and> served L (SetOverride L path t (v, d))"
      using v h(2) by (simp add: SetDefault_def SetOverride_def served_def)
  next
    case (Some e)
    then have has: "has_resource h e" using h(3) by simp
    have s: "settled L h" using daemon_okD(1) [OF h(2)] by simp
    have "served L (on_hub (resTree_SetDefault L e t v) (with_hub h d))"
      by (rule served_with_hub [where f = "resTree_SetDefault L e t v", OF h(2) default_well(1) [OF assms(1) s has assms(3)]])
    moreover have "served L (on_hub (resTree_SetOverride L e t v) (with_hub h d))"
      by (rule served_with_hub [where f = "resTree_SetOverride L e t v", OF h(2) default_well(2) [OF assms(1) s has assms(3)]])
    ultimately show "served L (SetDefault L path t (v, d)) \<and> served L (SetOverride L path t (v, d))"
      using v Some by (simp add: SetDefault_def SetOverride_def)
  qed
qed

lemma setters_served:
  assumes "framework_ok L" "daemon_ok L d"
  shows "served L (admin_SetBooleanDefault L path b d)" "served L (admin_SetNumericDefault L path v d)"
    "text_ok s \<Longrightarrow> served L (admin_SetStringDefault L path s d)" "text_ok s \<Longrightarrow> served L (admin_SetJsonDefault L path s d)"
    "served L (admin_SetBooleanOverride L path b d)" "served L (admin_SetNumericOverride L path v d)"
    "text_ok s \<Longrightarrow> served L (admin_SetStringOverride L path s d)" "text_ok s \<Longrightarrow> served L (admin_SetJsonOverride L path s d)"
proof -
  have number: "served L (SetDefault L path t (stamp f d))" "served L (SetOverride L path t (stamp f d))"
    if "\<And>n. sample_fine t (fst (f n))" for f t
    using stamp_ok [OF assms(2), of t f] that setter_served [OF assms(1)] by force+
  have texts: "served L (stamp_text f d \<bind> SetDefault L path t)" "served L (stamp_text f d \<bind> SetOverride L path t)"
    if "text_ok s" "f = dataSample_CreateString L (dbl_of_int 0) s \<or> f = dataSample_CreateJson L (dbl_of_int 0) s"
      "t = IO_DATA_TYPE_STRING \<or> t = IO_DATA_TYPE_JSON" for f t
  proof -
    note given = that
    obtain v n where v: "stamp_text f d = Some (v, with_hub ((hub_of d)\<lparr>clock := n\<rparr>) d)" "sample_fine t v"
      "daemon_ok L (with_hub ((hub_of d)\<lparr>clock := n\<rparr>) d)"
      using stamp_text_ok [OF assms(2) framework_okD(1) [OF assms(1)] _ given(3,2)] given(1) by (auto simp: text_ok_def)
    then show "served L (stamp_text f d \<bind> SetDefault L path t)" "served L (stamp_text f d \<bind> SetOverride L path t)"
      using setter_served [OF assms(1) v(3,2)] by simp_all
  qed
  have same: "served L (Some d)" using assms(2) by (simp add: served_def)
  show "served L (admin_SetBooleanDefault L path b d)" "served L (admin_SetNumericDefault L path v d)"
    "served L (admin_SetBooleanOverride L path b d)" "served L (admin_SetNumericOverride L path v d)"
    unfolding admin_SetBooleanDefault_def admin_SetNumericDefault_def admin_SetBooleanOverride_def admin_SetNumericOverride_def
    by (rule number, simp)+
  show "served L (admin_SetStringDefault L path s d)" "served L (admin_SetStringOverride L path s d)"
    "served L (admin_SetJsonDefault L path s d)" "served L (admin_SetJsonOverride L path s d)" if "text_ok s"
    using texts [OF that] same
    by (simp_all add: admin_SetStringDefault_def admin_SetStringOverride_def admin_SetJsonDefault_def admin_SetJsonOverride_def)
qed

lemma removers_served:
  assumes "framework_ok L" "daemon_ok L d"
  shows "served L (admin_RemoveDefault L path d)" "served L (admin_RemoveOverride L path d)"
proof -
  note at = at_any_resource_cases [OF assms, where P = "served L"]
  have same: "served L (Some d)" using assms(2) by (simp add: served_def)
  show "served L (admin_RemoveDefault L path d)" "served L (admin_RemoveOverride L path d)"
    unfolding admin_RemoveDefault_def admin_RemoveOverride_def
    by (rule at, rule same, rule served_on_hub [OF assms(2)], erule remove_well [OF assms(1) daemon_okD(1) [OF assms(2)]])+
qed

subsection \<open>Observations\<close>

lemma ObsNamespace_ok:
  assumes "framework_ok L" "daemon_ok L d"
  obtains ns h where "GetObsNamespace L (hub_of d) = Some (ns, h)" "daemon_ok L (with_hub h d)" "obs_namespace h" "live h ns"
    "backupFiles h = backupFiles (hub_of d)" "resTree_FindEntry L h (RootPtr h) ''obs'' = Some (Some ns)"
proof -
  let ?h = "hub_of d"
  note ok = daemon_okD [OF assms(2)]
  have n: "name_ok L ''obs''" using framework_okD(2) [OF assms(1)] by (simp add: name_ok_def illegal_in_path_def)
  obtain c h y where h: "resTree_GetEntry L (RootPtr ?h) ''obs'' ?h = Some (Some c, h)" "hub_ok L h" "grown ?h h" "sprouted ?h h"
    "entries h c = Some y" "e_parentPtr y = Some (RootPtr ?h)" "e_name y = ''obs''"
    "resTree_FindEntry L h (RootPtr ?h) ''obs'' = Some (Some c)"
    using child_entry [OF assms(1) ok(2,5) n] by blast
  have "owned h" using GoToEntry_owned [OF ok(3)] h(1) unfolding resTree_GetEntry_def by blast
  then have "daemon_ok L (with_hub h d)"
    using with_hub_ok [OF assms(2) _ kept_grown [OF h(3)]] h(2) by (simp add: settled_def)
  moreover have "obs_namespace h"
  proof -
    have p: "parent_ok h c y" by (rule tree_okD(3) [OF hub_okD(1) [OF h(2)] h(5)])
    then obtain x where "entries h (RootPtr ?h) = Some x" "c \<in> set (e_childList x)"
      using h(6) by (auto simp: parent_ok_def split: if_splits)
    then show ?thesis using h(5,7) sprouted_frame(6) [OF h(4)] by (auto simp: obs_namespace_def name_of_def)
  qed
  moreover have "backupFiles h = backupFiles ?h"
    using h(4) unfolding sprouted_def by (metis hub.select_convs hub.surjective hub.update_convs)
  ultimately show thesis
    using that [of c h] h(1,5,8) sprouted_frame(6) [OF h(4)] by (simp add: GetObsNamespace_def resTree_GetRoot_def live_def)
qed

text \<open>Observations can be created while there is no backup to restore.\<close>

definition no_backups :: "daemon \<Rightarrow> bool" where
  "no_backups d \<longleftrightarrow> backupFiles (hub_of d) = Map.empty"

lemma admin_GetObservation_ok:
  assumes "framework_ok L" "daemon_ok L d" "no_backups d"
  obtains q h where "via_hub (GetObservation L path) d = Some (q, with_hub h d)" "daemon_ok L (with_hub h d)"
    "\<forall>e. q = Some e \<longrightarrow> of_type h e {ADMIN_ENTRY_TYPE_OBSERVATION}"
proof (cases "obs_relative path")
  case None
  then show thesis using that [of None "hub_of d"] assms(2) by (simp add: via_hub_def GetObservation_def)
next
  case (Some p)
  obtain ns g where g: "GetObsNamespace L (hub_of d) = Some (ns, g)" "daemon_ok L (with_hub g d)" "obs_namespace g" "live g ns"
    "backupFiles g = backupFiles (hub_of d)"
    by (rule ObsNamespace_ok [OF assms(1,2)])
  have "settled L g" "backupFiles g = Map.empty" using daemon_okD(1) [OF g(2)] g(5) assms(3) by (simp_all add: no_backups_def)
  then obtain q h where h: "resTree_GetObservation L ns p g = Some (q, h)" "settled L h" "kept {} g h"
    "\<forall>e. q = Some e \<longrightarrow> of_type h e {ADMIN_ENTRY_TYPE_OBSERVATION}"
    using GetObservation_ok [OF assms(1) _ g(4,3), of p] by blast
  have "daemon_ok L (with_hub h d)" using with_hub_ok [OF g(2) h(2)] h(3) by simp
  then show thesis using that [of q h] g(1) h(1,4) Some by (simp add: via_hub_def GetObservation_def)
qed

definition observed :: "legato \<Rightarrow> string \<Rightarrow> daemon \<Rightarrow> (hub \<Rightarrow> eid \<Rightarrow> bool) \<Rightarrow> bool" where
  "observed L path d P \<longleftrightarrow> (\<forall>e d'. via_hub (GetObservation L path) d = Some (Some e, d') \<longrightarrow> P (hub_of d') e)"

lemma set_observation_served:
  assumes "framework_ok L" "daemon_ok L d" "no_backups d"
    "\<And>h e. settled L h \<Longrightarrow> of_type h e {ADMIN_ENTRY_TYPE_OBSERVATION} \<Longrightarrow>
       via_hub (GetObservation L path) d = Some (Some e, with_hub h d) \<Longrightarrow> goes_well L h {} (set_it e h)"
  shows "served L (set_observation L path set_it d)"
proof -
  obtain q h where h: "via_hub (GetObservation L path) d = Some (q, with_hub h d)" "daemon_ok L (with_hub h d)"
    "\<forall>e. q = Some e \<longrightarrow> of_type h e {ADMIN_ENTRY_TYPE_OBSERVATION}"
    by (rule admin_GetObservation_ok [OF assms(1-3)])
  show ?thesis
  proof (cases q)
    case None
    then show ?thesis using h(1,2) by (simp add: set_observation_def served_def)
  next
    case (Some e)
    then have "goes_well L h {} (set_it e h)" using assms(4) h daemon_okD(1) [OF h(2)] by simp
    then have "served L (on_hub (set_it e) (with_hub h d))" by (rule served_with_hub [OF h(2)])
    then show ?thesis using h(1) Some by (simp add: set_observation_def)
  qed
qed

text \<open>A new period for the backups, while none is scheduled.\<close>

definition backup_rests :: "32 word \<Rightarrow> hub \<Rightarrow> eid \<Rightarrow> bool" where
  "backup_rests seconds h e \<longleftrightarrow>
     (\<forall>x ob. resource_at h e = Some x \<longrightarrow> r_sub x = Observation ob \<longrightarrow>
        o_backupPeriod ob = seconds \<or> o_maxCount ob = 0 \<or>
        seconds \<noteq> 0 \<and> (o_sampleList ob = [] \<or> o_backupPeriod ob = 0 \<or> o_backupTimer ob = None))"

lemma backup_period_well:
  assumes "settled L h" "of_type h e {ADMIN_ENTRY_TYPE_OBSERVATION}" "backup_rests seconds h e"
  shows "goes_well L h {} (resTree_SetBufferBackupPeriod L e seconds h)"
proof -
  obtain y r x ob where y: "entries h e = Some y" "e_resourcePtr y = Some r" "resources h r = Some x" "r_sub x = Observation ob"
    "obs_ok ob (nextBuff h)" by (rule observation [OF settledD(1) [OF assms(1)] assms(2)])
  have rests: "o_backupPeriod ob = seconds \<or> o_maxCount ob = 0 \<or>
        seconds \<noteq> 0 \<and> (o_sampleList ob = [] \<or> o_backupPeriod ob = 0 \<or> o_backupTimer ob = None)"
    using assms(3) y by (auto simp: backup_rests_def resource_at_def)
  have g: "get_obs h r = Some ob" using y by (simp add: get_obs_def)
  let ?ob = "ob\<lparr>o_backupPeriod := seconds\<rparr>"
  have "obs_ok ?ob (nextBuff h)" using y(5) by (simp add: obs_ok_def buffer_ok_def)
  note put = evolves_well [OF assms(1) refl put_obs_well [OF assms(1) y(3,4) this]]
  have same: "goes_well L h {} (Some h)" using settledD [OF assms(1)] by (auto intro: goes_same)
  have "resTree_SetBufferBackupPeriod L e seconds h =
      (if o_backupPeriod ob = seconds then Some h else Some (put_obs r ?ob h))"
    using y(1,2) g rests by (auto simp: resTree_SetBufferBackupPeriod_def with_resource_def res_SetBufferBackupPeriod_def
        obs_SetBufferBackupPeriod_def Let_def)
  then show ?thesis using put same by simp
qed

lemma observation_setters_served:
  assumes "framework_ok L" "daemon_ok L d" "no_backups d"
  shows "served L (map_option snd (admin_CreateObs L path d))" "served L (map_option snd (admin_GetTransform L path d))"
    "served L (admin_SetMinPeriod L path v d)" "served L (admin_SetHighLimit L path v d)"
    "served L (admin_SetLowLimit L path v d)" "served L (admin_SetChangeBy L path v d)"
    "served L (admin_SetTransform L path t d)"
    "length spec \<le> ADMIN_MAX_JSON_EXTRACTOR_LEN \<Longrightarrow> served L (admin_SetJsonExtraction L path spec d)"
    "observed L path d buffers_only \<Longrightarrow> served L (admin_SetBufferMaxCount L path n d)"
    "observed L path d (backup_rests n) \<Longrightarrow> served L (admin_SetBufferBackupPeriod L path n d)"
proof -
  obtain q h where h: "via_hub (GetObservation L path) d = Some (q, with_hub h d)" "daemon_ok L (with_hub h d)"
    "\<forall>e. q = Some e \<longrightarrow> of_type h e {ADMIN_ENTRY_TYPE_OBSERVATION}"
    by (rule admin_GetObservation_ok [OF assms])
  show "served L (map_option snd (admin_CreateObs L path d))" using h(1,2) by (simp add: admin_CreateObs_def served_def)
  show "served L (map_option snd (admin_GetTransform L path d))"
  proof (cases q)
    case None
    then show ?thesis using h(1,2) by (simp add: admin_GetTransform_def served_def)
  next
    case (Some e)
    obtain y r x ob where "entries h e = Some y" "e_resourcePtr y = Some r" "resources h r = Some x" "r_sub x = Observation ob"
      using observation [of L h e] daemon_okD(2) [OF h(2)] h(3) Some by (metis with_hub_simps(1))
    then have "resTree_GetTransform h e = Some (o_transformType ob)"
      by (simp add: resTree_GetTransform_def with_resource_def res_GetTransform_def obs_GetTransform_def get_obs_def)
    then show ?thesis using h(1,2) Some by (simp add: admin_GetTransform_def served_def)
  qed
  note at = set_observation_served [OF assms]
  show "served L (admin_SetMinPeriod L path v d)" "served L (admin_SetHighLimit L path v d)"
    "served L (admin_SetLowLimit L path v d)" "served L (admin_SetChangeBy L path v d)"
    "served L (admin_SetTransform L path t d)"
    unfolding admin_SetMinPeriod_def admin_SetHighLimit_def admin_SetLowLimit_def admin_SetChangeBy_def admin_SetTransform_def
    by (rule at, (erule (1) obs_settings_well transform_well)+)+
  show "served L (admin_SetJsonExtraction L path spec d)" if "length spec \<le> ADMIN_MAX_JSON_EXTRACTOR_LEN"
    unfolding admin_SetJsonExtraction_def by (rule at, rule extraction_well [OF assms(1) _ _ that])
  show "served L (admin_SetBufferMaxCount L path n d)" if "observed L path d buffers_only"
    unfolding admin_SetBufferMaxCount_def
    by (rule at, erule buffer_size_well) (use that in \<open>simp add: observed_def\<close>)
  show "served L (admin_SetBufferBackupPeriod L path n d)" if "observed L path d (backup_rests n)"
    unfolding admin_SetBufferBackupPeriod_def
    by (rule at, erule (1) backup_period_well) (use that in \<open>simp add: observed_def\<close>)
qed

text \<open>Asking for a setting of an observation that is not there stops the daemon.\<close>

definition observation_there :: "legato \<Rightarrow> string \<Rightarrow> hub \<Rightarrow> bool" where
  "observation_there L path h \<longleftrightarrow>
     (\<forall>p ns g. obs_relative path = Some p \<longrightarrow> GetObsNamespace L h = Some (ns, g) \<longrightarrow> resTree_FindEntry L g ns p \<noteq> Some None)"

lemma admin_FindObservation_ok:
  assumes "framework_ok L" "daemon_ok L d" "observation_there L path (hub_of d)"
  obtains q h where "via_hub (admin_FindObservation L path) d = Some (q, with_hub h d)" "daemon_ok L (with_hub h d)"
    "\<forall>e. q = Some e \<longrightarrow> of_type h e {ADMIN_ENTRY_TYPE_OBSERVATION}"
proof (cases "obs_relative path")
  case None
  then show thesis using that [of None "hub_of d"] assms(2) by (simp add: via_hub_def admin_FindObservation_def)
next
  case (Some p)
  obtain ns g where g: "GetObsNamespace L (hub_of d) = Some (ns, g)" "daemon_ok L (with_hub g d)" "live g ns"
    by (rule ObsNamespace_ok [OF assms(1,2)])
  have "entries g ns \<noteq> None" "hub_ok L g" using g(3) daemon_okD(2) [OF g(2)] by (simp_all add: live_def)
  then obtain m where "resTree_FindEntry L g ns p = Some m" "\<forall>e. m = Some e \<longrightarrow> entries g e \<noteq> None"
    using FindEntry_total [OF assms(1)] by blast
  moreover have "m \<noteq> None" using assms(3) Some g(1) calculation(1) by (auto simp: observation_there_def)
  ultimately obtain e y where e: "resTree_FindEntry L g ns p = Some (Some e)" "entries g e = Some y" by auto
  show thesis
    using that [of "if e_type y = ADMIN_ENTRY_TYPE_OBSERVATION then Some e else None" g] g(1,2) e Some
    by (simp add: via_hub_def admin_FindObservation_def resTree_GetEntryType_def of_type_def)
qed

lemma get_observation_served:
  assumes "framework_ok L" "daemon_ok L d" "observation_there L path (hub_of d)"
    "\<And>h e y r ob. entries h e = Some y \<Longrightarrow> e_resourcePtr y = Some r \<Longrightarrow> get_obs h r = Some ob \<Longrightarrow>
       e_type y = ADMIN_ENTRY_TYPE_OBSERVATION \<Longrightarrow> answered (get h e)"
  shows "served L (map_option snd (get_observation L path otherwise get d))"
proof -
  obtain q h where h: "via_hub (admin_FindObservation L path) d = Some (q, with_hub h d)" "daemon_ok L (with_hub h d)"
    "\<forall>e. q = Some e \<longrightarrow> of_type h e {ADMIN_ENTRY_TYPE_OBSERVATION}"
    by (rule admin_FindObservation_ok [OF assms(1-3)])
  show ?thesis
  proof (cases q)
    case None
    then show ?thesis using h(1,2) by (simp add: get_observation_def served_def)
  next
    case (Some e)
    then have t: "of_type h e {ADMIN_ENTRY_TYPE_OBSERVATION}" and ok: "hub_ok L h" using h(3) daemon_okD(2) [OF h(2)] by simp_all
    obtain y r x ob where "entries h e = Some y" "e_resourcePtr y = Some r" "resources h r = Some x" "r_sub x = Observation ob"
      by (rule observation [OF ok t])
    then have "answered (get h e)" using assms(4) [of h e y r ob] t by (simp add: get_obs_def of_type_def)
    then show ?thesis using h(1,2) Some by (auto simp: get_observation_def served_def answered_def)
  qed
qed

lemma observation_getters_served:
  assumes "framework_ok L" "daemon_ok L d" "observation_there L path (hub_of d)"
  shows "served L (map_option snd (admin_GetMinPeriod L path d))" "served L (map_option snd (admin_GetHighLimit L path d))"
    "served L (map_option snd (admin_GetLowLimit L path d))" "served L (map_option snd (admin_GetChangeBy L path d))"
    "served L (map_option snd (admin_GetJsonExtraction L path n d))"
    "served L (map_option snd (admin_GetBufferMaxCount L path d))" "served L (map_option snd (admin_GetBufferBackupPeriod L path d))"
  unfolding admin_GetMinPeriod_def admin_GetHighLimit_def admin_GetLowLimit_def admin_GetChangeBy_def admin_GetJsonExtraction_def
    admin_GetBufferMaxCount_def admin_GetBufferBackupPeriod_def
  by (rule get_observation_served [OF assms], simp add: resTree_GetMinPeriod_def resTree_GetHighLimit_def resTree_GetLowLimit_def
      resTree_GetChangeBy_def resTree_GetJsonExtraction_def resTree_GetBufferMaxCount_def resTree_GetBufferBackupPeriod_def
      with_resource_def with_observation_def obs_wrapper_defs obs_GetMinPeriod_def obs_GetHighLimit_def obs_GetLowLimit_def
      obs_GetChangeBy_def obs_GetJsonExtraction_def obs_GetBufferMaxCount_def obs_GetBufferBackupPeriod_def Let_def split_def)+

text \<open>Deletion: of an idle observation that is a leaf. What is below the namespace of the observations is no app's.\<close>

definition deletable :: "legato \<Rightarrow> string \<Rightarrow> hub \<Rightarrow> bool" where
  "deletable L path h \<longleftrightarrow>
     (\<forall>ns e. resTree_FindEntry L h (RootPtr h) ''obs'' = Some (Some ns) \<longrightarrow>
        resTree_FindEntry L h ns path = Some (Some e) \<longrightarrow> idle h e \<and> inner_leaf h e)"

lemma obs_child:
  assumes "framework_ok L" "hub_ok L h" "resTree_FindEntry L h (RootPtr h) ''obs'' = Some (Some ns)"
  obtains w where "entries h ns = Some w" "e_parentPtr w = Some (RootPtr h)" "e_name w = ''obs''"
proof -
  have n: "name_ok L ''obs''" using framework_okD(2) [OF assms(1)] by (simp add: name_ok_def illegal_in_path_def)
  note tree = hub_okD(1) [OF assms(2)]
  obtain x where x: "entries h (RootPtr h) = Some x" using tree by (auto simp: tree_ok_def)
  have "resTree_FindChild h (RootPtr h) ''obs'' = Some (Some ns)"
    using assms(3) by (auto simp: resTree_FindEntry_def GoToEntry_def name_legal [OF n] name_path [OF n] split: option.splits if_splits)
  note c = FindChild_Some [OF tree x this]
  obtain w where "entries h ns = Some w" "e_parentPtr w = Some (RootPtr h)"
    using children_okD [OF tree_okD(2) [OF tree x] c(1)] by blast
  then show thesis using that c(2) by (simp add: name_of_def)
qed

lemma obs_no_app:
  assumes "framework_ok L" "hub_ok L h" "resTree_FindEntry L h (RootPtr h) ''obs'' = Some (Some ns)"
    "resTree_FindEntry L h ns path = Some (Some e)" "inner_leaf h e"
  shows "\<not> app_namespace h e"
proof
  assume app: "app_namespace h e"
  note tree = hub_okD(1) [OF assms(2)]
  obtain w where w: "entries h ns = Some w" "e_parentPtr w = Some (RootPtr h)" "e_name w = ''obs''"
    by (rule obs_child [OF assms(1-3)])
  have "path \<noteq> []"
  proof
    assume "path = []"
    then have "e = ns" using assms(4) by (simp add: resTree_FindEntry_def GoToEntry_def GoToEntryLoop_nil)
    then show False using assms(5) w by (auto simp: inner_leaf_def)
  qed
  have live: "entries h ns \<noteq> None" using w(1) by simp
  obtain y p where y: "entries h e = Some y" "e_parentPtr y = Some p"
    "p = ns \<or> (\<exists>z q. entries h p = Some z \<and> e_parentPtr z = Some q \<and> ns \<le> q)"
    by (rule found_below [OF tree assms(4) \<open>path \<noteq> []\<close> live])
  obtain z where z: "entries h p = Some z" "e_parentPtr z = Some (RootPtr h)" "e_name z = ''app''"
    using app y(1,2) by (auto simp: app_namespace_def)
  have "RootPtr h < ns" using tree_okD(3) [OF tree w(1)] w(2) by (auto simp: parent_ok_def split: if_splits)
  then show False using y(3) z w(1,3) by auto
qed

lemma delete_obs_served:
  assumes "framework_ok L" "daemon_ok L d" "deletable L path (hub_of d)"
  shows "served L (admin_DeleteObs L path d)"
proof -
  let ?h = "hub_of d"
  note ok = daemon_okD [OF assms(2)]
  have same: "served L (Some d)" using assms(2) by (simp add: served_def)
  obtain q where q: "resTree_FindEntry L ?h (RootPtr ?h) ''obs'' = Some q" "\<forall>e. q = Some e \<longrightarrow> entries ?h e \<noteq> None"
    using FindEntry_total [OF assms(1) ok(2,5)] by blast
  show ?thesis
  proof (cases q)
    case None
    then show ?thesis using q(1) same by (simp add: admin_DeleteObs_def resTree_GetRoot_def)
  next
    case (Some ns)
    then obtain p where p: "resTree_FindEntry L ?h ns path = Some p"
      using FindEntry_total [OF assms(1) ok(2), of ns path] q(2) by auto
    show ?thesis
    proof (cases p)
      case None
      then show ?thesis using q(1) Some p same by (simp add: admin_DeleteObs_def resTree_GetRoot_def)
    next
      case (Some e)
      then have e: "idle ?h e" "inner_leaf ?h e"
        using assms(3) q(1) p \<open>q = Some ns\<close> by (auto simp: deletable_def)
      have no_app: "\<not> app_namespace ?h e"
        using obs_no_app [OF assms(1) ok(2)] q(1) p e(2) \<open>q = Some ns\<close> Some by blast
      obtain h' where h': "resTree_DeleteObservation L e ?h = Some h'" "settled L h'" "kept {e} ?h h'"
        using delete_observation [OF assms(1) ok(1) e(1,2)] by (rule goes_wellE)
      obtain y where y: "entries ?h e = Some y" "e_childList y = []" using e(2) by (auto simp: inner_leaf_def)
      have "app_namespace h' b" if b: "contextPtr d s = Some b" for s b
      proof (rule app_namespace_kept [OF ok(4) [OF b] h'(3)])
        show "b \<notin> {e}" using no_app ok(4) [OF b] by auto
        fix v r assume v: "entries ?h b = Some v" "e_parentPtr v = Some r"
        then obtain w where "entries ?h r = Some w" "b \<in> set (e_childList w)"
          using tree_okD(3) [OF hub_okD(1) [OF ok(2)] v(1)] by (auto simp: parent_ok_def split: if_splits)
        then show "r \<notin> {e}" using y by auto
      qed
      then have "daemon_ok L (with_hub h' d)" using h'(2) by (simp add: daemon_ok_def)
      then show ?thesis
        using q(1) p Some \<open>q = Some ns\<close> h'(1) by (simp add: admin_DeleteObs_def resTree_GetRoot_def on_hub_def served_def)
    qed
  qed
qed

subsection \<open>Extended updates\<close>

lemma updates_served:
  assumes "framework_ok L" "daemon_ok L d"
  shows "daemon_ok L (admin_StartUpdate d)" "served L (admin_EndUpdate L d)"
proof -
  have a: "daemon_ok L (ioService_StartUpdate d)" "daemon_ok L (ioService_EndUpdate d)"
    using update_told_ok [OF assms(2)] by (simp_all add: ioService_StartUpdate_def ioService_EndUpdate_def)
  obtain h where h: "perform L StartUpdate (hub_of (ioService_StartUpdate d)) = Some h" "settled L h"
    "kept {} (hub_of (ioService_StartUpdate d)) h"
    using perform_well [OF assms(1) daemon_okD(1) [OF a(1)], of StartUpdate] by (auto simp: goes_well_def)
  then show "daemon_ok L (admin_StartUpdate d)"
    using with_hub_ok [OF a(1) h(2,3)] by (simp add: admin_StartUpdate_def Let_def resTree_StartUpdate_def)
  have "goes_well L (hub_of (ioService_EndUpdate d)) {} (res_EndUpdate L (hub_of (ioService_EndUpdate d)))"
    using perform_well [OF assms(1) daemon_okD(1) [OF a(2)], of EndUpdate] by (simp add: resTree_EndUpdate_def)
  then show "served L (admin_EndUpdate L d)" unfolding admin_EndUpdate_def by (rule served_on_hub [OF a(2)])
qed

end
