(* ===== verification/DaemonSpec.thy ===== *)
theory DaemonSpec
  imports AdminSpec
begin

text \<open>
  The daemon as its clients see it: sequences of calls of the three services by any number of clients.
  Every call that respects the rules is served, and the invariant holds after every sequence of
  them.
\<close>

subsection \<open>Calls of the admin API\<close>

datatype obs_setting =
    MinPeriodTo double
  | HighLimitTo double
  | LowLimitTo double
  | ChangeByTo double
  | TransformTo obs_TransformType_t
  | ExtractionTo string
  | BufferSizeTo "32 word"
  | BackupPeriodTo "32 word"

datatype obs_asked =
    TheMinPeriod
  | TheHighLimit
  | TheLowLimit
  | TheChangeBy
  | TheTransform
  | TheExtraction nat
  | TheBufferSize
  | TheBackupPeriod

datatype setting = BooleanTo bool | NumericTo double | StringTo string | JsonTo string

datatype asked =
    TheSource nat
  | Mandatory
  | HasDefault
  | DefaultType
  | BooleanDefault
  | NumericDefault
  | StringDefault nat
  | JsonDefault nat
  | HasOverride
  | OverrideType
  | BooleanOverride
  | NumericOverride
  | StringOverride nat
  | JsonOverride nat
  | TheFirstChild nat
  | TheNextSibling nat
  | TheEntryType
  | TheUnits nat
  | TheDataType

datatype admin_call =
    InjectTrigger string double
  | InjectBoolean string double bool
  | InjectNumeric string double double
  | InjectString string double string
  | InjectJson string double string
  | Watch string io_DataType_t nat nat
  | Unwatch io_DataType_t hid
  | Connect string string
  | Disconnect string
  | CreateObservation string
  | DeleteObservation string
  | SetObservation string obs_setting
  | AskObservation string obs_asked
  | SetDefaultTo string setting
  | DropDefault string
  | SetOverrideTo string setting
  | DropOverride string
  | Ask string asked
  | BeginUpdate
  | FinishUpdate

fun admin_add_handler :: "legato \<Rightarrow> client \<Rightarrow> string \<Rightarrow> io_DataType_t \<Rightarrow> nat \<Rightarrow> nat \<Rightarrow> daemon \<Rightarrow> (hid option \<times> daemon) option" where
  "admin_add_handler L c path IO_DATA_TYPE_TRIGGER = admin_AddTriggerPushHandler L c path"
| "admin_add_handler L c path IO_DATA_TYPE_BOOLEAN = admin_AddBooleanPushHandler L c path"
| "admin_add_handler L c path IO_DATA_TYPE_NUMERIC = admin_AddNumericPushHandler L c path"
| "admin_add_handler L c path IO_DATA_TYPE_STRING = admin_AddStringPushHandler L c path"
| "admin_add_handler L c path IO_DATA_TYPE_JSON = admin_AddJsonPushHandler L c path"

fun admin_remove_handler :: "io_DataType_t \<Rightarrow> hid \<Rightarrow> daemon \<Rightarrow> daemon option" where
  "admin_remove_handler IO_DATA_TYPE_TRIGGER = admin_RemoveTriggerPushHandler"
| "admin_remove_handler IO_DATA_TYPE_BOOLEAN = admin_RemoveBooleanPushHandler"
| "admin_remove_handler IO_DATA_TYPE_NUMERIC = admin_RemoveNumericPushHandler"
| "admin_remove_handler IO_DATA_TYPE_STRING = admin_RemoveStringPushHandler"
| "admin_remove_handler IO_DATA_TYPE_JSON = admin_RemoveJsonPushHandler"

text \<open>The readers leave the daemon as it is.\<close>

definition asks :: "'a option \<Rightarrow> daemon \<Rightarrow> daemon option" where
  "asks m d = map_option (\<lambda>_. d) m"

fun serve_setting :: "legato \<Rightarrow> string \<Rightarrow> obs_setting \<Rightarrow> daemon \<Rightarrow> daemon option" where
  "serve_setting L path (MinPeriodTo v) = admin_SetMinPeriod L path v"
| "serve_setting L path (HighLimitTo v) = admin_SetHighLimit L path v"
| "serve_setting L path (LowLimitTo v) = admin_SetLowLimit L path v"
| "serve_setting L path (ChangeByTo v) = admin_SetChangeBy L path v"
| "serve_setting L path (TransformTo t) = admin_SetTransform L path t"
| "serve_setting L path (ExtractionTo spec) = admin_SetJsonExtraction L path spec"
| "serve_setting L path (BufferSizeTo n) = admin_SetBufferMaxCount L path n"
| "serve_setting L path (BackupPeriodTo n) = admin_SetBufferBackupPeriod L path n"

fun serve_obs_asked :: "legato \<Rightarrow> string \<Rightarrow> obs_asked \<Rightarrow> daemon \<Rightarrow> daemon option" where
  "serve_obs_asked L path TheMinPeriod d = map_option snd (admin_GetMinPeriod L path d)"
| "serve_obs_asked L path TheHighLimit d = map_option snd (admin_GetHighLimit L path d)"
| "serve_obs_asked L path TheLowLimit d = map_option snd (admin_GetLowLimit L path d)"
| "serve_obs_asked L path TheChangeBy d = map_option snd (admin_GetChangeBy L path d)"
| "serve_obs_asked L path TheTransform d = map_option snd (admin_GetTransform L path d)"
| "serve_obs_asked L path (TheExtraction n) d = map_option snd (admin_GetJsonExtraction L path n d)"
| "serve_obs_asked L path TheBufferSize d = map_option snd (admin_GetBufferMaxCount L path d)"
| "serve_obs_asked L path TheBackupPeriod d = map_option snd (admin_GetBufferBackupPeriod L path d)"

fun serve_default :: "legato \<Rightarrow> string \<Rightarrow> setting \<Rightarrow> daemon \<Rightarrow> daemon option" where
  "serve_default L path (BooleanTo b) = admin_SetBooleanDefault L path b"
| "serve_default L path (NumericTo v) = admin_SetNumericDefault L path v"
| "serve_default L path (StringTo s) = admin_SetStringDefault L path s"
| "serve_default L path (JsonTo s) = admin_SetJsonDefault L path s"

fun serve_override :: "legato \<Rightarrow> string \<Rightarrow> setting \<Rightarrow> daemon \<Rightarrow> daemon option" where
  "serve_override L path (BooleanTo b) = admin_SetBooleanOverride L path b"
| "serve_override L path (NumericTo v) = admin_SetNumericOverride L path v"
| "serve_override L path (StringTo s) = admin_SetStringOverride L path s"
| "serve_override L path (JsonTo s) = admin_SetJsonOverride L path s"

fun serve_asked :: "legato \<Rightarrow> string \<Rightarrow> asked \<Rightarrow> daemon \<Rightarrow> daemon option" where
  "serve_asked L path (TheSource n) d = asks (admin_GetSource L path n (hub_of d)) d"
| "serve_asked L path Mandatory d = asks (admin_IsMandatory L path (hub_of d)) d"
| "serve_asked L path HasDefault d = asks (admin_HasDefault L path (hub_of d)) d"
| "serve_asked L path DefaultType d = asks (admin_GetDefaultDataType L path (hub_of d)) d"
| "serve_asked L path BooleanDefault d = asks (admin_GetBooleanDefault L path (hub_of d)) d"
| "serve_asked L path NumericDefault d = asks (admin_GetNumericDefault L path (hub_of d)) d"
| "serve_asked L path (StringDefault n) d = asks (admin_GetStringDefault L path n (hub_of d)) d"
| "serve_asked L path (JsonDefault n) d = asks (admin_GetJsonDefault L path n (hub_of d)) d"
| "serve_asked L path HasOverride d = asks (admin_HasOverride L path (hub_of d)) d"
| "serve_asked L path OverrideType d = asks (admin_GetOverrideDataType L path (hub_of d)) d"
| "serve_asked L path BooleanOverride d = asks (admin_GetBooleanOverride L path (hub_of d)) d"
| "serve_asked L path NumericOverride d = asks (admin_GetNumericOverride L path (hub_of d)) d"
| "serve_asked L path (StringOverride n) d = asks (admin_GetStringOverride L path n (hub_of d)) d"
| "serve_asked L path (JsonOverride n) d = asks (admin_GetJsonOverride L path n (hub_of d)) d"
| "serve_asked L path (TheFirstChild n) d = asks (admin_GetFirstChild L path n (hub_of d)) d"
| "serve_asked L path (TheNextSibling n) d = asks (admin_GetNextSibling L path n (hub_of d)) d"
| "serve_asked L path TheEntryType d = asks (admin_GetEntryType L path (hub_of d)) d"
| "serve_asked L path (TheUnits n) d = asks (admin_GetUnits L path n (hub_of d)) d"
| "serve_asked L path TheDataType d = asks (admin_GetDataType L path (hub_of d)) d"

fun admin_serve :: "legato \<Rightarrow> client \<Rightarrow> admin_call \<Rightarrow> daemon \<Rightarrow> daemon option" where
  "admin_serve L c (InjectTrigger path ts) d = admin_PushTrigger L path ts d"
| "admin_serve L c (InjectBoolean path ts b) d = admin_PushBoolean L path ts b d"
| "admin_serve L c (InjectNumeric path ts v) d = admin_PushNumeric L path ts v d"
| "admin_serve L c (InjectString path ts s) d = admin_PushString L path ts s d"
| "admin_serve L c (InjectJson path ts s) d = admin_PushJson L path ts s d"
| "admin_serve L c (Watch path t callbackPtr context) d = map_option snd (admin_add_handler L c path t callbackPtr context d)"
| "admin_serve L c (Unwatch t n) d = admin_remove_handler t n d"
| "admin_serve L c (Connect dest src) d = map_option snd (admin_SetSource L dest src d)"
| "admin_serve L c (Disconnect dest) d = admin_RemoveSource L dest d"
| "admin_serve L c (CreateObservation path) d = map_option snd (admin_CreateObs L path d)"
| "admin_serve L c (DeleteObservation path) d = admin_DeleteObs L path d"
| "admin_serve L c (SetObservation path s) d = serve_setting L path s d"
| "admin_serve L c (AskObservation path q) d = serve_obs_asked L path q d"
| "admin_serve L c (SetDefaultTo path s) d = serve_default L path s d"
| "admin_serve L c (DropDefault path) d = admin_RemoveDefault L path d"
| "admin_serve L c (SetOverrideTo path s) d = serve_override L path s d"
| "admin_serve L c (DropOverride path) d = admin_RemoveOverride L path d"
| "admin_serve L c (Ask path q) d = serve_asked L path q d"
| "admin_serve L c BeginUpdate d = Some (admin_StartUpdate d)"
| "admin_serve L c FinishUpdate d = admin_EndUpdate L d"

text \<open>
  The rules of the admin API: texts have the length the interface admits; buffers for paths are not
  empty; nothing is made its own source; observations are created while there is no backup, their buffers are
  resized while they have no backup period, and what is asked of one needs it to be there.
\<close>

fun setting_proper :: "legato \<Rightarrow> string \<Rightarrow> daemon \<Rightarrow> obs_setting \<Rightarrow> bool" where
  "setting_proper L path d (ExtractionTo spec) = (length spec \<le> ADMIN_MAX_JSON_EXTRACTOR_LEN)"
| "setting_proper L path d (BufferSizeTo n) = observed L path d buffers_only"
| "setting_proper L path d (BackupPeriodTo n) = observed L path d (backup_rests n)"
| "setting_proper L path d _ = True"

fun text_setting_ok :: "setting \<Rightarrow> bool" where
  "text_setting_ok (StringTo s) = text_ok s"
| "text_setting_ok (JsonTo s) = text_ok s"
| "text_setting_ok _ = True"

fun asked_proper :: "asked \<Rightarrow> bool" where
  "asked_proper (TheSource n) = (0 < n)"
| "asked_proper (TheFirstChild n) = (0 < n)"
| "asked_proper (TheNextSibling n) = (0 < n)"
| "asked_proper _ = True"

fun admin_proper :: "legato \<Rightarrow> daemon \<Rightarrow> admin_call \<Rightarrow> bool" where
  "admin_proper L d (InjectString path ts s) = text_ok s"
| "admin_proper L d (InjectJson path ts s) = text_ok s"
| "admin_proper L d (Unwatch t n) = removable (hub_of d) n"
| "admin_proper L d (Connect dest src) = distinct_ends L dest src (hub_of d)"
| "admin_proper L d (CreateObservation path) = no_backups d"
| "admin_proper L d (DeleteObservation path) = deletable L path (hub_of d)"
| "admin_proper L d (SetObservation path s) = (no_backups d \<and> setting_proper L path d s)"
| "admin_proper L d (AskObservation path q) = (if q = TheTransform then no_backups d else observation_there L path (hub_of d))"
| "admin_proper L d (SetDefaultTo path s) = text_setting_ok s"
| "admin_proper L d (SetOverrideTo path s) = text_setting_ok s"
| "admin_proper L d (Ask path q) = asked_proper q"
| "admin_proper L d _ = True"

lemma asks_served: "daemon_ok L d \<Longrightarrow> answered m \<Longrightarrow> served L (asks m d)"
  by (auto simp: asks_def answered_def served_def)

lemma admin_handlers_served:
  assumes "framework_ok L" "daemon_ok L d"
  shows "served L (map_option snd (admin_add_handler L c path t callbackPtr context d))"
    "removable (hub_of d) n \<Longrightarrow> served L (admin_remove_handler t n d)"
  using subscribe_served [OF assms, of c path _ callbackPtr "context"]
    served_on_hub [of L d "handler_Remove n", OF assms(2) unlisten_well [OF daemon_okD(1) [OF assms(2)]]]
  by (cases t; simp add: admin_AddTriggerPushHandler_def admin_AddBooleanPushHandler_def admin_AddNumericPushHandler_def
      admin_AddStringPushHandler_def admin_AddJsonPushHandler_def admin_RemoveTriggerPushHandler_def
      admin_RemoveBooleanPushHandler_def admin_RemoveNumericPushHandler_def admin_RemoveStringPushHandler_def
      admin_RemoveJsonPushHandler_def admin_AddPushHandler_def query_AddPushHandler_def)+

lemma settings_served:
  assumes "framework_ok L" "daemon_ok L d"
  shows "no_backups d \<Longrightarrow> setting_proper L path d s \<Longrightarrow> served L (serve_setting L path s d)"
    "text_setting_ok v \<Longrightarrow> served L (serve_default L path v d)" "text_setting_ok v \<Longrightarrow> served L (serve_override L path v d)"
  by (cases s; simp add: observation_setters_served [OF assms]) (cases v; simp add: setters_served [OF assms])+

lemma asked_served:
  assumes "framework_ok L" "daemon_ok L d"
  shows "asked_proper q \<Longrightarrow> served L (serve_asked L path q d)"
    "if p = TheTransform then no_backups d else observation_there L path (hub_of d) \<Longrightarrow> served L (serve_obs_asked L path p d)"
  by (cases q; simp add: asks_served [OF assms(2)] readers_answered [OF assms] value_readers_answered [OF assms]
      path_readers_answered [OF assms])
    (cases p; simp add: observation_getters_served [OF assms] observation_setters_served(2) [OF assms])

lemma admin_served:
  assumes "framework_ok L" "daemon_ok L d" "admin_proper L d call"
  shows "served L (admin_serve L c call d)"
proof (cases call)
  case BeginUpdate
  then show ?thesis using updates_served [OF assms(1,2)] by (simp add: served_def)
qed (use assms(3) in \<open>simp_all add: admin_push_served [OF assms(1,2)] admin_handlers_served [OF assms(1,2)]
    source_served [OF assms(1,2)] no_source_served [OF assms(1,2)] observation_setters_served(1) [OF assms(1,2)]
    delete_obs_served [OF assms(1,2)] settings_served [OF assms(1,2)] asked_served [OF assms(1,2)]
    removers_served [OF assms(1,2)] updates_served [OF assms(1,2)]\<close>)

subsection \<open>Calls of all clients\<close>

datatype api_call = Io client io_call | Query client query_call | Admin client admin_call

fun serve :: "legato \<Rightarrow> api_call \<Rightarrow> daemon \<Rightarrow> daemon option" where
  "serve L (Io c call) d = io_serve L c call d"
| "serve L (Query c call) d = query_serve L c call d"
| "serve L (Admin c call) d = admin_serve L c call d"

fun proper :: "legato \<Rightarrow> daemon \<Rightarrow> api_call \<Rightarrow> bool" where
  "proper L d (Io c call) = (client_ok L c \<and> io_proper L c d call)"
| "proper L d (Query c call) = (client_ok L c \<and> query_proper L d call)"
| "proper L d (Admin c call) = admin_proper L d call"

inductive serves :: "legato \<Rightarrow> daemon \<Rightarrow> api_call list \<Rightarrow> daemon \<Rightarrow> bool" for L :: legato where
  idle: "serves L d [] d"
| busy: "proper L d call \<Longrightarrow> serve L call d = Some g \<Longrightarrow> serves L g calls d' \<Longrightarrow> serves L d (call # calls) d'"

inductive_simps serves_Nil [simp]: "serves L d [] d'"

inductive_simps serves_Cons: "serves L d (call # calls) d'"

lemma call_served:
  assumes "framework_ok L" "daemon_ok L d" "proper L d call"
  shows "served L (serve L call d)"
  using assms(3) io_served [OF assms(1,2)] query_served [OF assms(1,2)] admin_served [OF assms(1,2)]
  by (cases call) auto

lemma serves_ok:
  assumes "framework_ok L" "serves L d calls d'" "daemon_ok L d"
  shows "daemon_ok L d'"
  using assms(2,3)
proof (induction rule: serves.induct)
  case (busy d call g calls d')
  then show ?case using call_served [OF assms(1) busy.prems busy.hyps(1)] by (simp add: served_def)
qed

subsection \<open>Properties\<close>

text \<open>
  C1: after every sequence of calls of the three services that respect the rules, made by any number of
  clients from the start of the daemon on, the invariant of the daemon holds, and every further
  such call ends without stopping the daemon.
\<close>

theorem daemon_never_stops:
  assumes "framework_ok L" "serves L initial_daemon calls d"
  shows "daemon_ok L d \<and> (\<forall>call. proper L d call \<longrightarrow> (\<exists>d'. serve L call d = Some d'))"
  using serves_ok [OF assms initial_daemon_ok] call_served [OF assms(1)] by (auto simp: served_def)

text \<open>
  C16: after every such sequence all buffers are within their bounds: the units of a resource are cut to
  fewer than \<open>HUB_MAX_UNITS_BYTES\<close> bytes, an observation counts its buffered samples correctly and has at
  most as many as its maximum count, and the current value and every pushed, set or default value fits
  the pool of its type.
\<close>

theorem buffers_bounded:
  assumes "framework_ok L" "serves L initial_daemon calls d" "resources (hub_of d) r = Some x"
  shows "length (r_units x) < HUB_MAX_UNITS_BYTES \<and>
    (\<forall>ob. r_sub x = Observation ob \<longrightarrow> o_count ob = length (o_sampleList ob) \<and> length (o_sampleList ob) \<le> o_maxCount ob) \<and>
    (\<forall>v \<in> {r_currentValue x, r_pushedValue x, r_overrideValue x, r_defaultValue x}. \<forall>s. v = Some s \<longrightarrow> fits (sample_val s))"
proof -
  have "value_ok (nextBuff (hub_of d)) x"
    using values_okD [OF hub_okD(5) [OF daemon_okD(2) [OF serves_ok [OF assms(1,2) initial_daemon_ok]]] assms(3)] .
  then show ?thesis by (auto simp: value_ok_def obs_ok_def buffer_ok_def typed_def sample_fine_def)
qed

subsection \<open>Instances\<close>

text \<open>An app that creates an input and pushes to it, and an administrator that observes it.\<close>

definition sensor :: client where
  "sensor = \<lparr> session = 1, app_name = Some ''gps'' \<rparr>"

definition operator :: client where
  "operator = \<lparr> session = 2, app_name = Some ''hub'' \<rparr>"

definition small_run :: "api_call list" where
  "small_run =
     [Io sensor (CreateInput ''lat'' IO_DATA_TYPE_NUMERIC ''deg''),
      Io sensor (PushNumeric ''lat'' (dbl_of_int 1) (dbl_of_int 5)),
      Query operator (NumericOf ''/app/gps/lat'')]"

definition after_run :: "daemon option" where
  "after_run = fold_option (serve sample_legato) small_run initial_daemon"

lemma clients_ok: "client_ok sample_legato sensor" "client_ok sample_legato operator"
  by (simp_all add: client_ok_def sensor_def operator_def name_ok_def illegal_in_path_def HUB_MAX_ENTRY_NAME_BYTES_def)
    (simp_all add: sample_legato_def)

lemma small_run_serves:
  obtains d where "after_run = Some d" "serves sample_legato initial_daemon small_run d"
proof -
  let ?L = sample_legato
  have p: "proper ?L d (Io sensor (CreateInput ''lat'' IO_DATA_TYPE_NUMERIC ''deg''))"
    "proper ?L d (Io sensor (PushNumeric ''lat'' (dbl_of_int 1) (dbl_of_int 5)))"
    "proper ?L d (Query operator (NumericOf ''/app/gps/lat''))" for d
    by (simp_all add: clients_ok)
  note s = call_served [OF sample_framework_ok]
  obtain d1 where d1: "serve ?L (Io sensor (CreateInput ''lat'' IO_DATA_TYPE_NUMERIC ''deg'')) initial_daemon = Some d1" "daemon_ok ?L d1"
    using s [OF initial_daemon_ok p(1)] by (auto simp: served_def)
  obtain d2 where d2: "serve ?L (Io sensor (PushNumeric ''lat'' (dbl_of_int 1) (dbl_of_int 5))) d1 = Some d2" "daemon_ok ?L d2"
    using s [OF d1(2) p(2)] by (auto simp: served_def)
  obtain d3 where d3: "serve ?L (Query operator (NumericOf ''/app/gps/lat'')) d2 = Some d3"
    using s [OF d2(2) p(3)] by (auto simp: served_def)
  have "serves ?L initial_daemon small_run d3"
    unfolding small_run_def by (rule serves.busy [OF p(1) d1(1) serves.busy [OF p(2) d2(1) serves.busy [OF p(3) d3 serves.idle]]])
  moreover have "after_run = Some d3" unfolding after_run_def small_run_def fold_option.simps d1(1) d2(1) d3
    by (simp only: d1(1) d2(1) d3 bind.simps)
  ultimately show thesis using that by blast
qed

lemma daemon_never_stops_witness:
  "\<exists>d d'. serves sample_legato initial_daemon small_run d \<and> daemon_ok sample_legato d \<and>
     serve sample_legato (Admin operator (SetDefaultTo ''/app/gps/lat'' (NumericTo (dbl_of_int 7)))) d = Some d'"
proof -
  obtain d where d: "after_run = Some d" "serves sample_legato initial_daemon small_run d" by (rule small_run_serves)
  have "proper sample_legato d (Admin operator (SetDefaultTo ''/app/gps/lat'' (NumericTo (dbl_of_int 7))))" by simp
  then show ?thesis using daemon_never_stops [OF sample_framework_ok d(2)] d(2) by blast
qed

lemma buffers_bounded_witness:
  "\<exists>d x. after_run = Some d \<and> resources (hub_of d) 0 = Some x \<and> r_units x = ''deg'' \<and> length (r_units x) < HUB_MAX_UNITS_BYTES"
proof -
  obtain d where d: "after_run = Some d" "serves sample_legato initial_daemon small_run d" by (rule small_run_serves)
  have "map_option (\<lambda>d. map_option r_units (resources (hub_of d) 0)) after_run = Some (Some ''deg'')" by code_simp
  then have "map_option r_units (resources (hub_of d) 0) = Some ''deg''" by (simp only: d(1) option.map option.inject)
  then obtain x where "resources (hub_of d) 0 = Some x" "r_units x = ''deg''" by blast
  then show ?thesis using buffers_bounded [OF sample_framework_ok d(2)] d(1) by blast
qed

end
