(* ===== verification/IoContract.thy ===== *)
theory IoContract
  imports DaemonSpec
begin

text \<open>
  Contracts of the I/O API over several calls: creating a resource again, fetching what was pushed, and
  what an empty path does.
\<close>

subsection \<open>Creating\<close>

text \<open>
  C13: with units that fit, creating an input gives \<open>LE_OK\<close>, \<open>LE_DUPLICATE\<close> or, for a malformed path,
  \<open>LE_FAULT\<close>; after \<open>LE_OK\<close> a second creation changes nothing and gives \<open>LE_OK\<close> if data type and units
  are the same, \<open>LE_DUPLICATE\<close> if they are not, and creating an output there gives \<open>LE_DUPLICATE\<close>.
\<close>

theorem CreateInput_contract:
  assumes "framework_ok L" "daemon_ok L d" "client_ok L c" "length units < HUB_MAX_UNITS_BYTES"
  shows "\<exists>r d'. io_CreateInput L c path t units d = Some (r, d') \<and> r \<in> {LE_OK, LE_DUPLICATE, LE_FAULT} \<and>
    (r = LE_OK \<longrightarrow>
       (\<forall>t' units'. io_CreateInput L c path t' units' d' =
          Some (if t' = t \<and> units' = units then LE_OK else LE_DUPLICATE, d')) \<and>
       (\<forall>t' units'. io_CreateOutput L c path t' units' d' = Some (LE_DUPLICATE, d')))"
proof -
  have "ADMIN_ENTRY_TYPE_INPUT = ADMIN_ENTRY_TYPE_INPUT \<and> resTree_GetInput L = resTree_GetInput L \<or>
      ADMIN_ENTRY_TYPE_INPUT = ADMIN_ENTRY_TYPE_OUTPUT \<and> resTree_GetInput L = resTree_GetOutput L" by simp
  then obtain r d' where r: "io_CreateInput L c path t units d = Some (r, d')" "r \<in> {LE_OK, LE_DUPLICATE, LE_FAULT}"
    "r = LE_OK \<longrightarrow> io_at L c path ADMIN_ENTRY_TYPE_INPUT t units d'"
    using create_ok [OF assms(1-3), of ADMIN_ENTRY_TYPE_INPUT "resTree_GetInput L" path t units] assms(4)
    by (auto simp: create_calls)
  have "is_io ADMIN_ENTRY_TYPE_INPUT" "is_io ADMIN_ENTRY_TYPE_OUTPUT" by (simp_all add: is_io_def)
  then show ?thesis using r create_again [of L c path ADMIN_ENTRY_TYPE_INPUT t units d'] by (auto simp: create_calls)
qed

subsection \<open>Pushing and fetching\<close>

text \<open>Nothing overrides or suspends the resource at a path.\<close>

definition undisturbed :: "legato \<Rightarrow> client \<Rightarrow> string \<Rightarrow> daemon \<Rightarrow> bool" where
  "undisturbed L c path d \<longleftrightarrow>
     (\<forall>ns e x. contextPtr d (session c) = Some ns \<longrightarrow> resTree_FindEntry L (hub_of d) ns path = Some (Some e) \<longrightarrow>
        resource_at (hub_of d) e = Some x \<longrightarrow> r_overrideValue x = None \<and> \<not> r_isConfigChanging x)"

text \<open>Where a resource is, it is found.\<close>

lemma io_at_found:
  assumes "io_at L c path k t units d" "is_io k"
  obtains e y r x where "io_FindResource L c path d = Some (Some e, d)" "entries (hub_of d) e = Some y" "e_type y = k"
    "e_resourcePtr y = Some r" "resources (hub_of d) r = Some x" "r_currentType x = t"
    "undisturbed L c path d \<longrightarrow> r_overrideValue x = None \<and> \<not> r_isConfigChanging x"
proof -
  obtain ns e y x where e: "contextPtr d (session c) = Some ns" "resTree_FindEntry L (hub_of d) ns path = Some (Some e)"
    "entries (hub_of d) e = Some y" "e_type y = k" "resource_at (hub_of d) e = Some x" "r_currentType x = t"
    using assms(1) by (auto simp: io_at_def)
  obtain r where r: "e_resourcePtr y = Some r" "resources (hub_of d) r = Some x"
    using e(3,5) by (auto simp: resource_at_def bind_eq_Some_conv)
  have "io_FindResource L c path d = Some (Some e, d)"
    using e assms(2) by (simp add: io_FindResource_def hub_GetClientNamespace_def find_in_def resTree_GetEntryType_def)
  then show thesis using that e r by (auto simp: undisturbed_def)
qed

text \<open>A sample of its type that is pushed is what is found there afterwards.\<close>

lemma pushed_found:
  assumes "framework_ok L" "daemon_ok L d" "io_at L c path k t units d" "is_io k" "undisturbed L c path d" "sample_fine t s"
  obtains e h' where "io_FindResource L c path d = Some (Some e, d)"
    "on_hub (resTree_Push L e t s) (with_hub ((hub_of d)\<lparr>clock := n\<rparr>) d) = Some (with_hub h' d)"
    "io_FindResource L c path (with_hub h' d) = Some (Some e, with_hub h' d)"
    "resTree_GetDataType h' e = Some t" "resTree_GetCurrentValue h' e = Some (Some s)"
proof -
  obtain e y r x where e: "io_FindResource L c path d = Some (Some e, d)" "entries (hub_of d) e = Some y" "e_type y = k"
    "e_resourcePtr y = Some r" "resources (hub_of d) r = Some x" "r_currentType x = t"
    "r_overrideValue x = None" "\<not> r_isConfigChanging x"
    using io_at_found [OF assms(3,4)] assms(5) by metis
  let ?h = "(hub_of d)\<lparr>clock := n\<rparr>"
  have ok: "hub_ok L ?h" using clock_ok(1) [OF daemon_okD(2) [OF assms(2)]] .
  have "kind_ok (e_type y) (r_sub x)"
    by (rule attachedE [OF hub_okD(2) [OF daemon_okD(2) [OF assms(2)]] e(5)])
      (metis e(2,4) hub_okD(2) [OF daemon_okD(2) [OF assms(2)]] entry_resource e(5) option.inject)
  then obtain p where p: "r_sub x = IoPoint p" using e(3) assms(4) by (cases "r_sub x") (auto simp: is_io_def)
  have "io_dataType p = t"
    using values_okD [OF hub_okD(5) [OF ok], of r x] e(5,6) p by (simp add: value_ok_def)
  moreover have "resources ?h r = Some x" using e(5) by simp
  ultimately obtain h' where h': "res_Push L r t None s ?h = Some h'" "has t s h' r" "stirs (reach ?h r) ?h h'"
    using push_io [OF ok assms(1) _ assms(6) p _ e(7,8)] by blast
  have frame: "entries h' = entries (hub_of d)" "RootPtr h' = RootPtr (hub_of d)"
    using evolves_entries [OF stirs_evolves [OF h'(3)]] by simp_all
  have "same_names (hub_of d) h'" using frame by (simp add: same_names_def)
  note names = same_names_FindEntry [OF this]
  have "e_type y \<noteq> ADMIN_ENTRY_TYPE_NAMESPACE" "e_type y \<noteq> ADMIN_ENTRY_TYPE_NONE" using e(3) assms(4) by (auto simp: is_io_def)
  then have "on_hub (resTree_Push L e t s) (with_hub ?h d) = Some (with_hub h' d)"
    using e(2,4) h'(1) by (simp add: on_hub_def resTree_Push_def)
  moreover have "io_FindResource L c path (with_hub h' d) = Some (Some e, with_hub h' d)"
    using assms(3) e(1,2) frame(1) names
    by (auto simp: io_at_def io_FindResource_def hub_GetClientNamespace_def find_in_def resTree_GetEntryType_def)
  moreover have "resTree_GetDataType h' e = Some t" "resTree_GetCurrentValue h' e = Some (Some s)"
    using h'(2) e(2,4) frame(1) by (auto simp: has_def resTree_GetDataType_def resTree_GetCurrentValue_def with_resource_def
        res_GetDataType_def res_GetCurrentValue_def)
  ultimately show thesis using that e(1) by blast
qed

lemma CreateSample_shape:
  "\<exists>ts' n. CreateSample L ts v clk = (\<lparr> timestamp = ts', sample_val = v \<rparr>, n) \<and> (\<not> dbl_eq ts IO_NOW \<longrightarrow> ts' = ts)"
  by (simp add: CreateSample_def Let_def split_def)

text \<open>A push of a value of a type, and a fetch of a value of a type, by the calls the API has for them.\<close>

definition app_push ::
  "legato \<Rightarrow> client \<Rightarrow> string \<Rightarrow> double \<Rightarrow> io_DataType_t \<Rightarrow> sample_value \<Rightarrow> daemon \<Rightarrow> daemon option" where
  "app_push L c path ts t v =
     (case v of
        VTrigger \<Rightarrow> io_PushTrigger L c path ts
      | VBool b \<Rightarrow> io_PushBoolean L c path ts b
      | VNum x \<Rightarrow> io_PushNumeric L c path ts x
      | VStr s \<Rightarrow> if t = IO_DATA_TYPE_JSON then io_PushJson L c path ts s else io_PushString L c path ts s)"

definition fetched_as :: "('a \<Rightarrow> sample_value) \<Rightarrow> 'a fetched \<Rightarrow> sample_value fetched" where
  "fetched_as f = map_prod (map_prod id (map_option (map_prod id f))) id"

definition app_fetch ::
  "legato \<Rightarrow> client \<Rightarrow> string \<Rightarrow> io_DataType_t \<Rightarrow> nat \<Rightarrow> daemon \<Rightarrow> sample_value fetched option" where
  "app_fetch L c path t n d =
     (case t of
        IO_DATA_TYPE_TRIGGER \<Rightarrow> map_option (fetched_as (\<lambda>_. VTrigger)) (io_GetTimestamp L c path d)
      | IO_DATA_TYPE_BOOLEAN \<Rightarrow> map_option (fetched_as VBool) (io_GetBoolean L c path d)
      | IO_DATA_TYPE_NUMERIC \<Rightarrow> map_option (fetched_as VNum) (io_GetNumeric L c path d)
      | IO_DATA_TYPE_STRING \<Rightarrow> map_option (fetched_as VStr) (io_GetString L c path n d)
      | IO_DATA_TYPE_JSON \<Rightarrow> map_option (fetched_as VStr) (io_GetJson L c path n d))"

text \<open>A value of exactly the type, which a string fits its buffers for, and which is JSON where it has to be.\<close>

definition sendable :: "io_DataType_t \<Rightarrow> sample_value \<Rightarrow> bool" where
  "sendable t v =
     (case v of
        VTrigger \<Rightarrow> t = IO_DATA_TYPE_TRIGGER
      | VBool b \<Rightarrow> t = IO_DATA_TYPE_BOOLEAN
      | VNum x \<Rightarrow> t = IO_DATA_TYPE_NUMERIC
      | VStr s \<Rightarrow> length s < HUB_MAX_STRING_BYTES \<and>
          (t = IO_DATA_TYPE_STRING \<or> t = IO_DATA_TYPE_JSON \<and> json_IsValid s))"

lemma sent_found:
  assumes "framework_ok L" "daemon_ok L d" "io_at L c path k t units d" "is_io k" "undisturbed L c path d" "sendable t v"
  obtains d' e ts' where "app_push L c path ts t v d = Some d'"
    "io_FindResource L c path d' = Some (Some e, d')" "resTree_GetDataType (hub_of d') e = Some t"
    "resTree_GetCurrentValue (hub_of d') e = Some (Some \<lparr> timestamp = ts', sample_val = v \<rparr>)"
    "\<not> dbl_eq ts IO_NOW \<longrightarrow> ts' = ts"
proof -
  obtain ts' n where s: "CreateSample L ts v (clock (hub_of d)) = (\<lparr> timestamp = ts', sample_val = v \<rparr>, n)"
    "\<not> dbl_eq ts IO_NOW \<longrightarrow> ts' = ts"
    using CreateSample_shape by metis
  have fine: "sample_fine t \<lparr> timestamp = ts', sample_val = v \<rparr>"
    using assms(6) by (auto simp: sendable_def sample_fine_def sample_ok_def fits_def split: sample_value.splits)
  obtain e h' where found: "io_FindResource L c path d = Some (Some e, d)"
    "on_hub (resTree_Push L e t \<lparr> timestamp = ts', sample_val = v \<rparr>) (with_hub ((hub_of d)\<lparr>clock := n\<rparr>) d) = Some (with_hub h' d)"
    "io_FindResource L c path (with_hub h' d) = Some (Some e, with_hub h' d)"
    "resTree_GetDataType h' e = Some t"
    "resTree_GetCurrentValue h' e = Some (Some \<lparr> timestamp = ts', sample_val = v \<rparr>)"
    using pushed_found [OF assms(1-5) fine, of n] by metis
  have string: "dataSample_CreateString L ts x (clock (hub_of d)) = Some (\<lparr> timestamp = ts', sample_val = v \<rparr>, n)"
    if "v = VStr x" for x
    using CreateString_fits [OF framework_okD(1) [OF assms(1)], of x ts "clock (hub_of d)"] that assms(6) s(1)
    by (simp add: sendable_def)
  have "app_push L c path ts t v d = Some (with_hub h' d)"
    using assms(6) found(1,2) s(1) string
    by (cases v) (auto simp: app_push_def sendable_def io_PushTrigger_def io_PushBoolean_def io_PushNumeric_def io_PushString_def
        io_PushJson_def at_resource_def stamp_def stamp_text_def dataSample_CreateTrigger_def dataSample_CreateBoolean_def
        dataSample_CreateNumeric_def dataSample_CreateJson_def)
  then show thesis using that found(3-5) s(2) by simp
qed


subsection \<open>The empty path\<close>

text \<open>
  An app that creates an input at the empty path turns its own namespace into the input; when it
  deletes it, the context pointer of its session is left dangling, and its next call stops the daemon.
\<close>

theorem empty_path_stops:
  "fold_option (serve sample_legato)
     [Io sensor (CreateInput [] IO_DATA_TYPE_NUMERIC []), Io sensor (DeleteResource [])] initial_daemon \<noteq> None \<and>
   fold_option (serve sample_legato)
     [Io sensor (CreateInput [] IO_DATA_TYPE_NUMERIC []), Io sensor (DeleteResource []), Io sensor (GetNumeric ''lat'')]
     initial_daemon = None"
proof -
  have "(fold_option (serve sample_legato)
     [Io sensor (CreateInput [] IO_DATA_TYPE_NUMERIC []), Io sensor (DeleteResource [])] initial_daemon = None) = False"
    by code_simp
  moreover have "(fold_option (serve sample_legato)
     [Io sensor (CreateInput [] IO_DATA_TYPE_NUMERIC []), Io sensor (DeleteResource []), Io sensor (GetNumeric ''lat'')]
     initial_daemon = None) = True"
    by code_simp
  ultimately show ?thesis by blast
qed

subsection \<open>Instances\<close>

definition created :: "(le_result_t \<times> daemon) option" where
  "created = io_CreateInput sample_legato sensor ''lat'' IO_DATA_TYPE_NUMERIC ''deg'' initial_daemon"

lemma created_ok:
  obtains d where "created = Some (LE_OK, d)" "daemon_ok sample_legato d"
    "io_at sample_legato sensor ''lat'' ADMIN_ENTRY_TYPE_INPUT IO_DATA_TYPE_NUMERIC ''deg'' d"
proof -
  obtain r d where r: "created = Some (r, d)" "daemon_ok sample_legato d"
    "r = LE_OK \<longrightarrow> io_at sample_legato sensor ''lat'' ADMIN_ENTRY_TYPE_INPUT IO_DATA_TYPE_NUMERIC ''deg'' d"
    using create_ok [OF sample_framework_ok initial_daemon_ok clients_ok(1), of ADMIN_ENTRY_TYPE_INPUT "resTree_GetInput sample_legato" "''lat''"
        IO_DATA_TYPE_NUMERIC "''deg''"]
    by (auto simp: created_def create_calls HUB_MAX_UNITS_BYTES_def)
  have "map_option fst created = Some LE_OK" by code_simp
  then have "r = LE_OK" by (simp only: r(1) option.map fst_conv option.inject)
  then show thesis using that r by blast
qed

lemma CreateInput_contract_witness:
  "\<exists>d. io_CreateInput sample_legato sensor ''lat'' IO_DATA_TYPE_NUMERIC ''deg'' initial_daemon = Some (LE_OK, d) \<and>
     io_CreateInput sample_legato sensor ''lat'' IO_DATA_TYPE_NUMERIC ''m'' d = Some (LE_DUPLICATE, d)"
proof -
  obtain d where d: "created = Some (LE_OK, d)" by (rule created_ok)
  have "length ''deg'' < HUB_MAX_UNITS_BYTES" by (simp add: HUB_MAX_UNITS_BYTES_def)
  then show ?thesis
    using CreateInput_contract [OF sample_framework_ok initial_daemon_ok clients_ok(1), of "''deg''" "''lat''" IO_DATA_TYPE_NUMERIC] d
    by (auto simp: created_def)
qed

lemma created_undisturbed:
  assumes "created = Some (LE_OK, d)"
  shows "undisturbed sample_legato sensor ''lat'' d"
proof -
  have "map_option (\<lambda>(_, d). do {
      ns \<leftarrow> contextPtr d 1;
      e \<leftarrow> Option.bind (resTree_FindEntry sample_legato (hub_of d) ns ''lat'') (\<lambda>e. e);
      map_option (\<lambda>x. r_overrideValue x = None \<and> \<not> r_isConfigChanging x) (resource_at (hub_of d) e) }) created = Some (Some True)"
    by code_simp
  then show ?thesis unfolding assms by (auto simp: undisturbed_def sensor_def)
qed


end
