(* ===== verification/AdminContract.thy ===== *)
theory AdminContract
  imports IoContract
begin

text \<open>
  Contracts of the admin API over several calls: what is set on an observation or a resource is what is
  then asked for, and what asking for an observation that is not there does.
\<close>

subsection \<open>Settings of observations\<close>

text \<open>An observation that was asked for is found again in every state with the same entries.\<close>

lemma observation_found:
  assumes "framework_ok L" "daemon_ok L d" "no_backups d" "via_hub (GetObservation L path) d = Some (Some e, d1)"
  obtains h where "d1 = with_hub h d" "daemon_ok L (with_hub h d)" "of_type h e {ADMIN_ENTRY_TYPE_OBSERVATION}"
    "\<And>g. entries g = entries h \<Longrightarrow> RootPtr g = RootPtr h \<Longrightarrow> admin_FindObservation L path g = Some (Some e, g)"
    "\<And>g. entries g = entries h \<Longrightarrow> RootPtr g = RootPtr h \<Longrightarrow> GetObservation L path g = Some (Some e, g)"
proof -
  obtain p where p: "obs_relative path = Some p" using assms(4) by (auto simp: via_hub_def GetObservation_def split: option.splits)
  obtain ns g where g: "GetObsNamespace L (hub_of d) = Some (ns, g)" "daemon_ok L (with_hub g d)" "obs_namespace g" "live g ns"
    "backupFiles g = backupFiles (hub_of d)" "resTree_FindEntry L g (RootPtr g) ''obs'' = Some (Some ns)"
    by (rule ObsNamespace_ok [OF assms(1,2)])
  note ok = daemon_okD(2) [OF g(2), simplified]
  have "settled L g" "backupFiles g = Map.empty" using daemon_okD(1) [OF g(2)] g(5) assms(3) by (simp_all add: no_backups_def)
  then obtain q h where h: "resTree_GetObservation L ns p g = Some (q, h)" "settled L h" "kept {} g h"
    "\<forall>e. q = Some e \<longrightarrow> of_type h e {ADMIN_ENTRY_TYPE_OBSERVATION} \<and> resTree_FindEntry L h ns p = Some (Some e)"
    using GetObservation_ok [OF assms(1) _ g(4,3), of p] by blast
  have q: "q = Some e" "d1 = with_hub h d" using assms(4) p g(1) h(1) by (auto simp: via_hub_def GetObservation_def)
  have e: "of_type h e {ADMIN_ENTRY_TYPE_OBSERVATION}" "resTree_FindEntry L h ns p = Some (Some e)" using h(4) q(1) by simp_all
  obtain w where w: "entries g ns = Some w" "e_parentPtr w = Some (RootPtr g)" "e_name w = ''obs''"
    by (rule obs_child [OF assms(1) ok g(6)])
  obtain z where z: "entries h ns = Some z" "e_parentPtr z = Some (RootPtr h)" "e_name z = ''obs''"
    using keptD [OF h(3) w(1)] w kept_root [OF h(3)] by auto
  note tree = hub_okD(1) [OF settledD(1) [OF h(2)]]
  obtain x where x: "entries h (RootPtr h) = Some x" "ns \<in> set (e_childList x)"
    using tree_okD(3) [OF tree z(1)] z(2) by (auto simp: parent_ok_def split: if_splits)
  have n: "name_ok L ''obs''" using framework_okD(2) [OF assms(1)] by (simp add: name_ok_def illegal_in_path_def)
  have "resTree_FindChild h (RootPtr h) ''obs'' = Some (Some ns)"
    using FindChild_child [OF tree x] z(1,3) by (simp add: name_of_def)
  then have obs: "resTree_FindEntry L h (RootPtr h) ''obs'' = Some (Some ns)"
    by (simp add: resTree_FindEntry_def GoToEntry_def name_legal [OF n] name_path [OF n] illegal_in_path_def)
  have "admin_FindObservation L path h' = Some (Some e, h') \<and> GetObservation L path h' = Some (Some e, h')"
    if h': "entries h' = entries h" "RootPtr h' = RootPtr h" for h'
  proof -
    have "same_names h h'" using h' by (simp add: same_names_def)
    note names = same_names_FindEntry [OF this]
    have "resTree_GetEntry L (RootPtr h') ''obs'' h' = Some (Some ns, h')"
      unfolding resTree_GetEntry_def using GoToEntry_found names obs h'(2) by simp
    moreover have "GoToEntry L ns p True h' = Some (Some e, h')" using GoToEntry_found names e(2) by simp
    moreover obtain y where "entries h' e = Some y" "e_type y = ADMIN_ENTRY_TYPE_OBSERVATION" using e(1) h'(1) by (auto simp: of_type_def)
    ultimately show ?thesis
      using p names e(2)
      by (simp add: admin_FindObservation_def GetObservation_def resTree_GetObservation_def GetObsNamespace_def
          resTree_GetRoot_def resTree_GetEntryType_def)
  qed
  moreover have "daemon_ok L (with_hub h d)" using with_hub_ok [OF g(2) h(2)] h(3) by simp
  ultimately show thesis using that q(2) e(1) by blast
qed

text \<open>
  A setting that leaves the tree alone is asked for with success: by the readers, which look for the observation,
  and by the one that creates it when it is not there.
\<close>

lemma setting_kept:
  assumes "framework_ok L" "daemon_ok L d" "no_backups d" "via_hub (GetObservation L path) d = Some (Some e, d1)"
    "\<And>h y r x ob. hub_ok L h \<Longrightarrow> d1 = with_hub h d \<Longrightarrow> entries h e = Some y \<Longrightarrow> e_resourcePtr y = Some r \<Longrightarrow>
       e_type y = ADMIN_ENTRY_TYPE_OBSERVATION \<Longrightarrow> resources h r = Some x \<Longrightarrow> r_sub x = Observation ob \<Longrightarrow>
       obs_ok ob (nextBuff h) \<Longrightarrow>
       \<exists>h' ob'. set_it e h = Some h' \<and> entries h' = entries h \<and> RootPtr h' = RootPtr h \<and> get_obs h' r = Some ob' \<and> P ob'"
    "\<And>h y r ob. entries h e = Some y \<Longrightarrow> e_type y = ADMIN_ENTRY_TYPE_OBSERVATION \<Longrightarrow> e_resourcePtr y = Some r \<Longrightarrow>
       get_obs h r = Some ob \<Longrightarrow> P ob \<Longrightarrow> get h e = Some v"
  shows "\<exists>d'. set_observation L path set_it d = Some d' \<and> get_observation L path otherwise get d' = Some (v, d') \<and>
    via_hub (GetObservation L path) d' = Some (Some e, d') \<and> get (hub_of d') e = Some v"
proof -
  obtain h where h: "d1 = with_hub h d" "daemon_ok L (with_hub h d)" "of_type h e {ADMIN_ENTRY_TYPE_OBSERVATION}"
    "\<And>g. entries g = entries h \<Longrightarrow> RootPtr g = RootPtr h \<Longrightarrow> admin_FindObservation L path g = Some (Some e, g)"
    "\<And>g. entries g = entries h \<Longrightarrow> RootPtr g = RootPtr h \<Longrightarrow> GetObservation L path g = Some (Some e, g)"
    using observation_found [OF assms(1-4)] by blast
  have ok: "hub_ok L h" using daemon_okD(2) [OF h(2)] by simp
  obtain y r x ob where y: "entries h e = Some y" "e_resourcePtr y = Some r" "resources h r = Some x" "r_sub x = Observation ob"
    "obs_ok ob (nextBuff h)"
    by (rule observation [OF ok h(3)])
  have t: "e_type y = ADMIN_ENTRY_TYPE_OBSERVATION" using h(3) y(1) by (simp add: of_type_def)
  obtain h' ob' where h': "set_it e h = Some h'" "entries h' = entries h" "RootPtr h' = RootPtr h" "get_obs h' r = Some ob'" "P ob'"
    using assms(5) [OF ok h(1) y(1,2) t y(3-5)] by blast
  have "get h' e = Some v" using assms(6) [of h' y r ob'] y(1,2) t h' by simp
  moreover have "set_observation L path set_it d = Some (with_hub h' d)"
    using assms(4) h(1) h'(1) by (simp add: set_observation_def on_hub_def)
  ultimately show ?thesis
    using h(4,5) [OF h'(2,3)] by (intro exI [of _ "with_hub h' d"]) (simp add: get_observation_def via_hub_def)
qed

lemma marked:
  assumes "get_obs h r = Some ob"
  shows "\<exists>h'. mark_changing r h = Some h' \<and> entries h' = entries h \<and> RootPtr h' = RootPtr h \<and> get_obs h' r = Some ob"
  using assms by (cases "IsUpdateInProgress h") (auto simp: mark_changing_def update_res_def put_res_def get_obs_Some)

lemma put_obs_kept:
  "get_obs h r = Some ob \<Longrightarrow> get_obs (put_obs r ob' h) r = Some ob'"
  "entries (put_obs r ob' h) = entries h" "RootPtr (put_obs r ob' h) = RootPtr h"
  by (auto simp: put_obs_def put_res_def get_obs_Some split: option.split)

lemma updated_kept:
  assumes "get_obs h r = Some ob" "P (f ob)"
  shows "\<exists>h' ob'. (do { h \<leftarrow> update_obs r f h; mark_changing r h }) = Some h' \<and> entries h' = entries h \<and>
    RootPtr h' = RootPtr h \<and> get_obs h' r = Some ob' \<and> P ob'"
proof -
  obtain h' where "mark_changing r (put_obs r (f ob) h) = Some h'" "entries h' = entries (put_obs r (f ob) h)"
    "RootPtr h' = RootPtr (put_obs r (f ob) h)" "get_obs h' r = Some (f ob)"
    using marked [OF put_obs_kept(1) [OF assms(1)]] by blast
  then show ?thesis using assms by (simp add: update_obs_def put_obs_kept)
qed

lemma settings_found:
  assumes "framework_ok L" "daemon_ok L d" "no_backups d" "via_hub (GetObservation L path) d = Some (Some e, d1)"
    "\<And>h. set_it e h = with_resource h e (\<lambda>r. do { h \<leftarrow> update_obs r f h; mark_changing r h })"
    "\<And>h y r. entries h e = Some y \<Longrightarrow> e_resourcePtr y = Some r \<Longrightarrow> get h e = map_option fetch (get_obs h r)"
    "\<And>ob. fetch (f ob) = v"
  shows "\<exists>d'. set_observation L path set_it d = Some d' \<and> get_observation L path otherwise get d' = Some (v, d')"
proof -
  have "\<exists>h' ob'. set_it e h = Some h' \<and> entries h' = entries h \<and> RootPtr h' = RootPtr h \<and> get_obs h' r = Some ob' \<and> fetch ob' = v"
    if "entries h e = Some y" "e_resourcePtr y = Some r" "resources h r = Some x" "r_sub x = Observation ob" for h y r x ob
    using updated_kept [of h r ob "\<lambda>ob. fetch ob = v" f] that assms(5,7) by (simp add: with_resource_def get_obs_def)
  moreover have "get h e = Some v" if "entries h e = Some y" "e_resourcePtr y = Some r" "get_obs h r = Some ob" "fetch ob = v" for h y r ob
    using assms(6) that by simp
  ultimately show ?thesis
    using setting_kept [OF assms(1-4), where P = "\<lambda>ob. fetch ob = v" and set_it = set_it and get = get and v = v and otherwise = otherwise]
    by blast
qed

lemma double_settings_kept:
  assumes "framework_ok L" "daemon_ok L d" "no_backups d" "via_hub (GetObservation L path) d = Some (Some e, d1)"
  shows "(\<exists>d'. admin_SetMinPeriod L path v d = Some d' \<and> admin_GetMinPeriod L path d' = Some (v, d')) \<and>
    (\<exists>d'. admin_SetHighLimit L path v d = Some d' \<and> admin_GetHighLimit L path d' = Some (v, d')) \<and>
    (\<exists>d'. admin_SetLowLimit L path v d = Some d' \<and> admin_GetLowLimit L path d' = Some (v, d')) \<and>
    (\<exists>d'. admin_SetChangeBy L path v d = Some d' \<and> admin_GetChangeBy L path d' = Some (v, d'))"
proof -
  note found = settings_found [OF assms]
  have "\<exists>d'. admin_SetMinPeriod L path v d = Some d' \<and> admin_GetMinPeriod L path d' = Some (v, d')"
    unfolding admin_SetMinPeriod_def admin_GetMinPeriod_def
    by (rule found [where f = "\<lambda>ob. ob\<lparr>o_minPeriod := v\<rparr>" and fetch = o_minPeriod])
      (simp_all add: resTree_SetMinPeriod_def res_SetMinPeriod_def obs_SetMinPeriod_def resTree_GetMinPeriod_def
        res_GetMinPeriod_def obs_GetMinPeriod_def with_resource_def)
  moreover have "\<exists>d'. admin_SetHighLimit L path v d = Some d' \<and> admin_GetHighLimit L path d' = Some (v, d')"
    unfolding admin_SetHighLimit_def admin_GetHighLimit_def
    by (rule found [where f = "\<lambda>ob. ob\<lparr>o_highLimit := v\<rparr>" and fetch = o_highLimit])
      (simp_all add: resTree_SetHighLimit_def res_SetHighLimit_def obs_SetHighLimit_def resTree_GetHighLimit_def
        res_GetHighLimit_def obs_GetHighLimit_def with_resource_def)
  moreover have "\<exists>d'. admin_SetLowLimit L path v d = Some d' \<and> admin_GetLowLimit L path d' = Some (v, d')"
    unfolding admin_SetLowLimit_def admin_GetLowLimit_def
    by (rule found [where f = "\<lambda>ob. ob\<lparr>o_lowLimit := v\<rparr>" and fetch = o_lowLimit])
      (simp_all add: resTree_SetLowLimit_def res_SetLowLimit_def obs_SetLowLimit_def resTree_GetLowLimit_def
        res_GetLowLimit_def obs_GetLowLimit_def with_resource_def)
  moreover have "\<exists>d'. admin_SetChangeBy L path v d = Some d' \<and> admin_GetChangeBy L path d' = Some (v, d')"
    unfolding admin_SetChangeBy_def admin_GetChangeBy_def
    by (rule found [where f = "\<lambda>ob. ob\<lparr>o_changeBy := v\<rparr>" and fetch = o_changeBy])
      (simp_all add: resTree_SetChangeBy_def res_SetChangeBy_def obs_SetChangeBy_def resTree_GetChangeBy_def
        res_GetChangeBy_def obs_GetChangeBy_def with_resource_def)
  ultimately show ?thesis by blast
qed

text \<open>The settings that are more than a field.\<close>

lemma transform_kept:
  assumes "framework_ok L" "daemon_ok L d" "no_backups d" "via_hub (GetObservation L path) d = Some (Some e, d1)"
  shows "\<exists>d'. admin_SetTransform L path t d = Some d' \<and> admin_GetTransform L path d' = Some (t, d')"
proof -
  have "\<exists>d'. set_observation L path (\<lambda>e. resTree_SetTransform e t) d = Some d' \<and>
      get_observation L path t resTree_GetTransform d' = Some (t, d') \<and>
      via_hub (GetObservation L path) d' = Some (Some e, d') \<and> resTree_GetTransform (hub_of d') e = Some t"
  proof (rule setting_kept [OF assms, where P = "\<lambda>ob. o_transformType ob = t"])
    fix h :: hub and y r x ob
    assume y: "entries h e = Some y" "e_resourcePtr y = Some r" "resources h r = Some x" "r_sub x = Observation ob"
      "obs_ok ob (nextBuff h)"
    define ob1 where "ob1 = (if t \<noteq> OBS_TRANSFORM_TYPE_NONE \<and> o_maxCount ob = 0
      then ob\<lparr>o_transformType := t, o_maxCount := 1\<rparr> else ob\<lparr>o_transformType := t\<rparr>)"
    have b: "buffer_ok ob1 (nextBuff h)" using y(5) by (simp add: ob1_def obs_ok_def buffer_ok_def)
    define ob2 where "ob2 = with_list ob1 (take_last 0 (o_sampleList ob1))"
    have cut: "TruncateBuffer 0 ob1 = Some ob2"
      using TruncateBuffer_take_last [of ob1 0] b by (simp add: buffer_ok_def ob2_def)
    define h1 where "h1 = put_res r (x\<lparr>r_sub := Observation ob2, r_pushedValue := None\<rparr>) h"
    have g: "get_obs h1 r = Some ob2" "entries h1 = entries h" "RootPtr h1 = RootPtr h"
      by (simp_all add: h1_def get_obs_def put_res_def)
    have "obs_SetTransform r t h = Some h1"
      using y(3,4) cut by (simp add: obs_SetTransform_def get_obs_def Let_def put_obs_def put_res_def h1_def flip: ob1_def)
    moreover have "o_transformType ob2 = t" by (simp add: ob2_def ob1_def with_list_def)
    ultimately show "\<exists>h' ob'. resTree_SetTransform e t h = Some h' \<and> entries h' = entries h \<and> RootPtr h' = RootPtr h \<and>
      get_obs h' r = Some ob' \<and> o_transformType ob' = t"
      using marked [OF g(1)] g(2,3) y(1,2) by (auto simp: resTree_SetTransform_def with_resource_def res_SetTransform_def)
  qed (simp add: resTree_GetTransform_def with_resource_def res_GetTransform_def obs_GetTransform_def)
  then show ?thesis by (auto simp: admin_SetTransform_def admin_GetTransform_def)
qed

lemma extraction_kept:
  assumes "framework_ok L" "daemon_ok L d" "no_backups d" "via_hub (GetObservation L path) d = Some (Some e, d1)"
    "spec \<noteq> []" "length spec \<le> ADMIN_MAX_JSON_EXTRACTOR_LEN" "length spec < n"
  shows "\<exists>d'. admin_SetJsonExtraction L path spec d = Some d' \<and>
    admin_GetJsonExtraction L path n d' = Some ((LE_OK, Some spec), d')"
proof -
  note fits = utf8_copy_fits [OF framework_okD(1) [OF assms(1)]]
  have "\<exists>d'. set_observation L path (\<lambda>e. resTree_SetJsonExtraction L e spec) d = Some d' \<and>
      get_observation L path (LE_NOT_FOUND, None) (\<lambda>h e. do { s \<leftarrow> resTree_GetJsonExtraction h e;
        if s = [] then Some (LE_NOT_FOUND, None) else let (r, s) = utf8_Copy L s n in Some (r, Some s) }) d' = Some ((LE_OK, Some spec), d') \<and>
      via_hub (GetObservation L path) d' = Some (Some e, d') \<and>
      (do { s \<leftarrow> resTree_GetJsonExtraction (hub_of d') e;
        if s = [] then Some (LE_NOT_FOUND, None) else let (r, s) = utf8_Copy L s n in Some (r, Some s) }) = Some (LE_OK, Some spec)"
  proof (rule setting_kept [OF assms(1-4), where P = "\<lambda>ob. o_jsonExtraction ob = spec"])
    fix h :: hub and y r x ob
    assume y: "entries h e = Some y" "e_resourcePtr y = Some r" "e_type y = ADMIN_ENTRY_TYPE_OBSERVATION"
      "resources h r = Some x" "r_sub x = Observation ob"
    have g: "get_obs h r = Some ob" using y(4,5) by (simp add: get_obs_def)
    then have "resTree_SetJsonExtraction L e spec h = Some (put_obs r (ob\<lparr>o_jsonExtraction := spec\<rparr>) h)"
      using y(1-3) assms(6) fits
      by (simp add: resTree_SetJsonExtraction_def with_observation_def res_SetJsonExtraction_def obs_SetJsonExtraction_def)
    then show "\<exists>h' ob'. resTree_SetJsonExtraction L e spec h = Some h' \<and> entries h' = entries h \<and> RootPtr h' = RootPtr h \<and>
      get_obs h' r = Some ob' \<and> o_jsonExtraction ob' = spec"
      using put_obs_kept(1) [OF g] put_obs_kept(2,3) by simp
  qed (use assms(5,7) fits in \<open>simp add: resTree_GetJsonExtraction_def with_observation_def res_GetJsonExtraction_def
      obs_GetJsonExtraction_def\<close>)
  then show ?thesis unfolding admin_SetJsonExtraction_def admin_GetJsonExtraction_def by blast
qed

lemma buffer_size_kept:
  assumes "framework_ok L" "daemon_ok L d" "no_backups d" "via_hub (GetObservation L path) d = Some (Some e, d1)"
    "observed L path d buffers_only"
  shows "\<exists>d'. admin_SetBufferMaxCount L path count d = Some d' \<and> admin_GetBufferMaxCount L path d' = Some (count, d')"
proof -
  have "\<exists>d'. set_observation L path (\<lambda>e. resTree_SetBufferMaxCount L e count) d = Some d' \<and>
      get_observation L path 0 resTree_GetBufferMaxCount d' = Some (count, d') \<and>
      via_hub (GetObservation L path) d' = Some (Some e, d') \<and> resTree_GetBufferMaxCount (hub_of d') e = Some count"
  proof (rule setting_kept [OF assms(1-4), where P = "\<lambda>ob. o_maxCount ob = unat count"])
    fix h :: hub and y r x ob
    assume y: "d1 = with_hub h d" "entries h e = Some y" "e_resourcePtr y = Some r"
      "resources h r = Some x" "r_sub x = Observation ob" "obs_ok ob (nextBuff h)"
    have g: "get_obs h r = Some ob" using y(4,5) by (simp add: get_obs_def)
    have "o_backupPeriod ob = 0"
      using assms(4,5) y(1-3) g by (auto simp: observed_def buffers_only_def)
    then have "resTree_SetBufferMaxCount L e count h =
        Some (if o_maxCount ob = unat count then h
          else put_obs r (with_list (ob\<lparr>o_maxCount := unat count\<rparr>) (take_last (unat count) (o_sampleList ob))) h)"
      using y(2,3) g cut_ok(1) [OF y(6), of "unat count" "unat count"]
      by (simp add: resTree_SetBufferMaxCount_def with_resource_def res_SetBufferMaxCount_def obs_SetBufferMaxCount_def)
    then show "\<exists>h' ob'. resTree_SetBufferMaxCount L e count h = Some h' \<and> entries h' = entries h \<and> RootPtr h' = RootPtr h \<and>
      get_obs h' r = Some ob' \<and> o_maxCount ob' = unat count"
      using g put_obs_kept(1) [OF g] put_obs_kept(2,3) by auto
  qed (simp add: resTree_GetBufferMaxCount_def with_resource_def res_GetBufferMaxCount_def obs_GetBufferMaxCount_def)
  then show ?thesis unfolding admin_SetBufferMaxCount_def admin_GetBufferMaxCount_def by blast
qed

lemma backup_period_kept:
  assumes "framework_ok L" "daemon_ok L d" "no_backups d" "via_hub (GetObservation L path) d = Some (Some e, d1)"
    "observed L path d (backup_rests seconds)"
  shows "\<exists>d'. admin_SetBufferBackupPeriod L path seconds d = Some d' \<and>
    admin_GetBufferBackupPeriod L path d' = Some (seconds, d')"
proof -
  have "\<exists>d'. set_observation L path (\<lambda>e. resTree_SetBufferBackupPeriod L e seconds) d = Some d' \<and>
      get_observation L path 0 resTree_GetBufferBackupPeriod d' = Some (seconds, d') \<and>
      via_hub (GetObservation L path) d' = Some (Some e, d') \<and> resTree_GetBufferBackupPeriod (hub_of d') e = Some seconds"
  proof (rule setting_kept [OF assms(1-4), where P = "\<lambda>ob. o_backupPeriod ob = seconds"])
    fix h :: hub and y r x ob
    assume y: "d1 = with_hub h d" "entries h e = Some y" "e_resourcePtr y = Some r"
      "resources h r = Some x" "r_sub x = Observation ob"
    have g: "get_obs h r = Some ob" using y(4,5) by (simp add: get_obs_def)
    have "o_backupPeriod ob = seconds \<or> o_maxCount ob = 0 \<or>
        seconds \<noteq> 0 \<and> (o_sampleList ob = [] \<or> o_backupPeriod ob = 0 \<or> o_backupTimer ob = None)"
      using assms(4,5) y by (auto simp: observed_def backup_rests_def resource_at_def)
    then have "resTree_SetBufferBackupPeriod L e seconds h =
        (if o_backupPeriod ob = seconds then Some h else Some (put_obs r (ob\<lparr>o_backupPeriod := seconds\<rparr>) h))"
      using y(2,3) g by (auto simp: resTree_SetBufferBackupPeriod_def with_resource_def res_SetBufferBackupPeriod_def
          obs_SetBufferBackupPeriod_def Let_def)
    then show "\<exists>h' ob'. resTree_SetBufferBackupPeriod L e seconds h = Some h' \<and> entries h' = entries h \<and> RootPtr h' = RootPtr h \<and>
      get_obs h' r = Some ob' \<and> o_backupPeriod ob' = seconds"
      using g put_obs_kept(1) [OF g] put_obs_kept(2,3) by auto
  qed (simp add: resTree_GetBufferBackupPeriod_def with_resource_def res_GetBufferBackupPeriod_def obs_GetBufferBackupPeriod_def)
  then show ?thesis unfolding admin_SetBufferBackupPeriod_def admin_GetBufferBackupPeriod_def by blast
qed


text \<open>
  C40: asking for the least period, a limit, the least change, the JSON extraction, the buffer size or the backup
  period of an observation, where there is no entry at all at the path below \<open>/obs\<close>, stops the daemon, in every
  state. (Asking for the transform creates the observation, and for an entry that is no observation the readers
  return their default.)
\<close>

theorem missing_observation_stops:
  assumes "framework_ok L" "daemon_ok L d" "\<not> observation_there L path (hub_of d)"
  shows "admin_GetMinPeriod L path d = None \<and> admin_GetHighLimit L path d = None \<and> admin_GetLowLimit L path d = None \<and>
    admin_GetChangeBy L path d = None \<and> admin_GetJsonExtraction L path n d = None \<and>
    admin_GetBufferMaxCount L path d = None \<and> admin_GetBufferBackupPeriod L path d = None"
proof -
  have "via_hub (admin_FindObservation L path) d = None"
    using assms(3) by (auto simp: observation_there_def via_hub_def admin_FindObservation_def)
  then show ?thesis
    by (simp add: admin_GetMinPeriod_def admin_GetHighLimit_def admin_GetLowLimit_def admin_GetChangeBy_def
        admin_GetJsonExtraction_def admin_GetBufferMaxCount_def admin_GetBufferBackupPeriod_def get_observation_def)
qed

subsection \<open>Defaults and overrides\<close>

text \<open>What is at a path, found from the root as the setters do it and as the readers do it.\<close>

lemma FindEntry_slash:
  assumes "t \<noteq> []" "hd t \<noteq> CHR ''/''"
  shows "resTree_FindEntry L h e (CHR ''/'' # t) = resTree_FindEntry L h e t"
  using GoToEntryLoop_slash [OF assms] by (simp add: resTree_FindEntry_def GoToEntry_def illegal_in_path_def)

definition resource_at_path :: "legato \<Rightarrow> string \<Rightarrow> daemon \<Rightarrow> bool" where
  "resource_at_path L path d \<longleftrightarrow>
     (case resTree_FindEntryAtAbsolutePath L (hub_of d) (CHR ''/'' # path) of
        Some (Some e) \<Rightarrow> map_option (\<lambda>x. e_resourcePtr x \<noteq> None) (entries (hub_of d) e) = Some True
      | _ \<Rightarrow> False)"

lemma resource_at_pathD:
  assumes "daemon_ok L d" "resource_at_path L path d" "path \<noteq> []" "hd path \<noteq> CHR ''/''"
  obtains e y r x where "entries (hub_of d) e = Some y" "e_resourcePtr y = Some r" "resources (hub_of d) r = Some x"
    "resTree_GetResource L (RootPtr (hub_of d)) (CHR ''/'' # path) ((hub_of d)\<lparr>clock := n\<rparr>) = Some (Some e, (hub_of d)\<lparr>clock := n\<rparr>)"
    "\<And>h. entries h = entries (hub_of d) \<Longrightarrow> RootPtr h = RootPtr (hub_of d) \<Longrightarrow>
       resTree_FindEntryAtAbsolutePath L h (CHR ''/'' # path) = Some (Some e)"
proof -
  let ?h = "hub_of d"
  obtain e where e: "resTree_FindEntry L ?h (RootPtr ?h) path = Some (Some e)" "has_resource ?h e"
    using assms(2) by (auto simp: resource_at_path_def resTree_FindEntryAtAbsolutePath_def resTree_GetRoot_def has_resource_def
        split: option.splits)
  obtain y r x where y: "entries ?h e = Some y" "e_resourcePtr y = Some r" "resources ?h r = Some x" "kind_ok (e_type y) (r_sub x)"
    using resource_live [OF daemon_okD(2) [OF assms(1)] e(2)] by metis
  have t: "e_type y \<noteq> ADMIN_ENTRY_TYPE_NAMESPACE" using y(4) by (cases "r_sub x") auto
  have found: "resTree_FindEntry L h (RootPtr h) path = Some (Some e)" if "entries h = entries ?h" "RootPtr h = RootPtr ?h" for h
  proof -
    have "same_names ?h h" using that(1) by (simp add: same_names_def)
    then show ?thesis using same_names_FindEntry e(1) that(2) by metis
  qed
  let ?g = "?h\<lparr>clock := n\<rparr>"
  have "resTree_FindEntry L ?g (RootPtr ?h) (CHR ''/'' # path) = Some (Some e)"
    using found [of ?g] FindEntry_slash [OF assms(3,4)] by simp
  then have "resTree_GetResource L (RootPtr ?h) (CHR ''/'' # path) ?g = Some (Some e, ?g)"
    using GoToEntry_found [of L ?g] y(1) t by (simp add: resTree_GetResource_def)
  then show thesis using that y(1-3) found by (simp add: resTree_FindEntryAtAbsolutePath_def resTree_GetRoot_def)
qed

text \<open>A default or an override is what the readers find, with its type, whatever was set before.\<close>

lemma set_shown:
  assumes "framework_ok L" "daemon_ok L d" "resource_at_path L path d" "path \<noteq> []" "hd path \<noteq> CHR ''/''"
    "sendable t v" "v \<noteq> VTrigger"
  obtains e s d' d'' where "sample_val s = v"
    "SetDefault L (CHR ''/'' # path) t (stamp (CreateSample L (dbl_of_int 0) v) d) = Some d'"
    "resTree_FindEntryAtAbsolutePath L (hub_of d') (CHR ''/'' # path) = Some (Some e)"
    "resTree_IsResource (hub_of d') e = Some True" "resTree_GetDefaultValue (hub_of d') e = Some (Some s)"
    "resTree_GetDefaultDataType (hub_of d') e = Some t"
    "SetOverride L (CHR ''/'' # path) t (stamp (CreateSample L (dbl_of_int 0) v) d) = Some d''"
    "resTree_FindEntryAtAbsolutePath L (hub_of d'') (CHR ''/'' # path) = Some (Some e)"
    "resTree_IsResource (hub_of d'') e = Some True" "resTree_GetOverrideValue (hub_of d'') e = Some (Some s)"
    "resTree_GetOverrideDataType (hub_of d'') e = Some t"
proof -
  let ?p = "CHR ''/'' # path"
  obtain s n where s: "CreateSample L (dbl_of_int 0) v (clock (hub_of d)) = (s, n)" by fastforce
  have sv: "sample_val s = v" using CreateSample_val [of L "dbl_of_int 0" v "clock (hub_of d)"] s by simp
  have fine: "sample_fine t s"
    using assms(6) sv by (auto simp: sendable_def sample_fine_def sample_ok_def fits_def split: sample_value.splits)
  let ?h = "(hub_of d)\<lparr>clock := n\<rparr>"
  have st: "stamp (CreateSample L (dbl_of_int 0) v) d = (s, with_hub ?h d)" using s by (simp add: stamp_def)
  have ok: "hub_ok L ?h" using clock_ok(1) [OF daemon_okD(2) [OF assms(2)]] .
  obtain e y r x where e: "entries (hub_of d) e = Some y" "e_resourcePtr y = Some r" "resources (hub_of d) r = Some x"
    "resTree_GetResource L (RootPtr (hub_of d)) ?p ?h = Some (Some e, ?h)"
    "\<And>h. entries h = entries (hub_of d) \<Longrightarrow> RootPtr h = RootPtr (hub_of d) \<Longrightarrow>
       resTree_FindEntryAtAbsolutePath L h ?p = Some (Some e)"
    by (rule resource_at_pathD [OF assms(2-5), where n = n]) (rule that)
  have x: "resources ?h r = Some x" using e(3) by simp
  have v: "via_hub (resTree_GetResource L (resTree_GetRoot ?h) ?p) (with_hub ?h d) = Some (Some e, with_hub ?h d)"
    using e(4) by (simp add: via_hub_def resTree_GetRoot_def)
  obtain h1 where h1: "res_SetDefault L r t s ?h = Some h1" "res_GetDefaultValue h1 r = Some (Some s)" "evolves same_links ?h h1"
    "res_GetDefaultDataType h1 r = Some t"
    using SetDefault_ok [OF ok assms(1) x fine] by blast
  obtain h2 where h2: "res_SetOverride L r t s ?h = Some h2" "res_GetOverrideValue h2 r = Some (Some s)" "evolves same_links ?h h2"
    "res_GetOverrideDataType h2 r = Some t"
    using SetOverride_ok [OF ok assms(1) x fine] by blast
  have f1: "entries h1 = entries (hub_of d)" "RootPtr h1 = RootPtr (hub_of d)" using evolves_entries [OF h1(3)] by simp_all
  have f2: "entries h2 = entries (hub_of d)" "RootPtr h2 = RootPtr (hub_of d)" using evolves_entries [OF h2(3)] by simp_all
  show thesis
  proof (rule that [of s "with_hub h1 d" e "with_hub h2 d"])
    show "SetDefault L ?p t (stamp (CreateSample L (dbl_of_int 0) v) d) = Some (with_hub h1 d)"
      using v e(1,2) h1(1) by (simp add: SetDefault_def st on_hub_def resTree_SetDefault_def with_resource_def)
    show "SetOverride L ?p t (stamp (CreateSample L (dbl_of_int 0) v) d) = Some (with_hub h2 d)"
      using v e(1,2) h2(1) by (simp add: SetOverride_def st on_hub_def resTree_SetOverride_def with_resource_def)
    show "resTree_FindEntryAtAbsolutePath L (hub_of (with_hub h1 d)) ?p = Some (Some e)" using e(5) [OF f1] by simp
    show "resTree_FindEntryAtAbsolutePath L (hub_of (with_hub h2 d)) ?p = Some (Some e)" using e(5) [OF f2] by simp
  qed (use sv e(1,2) f1 f2 h1(2,4) h2(2,4) in
      \<open>simp_all add: with_resource_def resTree_IsResource_def resTree_GetDefaultDataType_def resTree_GetDefaultValue_def
        resTree_GetOverrideDataType_def resTree_GetOverrideValue_def\<close>)
qed

text \<open>Setting a value of a type, and asking for it, by the calls the API has for them.\<close>

definition admin_set_default :: "legato \<Rightarrow> string \<Rightarrow> io_DataType_t \<Rightarrow> sample_value \<Rightarrow> daemon \<Rightarrow> daemon option" where
  "admin_set_default L path t v d =
     (case v of
        VTrigger \<Rightarrow> None
      | VBool b \<Rightarrow> admin_SetBooleanDefault L path b d
      | VNum x \<Rightarrow> admin_SetNumericDefault L path x d
      | VStr s \<Rightarrow> if t = IO_DATA_TYPE_JSON then admin_SetJsonDefault L path s d else admin_SetStringDefault L path s d)"

definition admin_set_override :: "legato \<Rightarrow> string \<Rightarrow> io_DataType_t \<Rightarrow> sample_value \<Rightarrow> daemon \<Rightarrow> daemon option" where
  "admin_set_override L path t v d =
     (case v of
        VTrigger \<Rightarrow> None
      | VBool b \<Rightarrow> admin_SetBooleanOverride L path b d
      | VNum x \<Rightarrow> admin_SetNumericOverride L path x d
      | VStr s \<Rightarrow> if t = IO_DATA_TYPE_JSON then admin_SetJsonOverride L path s d else admin_SetStringOverride L path s d)"

definition shows_default :: "legato \<Rightarrow> string \<Rightarrow> io_DataType_t \<Rightarrow> sample_value \<Rightarrow> nat \<Rightarrow> hub \<Rightarrow> bool" where
  "shows_default L path t v n h \<longleftrightarrow>
     admin_HasDefault L path h = Some True \<and> admin_GetDefaultDataType L path h = Some t \<and>
     (case v of
        VTrigger \<Rightarrow> True
      | VBool b \<Rightarrow> admin_GetBooleanDefault L path h = Some b
      | VNum x \<Rightarrow> admin_GetNumericDefault L path h = Some x
      | VStr s \<Rightarrow> (if t = IO_DATA_TYPE_JSON then admin_GetJsonDefault L path n h else admin_GetStringDefault L path n h)
          = Some (LE_OK, Some s))"

definition shows_override :: "legato \<Rightarrow> string \<Rightarrow> io_DataType_t \<Rightarrow> sample_value \<Rightarrow> nat \<Rightarrow> hub \<Rightarrow> bool" where
  "shows_override L path t v n h \<longleftrightarrow>
     admin_HasOverride L path h = Some True \<and> admin_GetOverrideDataType L path h = Some t \<and>
     (case v of
        VTrigger \<Rightarrow> True
      | VBool b \<Rightarrow> admin_GetBooleanOverride L path h = Some b
      | VNum x \<Rightarrow> admin_GetNumericOverride L path h = Some x
      | VStr s \<Rightarrow> (if t = IO_DATA_TYPE_JSON then admin_GetJsonOverride L path n h else admin_GetStringOverride L path n h)
          = Some (LE_OK, Some s))"

lemma admin_set_stamp:
  assumes "framework_ok L" "sendable t v" "v \<noteq> VTrigger"
  shows "admin_set_default L path t v d = SetDefault L path t (stamp (CreateSample L (dbl_of_int 0) v) d)"
    "admin_set_override L path t v d = SetOverride L path t (stamp (CreateSample L (dbl_of_int 0) v) d)"
proof -
  have "stamp_text (dataSample_CreateString L (dbl_of_int 0) s) d = Some (stamp (CreateSample L (dbl_of_int 0) (VStr s)) d)"
    if "length s < HUB_MAX_STRING_BYTES" for s
    using CreateString_fits [OF framework_okD(1) [OF assms(1)] that]
    by (simp add: stamp_text_def stamp_def split: prod.split)
  then show "admin_set_default L path t v d = SetDefault L path t (stamp (CreateSample L (dbl_of_int 0) v) d)"
    "admin_set_override L path t v d = SetOverride L path t (stamp (CreateSample L (dbl_of_int 0) v) d)"
    using assms(2,3)
    by (auto simp: sendable_def admin_set_default_def admin_set_override_def admin_SetBooleanDefault_def
        admin_SetNumericDefault_def admin_SetStringDefault_def admin_SetJsonDefault_def admin_SetBooleanOverride_def
        admin_SetNumericOverride_def admin_SetStringOverride_def admin_SetJsonOverride_def dataSample_CreateBoolean_def [abs_def]
        dataSample_CreateNumeric_def [abs_def] dataSample_CreateJson_def [abs_def] split: sample_value.splits)
qed

text \<open>
  C14: the default or override that an administrator sets for a resource (a Boolean, a number, a string that fits
  or JSON that fits) is what the admin API then shows, with its type, whatever was set before and whatever type the
  resource has. The documentation says that an input or output discards a default or an override that is not of
  its data type; it is kept and shown as any other.
\<close>

theorem setting_then_shown:
  assumes "framework_ok L" "daemon_ok L d" "resource_at_path L path d" "path \<noteq> []" "hd path \<noteq> CHR ''/''"
    "sendable t v" "v \<noteq> VTrigger" "\<forall>s. v = VStr s \<longrightarrow> length s < n"
  shows "(\<exists>d'. admin_set_default L (CHR ''/'' # path) t v d = Some d' \<and>
      shows_default L (CHR ''/'' # path) t v n (hub_of d')) \<and>
    (\<exists>d'. admin_set_override L (CHR ''/'' # path) t v d = Some d' \<and>
      shows_override L (CHR ''/'' # path) t v n (hub_of d'))"
proof -
  let ?p = "CHR ''/'' # path"
  obtain e s d' d'' where set: "sample_val s = v"
    "SetDefault L ?p t (stamp (CreateSample L (dbl_of_int 0) v) d) = Some d'"
    "resTree_FindEntryAtAbsolutePath L (hub_of d') ?p = Some (Some e)"
    "resTree_IsResource (hub_of d') e = Some True" "resTree_GetDefaultValue (hub_of d') e = Some (Some s)"
    "resTree_GetDefaultDataType (hub_of d') e = Some t"
    "SetOverride L ?p t (stamp (CreateSample L (dbl_of_int 0) v) d) = Some d''"
    "resTree_FindEntryAtAbsolutePath L (hub_of d'') ?p = Some (Some e)"
    "resTree_IsResource (hub_of d'') e = Some True" "resTree_GetOverrideValue (hub_of d'') e = Some (Some s)"
    "resTree_GetOverrideDataType (hub_of d'') e = Some t"
    by (rule set_shown [OF assms(1-7)])
  have has: "resTree_HasDefault (hub_of d') e = Some True" "resTree_HasOverride (hub_of d'') e = Some True"
    using set(5,10)
    by (auto simp: resTree_HasDefault_def resTree_HasOverride_def resTree_GetDefaultValue_def resTree_GetOverrideValue_def
        with_resource_def res_HasDefault_def res_HasOverride_def res_GetDefaultValue_def res_GetOverrideValue_def bind_eq_Some_conv)
  note readers = at_any_resource_def at_path_def typed_default_def typed_override_def dataSample_GetBoolean_def
    dataSample_GetNumeric_def dataSample_GetString_def dataSample_ConvertToJson_def
  have "shows_default L ?p t v n (hub_of d')"
    using set(1,3-6) has(1) assms(6-8) utf8_copy_fits [OF framework_okD(1) [OF assms(1)]]
    by (auto simp: shows_default_def sendable_def readers admin_HasDefault_def admin_GetDefaultDataType_def
        admin_GetBooleanDefault_def admin_GetNumericDefault_def admin_GetStringDefault_def admin_GetJsonDefault_def
        split: sample_value.splits)
  moreover have "shows_override L ?p t v n (hub_of d'')"
    using set(1,8-11) has(2) assms(6-8) utf8_copy_fits [OF framework_okD(1) [OF assms(1)]]
    by (auto simp: shows_override_def sendable_def readers admin_HasOverride_def admin_GetOverrideDataType_def
        admin_GetBooleanOverride_def admin_GetNumericOverride_def admin_GetStringOverride_def admin_GetJsonOverride_def
        split: sample_value.splits)
  ultimately show ?thesis using set(2,7) admin_set_stamp [OF assms(1,6,7)] by metis
qed

subsection \<open>Instances\<close>

definition observed_daemon :: "(eid option \<times> daemon) option" where
  "observed_daemon = via_hub (GetObservation sample_legato ''o'') initial_daemon"


lemma missing_observation_stops_witness: "admin_GetMinPeriod sample_legato ''o'' initial_daemon = None"
proof -
  let ?h = "hub_of initial_daemon"
  have "map_option (\<lambda>(ns, g). resTree_FindEntry sample_legato g ns ''o'') (GetObsNamespace sample_legato ?h) = Some (Some None)"
    by code_simp
  then obtain ns g where "GetObsNamespace sample_legato ?h = Some (ns, g)" "resTree_FindEntry sample_legato g ns ''o'' = Some None"
    by (cases "GetObsNamespace sample_legato ?h") auto
  moreover have "obs_relative ''o'' = Some ''o''" by code_simp
  ultimately have "\<not> observation_there sample_legato ''o'' ?h" unfolding observation_there_def by blast
  then show ?thesis using missing_observation_stops [OF sample_framework_ok initial_daemon_ok] by simp
qed

lemma setting_then_shown_witness:
  "\<exists>d d'. created = Some (LE_OK, d) \<and> admin_SetBooleanDefault sample_legato ''/app/gps/lat'' True d = Some d' \<and>
     admin_GetBooleanDefault sample_legato ''/app/gps/lat'' (hub_of d') = Some True"
proof -
  obtain d where d: "created = Some (LE_OK, d)" "daemon_ok sample_legato d" by (rule created_ok)
  have "map_option (\<lambda>x. resource_at_path sample_legato ''app/gps/lat'' (snd x)) created = Some True" by code_simp
  then have "resource_at_path sample_legato ''app/gps/lat'' d" by (simp add: d(1))
  moreover have "sendable IO_DATA_TYPE_BOOLEAN (VBool True)" by (simp add: sendable_def)
  ultimately show ?thesis
    using setting_then_shown [OF sample_framework_ok d(2), of "''app/gps/lat''" IO_DATA_TYPE_BOOLEAN "VBool True" 0] d(1)
    by (auto simp: admin_set_default_def shows_default_def)
qed

end
