(* ===== verification/PeriodicSensor.thy ===== *)
theory PeriodicSensor
  imports AdminContract
begin

text \<open>
  The periodic sensor scaffold, \<open>src/apps/DataHub/components/periodicSensor/periodicSensor.c\<close>: a library for
  apps whose sensor is controlled by the Data Hub. It creates an input ''value'' and the outputs ''enable'',
  ''period'' and ''trigger'' below the name of the sensor, and reacts to what the Data Hub pushes to them by
  starting and stopping a timer of the Legato framework and by calling the sample function of the app.

  What the scaffold asks of the timer and the calls of the sample function are the effects a handler
  returns; its requests to the Data Hub are the operations of the I/O service. The address of the
  object is the context its handlers are registered with. A scaffold function that ends its process
  (\<open>LE_FATAL\<close>, a failed \<open>LE_ASSERT\<close>, or because the Data Hub killed the client) gives no sensor, and the Data
  Hub lives on; \<open>None\<close> is left for a Data Hub that stops.
\<close>

definition PSENSOR_MAX_NAME_BYTES :: nat where
  "PSENSOR_MAX_NAME_BYTES = 32"

definition DHUBIO_MAX_RESOURCE_PATH_LEN :: nat where
  "DHUBIO_MAX_RESOURCE_PATH_LEN = 79"

record Sensor_t =
  isEnabled :: bool
  period :: double
  sampleFuncContext :: nat
  sensor_name :: string
  triggerHandlerRef :: hid
  periodHandlerRef :: hid
  enableHandlerRef :: hid

datatype effect =
    Sample nat
  | TimerStart
  | TimerStop
  | TimerInterval int int
  | TimerDelete

subsection \<open>Reactions\<close>

definition HandleTimerExpiry :: "Sensor_t \<Rightarrow> effect list" where
  "HandleTimerExpiry s = [Sample (sampleFuncContext s)]"

definition HandleEnablePush :: "bool \<Rightarrow> Sensor_t \<Rightarrow> Sensor_t \<times> effect list" where
  "HandleEnablePush enable s =
     (if isEnabled s \<noteq> enable then
        (s\<lparr>isEnabled := enable\<rparr>,
         if enable then (if dbl_gt (period s) (dbl_of_int 0) then [Sample (sampleFuncContext s), TimerStart] else [])
         else [TimerStop])
      else (s, []))"

text \<open>
  The conversion of a double to an integer drops the fraction; that of no number is undefined. The
  range is checked before the conversion to seconds, and a fraction of a second has fewer than a
  million microseconds.
\<close>

definition dbl_trunc :: "double \<Rightarrow> int option" where
  "dbl_trunc x =
     (if isnan x \<or> isinf x then None
      else let m = (if 0 \<le> dbl_exp x then dbl_mant x * 2 ^ nat (dbl_exp x) else dbl_mant x div 2 ^ nat (- dbl_exp x))
           in Some (if dbl_neg x then - m else m))"

definition timer_interval :: "double \<Rightarrow> (int \<times> int) option" where
  "timer_interval p = do {
     sec \<leftarrow> dbl_trunc p;
     usec \<leftarrow> dbl_trunc (dbl_mul (dbl_sub p (dbl_of_int sec)) (dbl_of_int 1000000));
     Some (sec, usec)
   }"

definition HandlePeriodPush :: "double \<Rightarrow> Sensor_t \<Rightarrow> (Sensor_t \<times> effect list) option" where
  "HandlePeriodPush p s =
     (if dbl_eq (period s) p then Some (s, [])
      else if dbl_le p (dbl_of_int 0) then Some (s\<lparr>period := dbl_of_int 0\<rparr>, [TimerStop])
      else if dbl_gt p (dbl_of_int 0x7FFFFFFF) then Some (s\<lparr>period := dbl_of_int 0\<rparr>, [TimerStop])
      else do {
        (sec, usec) \<leftarrow> timer_interval p;
        Some (s\<lparr>period := p\<rparr>,
          TimerInterval sec usec #
          (if dbl_eq (period s) (dbl_of_int 0) \<and> isEnabled s then [Sample (sampleFuncContext s), TimerStart] else []))
      })"

definition HandleTriggerPush :: "Sensor_t \<Rightarrow> effect list" where
  "HandleTriggerPush s = (if isEnabled s then [Sample (sampleFuncContext s)] else [])"

text \<open>What a sensor reacts to.\<close>

datatype stimulus =
    EnablePush bool
  | PeriodPush double
  | TriggerPush
  | TimerExpiry

fun react :: "stimulus \<Rightarrow> Sensor_t \<Rightarrow> (Sensor_t \<times> effect list) option" where
  "react (EnablePush b) s = Some (HandleEnablePush b s)"
| "react (PeriodPush p) s = HandlePeriodPush p s"
| "react TriggerPush s = Some (s, HandleTriggerPush s)"
| "react TimerExpiry s = Some (s, HandleTimerExpiry s)"

subsection \<open>Creation and deletion\<close>

text \<open>The handlers as the function pointers they are registered with.\<close>

definition HandleEnablePush_ptr :: nat where "HandleEnablePush_ptr = 1"
definition HandlePeriodPush_ptr :: nat where "HandlePeriodPush_ptr = 2"
definition HandleTriggerPush_ptr :: nat where "HandleTriggerPush_ptr = 3"

definition BuildResourcePath :: "legato \<Rightarrow> nat \<Rightarrow> string \<Rightarrow> string \<Rightarrow> string option" where
  "BuildResourcePath L pathBuffSize name resourceName =
     (if name = [] then
        (let (r, path) = utf8_Copy L resourceName pathBuffSize in if r = LE_OK then Some path else None)
      else if length (name @ ''/'' @ resourceName) < pathBuffSize then Some (name @ ''/'' @ resourceName)
      else None)"

text \<open>Going on with what may have ended the process of the sensor.\<close>

definition alive :: "'a option \<Rightarrow> daemon \<Rightarrow> ('a \<Rightarrow> ('b option \<times> daemon) option) \<Rightarrow> ('b option \<times> daemon) option" where
  "alive x d k = (case x of None \<Rightarrow> Some (None, d) | Some y \<Rightarrow> k y)"

text \<open>One of the three outputs: its path, its creation, and its push handler.\<close>

definition create_control ::
  "legato \<Rightarrow> client \<Rightarrow> string \<Rightarrow> string \<Rightarrow> io_DataType_t \<Rightarrow> string \<Rightarrow>
   (legato \<Rightarrow> client \<Rightarrow> string \<Rightarrow> nat \<Rightarrow> nat \<Rightarrow> daemon \<Rightarrow> (hid option \<times> daemon) option) \<Rightarrow> nat \<Rightarrow> nat \<Rightarrow>
   daemon \<Rightarrow> ((string \<times> hid) option \<times> daemon) option" where
  "create_control L c name resource dataType units add callback self d =
     alive (BuildResourcePath L DHUBIO_MAX_RESOURCE_PATH_LEN name resource) d (\<lambda>path. do {
       (result, d) \<leftarrow> io_CreateOutput L c path dataType units d;
       if result \<noteq> LE_OK then Some (None, d)
       else do {
         (handlerRef, d) \<leftarrow> add L c path callback self d;
         alive handlerRef d (\<lambda>h. Some (Some (path, h), d))
       }
     })"

definition psensor_Create ::
  "legato \<Rightarrow> client \<Rightarrow> nat \<Rightarrow> string \<Rightarrow> io_DataType_t \<Rightarrow> string \<Rightarrow> nat \<Rightarrow> daemon \<Rightarrow> (Sensor_t option \<times> daemon) option" where
  "psensor_Create L c self name dataType units context d =
     (case utf8_Copy L name PSENSOR_MAX_NAME_BYTES of (copied, name) \<Rightarrow>
      if copied \<noteq> LE_OK then Some (None, d)
      else alive (BuildResourcePath L DHUBIO_MAX_RESOURCE_PATH_LEN name ''value'') d (\<lambda>path. do {
        (result, d) \<leftarrow> io_CreateInput L c path dataType units d;
        if result \<noteq> LE_OK then Some (None, d)
        else do {
          (enable, d) \<leftarrow> create_control L c name ''enable'' IO_DATA_TYPE_BOOLEAN [] io_AddBooleanPushHandler
                           HandleEnablePush_ptr self d;
          alive enable d (\<lambda>(_, enableRef). do {
            (period, d) \<leftarrow> create_control L c name ''period'' IO_DATA_TYPE_NUMERIC ''s'' io_AddNumericPushHandler
                             HandlePeriodPush_ptr self d;
            alive period d (\<lambda>(_, periodRef). do {
              (trigger, d) \<leftarrow> create_control L c name ''trigger'' IO_DATA_TYPE_TRIGGER [] io_AddTriggerPushHandler
                                HandleTriggerPush_ptr self d;
              alive trigger d (\<lambda>(path, triggerRef). do {
                d \<leftarrow> io_MarkOptional L c path d;
                Some (Some \<lparr> isEnabled = False, period = dbl_of_int 0, sampleFuncContext = context, sensor_name = name,
                        triggerHandlerRef = triggerRef, periodHandlerRef = periodRef, enableHandlerRef = enableRef \<rparr>, d)
              })
            })
          })
        }
      }))"

definition psensor_CreateJson ::
  "legato \<Rightarrow> client \<Rightarrow> nat \<Rightarrow> string \<Rightarrow> string \<Rightarrow> nat \<Rightarrow> daemon \<Rightarrow> (Sensor_t option \<times> daemon) option" where
  "psensor_CreateJson L c self name jsonExample context d = do {
     (ref, d) \<leftarrow> psensor_Create L c self name IO_DATA_TYPE_JSON [] context d;
     alive ref d (\<lambda>s.
       alive (BuildResourcePath L DHUBIO_MAX_RESOURCE_PATH_LEN (sensor_name s) ''value'') d (\<lambda>path. do {
         d \<leftarrow> io_SetJsonExample L c path jsonExample d;
         Some (Some s, d)
       }))
   }"

text \<open>One of the three outputs is removed.\<close>

definition remove_control ::
  "legato \<Rightarrow> client \<Rightarrow> string \<Rightarrow> string \<Rightarrow> (hid \<Rightarrow> daemon \<Rightarrow> daemon option) \<Rightarrow> hid \<Rightarrow> daemon \<Rightarrow> (unit option \<times> daemon) option" where
  "remove_control L c name resource remove handlerRef d =
     alive (BuildResourcePath L DHUBIO_MAX_RESOURCE_PATH_LEN name resource) d (\<lambda>path. do {
       d \<leftarrow> remove handlerRef d;
       d \<leftarrow> io_DeleteResource L c path d;
       Some (Some (), d)
     })"

text \<open>The reference of the caller, which is cleared; no reference is no sensor.\<close>

definition psensor_Destroy ::
  "legato \<Rightarrow> client \<Rightarrow> Sensor_t option \<Rightarrow> daemon \<Rightarrow> (effect list option \<times> daemon) option" where
  "psensor_Destroy L c ref d =
     (case ref of
        None \<Rightarrow> Some (Some [], d)
      | Some s \<Rightarrow> do {
          (x, d) \<leftarrow> remove_control L c (sensor_name s) ''trigger'' io_RemoveTriggerPushHandler (triggerHandlerRef s) d;
          alive x d (\<lambda>_. do {
            (x, d) \<leftarrow> remove_control L c (sensor_name s) ''period'' io_RemoveNumericPushHandler (periodHandlerRef s) d;
            alive x d (\<lambda>_. do {
              (x, d) \<leftarrow> remove_control L c (sensor_name s) ''enable'' io_RemoveBooleanPushHandler (enableHandlerRef s) d;
              alive x d (\<lambda>_.
                alive (BuildResourcePath L DHUBIO_MAX_RESOURCE_PATH_LEN (sensor_name s) ''value'') d (\<lambda>path. do {
                  d \<leftarrow> io_DeleteResource L c path d;
                  Some (Some [TimerStop, TimerDelete], d)
                }))
            })
          })
        })"

subsection \<open>Pushing samples\<close>

text \<open>The path of the value; without a name it starts with a slash.\<close>

definition value_path :: "Sensor_t \<Rightarrow> string option" where
  "value_path s =
     (let path = sensor_name s @ ''/value''
      in if length path < DHUBIO_MAX_RESOURCE_PATH_LEN then Some path else None)"

definition push_value :: "Sensor_t \<Rightarrow> (string \<Rightarrow> daemon \<Rightarrow> daemon option) \<Rightarrow> daemon \<Rightarrow> (unit option \<times> daemon) option" where
  "push_value s push d = alive (value_path s) d (\<lambda>path. do { d \<leftarrow> push path d; Some (Some (), d) })"

definition psensor_PushBoolean :: "legato \<Rightarrow> client \<Rightarrow> Sensor_t \<Rightarrow> double \<Rightarrow> bool \<Rightarrow> daemon \<Rightarrow> (unit option \<times> daemon) option" where
  "psensor_PushBoolean L c s ts v = push_value s (\<lambda>path. io_PushBoolean L c path ts v)"

definition psensor_PushNumeric :: "legato \<Rightarrow> client \<Rightarrow> Sensor_t \<Rightarrow> double \<Rightarrow> double \<Rightarrow> daemon \<Rightarrow> (unit option \<times> daemon) option" where
  "psensor_PushNumeric L c s ts v = push_value s (\<lambda>path. io_PushNumeric L c path ts v)"

definition psensor_PushString :: "legato \<Rightarrow> client \<Rightarrow> Sensor_t \<Rightarrow> double \<Rightarrow> string \<Rightarrow> daemon \<Rightarrow> (unit option \<times> daemon) option" where
  "psensor_PushString L c s ts v = push_value s (\<lambda>path. io_PushString L c path ts v)"

definition psensor_PushJson :: "legato \<Rightarrow> client \<Rightarrow> Sensor_t \<Rightarrow> double \<Rightarrow> string \<Rightarrow> daemon \<Rightarrow> (unit option \<times> daemon) option" where
  "psensor_PushJson L c s ts v = push_value s (\<lambda>path. io_PushJson L c path ts v)"

end
