(* ===== verification/SensorSpec.thy ===== *)
theory SensorSpec
  imports PeriodicSensor
begin

text \<open>
  The periodic sensor as a state machine: the timer runs exactly while the sensor is enabled and has a
  period, and the app is asked for samples only then. What a sensor pushes is what its input shows.
\<close>

subsection \<open>Runs\<close>

text \<open>Whether the timer runs after some effects.\<close>

fun timer_after :: "bool \<Rightarrow> effect list \<Rightarrow> bool" where
  "timer_after on [] = on"
| "timer_after on (TimerStart # es) = timer_after True es"
| "timer_after on (TimerStop # es) = timer_after False es"
| "timer_after on (TimerDelete # es) = timer_after False es"
| "timer_after on (Sample n # es) = timer_after on es"
| "timer_after on (TimerInterval s u # es) = timer_after on es"

text \<open>A run of a sensor with its timer: the timer expires only while it runs.\<close>

inductive sensor_runs :: "Sensor_t \<Rightarrow> (stimulus \<times> effect list) list \<Rightarrow> Sensor_t \<Rightarrow> bool \<Rightarrow> bool" where
  created: "sensor_runs s [] s False"
| reaction: "sensor_runs s0 tr s on \<Longrightarrow> (i = TimerExpiry \<Longrightarrow> on) \<Longrightarrow> react i s = Some (s', es) \<Longrightarrow>
    sensor_runs s0 (tr @ [(i, es)]) s' (timer_after on es)"

inductive_cases sensor_runs_snocE: "sensor_runs s0 (tr @ [(i, es)]) s on"

definition fresh_sensor :: "Sensor_t \<Rightarrow> bool" where
  "fresh_sensor s \<longleftrightarrow> \<not> isEnabled s \<and> period s = dbl_of_int 0"

text \<open>A period is none, or one the timer can have.\<close>

definition period_ok :: "double \<Rightarrow> bool" where
  "period_ok p \<longleftrightarrow> p = dbl_of_int 0 \<or> dbl_gt p (dbl_of_int 0) \<and> dbl_le p (dbl_of_int 0x7FFFFFFF)"

definition in_step :: "Sensor_t \<Rightarrow> bool \<Rightarrow> bool" where
  "in_step s on \<longleftrightarrow> period_ok (period s) \<and> (on \<longleftrightarrow> isEnabled s \<and> dbl_gt (period s) (dbl_of_int 0))"

lemma zero_period [simp]: "dbl_eq (dbl_of_int 0) (dbl_of_int 0)" "\<not> isnan (dbl_of_int 0)" "\<not> isnan (dbl_of_int 0x7FFFFFFF)"
  by (simp_all add: dbl_eq_def dbl_arith dbl_fields)

lemma dbl_gt_not_eq: "dbl_gt p q \<Longrightarrow> \<not> dbl_eq p q"
  by (simp add: dbl_lt_def dbl_eq_def)

lemma period_accepted:
  assumes "timer_interval p = Some i" "\<not> dbl_le p (dbl_of_int 0)" "\<not> dbl_gt p (dbl_of_int 0x7FFFFFFF)"
  shows "dbl_gt p (dbl_of_int 0)" "dbl_le p (dbl_of_int 0x7FFFFFFF)"
proof -
  have n: "\<not> isnan p" using assms(1) by (auto simp: timer_interval_def dbl_trunc_def split: if_splits)
  show "dbl_gt p (dbl_of_int 0)" using n assms(2) by (simp add: dbl_lt_def dbl_le_def)
  show "dbl_le p (dbl_of_int 0x7FFFFFFF)" using n assms(3) by (simp add: dbl_lt_def dbl_le_def)
qed

lemma react_in_step:
  assumes "in_step s on" "i = TimerExpiry \<longrightarrow> on" "react i s = Some (s', es)"
  shows "in_step s' (timer_after on es)" "Sample n \<in> set es \<Longrightarrow> isEnabled s' \<and> n = sampleFuncContext s"
    "sampleFuncContext s' = sampleFuncContext s"
proof -
  note d = in_step_def period_ok_def
  have "in_step s' (timer_after on es) \<and> (Sample n \<in> set es \<longrightarrow> isEnabled s' \<and> n = sampleFuncContext s) \<and>
    sampleFuncContext s' = sampleFuncContext s"
  proof (cases i)
    case (EnablePush b)
    then show ?thesis using assms(1,3) by (auto simp: d HandleEnablePush_def split: if_splits)
  next
    case (PeriodPush p)
    have z: "period s = dbl_of_int 0 \<Longrightarrow> dbl_eq (period s) (dbl_of_int 0)" by simp
    have nz: "dbl_gt (period s) (dbl_of_int 0) \<Longrightarrow> \<not> dbl_eq (period s) (dbl_of_int 0)" by (rule dbl_gt_not_eq)
    consider (same) "s' = s" "es = []" | (bad) "s' = s\<lparr>period := dbl_of_int 0\<rparr>" "es = [TimerStop]"
      | (good) sec usec where "timer_interval p = Some (sec, usec)" "dbl_gt p (dbl_of_int 0)" "dbl_le p (dbl_of_int 0x7FFFFFFF)"
          "s' = s\<lparr>period := p\<rparr>" "es = TimerInterval sec usec #
            (if dbl_eq (period s) (dbl_of_int 0) \<and> isEnabled s then [Sample (sampleFuncContext s), TimerStart] else [])"
      using assms(3) PeriodPush period_accepted [of p] by (auto simp: HandlePeriodPush_def split: if_splits bind_splits)
    then show ?thesis
    proof cases
      case good
      then show ?thesis using assms(1) z nz by (auto simp: d)
    qed (use assms(1) in \<open>auto simp: d\<close>)
  next
    case TriggerPush
    then show ?thesis using assms(1,3) by (auto simp: d HandleTriggerPush_def split: if_splits)
  next
    case TimerExpiry
    then show ?thesis using assms by (auto simp: d HandleTimerExpiry_def)
  qed
  then show "in_step s' (timer_after on es)" "Sample n \<in> set es \<Longrightarrow> isEnabled s' \<and> n = sampleFuncContext s"
    "sampleFuncContext s' = sampleFuncContext s" by blast+
qed

lemma runs_in_step:
  assumes "sensor_runs s0 tr s on" "fresh_sensor s0"
  shows "in_step s on \<and> sampleFuncContext s = sampleFuncContext s0"
  using assms
proof (induction rule: sensor_runs.induct)
  case (created s)
  then show ?case by (simp add: fresh_sensor_def in_step_def period_ok_def)
next
  case (reaction s0 tr s on i s' es)
  then have "in_step s on" "i = TimerExpiry \<longrightarrow> on" "sampleFuncContext s = sampleFuncContext s0" by auto
  then show ?case using react_in_step [OF _ _ reaction.hyps(3)] by metis
qed

text \<open>
  C20: however the Data Hub enables, disables, triggers a periodic sensor and sets its period, its timer
  runs exactly while it is enabled and has a positive period, the period is one the timer can have,
  and the app is asked for a sample only when the sensor is enabled, with the context it gave.
\<close>

theorem timer_follows:
  assumes "fresh_sensor s0" "sensor_runs s0 tr s on"
  shows "(on \<longleftrightarrow> isEnabled s \<and> dbl_gt (period s) (dbl_of_int 0)) \<and>
    (period s = dbl_of_int 0 \<or> dbl_gt (period s) (dbl_of_int 0) \<and> dbl_le (period s) (dbl_of_int 0x7FFFFFFF)) \<and>
    (\<forall>i s' es n. react i s = Some (s', es) \<longrightarrow> (i = TimerExpiry \<longrightarrow> on) \<longrightarrow> Sample n \<in> set es \<longrightarrow>
       isEnabled s' \<and> n = sampleFuncContext s0)"
proof -
  have s: "in_step s on" "sampleFuncContext s = sampleFuncContext s0" using runs_in_step [OF assms(2,1)] by simp_all
  then have "\<forall>i s' es n. react i s = Some (s', es) \<longrightarrow> (i = TimerExpiry \<longrightarrow> on) \<longrightarrow> Sample n \<in> set es \<longrightarrow>
      isEnabled s' \<and> n = sampleFuncContext s0"
    using react_in_step(2) by metis
  then show ?thesis using s(1) by (simp add: in_step_def period_ok_def)
qed

text \<open>What is not a number passes the checks, and its conversion is undefined.\<close>

lemma period_not_a_number: "isnan p \<Longrightarrow> react (PeriodPush p) s = None"
  by (simp add: HandlePeriodPush_def timer_interval_def dbl_trunc_def dbl_eq_def dbl_le_def dbl_lt_def)

subsection \<open>Values\<close>

text \<open>The slash at the start of the path of a sensor without a name is skipped.\<close>

lemma slash_skipped:
  assumes "path \<noteq> []" "hd path \<noteq> CHR ''/''"
  shows "io_FindResource L c (CHR ''/'' # path) = io_FindResource L c path"
    "io_PushNumeric L c (CHR ''/'' # path) ts v = io_PushNumeric L c path ts v"
proof -
  show f: "io_FindResource L c (CHR ''/'' # path) = io_FindResource L c path"
    by (rule ext) (simp add: io_FindResource_def find_in_def FindEntry_slash [OF assms] cong: option.case_cong)
  show "io_PushNumeric L c (CHR ''/'' # path) ts v = io_PushNumeric L c path ts v"
    by (rule ext) (simp add: io_PushNumeric_def at_resource_def f)
qed

text \<open>Where the input of a sensor is.\<close>

definition input_path :: "Sensor_t \<Rightarrow> string" where
  "input_path s = (if sensor_name s = [] then ''value'' else sensor_name s @ ''/value'')"

text \<open>
  What the app of a periodic sensor pushes through the scaffold is what it then fetches from its
  input, with or without a name of the sensor.
\<close>

theorem scaffold_pushes:
  assumes "framework_ok L" "daemon_ok L d" "length (sensor_name s) < PSENSOR_MAX_NAME_BYTES"
    "io_at L c (input_path s) ADMIN_ENTRY_TYPE_INPUT IO_DATA_TYPE_NUMERIC units d" "undisturbed L c (input_path s) d"
  shows "\<exists>d' ts'. psensor_PushNumeric L c s ts v d = Some (Some (), d') \<and>
    io_GetNumeric L c (input_path s) d' = Some ((LE_OK, Some (ts', v)), d') \<and> (\<not> dbl_eq ts IO_NOW \<longrightarrow> ts' = ts)"
proof -
  have p: "psensor_PushNumeric L c s ts v d = push_value s (\<lambda>_. io_PushNumeric L c (input_path s) ts v) d"
  proof (cases "sensor_name s")
    case Nil
    then show ?thesis using slash_skipped(2) [of "''value''" L c ts v]
      by (simp add: psensor_PushNumeric_def push_value_def value_path_def input_path_def alive_def DHUBIO_MAX_RESOURCE_PATH_LEN_def)
  qed (use assms(3) in \<open>simp add: psensor_PushNumeric_def push_value_def value_path_def input_path_def alive_def
      DHUBIO_MAX_RESOURCE_PATH_LEN_def PSENSOR_MAX_NAME_BYTES_def\<close>)
  have io: "is_io ADMIN_ENTRY_TYPE_INPUT" "sendable IO_DATA_TYPE_NUMERIC (VNum v)" by (simp_all add: is_io_def sendable_def)
  obtain d' e ts' where d': "io_PushNumeric L c (input_path s) ts v d = Some d'" "io_FindResource L c (input_path s) d' = Some (Some e, d')"
    "resTree_GetDataType (hub_of d') e = Some IO_DATA_TYPE_NUMERIC"
    "resTree_GetCurrentValue (hub_of d') e = Some (Some \<lparr> timestamp = ts', sample_val = VNum v \<rparr>)"
    "\<not> dbl_eq ts IO_NOW \<longrightarrow> ts' = ts"
    by (rule sent_found [OF assms(1,2,4) io(1) assms(5) io(2), of ts]) (auto simp: app_push_def)
  have "value_path s \<noteq> None" using assms(3)
    by (simp add: value_path_def DHUBIO_MAX_RESOURCE_PATH_LEN_def PSENSOR_MAX_NAME_BYTES_def)
  then show ?thesis using d' p
    by (auto simp: push_value_def alive_def io_GetNumeric_def at_resource_def GetCurrentValue_def dataSample_GetNumeric_def
        dataSample_GetTimestamp_def)
qed

subsection \<open>Creation\<close>

lemma alive_served:
  assumes "daemon_ok L d" "\<And>y. x = Some y \<Longrightarrow> served L (map_option snd (k y))"
  shows "served L (map_option snd (alive x d k))"
  using assms by (cases x) (simp_all add: alive_def served_def)

lemma served_bind:
  assumes "served L (map_option snd m)" "\<And>x d. m = Some (x, d) \<Longrightarrow> daemon_ok L d \<Longrightarrow> served L (map_option snd (k (x, d)))"
  shows "served L (map_option snd (m \<bind> k))"
  using assms by (auto simp: served_def)

lemma control_served:
  assumes "framework_ok L" "daemon_ok L d" "client_ok L c" "add = (\<lambda>L c path. io_add_handler L c path t)"
  shows "served L (map_option snd (create_control L c name resource t units add callback self d))"
  unfolding create_control_def
proof (rule alive_served [OF assms(2)], rule served_bind [OF create_served(2) [OF assms(1-3)]])
  fix path x and d' :: daemon
  assume d': "daemon_ok L d'"
  have "served L (map_option snd (add L c path callback self d' \<bind> (\<lambda>(h, d). alive h d (\<lambda>h. Some (Some (path, h), d)))))"
    unfolding assms(4)
    by (rule served_bind [OF handler_served(1) [OF assms(1) d' assms(3)]])
      (simp, rule alive_served, assumption, simp add: served_def)
  then show "served L (map_option snd (case (x, d') of (result, d) \<Rightarrow>
      if result \<noteq> LE_OK then Some (None, d)
      else do { (h, d) \<leftarrow> add L c path callback self d; alive h d (\<lambda>h. Some (Some (path, h), d)) }))"
    using d' by (simp add: served_def)
qed

text \<open>The creation of a sensor never stops the Data Hub, whatever the name, the type and the units.\<close>

lemma Create_served:
  assumes "framework_ok L" "daemon_ok L d" "client_ok L c"
  shows "served L (map_option snd (psensor_Create L c self name t units context d))"
proof -
  have dead: "served L (map_option snd (Some (None :: Sensor_t option, d)))" if "daemon_ok L d" for d
    using that by (simp add: served_def)
  have add: "io_AddBooleanPushHandler = (\<lambda>L c path. io_add_handler L c path IO_DATA_TYPE_BOOLEAN)"
    "io_AddNumericPushHandler = (\<lambda>L c path. io_add_handler L c path IO_DATA_TYPE_NUMERIC)"
    "io_AddTriggerPushHandler = (\<lambda>L c path. io_add_handler L c path IO_DATA_TYPE_TRIGGER)" by simp_all
  have optional: "served L (map_option snd (do { d \<leftarrow> io_MarkOptional L c path d; Some (Some s :: Sensor_t option, d) }))"
    if "daemon_ok L d" for path s d
    using option_served [OF assms(1) that assms(3), of path] by (auto simp: served_def)
  obtain r nm where n: "utf8_Copy L name PSENSOR_MAX_NAME_BYTES = (r, nm)" by fastforce
  show ?thesis
    unfolding psensor_Create_def n prod.case
    apply (cases "r = LE_OK"; simp only: simp_thms if_True if_False not_True_eq_False not_False_eq_True dead [OF assms(2)])
    apply (rule alive_served [OF assms(2)], rule served_bind [OF create_served(1) [OF assms]])
    apply (simp only: prod.case, split if_split, intro conjI impI, erule dead)
    apply (rule served_bind [OF control_served [OF assms(1) _ assms(3) add(1)]], assumption, simp only: prod.case)
    apply (rule alive_served, assumption, simp only: prod.case split_beta)
    apply (rule served_bind [OF control_served [OF assms(1) _ assms(3) add(2)]], assumption, simp only: prod.case)
    apply (rule alive_served, assumption, simp only: prod.case split_beta)
    apply (rule served_bind [OF control_served [OF assms(1) _ assms(3) add(3)]], assumption, simp only: prod.case)
    apply (rule alive_served, assumption, simp only: prod.case split_beta)
    by (rule optional)
qed

subsection \<open>Instances\<close>

definition made_sensor :: "(Sensor_t option \<times> daemon) option" where
  "made_sensor = psensor_Create sample_legato sensor 7 ''t'' IO_DATA_TYPE_NUMERIC ''deg'' 9 initial_daemon"

lemma made_sensor_ok:
  obtains s d where "made_sensor = Some (Some s, d)" "daemon_ok sample_legato d" "sensor_name s = ''t''" "fresh_sensor s"
    "io_at sample_legato sensor (input_path s) ADMIN_ENTRY_TYPE_INPUT IO_DATA_TYPE_NUMERIC ''deg'' d"
    "undisturbed sample_legato sensor (input_path s) d"
proof -
  have "map_option (\<lambda>(s, d). map_option (\<lambda>s. (sensor_name s, isEnabled s, period s)) s) made_sensor =
      Some (Some (''t'', False, dbl_of_int 0))" by code_simp
  then obtain s d where m: "made_sensor = Some (Some s, d)" "sensor_name s = ''t''" "\<not> isEnabled s" "period s = dbl_of_int 0"
    by auto
  have path: "input_path s = ''t/value''" using m(2) by (simp add: input_path_def)
  have ok: "daemon_ok sample_legato d"
    using Create_served [OF sample_framework_ok initial_daemon_ok clients_ok(1), of 7 "''t''" IO_DATA_TYPE_NUMERIC "''deg''" 9] m(1)
    by (simp add: made_sensor_def served_def)
  have "map_option (\<lambda>(_, d). do {
      ns \<leftarrow> contextPtr d 1;
      e \<leftarrow> Option.bind (resTree_FindEntry sample_legato (hub_of d) ns ''t/value'') (\<lambda>e. e);
      y \<leftarrow> entries (hub_of d) e;
      x \<leftarrow> resource_at (hub_of d) e;
      Some (e_type y, r_currentType x, r_units x, r_overrideValue x = None, r_isConfigChanging x) }) made_sensor =
      Some (Some (ADMIN_ENTRY_TYPE_INPUT, IO_DATA_TYPE_NUMERIC, ''deg'', True, False))"
    by code_simp
  then obtain ns e y x where "contextPtr d 1 = Some ns" "resTree_FindEntry sample_legato (hub_of d) ns ''t/value'' = Some (Some e)"
    "entries (hub_of d) e = Some y" "resource_at (hub_of d) e = Some x" "e_type y = ADMIN_ENTRY_TYPE_INPUT"
    "r_currentType x = IO_DATA_TYPE_NUMERIC" "r_units x = ''deg''" "r_overrideValue x = None" "\<not> r_isConfigChanging x"
    by (auto simp: m(1) bind_eq_Some_conv)
  then have "io_at sample_legato sensor (input_path s) ADMIN_ENTRY_TYPE_INPUT IO_DATA_TYPE_NUMERIC ''deg'' d"
    "undisturbed sample_legato sensor (input_path s) d"
    unfolding path by (auto simp: io_at_def undisturbed_def sensor_def)
  then show thesis using that [of s d] m ok by (simp add: fresh_sensor_def)
qed

lemma timer_follows_witness:
  "\<exists>s0 d tr s. made_sensor = Some (Some s0, d) \<and>
     sensor_runs s0 tr s True \<and> isEnabled s \<and> dbl_gt (period s) (dbl_of_int 0)"
proof -
  obtain s0 d where m: "made_sensor = Some (Some s0, d)" "fresh_sensor s0" by (rule made_sensor_ok)
  define s1 where "s1 = s0\<lparr>isEnabled := True\<rparr>"
  have z: "period s0 = dbl_of_int 0" "\<not> isEnabled s0" using m(2) by (simp_all add: fresh_sensor_def)
  have e: "react (EnablePush True) s0 = Some (s1, [])" using z by (simp add: HandleEnablePush_def s1_def)
  have two: "timer_interval (dbl_of_int 2) = Some (2, 0)" "dbl_eq (dbl_of_int 0) (dbl_of_int 2) = False"
    "dbl_le (dbl_of_int 2) (dbl_of_int 0) = False" "dbl_gt (dbl_of_int 2) (dbl_of_int 0x7FFFFFFF) = False"
    by code_simp+
  have p: "react (PeriodPush (dbl_of_int 2)) s1 =
      Some (s1\<lparr>period := dbl_of_int 2\<rparr>, [TimerInterval 2 0, Sample (sampleFuncContext s1), TimerStart])"
    using z two by (simp add: HandlePeriodPush_def s1_def)
  have "sensor_runs s0 ([] @ [(EnablePush True, [])]) s1 (timer_after False [])"
    by (rule reaction [OF created _ e]) simp
  from reaction [OF this _ p]
  obtain tr where r: "sensor_runs s0 tr (s1\<lparr>period := dbl_of_int 2\<rparr>) True" by auto
  show ?thesis
  proof (intro exI conjI)
    show "made_sensor = Some (Some s0, d)" by (rule m(1))
    show "sensor_runs s0 tr (s1\<lparr>period := dbl_of_int 2\<rparr>) True" by (rule r)
    show "isEnabled (s1\<lparr>period := dbl_of_int 2\<rparr>)" "dbl_gt (period (s1\<lparr>period := dbl_of_int 2\<rparr>)) (dbl_of_int 0)"
      using timer_follows [OF m(2) r] by blast+
  qed
qed

lemma scaffold_pushes_witness:
  "\<exists>s d d' ts'. made_sensor = Some (Some s, d) \<and>
     psensor_PushNumeric sample_legato sensor s (dbl_of_int 1) (dbl_of_int 5) d = Some (Some (), d') \<and>
     io_GetNumeric sample_legato sensor ''t/value'' d' = Some ((LE_OK, Some (ts', dbl_of_int 5)), d')"
proof -
  obtain s d where m: "made_sensor = Some (Some s, d)" "daemon_ok sample_legato d" "sensor_name s = ''t''"
    "io_at sample_legato sensor (input_path s) ADMIN_ENTRY_TYPE_INPUT IO_DATA_TYPE_NUMERIC ''deg'' d"
    "undisturbed sample_legato sensor (input_path s) d"
    by (rule made_sensor_ok)
  have "length (sensor_name s) < PSENSOR_MAX_NAME_BYTES" "input_path s = ''t/value''"
    using m(3) by (simp_all add: PSENSOR_MAX_NAME_BYTES_def input_path_def)
  then show ?thesis
    using scaffold_pushes [OF sample_framework_ok m(2) _ m(4,5), of "dbl_of_int 1" "dbl_of_int 5"] m(1) by auto
qed

end
