(* ===== verification/MultiRelay.thy ===== *)
theory MultiRelay
  imports Prelude
begin

unbundle bit_operations_syntax

text \<open>
  The driver of the Grove multi channel relay,
  \<open>src/apps/multiChannelRelay/multiChannelRelayComponent/multiChannelRelay.c\<close>, over the I2C functions of
  \<open>src/apps/multiChannelRelay/i2c-utils/i2c-utils.h\<close>. The device file is the operating system's: a record
  of type \<open>i2c\<close> says of every use whether the bus can be opened, whether the address can be set, and
  what a read transfer brings; the transfers are recorded. \<open>None\<close> is undefined behaviour of C: a
  shift by a negative number or past the sign bit, and more bytes than the buffer has.
\<close>

subsection \<open>The bus\<close>

record i2c =
  open_ok :: "nat \<Rightarrow> bool"
  address_ok :: "nat \<Rightarrow> 8 word \<Rightarrow> bool"
  smbus_reply :: "nat \<Rightarrow> 8 word \<Rightarrow> 8 word list option"

datatype transfer =
    WriteByte "8 word" "8 word"
  | WriteBlock "8 word" "8 word" "8 word list"
  | ReadBlock "8 word" "8 word" nat

record relay =
  transfers :: "transfer list"
  uses :: nat
  buf :: "8 word list"
  channel_state :: "8 word"
  cur_channel_state :: "8 word"
  multi_relayAddress :: "8 word"

definition GROVE_DEFAULT_ADDR :: "8 word" where "GROVE_DEFAULT_ADDR = 0x11"
definition CMD_CHANNEL_CTRL :: "8 word" where "CMD_CHANNEL_CTRL = 0x10"
definition CMD_SAVE_I2C_ADDR :: "8 word" where "CMD_SAVE_I2C_ADDR = 0x11"
definition CMD_READ_FIRMWARE_VER :: "8 word" where "CMD_READ_FIRMWARE_VER = 0x13"
definition buf_len :: nat where "buf_len = 29"

definition initial_relay :: relay where
  "initial_relay = \<lparr> transfers = [], uses = 0, buf = replicate buf_len 0, channel_state = 0, cur_channel_state = 0,
     multi_relayAddress = GROVE_DEFAULT_ADDR \<rparr>"

text \<open>Opening the bus and setting the address, which every function starts with.\<close>

definition with_slave :: "i2c \<Rightarrow> 8 word \<Rightarrow> (relay \<Rightarrow> relay option) \<Rightarrow> relay \<Rightarrow> (int \<times> relay) option" where
  "with_slave I address act s =
     (let n = uses s; s = s\<lparr>uses := n + 1\<rparr> in
      if \<not> open_ok I n then Some (- 1, s)
      else if \<not> address_ok I n address then Some (- 1, s)
      else do { s \<leftarrow> act s; Some (0, s) })"

definition i2cSendByte :: "i2c \<Rightarrow> 8 word \<Rightarrow> 8 word \<Rightarrow> relay \<Rightarrow> (int \<times> relay) option" where
  "i2cSendByte I address dat = with_slave I address (\<lambda>s. Some (s\<lparr>transfers := transfers s @ [WriteByte address dat]\<rparr>))"

definition i2c_smbus_write_i2c_block_data :: "8 word \<Rightarrow> 8 word \<Rightarrow> nat \<Rightarrow> 8 word list \<Rightarrow> relay \<Rightarrow> relay" where
  "i2c_smbus_write_i2c_block_data address command n values s =
     s\<lparr>transfers := transfers s @ [WriteBlock address command (take (min n 32) values)]\<rparr>"

text \<open>The first byte goes out as the command.\<close>

definition i2cSendBytes :: "i2c \<Rightarrow> 8 word \<Rightarrow> 8 word list \<Rightarrow> nat \<Rightarrow> relay \<Rightarrow> (int \<times> relay) option" where
  "i2cSendBytes I address dat n = with_slave I address
     (\<lambda>s. Some (i2c_smbus_write_i2c_block_data address (hd dat) (n - 1) (tl dat) s))"

text \<open>The bytes of the reply overwrite the start of the buffer; a failed transfer leaves it as it is.\<close>

definition i2c_smbus_read_i2c_block_data :: "i2c \<Rightarrow> 8 word \<Rightarrow> 8 word \<Rightarrow> nat \<Rightarrow> relay \<Rightarrow> relay option" where
  "i2c_smbus_read_i2c_block_data I address command n s =
     (let s = s\<lparr>transfers := transfers s @ [ReadBlock address command (min n 32)]\<rparr> in
      case smbus_reply I (uses s) address of
        None \<Rightarrow> Some s
      | Some values \<Rightarrow>
          if length values > length (buf s) then None
          else Some (s\<lparr>buf := values @ drop (length values) (buf s)\<rparr>))"

text \<open>The result says nothing of the transfer.\<close>

definition i2cReceiveBytes :: "i2c \<Rightarrow> 8 word \<Rightarrow> nat \<Rightarrow> relay \<Rightarrow> (int \<times> relay) option" where
  "i2cReceiveBytes I address n = with_slave I address (i2c_smbus_read_i2c_block_data I address 0 n)"

subsection \<open>The relay\<close>

definition read8 :: "i2c \<Rightarrow> 8 word \<Rightarrow> 8 word \<Rightarrow> relay \<Rightarrow> (8 word \<times> relay) option" where
  "read8 I address cmd s = do {
     (_, s) \<leftarrow> i2cSendByte I address cmd s;
     (_, s) \<leftarrow> i2cReceiveBytes I address buf_len s;
     Some (hd (buf s), s)
   }"

definition write8 :: "i2c \<Rightarrow> 8 word \<Rightarrow> 8 word \<Rightarrow> 8 word \<Rightarrow> relay \<Rightarrow> relay option" where
  "write8 I address reg v s = map_option snd (i2cSendBytes I address [reg, v] 2 s)"

definition getFirmwareVersion :: "i2c \<Rightarrow> relay \<Rightarrow> (8 word \<times> relay) option" where
  "getFirmwareVersion I s = do {
     (_, s) \<leftarrow> read8 I (multi_relayAddress s) CMD_READ_FIRMWARE_VER s;
     Some (hd (buf s), s)
   }"

text \<open>The old address is not used: the command goes to the current one.\<close>

definition changeI2CAddress :: "i2c \<Rightarrow> 8 word \<Rightarrow> 8 word \<Rightarrow> relay \<Rightarrow> relay option" where
  "changeI2CAddress I old_addr new_addr s = do {
     s \<leftarrow> write8 I (multi_relayAddress s) CMD_SAVE_I2C_ADDR new_addr s;
     Some (s\<lparr>multi_relayAddress := new_addr\<rparr>)
   }"

definition multiChannelRelay_getChannelState :: "relay \<Rightarrow> 8 word" where
  "multiChannelRelay_getChannelState s = cur_channel_state s AND 0x0f"

text \<open>An \<open>int\<close> with one bit set, as it is written to a byte.\<close>

definition shifted_one :: "int \<Rightarrow> 8 word option" where
  "shifted_one k = (if 0 \<le> k \<and> k < 31 then Some (push_bit (nat k) 1) else None)"

definition multiChannelRelay_turn_on_channel :: "i2c \<Rightarrow> 8 word \<Rightarrow> relay \<Rightarrow> relay option" where
  "multiChannelRelay_turn_on_channel I channel s = do {
     let s = s\<lparr>cur_channel_state := channel\<rparr>;
     one \<leftarrow> shifted_one (uint (channel AND 0x0f) - 1);
     let s = s\<lparr>channel_state := channel_state s OR one\<rparr>;
     write8 I (multi_relayAddress s) CMD_CHANNEL_CTRL channel s
   }"

definition multiChannelRelay_turn_off_channel :: "i2c \<Rightarrow> 8 word \<Rightarrow> relay \<Rightarrow> relay option" where
  "multiChannelRelay_turn_off_channel I channel s = do {
     let s = s\<lparr>cur_channel_state := channel\<rparr>;
     one \<leftarrow> shifted_one (uint channel - 1);
     let s = s\<lparr>channel_state := channel_state s AND NOT one\<rparr>;
     write8 I (multi_relayAddress s) CMD_CHANNEL_CTRL channel s
   }"

text \<open>The scan of all addresses: the address found last, and how many were found.\<close>

fun scan_addresses :: "i2c \<Rightarrow> nat list \<Rightarrow> nat \<Rightarrow> nat \<Rightarrow> relay \<Rightarrow> ((nat \<times> nat) \<times> relay) option" where
  "scan_addresses I [] result nDevice s = Some ((result, nDevice), s)"
| "scan_addresses I (i # is) result nDevice s = do {
     (error, s) \<leftarrow> i2cReceiveBytes I (of_nat i) buf_len s;
     if error = 0 then scan_addresses I is i (nDevice + 1) s
     else scan_addresses I is result nDevice s
   }"

definition scan_device :: "i2c \<Rightarrow> relay \<Rightarrow> (8 word \<times> relay) option" where
  "scan_device I s = do {
     ((result, nDevice), s) \<leftarrow> scan_addresses I [0x03..<0x77] 0 0 s;
     Some (if nDevice = 0 then of_nat result else if nDevice \<noteq> 1 then 0 else of_nat result, s)
   }"

definition openI2CHub :: "i2c \<Rightarrow> relay \<Rightarrow> relay option" where
  "openI2CHub I s = map_option snd (i2cSendByte I 0x71 0x0f s)"

subsection \<open>What the driver does\<close>

text \<open>Whether the bus opens for every use, with every address.\<close>

definition bus_opens :: "i2c \<Rightarrow> bool" where
  "bus_opens I \<longleftrightarrow> (\<forall>n a. open_ok I n \<and> address_ok I n a)"

text \<open>Replies have no more bytes than were asked for.\<close>

definition replies_fit :: "i2c \<Rightarrow> bool" where
  "replies_fit I \<longleftrightarrow> (\<forall>n a vs. smbus_reply I n a = Some vs \<longrightarrow> length vs \<le> buf_len)"

lemma receive_ok:
  assumes "bus_opens I" "replies_fit I" "length (buf s) = buf_len"
  obtains s' where "i2cReceiveBytes I a buf_len s = Some (0, s')" "length (buf s') = buf_len"
proof (cases "smbus_reply I (Suc (uses s)) a")
  case None
  then show ?thesis using that assms
    by (simp add: i2cReceiveBytes_def with_slave_def bus_opens_def i2c_smbus_read_i2c_block_data_def Let_def)
next
  case (Some vs)
  then have "length vs \<le> length (buf s)" using assms(2,3) by (simp add: replies_fit_def)
  then show ?thesis using that assms Some
    by (simp add: i2cReceiveBytes_def with_slave_def bus_opens_def i2c_smbus_read_i2c_block_data_def Let_def)
qed

lemma scan_all:
  assumes "bus_opens I" "replies_fit I" "length (buf s) = buf_len"
  shows "\<exists>s'. scan_addresses I is r n s = Some ((if is = [] then r else last is, n + length is), s') \<and>
    length (buf s') = buf_len"
  using assms(3)
proof (induction "is" arbitrary: r n s)
  case (Cons i "is")
  obtain s' where s': "i2cReceiveBytes I (of_nat i) buf_len s = Some (0, s')" "length (buf s') = buf_len"
    by (rule receive_ok [OF assms(1,2) Cons.prems])
  show ?case using Cons.IH [OF s'(2), of i "n + 1"] s'(1) by (auto split: if_splits)
qed simp

lemma write8_opens:
  "bus_opens I \<Longrightarrow> write8 I a reg v s = Some (s\<lparr>uses := uses s + 1, transfers := transfers s @ [WriteBlock a reg [v]]\<rparr>)"
  by (simp add: write8_def i2cSendBytes_def with_slave_def i2c_smbus_write_i2c_block_data_def bus_opens_def Let_def)

lemma write8_keeps: "write8 I a reg v s = Some s' \<Longrightarrow> cur_channel_state s' = cur_channel_state s \<and> channel_state s' = channel_state s"
  by (auto simp: write8_def i2cSendBytes_def with_slave_def i2c_smbus_write_i2c_block_data_def Let_def split: if_splits)

text \<open>
  On a bus that opens, the scan never tells which device is connected: since the result of a read
  transfer is dropped, every address counts as a device, and the scan gives no address.
\<close>

theorem scan_finds_nothing:
  assumes "bus_opens I" "replies_fit I" "length (buf s) = buf_len"
  shows "\<exists>s'. scan_device I s = Some (0, s')"
proof -
  obtain s' :: relay where "scan_addresses I [0x03..<0x77] 0 0 s = Some ((last [0x03..<0x77], 116), s')"
    using scan_all [OF assms, of "[0x03..<0x77]" 0 0] by (auto simp del: scan_addresses.simps upt_rec_numeral)
  then show ?thesis by (simp add: scan_device_def del: scan_addresses.simps upt_rec_numeral)
qed

lemma scan_finds_nothing_witness:
  "\<exists>s'. scan_device \<lparr> open_ok = \<lambda>_. True, address_ok = \<lambda>_ _. True,
      smbus_reply = \<lambda>_ a. if a = 0x11 then Some [1] else None \<rparr> initial_relay = Some (0, s')"
  by (rule scan_finds_nothing) (simp_all add: bus_opens_def replies_fit_def initial_relay_def buf_len_def)

end
