(* ===== verification/RelayPublisher.thy ===== *)
theory RelayPublisher
  imports MultiRelay
begin

text \<open>
  The app that publishes the state of the relay to the AirVantage cloud and takes its commands,
  \<open>src/apps/GroveRelayToCloud/avPublisherComponent/avPublisher.c\<close>. The AirVantage service is not part of the
  repository: a record of type \<open>avdata\<close> gives the result of each of its calls, by the number of calls so
  far, and the calls are recorded. The times are milliseconds in 64 bits, whose differences wrap around.
  The relay is the driver of \<open>MultiRelay\<close>, which the app calls.
\<close>

subsection \<open>Items\<close>

datatype channel = Channel1 | Channel2 | Channel3 | Channel4

text \<open>There are four of them, so that a statement on all of them is evaluated.\<close>

instantiation channel :: enum
begin

definition enum_channel :: "channel list" where
  "enum_channel = [Channel1, Channel2, Channel3, Channel4]"

definition enum_all_channel :: "(channel \<Rightarrow> bool) \<Rightarrow> bool" where
  "enum_all_channel P \<longleftrightarrow> P Channel1 \<and> P Channel2 \<and> P Channel3 \<and> P Channel4"

definition enum_ex_channel :: "(channel \<Rightarrow> bool) \<Rightarrow> bool" where
  "enum_ex_channel P \<longleftrightarrow> P Channel1 \<or> P Channel2 \<or> P Channel3 \<or> P Channel4"

instance
proof
  show u: "(UNIV :: channel set) = set enum_class.enum"
    by (auto simp: enum_channel_def) (metis channel.exhaust)
  show "distinct (enum_class.enum :: channel list)" by (simp add: enum_channel_def)
  show "enum_class.enum_all P \<longleftrightarrow> Ball UNIV P" "enum_class.enum_ex P \<longleftrightarrow> Bex UNIV P" for P :: "channel \<Rightarrow> bool"
    by (auto simp: enum_all_channel_def enum_ex_channel_def) (metis channel.exhaust)+
qed

end

text \<open>An item is known by its channel, which stands for its functions; the values are truth values.\<close>

record Item =
  item_channel :: channel
  lastValueRead :: bool
  lastValueRecorded :: bool
  lastTimeRecorded :: "64 word"
  lastTimeRead :: "64 word"

record avdata =
  RecordInt_result :: "nat \<Rightarrow> bool"
  PushRecord_result :: "nat \<Rightarrow> bool"

datatype av_call =
    RecordInt string bool "64 word"
  | PushRecord

record publisher =
  Items :: "Item list"
  channelStatus :: "8 word"
  DeferredPublish :: bool
  LastTimePublished :: "64 word"
  av_calls :: "av_call list"

definition MaxIntervalBetweenPublish :: "64 word" where "MaxIntervalBetweenPublish = 120"
definition MinIntervalBetweenPublish :: "64 word" where "MinIntervalBetweenPublish = 10"
definition TimeToStale :: "64 word" where "TimeToStale = 60"

definition item :: "channel \<Rightarrow> Item" where
  "item c = \<lparr> item_channel = c, lastValueRead = False, lastValueRecorded = False, lastTimeRecorded = 0, lastTimeRead = 0 \<rparr>"

definition initial_publisher :: publisher where
  "initial_publisher = \<lparr> Items = [item Channel1, item Channel2, item Channel3, item Channel4], channelStatus = 0,
     DeferredPublish = False, LastTimePublished = 0, av_calls = [] \<rparr>"

lemma every_channel_has_an_item: "map item_channel (Items initial_publisher) = enum_class.enum"
  by (simp add: initial_publisher_def item_def enum_channel_def)

definition GetCurrentTimestamp :: "64 word \<Rightarrow> 64 word \<Rightarrow> 64 word" where
  "GetCurrentTimestamp tv_sec tv_usec = tv_sec * 1000 + tv_usec div 1000"

text \<open>Reading never fails.\<close>

definition Channel1read :: "relay \<Rightarrow> bool" where
  "Channel1read r = (drop_bit 0 (multiChannelRelay_getChannelState r AND 0b0001) \<noteq> 0)"

definition Channel2read :: "relay \<Rightarrow> bool" where
  "Channel2read r = (drop_bit 1 (multiChannelRelay_getChannelState r AND 0b0010) \<noteq> 0)"

definition Channel3read :: "relay \<Rightarrow> bool" where
  "Channel3read r = (drop_bit 2 (multiChannelRelay_getChannelState r AND 0b0100) \<noteq> 0)"

definition Channel4read :: "relay \<Rightarrow> bool" where
  "Channel4read r = (drop_bit 3 (multiChannelRelay_getChannelState r AND 0b1000) \<noteq> 0)"

fun item_read :: "channel \<Rightarrow> relay \<Rightarrow> bool" where
  "item_read Channel1 = Channel1read"
| "item_read Channel2 = Channel2read"
| "item_read Channel3 = Channel3read"
| "item_read Channel4 = Channel4read"

text \<open>The threshold of all four channels, and the paths of their records.\<close>

definition Channel1Threshold :: "bool \<Rightarrow> bool \<Rightarrow> bool" where
  "Channel1Threshold v1 v2 = (\<bar>of_bool v1 - of_bool v2 :: int\<bar> > 200)"

fun record_path :: "channel \<Rightarrow> string" where
  "record_path Channel1 = ''MangOH.GroveRelayToCloud.Channel1status''"
| "record_path Channel2 = ''MangOH.GroveRelayToCloud.Channel2status''"
| "record_path Channel3 = ''MangOH.GroveRelayToCloud.Channel3status''"
| "record_path Channel4 = ''MangOH.GroveRelayToCloud.Channel4status''"

subsection \<open>The sampling timer\<close>

text \<open>One turn of the first loop: read, record past the threshold, and ask for a publication.\<close>

definition sample_item :: "avdata \<Rightarrow> relay \<Rightarrow> 64 word \<Rightarrow> 64 word \<Rightarrow> Item \<Rightarrow> av_call list \<Rightarrow> Item \<times> av_call list \<times> bool" where
  "sample_item A r now published it calls =
     (let it = it\<lparr>lastValueRead := item_read (item_channel it) r, lastTimeRead := now\<rparr>;
          (it, calls, publish) =
            (if lastTimeRecorded it = 0 \<or> Channel1Threshold (lastValueRead it) (lastValueRecorded it) then
               (if RecordInt_result A (length calls)
                then (it\<lparr>lastValueRecorded := lastValueRead it\<rparr>,
                      calls @ [RecordInt (record_path (item_channel it)) (lastValueRead it) now], True)
                else (it, calls @ [RecordInt (record_path (item_channel it)) (lastValueRead it) now], False))
             else (it, calls, False))
      in (it, calls, publish \<or>
           now - lastTimeRecorded it > MaxIntervalBetweenPublish * 1000 \<and> lastTimeRead it > published))"

fun sample_items :: "avdata \<Rightarrow> relay \<Rightarrow> 64 word \<Rightarrow> 64 word \<Rightarrow> Item list \<Rightarrow> av_call list \<Rightarrow> Item list \<times> av_call list \<times> bool" where
  "sample_items A r now published [] calls = ([], calls, False)"
| "sample_items A r now published (it # its) calls =
     (let (it, calls, publish) = sample_item A r now published it calls;
          (its, calls, publish') = sample_items A r now published its calls
      in (it # its, calls, publish \<or> publish'))"

text \<open>One turn of the second loop: what is stale is recorded as it was read last.\<close>

definition record_stale :: "avdata \<Rightarrow> 64 word \<Rightarrow> Item \<Rightarrow> av_call list \<Rightarrow> Item \<times> av_call list" where
  "record_stale A now it calls =
     (if now - lastTimeRecorded it > TimeToStale * 1000 \<and> lastTimeRead it > lastTimeRecorded it then
        (if RecordInt_result A (length calls)
         then (it\<lparr>lastValueRecorded := lastValueRead it, lastTimeRecorded := lastTimeRead it\<rparr>,
               calls @ [RecordInt (record_path (item_channel it)) (lastValueRead it) (lastTimeRead it)])
         else (it, calls @ [RecordInt (record_path (item_channel it)) (lastValueRead it) (lastTimeRead it)]))
      else (it, calls))"

fun record_stales :: "avdata \<Rightarrow> 64 word \<Rightarrow> Item list \<Rightarrow> av_call list \<Rightarrow> Item list \<times> av_call list" where
  "record_stales A now [] calls = ([], calls)"
| "record_stales A now (it # its) calls =
     (let (it, calls) = record_stale A now it calls;
          (its, calls) = record_stales A now its calls
      in (it # its, calls))"

definition SampleTimerHandler :: "avdata \<Rightarrow> relay \<Rightarrow> 64 word \<Rightarrow> publisher \<Rightarrow> publisher" where
  "SampleTimerHandler A r now p =
     (let (its, calls, publish) = sample_items A r now (LastTimePublished p) (Items p) (av_calls p);
          p = p\<lparr>Items := its, av_calls := calls\<rparr>
      in if publish \<or> DeferredPublish p then
           (if now - LastTimePublished p < MinIntervalBetweenPublish then p\<lparr>DeferredPublish := True\<rparr>
            else
              let (its, calls) = record_stales A now its calls;
                  p = p\<lparr>Items := its, av_calls := calls @ [PushRecord]\<rparr>
              in if PushRecord_result A (length calls) then p\<lparr>LastTimePublished := now, DeferredPublish := False\<rparr> else p)
         else p)"

subsection \<open>Commands\<close>

text \<open>
  A command switches its channel over: the state of all channels is kept in \<open>channelStatus\<close> and sent whole.
\<close>

definition switch_to :: "i2c \<Rightarrow> 8 word \<Rightarrow> publisher \<times> relay \<Rightarrow> (publisher \<times> relay) option" where
  "switch_to I status = (\<lambda>(p, r). do {
     r \<leftarrow> multiChannelRelay_turn_on_channel I status r;
     Some (p\<lparr>channelStatus := status\<rparr>, r)
   })"

definition SwitchChannel1Cmd :: "i2c \<Rightarrow> publisher \<times> relay \<Rightarrow> (publisher \<times> relay) option" where
  "SwitchChannel1Cmd I s =
     (let st = channelStatus (fst s) in
      if st AND 0b0001 = 0 then switch_to I (st OR 0b0001) s else switch_to I (st AND 0b1110) s)"

definition SwitchChannel2Cmd :: "i2c \<Rightarrow> publisher \<times> relay \<Rightarrow> (publisher \<times> relay) option" where
  "SwitchChannel2Cmd I s =
     (let st = channelStatus (fst s) in
      if drop_bit 1 (st AND 0b0010) = 0 then switch_to I (st OR 0b0010) s else switch_to I (st AND 0b1101) s)"

definition SwitchChannel3Cmd :: "i2c \<Rightarrow> publisher \<times> relay \<Rightarrow> (publisher \<times> relay) option" where
  "SwitchChannel3Cmd I s =
     (let st = channelStatus (fst s) in
      if drop_bit 2 (st AND 0b0100) = 0 then switch_to I (st OR 0b0100) s else switch_to I (st AND 0b1011) s)"

definition SwitchChannel4Cmd :: "i2c \<Rightarrow> publisher \<times> relay \<Rightarrow> (publisher \<times> relay) option" where
  "SwitchChannel4Cmd I s =
     (let st = channelStatus (fst s) in
      if drop_bit 3 (st AND 0b1000) = 0 then switch_to I (st OR 0b1000) s else switch_to I (st AND 0b0111) s)"

text \<open>The sampling timer runs while the AirVantage session is open: whether it runs after a change of the session.\<close>

datatype session_state = SESSION_STARTED | SESSION_STOPPED | SESSION_OTHER

fun AvSessionStateHandler :: "session_state \<Rightarrow> bool \<Rightarrow> bool" where
  "AvSessionStateHandler SESSION_STARTED running = True"
| "AvSessionStateHandler SESSION_STOPPED running = False"
| "AvSessionStateHandler SESSION_OTHER running = running"

text \<open>The start of the component takes over what the relay shows.\<close>

definition publisher_start :: "relay \<Rightarrow> publisher" where
  "publisher_start r = initial_publisher\<lparr>channelStatus := multiChannelRelay_getChannelState r AND 0x0f\<rparr>"

end
