(* ===== verification/RelaySpec.thy ===== *)
theory RelaySpec
  imports RelayPublisher
begin

text \<open>
  What the app of the relay does: its commands switch one channel over, which is sent to the relay and is what
  the driver remembers; every two minutes it publishes the states of the channels, and in between it does not notice what happens to them.
\<close>

unbundle bit_operations_syntax

subsection \<open>Switching\<close>

fun switch_cmd :: "channel \<Rightarrow> i2c \<Rightarrow> publisher \<times> relay \<Rightarrow> (publisher \<times> relay) option" where
  "switch_cmd Channel1 = SwitchChannel1Cmd"
| "switch_cmd Channel2 = SwitchChannel2Cmd"
| "switch_cmd Channel3 = SwitchChannel3Cmd"
| "switch_cmd Channel4 = SwitchChannel4Cmd"

fun channel_bit :: "channel \<Rightarrow> 8 word" where
  "channel_bit Channel1 = 1"
| "channel_bit Channel2 = 2"
| "channel_bit Channel3 = 4"
| "channel_bit Channel4 = 8"

definition nibble :: "8 word \<Rightarrow> bool" where
  "nibble x \<longleftrightarrow> x AND 0x0f = x"

lemma nibble_cases:
  assumes "nibble x"
  shows "x \<in> {0, 1, 2, 3, 4, 5, 6, 7, 8, 9, 10, 11, 12, 13, 14, 15}"
proof -
  have "x AND mask 4 = x" using assms by (simp add: nibble_def mask_numeral)
  then have "take_bit 4 x = x" by (simp add: take_bit_eq_mask)
  then have "uint x = take_bit 4 (uint x)" by (metis unsigned_take_bit_eq)
  then have "uint x \<in> {0..<16}" using take_bit_int_less_exp [of 4 "uint x"] by simp
  also have "{0..<16} = set [0..15 :: int]" by auto
  finally have "word_of_int (uint x) \<in> (word_of_int ` set [0..15] :: 8 word set)" by blast
  then show ?thesis by (simp add: upto.simps)
qed

text \<open>What a write of a state puts on the bus: nothing if the bus does not open or the address is not taken.\<close>

definition sent :: "i2c \<Rightarrow> relay \<Rightarrow> 8 word \<Rightarrow> transfer list" where
  "sent I r st = (if open_ok I (uses r) \<and> address_ok I (uses r) (multi_relayAddress r)
     then [WriteBlock (multi_relayAddress r) CMD_CHANNEL_CTRL [st]] else [])"

lemma write8_sent:
  "\<exists>r'. write8 I (multi_relayAddress r) CMD_CHANNEL_CTRL v r = Some r' \<and> cur_channel_state r' = cur_channel_state r \<and>
     transfers r' = transfers r @ sent I r v \<and> uses r' = uses r + 1 \<and> multi_relayAddress r' = multi_relayAddress r"
  by (simp add: write8_def i2cSendBytes_def with_slave_def i2c_smbus_write_i2c_block_data_def sent_def Let_def)

text \<open>
  A state of the channels is sent whole and remembered by the driver, unless it is all off.
\<close>

lemma switch_to_sent:
  assumes "nibble st"
  shows "if st = 0 then switch_to I st (p, r) = None
    else \<exists>r'. switch_to I st (p, r) = Some (p\<lparr>channelStatus := st\<rparr>, r') \<and> multiChannelRelay_getChannelState r' = st \<and>
      transfers r' = transfers r @ sent I r st \<and> uses r' = uses r + 1 \<and> multi_relayAddress r' = multi_relayAddress r"
proof -
  have one: "shifted_one (uint (st AND 15) - 1) = None \<longleftrightarrow> st = 0"
    using nibble_cases [OF assms] by (auto simp: shifted_one_def)
  show ?thesis
  proof (cases "shifted_one (uint (st AND 15) - 1)")
    case None
    then show ?thesis using one by (simp add: switch_to_def multiChannelRelay_turn_on_channel_def)
  next
    case (Some i)
    define q where "q = r\<lparr>cur_channel_state := st, channel_state := channel_state r OR i\<rparr>"
    have q: "cur_channel_state q = st" "transfers q = transfers r" "uses q = uses r" "multi_relayAddress q = multi_relayAddress r"
      "sent I q st = sent I r st"
      by (simp_all add: q_def sent_def)
    obtain r' where r': "write8 I (multi_relayAddress q) CMD_CHANNEL_CTRL st q = Some r'" "cur_channel_state r' = st"
      "transfers r' = transfers r @ sent I r st" "uses r' = uses r + 1" "multi_relayAddress r' = multi_relayAddress r"
      using write8_sent [of I q st] q by auto
    then have "switch_to I st (p, r) = Some (p\<lparr>channelStatus := st\<rparr>, r')"
      using Some by (simp add: switch_to_def multiChannelRelay_turn_on_channel_def q_def)
    then show ?thesis using r'(2-5) one Some assms by (auto simp: multiChannelRelay_getChannelState_def nibble_def)
  qed
qed

lemma switch_cmd_to:
  assumes "nibble (channelStatus p)"
  shows "switch_cmd c I (p, r) = switch_to I (channelStatus p XOR channel_bit c) (p, r)"
    "nibble (channelStatus p XOR channel_bit c)" "channelStatus p XOR channel_bit c = 0 \<longleftrightarrow> channelStatus p = channel_bit c"
  using nibble_cases [OF assms]
  by (cases c; auto simp: SwitchChannel1Cmd_def SwitchChannel2Cmd_def SwitchChannel3Cmd_def SwitchChannel4Cmd_def Let_def nibble_def)+

lemma shown_state:
  "multiChannelRelay_getChannelState r = st \<Longrightarrow> nibble st \<Longrightarrow> item_read k r \<longleftrightarrow> st AND channel_bit k \<noteq> 0"
  using nibble_cases [of st]
  by (cases k; auto simp: Channel1read_def Channel2read_def Channel3read_def Channel4read_def)

text \<open>
  C32: while the state of the channels has no other bits, a command of the cloud switches its channel over
  and no other: the new state is sent to the relay whole, in one transfer, if the bus opens and takes the address,
  and it is what the driver remembers and the app then reads channel by channel, also when nothing was sent. Only the
  command that switches the last channel off shifts by a negative number, which C does not define.
\<close>

theorem switching:
  assumes "channelStatus p AND 0x0f = channelStatus p"
  shows "(switch_cmd c I (p, r) = None \<longleftrightarrow> channelStatus p = channel_bit c) \<and>
    (\<forall>p' r'. switch_cmd c I (p, r) = Some (p', r') \<longrightarrow>
       channelStatus p' = channelStatus p XOR channel_bit c \<and> channelStatus p' AND 0x0f = channelStatus p' \<and>
       transfers r' = transfers r @
         (if open_ok I (uses r) \<and> address_ok I (uses r) (multi_relayAddress r)
          then [WriteBlock (multi_relayAddress r) CMD_CHANNEL_CTRL [channelStatus p']] else []) \<and>
       uses r' = uses r + 1 \<and> multi_relayAddress r' = multi_relayAddress r \<and>
       multiChannelRelay_getChannelState r' = channelStatus p' \<and>
       (\<forall>k. item_read k r' \<longleftrightarrow> channelStatus p' AND channel_bit k \<noteq> 0))"
proof -
  have n: "nibble (channelStatus p)" using assms by (simp add: nibble_def)
  note to = switch_cmd_to [OF n, of c]
  show ?thesis
    using switch_to_sent [OF to(2), of I p r] to(2,3) shown_state
    unfolding to(1) nibble_def sent_def [symmetric] by (auto split: if_splits)
qed

lemma switching_witness:
  "\<exists>p r. switch_cmd Channel2 \<lparr> open_ok = \<lambda>_. True, address_ok = \<lambda>_ _. True, smbus_reply = \<lambda>_ _. None \<rparr>
     (publisher_start initial_relay, initial_relay) = Some (p, r) \<and> channelStatus p = 2 \<and>
     transfers r = [WriteBlock 0x11 0x10 [2]] \<and> item_read Channel2 r \<and> \<not> item_read Channel1 r"
proof -
  let ?I = "\<lparr> open_ok = \<lambda>_. True, address_ok = \<lambda>_ _. True, smbus_reply = \<lambda>_ _. None \<rparr> :: i2c"
  let ?p = "publisher_start initial_relay"
  have s: "channelStatus ?p = 0" by (simp add: publisher_start_def initial_relay_def multiChannelRelay_getChannelState_def)
  have n: "channelStatus ?p AND 0x0f = channelStatus ?p" by (simp add: s)
  note sw = switching [OF n, of Channel2 ?I initial_relay]
  have "switch_cmd Channel2 ?I (?p, initial_relay) \<noteq> None" using sw by (simp add: s)
  then obtain p' r' where r: "switch_cmd Channel2 ?I (?p, initial_relay) = Some (p', r')" by auto
  have st: "channelStatus p' = channelStatus ?p XOR channel_bit Channel2"
    "transfers r' = transfers initial_relay @ (if open_ok ?I (uses initial_relay) \<and> address_ok ?I (uses initial_relay) (multi_relayAddress initial_relay)
          then [WriteBlock (multi_relayAddress initial_relay) CMD_CHANNEL_CTRL [channelStatus p']] else [])"
    "\<And>k. item_read k r' \<longleftrightarrow> channelStatus p' AND channel_bit k \<noteq> 0"
    using sw r by blast+
  have c: "channelStatus p' = 2" unfolding st(1) s by simp
  have "transfers r' = [WriteBlock 0x11 0x10 [2]]"
    unfolding st(2) c by (simp add: initial_relay_def GROVE_DEFAULT_ADDR_def CMD_CHANNEL_CTRL_def)
  moreover have "item_read Channel2 r'" "\<not> item_read Channel1 r'" unfolding st(3) c by simp_all
  ultimately show ?thesis using r c by blast
qed

subsection \<open>Publishing\<close>

lemma no_threshold [simp]: "\<not> Channel1Threshold v1 v2"
  by (cases v1; cases v2) (simp_all add: Channel1Threshold_def)

text \<open>An item that was recorded, not longer than the longest interval ago.\<close>

definition recent :: "64 word \<Rightarrow> Item \<Rightarrow> bool" where
  "recent now it \<longleftrightarrow> lastTimeRecorded it \<noteq> 0 \<and> now - lastTimeRecorded it \<le> MaxIntervalBetweenPublish * 1000"

text \<open>What was recorded of the items, which reading does not change.\<close>

definition same_records :: "Item list \<Rightarrow> Item list \<Rightarrow> bool" where
  "same_records = list_all2 (\<lambda>a b. item_channel a = item_channel b \<and> lastTimeRecorded a = lastTimeRecorded b \<and>
     lastValueRecorded a = lastValueRecorded b)"

lemma same_records_recent:
  assumes "same_records xs ys" "\<forall>it \<in> set xs. recent now it"
  shows "\<forall>it \<in> set ys. recent now it"
proof
  fix b assume "b \<in> set ys"
  then obtain n where n: "n < length ys" "ys ! n = b" by (auto simp: in_set_conv_nth)
  have "lastTimeRecorded (xs ! n) = lastTimeRecorded b"
    using list_all2_nthD2 [OF assms(1) [unfolded same_records_def] n(1)] n(2) by simp
  moreover have "xs ! n \<in> set xs" using n(1) list_all2_lengthD [OF assms(1) [unfolded same_records_def]] by simp
  then have "recent now (xs ! n)" using assms(2) by blast
  ultimately show "recent now b" by (simp add: recent_def)
qed

lemma sample_recent:
  "recent now it \<Longrightarrow> sample_item A r now published it calls =
     (it\<lparr>lastValueRead := item_read (item_channel it) r, lastTimeRead := now\<rparr>, calls, False)"
  by (simp add: sample_item_def recent_def not_less)

lemma samples_recent:
  "\<forall>it \<in> set its. recent now it \<Longrightarrow>
     \<exists>its'. sample_items A r now published its calls = (its', calls, False) \<and> same_records its its'"
proof (induction its arbitrary: calls)
  case (Cons it its)
  obtain its' where its': "sample_items A r now published its calls = (its', calls, False)" "same_records its its'"
    using Cons.IH [of calls] Cons.prems by auto
  have "sample_items A r now published (it # its) calls =
      (it\<lparr>lastValueRead := item_read (item_channel it) r, lastTimeRead := now\<rparr> # its', calls, False)"
    using sample_recent [of now it A r published calls] Cons.prems its'(1) by simp
  then show ?case using its'(2) by (simp add: same_records_def)
qed (simp add: same_records_def)

lemma tick_recent:
  assumes "\<forall>it \<in> set (Items p). recent now it" "\<not> DeferredPublish p"
  shows "\<exists>its'. SampleTimerHandler A r now p = p\<lparr>Items := its'\<rparr> \<and> same_records (Items p) its'"
  using samples_recent [OF assms(1), of A r "LastTimePublished p" "av_calls p"] assms(2)
  by (auto simp: SampleTimerHandler_def)

text \<open>
  C34: as long as every channel was recorded in the last two minutes and no publication is deferred, the
  app records and publishes nothing, whatever the relay does meanwhile: a truth value never differs by more
  than the threshold.
\<close>

theorem changes_unnoticed:
  assumes "\<forall>(r, now) \<in> set ticks. \<forall>it \<in> set (Items p).
      lastTimeRecorded it \<noteq> 0 \<and> now - lastTimeRecorded it \<le> MaxIntervalBetweenPublish * 1000"
    "\<not> DeferredPublish p"
  shows "av_calls (fold (\<lambda>(r, now). SampleTimerHandler A r now) ticks p) = av_calls p \<and>
    LastTimePublished (fold (\<lambda>(r, now). SampleTimerHandler A r now) ticks p) = LastTimePublished p"
  using assms
proof (induction ticks arbitrary: p)
  case (Cons t ticks)
  obtain r now where t: "t = (r, now)" by fastforce
  obtain its' where its': "SampleTimerHandler A r now p = p\<lparr>Items := its'\<rparr>" "same_records (Items p) its'"
    using tick_recent [of p now A r] Cons.prems(1,2) t unfolding recent_def by auto
  have "\<forall>it \<in> set its'. recent now it" if "(r, now) \<in> set ticks" for r now
    using same_records_recent [OF its'(2), of now] Cons.prems(1) that unfolding recent_def by fastforce
  then have "\<forall>(r, now) \<in> set ticks. \<forall>it \<in> set (Items (p\<lparr>Items := its'\<rparr>)).
      lastTimeRecorded it \<noteq> 0 \<and> now - lastTimeRecorded it \<le> MaxIntervalBetweenPublish * 1000"
    by (auto simp: recent_def)
  from Cons.IH [OF this] show ?case using its'(1) t Cons.prems(2) by simp
qed simp

text \<open>An item after the first loop, and after the second one, when every call succeeds.\<close>

definition always_ok :: "avdata \<Rightarrow> bool" where
  "always_ok A \<longleftrightarrow> (\<forall>n. RecordInt_result A n \<and> PushRecord_result A n)"

definition recorded_more :: "av_call list \<Rightarrow> av_call list \<Rightarrow> bool" where
  "recorded_more calls calls' \<longleftrightarrow> (\<exists>cs. calls' = calls @ cs \<and> PushRecord \<notin> set cs)"

lemma recorded_more_simps [simp]: "recorded_more calls calls" "recorded_more calls (calls @ [RecordInt path v t])"
  by (simp_all add: recorded_more_def)

lemma recorded_more_trans: "recorded_more xs ys \<Longrightarrow> recorded_more ys zs \<Longrightarrow> recorded_more xs zs"
  by (auto simp: recorded_more_def)

definition due :: "64 word \<Rightarrow> 64 word \<Rightarrow> Item \<Rightarrow> bool" where
  "due now published it \<longleftrightarrow>
     lastTimeRecorded it = 0 \<or> now - lastTimeRecorded it > MaxIntervalBetweenPublish * 1000 \<and> now > published"

definition just_read :: "relay \<Rightarrow> 64 word \<Rightarrow> Item \<Rightarrow> Item \<Rightarrow> bool" where
  "just_read r now it it' \<longleftrightarrow> item_channel it' = item_channel it \<and> lastTimeRecorded it' = lastTimeRecorded it \<and>
     lastTimeRead it' = now \<and> lastValueRead it' = item_read (item_channel it) r"

lemma sample_ok:
  assumes "always_ok A"
  obtains it' calls' where "sample_item A r now published it calls = (it', calls', due now published it)"
    "just_read r now it it'" "recorded_more calls calls'"
proof (cases "lastTimeRecorded it = 0")
  case True
  then show ?thesis using that assms by (simp add: sample_item_def always_ok_def due_def just_read_def Let_def)
next
  case False
  then show ?thesis using that by (simp add: sample_item_def due_def just_read_def Let_def)
qed

lemma samples_ok:
  assumes "always_ok A"
  obtains its' calls' where "sample_items A r now published its calls = (its', calls', \<exists>it \<in> set its. due now published it)"
    "list_all2 (just_read r now) its its'" "recorded_more calls calls'"
proof (induction its arbitrary: calls thesis)
  case (Cons it its)
  obtain it' calls1 where one: "sample_item A r now published it calls = (it', calls1, due now published it)"
    "just_read r now it it'" "recorded_more calls calls1"
    by (rule sample_ok [OF assms])
  obtain its' calls2 where two: "sample_items A r now published its calls1 = (its', calls2, \<exists>it \<in> set its. due now published it)"
    "list_all2 (just_read r now) its its'" "recorded_more calls1 calls2"
    by (rule Cons.IH)
  show ?case
    by (rule Cons.prems [of "it' # its'" calls2]) (use one two recorded_more_trans in \<open>auto simp: split_def\<close>)
qed simp

lemma stale_ok:
  assumes "always_ok A" "lastTimeRead it = now" "lastTimeRecorded it < now" "now - lastTimeRecorded it > TimeToStale * 1000"
  shows "record_stale A now it calls = (it\<lparr>lastValueRecorded := lastValueRead it, lastTimeRecorded := now\<rparr>,
    calls @ [RecordInt (record_path (item_channel it)) (lastValueRead it) now])"
  using assms by (simp add: record_stale_def always_ok_def)

text \<open>Every item that is stale is recorded with what was read of it.\<close>

lemma stales_ok:
  assumes "always_ok A" "\<forall>it \<in> set its. lastTimeRead it = now"
  obtains its' cs where "record_stales A now its calls = (its', calls @ cs)" "PushRecord \<notin> set cs"
    "\<forall>it \<in> set its. lastTimeRecorded it < now \<longrightarrow> now - lastTimeRecorded it > TimeToStale * 1000 \<longrightarrow>
       RecordInt (record_path (item_channel it)) (lastValueRead it) now \<in> set cs"
  using assms(2)
proof (induction its arbitrary: calls thesis)
  case (Cons it its)
  obtain it' cs1 where one: "record_stale A now it calls = (it', calls @ cs1)" "PushRecord \<notin> set cs1"
    "lastTimeRecorded it < now \<longrightarrow> now - lastTimeRecorded it > TimeToStale * 1000 \<longrightarrow>
       RecordInt (record_path (item_channel it)) (lastValueRead it) now \<in> set cs1"
  proof (cases "now - lastTimeRecorded it > TimeToStale * 1000 \<and> lastTimeRecorded it < now")
    case True
    then show thesis using that stale_ok [OF assms(1), of it now calls] Cons.prems(2) by simp
  next
    case False
    moreover have "lastTimeRead it = now" using Cons.prems(2) by simp
    ultimately have "record_stale A now it calls = (it, calls @ [])" unfolding record_stale_def by simp
    then show thesis by (rule that) (simp, use False in blast)
  qed
  obtain its' cs2 where two: "record_stales A now its (calls @ cs1) = (its', (calls @ cs1) @ cs2)" "PushRecord \<notin> set cs2"
    "\<forall>it \<in> set its. lastTimeRecorded it < now \<longrightarrow> now - lastTimeRecorded it > TimeToStale * 1000 \<longrightarrow>
       RecordInt (record_path (item_channel it)) (lastValueRead it) now \<in> set cs2"
    using Cons.IH [of "calls @ cs1"] Cons.prems(2) by auto
  show ?case by (rule Cons.prems(1) [of "it' # its'" "cs1 @ cs2"]) (use one two in auto)
qed simp

text \<open>
  C33: when a channel was never recorded, or not for more than two minutes while the clock passed the last
  publication, and the last publication was ten milliseconds ago or more (the source means ten
  seconds), the next tick publishes, and what it publishes has the current state of every channel that was not
  recorded for a minute, provided that the AirVantage service takes it.
\<close>

theorem publishes_states:
  assumes "\<forall>n. RecordInt_result A n \<and> PushRecord_result A n" "it0 \<in> set (Items p)"
    "lastTimeRecorded it0 = 0 \<or> now - lastTimeRecorded it0 > MaxIntervalBetweenPublish * 1000 \<and> now > LastTimePublished p"
    "now - LastTimePublished p \<ge> 10"
  shows "\<exists>cs. av_calls (SampleTimerHandler A r now p) = av_calls p @ cs @ [PushRecord] \<and> PushRecord \<notin> set cs \<and>
    LastTimePublished (SampleTimerHandler A r now p) = now \<and> \<not> DeferredPublish (SampleTimerHandler A r now p) \<and>
    (\<forall>it \<in> set (Items p). lastTimeRecorded it < now \<longrightarrow> now - lastTimeRecorded it > TimeToStale * 1000 \<longrightarrow>
       RecordInt (record_path (item_channel it)) (item_read (item_channel it) r) now \<in> set cs)"
proof -
  have ok: "always_ok A" using assms(1) by (simp add: always_ok_def)
  obtain its' calls' where one: "sample_items A r now (LastTimePublished p) (Items p) (av_calls p) =
      (its', calls', \<exists>it \<in> set (Items p). due now (LastTimePublished p) it)"
    "list_all2 (just_read r now) (Items p) its'" "recorded_more (av_calls p) calls'"
    by (rule samples_ok [OF ok])
  obtain cs1 where cs1: "calls' = av_calls p @ cs1" "PushRecord \<notin> set cs1" using one(3) by (auto simp: recorded_more_def)
  have read: "\<exists>it' \<in> set its'. just_read r now it it'" if "it \<in> set (Items p)" for it
    using one(2) that by (metis in_set_conv_nth list_all2_conv_all_nth)
  have "\<forall>it \<in> set its'. lastTimeRead it = now"
    using one(2) by (metis in_set_conv_nth just_read_def list_all2_conv_all_nth)
  then obtain its'' cs2 where two: "record_stales A now its' calls' = (its'', calls' @ cs2)" "PushRecord \<notin> set cs2"
    "\<forall>it \<in> set its'. lastTimeRecorded it < now \<longrightarrow> now - lastTimeRecorded it > TimeToStale * 1000 \<longrightarrow>
       RecordInt (record_path (item_channel it)) (lastValueRead it) now \<in> set cs2"
    using stales_ok [OF ok] by blast
  have "\<exists>it \<in> set (Items p). due now (LastTimePublished p) it" using assms(2,3) by (auto simp: due_def)
  then have tick: "SampleTimerHandler A r now p =
      p\<lparr>Items := its'', av_calls := av_calls p @ (cs1 @ cs2) @ [PushRecord], LastTimePublished := now, DeferredPublish := False\<rparr>"
    using one(1) two(1) cs1(1) assms(1,4) by (simp add: SampleTimerHandler_def MinIntervalBetweenPublish_def Let_def not_less [symmetric])
  have "RecordInt (record_path (item_channel it)) (item_read (item_channel it) r) now \<in> set (cs1 @ cs2)"
    if "it \<in> set (Items p)" "lastTimeRecorded it < now" "now - lastTimeRecorded it > TimeToStale * 1000" for it
    using read [OF that(1)] two(3) that(2,3) by (auto simp: just_read_def)
  then show ?thesis using cs1(2) two(2) by (intro exI [of _ "cs1 @ cs2"]) (simp add: tick)
qed

subsection \<open>Instances\<close>

definition obliging :: avdata where
  "obliging = \<lparr> RecordInt_result = \<lambda>_. True, PushRecord_result = \<lambda>_. True \<rparr>"

lemma publishes_states_witness:
  "\<exists>cs. av_calls (SampleTimerHandler obliging initial_relay 100000 initial_publisher) = cs @ [PushRecord] \<and>
     RecordInt ''MangOH.GroveRelayToCloud.Channel3status'' False 100000 \<in> set cs"
proof -
  have mem: "item Channel3 \<in> set (Items initial_publisher)" by (simp add: initial_publisher_def)
  have "\<forall>n. RecordInt_result obliging n \<and> PushRecord_result obliging n" by (simp add: obliging_def)
  moreover have "lastTimeRecorded (item Channel3) = 0" "100000 - LastTimePublished initial_publisher \<ge> 10"
    "av_calls initial_publisher = []" "\<not> item_read Channel3 initial_relay" "item_channel (item Channel3) = Channel3"
    by (simp_all add: item_def initial_publisher_def initial_relay_def Channel3read_def multiChannelRelay_getChannelState_def)
  moreover have "100000 - lastTimeRecorded (item Channel3) > TimeToStale * 1000" "lastTimeRecorded (item Channel3) < 100000"
    by (simp_all add: item_def TimeToStale_def)
  ultimately show ?thesis
    using publishes_states [of obliging "item Channel3" initial_publisher 100000 initial_relay] mem by fastforce
qed

lemma changes_unnoticed_witness:
  "av_calls (SampleTimerHandler obliging (initial_relay\<lparr>cur_channel_state := 5\<rparr>) 3000
     (SampleTimerHandler obliging initial_relay 2000
       (initial_publisher\<lparr>Items := [(item Channel1)\<lparr>lastTimeRecorded := 1000\<rparr>]\<rparr>))) = []"
proof -
  let ?p = "initial_publisher\<lparr>Items := [(item Channel1)\<lparr>lastTimeRecorded := 1000\<rparr>]\<rparr>"
  let ?ticks = "[(initial_relay, 2000), (initial_relay\<lparr>cur_channel_state := 5\<rparr>, 3000)]"
  have "\<forall>(r, now) \<in> set ?ticks. \<forall>it \<in> set (Items ?p).
      lastTimeRecorded it \<noteq> 0 \<and> now - lastTimeRecorded it \<le> MaxIntervalBetweenPublish * 1000"
    by (simp add: MaxIntervalBetweenPublish_def)
  moreover have "\<not> DeferredPublish ?p" "av_calls ?p = []" by (simp_all add: initial_publisher_def)
  ultimately show ?thesis using changes_unnoticed [of ?ticks ?p obliging] by simp
qed

text \<open>From the start, every command switches its channel on, also on a bus that never opens.\<close>

lemma first_commands:
  "\<forall>c. map_option (\<lambda>(p, r). channelStatus p) (switch_cmd c \<lparr> open_ok = \<lambda>_. False, address_ok = \<lambda>_ _. False, smbus_reply = \<lambda>_ _. None \<rparr>
     (initial_publisher, initial_relay)) = Some (channel_bit c)"
  by code_simp

end
