(* ===== verification/RelayHub.thy ===== *)
theory RelayHub
  imports PeriodicSensor RelayPublisher
begin

unbundle bit_operations_syntax

text \<open>
  The two apps that connect the relay with the Data Hub (version 2 of both; the sources of version 1 are the
  same): \<open>src/apps/RelayDataHubToCloud_V2/RelayDataHubComponent/RelayDataHub.c\<close> pushes the channels of the
  relay and a made-up temperature to inputs, in a period and while enabled by the outputs the Data Hub
  writes; \<open>src/apps/RelayDataHubToCloud_V2/MonitorRelayDataHubComponent/MonitorRelayDataHub.c\<close> routes them to
  its own outputs and to observations, and publishes the first channel to AirVantage. The values that
  AirVantage sends are arguments; a handler that only writes a log is its number.
\<close>

subsection \<open>RelayDataHub\<close>

definition CHANNEL_1_NAME :: string where "CHANNEL_1_NAME = ''GroveRelayStatus/value/channel1''"
definition CHANNEL_2_NAME :: string where "CHANNEL_2_NAME = ''GroveRelayStatus/value/channel2''"
definition CHANNEL_3_NAME :: string where "CHANNEL_3_NAME = ''GroveRelayStatus/value/channel3''"
definition CHANNEL_4_NAME :: string where "CHANNEL_4_NAME = ''GroveRelayStatus/value/channel4''"
definition TEMPERATURE_NAME :: string where "TEMPERATURE_NAME = ''GroveRelayStatus/temperature''"
definition PERIOD_NAME :: string where "PERIOD_NAME = ''GroveRelayStatus/period''"
definition ENABLE_NAME :: string where "ENABLE_NAME = ''GroveRelayStatus/enable''"

text \<open>The timer is its interval in milliseconds, and whether it runs.\<close>

record relay_sensor =
  IsEnabled :: bool
  timer_running :: bool
  timer_ms :: nat
  Channel_Status :: "8 word"
  test_temperature :: "8 word"

definition initial_relay_sensor :: relay_sensor where
  "initial_relay_sensor = \<lparr> IsEnabled = False, timer_running = False, timer_ms = 0, Channel_Status = 0, test_temperature = 30 \<rparr>"

text \<open>The cast to \<open>bool\<close> binds tighter than the shift.\<close>

definition cast_then_shift :: "8 word \<Rightarrow> 8 word \<Rightarrow> nat \<Rightarrow> bool" where
  "cast_then_shift status m k = (drop_bit k (of_bool (status AND m \<noteq> 0) :: int) \<noteq> 0)"

definition TimerExpired :: "legato \<Rightarrow> client \<Rightarrow> relay \<Rightarrow> relay_sensor \<Rightarrow> daemon \<Rightarrow> (relay_sensor \<times> daemon) option" where
  "TimerExpired L c r s d = do {
     let t = test_temperature s + 1;
     let t = (if t > 38 then 30 else t);
     let status = multiChannelRelay_getChannelState r;
     d \<leftarrow> io_PushNumeric L c TEMPERATURE_NAME IO_NOW (dbl_of_int (uint t)) d;
     d \<leftarrow> io_PushBoolean L c CHANNEL_1_NAME IO_NOW (cast_then_shift status 0b0001 0) d;
     d \<leftarrow> io_PushBoolean L c CHANNEL_2_NAME IO_NOW (cast_then_shift status 0b0010 1) d;
     d \<leftarrow> io_PushBoolean L c CHANNEL_3_NAME IO_NOW (cast_then_shift status 0b0100 2) d;
     d \<leftarrow> io_PushBoolean L c CHANNEL_4_NAME IO_NOW (cast_then_shift status 0b1000 3) d;
     Some (s\<lparr>test_temperature := t, Channel_Status := status\<rparr>, d)
   }"

text \<open>The conversion of a double to 32 bits is undefined for values that do not fit.\<close>

definition dbl_to_uint32 :: "double \<Rightarrow> nat option" where
  "dbl_to_uint32 x = do {
     m \<leftarrow> dbl_trunc x;
     if 0 \<le> m \<and> m < 2 ^ 32 then Some (nat m) else None
   }"

definition PeriodUpdateHandler :: "double \<Rightarrow> relay_sensor \<Rightarrow> relay_sensor option" where
  "PeriodUpdateHandler v s = do {
     ms \<leftarrow> dbl_to_uint32 (dbl_mul v (dbl_of_int 1000));
     Some (if ms = 0 then s\<lparr>timer_running := False\<rparr>
       else if IsEnabled s \<and> \<not> timer_running s then s\<lparr>timer_ms := ms, timer_running := True\<rparr>
       else s\<lparr>timer_ms := ms\<rparr>)
   }"

definition EnableUpdateHandler :: "bool \<Rightarrow> relay_sensor \<Rightarrow> relay_sensor" where
  "EnableUpdateHandler v s =
     (let s = s\<lparr>IsEnabled := v\<rparr> in
      if v then (if timer_ms s \<noteq> 0 \<and> \<not> timer_running s then s\<lparr>timer_running := True\<rparr> else s)
      else s\<lparr>timer_running := False\<rparr>)"

text \<open>A failed \<open>LE_ASSERT\<close> ends the app.\<close>

definition assert_ok :: "le_result_t \<times> daemon \<Rightarrow> (daemon \<Rightarrow> ('a option \<times> daemon) option) \<Rightarrow> ('a option \<times> daemon) option" where
  "assert_ok = (\<lambda>(result, d) k. if result = LE_OK then k d else Some (None, d))"

text \<open>Without the reference of a handler the app was killed.\<close>

definition handled :: "hid option \<times> daemon \<Rightarrow> (daemon \<Rightarrow> ('a option \<times> daemon) option) \<Rightarrow> ('a option \<times> daemon) option" where
  "handled = (\<lambda>(handlerRef, d) k. alive handlerRef d (\<lambda>_. k d))"

definition RelayDataHub_init :: "legato \<Rightarrow> client \<Rightarrow> daemon \<Rightarrow> (relay_sensor option \<times> daemon) option" where
  "RelayDataHub_init L c d = do {
     let (_, d) = io_AddUpdateStartEndHandler 1 0 d;
     x \<leftarrow> io_CreateInput L c CHANNEL_1_NAME IO_DATA_TYPE_BOOLEAN ''State'' d;
     assert_ok x (\<lambda>d. do {
     x \<leftarrow> io_CreateInput L c CHANNEL_2_NAME IO_DATA_TYPE_BOOLEAN ''State'' d;
     assert_ok x (\<lambda>d. do {
     x \<leftarrow> io_CreateInput L c CHANNEL_3_NAME IO_DATA_TYPE_BOOLEAN ''State'' d;
     assert_ok x (\<lambda>d. do {
     x \<leftarrow> io_CreateInput L c CHANNEL_4_NAME IO_DATA_TYPE_BOOLEAN ''State'' d;
     assert_ok x (\<lambda>d. do {
     x \<leftarrow> io_CreateInput L c TEMPERATURE_NAME IO_DATA_TYPE_NUMERIC ''Celsius degree'' d;
     assert_ok x (\<lambda>d. do {
     x \<leftarrow> io_CreateOutput L c PERIOD_NAME IO_DATA_TYPE_NUMERIC ''s'' d;
     assert_ok x (\<lambda>d. do {
     x \<leftarrow> io_AddNumericPushHandler L c PERIOD_NAME 2 0 d;
     handled x (\<lambda>d. do {
     x \<leftarrow> io_CreateOutput L c ENABLE_NAME IO_DATA_TYPE_BOOLEAN [] d;
     assert_ok x (\<lambda>d. do {
     d \<leftarrow> io_SetBooleanDefault L c ENABLE_NAME True d;
     d \<leftarrow> io_SetNumericDefault L c PERIOD_NAME (dbl_of_int 2) d;
     x \<leftarrow> io_AddBooleanPushHandler L c ENABLE_NAME 3 0 d;
     handled x (\<lambda>d. Some (Some initial_relay_sensor, d)) }) }) }) }) }) }) }) })
   }"

subsection \<open>MonitorRelayDataHub\<close>

text \<open>Its only item is the first channel, whose record has another path; the handler of its timer is the one of the publisher.\<close>

definition initial_monitor :: publisher where
  "initial_monitor = initial_publisher\<lparr>Items := [item Channel1]\<rparr>"

text \<open>The relay is switched on for a second, and off with the number of no channel.\<close>

definition TemperatureObservationUpdateHandler :: "i2c \<Rightarrow> relay \<Rightarrow> relay option" where
  "TemperatureObservationUpdateHandler I r = do {
     r \<leftarrow> multiChannelRelay_turn_on_channel I 1 r;
     multiChannelRelay_turn_on_channel I 0 r
   }"

definition TEMPERATURE_OBS :: string where "TEMPERATURE_OBS = ''temperatureOffLimits''"

text \<open>The new bound; a value that could not be read is zero.\<close>

definition LowerChannel1Setting :: "legato \<Rightarrow> int option \<Rightarrow> daemon \<Rightarrow> daemon option" where
  "LowerChannel1Setting L newBound = admin_SetLowLimit L TEMPERATURE_OBS (dbl_of_int (case newBound of None \<Rightarrow> 0 | Some n \<Rightarrow> n))"

definition UpperChannel1Setting :: "legato \<Rightarrow> int option \<Rightarrow> daemon \<Rightarrow> daemon option" where
  "UpperChannel1Setting L newBound = admin_SetHighLimit L TEMPERATURE_OBS (dbl_of_int (case newBound of None \<Rightarrow> 0 | Some n \<Rightarrow> n))"

text \<open>A route to an own output.\<close>

definition connect :: "legato \<Rightarrow> string \<Rightarrow> string \<Rightarrow> daemon \<Rightarrow> (le_result_t \<times> daemon) option" where
  "connect L name state = admin_SetSource L (''/app/MonitorRelayDataHub/'' @ name) state"

text \<open>An observation of the state of a channel.\<close>

definition observe_channel ::
  "legato \<Rightarrow> client \<Rightarrow> string \<Rightarrow> string \<Rightarrow> nat \<Rightarrow> daemon \<Rightarrow> (daemon \<Rightarrow> (unit option \<times> daemon) option) \<Rightarrow> (unit option \<times> daemon) option" where
  "observe_channel L c obs state callback d k = do {
     (_, d) \<leftarrow> admin_CreateObs L obs d;
     x \<leftarrow> admin_SetSource L (''/obs/'' @ obs) state d;
     assert_ok x (\<lambda>d. do {
       x \<leftarrow> admin_AddBooleanPushHandler L c (''/obs/'' @ obs) callback 0 d;
       handled x k })
   }"

text \<open>The observation of the temperature: it accepts what lies between the two limits.\<close>

definition observe_temperature :: "legato \<Rightarrow> client \<Rightarrow> daemon \<Rightarrow> (unit option \<times> daemon) option" where
  "observe_temperature L c d = do {
     (_, d) \<leftarrow> admin_CreateObs L TEMPERATURE_OBS d;
     (result, d) \<leftarrow> admin_SetSource L (''/obs/'' @ TEMPERATURE_OBS) ''/app/RelayDataHub/GroveRelayStatus/temperature'' d;
     d \<leftarrow> admin_SetLowLimit L TEMPERATURE_OBS (dbl_of_int 30) d;
     d \<leftarrow> admin_SetHighLimit L TEMPERATURE_OBS (dbl_of_int 32) d;
     assert_ok (result, d) (\<lambda>d. do {
       x \<leftarrow> admin_AddNumericPushHandler L c (''/obs/'' @ TEMPERATURE_OBS) 15 0 d;
       handled x (\<lambda>d. Some (Some (), d)) })
   }"

definition observe_all :: "legato \<Rightarrow> client \<Rightarrow> daemon \<Rightarrow> (unit option \<times> daemon) option" where
  "observe_all L c d =
     observe_channel L c ''channel1OffLimits'' (''/app/RelayDataHub/'' @ CHANNEL_1_NAME) 11 d (\<lambda>d.
     observe_channel L c ''channel2OffLimits'' (''/app/RelayDataHub/'' @ CHANNEL_2_NAME) 12 d (\<lambda>d.
     observe_channel L c ''channel3OffLimits'' (''/app/RelayDataHub/'' @ CHANNEL_3_NAME) 13 d (\<lambda>d.
     observe_channel L c ''channel4OffLimits'' (''/app/RelayDataHub/'' @ CHANNEL_1_NAME) 14 d (\<lambda>d.
     observe_temperature L c d))))"

definition connect_all :: "legato \<Rightarrow> client \<Rightarrow> daemon \<Rightarrow> (unit option \<times> daemon) option" where
  "connect_all L c d = do {
     x \<leftarrow> connect L CHANNEL_1_NAME (''/app/RelayDataHub/'' @ CHANNEL_1_NAME) d;
     assert_ok x (\<lambda>d. do {
     x \<leftarrow> connect L CHANNEL_2_NAME (''/app/RelayDataHub/'' @ CHANNEL_2_NAME) d;
     assert_ok x (\<lambda>d. do {
     x \<leftarrow> connect L CHANNEL_3_NAME (''/app/RelayDataHub/'' @ CHANNEL_3_NAME) d;
     assert_ok x (\<lambda>d. do {
     x \<leftarrow> connect L CHANNEL_4_NAME (''/app/RelayDataHub/'' @ CHANNEL_4_NAME) d;
     assert_ok x (\<lambda>d. do {
     x \<leftarrow> connect L TEMPERATURE_NAME (''/app/RelayDataHub/'' @ TEMPERATURE_NAME) d;
     assert_ok x (observe_all L c) }) }) }) })
   }"

definition MonitorRelayDataHub_init :: "legato \<Rightarrow> client \<Rightarrow> daemon \<Rightarrow> (unit option \<times> daemon) option" where
  "MonitorRelayDataHub_init L c d = do {
     x \<leftarrow> io_CreateOutput L c CHANNEL_1_NAME IO_DATA_TYPE_BOOLEAN ''State'' d;
     assert_ok x (\<lambda>d. do {
     x \<leftarrow> io_CreateOutput L c CHANNEL_2_NAME IO_DATA_TYPE_BOOLEAN ''State'' d;
     assert_ok x (\<lambda>d. do {
     x \<leftarrow> io_CreateOutput L c CHANNEL_3_NAME IO_DATA_TYPE_BOOLEAN ''State'' d;
     assert_ok x (\<lambda>d. do {
     x \<leftarrow> io_CreateOutput L c CHANNEL_4_NAME IO_DATA_TYPE_BOOLEAN ''State'' d;
     assert_ok x (\<lambda>d. do {
     x \<leftarrow> io_CreateOutput L c TEMPERATURE_NAME IO_DATA_TYPE_NUMERIC ''Celsius degree'' d;
     assert_ok x (\<lambda>d. do {
     x \<leftarrow> io_AddBooleanPushHandler L c CHANNEL_1_NAME 1 0 d;
     handled x (\<lambda>d. do {
     x \<leftarrow> io_AddBooleanPushHandler L c CHANNEL_2_NAME 2 0 d;
     handled x (\<lambda>d. do {
     x \<leftarrow> io_AddBooleanPushHandler L c CHANNEL_3_NAME 3 0 d;
     handled x (\<lambda>d. do {
     x \<leftarrow> io_AddBooleanPushHandler L c CHANNEL_4_NAME 4 0 d;
     handled x (\<lambda>d. do {
     x \<leftarrow> io_AddNumericPushHandler L c TEMPERATURE_NAME 5 0 d;
     handled x (connect_all L c) }) }) }) }) }) }) }) }) })
   }"

subsection \<open>Properties\<close>

lemma shifted_away: "0 < k \<Longrightarrow> \<not> cast_then_shift status m k"
  by (cases k) (simp_all add: cast_then_shift_def drop_bit_Suc)

text \<open>
  What the Data Hub is told depends on the first channel of the relay only: the other three are told
  as off, because their bit is shifted out of the truth value it was cast to.
\<close>

theorem channels_lost:
  "map_option snd (TimerExpired L c r s d) = map_option snd (TimerExpired L c (r\<lparr>cur_channel_state := cur_channel_state r AND 1\<rparr>) s d) \<and>
   map_option snd (TimerExpired L c r s d) = do {
     d \<leftarrow> io_PushNumeric L c TEMPERATURE_NAME IO_NOW
            (dbl_of_int (uint (if test_temperature s + 1 > 38 then 30 else test_temperature s + 1))) d;
     d \<leftarrow> io_PushBoolean L c CHANNEL_1_NAME IO_NOW (Channel1read r) d;
     d \<leftarrow> io_PushBoolean L c CHANNEL_2_NAME IO_NOW False d;
     d \<leftarrow> io_PushBoolean L c CHANNEL_3_NAME IO_NOW False d;
     io_PushBoolean L c CHANNEL_4_NAME IO_NOW False d }"
proof -
  have one: "cast_then_shift (multiChannelRelay_getChannelState r) 0b0001 0 \<longleftrightarrow> Channel1read r" for r
    by (simp add: cast_then_shift_def Channel1read_def)
  have "multiChannelRelay_getChannelState (r\<lparr>cur_channel_state := cur_channel_state r AND 1\<rparr>) AND 1 =
      multiChannelRelay_getChannelState r AND 1"
    by (simp add: multiChannelRelay_getChannelState_def and.assoc)
  then have same: "Channel1read (r\<lparr>cur_channel_state := cur_channel_state r AND 1\<rparr>) = Channel1read r"
    by (simp add: Channel1read_def)
  have "map_option snd (TimerExpired L c r s d) = do {
     d \<leftarrow> io_PushNumeric L c TEMPERATURE_NAME IO_NOW
            (dbl_of_int (uint (if test_temperature s + 1 > 38 then 30 else test_temperature s + 1))) d;
     d \<leftarrow> io_PushBoolean L c CHANNEL_1_NAME IO_NOW (Channel1read r) d;
     d \<leftarrow> io_PushBoolean L c CHANNEL_2_NAME IO_NOW False d;
     d \<leftarrow> io_PushBoolean L c CHANNEL_3_NAME IO_NOW False d;
     io_PushBoolean L c CHANNEL_4_NAME IO_NOW False d }" for r
    unfolding TimerExpired_def Let_def one by (simp add: shifted_away map_option_bind comp_def split del: if_split)
  then show ?thesis using same by simp
qed

text \<open>What the Data Hub writes to the sensor.\<close>

datatype update =
    Period double
  | Enable bool

fun update_handler :: "update \<Rightarrow> relay_sensor \<Rightarrow> relay_sensor option" where
  "update_handler (Period v) s = PeriodUpdateHandler v s"
| "update_handler (Enable v) s = Some (EnableUpdateHandler v s)"

fun updates :: "update list \<Rightarrow> relay_sensor \<Rightarrow> relay_sensor option" where
  "updates [] s = Some s"
| "updates (u # us) s = do { s \<leftarrow> update_handler u s; updates us s }"

text \<open>Whether the timer was stopped by a period of zero: it is so until the next period or the next time it is enabled.\<close>

fun paused :: "bool \<Rightarrow> update list \<Rightarrow> bool" where
  "paused p [] = p"
| "paused p (Period v # us) = paused (dbl_to_uint32 (dbl_mul v (dbl_of_int 1000)) = Some 0) us"
| "paused p (Enable v # us) = paused (p \<and> \<not> v) us"

text \<open>The last period of at least a millisecond, in milliseconds.\<close>

fun last_period :: "nat \<Rightarrow> update list \<Rightarrow> nat" where
  "last_period n [] = n"
| "last_period n (Period v # us) =
     last_period (case dbl_to_uint32 (dbl_mul v (dbl_of_int 1000)) of Some (Suc m) \<Rightarrow> Suc m | _ \<Rightarrow> n) us"
| "last_period n (Enable v # us) = last_period n us"

lemma updates_state:
  assumes "updates us s = Some s'" "timer_running s \<longleftrightarrow> IsEnabled s \<and> timer_ms s \<noteq> 0 \<and> \<not> p"
  shows "timer_ms s' = last_period (timer_ms s) us \<and>
    (timer_running s' \<longleftrightarrow> IsEnabled s' \<and> timer_ms s' \<noteq> 0 \<and> \<not> paused p us)"
  using assms
proof (induction us arbitrary: s p)
  case (Cons u us)
  then obtain s1 where s1: "update_handler u s = Some s1" "updates us s1 = Some s'" by (auto simp: bind_eq_Some_conv)
  show ?case
  proof (cases u)
    case (Period v)
    then obtain ms where ms: "dbl_to_uint32 (dbl_mul v (dbl_of_int 1000)) = Some ms"
      using s1(1) by (auto simp: PeriodUpdateHandler_def bind_eq_Some_conv)
    then have "timer_running s1 \<longleftrightarrow> IsEnabled s1 \<and> timer_ms s1 \<noteq> 0 \<and> ms \<noteq> 0"
      "timer_ms s1 = (if ms = 0 then timer_ms s else ms)"
      using s1(1) Cons.prems(2) Period by (auto simp: PeriodUpdateHandler_def split: if_splits)
    then show ?thesis using Cons.IH [OF s1(2), of "ms = 0"] ms Period by (cases ms) simp_all
  next
    case (Enable v)
    then have "timer_running s1 \<longleftrightarrow> IsEnabled s1 \<and> timer_ms s1 \<noteq> 0 \<and> \<not> (p \<and> \<not> v)" "timer_ms s1 = timer_ms s"
      using s1(1) Cons.prems(2) by (auto simp: EnableUpdateHandler_def Let_def split: if_splits)
    then show ?thesis using Cons.IH [OF s1(2), of "p \<and> \<not> v"] Enable by simp
  qed
qed simp

text \<open>
  C35: whatever the Data Hub writes, the timer has the last period of a millisecond or more, and runs exactly
  while the sensor is enabled, there was such a period, and no period of zero came since (or it came, but the
  sensor was enabled again: then it goes on with the period before, although the period is zero).
\<close>

theorem timer_of_updates:
  assumes "updates us initial_relay_sensor = Some s"
  shows "timer_ms s = last_period 0 us \<and>
    (timer_running s \<longleftrightarrow> IsEnabled s \<and> last_period 0 us \<noteq> 0 \<and> \<not> paused False us) \<and>
    (\<exists>s'. updates [Period (dbl_of_int 0), Enable True] s = Some s' \<and> (timer_running s' \<longleftrightarrow> last_period 0 us \<noteq> 0))"
proof -
  have s: "timer_ms s = last_period 0 us" "timer_running s \<longleftrightarrow> IsEnabled s \<and> timer_ms s \<noteq> 0 \<and> \<not> paused False us"
    using updates_state [OF assms, of False] by (simp_all add: initial_relay_sensor_def)
  have "dbl_to_uint32 (dbl_mul (dbl_of_int 0) (dbl_of_int 1000)) = Some 0" by code_simp
  then show ?thesis using s by (auto simp: PeriodUpdateHandler_def EnableUpdateHandler_def Let_def)
qed

lemma timer_of_updates_witness:
  "\<exists>s s'. updates [Enable True, Period (dbl_of_int 2)] initial_relay_sensor = Some s \<and> timer_ms s = 2000 \<and> timer_running s \<and>
     updates [Period (dbl_of_int 0), Enable True] s = Some s' \<and> timer_running s'"
proof -
  have two: "dbl_to_uint32 (dbl_mul (dbl_of_int 2) (dbl_of_int 1000)) = Some 2000" by code_simp
  then obtain s where s: "updates [Enable True, Period (dbl_of_int 2)] initial_relay_sensor = Some s" "timer_ms s = 2000"
    "timer_running s"
    by (simp add: PeriodUpdateHandler_def EnableUpdateHandler_def initial_relay_sensor_def Let_def)
  then show ?thesis using timer_of_updates [OF s(1)] by auto
qed

text \<open>
  The handler of the temperature always runs into undefined behaviour: it switches off with the number of no
  channel, for which the driver shifts by a negative number.
\<close>

theorem off_is_undefined: "TemperatureObservationUpdateHandler I r = None"
  by (auto simp: TemperatureObservationUpdateHandler_def multiChannelRelay_turn_on_channel_def shifted_one_def
      split: bind_splits)

end
