(* ===== verification/SerialOut.thy ===== *)
theory SerialOut
  imports Prelude
begin

text \<open>
  Two drivers that send bits on a data pin and a clock pin: the 16 bit shift register of the relay board,
  \<open>src/apps/RelayControl16/HC595_16PComponet/HC595_16P.c\<close>, and the LED strip,
  \<open>src/apps/LEDStrip/LEDStripComponent/LEDStrip.c\<close>. The pins are set through the Legato GPIO service; what
  the drivers ask of them is a list of pin events, in order: whether a pin is made active. The delays between
  them are left out. The pins of the register are active low, those of the strip active high; the level a
  pin is configured with comes first. A failed configuration ends the app and is not modelled.
\<close>

unbundle bit_operations_syntax

datatype pin_event =
    Data bool
  | Clock bool
  | Latch bool

subsection \<open>What the hardware receives\<close>

text \<open>The levels of pins that are active low.\<close>

fun inverted :: "pin_event \<Rightarrow> pin_event" where
  "inverted (Data b) = Data (\<not> b)"
| "inverted (Clock b) = Clock (\<not> b)"
| "inverted (Latch b) = Latch (\<not> b)"

text \<open>The bits on the data pin at the rising edges of the clock, from a level of the data pin.\<close>

fun sampled :: "bool \<Rightarrow> pin_event list \<Rightarrow> bool list" where
  "sampled level [] = []"
| "sampled level (Data b # es) = sampled b es"
| "sampled level (Clock True # es) = level # sampled level es"
| "sampled level (e # es) = sampled level es"

lemma sampled_append: "sampled l (xs @ ys) = sampled l xs @ sampled (last (l # [b. Data b \<leftarrow> xs])) ys"
proof (induction xs arbitrary: l)
  case (Cons e xs)
  show ?case
  proof (cases e)
    case (Clock b)
    then show ?thesis using Cons.IH by (cases b) simp_all
  qed (use Cons.IH in simp_all)
qed simp

lemma sampled_bits:
  assumes "\<And>l b. sampled l (send b) = [b]" "\<And>l b ys. sampled l (send b @ ys) = b # sampled b ys"
  shows "sampled l (concat (map send bs) @ ys) = bs @ sampled (last (l # bs)) ys"
  by (induction bs arbitrary: l) (simp_all add: assms)

text \<open>Bits that are shifted into a word: every bit moves the others on by one.\<close>

definition shift_in :: "'a :: len word \<Rightarrow> bool \<Rightarrow> 'a word" where
  "shift_in reg b = push_bit 1 reg OR of_bool b"

lemma shift_in_bit:
  fixes reg :: "'a :: len word"
  assumes "i < LENGTH('a)"
  shows "bit (shift_in reg b) i \<longleftrightarrow> (if i = 0 then b else bit reg (i - 1))"
proof -
  have "bit (shift_in reg b) i \<longleftrightarrow> (1 \<le> i \<and> bit reg (i - 1)) \<or> b \<and> i = 0"
    using assms unfolding shift_in_def bit_or_iff bit_push_bit_iff bit_of_bool_iff by (auto simp: bit_imp_le_length)
  then show ?thesis by auto
qed

lemma shifted_bits:
  fixes reg :: "'a :: len word"
  shows "i < LENGTH('a) \<Longrightarrow> bit (foldl shift_in reg bs) i \<longleftrightarrow>
     (if i < length bs then bs ! (length bs - 1 - i) else bit reg (i - length bs))"
proof (induction bs arbitrary: i rule: rev_induct)
  case (snoc b bs)
  show ?case
  proof (cases i)
    case 0
    then show ?thesis using snoc.prems by (simp add: shift_in_bit nth_append)
  next
    case (Suc j)
    then have j: "j < LENGTH('a)" "bit (foldl shift_in reg (bs @ [b])) i \<longleftrightarrow> bit (foldl shift_in reg bs) j"
      using snoc.prems by (simp_all add: shift_in_bit)
    show ?thesis
    proof (cases "j < length bs")
      case True
      then have "length bs - Suc j < length bs" by simp
      then have "(bs @ [b]) ! (length (bs @ [b]) - 1 - i) = bs ! (length bs - 1 - j)" using Suc by (simp add: nth_append)
      then show ?thesis using snoc.IH [OF j(1)] True Suc j(2) by simp
    qed (use snoc.IH [OF j(1)] Suc j(2) in simp)
  qed
qed simp

subsection \<open>The shift register\<close>

definition HC595_SetBit :: "16 word \<Rightarrow> pin_event list" where
  "HC595_SetBit b =
     (if b = 0 then [Data False, Clock True, Clock False]
      else if b = 1 then [Data True, Clock True, Clock False]
      else [])"

definition HC595_SetData :: "16 word \<Rightarrow> 16 word \<times> pin_event list" where
  "HC595_SetData new_16ChannelState =
     (new_16ChannelState,
      concat (map (\<lambda>i. HC595_SetBit (drop_bit i new_16ChannelState AND 0x0001)) [0..<16]) @ [Latch True, Latch False])"

definition HC595_CurrentState :: "16 word \<Rightarrow> 16 word" where
  "HC595_CurrentState State_16_Channel = State_16_Channel"

text \<open>The start configures the pins as active and sends the state the driver begins with, all off.\<close>

definition init_HC595Pin :: "16 word \<times> pin_event list" where
  "init_HC595Pin = (case HC595_SetData 0x0000 of (s, es) \<Rightarrow> (s, [Clock True, Data True, Latch True] @ es))"

lemma low_bit: "(drop_bit i x AND 1 :: 16 word) = of_bool (bit x i)"
  by (simp add: and_one_eq mod2_eq_if even_drop_bit_iff_not_bit)

lemma SetBit_of_bool: "HC595_SetBit (of_bool b) = [Data b, Clock True, Clock False]"
  by (cases b) (simp_all add: HC595_SetBit_def)

lemma SetData_events:
  "snd (HC595_SetData x) = concat (map (\<lambda>b. [Data b, Clock True, Clock False]) (map (bit x) [0..<16])) @ [Latch True, Latch False]"
  by (simp add: HC595_SetData_def low_bit SetBit_of_bool comp_def)

lemma sampled_SetData: "sampled l (map inverted (snd (HC595_SetData x))) = map (\<lambda>i. \<not> bit x i) [0..<16]"
proof -
  have "map inverted (snd (HC595_SetData x)) =
      concat (map (\<lambda>b. [Data b, Clock False, Clock True]) (map (\<lambda>i. \<not> bit x i) [0..<16])) @ [Latch False, Latch True]"
    unfolding SetData_events by (simp add: map_concat comp_def del: upt_rec_numeral)
  then show ?thesis
    using sampled_bits [of "\<lambda>b. [Data b, Clock False, Clock True]" l "map (\<lambda>i. \<not> bit x i) [0..<16]" "[Latch False, Latch True]"]
    by (simp del: upt_rec_numeral)
qed

text \<open>
  After the driver sent a state, the register holds the complement of the state with its last bit
  first, whatever it held (the pins are active low, as the relays of the board are), the outputs are
  latched once at the end, after sixteen clock pulses, and the driver reports this state.
\<close>

theorem register_holds_state:
  "HC595_CurrentState (fst (HC595_SetData x)) = x \<and>
   (\<forall>reg l n. n < 16 \<longrightarrow>
      (bit (foldl shift_in (reg :: 16 word) (sampled l (map inverted (snd (HC595_SetData x))))) n \<longleftrightarrow> \<not> bit x (15 - n))) \<and>
   (\<exists>es. snd (HC595_SetData x) = es @ [Latch True, Latch False] \<and> Latch True \<notin> set es \<and> Latch False \<notin> set es \<and>
      length (filter (\<lambda>e. e = Clock True) es) = 16)"
proof (intro conjI allI impI)
  show "HC595_CurrentState (fst (HC595_SetData x)) = x" by (simp add: HC595_SetData_def HC595_CurrentState_def)
next
  fix reg :: "16 word" and l and n :: nat assume n: "n < 16"
  then have n16: "n < LENGTH(16)" by simp
  show "bit (foldl shift_in (reg :: 16 word) (sampled l (map inverted (snd (HC595_SetData x))))) n \<longleftrightarrow> \<not> bit x (15 - n)"
    unfolding sampled_SetData shifted_bits [OF n16] using n nth_upt [of 0 "15 - n" 16] by (simp del: upt_rec_numeral)
next
  let ?es = "concat (map (\<lambda>b. [Data b, Clock True, Clock False]) (map (bit x) [0..<16]))"
  have p: "length (filter (\<lambda>e. e = Clock True) (concat (map (\<lambda>b. [Data b, Clock True, Clock False]) bs))) = length bs" for bs
    by (induction bs) simp_all
  have "length (filter (\<lambda>e. e = Clock True) ?es) = 16" unfolding p by simp
  then show "\<exists>es. snd (HC595_SetData x) = es @ [Latch True, Latch False] \<and> Latch True \<notin> set es \<and> Latch False \<notin> set es \<and>
      length (filter (\<lambda>e. e = Clock True) es) = 16"
    by (intro exI [of _ ?es]) (auto simp: SetData_events simp del: upt_rec_numeral)
qed

lemma register_holds_state_witness:
  "\<not> bit (foldl shift_in (0xFFFF :: 16 word) (sampled True (map inverted (snd (HC595_SetData 0x8001))))) 15 \<and>
   bit (foldl shift_in (0xFFFF :: 16 word) (sampled True (map inverted (snd (HC595_SetData 0x8001))))) 5"
proof -
  have r: "bit (foldl shift_in (0xFFFF :: 16 word) (sampled True (map inverted (snd (HC595_SetData 0x8001))))) n \<longleftrightarrow>
      \<not> bit (0x8001 :: 16 word) (15 - n)"
    if "n < 16" for n using register_holds_state [of "0x8001"] that by blast
  show ?thesis using r [of 15] r [of 5] by simp
qed

subsection \<open>The LED strip\<close>

definition RGBdriver_init :: "pin_event list" where
  "RGBdriver_init = [Clock True, Data True]"

definition ClkRise :: "pin_event list" where
  "ClkRise = [Clock False, Clock True]"

definition Send32Zero :: "pin_event list" where
  "Send32Zero = concat (replicate 32 (Data False # ClkRise))"

definition TakeAntiCode :: "8 word \<Rightarrow> 8 word" where
  "TakeAntiCode dat =
     (let tmp = (0 :: 8 word);
          tmp = (if dat AND 0x80 = 0 then tmp OR 0x02 else tmp)
      in if dat AND 0x40 = 0 then tmp OR 0x01 else tmp)"

text \<open>The highest bit first: the word moves up by one with every bit.\<close>

fun DatSendLoop :: "nat \<Rightarrow> 32 word \<Rightarrow> pin_event list" where
  "DatSendLoop 0 dx = []"
| "DatSendLoop (Suc n) dx = Data (dx AND 0x80000000 \<noteq> 0) # ClkRise @ DatSendLoop n (push_bit 1 dx)"

definition DatSend :: "32 word \<Rightarrow> pin_event list" where
  "DatSend dx = DatSendLoop 32 dx"

definition color_word :: "8 word \<Rightarrow> 8 word \<Rightarrow> 8 word \<Rightarrow> 32 word" where
  "color_word Red Green Blue =
     push_bit 30 0x03 OR push_bit 28 (ucast (TakeAntiCode Blue)) OR push_bit 26 (ucast (TakeAntiCode Green)) OR
     push_bit 24 (ucast (TakeAntiCode Red)) OR push_bit 16 (ucast Blue) OR push_bit 8 (ucast Green) OR ucast Red"

definition SetColor :: "8 word \<Rightarrow> 8 word \<Rightarrow> 8 word \<Rightarrow> pin_event list" where
  "SetColor Red Green Blue = DatSend (color_word Red Green Blue)"

text \<open>The frames of the timer, each between the marks of its begin and end: blue gets brighter and darker again.\<close>

definition strip_begin :: "pin_event list" where
  "strip_begin = Send32Zero"

definition strip_end :: "pin_event list" where
  "strip_end = Send32Zero"

definition blue_frame :: "nat \<Rightarrow> pin_event list" where
  "blue_frame i = strip_begin @ SetColor 0 0 (of_nat i) @ strip_end"

definition LED_ReaderHandler :: "pin_event list" where
  "LED_ReaderHandler = concat (map blue_frame [0..<256]) @ concat (map blue_frame (rev [1..<256]))"

text \<open>What the strip makes of the bits: a word, from its highest bit on.\<close>

definition received :: "bool list \<Rightarrow> 32 word" where
  "received bs = foldl shift_in 0 bs"

lemma high_bit: "(dx AND 0x80000000 :: 32 word) \<noteq> 0 \<longleftrightarrow> bit dx 31"
proof -
  have "(0x80000000 :: 32 word) = push_bit 31 1" by simp
  then show ?thesis by (metis and_exp_eq_0_iff_not_bit push_bit_of_1)
qed

lemma bit_double: "i < 32 \<Longrightarrow> bit (push_bit 1 (dx :: 32 word)) i \<longleftrightarrow> 1 \<le> i \<and> bit dx (i - 1)"
  unfolding bit_push_bit_iff by (auto simp: bit_imp_le_length)

lemma sampled_DatSendLoop: "n \<le> 32 \<Longrightarrow> sampled l (DatSendLoop n dx) = map (\<lambda>i. bit dx (31 - i)) [0..<n]"
proof (induction n arbitrary: l dx)
  case (Suc n)
  have "map (\<lambda>i. bit (push_bit 1 dx) (31 - i)) [0..<n] = map (\<lambda>i. bit dx (31 - Suc i)) [0..<n]"
  proof (rule map_cong [OF refl])
    fix i assume "i \<in> set [0..<n]"
    then show "bit (push_bit 1 dx) (31 - i) \<longleftrightarrow> bit dx (31 - Suc i)"
      using Suc.prems by (subst bit_double) auto
  qed
  then have "sampled (bit dx 31) (DatSendLoop n (push_bit 1 dx)) = map (\<lambda>i. bit dx (31 - i)) [Suc 0..<Suc n]"
    using Suc.IH [of "bit dx 31" "push_bit 1 dx"] Suc.prems by (simp only: map_Suc_upt [symmetric] map_map comp_def)
  then show ?case by (simp only: DatSendLoop.simps ClkRise_def sampled.simps append.simps high_bit upt_conv_Cons [OF zero_less_Suc] list.map diff_zero)
qed simp

lemma anti_bits: "bit (TakeAntiCode x) n \<longleftrightarrow> n = 0 \<and> \<not> bit x 6 \<or> n = 1 \<and> \<not> bit x 7"
proof -
  have "(0x80 :: 8 word) = push_bit 7 1" "(0x40 :: 8 word) = push_bit 6 1" by simp_all
  then have "x AND 0x80 = 0 \<longleftrightarrow> \<not> bit x 7" "x AND 0x40 = 0 \<longleftrightarrow> \<not> bit x 6"
    by (metis and_exp_eq_0_iff_not_bit push_bit_of_1)+
  moreover have "bit (2 :: 8 word) n \<longleftrightarrow> n = 1" "bit (1 :: 8 word) n \<longleftrightarrow> n = 0" "bit (3 :: 8 word) n \<longleftrightarrow> n = 0 \<or> n = 1"
    by (cases n; cases "n - 1"; simp add: bit_numeral_rec bit_1_iff)+
  ultimately show ?thesis by (auto simp: TakeAntiCode_def Let_def)
qed

lemma color_bits:
  "n < 32 \<Longrightarrow> bit (color_word R G B) n \<longleftrightarrow>
     ((((((n = 30 \<or> n = 31) \<or> 28 \<le> n \<and> bit (TakeAntiCode B) (n - 28)) \<or> 26 \<le> n \<and> bit (TakeAntiCode G) (n - 26)) \<or>
     24 \<le> n \<and> bit (TakeAntiCode R) (n - 24)) \<or> 16 \<le> n \<and> bit B (n - 16)) \<or> 8 \<le> n \<and> bit G (n - 8)) \<or> bit R n"
proof -
  assume n: "n < 32"
  have u: "bit (ucast x :: 32 word) m \<longleftrightarrow> bit x m" if "m < 32" for x :: "8 word" and m
    using that by (auto simp: bit_unsigned_iff)
  have p: "bit (push_bit k (ucast x) :: 32 word) n \<longleftrightarrow> k \<le> n \<and> bit x (n - k)" for x :: "8 word" and k
    unfolding bit_push_bit_iff using n u [of "n - k" x] by auto
  have three: "bit (3 :: 32 word) m \<longleftrightarrow> m = 0 \<or> m = 1" for m
    by (cases m; cases "m - 1"; simp add: bit_numeral_rec bit_1_iff)
  have "bit (push_bit 30 3 :: 32 word) n \<longleftrightarrow> 30 \<le> n \<and> (n - 30 = 0 \<or> n - 30 = 1)"
    unfolding bit_push_bit_iff three using n by simp
  also have "\<dots> \<longleftrightarrow> n = 30 \<or> n = 31" by arith
  finally have "bit (push_bit 30 3 :: 32 word) n \<longleftrightarrow> n = 30 \<or> n = 31" .
  then show ?thesis by (simp only: color_word_def bit_or_iff p u [OF n] disj_assoc)
qed

text \<open>
  C36: the strip receives the word of the colour, whatever the level of the data pin was: its two highest
  bits are set, the next six are the complements of the two highest bits of blue, green and red, and the
  three colours follow.
\<close>

theorem strip_receives_color:
  "received (sampled l (SetColor R G B)) = color_word R G B \<and>
   ucast (received (sampled l (SetColor R G B))) = R \<and>
   ucast (drop_bit 8 (received (sampled l (SetColor R G B)))) = G \<and>
   ucast (drop_bit 16 (received (sampled l (SetColor R G B)))) = B \<and>
   (\<forall>i < 8. bit (received (sampled l (SetColor R G B))) (24 + i) \<longleftrightarrow>
      [\<not> bit R 6, \<not> bit R 7, \<not> bit G 6, \<not> bit G 7, \<not> bit B 6, \<not> bit B 7, True, True] ! i)"
proof -
  have r: "received (sampled l (SetColor R G B)) = color_word R G B"
  proof (rule bit_word_eqI)
    fix n assume n: "n < LENGTH(32)"
    then have k: "n < 32" "[0..<32] ! (31 - n) = 31 - n" using nth_upt [of 0 "31 - n" 32] by simp_all
    then show "bit (received (sampled l (SetColor R G B))) n \<longleftrightarrow> bit (color_word R G B) n"
      unfolding received_def SetColor_def DatSend_def sampled_DatSendLoop [OF order.refl] shifted_bits [OF n]
      by (simp del: upt_rec_numeral)
  qed
  have c: "ucast (color_word R G B) = R" "ucast (drop_bit 8 (color_word R G B)) = G" "ucast (drop_bit 16 (color_word R G B)) = B"
    by (rule bit_word_eqI; auto simp: bit_simps color_bits anti_bits dest: bit_imp_le_length)+
  have "\<forall>i < 8. bit (color_word R G B) (24 + i) \<longleftrightarrow>
      [\<not> bit R 6, \<not> bit R 7, \<not> bit G 6, \<not> bit G 7, \<not> bit B 6, \<not> bit B 7, True, True] ! i"
    by (auto simp: color_bits anti_bits less_Suc_eq numeral_eq_Suc dest: bit_imp_le_length)
  then show ?thesis using c unfolding r by simp
qed

lemma strip_receives_color_witness:
  "\<not> bit (received (sampled False (SetColor 255 0 0))) 24 \<and> bit (received (sampled False (SetColor 255 0 0))) 28"
proof -
  have r: "bit (received (sampled False (SetColor 255 0 0))) (24 + i) \<longleftrightarrow>
      [\<not> bit (255 :: 8 word) 6, \<not> bit (255 :: 8 word) 7, \<not> bit (0 :: 8 word) 6, \<not> bit (0 :: 8 word) 7,
       \<not> bit (0 :: 8 word) 6, \<not> bit (0 :: 8 word) 7, True, True] ! i" if "i < 8" for i
    using strip_receives_color [of False 255 0 0] that by blast
  show ?thesis using r [of 0] r [of 4] by simp
qed

end
