(* ===== verification/PinApps.thy ===== *)
theory PinApps
  imports Prelude "HOL-Library.Signed_Division"
begin

text \<open>
  Three apps that work with pins or the AirVantage cloud alone: the ultrasonic ranger
  (\<open>src/apps/UltraSonicRanger/UltraSonicRangerComponent/UltraSonicRanger.c\<close>), the parking spaces
  (\<open>src/apps/SmartParking/SpaceSttComponent/SpaceStt.c\<close>) and the control of two relays
  (\<open>src/apps/RelayControl16/RelayControl16Component/RelayControl16.c\<close>).
\<close>

subsection \<open>The ultrasonic ranger\<close>

text \<open>
  The clock and the pin are functions of the number of times they were read: \<open>gettimeofday\<close> gives seconds and
  microseconds, or nothing if it fails. The width of \<open>time_t\<close> is that of the C library: 32 bits in the older ones
  for the boards, 64 in others. A loop may run for ever if the clock stands still. Setting up the pin and sending
  the pulse are left out: they do not depend on the state.
\<close>

record sonar =
  gettimeofday :: "nat \<Rightarrow> (int \<times> int) option"
  time_t_bits :: nat
  pin :: "nat \<Rightarrow> bool"

text \<open>
  The sum is computed in the type of the seconds, whose overflow is undefined, before it is made an unsigned integer of 64
  bits; when there is no time, the value that is returned was never set.
\<close>

definition fits_signed :: "nat \<Rightarrow> int \<Rightarrow> bool" where
  "fits_signed b x \<longleftrightarrow> - (2 ^ (b - 1)) \<le> x \<and> x < 2 ^ (b - 1)"

definition GetTimestamp :: "sonar \<Rightarrow> nat \<Rightarrow> 64 word option" where
  "GetTimestamp S n =
     (case gettimeofday S n of
        None \<Rightarrow> None
      | Some (tv_sec, tv_usec) \<Rightarrow>
          if fits_signed (time_t_bits S) (tv_sec * 1000000) \<and> fits_signed (time_t_bits S) (tv_sec * 1000000 + tv_usec)
          then Some (word_of_int (tv_sec * 1000000 + tv_usec)) else None)"

definition timeout :: "64 word" where "timeout = 12000"

definition MicrosDiff :: "64 word \<Rightarrow> 64 word \<Rightarrow> 64 word" where
  "MicrosDiff from to = to - from"

text \<open>Waiting while the pin has a level: whether it changed in time, and how often clock and pin were read.\<close>

partial_function (option) wait_while :: "sonar \<Rightarrow> bool \<Rightarrow> 64 word \<Rightarrow> nat \<Rightarrow> nat \<Rightarrow> (bool \<times> nat \<times> nat) option" where
  "wait_while S level start c p =
     (if pin S p \<noteq> level then Some (True, c, p + 1)
      else do {
        now \<leftarrow> GetTimestamp S c;
        if MicrosDiff start now \<ge> timeout then Some (False, c + 1, p + 1)
        else wait_while S level start (c + 1) (p + 1)
      })"

definition pulseIn :: "sonar \<Rightarrow> nat \<Rightarrow> nat \<Rightarrow> (64 word \<times> nat \<times> nat) option" where
  "pulseIn S c p = do {
     start \<leftarrow> GetTimestamp S c;
     (ok, c, p) \<leftarrow> wait_while S True start (c + 1) p;
     if \<not> ok then Some (0, c, p)
     else do {
       (ok, c, p) \<leftarrow> wait_while S False start c p;
       if \<not> ok then Some (0, c, p)
       else do {
         pulseBegin \<leftarrow> GetTimestamp S c;
         (ok, c, p) \<leftarrow> wait_while S True start (c + 1) p;
         if \<not> ok then Some (0, c, p)
         else do {
           pulseEnd \<leftarrow> GetTimestamp S c;
           Some (MicrosDiff pulseBegin pulseEnd, c + 1, p)
         }
       }
     }
   }"

text \<open>The duration is kept in a \<open>long\<close> of 32 bits.\<close>

definition measure_in :: "int \<Rightarrow> sonar \<Rightarrow> nat \<Rightarrow> nat \<Rightarrow> (int \<times> nat \<times> nat) option" where
  "measure_in unit S c p = do {
     (d, c, p) \<leftarrow> pulseIn S c p;
     let duration = sint (ucast d :: 32 word);
     Some ((duration sdiv unit) sdiv 2, c, p)
   }"

definition MeasureInCentimeters :: "sonar \<Rightarrow> nat \<Rightarrow> nat \<Rightarrow> (int \<times> nat \<times> nat) option" where
  "MeasureInCentimeters = measure_in 29"

definition MeasureInInches :: "sonar \<Rightarrow> nat \<Rightarrow> nat \<Rightarrow> (int \<times> nat \<times> nat) option" where
  "MeasureInInches = measure_in 74"

text \<open>At most so many reads of the pin, until it has a level: how many there were, and whether it had.\<close>

fun reads_until :: "sonar \<Rightarrow> bool \<Rightarrow> nat \<Rightarrow> nat \<Rightarrow> bool \<times> nat" where
  "reads_until S level 0 p = (False, p)"
| "reads_until S level (Suc n) p = (if pin S p = level then (True, p + 1) else reads_until S level n (p + 1))"

text \<open>The conversion of an integer to a \<open>float\<close>: 24 bits, rounded to the nearest, ties to the even one.\<close>

definition round_to :: "nat \<Rightarrow> nat \<Rightarrow> nat" where
  "round_to u n =
     (let q = n div u; r = n mod u
      in u * (if 2 * r > u \<or> 2 * r = u \<and> odd q then q + 1 else q))"

fun to_float :: "nat \<Rightarrow> nat \<Rightarrow> nat" where
  "to_float 0 n = n"
| "to_float (Suc k) n = (if n < 2 ^ (24 + k) then to_float k n else round_to (2 ^ Suc k) n)"

text \<open>
  The second way to measure. The value is 0 or 1 for a failure, and else the quotient of a difference of two
  \<open>float\<close>s by 29 and 2, of which the difference is kept; \<open>None\<close> is a time that is undefined.
\<close>

datatype v2_result = Zero | One | Quotient int

definition MeasureInCentimeters_v2 :: "sonar \<Rightarrow> nat \<Rightarrow> nat \<Rightarrow> v2_result option" where
  "MeasureInCentimeters_v2 S c p = do {
     t0 \<leftarrow> GetTimestamp S c;
     let (found, p) = reads_until S True 1000 p;
     if \<not> found then Some Zero
     else do {
       t1 \<leftarrow> GetTimestamp S (c + 1);
       let (found, p) = reads_until S False 10000 p;
       if \<not> found then Some One
       else do {
         t2 \<leftarrow> GetTimestamp S (c + 2);
         Some (if (t1 - t0) * 1000000 > 530 then One
               else Quotient (int (to_float 40 (unat t2)) - int (to_float 40 (unat t1))))
       }
     }
   }"

text \<open>
  The waiting ends, at the first change of the pin or at a time after the timeout. The clock is read once for every
  read of the pin that shows no change.
\<close>

lemma wait_ends:
  assumes "\<And>n. GetTimestamp S n = Some (T n)" "\<forall>n \<ge> N. MicrosDiff start (T n) \<ge> timeout" "c \<le> N"
  obtains n where "wait_while S level start c p =
      Some (pin S (p + n) \<noteq> level, if pin S (p + n) \<noteq> level then c + n else c + n + 1, p + n + 1)"
    "pin S (p + n) = level \<longrightarrow> MicrosDiff start (T (c + n)) \<ge> timeout" "c + n \<le> N"
    "\<forall>q. p \<le> q \<longrightarrow> q < p + n \<longrightarrow> pin S q = level"
  using assms(3)
proof (induction "N - c" arbitrary: c p thesis rule: less_induct)
  case less
  note unfold = wait_while.simps [of S level start c p] assms(1) Option.bind.bind_lunit
  show ?case
  proof (cases "pin S p = level \<and> \<not> MicrosDiff start (T c) \<ge> timeout")
    case False
    then consider (changed) "pin S p \<noteq> level" | (late) "pin S p = level" "MicrosDiff start (T c) \<ge> timeout" by blast
    then show ?thesis
    proof cases
      case changed
      then have "wait_while S level start c p = Some (True, c, p + 1)" unfolding unfold by simp
      then show ?thesis by (intro less.prems(1) [of 0]) (use changed less.prems(2) in auto)
    next
      case late
      then have "wait_while S level start c p = Some (False, c + 1, p + 1)" unfolding unfold by simp
      then show ?thesis by (intro less.prems(1) [of 0]) (use late less.prems(2) in auto)
    qed
  next
    case True
    have "c < N" using True assms(2) less.prems(2) by (metis nat_less_le order.refl)
    obtain n where w: "wait_while S level start (c + 1) (p + 1) =
        Some (pin S (p + 1 + n) \<noteq> level, if pin S (p + 1 + n) \<noteq> level then c + 1 + n else c + 1 + n + 1, p + 1 + n + 1)"
      "pin S (p + 1 + n) = level \<longrightarrow> MicrosDiff start (T (c + 1 + n)) \<ge> timeout" "c + 1 + n \<le> N"
      "\<forall>q. p + 1 \<le> q \<longrightarrow> q < p + 1 + n \<longrightarrow> pin S q = level"
      by (rule less.hyps [of "c + 1" "p + 1"]) (use \<open>c < N\<close> in auto)
    have "wait_while S level start c p = wait_while S level start (c + 1) (p + 1)" using True unfolding unfold by simp
    moreover have "pin S q = level" if "p \<le> q" "q < p + (n + 1)" for q using w(4) that True by (cases "q = p") simp_all
    ultimately show ?thesis using w(1-3) by (intro less.prems(1) [of "n + 1"]) (simp_all add: ac_simps)
  qed
qed

text \<open>
  C23: on a clock that works and is past the timeout from some reading on, the measurement of a pulse ends. Either
  the result is zero and the last reading of the clock is past the timeout; or the pin was low (from read \<open>i\<close> on), then high
  (from read \<open>j\<close> on), then low (at read \<open>k\<close>), and the result is the difference of the reading of the clock right after
  read \<open>k\<close> and the one right after read \<open>j\<close>.
\<close>

theorem pulse_measured:
  assumes "\<And>n. GetTimestamp S n = Some (T n)" "\<forall>n \<ge> N. MicrosDiff (T c) (T n) \<ge> timeout" "c < N"
  shows "\<exists>d c' p'. pulseIn S c p = Some (d, c', p') \<and> c' \<le> N + 2 \<and>
    (d = 0 \<and> MicrosDiff (T c) (T (c' - 1)) \<ge> timeout \<or>
     (\<exists>i j k. p \<le> i \<and> i < j \<and> j < k \<and> p' = k + 1 \<and> c' = c + (k - p) + 1 \<and>
       d = T (c + (k - p)) - T (c + (j - p)) \<and>
       (\<forall>q. p \<le> q \<longrightarrow> q < i \<longrightarrow> pin S q) \<and> (\<forall>q. i \<le> q \<longrightarrow> q < j \<longrightarrow> \<not> pin S q) \<and>
       (\<forall>q. j \<le> q \<longrightarrow> q < k \<longrightarrow> pin S q) \<and> \<not> pin S k))"
proof -
  note clock = assms(1)
  obtain l where l: "wait_while S True (T c) (c + 1) p =
      Some (\<not> pin S (p + l), if \<not> pin S (p + l) then c + 1 + l else c + 1 + l + 1, p + l + 1)"
    "pin S (p + l) \<longrightarrow> MicrosDiff (T c) (T (c + 1 + l)) \<ge> timeout" "c + 1 + l \<le> N"
    "\<forall>q. p \<le> q \<longrightarrow> q < p + l \<longrightarrow> pin S q"
    using wait_ends [OF clock assms(2), of "c + 1" True p] assms(3) by auto
  show ?thesis
  proof (cases "pin S (p + l)")
    case True
    then have "pulseIn S c p = Some (0, c + 1 + l + 1, p + l + 1)" using l(1) clock by (simp add: pulseIn_def)
    then show ?thesis using True l(2,3) by (intro exI conjI disjI1) auto
  next
    case low: False
    obtain m where m: "wait_while S False (T c) (c + 1 + l) (p + l + 1) =
        Some (pin S (p + l + 1 + m), if pin S (p + l + 1 + m) then c + 1 + l + m else c + 1 + l + m + 1, p + l + 1 + m + 1)"
      "\<not> pin S (p + l + 1 + m) \<longrightarrow> MicrosDiff (T c) (T (c + 1 + l + m)) \<ge> timeout" "c + 1 + l + m \<le> N"
      "\<forall>q. p + l + 1 \<le> q \<longrightarrow> q < p + l + 1 + m \<longrightarrow> \<not> pin S q"
      using wait_ends [OF clock assms(2) l(3), of False "p + l + 1"] by auto
    show ?thesis
    proof (cases "pin S (p + l + 1 + m)")
      case False
      then have "pulseIn S c p = Some (0, c + 1 + l + m + 1, p + l + 1 + m + 1)"
        using l(1) m(1) low clock by (simp add: pulseIn_def)
      then show ?thesis using False m(2,3) by (intro exI conjI disjI1) auto
    next
      case high: True
      have later: "\<forall>n \<ge> N + 1. MicrosDiff (T c) (T n) \<ge> timeout" using assms(2) by simp
      obtain n where n: "wait_while S True (T c) (c + 1 + l + m + 1) (p + l + 1 + m + 1) =
          Some (\<not> pin S (p + l + 1 + m + 1 + n),
            if \<not> pin S (p + l + 1 + m + 1 + n) then c + 1 + l + m + 1 + n else c + 1 + l + m + 1 + n + 1, p + l + 1 + m + 1 + n + 1)"
        "pin S (p + l + 1 + m + 1 + n) \<longrightarrow> MicrosDiff (T c) (T (c + 1 + l + m + 1 + n)) \<ge> timeout" "c + 1 + l + m + 1 + n \<le> N + 1"
        "\<forall>q. p + l + 1 + m + 1 \<le> q \<longrightarrow> q < p + l + 1 + m + 1 + n \<longrightarrow> pin S q"
        using wait_ends [OF clock later, of "c + 1 + l + m + 1" True "p + l + 1 + m + 1"] m(3) by auto
      show ?thesis
      proof (cases "pin S (p + l + 1 + m + 1 + n)")
        case True
        then have "pulseIn S c p = Some (0, c + 1 + l + m + 1 + n + 1, p + l + 1 + m + 1 + n + 1)"
          using l(1) m(1) n(1) low high clock by (simp add: pulseIn_def)
        then show ?thesis using True n(2,3) by (intro exI conjI disjI1) auto
      next
        case False
        define i j k where ijk: "i = p + l" "j = p + l + 1 + m" "k = p + l + 1 + m + 1 + n"
        have run: "pulseIn S c p = Some (T (c + (k - p)) - T (c + (j - p)), c + (k - p) + 1, k + 1)"
          using l(1) m(1) n(1) low high False clock by (simp add: pulseIn_def MicrosDiff_def ijk ac_simps)
        have levels: "\<forall>q. i \<le> q \<longrightarrow> q < j \<longrightarrow> \<not> pin S q" "\<forall>q. j \<le> q \<longrightarrow> q < k \<longrightarrow> pin S q"
          using m(4) n(4) low high unfolding ijk by (metis Suc_eq_plus1 Suc_leI le_neq_implies_less)+
        have rest: "p \<le> i" "i < j" "j < k" "\<forall>q. p \<le> q \<longrightarrow> q < i \<longrightarrow> pin S q" "\<not> pin S k" "c + (k - p) + 1 \<le> N + 2"
          using l(4) False n(3) by (simp_all add: ijk)
        show ?thesis
          by (rule exI, rule exI, rule exI, rule conjI [OF run], rule conjI [OF rest(6)], rule disjI2,
              rule exI [of _ i], rule exI [of _ j], rule exI [of _ k], intro conjI refl rest levels)
      qed
    qed
  qed
qed

definition sample_sonar :: "(nat \<Rightarrow> int) \<Rightarrow> sonar" where
  "sample_sonar usec = \<lparr> gettimeofday = \<lambda>n. Some (1700000000, usec n), time_t_bits = 64, pin = \<lambda>n. 2 \<le> n \<and> n < 5 \<rparr>"

lemma sample_sonar_clock:
  "0 \<le> usec n \<Longrightarrow> usec n < 1000000 \<Longrightarrow> GetTimestamp (sample_sonar usec) n = Some (word_of_int (1700000000000000 + usec n))"
  by (simp add: GetTimestamp_def sample_sonar_def fits_signed_def)

lemma pulse_measured_witness:
  "\<exists>d c' p'. pulseIn (sample_sonar (\<lambda>n. if n < 12 then 1000 * int n else 12000)) 0 0 = Some (d, c', p') \<and> c' \<le> 14"
proof -
  let ?us = "\<lambda>n. if n < 12 then 1000 * int n else 12000" and ?T = "\<lambda>n. 1700000000000000 + (if n < 12 then of_nat (1000 * n) else 12000) :: 64 word"
  have T: "GetTimestamp (sample_sonar ?us) n = Some (?T n)" for n
    using sample_sonar_clock [of ?us n] by (simp split: if_splits)
  have "\<forall>n \<ge> 12. MicrosDiff (?T 0) (?T n) \<ge> timeout" by (simp add: MicrosDiff_def timeout_def)
  from pulse_measured [OF T this, of 0] show ?thesis by fastforce
qed

text \<open>Times of this century have 51 bits, so a \<open>float\<close> has them in steps of more than two minutes.\<close>

lemma to_float_small: "n < 2 ^ (24 + k) \<Longrightarrow> to_float (k + m) n = to_float k n"
proof (induction m)
  case (Suc m)
  have "(2 :: nat) ^ (24 + k) \<le> 2 ^ (24 + (k + m))" by (rule power_increasing) simp_all
  then have "n < 2 ^ (24 + (k + m))" using Suc.prems by linarith
  then have "to_float (Suc (k + m)) n = to_float (k + m) n" by (simp only: to_float.simps if_True)
  then show ?case using Suc by simp
qed simp

lemma to_float_now:
  assumes "2 ^ 50 \<le> n" "n < 2 ^ 51"
  shows "2 ^ 27 dvd to_float 40 n"
proof -
  have "to_float (27 + 13) n = to_float 27 n" by (rule to_float_small) (use assms(2) in simp)
  also have "\<dots> = to_float (Suc 26) n" by simp
  also have "\<dots> = round_to (2 ^ 27) n" using assms(1) unfolding to_float.simps by simp
  finally have f: "to_float 40 n = round_to (2 ^ 27) n" by simp
  show ?thesis unfolding f round_to_def Let_def by (rule dvd_triv_left)
qed

text \<open>A time between September 2005 and 2041.\<close>

definition nowadays :: "(int \<times> int) option \<Rightarrow> bool" where
  "nowadays t \<longleftrightarrow> (\<exists>sec usec. t = Some (sec, usec) \<and> 0 \<le> usec \<and> usec < 1000000 \<and>
     2 ^ 50 \<le> sec * 1000000 + usec \<and> sec * 1000000 + usec < 2 ^ 51)"

lemma timestamp_now:
  assumes "nowadays (gettimeofday S n)"
  shows "time_t_bits S = 32 \<Longrightarrow> GetTimestamp S n = None"
    "time_t_bits S = 64 \<Longrightarrow> \<exists>t. GetTimestamp S n = Some t \<and> 2 ^ 50 \<le> unat t \<and> unat t < 2 ^ 51"
proof -
  obtain sec usec where t: "gettimeofday S n = Some (sec, usec)" "0 \<le> usec" "usec < 1000000"
    "2 ^ 50 \<le> sec * 1000000 + usec" "sec * 1000000 + usec < 2 ^ 51"
    using assms by (auto simp: nowadays_def)
  show "GetTimestamp S n = None" if "time_t_bits S = 32"
    using t that by (simp add: GetTimestamp_def fits_signed_def)
  define x where "x = sec * 1000000 + usec"
  have x: "2 ^ 50 \<le> x" "x < 2 ^ 51" using t(4,5) by (simp_all add: x_def)
  have sec: "- (2 ^ 63) \<le> sec * 1000000 \<and> sec * 1000000 < 2 ^ 63" using t(2-5) by simp
  have "unat (word_of_int x :: 64 word) = nat x"
    using x by (simp add: unat_eq_nat_uint uint_word_of_int_eq take_bit_int_eq_self)
  moreover have "nat (2 ^ 50) \<le> nat x" "nat x < nat (2 ^ 51)" using x by (simp_all add: nat_mono nat_less_eq_zless)
  ultimately show "\<exists>t. GetTimestamp S n = Some t \<and> 2 ^ 50 \<le> unat t \<and> unat t < 2 ^ 51" if "time_t_bits S = 64"
    using t sec that by (simp add: GetTimestamp_def fits_signed_def flip: x_def)
qed

text \<open>
  C37: with the time of any day from September 2005 to 2041, no way to measure works when \<open>time_t\<close> has 32
  bits, as the microseconds overflow it, which is undefined. When it has 64 bits, the second way never gives a
  distance: the \<open>float\<close>s of the two times differ by nothing or by more than two minutes; and when the
  pulse starts a microsecond or more (but not days) after the first reading of the clock, it is taken for a
  failure.
\<close>

theorem distance_never_measured:
  assumes "\<forall>n. nowadays (gettimeofday S n)"
  shows "(time_t_bits S = 32 \<longrightarrow> pulseIn S c p = None \<and> MeasureInCentimeters_v2 S c p = None) \<and>
    (time_t_bits S = 64 \<longrightarrow>
       (\<exists>r. MeasureInCentimeters_v2 S c p = Some r \<and> (case r of Quotient d \<Rightarrow> d = 0 \<or> \<bar>d\<bar> \<ge> 2 ^ 27 | _ \<Rightarrow> True)) \<and>
       (\<forall>t0 t1. GetTimestamp S c = Some t0 \<and> GetTimestamp S (c + 1) = Some t1 \<and>
          unat t0 < unat t1 \<and> unat t1 < unat t0 + 2 ^ 40 \<longrightarrow>
          MeasureInCentimeters_v2 S c p \<in> {Some Zero, Some One}))"
proof (intro conjI impI)
  assume "time_t_bits S = 32"
  then have "GetTimestamp S n = None" for n using timestamp_now(1) assms by blast
  then show "pulseIn S c p = None" "MeasureInCentimeters_v2 S c p = None"
    by (simp_all add: pulseIn_def MeasureInCentimeters_v2_def)
next
  assume "time_t_bits S = 64"
  then have "\<forall>n. \<exists>t. GetTimestamp S n = Some t \<and> 2 ^ 50 \<le> unat t \<and> unat t < 2 ^ 51" using timestamp_now(2) assms by blast
  then obtain T where T: "\<And>n. GetTimestamp S n = Some (T n)" "\<And>n. 2 ^ 50 \<le> unat (T n)" "\<And>n. unat (T n) < 2 ^ 51" by metis
  have far: "d = 0 \<or> \<bar>d\<bar> \<ge> 2 ^ 27" if "d = int (to_float 40 (unat (T m))) - int (to_float 40 (unat (T n)))" for d :: int and m n
  proof -
    have "(2 :: int) ^ 27 dvd int (to_float 40 (unat (T k)))" for k
      using to_float_now [of "unat (T k)"] T(2,3) by (metis int_dvd_int_iff of_nat_numeral of_nat_power)
    then have "2 ^ 27 dvd d" unfolding that by (intro dvd_diff)
    then show ?thesis using dvd_imp_le_int [of d "2 ^ 27"] by auto
  qed
  have late: "(t1 - t0) * 1000000 > 530" if l: "unat t0 < unat t1" "unat t1 < unat t0 + 2 ^ 40" for t0 t1 :: "64 word"
  proof -
    have d: "unat (t1 - t0) = unat t1 - unat t0"
      by (rule unat_sub) (use l(1) in \<open>simp add: word_le_nat_alt\<close>)
    then have m: "unat (t1 - t0) * 1000000 < 2 ^ 64" "0 < unat (t1 - t0)" using l by simp_all
    have "unat (x * 1000000) = unat x * 1000000" if "unat x * 1000000 < 2 ^ 64" for x :: "64 word"
      using that by (simp add: unat_word_ariths)
    from this [OF m(1)] show ?thesis unfolding word_less_nat_alt using m(2) by (simp only:) simp
  qed
  obtain f1 p1 where r1: "reads_until S True 1000 p = (f1, p1)" by fastforce
  obtain f2 p2 where r2: "reads_until S False 10000 p1 = (f2, p2)" by fastforce
  define r where "r = (if \<not> f1 then Zero else if \<not> f2 then One else if (T (c + 1) - T c) * 1000000 > 530 then One
       else Quotient (int (to_float 40 (unat (T (c + 2)))) - int (to_float 40 (unat (T (c + 1))))))"
  have v2: "MeasureInCentimeters_v2 S c p = Some r"
    unfolding MeasureInCentimeters_v2_def Let_def T(1) Option.bind.bind_lunit r1 prod.case r2 r_def by simp
  moreover have "case r of Quotient d \<Rightarrow> d = 0 \<or> \<bar>d\<bar> \<ge> 2 ^ 27 | _ \<Rightarrow> True"
    unfolding r_def using far [OF refl, of "c + 2" "c + 1"] by (simp del: to_float.simps)
  ultimately show "\<exists>r. MeasureInCentimeters_v2 S c p = Some r \<and> (case r of Quotient d \<Rightarrow> d = 0 \<or> \<bar>d\<bar> \<ge> 2 ^ 27 | _ \<Rightarrow> True)"
    by blast
  show "\<forall>t0 t1. GetTimestamp S c = Some t0 \<and> GetTimestamp S (c + 1) = Some t1 \<and>
      unat t0 < unat t1 \<and> unat t1 < unat t0 + 2 ^ 40 \<longrightarrow> MeasureInCentimeters_v2 S c p \<in> {Some Zero, Some One}"
  proof (intro allI impI)
    fix t0 t1
    assume t: "GetTimestamp S c = Some t0 \<and> GetTimestamp S (c + 1) = Some t1 \<and> unat t0 < unat t1 \<and> unat t1 < unat t0 + 2 ^ 40"
    then have "t0 = T c" "t1 = T (c + 1)" using T(1) by simp_all
    then have "(T (c + 1) - T c) * 1000000 > 530" using late t by blast
    then have "r \<in> {Zero, One}" unfolding r_def by simp
    then show "MeasureInCentimeters_v2 S c p \<in> {Some Zero, Some One}" unfolding v2 by blast
  qed
qed

lemma distance_never_measured_witness:
  "MeasureInCentimeters_v2 (sample_sonar (\<lambda>n. if n = 0 then 0 else 4096)) 0 0 \<in> {Some Zero, Some One} \<and>
   MeasureInCentimeters_v2 ((sample_sonar (\<lambda>_. 0))\<lparr>time_t_bits := 32\<rparr>) 0 0 = None"
proof -
  let ?us = "\<lambda>n :: nat. if n = 0 then 0 else 4096 :: int"
  have now: "\<forall>n. nowadays (gettimeofday (sample_sonar ?us) n)"
    "\<forall>n. nowadays (gettimeofday ((sample_sonar (\<lambda>_. 0))\<lparr>time_t_bits := 32\<rparr>) n)"
    by (simp_all add: nowadays_def sample_sonar_def)
  have t: "GetTimestamp (sample_sonar ?us) 0 = Some 1700000000000000" "GetTimestamp (sample_sonar ?us) 1 = Some 1700000000004096"
    using sample_sonar_clock [of ?us 0] sample_sonar_clock [of ?us 1] by simp_all
  have "time_t_bits (sample_sonar ?us) = 64" by (simp add: sample_sonar_def)
  then have "MeasureInCentimeters_v2 (sample_sonar ?us) 0 0 \<in> {Some Zero, Some One}"
    using distance_never_measured [OF now(1), of 0 0] t by simp
  moreover have "MeasureInCentimeters_v2 ((sample_sonar (\<lambda>_. 0))\<lparr>time_t_bits := 32\<rparr>) 0 0 = None"
    using distance_never_measured [OF now(2), of 0 0] by simp
  ultimately show ?thesis by blast
qed

subsection \<open>The parking spaces\<close>

text \<open>A space has the number AirVantage set last; the calls of the AirVantage service are recorded in order.\<close>

record SpacesStatus =
  space1 :: int
  space2 :: int
  space3 :: int
  space4 :: int
  space5 :: int
  space6 :: int
  space7 :: int
  space8 :: int

datatype cloud_call =
    SetInt string int
  | SetFloat string
  | RecordSpace string int "64 word"
  | PublishRecord

record parking =
  LastSpacesStatus :: SpacesStatus
  cloud_calls :: "cloud_call list"
  ParkingTimer_running :: bool

definition initial_parking :: parking where
  "initial_parking = \<lparr> LastSpacesStatus =
     \<lparr> space1 = 0, space2 = 0, space3 = 0, space4 = 0, space5 = 0, space6 = 0, space7 = 0, space8 = 0 \<rparr>,
     cloud_calls = [], ParkingTimer_running = True \<rparr>"

text \<open>A value that could not be read leaves the new one at zero.\<close>

definition bound_or_zero :: "int option \<Rightarrow> int" where
  "bound_or_zero got = (case got of None \<Rightarrow> 0 | Some n \<Rightarrow> n)"

text \<open>The new value is written back and stored.\<close>

definition set_space :: "string \<Rightarrow> (int \<Rightarrow> SpacesStatus \<Rightarrow> SpacesStatus) \<Rightarrow> int option \<Rightarrow> parking \<Rightarrow> parking" where
  "set_space path store got s =
     (let newBound = bound_or_zero got in
      s\<lparr>cloud_calls := cloud_calls s @ [SetInt path newBound], LastSpacesStatus := store newBound (LastSpacesStatus s)\<rparr>)"

definition SettingSpace1Handler :: "int option \<Rightarrow> parking \<Rightarrow> parking" where
  "SettingSpace1Handler = set_space ''SettingSpacesStatus/Space1'' (\<lambda>n x. x\<lparr>space1 := n\<rparr>)"

definition SettingSpace2Handler :: "int option \<Rightarrow> parking \<Rightarrow> parking" where
  "SettingSpace2Handler = set_space ''SettingSpacesStatus/Space2'' (\<lambda>n x. x\<lparr>space2 := n\<rparr>)"

definition SettingSpace3Handler :: "int option \<Rightarrow> parking \<Rightarrow> parking" where
  "SettingSpace3Handler = set_space ''SettingSpacesStatus/Space3'' (\<lambda>n x. x\<lparr>space3 := n\<rparr>)"

definition SettingSpace4Handler :: "int option \<Rightarrow> parking \<Rightarrow> parking" where
  "SettingSpace4Handler = set_space ''SettingSpacesStatus/Space4'' (\<lambda>n x. x\<lparr>space4 := n\<rparr>)"

definition SettingSpace5Handler :: "int option \<Rightarrow> parking \<Rightarrow> parking" where
  "SettingSpace5Handler = set_space ''SettingSpacesStatus/Space5'' (\<lambda>n x. x\<lparr>space5 := n\<rparr>)"

definition SettingSpace6Handler :: "int option \<Rightarrow> parking \<Rightarrow> parking" where
  "SettingSpace6Handler = set_space ''SettingSpacesStatus/Space6'' (\<lambda>n x. x\<lparr>space6 := n\<rparr>)"

definition SettingSpace7Handler :: "int option \<Rightarrow> parking \<Rightarrow> parking" where
  "SettingSpace7Handler = set_space ''SettingSpacesStatus/Space7'' (\<lambda>n x. x\<lparr>space7 := n\<rparr>)"

definition SettingSpace8Handler :: "int option \<Rightarrow> parking \<Rightarrow> parking" where
  "SettingSpace8Handler = set_space ''SettingSpacesStatus/Space8'' (\<lambda>n x. x\<lparr>space8 := n\<rparr>)"

text \<open>The timer of the app: the latitude (which the app never sets), all spaces, and a publication.\<close>

definition ParkingTimerHandler :: "64 word \<Rightarrow> parking \<Rightarrow> parking" where
  "ParkingTimerHandler now s =
     (let x = LastSpacesStatus s in
      s\<lparr>cloud_calls := cloud_calls s @
        [SetFloat ''location/value/latitude'',
         RecordSpace ''SmartParking.SpacesStatus.Space1'' (space1 x) now,
         RecordSpace ''SmartParking.SpacesStatus.Space2'' (space2 x) now,
         RecordSpace ''SmartParking.SpacesStatus.Space3'' (space3 x) now,
         RecordSpace ''SmartParking.SpacesStatus.Space4'' (space4 x) now,
         RecordSpace ''SmartParking.SpacesStatus.Space5'' (space5 x) now,
         RecordSpace ''SmartParking.SpacesStatus.Space6'' (space6 x) now,
         RecordSpace ''SmartParking.SpacesStatus.Space7'' (space7 x) now,
         RecordSpace ''SmartParking.SpacesStatus.Space8'' (space8 x) now,
         PublishRecord]\<rparr>)"

text \<open>The timer starts and stops with the AirVantage session; it may run already.\<close>

datatype session_change = Session_started | Session_stopped | Session_other

fun ParkingSessionHandler :: "session_change \<Rightarrow> parking \<Rightarrow> parking" where
  "ParkingSessionHandler Session_started s = s\<lparr>ParkingTimer_running := True\<rparr>"
| "ParkingSessionHandler Session_stopped s = s\<lparr>ParkingTimer_running := False\<rparr>"
| "ParkingSessionHandler Session_other s = s"

text \<open>The spaces as an array, and the handler of each.\<close>

definition spaces :: "SpacesStatus \<Rightarrow> int list" where
  "spaces x = [space1 x, space2 x, space3 x, space4 x, space5 x, space6 x, space7 x, space8 x]"

definition setting_handlers :: "(int option \<Rightarrow> parking \<Rightarrow> parking) list" where
  "setting_handlers = [SettingSpace1Handler, SettingSpace2Handler, SettingSpace3Handler, SettingSpace4Handler,
     SettingSpace5Handler, SettingSpace6Handler, SettingSpace7Handler, SettingSpace8Handler]"

lemmas space_defs = setting_handlers_def SettingSpace1Handler_def SettingSpace2Handler_def SettingSpace3Handler_def
  SettingSpace4Handler_def SettingSpace5Handler_def SettingSpace6Handler_def SettingSpace7Handler_def
  SettingSpace8Handler_def set_space_def spaces_def

lemma setting_stored:
  assumes "k < 8"
  shows "spaces (LastSpacesStatus ((setting_handlers ! k) got s)) = (spaces (LastSpacesStatus s))[k := bound_or_zero got]"
proof -
  have "k \<in> {0, 1, 2, 3, 4, 5, 6, 7}" using assms by auto
  then show ?thesis by (auto simp: space_defs Let_def)
qed

definition recorded_values :: "cloud_call list \<Rightarrow> int list" where
  "recorded_values cs = [v. RecordSpace p v t \<leftarrow> cs]"

text \<open>
  The settings AirVantage sends update an array of eight numbers, a setting that cannot be read as zero,
  and a tick of the timer records this array in order.
\<close>

theorem parking_refines:
  assumes "\<forall>(k, got) \<in> set settings. k < 8"
  shows "spaces (LastSpacesStatus (fold (\<lambda>(k, got). (setting_handlers ! k) got) settings s)) =
      fold (\<lambda>(k, got) xs. xs[k := bound_or_zero got]) settings (spaces (LastSpacesStatus s)) \<and>
    recorded_values (cloud_calls (ParkingTimerHandler now s)) = recorded_values (cloud_calls s) @ spaces (LastSpacesStatus s)"
proof
  show "spaces (LastSpacesStatus (fold (\<lambda>(k, got). (setting_handlers ! k) got) settings s)) =
      fold (\<lambda>(k, got) xs. xs[k := bound_or_zero got]) settings (spaces (LastSpacesStatus s))"
    using assms by (induction settings arbitrary: s) (auto simp: setting_stored)
  show "recorded_values (cloud_calls (ParkingTimerHandler now s)) = recorded_values (cloud_calls s) @ spaces (LastSpacesStatus s)"
    by (simp add: ParkingTimerHandler_def recorded_values_def spaces_def Let_def)
qed

lemma parking_refines_witness:
  "spaces (LastSpacesStatus (fold (\<lambda>(k, got). (setting_handlers ! k) got) [(2, Some 1), (7, Some 5), (7, None)] initial_parking)) =
     [0, 0, 1, 0, 0, 0, 0, 0]"
  using parking_refines [of "[(2, Some 1), (7, Some 5), (7, None)]" initial_parking 0]
  by (simp add: initial_parking_def spaces_def bound_or_zero_def)

subsection \<open>The control of two relays\<close>

text \<open>The relays are pins that are active low; the timer is its interval and whether it runs.\<close>

record relay_control =
  channel1_status :: bool
  channel2_status :: bool
  gpioPin8 :: bool
  gpioPin40 :: bool
  SampleTimer_ms :: nat
  SampleTimer_running :: bool
  control_calls :: "cloud_call list"

definition setting_Pin :: "relay_control \<Rightarrow> relay_control" where
  "setting_Pin s = s\<lparr>gpioPin8 := True, gpioPin40 := True\<rparr>"

definition relay_control_start :: relay_control where
  "relay_control_start = setting_Pin \<lparr> channel1_status = False, channel2_status = False, gpioPin8 = False, gpioPin40 = False,
     SampleTimer_ms = 10000, SampleTimer_running = True, control_calls = [] \<rparr>"

text \<open>A value is read and written back before it is used.\<close>

definition write_back :: "string \<Rightarrow> int option \<Rightarrow> relay_control \<Rightarrow> relay_control" where
  "write_back path got s = s\<lparr>control_calls := control_calls s @ [SetInt path (bound_or_zero got)]\<rparr>"

definition ControlTimerHandler :: "relay_control \<Rightarrow> relay_control" where
  "ControlTimerHandler s = s\<lparr>control_calls := control_calls s @ [PublishRecord]\<rparr>"

definition StateChannel1Setting :: "int option \<Rightarrow> relay_control \<Rightarrow> relay_control" where
  "StateChannel1Setting got s =
     (let s = write_back ''channelSetting/StateChannel1'' got s in
      if bound_or_zero got = 0 then s\<lparr>gpioPin8 := False, channel1_status := False\<rparr>
      else s\<lparr>gpioPin8 := True, channel1_status := True\<rparr>)"

definition StateChannel2Setting :: "int option \<Rightarrow> relay_control \<Rightarrow> relay_control" where
  "StateChannel2Setting got s =
     (let s = write_back ''channelSetting/StateChannel2'' got s in
      if bound_or_zero got = 0 then s\<lparr>gpioPin40 := False, channel2_status := False\<rparr>
      else s\<lparr>gpioPin40 := True, channel2_status := True\<rparr>)"

text \<open>The product is an \<open>int\<close>, whose overflow is undefined.\<close>

definition BlinkChannel1Setting :: "int option \<Rightarrow> relay_control \<Rightarrow> relay_control option" where
  "BlinkChannel1Setting got s =
     (let s = write_back ''channelSetting/BlinkChannel1'' got s; n = bound_or_zero got in
      if n < 0 then Some s
      else if n = 0 then Some (s\<lparr>SampleTimer_running := False\<rparr>)
      else if n * 1000 < 2 ^ 31 then Some (s\<lparr>SampleTimer_ms := nat (n * 1000)\<rparr>)
      else None)"

fun RelaySessionHandler :: "session_change \<Rightarrow> relay_control \<Rightarrow> relay_control" where
  "RelaySessionHandler Session_started s = s\<lparr>SampleTimer_running := True\<rparr>"
| "RelaySessionHandler Session_stopped s = s\<lparr>SampleTimer_running := False\<rparr>"
| "RelaySessionHandler Session_other s = s"

text \<open>What happens to the app.\<close>

datatype control_event =
    SetChannel1 "int option"
  | SetChannel2 "int option"
  | SetBlink "int option"
  | Session session_change
  | Tick

fun control :: "control_event \<Rightarrow> relay_control \<Rightarrow> relay_control option" where
  "control (SetChannel1 got) s = Some (StateChannel1Setting got s)"
| "control (SetChannel2 got) s = Some (StateChannel2Setting got s)"
| "control (SetBlink got) s = BlinkChannel1Setting got s"
| "control (Session x) s = Some (RelaySessionHandler x s)"
| "control Tick s = Some (ControlTimerHandler s)"

inductive controlled :: "control_event list \<Rightarrow> relay_control \<Rightarrow> bool" where
  started: "controlled [] relay_control_start"
| event: "controlled es s \<Longrightarrow> control e s = Some s' \<Longrightarrow> controlled (es @ [e]) s'"

fun sets1 :: "control_event \<Rightarrow> bool" where
  "sets1 (SetChannel1 got) = True"
| "sets1 e = False"

fun sets2 :: "control_event \<Rightarrow> bool" where
  "sets2 (SetChannel2 got) = True"
| "sets2 e = False"

definition follows :: "bool \<Rightarrow> bool \<Rightarrow> bool \<Rightarrow> bool" where
  "follows was_set pin_level status = (if was_set then pin_level = status else pin_level \<and> \<not> status)"

lemma control_step:
  assumes "control e s = Some s'"
  shows "gpioPin8 s' = (if sets1 e then channel1_status s' else gpioPin8 s)" "\<not> sets1 e \<Longrightarrow> channel1_status s' = channel1_status s"
    "gpioPin40 s' = (if sets2 e then channel2_status s' else gpioPin40 s)" "\<not> sets2 e \<Longrightarrow> channel2_status s' = channel2_status s"
    "0 < SampleTimer_ms s \<Longrightarrow> 0 < SampleTimer_ms s'"
proof -
  have "gpioPin8 s' = (if sets1 e then channel1_status s' else gpioPin8 s) \<and> (\<not> sets1 e \<longrightarrow> channel1_status s' = channel1_status s) \<and>
    gpioPin40 s' = (if sets2 e then channel2_status s' else gpioPin40 s) \<and> (\<not> sets2 e \<longrightarrow> channel2_status s' = channel2_status s) \<and>
    (0 < SampleTimer_ms s \<longrightarrow> 0 < SampleTimer_ms s')"
  proof (cases e)
    case (SetBlink got)
    then show ?thesis using assms
      by (cases "bound_or_zero got < 0"; cases "bound_or_zero got = 0"; cases "bound_or_zero got * 1000 < 2 ^ 31")
        (auto simp: BlinkChannel1Setting_def write_back_def Let_def)
  next
    case (Session x)
    then show ?thesis using assms by (cases x) auto
  next
    case Tick
    then show ?thesis using assms by (auto simp: ControlTimerHandler_def)
  next
    case (SetChannel1 got)
    then show ?thesis using assms by (cases "bound_or_zero got = 0") (auto simp: StateChannel1Setting_def write_back_def Let_def)
  next
    case (SetChannel2 got)
    then show ?thesis using assms by (cases "bound_or_zero got = 0") (auto simp: StateChannel2Setting_def write_back_def Let_def)
  qed
  then show "gpioPin8 s' = (if sets1 e then channel1_status s' else gpioPin8 s)" "\<not> sets1 e \<Longrightarrow> channel1_status s' = channel1_status s"
    "gpioPin40 s' = (if sets2 e then channel2_status s' else gpioPin40 s)" "\<not> sets2 e \<Longrightarrow> channel2_status s' = channel2_status s"
    "0 < SampleTimer_ms s \<Longrightarrow> 0 < SampleTimer_ms s'" by blast+
qed

text \<open>
  The pin of a channel has the status of the channel once the channel was set, but both relays start
  active while their status is off; the interval of the timer is always positive.
\<close>

theorem pins_follow:
  assumes "controlled es s"
  shows "follows (\<exists>e \<in> set es. sets1 e) (gpioPin8 s) (channel1_status s) \<and>
    follows (\<exists>e \<in> set es. sets2 e) (gpioPin40 s) (channel2_status s) \<and> 0 < SampleTimer_ms s"
  using assms
proof (induction rule: controlled.induct)
  case started
  then show ?case by (simp add: relay_control_start_def setting_Pin_def follows_def)
next
  case (event es s e s')
  note step = control_step [OF event.hyps(2)]
  have "follows (\<exists>f \<in> set (es @ [e]). sets1 f) (gpioPin8 s') (channel1_status s')"
    using event.IH step(1,2) by (cases "sets1 e") (simp_all add: follows_def)
  moreover have "follows (\<exists>f \<in> set (es @ [e]). sets2 f) (gpioPin40 s') (channel2_status s')"
    using event.IH step(3,4) by (cases "sets2 e") (simp_all add: follows_def)
  ultimately show ?case using event.IH step(5) by blast
qed

lemma pins_follow_witness:
  "\<exists>s. controlled [SetChannel1 (Some 1), Session Session_stopped] s \<and> gpioPin8 s = channel1_status s \<and> gpioPin40 s"
proof -
  have "controlled ([] @ [SetChannel1 (Some 1)]) (StateChannel1Setting (Some 1) relay_control_start)"
    by (rule event [OF started]) simp
  then have "controlled (([] @ [SetChannel1 (Some 1)]) @ [Session Session_stopped])
      (RelaySessionHandler Session_stopped (StateChannel1Setting (Some 1) relay_control_start))"
    by (rule event) simp
  then obtain s where s: "controlled [SetChannel1 (Some 1), Session Session_stopped] s" by auto
  from pins_follow [OF s] show ?thesis using s by (auto simp: follows_def)
qed

end
